(* ===== verification/Prelude.thy ===== *)
theory Prelude
  imports Main "HOL-Library.Word"
begin

text \<open>
  Shared vocabulary of the development: the machine integer types of the C and C++
  sources, the \<open>error\<close> / \<open>result\<close> pair of
  \<^verbatim>\<open>include/panopticon/linux_agent/error.hpp\<close>, the standard-library algorithms the sources
  use on sequences (\<open>std::find_if\<close>, \<open>std::max_element\<close>, \<open>erase\<close>), decimal text, and the
  collections of rewrite rules the component theories extend.
\<close>

unbundle bit_operations_syntax

section \<open>Machine integers\<close>

type_synonym u8 = "8 word"
type_synonym u16 = "16 word"
type_synonym u32 = "32 word"
type_synonym u64 = "64 word"
type_synonym byte = "8 word"

section \<open>Collections of rules\<close>

named_theorems codec_simps \<open>lengths and splits of fixed-width encodings\<close>
named_theorems inv_simps \<open>unfolding rules for the components' invariants\<close>

section \<open>Errors as values\<close>

datatype error_code =
    invalid_input
  | resource_limit
  | replay_detected
  | target_mismatch
  | unsupported_action
  | expired
  | io_failure
  | corrupt_data

datatype error = Error (code: error_code) (message: string)

type_synonym 'a result = "error + 'a"

definition succeeded :: "'a result \<Rightarrow> bool" where
  "succeeded r = (case r of Inl _ \<Rightarrow> False | Inr _ \<Rightarrow> True)"

lemma succeeded_simps [simp]: "\<not> succeeded (Inl e)" "succeeded (Inr v)"
  by (simp_all add: succeeded_def)

section \<open>Sequence algorithms of the standard library\<close>

text \<open>\<open>std::find_if\<close>: the index of the first match.\<close>

fun find_if :: "('a \<Rightarrow> bool) \<Rightarrow> 'a list \<Rightarrow> nat option" where
  "find_if P [] = None"
| "find_if P (x # xs) = (if P x then Some 0 else map_option Suc (find_if P xs))"

text \<open>\<open>container.erase(iterator)\<close> at an index.\<close>

definition erase :: "nat \<Rightarrow> 'a list \<Rightarrow> 'a list" where
  "erase i xs = take i xs @ drop (Suc i) xs"

text \<open>
  \<open>std::max_element\<close> keeps the first of the largest elements: the candidate moves only when
  it compares less than the element at hand.
\<close>

fun max_scan :: "('a \<Rightarrow> 'a \<Rightarrow> bool) \<Rightarrow> 'a list \<Rightarrow> nat \<Rightarrow> 'a \<Rightarrow> nat \<Rightarrow> nat" where
  "max_scan lt [] best b i = best"
| "max_scan lt (x # xs) best b i =
     (if lt b x then max_scan lt xs i x (Suc i) else max_scan lt xs best b (Suc i))"

definition max_element :: "('a \<Rightarrow> 'a \<Rightarrow> bool) \<Rightarrow> 'a list \<Rightarrow> nat option" where
  "max_element lt xs = (case xs of [] \<Rightarrow> None | x # ys \<Rightarrow> Some (max_scan lt ys 0 x 1))"

lemma find_if_SomeD:
  "find_if P xs = Some i \<Longrightarrow> i < length xs \<and> P (xs ! i) \<and> (\<forall>j<i. \<not> P (xs ! j))"
proof (induction xs arbitrary: i)
  case (Cons x xs)
  show ?case
  proof (cases "P x")
    case True
    with Cons.prems show ?thesis by auto
  next
    case False
    with Cons.prems obtain k where k: "find_if P xs = Some k" "i = Suc k" by auto
    from Cons.IH [OF k(1)] False k(2) show ?thesis
      by (auto simp: nth_Cons split: nat.split)
  qed
qed simp

lemma find_if_None_iff: "find_if P xs = None \<longleftrightarrow> (\<forall>x\<in>set xs. \<not> P x)"
  by (induction xs) auto

lemma erase_simps [simp]:
  "erase 0 (x # xs) = xs"
  "erase (Suc i) (x # xs) = x # erase i xs"
  "erase i [] = []"
  by (simp_all add: erase_def)

lemma length_erase: "i < length xs \<Longrightarrow> length (erase i xs) = length xs - 1"
  by (simp add: erase_def)

lemma length_erase_Suc: "i < length xs \<Longrightarrow> Suc (length (erase i xs)) = length xs"
  by (simp add: erase_def)

lemma set_erase_subset: "set (erase i xs) \<subseteq> set xs"
  by (auto simp: erase_def dest: in_set_takeD in_set_dropD)

lemma erase_split: "i < length xs \<Longrightarrow> xs = take i xs @ xs ! i # drop (Suc i) xs"
  by (rule id_take_nth_drop)

lemma nth_in_erase:
  assumes "j < length xs" and "j \<noteq> i"
  shows "xs ! j \<in> set (erase i xs)"
proof (cases "j < i")
  case True
  with assms have "take i xs ! j \<in> set (take i xs)" by (intro nth_mem) simp
  with True show ?thesis by (simp add: erase_def)
next
  case False
  with assms have "drop (Suc i) xs ! (j - Suc i) \<in> set (drop (Suc i) xs)" by (intro nth_mem) simp
  with False assms show ?thesis by (simp add: erase_def)
qed

lemma nth_in_update: "j < length xs \<Longrightarrow> j \<noteq> i \<Longrightarrow> xs ! j \<in> set (xs[i := y])"
  by (metis length_list_update nth_list_update_neq nth_mem)

text \<open>The element \<open>max_element\<close> finds: nothing is larger, and everything before it is smaller.\<close>

lemma max_scan_spec:
  fixes f :: "'a \<Rightarrow> 'b::linorder"
  assumes "best < length pre" "pre ! best = b"
    and "\<forall>j<length pre. f (pre ! j) \<le> f b" "\<forall>j<best. f (pre ! j) < f b"
  shows "let m = max_scan (\<lambda>a b. f a < f b) xs best b (length pre); ys = pre @ xs in
           m < length ys \<and> (\<forall>j<length ys. f (ys ! j) \<le> f (ys ! m)) \<and> (\<forall>j<m. f (ys ! j) < f (ys ! m))"
  using assms
proof (induction xs arbitrary: pre best b)
  case Nil
  then show ?case by (simp add: Let_def)
next
  case (Cons x xs)
  let ?pre = "pre @ [x]"
  show ?case
  proof (cases "f b < f x")
    case True
    have "\<forall>j<length ?pre. f (?pre ! j) \<le> f x"
      using Cons.prems(3) True by (auto simp: nth_append less_Suc_eq intro: order.trans less_imp_le)
    moreover have "\<forall>j<length pre. f (?pre ! j) < f x"
      using Cons.prems(3) True by (auto simp: nth_append intro: le_less_trans)
    ultimately show ?thesis
      using Cons.IH [of "length pre" ?pre x] True by (simp add: Let_def)
  next
    case False
    have "\<forall>j<length ?pre. f (?pre ! j) \<le> f b"
      using Cons.prems(3) False by (auto simp: nth_append less_Suc_eq)
    moreover have "\<forall>j<best. f (?pre ! j) < f b"
      using Cons.prems(1,4) by (auto simp: nth_append)
    moreover have "best < length ?pre" "?pre ! best = b"
      using Cons.prems(1,2) by (auto simp: nth_append)
    ultimately show ?thesis
      using Cons.IH [of best ?pre b] False by (simp add: Let_def)
  qed
qed

lemma max_element_SomeD:
  fixes f :: "'a \<Rightarrow> 'b::linorder"
  assumes "max_element (\<lambda>a b. f a < f b) xs = Some m"
  shows "m < length xs" "\<forall>j<length xs. f (xs ! j) \<le> f (xs ! m)" "\<forall>j<m. f (xs ! j) < f (xs ! m)"
proof -
  from assms obtain x ys where xs: "xs = x # ys" and m: "m = max_scan (\<lambda>a b. f a < f b) ys 0 x 1"
    by (auto simp: max_element_def split: list.splits)
  show "m < length xs" "\<forall>j<length xs. f (xs ! j) \<le> f (xs ! m)" "\<forall>j<m. f (xs ! j) < f (xs ! m)"
    using max_scan_spec [where pre = "[x]" and best = 0 and b = x and xs = ys and f = f] xs m
    by (simp_all add: Let_def)
qed

lemma max_element_None_iff: "max_element lt xs = None \<longleftrightarrow> xs = []"
  by (simp add: max_element_def split: list.split)

section \<open>Decimal text\<close>

text \<open>\<open>std::to_string\<close> on an unsigned value: its decimal digits, most significant first.\<close>

definition digit_char :: "nat \<Rightarrow> char" where
  "digit_char d = char_of (48 + d)"

fun to_string :: "nat \<Rightarrow> string" where
  "to_string n = (if n < 10 then [digit_char n] else to_string (n div 10) @ [digit_char (n mod 10)])"

declare to_string.simps [simp del]

text \<open>Reading digits, as \<open>std::from_chars\<close> accumulates them.\<close>

definition is_digit :: "char \<Rightarrow> bool" where
  "is_digit c \<longleftrightarrow> 48 \<le> (of_char c :: nat) \<and> (of_char c :: nat) \<le> 57"

definition digits_value :: "string \<Rightarrow> nat" where
  "digits_value ds = fold (\<lambda>c v. v * 10 + (of_char c - 48)) ds 0"

lemma of_char_digit_char [simp]: "d < 10 \<Longrightarrow> of_char (digit_char d) = (48 + d :: nat)"
  by (simp add: digit_char_def)

lemma is_digit_digit_char [simp]: "d < 10 \<Longrightarrow> is_digit (digit_char d)"
  by (simp add: is_digit_def)

lemma to_string_digits: "\<forall>c\<in>set (to_string n). is_digit c"
proof (induction n rule: to_string.induct)
  case (1 n)
  then show ?case by (subst to_string.simps) auto
qed

lemma to_string_nonempty: "to_string n \<noteq> []"
  by (subst to_string.simps) simp

lemma digits_value_to_string: "digits_value (to_string n) = n"
proof (induction n rule: to_string.induct)
  case (1 n)
  show ?case
  proof (cases "n < 10")
    case True
    then show ?thesis by (subst to_string.simps) (simp add: digits_value_def)
  next
    case False
    with 1 have "digits_value (to_string (n div 10)) = n div 10" by simp
    with False show ?thesis by (subst to_string.simps) (simp add: digits_value_def)
  qed
qed

lemma to_string_inj: "to_string m = to_string n \<longleftrightarrow> m = n"
  by (metis digits_value_to_string)

end
