(* ===== verification/Event_Queue.thy ===== *)
theory Event_Queue
  imports Prelude "HOL-Library.Sublist"
begin

text \<open>
  The two bounded in-memory queues between producers and the pipeline:
  \<open>bounded_priority_queue\<close> (\<^verbatim>\<open>include/panopticon/linux_agent/queue.hpp\<close>) and
  \<open>record_queue\<close> (\<^verbatim>\<open>include/panopticon/linux_agent/sensor/provider.hpp\<close>), with the
  reconnect delay of \<^verbatim>\<open>retry.hpp\<close>. Both queues refuse or displace work when they are full
  and count what they lost; the contract they share is the locale \<open>lossy_buffer\<close>, interpreted
  on both. A method runs under the queue's mutex, so each is one atomic step on the state.
\<close>

section \<open>The priority queue\<close>

datatype event_priority = Low | Normal | Security

instantiation event_priority :: linorder
begin

definition prio_rank :: "event_priority \<Rightarrow> nat" where
  "prio_rank p = (case p of Low \<Rightarrow> 0 | Normal \<Rightarrow> 1 | Security \<Rightarrow> 2)"

definition less_eq_event_priority :: "event_priority \<Rightarrow> event_priority \<Rightarrow> bool" where
  "less_eq_event_priority a b \<longleftrightarrow> prio_rank a \<le> prio_rank b"

definition less_event_priority :: "event_priority \<Rightarrow> event_priority \<Rightarrow> bool" where
  "less_event_priority a b \<longleftrightarrow> prio_rank a < prio_rank b"

instance
  by standard
    (auto simp: less_eq_event_priority_def less_event_priority_def prio_rank_def
      split: event_priority.splits)

end

lemma priority_le_Security [simp]: "(p::event_priority) \<le> Security"
  by (cases p) (simp_all add: less_eq_event_priority_def prio_rank_def)

record 'a prio_queue =
  pq_capacity :: nat
  pq_items :: "(event_priority \<times> 'a) list"
  pq_dropped :: u64

definition bounded_priority_queue :: "nat \<Rightarrow> 'a prio_queue" where
  "bounded_priority_queue capacity = \<lparr>pq_capacity = capacity, pq_items = [], pq_dropped = 0\<rparr>"

definition try_push :: "'a prio_queue \<Rightarrow> event_priority \<Rightarrow> 'a \<Rightarrow> bool \<times> 'a prio_queue" where
  "try_push q priority item =
     (if pq_capacity q = 0 then (False, q\<lparr>pq_dropped := pq_dropped q + 1\<rparr>)
      else if length (pq_items q) = pq_capacity q then
        (case find_if (\<lambda>e. fst e < priority) (pq_items q) of
           None \<Rightarrow> (False, q\<lparr>pq_dropped := pq_dropped q + 1\<rparr>)
         | Some i \<Rightarrow> (True, q\<lparr>pq_items := erase i (pq_items q) @ [(priority, item)],
                             pq_dropped := pq_dropped q + 1\<rparr>))
      else (True, q\<lparr>pq_items := pq_items q @ [(priority, item)]\<rparr>))"

definition try_pop :: "'a prio_queue \<Rightarrow> 'a option \<times> 'a prio_queue" where
  "try_pop q =
     (case max_element (\<lambda>a b. fst a < fst b) (pq_items q) of
        None \<Rightarrow> (None, q)
      | Some i \<Rightarrow> (Some (snd (pq_items q ! i)), q\<lparr>pq_items := erase i (pq_items q)\<rparr>))"

definition pq_metrics :: "'a prio_queue \<Rightarrow> nat \<times> u64" where
  "pq_metrics q = (length (pq_items q), pq_dropped q)"

definition pq_inv :: "'a prio_queue \<Rightarrow> bool" where
  "pq_inv q \<longleftrightarrow> length (pq_items q) \<le> pq_capacity q"

section \<open>The record queue\<close>

text \<open>
  \<open>record_queue\<close> keeps arrival order and refuses new records when it is full. Its
  \<open>wake_threshold_\<close> starts at \<open>static_cast<std::size_t>(-1)\<close>.
\<close>

definition no_threshold :: nat where
  "no_threshold = 2 ^ 64 - 1"

record 'a record_queue =
  rq_capacity :: nat
  rq_items :: "'a list"
  rq_dropped :: u64
  wake_threshold :: nat
  woken :: bool

definition record_queue_new :: "nat \<Rightarrow> 'a record_queue" where
  "record_queue_new capacity =
     \<lparr>rq_capacity = capacity, rq_items = [], rq_dropped = 0, wake_threshold = no_threshold, woken = False\<rparr>"

text \<open>\<open>push\<close> returns whether the record was taken and whether the consumer is notified.\<close>

definition rq_push :: "'a record_queue \<Rightarrow> 'a \<Rightarrow> (bool \<times> bool) \<times> 'a record_queue" where
  "rq_push q r =
     (if rq_capacity q \<le> length (rq_items q) then ((False, False), q\<lparr>rq_dropped := rq_dropped q + 1\<rparr>)
      else let items = rq_items q @ [r]
           in ((True, wake_threshold q \<le> length items), q\<lparr>rq_items := items\<rparr>))"

definition rq_wake :: "'a record_queue \<Rightarrow> 'a record_queue" where
  "rq_wake q = q\<lparr>woken := True\<rparr>"

definition take_dropped :: "'a record_queue \<Rightarrow> u64 \<times> 'a record_queue" where
  "take_dropped q = (rq_dropped q, q\<lparr>rq_dropped := 0\<rparr>)"

text \<open>
  A wait on the condition variable releases the mutex, so other threads' \<open>push\<close> and
  \<open>wake\<close> calls run there. They are the argument of \<open>while_waiting\<close>.
\<close>

datatype 'a rq_event = Push 'a | Wake

fun rq_event_step :: "'a rq_event \<Rightarrow> 'a record_queue \<Rightarrow> 'a record_queue" where
  "rq_event_step (Push r) q = snd (rq_push q r)"
| "rq_event_step Wake q = rq_wake q"

definition while_waiting :: "'a rq_event list \<Rightarrow> 'a record_queue \<Rightarrow> 'a record_queue" where
  "while_waiting es q = fold rq_event_step es q"

definition pop_batch ::
  "'a record_queue \<Rightarrow> nat \<Rightarrow> nat \<Rightarrow> 'a rq_event list \<Rightarrow> 'a rq_event list \<Rightarrow> 'a list \<times> 'a record_queue"
where
  "pop_batch q maximum linger during_timeout during_linger =
     (let q1 = (if rq_items q = [] then while_waiting during_timeout (q\<lparr>wake_threshold := 1\<rparr>) else q);
          q2 = (if rq_items q1 \<noteq> [] \<and> length (rq_items q1) < maximum \<and> 0 < linger \<and> \<not> woken q1
                then while_waiting during_linger (q1\<lparr>wake_threshold := maximum\<rparr>) else q1);
          q3 = q2\<lparr>wake_threshold := no_threshold, woken := False\<rparr>
      in (take maximum (rq_items q3), q3\<lparr>rq_items := drop maximum (rq_items q3)\<rparr>))"

definition rq_inv :: "'a record_queue \<Rightarrow> bool" where
  "rq_inv q \<longleftrightarrow> length (rq_items q) \<le> rq_capacity q"

section \<open>Reconnect delay\<close>

text \<open>Durations are \<open>std::chrono::milliseconds\<close>, signed; the attempt counter is unsigned.\<close>

record retry_policy =
  rp_initial :: int
  rp_maximum :: int
  rp_maximum_attempts :: nat

definition trunc_half :: "int \<Rightarrow> int" where
  "trunc_half m = (if 0 \<le> m then m div 2 else - ((- m) div 2))"

fun retry_loop :: "int \<Rightarrow> int \<Rightarrow> nat \<Rightarrow> int" where
  "retry_loop maxi delay 0 = delay"
| "retry_loop maxi delay (Suc n) =
     (if delay < trunc_half maxi then retry_loop maxi (delay * 2) n else delay)"

definition retry_delay :: "retry_policy \<Rightarrow> nat \<Rightarrow> int" where
  "retry_delay policy attempt =
     (if rp_maximum_attempts policy \<le> attempt \<or> rp_initial policy \<le> 0 \<or> rp_maximum policy < rp_initial policy then 0
      else min (retry_loop (rp_maximum policy) (rp_initial policy) attempt) (rp_maximum policy))"

section \<open>The contract the two queues share\<close>

locale lossy_buffer =
  fixes push :: "'x \<Rightarrow> 'q \<Rightarrow> 'q"
    and size_of :: "'q \<Rightarrow> nat"
    and capacity_of :: "'q \<Rightarrow> nat"
    and lost :: "'q \<Rightarrow> u64"
  assumes push_accounts:
      "of_nat (size_of (push x q)) + lost (push x q) = of_nat (size_of q) + lost q + 1"
    and push_capacity: "capacity_of (push x q) = capacity_of q"
    and push_bounded: "size_of q \<le> capacity_of q \<Longrightarrow> size_of (push x q) \<le> capacity_of q"
begin

lemma burst_accounts:
  "of_nat (size_of (fold push xs q)) + lost (fold push xs q) = of_nat (size_of q) + lost q + of_nat (length xs)"
proof (induction xs arbitrary: q)
  case (Cons x xs)
  then show ?case by (simp add: push_accounts)
qed simp

lemma burst_bounded:
  "size_of q \<le> capacity_of q \<Longrightarrow>
   size_of (fold push xs q) \<le> capacity_of q \<and> capacity_of (fold push xs q) = capacity_of q"
proof (induction xs arbitrary: q)
  case (Cons x xs)
  have "size_of (push x q) \<le> capacity_of (push x q)"
    using push_bounded [OF Cons.prems] by (simp add: push_capacity)
  from Cons.IH [OF this] show ?case by (simp add: push_capacity)
qed simp

end

abbreviation pq_push :: "event_priority \<times> 'a \<Rightarrow> 'a prio_queue \<Rightarrow> 'a prio_queue" where
  "pq_push e q \<equiv> snd (try_push q (fst e) (snd e))"

lemma pq_push_accounts:
  "of_nat (length (pq_items (pq_push e q))) + pq_dropped (pq_push e q) =
   of_nat (length (pq_items q)) + pq_dropped q + 1"
proof (cases "find_if (\<lambda>x. fst x < fst e) (pq_items q)")
  case None
  then show ?thesis by (auto simp: try_push_def)
next
  case (Some i)
  then have "i < length (pq_items q)" by (auto dest: find_if_SomeD)
  then have "Suc (length (erase i (pq_items q))) = length (pq_items q)" by (rule length_erase_Suc)
  then show ?thesis using Some by (auto simp: try_push_def)
qed

lemma pq_push_bounded: "pq_inv q \<Longrightarrow> pq_inv (pq_push e q)"
  by (auto simp: pq_inv_def try_push_def length_erase split: option.splits dest!: find_if_SomeD)

lemma pq_push_capacity: "pq_capacity (pq_push e q) = pq_capacity q"
  by (auto simp: try_push_def split: option.splits)

interpretation pq: lossy_buffer pq_push "\<lambda>q. length (pq_items q)" pq_capacity pq_dropped
proof unfold_locales
  fix e :: "event_priority \<times> 'a" and q :: "'a prio_queue"
  show "of_nat (length (pq_items (pq_push e q))) + pq_dropped (pq_push e q) =
      of_nat (length (pq_items q)) + pq_dropped q + 1"
    by (rule pq_push_accounts)
  show "pq_capacity (pq_push e q) = pq_capacity q" by (rule pq_push_capacity)
  show "length (pq_items (pq_push e q)) \<le> pq_capacity q" if "length (pq_items q) \<le> pq_capacity q"
    using that pq_push_bounded [of q e] by (simp add: pq_inv_def pq_push_capacity)
qed

abbreviation rq_push_state :: "'a \<Rightarrow> 'a record_queue \<Rightarrow> 'a record_queue" where
  "rq_push_state r q \<equiv> snd (rq_push q r)"

interpretation rq: lossy_buffer rq_push_state "\<lambda>q. length (rq_items q)" rq_capacity rq_dropped
  by unfold_locales (auto simp: rq_push_def Let_def)

section \<open>Priority order\<close>

text \<open>The waiting items of one priority, oldest first: the queue as three queues.\<close>

definition class_of :: "'a prio_queue \<Rightarrow> event_priority \<Rightarrow> 'a list" where
  "class_of q p = map snd (filter (\<lambda>e. fst e = p) (pq_items q))"

lemma filter_before_max:
  fixes m :: event_priority
  assumes "\<forall>j<i. fst (xs ! j) < m" "i \<le> length xs"
  shows "filter (\<lambda>e. fst e = m) (take i xs) = []"
  using assms by (force simp: filter_empty_conv in_set_conv_nth)

lemma class_of_split:
  assumes "i < length (pq_items q)"
  shows "class_of q p =
    map snd (filter (\<lambda>e. fst e = p) (take i (pq_items q))) @
    (if fst (pq_items q ! i) = p then [snd (pq_items q ! i)] else []) @
    map snd (filter (\<lambda>e. fst e = p) (drop (Suc i) (pq_items q)))"
  by (subst erase_split [OF assms, THEN arg_cong [of _ _ "\<lambda>xs. map snd (filter (\<lambda>e. fst e = p) xs)"],
        folded class_of_def]) simp

lemma class_of_erase:
  assumes "i < length (pq_items q)" and "\<forall>j<i. fst (pq_items q ! j) < fst (pq_items q ! i)"
  shows "class_of q (fst (pq_items q ! i)) = snd (pq_items q ! i) #
      class_of (q\<lparr>pq_items := erase i (pq_items q)\<rparr>) (fst (pq_items q ! i))"
    and "p \<noteq> fst (pq_items q ! i) \<Longrightarrow>
      class_of (q\<lparr>pq_items := erase i (pq_items q)\<rparr>) p = class_of q p"
proof -
  let ?m = "fst (pq_items q ! i)"
  have before: "filter (\<lambda>e. fst e = ?m) (take i (pq_items q)) = []"
    using assms by (intro filter_before_max) auto
  show "class_of q ?m = snd (pq_items q ! i) # class_of (q\<lparr>pq_items := erase i (pq_items q)\<rparr>) ?m"
    by (subst class_of_split [OF assms(1)]) (simp add: class_of_def erase_def before)
  show "class_of (q\<lparr>pq_items := erase i (pq_items q)\<rparr>) p = class_of q p" if "p \<noteq> ?m"
    using that by (subst class_of_split [OF assms(1)]) (simp add: class_of_def erase_def)
qed

text \<open>
  \<open>try_pop\<close> refines the three-queue specification: it takes the oldest item of the
  highest priority that is waiting, leaves the other priorities as they were, and returns
  nothing only on an empty queue.
\<close>

theorem try_pop_refines:
  "case try_pop q of
     (None, q') \<Rightarrow> q' = q \<and> pq_items q = []
   | (Some x, q') \<Rightarrow> \<exists>p. class_of q p = x # class_of q' p \<and>
       (\<forall>p'. p' \<noteq> p \<longrightarrow> class_of q' p' = class_of q p') \<and> (\<forall>p'>p. class_of q p' = [])"
proof (cases "max_element (\<lambda>a b. fst a < fst b) (pq_items q)")
  case None
  then have "pq_items q = []" by (simp add: max_element_None_iff)
  then show ?thesis by (simp add: try_pop_def max_element_def)
next
  case (Some i)
  let ?m = "fst (pq_items q ! i)"
  note m = max_element_SomeD [OF Some]
  have "class_of q p' = []" if "p' > ?m" for p'
    using m(2) that by (force simp: class_of_def filter_empty_conv in_set_conv_nth)
  then show ?thesis
    using Some class_of_erase [OF m(1,3)] by (auto simp: try_pop_def)
qed

theorem try_pop_refines_witness:
  "case try_pop \<lparr>pq_capacity = 3, pq_items = [(Low, 1), (Security, 2), (Security, 3::nat)], pq_dropped = 0\<rparr> of
     (None, q') \<Rightarrow> False
   | (Some x, q') \<Rightarrow> \<exists>p. class_of \<lparr>pq_capacity = 3, pq_items = [(Low, 1), (Security, 2), (Security, 3::nat)],
         pq_dropped = 0\<rparr> p = x # class_of q' p"
  using try_pop_refines [of "\<lparr>pq_capacity = 3, pq_items = [(Low, 1), (Security, 2), (Security, 3::nat)],
    pq_dropped = 0\<rparr>"]
  by (auto split: prod.splits option.splits)

text \<open>
  What a full queue does to a new item: it is refused only when every waiting item has at
  least its priority, and an accepted item displaces one strictly less important item and
  nothing else. A security event is therefore never displaced, and is refused only by a queue
  full of security events.
\<close>

theorem try_push_full:
  assumes "length (pq_items q) = pq_capacity q" and "pq_capacity q \<noteq> 0"
  shows "case try_push q p x of
      (False, q') \<Rightarrow> (\<forall>e\<in>set (pq_items q). p \<le> fst e) \<and> pq_items q' = pq_items q
    | (True, q') \<Rightarrow> \<exists>i<length (pq_items q). fst (pq_items q ! i) < p \<and>
        pq_items q' = erase i (pq_items q) @ [(p, x)]"
proof (cases "find_if (\<lambda>e. fst e < p) (pq_items q)")
  case None
  moreover from this have "\<forall>e\<in>set (pq_items q). p \<le> fst e" by (simp add: find_if_None_iff not_less)
  ultimately show ?thesis using assms by (simp add: try_push_def)
next
  case (Some i)
  from find_if_SomeD [OF this] show ?thesis using assms Some by (auto simp: try_push_def)
qed

theorem try_push_full_witness:
  "case try_push \<lparr>pq_capacity = 1, pq_items = [(Low, 1::nat)], pq_dropped = 0\<rparr> Security 2 of
      (False, q') \<Rightarrow> False
    | (True, q') \<Rightarrow> pq_items q' = [(Security, 2)]"
  using try_push_full [of "\<lparr>pq_capacity = 1, pq_items = [(Low, 1::nat)], pq_dropped = 0\<rparr>" Security 2]
  by (auto simp: less_eq_event_priority_def prio_rank_def split: prod.splits bool.splits)

section \<open>Order and loss accounting of the record queue\<close>

text \<open>
  A run of the queue: producers' events, batches taken by the pipeline (with the events that
  arrive while it waits) and readings of the loss counter. The ghost log keeps what was
  offered, what was handed over, and the losses already reported.
\<close>

datatype 'a rq_op = Event "'a rq_event" | Batch nat nat "'a rq_event list" "'a rq_event list" | TakeDropped

record 'a rq_log =
  offered :: "'a list"
  handed :: "'a list"
  reported :: u64

definition pushes :: "'a rq_event list \<Rightarrow> 'a list" where
  "pushes es = List.map_filter (\<lambda>e. case e of Push r \<Rightarrow> Some r | Wake \<Rightarrow> None) es"

definition waits_first :: "'a record_queue \<Rightarrow> bool" where
  "waits_first q \<longleftrightarrow> rq_items q = []"

definition waits_linger :: "'a record_queue \<Rightarrow> nat \<Rightarrow> nat \<Rightarrow> bool" where
  "waits_linger q1 maximum linger \<longleftrightarrow>
     rq_items q1 \<noteq> [] \<and> length (rq_items q1) < maximum \<and> 0 < linger \<and> \<not> woken q1"

definition after_timeout :: "'a rq_event list \<Rightarrow> 'a record_queue \<Rightarrow> 'a record_queue" where
  "after_timeout es q = (if waits_first q then while_waiting es (q\<lparr>wake_threshold := 1\<rparr>) else q)"

fun rq_run_step :: "'a rq_op \<Rightarrow> 'a record_queue \<times> 'a rq_log \<Rightarrow> 'a record_queue \<times> 'a rq_log" where
  "rq_run_step (Event e) (q, g) = (rq_event_step e q, g\<lparr>offered := offered g @ pushes [e]\<rparr>)"
| "rq_run_step (Batch m l es es') (q, g) =
     (let (out, q') = pop_batch q m l es es'
      in (q', g\<lparr>offered := offered g @ (if waits_first q then pushes es else []) @
                  (if waits_linger (after_timeout es q) m l then pushes es' else []),
               handed := handed g @ out\<rparr>))"
| "rq_run_step TakeDropped (q, g) =
     (let (n, q') = take_dropped q in (q', g\<lparr>reported := reported g + n\<rparr>))"

definition rq_accounted :: "'a record_queue \<times> 'a rq_log \<Rightarrow> bool" where
  "rq_accounted s = (case s of (q, g) \<Rightarrow>
     rq_inv q \<and> subseq (handed g @ rq_items q) (offered g) \<and>
     of_nat (length (offered g)) =
       (of_nat (length (handed g)) + of_nat (length (rq_items q)) + rq_dropped q + reported g :: u64))"

lemma pushes_simps [simp]:
  "pushes [] = []" "pushes (Push r # es) = r # pushes es" "pushes (Wake # es) = pushes es"
  by (simp_all add: pushes_def)

lemma while_waiting_accounted:
  assumes "rq_accounted (q, g)"
  shows "rq_accounted (while_waiting es q, g\<lparr>offered := offered g @ pushes es\<rparr>)"
  using assms
proof (induction es arbitrary: q g)
  case Nil
  then show ?case by (simp add: while_waiting_def)
next
  case (Cons e es)
  have "rq_accounted (rq_event_step e q, g\<lparr>offered := offered g @ pushes [e]\<rparr>)"
  proof (cases e)
    case (Push r)
    have "subseq (handed g @ rq_items q) (offered g @ [r])"
      using Cons.prems by (auto simp: rq_accounted_def intro: subseq_order.trans)
    moreover have "subseq (handed g @ rq_items q @ [r]) (offered g @ [r])"
      using Cons.prems subseq_append [of "handed g @ rq_items q" "[r]" "offered g"]
      by (simp add: rq_accounted_def)
    ultimately show ?thesis using Push Cons.prems
      by (auto simp: rq_accounted_def rq_push_def rq_inv_def Let_def)
  next
    case Wake
    with Cons.prems show ?thesis by (simp add: rq_accounted_def rq_wake_def rq_inv_def)
  qed
  from Cons.IH [OF this] show ?case
    by (cases e) (simp_all add: while_waiting_def)
qed

lemma pop_batch_eq:
  "pop_batch q m l es es' =
    (let q1 = after_timeout es q;
         q2 = (if waits_linger q1 m l then while_waiting es' (q1\<lparr>wake_threshold := m\<rparr>) else q1);
         q3 = q2\<lparr>wake_threshold := no_threshold, woken := False\<rparr>
     in (take m (rq_items q3), q3\<lparr>rq_items := drop m (rq_items q3)\<rparr>))"
  by (simp only: pop_batch_def after_timeout_def waits_first_def waits_linger_def)

lemma rq_accounted_frame:
  "rq_accounted (q\<lparr>wake_threshold := w, woken := b\<rparr>, g) = rq_accounted (q, g)"
  "rq_accounted (q\<lparr>wake_threshold := w\<rparr>, g) = rq_accounted (q, g)"
  by (simp_all add: rq_accounted_def rq_inv_def)

lemma take_drop_accounted:
  assumes "rq_accounted (q, g)"
  shows "rq_accounted (q\<lparr>rq_items := drop m (rq_items q)\<rparr>, g\<lparr>handed := handed g @ take m (rq_items q)\<rparr>)"
proof -
  have "(of_nat (length (rq_items q)) :: u64) =
      of_nat (length (take m (rq_items q))) + of_nat (length (drop m (rq_items q)))"
    by (metis append_take_drop_id length_append of_nat_add)
  moreover have "rq_inv (q\<lparr>rq_items := drop m (rq_items q)\<rparr>)"
    using assms by (auto simp: rq_accounted_def rq_inv_def)
  ultimately show ?thesis using assms
    by (simp add: rq_accounted_def add.assoc del: length_take length_drop)
qed

lemma rq_run_step_accounted: "rq_accounted s \<Longrightarrow> rq_accounted (rq_run_step op s)"
proof (cases s)
  case (Pair q g)
  assume acc: "rq_accounted s"
  show ?thesis
  proof (cases op)
    case (Event e)
    then show ?thesis
      using acc Pair while_waiting_accounted [of q g "[e]"] by (simp add: while_waiting_def)
  next
    case (Batch m l es es')
    let ?g1 = "g\<lparr>offered := offered g @ (if waits_first q then pushes es else [])\<rparr>"
    let ?q1 = "after_timeout es q"
    have 1: "rq_accounted (?q1, ?g1)"
      using acc Pair while_waiting_accounted [of "q\<lparr>wake_threshold := 1\<rparr>" g es]
      by (simp add: after_timeout_def rq_accounted_frame)
    let ?q2 = "if waits_linger ?q1 m l then while_waiting es' (?q1\<lparr>wake_threshold := m\<rparr>) else ?q1"
    let ?g2 = "?g1\<lparr>offered := offered ?g1 @ (if waits_linger ?q1 m l then pushes es' else [])\<rparr>"
    have 2: "rq_accounted (?q2, ?g2)"
      using 1 while_waiting_accounted [of "?q1\<lparr>wake_threshold := m\<rparr>" ?g1 es'] by (simp add: rq_accounted_frame)
    let ?q3 = "?q2\<lparr>wake_threshold := no_threshold, woken := False\<rparr>"
    have "rq_accounted (?q3, ?g2)" using 2 by (simp add: rq_accounted_frame)
    from take_drop_accounted [OF this, of m] show ?thesis
      using Batch Pair
      by (simp add: pop_batch_eq Let_def)
  next
    case TakeDropped
    then show ?thesis
      using acc Pair by (simp add: take_dropped_def rq_accounted_def rq_inv_def algebra_simps)
  qed
qed

text \<open>
  C31. Over every interleaving of producers, batches and loss readings the record queue never
  reorders or duplicates (what was handed over followed by what is still waiting is a
  subsequence of what was offered), never exceeds its capacity, and its loss counter is exact:
  offered = handed over + waiting + counted losses, modulo the counter's 64 bits.
\<close>

theorem record_queue_accounts:
  "rq_accounted (fold rq_run_step ops (record_queue_new c, \<lparr>offered = [], handed = [], reported = 0\<rparr>))"
proof -
  have "rq_accounted s \<Longrightarrow> rq_accounted (fold rq_run_step ops s)" for s :: "'a record_queue \<times> 'a rq_log"
    by (induction ops arbitrary: s) (simp_all add: rq_run_step_accounted del: split_paired_All)
  moreover have "rq_accounted (record_queue_new c, \<lparr>offered = [], handed = [], reported = 0\<rparr>)"
    by (simp add: rq_accounted_def record_queue_new_def rq_inv_def)
  ultimately show ?thesis .
qed

section \<open>Bounds of the reconnect delay\<close>

lemma retry_loop_bounds:
  "0 < d \<Longrightarrow> d \<le> retry_loop m d n \<and> (retry_loop m d n \<le> m \<or> retry_loop m d n = d)"
proof (induction n arbitrary: d)
  case (Suc n)
  show ?case
  proof (cases "d < trunc_half m")
    case True
    then have "d * 2 \<le> m" using Suc.prems by (auto simp: trunc_half_def split: if_splits)
    with Suc.IH [of "d * 2"] Suc.prems True show ?thesis by auto
  next
    case False
    then show ?thesis by simp
  qed
qed simp

text \<open>
  The reconnect delay is either 0 (the policy is unusable or its attempts are exhausted) or
  lies between the initial and the maximum delay.
\<close>

theorem retry_delay_bounds:
  "if rp_maximum_attempts p \<le> n \<or> rp_initial p \<le> 0 \<or> rp_maximum p < rp_initial p then retry_delay p n = 0
   else rp_initial p \<le> retry_delay p n \<and> retry_delay p n \<le> rp_maximum p"
  using retry_loop_bounds [of "rp_initial p" "rp_maximum p" n] by (auto simp: retry_delay_def)

end
