(* ===== verification/Wal_Frame.thy ===== *)
theory Wal_Frame
  imports Prelude
begin

text \<open>
  The on-disk format of the write-ahead log, from the anonymous namespace and the free
  functions of \<^verbatim>\<open>src/sensor/wal.cpp\<close>: the CRC-32C in its table and instruction forms, the
  little-endian integers, the frame (\<open>magic, length, crc, seq, payload\<close>) and the segment file
  names. The lemmas show that the table computes the bit-by-bit polynomial division, that the
  instruction path agrees with it, that a frame decodes to what was encoded, and that the
  checksum notices every change confined to one byte.
\<close>

section \<open>CRC-32C\<close>

definition crc_bit :: "u32 \<Rightarrow> u32" where
  "crc_bit value = (if value AND 1 \<noteq> 0 then drop_bit 1 value XOR 0x82F63B78 else drop_bit 1 value)"

definition crc32c_table :: "u32 list" where
  "crc32c_table = map (\<lambda>index. (crc_bit ^^ 8) (of_nat index)) [0..<256]"

definition crc_table_step :: "byte \<Rightarrow> u32 \<Rightarrow> u32" where
  "crc_table_step b crc = crc32c_table ! unat ((crc XOR ucast b) AND 0xFF) XOR drop_bit 8 crc"

definition crc32c_portable :: "u32 \<Rightarrow> byte list \<Rightarrow> u32" where
  "crc32c_portable crc data = NOT (fold crc_table_step data (NOT crc))"

text \<open>
  The fast path of x86 uses the two \<open>crc32\<close> instructions. They are not code of the program:
  they are the arguments \<open>mm_crc32_u64\<close> and \<open>mm_crc32_u8\<close>.
\<close>

definition load_le64 :: "byte list \<Rightarrow> u64" where
  "load_le64 bytes = fold (\<lambda>i w. w OR push_bit (8 * i) (ucast (bytes ! i))) [0..<8] 0"

function sse42_words :: "(u64 \<Rightarrow> u64 \<Rightarrow> u64) \<Rightarrow> u64 \<Rightarrow> byte list \<Rightarrow> u64 \<times> byte list" where
  "sse42_words mm_crc32_u64 state bytes =
     (if 8 \<le> length bytes then sse42_words mm_crc32_u64 (mm_crc32_u64 state (load_le64 bytes)) (drop 8 bytes)
      else (state, bytes))"
  by pat_completeness auto
termination
  by (relation "measure (\<lambda>(f, s, bytes). length bytes)") auto

declare sse42_words.simps [simp del]

definition crc32c_sse42 ::
  "(u64 \<Rightarrow> u64 \<Rightarrow> u64) \<Rightarrow> (u32 \<Rightarrow> u8 \<Rightarrow> u32) \<Rightarrow> u32 \<Rightarrow> byte list \<Rightarrow> u32" where
  "crc32c_sse42 mm_crc32_u64 mm_crc32_u8 crc bytes =
     (let (state, rest) = sse42_words mm_crc32_u64 (ucast (NOT crc)) bytes
      in NOT (fold (\<lambda>b narrow. mm_crc32_u8 narrow b) rest (ucast state)))"

definition crc32c ::
  "bool \<Rightarrow> (u64 \<Rightarrow> u64 \<Rightarrow> u64) \<Rightarrow> (u32 \<Rightarrow> u8 \<Rightarrow> u32) \<Rightarrow> u32 \<Rightarrow> byte list \<Rightarrow> u32" where
  "crc32c hardware mm_crc32_u64 mm_crc32_u8 crc data =
     (if hardware then crc32c_sse42 mm_crc32_u64 mm_crc32_u8 crc data else crc32c_portable crc data)"

section \<open>Little-endian integers\<close>

definition put_u32 :: "u32 \<Rightarrow> byte list" where
  "put_u32 value = map (\<lambda>index. ucast (drop_bit (8 * index) value)) [0..<4]"

definition put_u64 :: "u64 \<Rightarrow> byte list" where
  "put_u64 value = map (\<lambda>index. ucast (drop_bit (8 * index) value)) [0..<8]"

definition get_u32 :: "byte list \<Rightarrow> u32" where
  "get_u32 input = fold (\<lambda>index value. push_bit 8 value OR ucast (input ! index)) (rev [0..<4]) 0"

definition get_u64 :: "byte list \<Rightarrow> u64" where
  "get_u64 input = fold (\<lambda>index value. push_bit 8 value OR ucast (input ! index)) (rev [0..<8]) 0"

section \<open>Frames\<close>

definition wal_magic :: u32 where
  "wal_magic = 0x314C5750"

definition wal_header_bytes :: nat where
  "wal_header_bytes = 20"

record wal_frame_header =
  fh_magic :: u32
  fh_length :: u32
  fh_crc :: u32
  fh_seq :: u64

definition wal_frame_crc_with :: "(u32 \<Rightarrow> byte list \<Rightarrow> u32) \<Rightarrow> u64 \<Rightarrow> byte list \<Rightarrow> u32" where
  "wal_frame_crc_with crcf seq payload = crcf (crcf 0 (put_u64 seq)) payload"

text \<open>The portable build's checksum; \<open>crc32c_paths_agree\<close> below shows that the build's choice is not visible.\<close>

definition wal_frame_crc :: "u64 \<Rightarrow> byte list \<Rightarrow> u32" where
  "wal_frame_crc = wal_frame_crc_with crc32c_portable"

definition decode_wal_header :: "byte list \<Rightarrow> wal_frame_header" where
  "decode_wal_header bytes =
     \<lparr>fh_magic = get_u32 bytes, fh_length = get_u32 (drop 4 bytes),
      fh_crc = get_u32 (drop 8 bytes), fh_seq = get_u64 (drop 12 bytes)\<rparr>"

definition encode_wal_frame :: "u64 \<Rightarrow> byte list \<Rightarrow> byte list" where
  "encode_wal_frame seq payload =
     put_u32 wal_magic @ put_u32 (of_nat (length payload)) @ put_u32 (wal_frame_crc seq payload) @
     put_u64 seq @ payload"

section \<open>Segment names\<close>

text \<open>\<open>snprintf("wal-%020llu.log")\<close>: the decimal number padded with zeros to twenty digits.\<close>

definition segment_name :: "u64 \<Rightarrow> string" where
  "segment_name first_seq =
     (let ds = to_string (unat first_seq) in ''wal-'' @ replicate (20 - length ds) CHR ''0'' @ ds @ ''.log'')"

text \<open>\<open>std::from_chars\<close> on an unsigned 64-bit value: the longest run of digits, or an error.\<close>

definition from_chars_u64 :: "string \<Rightarrow> (u64 \<times> string) option" where
  "from_chars_u64 s =
     (let ds = takeWhile is_digit s
      in if ds = [] \<or> 2 ^ 64 \<le> digits_value ds then None
         else Some (of_nat (digits_value ds), dropWhile is_digit s))"

definition parse_segment_name :: "string \<Rightarrow> u64 option" where
  "parse_segment_name name =
     (if length name \<noteq> 28 \<or> take 4 name \<noteq> ''wal-'' \<or> drop 24 name \<noteq> ''.log'' then None
      else case from_chars_u64 (take 20 (drop 4 name)) of
             None \<Rightarrow> None
           | Some (value, rest) \<Rightarrow> if rest \<noteq> [] \<or> value = 0 then None else Some value)"

section \<open>The checksum is a linear, invertible polynomial division\<close>

lemma odd_and_one: "(v::u32) AND 1 \<noteq> 0 \<longleftrightarrow> bit v 0"
  by (simp add: and_one_eq bit_0 odd_iff_mod_2_eq_one)

lemma crc_bit_alt: "crc_bit v = drop_bit 1 v XOR (if bit v 0 then 0x82F63B78 else 0)"
  by (simp add: crc_bit_def odd_and_one)

lemma crc_bit_xor: "crc_bit (x XOR y) = crc_bit x XOR crc_bit y"
  by (auto simp: crc_bit_alt bit_xor_iff drop_bit_xor xor.assoc xor.left_commute)

lemma crc_bits_xor: "(crc_bit ^^ n) (x XOR y) = (crc_bit ^^ n) x XOR (crc_bit ^^ n) y"
  by (induction n) (simp_all add: crc_bit_xor)

lemma crc_bits_low_zero:
  assumes "\<forall>j<n. \<not> bit x j"
  shows "(crc_bit ^^ n) x = drop_bit n x"
  using assms
proof (induction n)
  case (Suc n)
  then have "(crc_bit ^^ Suc n) x = crc_bit (drop_bit n x)" by simp
  moreover have "\<not> bit (drop_bit n x) 0" using Suc.prems by (simp add: bit_drop_bit_eq)
  ultimately show ?case by (simp add: crc_bit_alt [of "drop_bit n x"])
qed simp

lemma poly_top_bit: "bit (0x82F63B78 :: u32) 31"
  by (simp add: bit_iff_odd_drop_bit drop_bit_eq_div)

lemma crc_bit_top: "bit (crc_bit x) 31 \<longleftrightarrow> bit x 0"
proof -
  have "\<not> bit (drop_bit 1 x) 31"
    using bit_imp_le_length [of x 32] by (auto simp: bit_drop_bit_eq)
  then show ?thesis by (simp add: crc_bit_alt bit_xor_iff poly_top_bit)
qed

lemma crc_bit_eq_0: "crc_bit x = 0 \<Longrightarrow> x = 0"
proof (rule bit_eqI)
  fix n
  assume z: "crc_bit x = 0"
  then have 0: "\<not> bit x 0" using crc_bit_top [of x] by simp
  with z have "drop_bit 1 x = 0" by (simp add: crc_bit_alt)
  then have "\<not> bit x (Suc m)" for m using bit_drop_bit_eq [of 1 x] by (simp add: fun_eq_iff)
  with 0 show "bit x n = bit 0 n" by (cases n) auto
qed

lemma crc_bits_inj: "(crc_bit ^^ n) x = (crc_bit ^^ n) y \<longleftrightarrow> x = y"
proof
  assume eq: "(crc_bit ^^ n) x = (crc_bit ^^ n) y"
  have "(crc_bit ^^ n) z = 0 \<Longrightarrow> z = 0" for z
    by (induction n) (auto dest: crc_bit_eq_0)
  moreover have "(crc_bit ^^ n) (x XOR y) = 0" using eq by (simp add: crc_bits_xor)
  ultimately have "x XOR y = 0" by blast
  then have "(x XOR y) XOR y = y" by simp
  then show "x = y" by (simp add: xor.assoc)
qed simp

lemma crc32c_table_nth: "i < 256 \<Longrightarrow> crc32c_table ! i = (crc_bit ^^ 8) (of_nat i)"
  by (simp add: crc32c_table_def)

text \<open>One table step is eight steps of the division, with the byte added to the low end.\<close>

lemma crc_table_step_bits: "crc_table_step b c = (crc_bit ^^ 8) (c XOR ucast b)"
proof -
  let ?x = "c XOR ucast b :: u32"
  let ?lo = "?x AND 0xFF" and ?hi = "?x AND NOT 0xFF"
  have mask: "(0xFF :: u32) = mask 8" by (simp add: mask_eq_exp_minus_1)
  have split: "?x = ?lo XOR ?hi"
    by (rule bit_word_eqI) (auto simp: bit_simps mask)
  have "unat ?lo < 256"
    using word_and_le1 [of ?x "0xFF"] by (simp add: word_le_nat_alt)
  then have "crc32c_table ! unat ?lo = (crc_bit ^^ 8) ?lo"
    by (simp add: crc32c_table_nth)
  moreover have "(crc_bit ^^ 8) ?hi = drop_bit 8 ?hi"
    by (rule crc_bits_low_zero) (simp add: bit_simps mask)
  moreover have "drop_bit 8 ?hi = drop_bit 8 c"
    by (rule bit_word_eqI) (auto simp: bit_simps mask dest: bit_imp_le_length)
  ultimately show ?thesis
    unfolding crc_table_step_def by (subst (2) split) (simp add: crc_bits_xor)
qed

lemma crc_table_step_inj:
  "crc_table_step b x = crc_table_step b y \<longleftrightarrow> x = y"
  "crc_table_step a x = crc_table_step b x \<longleftrightarrow> a = b"
proof -
  have cancel: "(p XOR r = q XOR r) = (p = q)" "(r XOR p = r XOR q) = (p = q)" for p q r :: u32
    by (metis xor.assoc xor.commute xor.right_neutral xor_self_eq)+
  have "ucast (ucast z :: u32) = z" for z :: byte
    by (rule bit_word_eqI) (auto simp: bit_simps dest: bit_imp_le_length)
  then have "(ucast a = (ucast b :: u32)) = (a = b)" by metis
  then show "crc_table_step b x = crc_table_step b y \<longleftrightarrow> x = y"
    "crc_table_step a x = crc_table_step b x \<longleftrightarrow> a = b"
    by (simp_all add: crc_table_step_bits crc_bits_inj cancel)
qed

lemma crc_fold_inj: "fold crc_table_step bs x = fold crc_table_step bs y \<longleftrightarrow> x = y"
  by (induction bs arbitrary: x y) (simp_all add: crc_table_step_inj)

section \<open>The instruction path\<close>

text \<open>
  What the processor manual documents of the two instructions: the 8-bit form divides by the
  Castagnoli polynomial in reflected order, and the 64-bit form takes its operand's bytes from
  the least significant one.
\<close>

definition crc32_instructions :: "(u64 \<Rightarrow> u64 \<Rightarrow> u64) \<Rightarrow> (u32 \<Rightarrow> u8 \<Rightarrow> u32) \<Rightarrow> bool" where
  "crc32_instructions f64 f8 \<longleftrightarrow>
     (\<forall>c b. f8 c b = (crc_bit ^^ 8) (c XOR ucast b)) \<and>
     (\<forall>s w. f64 s w = ucast (fold (\<lambda>i c. f8 c (ucast (drop_bit (8 * i) w))) [0..<8] (ucast s)))"

lemma ucast_u32_u64_u32 [simp]: "ucast (ucast (x::u32) :: u64) = x"
  by (rule bit_word_eqI) (auto simp: bit_simps dest: bit_imp_le_length)

lemma upt_small: "[0..<4] = [0, 1, 2, 3 :: nat]" "[0..<8] = [0, 1, 2, 3, 4, 5, 6, 7 :: nat]"
  by (simp_all add: upt_rec numeral_eq_Suc)

lemma load_le64_byte:
  assumes "i < 8"
  shows "ucast (drop_bit (8 * i) (load_le64 bs)) = bs ! i"
proof -
  have "load_le64 bs = ucast (bs ! 0) OR push_bit 8 (ucast (bs ! 1)) OR push_bit 16 (ucast (bs ! 2)) OR
      push_bit 24 (ucast (bs ! 3)) OR push_bit 32 (ucast (bs ! 4)) OR push_bit 40 (ucast (bs ! 5)) OR
      push_bit 48 (ucast (bs ! 6)) OR push_bit 56 (ucast (bs ! 7))"
    by (simp add: load_le64_def upt_small or.assoc)
  moreover have "i \<in> {0, 1, 2, 3, 4, 5, 6, 7}" using assms by auto
  ultimately show ?thesis
    by (elim insertE emptyE) (rule bit_word_eqI; auto simp: bit_simps dest: bit_imp_le_length)+
qed

lemma sse42_word_step:
  assumes "crc32_instructions f64 f8" and "8 \<le> length bs"
  shows "ucast (f64 s (load_le64 bs)) = fold crc_table_step (take 8 bs) (ucast s)"
proof -
  have "fold (\<lambda>i c. f8 c (ucast (drop_bit (8 * i) (load_le64 bs)))) [0..<8] x =
      fold (\<lambda>i c. crc_table_step (bs ! i) c) [0..<8] x" for x
    using assms(1) by (intro fold_cong) (auto simp: crc32_instructions_def crc_table_step_bits load_le64_byte)
  moreover have "fold (\<lambda>i c. crc_table_step (bs ! i) c) [0..<8] x = fold crc_table_step (map ((!) bs) [0..<8]) x" for x
    by (simp add: fold_map comp_def)
  moreover have "map ((!) bs) [0..<8] = take 8 bs"
    using assms(2) by (intro nth_equalityI) auto
  ultimately show ?thesis using assms(1) by (simp add: crc32_instructions_def)
qed

lemma sse42_words_fold:
  assumes "crc32_instructions f64 f8"
  shows "case sse42_words f64 s bs of (s', rest) \<Rightarrow>
    fold crc_table_step rest (ucast s') = fold crc_table_step bs (ucast s)"
proof (induction f64\<equiv>f64 s bs rule: sse42_words.induct)
  case (1 s bs)
  show ?case
  proof (cases "8 \<le> length bs")
    case True
    have "fold crc_table_step bs (ucast s) =
        fold crc_table_step (drop 8 bs) (fold crc_table_step (take 8 bs) (ucast s))"
      by (metis append_take_drop_id fold_append o_apply)
    with 1 [OF True] True show ?thesis
      by (simp add: sse42_words.simps [of f64 s bs] sse42_word_step [OF assms True])
  next
    case False
    then show ?thesis by (simp add: sse42_words.simps [of f64 s bs])
  qed
qed

text \<open>
  C27. The two implementations of the checksum agree: on a processor whose \<open>crc32\<close>
  instructions do what their manual says, the eight-bytes-at-a-time path returns the table
  version's value for every running checksum and every input, so the frames on disk do not
  depend on the machine that wrote them.
\<close>

theorem crc32c_paths_agree:
  assumes "crc32_instructions mm_crc32_u64 mm_crc32_u8"
  shows "crc32c hardware mm_crc32_u64 mm_crc32_u8 crc data = crc32c_portable crc data"
proof -
  have u8: "mm_crc32_u8 c b = crc_table_step b c" for c b
    using assms by (simp add: crc32_instructions_def crc_table_step_bits)
  show ?thesis
    using sse42_words_fold [OF assms, where s = "ucast (NOT crc)" and bs = data]
    by (auto simp: crc32c_def crc32c_sse42_def crc32c_portable_def u8 split: prod.splits)
qed

definition example_crc32_u8 :: "u32 \<Rightarrow> u8 \<Rightarrow> u32" where
  "example_crc32_u8 c b = (crc_bit ^^ 8) (c XOR ucast b)"

definition example_crc32_u64 :: "u64 \<Rightarrow> u64 \<Rightarrow> u64" where
  "example_crc32_u64 s w =
     ucast (fold (\<lambda>i c. example_crc32_u8 c (ucast (drop_bit (8 * i) w))) [0..<8] (ucast s))"

theorem crc32c_paths_agree_witness:
  "crc32c True example_crc32_u64 example_crc32_u8 0 [1, 2, 3, 4, 5, 6, 7, 8, 9] =
   crc32c_portable 0 [1, 2, 3, 4, 5, 6, 7, 8, 9]"
  by (rule crc32c_paths_agree)
    (simp add: crc32_instructions_def example_crc32_u8_def example_crc32_u64_def)

text \<open>
  The frame checksum notices every change confined to one byte: payloads of the same
  length that differ in exactly one position never have the same checksum under the same
  sequence number.
\<close>

theorem wal_frame_crc_single_byte:
  assumes "i < length payload" and "b \<noteq> payload ! i"
  shows "wal_frame_crc seq (payload[i := b]) \<noteq> wal_frame_crc seq payload"
proof -
  let ?pre = "take i payload" and ?post = "drop (Suc i) payload"
  have p: "payload = ?pre @ payload ! i # ?post" and p': "payload[i := b] = ?pre @ b # ?post"
    using assms(1) by (simp_all add: id_take_nth_drop [symmetric] upd_conv_take_nth_drop)
  have "fold crc_table_step (?pre @ b # ?post) c \<noteq> fold crc_table_step (?pre @ payload ! i # ?post) c" for c
    using assms(2) by (simp add: crc_fold_inj crc_table_step_inj)
  then have "fold crc_table_step (payload[i := b]) c \<noteq> fold crc_table_step payload c" for c
    using p p' by metis
  then show ?thesis
    by (simp add: wal_frame_crc_def wal_frame_crc_with_def crc32c_portable_def)
qed

theorem wal_frame_crc_single_byte_witness:
  "wal_frame_crc 7 [1, 9, 3] \<noteq> wal_frame_crc 7 [1, 2, 3]"
  using wal_frame_crc_single_byte [of 1 "[1, 2, 3]" 9 7] by simp

section \<open>Codec\<close>

lemma length_put [simp, codec_simps]: "length (put_u32 v) = 4" "length (put_u64 w) = 8"
  by (simp_all add: put_u32_def put_u64_def)

lemma join_byte:
  "push_bit 8 (drop_bit (n + 8) v) OR ucast (ucast (drop_bit n v) :: byte) = drop_bit n (v :: 'a::len word)"
proof (rule bit_word_eqI)
  fix m
  show "bit (push_bit 8 (drop_bit (n + 8) v) OR ucast (ucast (drop_bit n v) :: byte)) m = bit (drop_bit n v) m"
    if "m < LENGTH('a)"
    using that by (cases "m < 8") (auto simp: bit_simps dest: bit_imp_le_length)
qed

lemma get_u32_append: "get_u32 (put_u32 v @ rest) = v"
proof -
  have "get_u32 (put_u32 v @ rest) =
     push_bit 8 (push_bit 8 (push_bit 8 (ucast (ucast (drop_bit 24 v) :: byte)) OR
       ucast (ucast (drop_bit 16 v) :: byte)) OR ucast (ucast (drop_bit 8 v) :: byte)) OR ucast (ucast v :: byte)"
    by (simp add: get_u32_def put_u32_def upt_small)
  moreover have "ucast (ucast (drop_bit 24 v) :: byte) = drop_bit 24 v"
    by (rule bit_word_eqI) (auto simp: bit_simps dest: bit_imp_le_length)
  ultimately show ?thesis
    using join_byte [of 16 v] join_byte [of 8 v] join_byte [of 0 v]
    by (simp del: push_bit_or push_bit_push_bit)
qed

lemma get_u64_append: "get_u64 (put_u64 v @ rest) = v"
proof -
  let ?b = "\<lambda>n. ucast (ucast (drop_bit n v) :: byte) :: u64"
  have "get_u64 (put_u64 v @ rest) =
     push_bit 8 (push_bit 8 (push_bit 8 (push_bit 8 (push_bit 8 (push_bit 8 (push_bit 8
       (?b 56) OR ?b 48) OR ?b 40) OR ?b 32) OR ?b 24) OR ?b 16) OR ?b 8) OR ?b 0"
    by (simp add: get_u64_def put_u64_def upt_small)
  moreover have "?b 56 = drop_bit 56 v"
    by (rule bit_word_eqI) (auto simp: bit_simps dest: bit_imp_le_length)
  ultimately show ?thesis
    using join_byte [of 48 v] join_byte [of 40 v] join_byte [of 32 v] join_byte [of 24 v]
      join_byte [of 16 v] join_byte [of 8 v] join_byte [of 0 v]
    by (simp del: push_bit_or push_bit_push_bit)
qed

lemma length_encode_wal_frame [simp, codec_simps]:
  "length (encode_wal_frame seq payload) = wal_header_bytes + length payload"
  by (simp add: encode_wal_frame_def wal_header_bytes_def)

lemma decode_encode_header:
  assumes "length payload < 2 ^ 32"
  shows "decode_wal_header (encode_wal_frame seq payload @ rest) =
    \<lparr>fh_magic = wal_magic, fh_length = of_nat (length payload), fh_crc = wal_frame_crc seq payload, fh_seq = seq\<rparr>"
  by (simp add: decode_wal_header_def encode_wal_frame_def get_u32_append get_u64_append)

lemma drop_encode_header:
  "drop wal_header_bytes (encode_wal_frame seq payload @ rest) = payload @ rest"
  "drop wal_header_bytes (encode_wal_frame seq payload) = payload"
  by (simp_all add: encode_wal_frame_def wal_header_bytes_def)

text \<open>
  A frame read back from disk is the frame that was written: whatever follows it, the
  header decodes to the magic, the length, the checksum and the sequence number, the length
  field is the payload's length (for payloads below 4 GiB), and the bytes after the header are
  the payload.
\<close>

theorem wal_frame_roundtrip:
  assumes "length payload < 2 ^ 32"
  shows "let bytes = encode_wal_frame seq payload @ rest; h = decode_wal_header bytes in
    fh_magic h = wal_magic \<and> fh_seq h = seq \<and> unat (fh_length h) = length payload \<and>
    take (unat (fh_length h)) (drop wal_header_bytes bytes) = payload \<and>
    fh_crc h = wal_frame_crc seq payload"
  using assms by (simp add: Let_def decode_encode_header drop_encode_header unat_of_nat)

theorem wal_frame_roundtrip_witness:
  "let bytes = encode_wal_frame 5 [104, 105] @ [0]; h = decode_wal_header bytes in
    fh_magic h = wal_magic \<and> fh_seq h = 5 \<and> unat (fh_length h) = length [104, 105 :: byte] \<and>
    take (unat (fh_length h)) (drop wal_header_bytes bytes) = [104, 105] \<and>
    fh_crc h = wal_frame_crc 5 [104, 105]"
  by (rule wal_frame_roundtrip) simp

section \<open>Segment names\<close>

lemma length_to_string_bound: "n < 10 ^ Suc k \<Longrightarrow> length (to_string n) \<le> Suc k"
proof (induction k arbitrary: n)
  case 0
  then show ?case by (subst to_string.simps) simp
next
  case (Suc k)
  show ?case
  proof (cases "n < 10")
    case True
    then show ?thesis by (subst to_string.simps) simp
  next
    case False
    have "n div 10 < 10 ^ Suc k" using Suc.prems by (simp add: less_mult_imp_div_less)
    with Suc.IH False show ?thesis by (subst to_string.simps) simp
  qed
qed

lemma length_to_string_u64: "length (to_string (unat (n::u64))) \<le> 20"
proof -
  have "unat n < 10 ^ Suc 19" using unsigned_less [of n, where ?'a = nat] by simp
  from length_to_string_bound [OF this] show ?thesis by simp
qed

lemma digits_value_append: "digits_value (as @ bs) = digits_value as * 10 ^ length bs + digits_value bs"
  by (induction bs rule: rev_induct) (simp_all add: digits_value_def algebra_simps)

lemma digits_value_zeros: "digits_value (replicate k CHR ''0'') = 0"
proof (induction k)
  case (Suc k)
  then show ?case
    using digits_value_append [of "CHR ''0'' # []" "replicate k CHR ''0''"] by (simp add: digits_value_def)
qed (simp add: digits_value_def)

lemma segment_name_shape:
  "\<exists>ds. segment_name n = ''wal-'' @ ds @ ''.log'' \<and> length ds = 20 \<and>
     (\<forall>c\<in>set ds. is_digit c) \<and> digits_value ds = unat n"
proof (intro exI conjI)
  let ?s = "to_string (unat n)"
  let ?ds = "replicate (20 - length ?s) CHR ''0'' @ ?s"
  show "segment_name n = ''wal-'' @ ?ds @ ''.log''" by (simp add: segment_name_def Let_def)
  show "length ?ds = 20" using length_to_string_u64 [of n] by simp
  show "\<forall>c\<in>set ?ds. is_digit c" using to_string_digits by (auto simp: is_digit_def)
  show "digits_value ?ds = unat n"
    by (simp add: digits_value_append digits_value_zeros digits_value_to_string)
qed

text \<open>
  A segment's file name carries its first sequence number exactly: recovery reads back the
  number the log wrote, for every number but 0, and two segments never share a name.
\<close>

theorem segment_name_roundtrip:
  "parse_segment_name (segment_name n) = (if n = 0 then None else Some n)"
proof -
  obtain ds where ds: "segment_name n = ''wal-'' @ ds @ ''.log''" "length ds = 20"
    "\<forall>c\<in>set ds. is_digit c" "digits_value ds = unat n"
    using segment_name_shape by blast
  have tw: "takeWhile is_digit ds = ds" "dropWhile is_digit ds = []" and ne: "ds \<noteq> []"
    using ds(2,3) by (auto simp: takeWhile_eq_all_conv dropWhile_eq_Nil_conv)
  moreover have "unat n < 2 ^ 64" using unsigned_less [of n, where ?'a = nat] by simp
  ultimately have "from_chars_u64 ds = Some (n, [])"
    unfolding from_chars_u64_def Let_def tw ds(4) by simp
  then show ?thesis using ds(1,2) by (simp add: parse_segment_name_def)
qed

end
