(* ===== verification/Wal.thy ===== *)
theory Wal
  imports Wal_Frame
begin

text \<open>
  The write-ahead log, class \<open>write_ahead_log\<close> of \<^verbatim>\<open>src/sensor/wal.cpp\<close> and
  \<^verbatim>\<open>include/panopticon/linux_agent/sensor/wal.hpp\<close>. The state is the class's fields together
  with the part of the file system the log uses: names of segment files (by the sequence number
  in the name), inodes with their contents and with the length known to be on stable storage,
  and the cursor file. Every system call that may fail takes its outcome from a \<open>wal_io\<close>
  argument, so each error branch of the code is a branch of the model. Each method runs under
  the log's mutex and is one step. Sequence numbers and byte counts are natural numbers (the
  code's 64-bit counters start at 1 and only count up); times are 64-bit words.
\<close>

section \<open>Files\<close>

record wal_disk =
  dk_names :: "(nat \<times> nat) list"
  dk_data :: "nat \<Rightarrow> byte list"
  dk_synced :: "nat \<Rightarrow> nat"
  dk_fresh :: nat
  dk_cursor :: "string option"

definition d_lookup :: "wal_disk \<Rightarrow> nat \<Rightarrow> nat option" where
  "d_lookup d first = map_of (dk_names d) first"

definition d_unlink :: "nat \<Rightarrow> wal_disk \<Rightarrow> wal_disk" where
  "d_unlink first d = d\<lparr>dk_names := filter (\<lambda>e. fst e \<noteq> first) (dk_names d)\<rparr>"

definition d_create :: "nat \<Rightarrow> wal_disk \<Rightarrow> wal_disk" where
  "d_create first d =
     d\<lparr>dk_names := (first, dk_fresh d) # dk_names d, dk_data := (dk_data d)(dk_fresh d := []),
       dk_synced := (dk_synced d)(dk_fresh d := 0), dk_fresh := Suc (dk_fresh d)\<rparr>"

definition d_append :: "nat \<Rightarrow> byte list \<Rightarrow> wal_disk \<Rightarrow> wal_disk" where
  "d_append ino bs d = d\<lparr>dk_data := (dk_data d)(ino := dk_data d ino @ bs)\<rparr>"

definition d_sync :: "nat \<Rightarrow> wal_disk \<Rightarrow> wal_disk" where
  "d_sync ino d = d\<lparr>dk_synced := (dk_synced d)(ino := length (dk_data d ino))\<rparr>"

definition d_truncate :: "nat \<Rightarrow> nat \<Rightarrow> wal_disk \<Rightarrow> wal_disk" where
  "d_truncate ino n d =
     d\<lparr>dk_data := (dk_data d)(ino := take n (dk_data d ino) @ replicate (n - length (dk_data d ino)) 0),
       dk_synced := (dk_synced d)(ino := min n (dk_synced d ino))\<rparr>"

text \<open>Outcomes of the system calls one method makes.\<close>

datatype cursor_io = Cursor_written | Cursor_failed | Cursor_not_synced

record wal_io =
  io_sync :: bool
  io_create :: bool
  io_dirsync :: bool
  io_write :: "nat option"
  io_trunc :: bool
  io_sync2 :: bool
  io_unlink :: "nat \<Rightarrow> bool"
  io_open :: "nat \<Rightarrow> bool"
  io_pread :: "nat \<Rightarrow> nat \<Rightarrow> bool"
  io_trunc_seg :: "nat \<Rightarrow> bool"
  io_sync_seg :: "nat \<Rightarrow> bool"
  io_cursor :: cursor_io
  io_directory :: bool

definition io_good :: wal_io where
  "io_good = \<lparr>io_sync = True, io_create = True, io_dirsync = True, io_write = None, io_trunc = True,
     io_sync2 = True, io_unlink = (\<lambda>_. True), io_open = (\<lambda>_. True), io_pread = (\<lambda>_ _. True),
     io_trunc_seg = (\<lambda>_. True), io_sync_seg = (\<lambda>_. True), io_cursor = Cursor_written, io_directory = True\<rparr>"

section \<open>State\<close>

record wal_options =
  wo_directory :: string
  wo_quota_bytes :: nat
  wo_segment_bytes :: nat
  wo_sync_interval_ns :: u64
  wo_sync_bytes :: nat
  wo_maximum_record_bytes :: nat

record wal_loss =
  loss_reason :: string
  loss_first :: nat
  loss_last :: nat
  loss_records :: nat
  loss_bytes :: nat

record wal_record =
  wr_seq :: nat
  wr_payload :: "byte list"

record wal_segment =
  seg_first :: nat
  seg_last :: nat
  seg_bytes :: nat

record wal =
  options :: wal_options
  segments :: "wal_segment list"
  active_fd :: "nat option"
  next_seq :: nat
  durable_seq :: nat
  acknowledged_seq :: nat
  pending_bytes :: nat
  last_sync_ns :: u64
  syncs :: nat
  dropped_records :: nat
  losses :: "wal_loss list"
  reader_seq :: "nat option"
  reader_path :: nat
  reader_offset :: nat
  disk :: wal_disk

definition wal_new :: "wal_options \<Rightarrow> wal_disk \<Rightarrow> wal" where
  "wal_new opts d = \<lparr>options = opts, segments = [], active_fd = None, next_seq = 1, durable_seq = 0,
     acknowledged_seq = 0, pending_bytes = 0, last_sync_ns = 0, syncs = 0, dropped_records = 0, losses = [],
     reader_seq = None, reader_path = 0, reader_offset = 0, disk = d\<rparr>"

definition mk_loss :: "string \<Rightarrow> nat \<Rightarrow> nat \<Rightarrow> nat \<Rightarrow> nat \<Rightarrow> wal_loss" where
  "mk_loss reason first final records bytes =
     \<lparr>loss_reason = reason, loss_first = first, loss_last = final, loss_records = records, loss_bytes = bytes\<rparr>"

section \<open>Operations\<close>

text \<open>
  The loss report the code writes in three places (quota, removed segment, corrupt tail): the
  part of \<open>start..final\<close> that is not acknowledged yet, counted as dropped.
\<close>

definition report_lost :: "string \<Rightarrow> nat \<Rightarrow> nat \<Rightarrow> nat \<Rightarrow> wal \<Rightarrow> wal" where
  "report_lost reason start final bytes w =
     (if acknowledged_seq w < final then
        let first = max start (acknowledged_seq w + 1); n = final - first + 1
        in w\<lparr>losses := losses w @ [mk_loss reason first final n bytes], dropped_records := dropped_records w + n\<rparr>
      else w)"

definition delete_segment :: "wal_io \<Rightarrow> nat \<Rightarrow> wal \<Rightarrow> wal" where
  "delete_segment io index w =
     (let first = seg_first (segments w ! index)
      in w\<lparr>disk := (if io_unlink io first then d_unlink first (disk w) else disk w),
           reader_seq := (if reader_path w = first then None else reader_seq w),
           segments := erase index (segments w)\<rparr>)"

definition open_active :: "wal_io \<Rightarrow> nat \<Rightarrow> wal \<Rightarrow> bool result \<times> wal" where
  "open_active io first w =
     (let (r, w1) =
        (case active_fd w of
           None \<Rightarrow> (Inr True, w)
         | Some ino \<Rightarrow>
             if \<not> io_sync io then (Inl (Error io_failure ''cannot sync write-ahead log segment''), w)
             else (Inr True, w\<lparr>syncs := syncs w + 1, durable_seq := next_seq w - 1, pending_bytes := 0,
                    active_fd := None, disk := d_sync ino (disk w)\<rparr>))
      in case r of Inl e \<Rightarrow> (Inl e, w1)
         | Inr _ \<Rightarrow>
           if \<not> io_create io \<or> d_lookup (disk w1) first \<noteq> None
           then (Inl (Error io_failure ''cannot create write-ahead log segment''), w1)
           else
             let w2 = w1\<lparr>active_fd := Some (dk_fresh (disk w1)), disk := d_create first (disk w1),
                  segments := segments w1 @ [\<lparr>seg_first = first, seg_last = 0, seg_bytes = 0\<rparr>]\<rparr>
             in if \<not> io_dirsync io then (Inl (Error io_failure ''cannot sync write-ahead log directory''), w2)
                else (Inr True, w2))"

function quota_loop :: "wal_io \<Rightarrow> nat \<Rightarrow> wal \<Rightarrow> wal" where
  "quota_loop io total_bytes w =
     (if wo_quota_bytes (options w) < total_bytes \<and> 1 < length (segments w) then
        let oldest = hd (segments w);
            w1 = report_lost ''quota'' (seg_first oldest) (seg_last oldest) (seg_bytes oldest) w
        in quota_loop io (total_bytes - seg_bytes oldest) (delete_segment io 0 w1)
      else w)"
  by pat_completeness auto
termination
  by (relation "measure (\<lambda>(io, total_bytes, w). length (segments w))")
    (auto simp: delete_segment_def report_lost_def Let_def erase_def)

declare quota_loop.simps [simp del]

definition wal_bytes :: "wal \<Rightarrow> nat" where
  "wal_bytes w = sum_list (map seg_bytes (segments w))"

definition enforce_quota :: "wal_io \<Rightarrow> wal \<Rightarrow> wal" where
  "enforce_quota io w = quota_loop io (wal_bytes w) w"

definition set_last :: "wal_segment \<Rightarrow> wal_segment list \<Rightarrow> wal_segment list" where
  "set_last s ss = butlast ss @ [s]"

text \<open>The three parts of \<open>append\<close>: room in the active segment, the failed write, the complete write.\<close>

definition ensure_active :: "wal_io \<Rightarrow> nat \<Rightarrow> byte list \<Rightarrow> wal \<Rightarrow> bool result \<times> wal" where
  "ensure_active io seq frame w =
     (if active_fd w = None \<or> wo_segment_bytes (options w) < seg_bytes (last (segments w)) + length frame
      then open_active io seq w else (Inr True, w))"

definition append_failed :: "wal_io \<Rightarrow> byte list \<Rightarrow> wal \<Rightarrow> wal" where
  "append_failed io partial w =
     (let ino = the (active_fd w); current = last (segments w);
          w2 = w\<lparr>disk := d_append ino partial (disk w)\<rparr>
      in if io_trunc io then w2\<lparr>disk := d_truncate ino (seg_bytes current) (disk w2)\<rparr>
         else
           let w3 = (if io_sync2 io
                     then w2\<lparr>durable_seq := next_seq w2 - 1, disk := d_sync ino (disk w2)\<rparr> else w2);
               w4 = w3\<lparr>active_fd := None\<rparr>
           in if seg_last current = 0 then delete_segment io (length (segments w4) - 1) w4 else w4)"

definition append_written :: "nat \<Rightarrow> byte list \<Rightarrow> wal \<Rightarrow> wal" where
  "append_written seq frame w =
     (let ino = the (active_fd w); current = last (segments w)
      in w\<lparr>disk := d_append ino frame (disk w),
           segments := set_last (current\<lparr>seg_bytes := seg_bytes current + length frame, seg_last := seq\<rparr>) (segments w),
           next_seq := next_seq w + 1, pending_bytes := pending_bytes w + length frame\<rparr>)"

definition wal_append :: "wal_io \<Rightarrow> nat \<Rightarrow> byte list \<Rightarrow> wal \<Rightarrow> nat result \<times> wal" where
  "wal_append io seq payload w =
     (if seq \<noteq> next_seq w then (Inl (Error invalid_input ''write-ahead log seq is not contiguous''), w)
      else if wo_maximum_record_bytes (options w) < length payload
      then (Inl (Error resource_limit ''record exceeds maximum size''), w)
      else
        let frame = encode_wal_frame (of_nat seq) payload
        in case ensure_active io seq frame w of
             (Inl e, w1) \<Rightarrow> (Inl e, w1)
           | (Inr _, w1) \<Rightarrow>
               (case io_write io of
                  Some k \<Rightarrow> (Inl (Error io_failure ''cannot append to write-ahead log''),
                             append_failed io (take k frame) w1)
                | None \<Rightarrow> (Inr seq, enforce_quota io (append_written seq frame w1))))"

definition wal_sync :: "wal_io \<Rightarrow> u64 \<Rightarrow> bool \<Rightarrow> wal \<Rightarrow> bool result \<times> wal" where
  "wal_sync io now_ns force w =
     (case active_fd w of
        None \<Rightarrow> (Inr False, w\<lparr>last_sync_ns := now_ns\<rparr>)
      | Some ino \<Rightarrow>
        if pending_bytes w = 0 then (Inr False, w\<lparr>last_sync_ns := now_ns\<rparr>)
        else if \<not> force \<and> pending_bytes w < wo_sync_bytes (options w) \<and>
                now_ns - last_sync_ns w < wo_sync_interval_ns (options w) then (Inr False, w)
        else if \<not> io_sync io then (Inl (Error io_failure ''cannot sync write-ahead log''), w)
        else (Inr True, w\<lparr>syncs := syncs w + 1, durable_seq := next_seq w - 1, pending_bytes := 0,
               last_sync_ns := now_ns, disk := d_sync ino (disk w)\<rparr>))"

text \<open>The \<open>lstat\<close> / \<open>fstat\<close> comparison: the name is gone, or names another file than the descriptor.\<close>

definition segment_gone :: "wal \<Rightarrow> nat \<Rightarrow> bool" where
  "segment_gone w index =
     (case d_lookup (disk w) (seg_first (segments w ! index)) of
        None \<Rightarrow> True
      | Some ino \<Rightarrow> active_fd w \<noteq> None \<and> index + 1 = length (segments w) \<and> active_fd w \<noteq> Some ino)"

definition drop_gone :: "nat \<Rightarrow> wal \<Rightarrow> wal" where
  "drop_gone index w =
     (let active = (active_fd w \<noteq> None \<and> index + 1 = length (segments w));
          lost = segments w ! index;
          w1 = report_lost ''removed'' (seg_first lost) (seg_last lost) (seg_bytes lost) w;
          w2 = (if active then w1\<lparr>active_fd := None, durable_seq := next_seq w1 - 1, pending_bytes := 0\<rparr> else w1)
      in w2\<lparr>segments := erase index (segments w2), reader_seq := None\<rparr>)"

fun drop_missing_loop :: "nat \<Rightarrow> wal \<Rightarrow> nat \<times> wal" where
  "drop_missing_loop 0 w = (0, w)"
| "drop_missing_loop (Suc index) w =
     (if segment_gone w index
      then case drop_missing_loop index (drop_gone index w) of (removed, w') \<Rightarrow> (Suc removed, w')
      else drop_missing_loop index w)"

definition drop_missing_segments :: "wal \<Rightarrow> nat \<times> wal" where
  "drop_missing_segments w = drop_missing_loop (length (segments w)) w"

definition verify_storage :: "wal \<Rightarrow> nat \<times> wal" where
  "verify_storage w = drop_missing_segments w"

definition isolate_corrupt_tail :: "wal_io \<Rightarrow> nat \<Rightarrow> nat \<Rightarrow> nat \<Rightarrow> wal \<Rightarrow> wal" where
  "isolate_corrupt_tail io index bad_seq offset w =
     (let damaged = segments w ! index;
          active = (active_fd w \<noteq> None \<and> index + 1 = length (segments w));
          w1 = (if bad_seq \<le> seg_last damaged
                then report_lost ''corrupt_segment'' bad_seq (seg_last damaged)
                       (if offset < seg_bytes damaged then seg_bytes damaged - offset else 0) w
                else w);
          w2 = (if active
                then w1\<lparr>disk := (if io_sync io then d_sync (the (active_fd w1)) (disk w1) else disk w1),
                        active_fd := None, durable_seq := next_seq w1 - 1, pending_bytes := 0\<rparr>
                else w1);
          w3 = w2\<lparr>reader_seq := None\<rparr>
      in if bad_seq \<le> seg_first damaged
         then w3\<lparr>disk := (if io_unlink io (seg_first damaged) then d_unlink (seg_first damaged) (disk w3) else disk w3),
                 segments := erase index (segments w3)\<rparr>
         else w3\<lparr>segments := (segments w3)[index := damaged\<lparr>seg_last := bad_seq - 1, seg_bytes := offset\<rparr>]\<rparr>)"

subsection \<open>Reading\<close>

definition read_exact :: "wal_io \<Rightarrow> nat \<Rightarrow> byte list \<Rightarrow> nat \<Rightarrow> nat \<Rightarrow> byte list option" where
  "read_exact io first data count offset =
     (if io_pread io first offset \<and> offset + count \<le> length data then Some (take count (drop offset data)) else None)"

text \<open>What the frame loop of one segment ends with.\<close>

datatype frames_result =
    Batch_full (fr_offset: nat) (fr_seq: nat) (fr_records: "wal_record list")
  | Bad_payload (fr_offset: nat) (fr_seq: nat) (fr_records: "wal_record list")
  | Segment_end (fr_offset: nat) (fr_expected: nat) (fr_records: "wal_record list") (fr_bytes: nat) (fr_damaged: bool)

function read_frames ::
  "wal_io \<Rightarrow> nat \<Rightarrow> byte list \<Rightarrow> nat \<Rightarrow> nat \<Rightarrow> nat \<Rightarrow> nat \<Rightarrow> nat \<Rightarrow> nat \<Rightarrow> nat \<Rightarrow> wal_record list \<Rightarrow> nat \<Rightarrow> frames_result"
where
  "read_frames io first data file_bytes durable from maximum_records maximum_bytes offset expected records bytes =
     (if offset + wal_header_bytes \<le> file_bytes then
        case read_exact io first data wal_header_bytes offset of
          None \<Rightarrow> Segment_end offset expected records bytes True
        | Some header \<Rightarrow>
          let frame = decode_wal_header header; len = unat (fh_length frame)
          in if fh_magic frame \<noteq> wal_magic \<or> fh_seq frame \<noteq> of_nat expected
             then Segment_end offset expected records bytes True
             else if durable < expected then Segment_end offset expected records bytes False
             else if from \<le> expected then
               if records \<noteq> [] \<and> (length records = maximum_records \<or> maximum_bytes < bytes + len)
               then Batch_full offset expected records
               else case read_exact io first data len (offset + wal_header_bytes) of
                      None \<Rightarrow> Bad_payload offset expected records
                    | Some payload \<Rightarrow>
                        if wal_frame_crc (fh_seq frame) payload \<noteq> fh_crc frame
                        then Bad_payload offset expected records
                        else read_frames io first data file_bytes durable from maximum_records maximum_bytes
                               (offset + wal_header_bytes + len) (Suc expected)
                               (records @ [\<lparr>wr_seq = expected, wr_payload = payload\<rparr>]) (bytes + len)
             else read_frames io first data file_bytes durable from maximum_records maximum_bytes
                    (offset + wal_header_bytes + len) (Suc expected) records bytes
      else Segment_end offset expected records bytes False)"
  by pat_completeness auto
termination
  by (relation "measure (\<lambda>(io, first, data, n, durable, from, mr, mb, offset, expected, records, bytes). n - offset)")
    (auto simp: wal_header_bytes_def)

declare read_frames.simps [simp del]

definition resume_index :: "nat \<Rightarrow> wal_segment list \<Rightarrow> nat" where
  "resume_index resume segs = length (takeWhile (\<lambda>s. seg_last s < resume) segs)"

lemma report_lost_frame [simp]:
  "segments (report_lost r a b n w) = segments w" "next_seq (report_lost r a b n w) = next_seq w"
  "acknowledged_seq (report_lost r a b n w) = acknowledged_seq w" "disk (report_lost r a b n w) = disk w"
  "active_fd (report_lost r a b n w) = active_fd w" "durable_seq (report_lost r a b n w) = durable_seq w"
  "options (report_lost r a b n w) = options w" "pending_bytes (report_lost r a b n w) = pending_bytes w"
  by (simp_all add: report_lost_def Let_def)

lemma drop_gone_segments [simp]: "segments (drop_gone i w) = erase i (segments w)"
  by (simp add: drop_gone_def Let_def)

lemma drop_missing_loop_length:
  "drop_missing_loop n w = (removed, w') \<Longrightarrow> n \<le> length (segments w) \<Longrightarrow>
   length (segments w') + removed = length (segments w)"
proof (induction n arbitrary: w removed w')
  case (Suc n)
  show ?case
  proof (cases "segment_gone w n")
    case False
    with Suc show ?thesis by simp
  next
    case True
    with Suc.prems obtain r where "drop_missing_loop n (drop_gone n w) = (r, w')" "removed = Suc r"
      by (auto split: prod.splits)
    from Suc.IH [OF this(1)] this(2) Suc.prems(2) show ?thesis
      by (simp add: length_erase)
  qed
qed simp

lemma drop_missing_segments_length:
  "drop_missing_segments w = (removed, w') \<Longrightarrow> length (segments w') + removed = length (segments w)"
  unfolding drop_missing_segments_def by (drule drop_missing_loop_length) simp_all

function read_segments ::
  "wal_io \<Rightarrow> nat \<Rightarrow> nat \<Rightarrow> nat \<Rightarrow> nat \<Rightarrow> nat \<Rightarrow> wal_record list \<Rightarrow> nat \<Rightarrow> wal \<Rightarrow> wal_record list result \<times> wal"
where
  "read_segments io from maximum_records maximum_bytes index offset records bytes w =
     (if length (segments w) \<le> index then (Inr records, w)
      else
        let current = segments w ! index; first = seg_first current
        in case d_lookup (disk w) first of
             None \<Rightarrow>
               (let (removed, w') = drop_missing_segments w
                in if 0 < removed then
                     let resume = (if records = [] then from else wr_seq (last records) + 1);
                         nxt = resume_index resume (segments w')
                     in if length (segments w') \<le> nxt then (Inr records, w')
                        else read_segments io from maximum_records maximum_bytes nxt 0 records bytes w'
                   else (Inl (Error io_failure ''cannot read write-ahead log segment''), w'))
           | Some ino \<Rightarrow>
             if \<not> io_open io first then (Inl (Error io_failure ''cannot read write-ahead log segment''), w)
             else
               case read_frames io first (dk_data (disk w) ino) (seg_bytes current) (durable_seq w) from
                      maximum_records maximum_bytes offset (if offset = 0 then first else from) records bytes of
                 Batch_full offset' seq records' \<Rightarrow>
                   (Inr records', w\<lparr>reader_seq := Some seq, reader_path := first, reader_offset := offset'\<rparr>)
               | Bad_payload offset' seq records' \<Rightarrow> (Inr records', isolate_corrupt_tail io index seq offset' w)
               | Segment_end offset' expected records' bytes' damaged \<Rightarrow>
                   if damaged then (Inr records', isolate_corrupt_tail io index expected offset' w)
                   else
                     let w' = w\<lparr>reader_seq := (if records' = [] then None else Some (wr_seq (last records') + 1)),
                                reader_path := first, reader_offset := offset'\<rparr>
                     in if records' \<noteq> [] \<and> durable_seq w \<le> wr_seq (last records') then (Inr records', w')
                        else read_segments io from maximum_records maximum_bytes (Suc index) 0 records' bytes' w')"
  by pat_completeness auto
termination
  by (relation "measures [\<lambda>(io, from, mr, mb, index, offset, records, bytes, w). length (segments w),
        \<lambda>(io, from, mr, mb, index, offset, records, bytes, w). length (segments w) - index]")
    (auto dest!: drop_missing_segments_length [OF sym])

declare read_segments.simps [simp del]

definition start_index :: "nat \<Rightarrow> wal_segment list \<Rightarrow> nat" where
  "start_index from segs =
     fold (\<lambda>position index. if seg_first (segs ! position) \<le> from then position else index) [0..<length segs] 0"

definition wal_read :: "wal_io \<Rightarrow> nat \<Rightarrow> nat \<Rightarrow> nat \<Rightarrow> wal \<Rightarrow> wal_record list result \<times> wal" where
  "wal_read io from_seq maximum_records maximum_bytes w =
     (if durable_seq w < from_seq \<or> maximum_records = 0 \<or> segments w = [] then (Inr [], w)
      else
        let (index, offset) =
          (case (if reader_seq w = Some from_seq then find_if (\<lambda>s. seg_first s = reader_path w) (segments w) else None) of
             Some i \<Rightarrow> (i, reader_offset w)
           | None \<Rightarrow> (start_index from_seq (segments w), 0))
        in read_segments io from_seq maximum_records maximum_bytes index offset [] 0 w)"

subsection \<open>Acknowledgement\<close>

definition cursor_text :: "nat \<Rightarrow> string" where
  "cursor_text seq = ''acknowledged '' @ to_string seq @ [CHR 0x0A]"

definition persist_cursor :: "wal_io \<Rightarrow> nat \<Rightarrow> wal_disk \<Rightarrow> bool result \<times> wal_disk" where
  "persist_cursor io seq d =
     (case io_cursor io of
        Cursor_written \<Rightarrow> (Inr True, d\<lparr>dk_cursor := Some (cursor_text seq)\<rparr>)
      | Cursor_failed \<Rightarrow> (Inl (Error io_failure ''cannot persist delivery cursor''), d)
      | Cursor_not_synced \<Rightarrow>
          (Inl (Error io_failure ''cannot persist delivery cursor''), d\<lparr>dk_cursor := Some (cursor_text seq)\<rparr>))"

function drop_acknowledged :: "wal_io \<Rightarrow> nat \<Rightarrow> nat \<Rightarrow> wal \<Rightarrow> wal" where
  "drop_acknowledged io keep seq w =
     (if keep < length (segments w) \<and> seg_last (hd (segments w)) \<le> seq
      then drop_acknowledged io keep seq (delete_segment io 0 w) else w)"
  by pat_completeness auto
termination
  by (relation "measure (\<lambda>(io, keep, seq, w). length (segments w))")
    (auto simp: delete_segment_def Let_def erase_def)

declare drop_acknowledged.simps [simp del]

definition acknowledge :: "wal_io \<Rightarrow> nat \<Rightarrow> wal \<Rightarrow> bool result \<times> wal" where
  "acknowledge io seq w =
     (if seq \<le> acknowledged_seq w then (Inr False, w)
      else if durable_seq w < seq then (Inl (Error invalid_input ''acknowledgement beyond durable records''), w)
      else case persist_cursor io seq (disk w) of
             (Inl e, d) \<Rightarrow> (Inl e, w\<lparr>disk := d\<rparr>)
           | (Inr _, d) \<Rightarrow>
               (Inr True, drop_acknowledged io 1 seq (w\<lparr>disk := d, acknowledged_seq := seq\<rparr>)))"

definition take_losses :: "wal \<Rightarrow> wal_loss list \<times> wal" where
  "take_losses w = (losses w, w\<lparr>losses := []\<rparr>)"

record wal_metrics =
  wm_bytes :: nat
  wm_segments :: nat
  wm_next_seq :: nat
  wm_durable_seq :: nat
  wm_acknowledged_seq :: nat
  wm_syncs :: nat
  wm_dropped_records :: nat

definition wal_metrics_of :: "wal \<Rightarrow> wal_metrics" where
  "wal_metrics_of w = \<lparr>wm_bytes = wal_bytes w, wm_segments = length (segments w), wm_next_seq = next_seq w,
     wm_durable_seq = durable_seq w, wm_acknowledged_seq = acknowledged_seq w, wm_syncs = syncs w,
     wm_dropped_records = dropped_records w\<rparr>"

subsection \<open>Recovery\<close>

text \<open>
  \<open>fscanf(cursor, "acknowledged %llu")\<close>: the literal, white space, an optional sign and the
  digits; a value beyond 64 bits saturates and a negative one wraps, as \<open>strtoull\<close> does.
\<close>

definition is_space :: "char \<Rightarrow> bool" where
  "is_space c \<longleftrightarrow> c \<in> {CHR '' '', CHR 0x09, CHR 0x0A, CHR 0x0B, CHR 0x0C, CHR 0x0D}"

definition scan_cursor :: "string \<Rightarrow> nat option" where
  "scan_cursor text =
     (if take 12 text \<noteq> ''acknowledged'' then None
      else
        let rest = dropWhile is_space (drop 12 text);
            negative = (rest \<noteq> [] \<and> hd rest = CHR ''-'');
            body = (if rest \<noteq> [] \<and> hd rest \<in> {CHR ''+'', CHR ''-''} then tl rest else rest);
            ds = takeWhile is_digit body;
            v = digits_value ds
        in if ds = [] then None
           else if 2 ^ 64 \<le> v then Some (2 ^ 64 - 1)
           else if negative then Some ((2 ^ 64 - v) mod 2 ^ 64)
           else Some v)"

definition read_cursor :: "wal_disk \<Rightarrow> nat" where
  "read_cursor d = (case dk_cursor d of None \<Rightarrow> 0 | Some t \<Rightarrow> (case scan_cursor t of None \<Rightarrow> 0 | Some v \<Rightarrow> v))"

function scan_frames ::
  "wal_io \<Rightarrow> nat \<Rightarrow> nat \<Rightarrow> byte list \<Rightarrow> nat \<Rightarrow> nat \<Rightarrow> nat \<Rightarrow> nat \<times> nat \<times> nat"
where
  "scan_frames io first maximum_record data offset expected final =
     (if offset < length data \<and> wal_header_bytes \<le> length data - offset then
        case read_exact io first data wal_header_bytes offset of
          None \<Rightarrow> (offset, expected, final)
        | Some header \<Rightarrow>
          let frame = decode_wal_header header; len = unat (fh_length frame)
          in if fh_magic frame \<noteq> wal_magic \<or> maximum_record < len \<or>
                length data - offset - wal_header_bytes < len \<or> fh_seq frame \<noteq> of_nat expected
             then (offset, expected, final)
             else case read_exact io first data len (offset + wal_header_bytes) of
                    None \<Rightarrow> (offset, expected, final)
                  | Some payload \<Rightarrow>
                      if wal_frame_crc (fh_seq frame) payload \<noteq> fh_crc frame then (offset, expected, final)
                      else scan_frames io first maximum_record data (offset + wal_header_bytes + len)
                             (Suc expected mod 2 ^ 64) expected
      else (offset, expected, final))"
  by pat_completeness auto
termination
  by (relation "measure (\<lambda>(io, first, mr, data, offset, expected, final). length data - offset)")
    (auto simp: wal_header_bytes_def)

declare scan_frames.simps [simp del]

definition unlink_if :: "wal_io \<Rightarrow> nat \<Rightarrow> wal_disk \<Rightarrow> wal_disk" where
  "unlink_if io first d = (if io_unlink io first then d_unlink first d else d)"

definition file_data :: "wal_disk \<Rightarrow> nat \<Rightarrow> byte list" where
  "file_data d first = (case d_lookup d first of None \<Rightarrow> [] | Some ino \<Rightarrow> dk_data d ino)"

fun recover_loop ::
  "wal_io \<Rightarrow> wal_options \<Rightarrow> nat list \<Rightarrow> nat option \<Rightarrow> wal_segment list \<Rightarrow> wal_loss list \<Rightarrow> wal_disk \<Rightarrow> bool \<Rightarrow>
   (wal_segment list \<times> wal_loss list \<times> wal_disk \<times> bool) result"
where
  "recover_loop io opts [] expected kept ls d garbage = Inr (kept, ls, d, garbage)"
| "recover_loop io opts (f # fs) expected kept ls d garbage =
     (if expected \<noteq> None \<and> f < the expected
      then recover_loop io opts fs expected kept
             (ls @ [mk_loss ''corrupt_segment'' f 0 0 (length (file_data d f))]) (unlink_if io f d) garbage
      else
        let ls1 = (if expected \<noteq> None \<and> the expected < f
                   then ls @ [mk_loss ''gap'' (the expected) (f - 1) (f - the expected) 0] else ls)
        in if \<not> io_open io f then Inl (Error io_failure ''cannot open write-ahead log segment'')
           else
             let ino = the (d_lookup d f);
                 data = dk_data d ino;
                 (offset, expected', final) = scan_frames io f (wo_maximum_record_bytes opts) data 0 f 0;
                 last_segment = (fs = []);
                 torn = offset < length data;
                 ls2 = (if torn then ls1 @ [mk_loss (if last_segment then ''torn_tail'' else ''corrupt_segment'')
                                              expected' 0 0 (length data - offset)] else ls1);
                 d1 = (if torn \<and> io_trunc_seg io f then d_truncate ino offset d else d);
                 garbage1 = (garbage \<or> (torn \<and> \<not> io_trunc_seg io f \<and> last_segment));
                 d2 = (if io_sync_seg io f then d_sync ino d1 else d1)
             in if final = 0
                then recover_loop io opts fs (Some expected') kept ls2 (unlink_if io f d2) garbage1
                else recover_loop io opts fs (Some expected')
                       (kept @ [\<lparr>seg_first = f, seg_last = final, seg_bytes = offset\<rparr>]) ls2 d2 garbage1)"

definition recover :: "wal_io \<Rightarrow> wal_options \<Rightarrow> wal_disk \<Rightarrow> wal result" where
  "recover io opts d =
     (if \<not> io_directory io then Inl (Error io_failure ''cannot create write-ahead log directory'')
      else
        let acked = read_cursor d
        in case recover_loop io opts (sort (map fst (dk_names d))) None [] [] d False of
             Inl e \<Rightarrow> Inl e
           | Inr (segs, ls, d', garbage) \<Rightarrow>
               let final = (if segs = [] then 0 else seg_last (last segs));
                   nxt = (max final acked + 1) mod 2 ^ 64;
                   w = (wal_new opts d')\<lparr>segments := segs, losses := ls, acknowledged_seq := acked,
                          next_seq := nxt, durable_seq := (nxt + (2 ^ 64 - 1)) mod 2 ^ 64\<rparr>;
                   w1 = drop_acknowledged io 0 acked w
               in if segments w1 \<noteq> [] \<and> \<not> garbage \<and> seg_bytes (last (segments w1)) < wo_segment_bytes opts
                  then if \<not> io_create io then Inl (Error io_failure ''cannot reopen active segment'')
                       else Inr (w1\<lparr>active_fd := d_lookup (disk w1) (seg_first (last (segments w1)))\<rparr>)
                  else Inr w1)"

definition options_valid :: "wal_options \<Rightarrow> bool" where
  "options_valid opts \<longleftrightarrow> \<not> (wo_directory opts = [] \<or> wo_segment_bytes opts < 4096 \<or>
     wo_quota_bytes opts < 2 * wo_segment_bytes opts \<or> wo_maximum_record_bytes opts = 0 \<or>
     wo_segment_bytes opts < wo_maximum_record_bytes opts + wal_header_bytes)"

definition wal_open :: "wal_io \<Rightarrow> wal_options \<Rightarrow> wal_disk \<Rightarrow> wal result" where
  "wal_open io opts d =
     (if \<not> options_valid opts then Inl (Error invalid_input ''invalid write-ahead log limits'')
      else recover io opts d)"

text \<open>The destructor: a last \<open>fdatasync\<close> and the close.\<close>

definition wal_close :: "wal_io \<Rightarrow> wal \<Rightarrow> wal" where
  "wal_close io w =
     (case active_fd w of
        None \<Rightarrow> w
      | Some ino \<Rightarrow> w\<lparr>disk := (if io_sync io then d_sync ino (disk w) else disk w), active_fd := None\<rparr>)"

end
