(* ===== verification/Wal_Accounting.thy ===== *)
theory Wal_Accounting
  imports Wal
begin

text \<open>
  What the write-ahead log accounts for, whatever the file system does. The central invariant
  says that a record that was appended and is not acknowledged is either in the range of a
  segment the log still indexes or inside a loss the log has reported; it is kept by every
  method for every outcome of its system calls, and by any change another process makes to the
  files between two methods. The second group bounds the log's size by its quota.
\<close>

section \<open>The accounting invariant\<close>

definition seg_range :: "wal_segment \<Rightarrow> nat set" where
  "seg_range s = {seg_first s..seg_last s}"

definition loss_range :: "wal_loss \<Rightarrow> nat set" where
  "loss_range l = {loss_first l..loss_last l}"

definition indexed :: "wal \<Rightarrow> nat set" where
  "indexed w = (\<Union>s\<in>set (segments w). seg_range s)"

definition explained :: "wal_loss list \<Rightarrow> nat set" where
  "explained ls = (\<Union>l\<in>set ls. loss_range l)"

text \<open>
  \<open>base\<close> is the point the log starts to account from, \<open>taken\<close> the loss reports already
  handed to the pipeline, \<open>k\<close> the number of records the reports of recovery name. A reported
  range ends before the next record, or before \<open>lim\<close>: a gap that recovery found in front of a
  file without an intact record may reach past the next number.
\<close>

definition accounted :: "nat \<Rightarrow> nat \<Rightarrow> nat \<Rightarrow> wal_loss list \<Rightarrow> wal \<Rightarrow> bool" where
  "accounted base lim k taken w \<longleftrightarrow>
     acknowledged_seq w \<le> durable_seq w \<and> durable_seq w < next_seq w \<and>
     (\<forall>s\<in>set (segments w). seg_first s \<le> next_seq w \<and> seg_last s < next_seq w) \<and>
     (active_fd w \<noteq> None \<longrightarrow> segments w \<noteq> []) \<and>
     (\<forall>l\<in>set (taken @ losses w). loss_last l < max lim (next_seq w)) \<and>
     {max base (acknowledged_seq w)<..<next_seq w} \<subseteq> indexed w \<union> explained (taken @ losses w) \<and>
     dropped_records w + k = sum_list (map loss_records (taken @ losses w))"

lemmas acc_defs = accounted_def indexed_def explained_def

lemma explained_append [simp]: "explained (xs @ ys) = explained xs \<union> explained ys"
  by (auto simp: explained_def)

lemma explained_Cons [simp]: "explained (l # ls) = loss_range l \<union> explained ls" "explained [] = {}"
  by (auto simp: explained_def)

lemma in_set_erase_or_nth: "x \<in> set xs \<Longrightarrow> i < length xs \<Longrightarrow> x \<in> set (erase i xs) \<or> x = xs ! i"
  by (metis UnE erase_def erase_split in_set_conv_decomp insert_iff list.simps(15) set_append UnCI)

lemma indexed_erase:
  assumes "i < length (segments w)" and "segments w' = erase i (segments w)"
  shows "indexed w \<subseteq> indexed w' \<union> seg_range (segments w ! i)"
  using in_set_erase_or_nth [OF _ assms(1)] assms(2) by (fastforce simp: indexed_def)

lemma report_lost_explains:
  "{acknowledged_seq w<..} \<inter> {start..final} \<subseteq> explained (losses (report_lost r start final n w))"
  "explained (losses w) \<subseteq> explained (losses (report_lost r start final n w))"
  by (auto simp: report_lost_def mk_loss_def loss_range_def Let_def)

lemma report_lost_sum:
  "dropped_records w + k = sum_list (map loss_records (taken @ losses w)) \<Longrightarrow>
   dropped_records (report_lost r a b n w) + k = sum_list (map loss_records (taken @ losses (report_lost r a b n w)))"
  by (simp add: report_lost_def mk_loss_def Let_def)

lemma report_lost_below:
  "\<forall>l\<in>set (losses w). loss_last l < n \<Longrightarrow> b < n \<Longrightarrow> \<forall>l\<in>set (losses (report_lost r a b bytes w)). loss_last l < n"
  by (simp add: report_lost_def mk_loss_def Let_def)

text \<open>Dropping a segment from the index after its unacknowledged records were reported.\<close>

lemma accounted_drop:
  assumes acc: "accounted base lim k taken w" and i: "i < length (segments w)"
    and r: "wr = report_lost r (seg_first (segments w ! i)) (seg_last (segments w ! i)) n w"
    and w': "segments w' = erase i (segments w)" "losses w' = losses wr" "dropped_records w' = dropped_records wr"
      "acknowledged_seq w' = acknowledged_seq w" "next_seq w' = next_seq w"
      "durable_seq w' \<in> {durable_seq w, next_seq w - 1}"
      "active_fd w' \<noteq> None \<longrightarrow> segments w' \<noteq> []"
  shows "accounted base lim k taken w'"
proof -
  have "{max base (acknowledged_seq w)<..<next_seq w} \<subseteq> indexed w \<union> explained (taken @ losses w)"
    using acc by (simp add: accounted_def)
  moreover have "indexed w \<inter> {acknowledged_seq w<..} \<subseteq> indexed w' \<union> explained (losses w')"
    using indexed_erase [OF i w'(1)] report_lost_explains(1) [of w] w'(2) r
    by (fastforce simp: seg_range_def)
  moreover have "explained (losses w) \<subseteq> explained (losses w')"
    using report_lost_explains(2) [of w] w'(2) r by simp
  ultimately have "{max base (acknowledged_seq w)<..<next_seq w} \<subseteq> indexed w' \<union> explained (taken @ losses w')"
    by fastforce
  moreover have "dropped_records w' + k = sum_list (map loss_records (taken @ losses w'))"
    using report_lost_sum [of w k taken] acc r w'(2,3) by (simp add: accounted_def)
  moreover have "set (segments w') \<subseteq> set (segments w)" using w'(1) set_erase_subset by simp
  moreover have "acknowledged_seq w' \<le> durable_seq w' \<and> durable_seq w' < next_seq w'"
    using acc w'(4,5,6) by (auto simp: accounted_def)
  moreover have "\<forall>l\<in>set (losses w'). loss_last l < max lim (next_seq w)"
    unfolding w'(2) r by (rule report_lost_below) (use acc i in \<open>auto simp: accounted_def less_max_iff_disj\<close>)
  ultimately show ?thesis
    using acc w'(4,5,7) by (auto simp: accounted_def)
qed

lemma accounted_forget:
  assumes acc: "accounted base lim k taken w" and i: "i < length (segments w)"
    and "seg_last (segments w ! i) \<le> acknowledged_seq w"
    and w': "segments w' = erase i (segments w)" "losses w' = losses w" "dropped_records w' = dropped_records w"
      "acknowledged_seq w' = acknowledged_seq w" "next_seq w' = next_seq w" "durable_seq w' \<in> {durable_seq w, next_seq w - 1}"
      "active_fd w' \<noteq> None \<longrightarrow> segments w' \<noteq> []"
  shows "accounted base lim k taken w'"
proof (rule accounted_drop [OF acc i, where r = "[]" and n = 0])
  have "report_lost [] (seg_first (segments w ! i)) (seg_last (segments w ! i)) 0 w = w"
    using assms(3) by (simp add: report_lost_def)
  then show "w = report_lost [] (seg_first (segments w ! i)) (seg_last (segments w ! i)) 0 w" by simp
qed (use w' in simp_all)

lemma delete_segment_simps [simp]:
  "segments (delete_segment io i w) = erase i (segments w)" "losses (delete_segment io i w) = losses w"
  "dropped_records (delete_segment io i w) = dropped_records w" "next_seq (delete_segment io i w) = next_seq w"
  "acknowledged_seq (delete_segment io i w) = acknowledged_seq w" "durable_seq (delete_segment io i w) = durable_seq w"
  "active_fd (delete_segment io i w) = active_fd w" "options (delete_segment io i w) = options w"
  "pending_bytes (delete_segment io i w) = pending_bytes w"
  by (simp_all add: delete_segment_def Let_def)

lemma erase_nonempty: "1 < length xs \<Longrightarrow> erase i xs \<noteq> []"
  by (auto simp: erase_def)

lemma quota_loop_accounted: "accounted base lim k taken w \<Longrightarrow> accounted base lim k taken (quota_loop io n w)"
proof (induction io n w rule: quota_loop.induct)
  case (1 io n w)
  show ?case
  proof (cases "wo_quota_bytes (options w) < n \<and> 1 < length (segments w)")
    case True
    let ?o = "hd (segments w)"
    let ?wr = "report_lost ''quota'' (seg_first ?o) (seg_last ?o) (seg_bytes ?o) w"
    from True have h: "?o = segments w ! 0" by (cases "segments w") auto
    have "accounted base lim k taken (delete_segment io 0 ?wr)"
      by (rule accounted_drop [OF "1.prems", where i = 0]) (use True in \<open>auto simp: h erase_nonempty\<close>)
    from "1.IH" [OF True refl refl this] True show ?thesis
      by (subst quota_loop.simps) (simp add: Let_def)
  next
    case False
    with "1.prems" show ?thesis by (subst quota_loop.simps) auto
  qed
qed

lemma drop_acknowledged_accounted:
  "accounted base lim k taken w \<Longrightarrow> n \<le> acknowledged_seq w \<Longrightarrow> 0 < keep \<or> active_fd w = None \<Longrightarrow>
   accounted base lim k taken (drop_acknowledged io keep n w)"
proof (induction io keep n w rule: drop_acknowledged.induct)
  case (1 io keep n w)
  show ?case
  proof (cases "keep < length (segments w) \<and> seg_last (hd (segments w)) \<le> n")
    case True
    then have h: "hd (segments w) = segments w ! 0" by (cases "segments w") auto
    have "accounted base lim k taken (delete_segment io 0 w)"
      by (rule accounted_forget [OF "1.prems"(1), where i = 0])
        (use True "1.prems"(2,3) in \<open>auto simp: h erase_nonempty\<close>)
    from "1.IH" [OF True this] "1.prems" True show ?thesis
      by (subst drop_acknowledged.simps) simp
  next
    case False
    with "1.prems" show ?thesis by (subst drop_acknowledged.simps) auto
  qed
qed

lemma accounted_frame:
  assumes "accounted base lim k taken w"
    and "segments w' = segments w" "losses w' = losses w" "dropped_records w' = dropped_records w"
      "acknowledged_seq w' = acknowledged_seq w" "next_seq w' = next_seq w"
      "durable_seq w' \<in> {durable_seq w, next_seq w - 1}"
      "active_fd w' \<noteq> None \<longrightarrow> active_fd w \<noteq> None"
  shows "accounted base lim k taken w'"
  using assms by (auto simp: accounted_def indexed_def)

lemma drop_gone_accounted:
  assumes "accounted base lim k taken w" and "i < length (segments w)"
  shows "accounted base lim k taken (drop_gone i w)"
proof (rule accounted_drop [OF assms refl])
  show "active_fd (drop_gone i w) \<noteq> None \<longrightarrow> segments (drop_gone i w) \<noteq> []"
    using assms(2) by (auto simp: drop_gone_def Let_def erase_def)
qed (auto simp: drop_gone_def Let_def)

lemma drop_missing_loop_accounted:
  "accounted base lim k taken w \<Longrightarrow> n \<le> length (segments w) \<Longrightarrow> accounted base lim k taken (snd (drop_missing_loop n w))"
proof (induction n arbitrary: w)
  case (Suc n)
  show ?case
  proof (cases "segment_gone w n")
    case True
    have "n \<le> length (segments (drop_gone n w))" using Suc.prems(2) by (simp add: length_erase)
    with Suc.IH [OF drop_gone_accounted [OF Suc.prems(1)]] Suc.prems(2) True show ?thesis
      by (simp add: split_beta)
  next
    case False
    with Suc show ?thesis by simp
  qed
qed simp

lemma drop_missing_loop_durable:
  "durable_seq (snd (drop_missing_loop n w)) \<in> {durable_seq w, next_seq w - 1} \<and>
   next_seq (snd (drop_missing_loop n w)) = next_seq w"
proof (induction n arbitrary: w)
  case (Suc n)
  have "durable_seq (drop_gone n w) \<in> {durable_seq w, next_seq w - 1}" "next_seq (drop_gone n w) = next_seq w"
    by (auto simp: drop_gone_def Let_def)
  with Suc.IH [of "drop_gone n w"] Suc.IH [of w] show ?case by (auto simp: split_beta)
qed simp

lemma drop_missing_durable:
  "durable_seq (snd (drop_missing_segments w)) \<in> {durable_seq w, next_seq w - 1}"
  using drop_missing_loop_durable by (simp add: drop_missing_segments_def)

lemma drop_missing_accounted:
  "accounted base lim k taken w \<Longrightarrow> accounted base lim k taken (snd (drop_missing_segments w))"
  by (simp add: drop_missing_segments_def drop_missing_loop_accounted)

text \<open>The part of a segment before a damaged frame stays indexed, the rest is reported.\<close>

lemma isolate_accounted:
  assumes acc: "accounted base lim k taken w" and i: "i < length (segments w)" and bad: "bad \<le> next_seq w"
  shows "accounted base lim k taken (isolate_corrupt_tail io i bad offset w)"
proof -
  let ?d = "segments w ! i"
  let ?n = "if offset < seg_bytes ?d then seg_bytes ?d - offset else 0"
  let ?w = "isolate_corrupt_tail io i bad offset w"
  let ?wr = "if bad \<le> seg_last ?d then report_lost ''corrupt_segment'' bad (seg_last ?d) ?n w else w"
  have fields: "losses ?w = losses ?wr" "dropped_records ?w = dropped_records ?wr" "next_seq ?w = next_seq w"
      "acknowledged_seq ?w = acknowledged_seq w" "durable_seq ?w \<in> {durable_seq w, next_seq w - 1}"
    by (auto simp: isolate_corrupt_tail_def Let_def)
  have segs: "segments ?w = (if bad \<le> seg_first ?d then erase i (segments w)
      else (segments w)[i := ?d\<lparr>seg_last := bad - 1, seg_bytes := offset\<rparr>])"
    by (auto simp: isolate_corrupt_tail_def Let_def)
  have act: "active_fd ?w \<noteq> None \<longrightarrow> segments ?w \<noteq> []"
    using i by (auto simp: isolate_corrupt_tail_def Let_def erase_def)
  have old: "indexed w \<subseteq> indexed ?w \<union> (seg_range ?d \<inter> {bad..})"
  proof
    fix x assume "x \<in> indexed w"
    then obtain s where s: "s \<in> set (segments w)" "x \<in> seg_range s" by (auto simp: indexed_def)
    then obtain j where j: "j < length (segments w)" "s = segments w ! j" by (auto simp: in_set_conv_nth)
    show "x \<in> indexed ?w \<union> (seg_range ?d \<inter> {bad..})"
    proof (cases "j = i")
      case True
      have "?d\<lparr>seg_last := bad - 1, seg_bytes := offset\<rparr> \<in> set (segments ?w)" if "\<not> bad \<le> seg_first ?d"
        using that i segs by (simp add: set_update_memI)
      then show ?thesis using s(2) j(2) True by (force simp: indexed_def seg_range_def)
    next
      case False
      then have "s \<in> set (segments ?w)"
        using j nth_in_erase [OF j(1)] nth_in_update [OF j(1)] segs by simp
      then show ?thesis using s(2) by (auto simp: indexed_def)
    qed
  qed
  have "{acknowledged_seq w<..} \<inter> (seg_range ?d \<inter> {bad..}) \<subseteq> explained (losses ?w)"
    using report_lost_explains(1) [where w = w and start = bad and final = "seg_last ?d"
        and r = "''corrupt_segment''" and n = ?n] fields(1)
    by (cases "bad \<le> seg_last ?d") (auto simp: seg_range_def)
  moreover have "explained (losses w) \<subseteq> explained (losses ?w)"
    using report_lost_explains(2) [of w] fields(1) by auto
  moreover have "{max base (acknowledged_seq w)<..<next_seq w} \<subseteq> indexed w \<union> explained (taken @ losses w)"
    using acc by (simp add: accounted_def)
  ultimately have "{max base (acknowledged_seq w)<..<next_seq w} \<subseteq> indexed ?w \<union> explained (taken @ losses ?w)"
    using old by fastforce
  moreover have "dropped_records ?w + k = sum_list (map loss_records (taken @ losses ?w))"
    using report_lost_sum [of w k taken] acc fields(1,2) by (auto simp: accounted_def)
  moreover have "\<forall>s\<in>set (segments ?w). seg_first s \<le> next_seq w \<and> seg_last s < next_seq w"
  proof
    fix s assume "s \<in> set (segments ?w)"
    then have "s \<in> set (segments w) \<or> s = ?d\<lparr>seg_last := bad - 1, seg_bytes := offset\<rparr> \<and> seg_first ?d < bad"
      using segs set_erase_subset set_update_subset_insert by (fastforce split: if_splits)
    then show "seg_first s \<le> next_seq w \<and> seg_last s < next_seq w"
      using acc i bad by (auto simp: accounted_def)
  qed
  moreover have "\<forall>l\<in>set (losses ?w). loss_last l < max lim (next_seq w)"
    unfolding fields(1) using acc i report_lost_below [of w "max lim (next_seq w)" "seg_last ?d"] by (auto simp: accounted_def less_max_iff_disj)
  ultimately show ?thesis
    using acc fields act by (auto simp: accounted_def)
qed

lemma open_active_accounted:
  assumes "accounted base lim k taken w"
  shows "accounted base lim k taken (snd (open_active io (next_seq w) w))"
    and "next_seq (snd (open_active io (next_seq w) w)) = next_seq w"
    and "fst (open_active io (next_seq w) w) = Inr b \<Longrightarrow> segments (snd (open_active io (next_seq w) w)) \<noteq> []"
    and "options (snd (open_active io (next_seq w) w)) = options w"
  using assms by (auto simp: open_active_def accounted_def indexed_def Let_def split: option.splits)

lemma accounted_append_written:
  assumes acc: "accounted base lim k taken w" and ne: "segments w \<noteq> []"
    and w': "segments w' = set_last ((last (segments w))\<lparr>seg_bytes := b, seg_last := next_seq w\<rparr>) (segments w)"
      "next_seq w' = next_seq w + 1" "losses w' = losses w" "dropped_records w' = dropped_records w"
      "acknowledged_seq w' = acknowledged_seq w" "durable_seq w' = durable_seq w"
  shows "accounted base lim k taken w'"
proof -
  let ?l = "last (segments w)"
  have set: "set (segments w) = insert ?l (set (butlast (segments w)))"
    using ne by (metis append_butlast_last_id list.simps(15) rotate1.simps(2) set_rotate1)
  have "seg_first ?l \<le> next_seq w" "seg_last ?l < next_seq w"
    using acc ne by (auto simp: accounted_def)
  then have "indexed w \<union> {next_seq w} \<subseteq> indexed w'"
    unfolding indexed_def w'(1) set set_last_def by (auto simp: seg_range_def)
  moreover have "\<forall>s\<in>set (segments w'). seg_first s \<le> next_seq w' \<and> seg_last s < next_seq w'"
    using acc set unfolding w'(1) set_last_def w'(2) by (auto simp: accounted_def)
  moreover have "segments w' \<noteq> []" by (simp add: w'(1) set_last_def)
  ultimately show ?thesis
    using acc w' by (auto simp: accounted_def less_Suc_eq less_max_iff_disj)
qed

lemma ensure_active_accounted:
  assumes "accounted base lim k taken w" and "ensure_active io (next_seq w) frame w = (r, w1)"
  shows "accounted base lim k taken w1" and "next_seq w1 = next_seq w" and "r = Inr b \<Longrightarrow> segments w1 \<noteq> []"
  using open_active_accounted [OF assms(1), of io] assms
  by (auto simp: ensure_active_def accounted_def split: if_splits)

lemma append_written_accounted:
  "accounted base lim k taken w \<Longrightarrow> segments w \<noteq> [] \<Longrightarrow> accounted base lim k taken (append_written (next_seq w) frame w)"
  by (rule accounted_append_written [where b = "seg_bytes (last (segments w)) + length frame"])
    (simp_all add: append_written_def Let_def)

lemma append_failed_accounted:
  assumes acc: "accounted base lim k taken w" and ne: "segments w \<noteq> []"
  shows "accounted base lim k taken (append_failed io partial w)"
proof -
  have i: "length (segments w) - 1 < length (segments w)"
    "last (segments w) = segments w ! (length (segments w) - 1)"
    using ne by (simp_all add: last_conv_nth)
  show ?thesis
  proof (cases "io_trunc io \<or> seg_last (last (segments w)) \<noteq> 0")
    case True
    then show ?thesis by (intro accounted_frame [OF acc]) (auto simp: append_failed_def Let_def)
  next
    case False
    then show ?thesis by (intro accounted_forget [OF acc i(1)]) (use i in \<open>auto simp: append_failed_def Let_def\<close>)
  qed
qed

lemma append_accounted:
  assumes acc: "accounted base lim k taken w"
  shows "accounted base lim k taken (snd (wal_append io seq payload w))"
proof (cases "seq = next_seq w \<and> length payload \<le> wo_maximum_record_bytes (options w)")
  case False
  with acc show ?thesis by (auto simp: wal_append_def)
next
  case True
  let ?frame = "encode_wal_frame (of_nat seq) payload"
  obtain r w1 where rw: "ensure_active io (next_seq w) ?frame w = (r, w1)" by fastforce
  note 1 = ensure_active_accounted [OF acc rw]
  show ?thesis
  proof (cases r)
    case (Inl e)
    with True 1 rw show ?thesis by (simp add: wal_append_def)
  next
    case (Inr b)
    note acc1 = 1(1) 1(3) [OF Inr]
    have "accounted base lim k taken (enforce_quota io (append_written seq ?frame w1))"
      using append_written_accounted [OF acc1, of ?frame] True 1(2)
      by (simp add: enforce_quota_def quota_loop_accounted)
    then show ?thesis
      using True rw Inr append_failed_accounted [OF acc1]
      by (cases "io_write io") (simp_all add: wal_append_def)
  qed
qed

lemma sync_accounted:
  assumes acc: "accounted base lim k taken w"
  shows "accounted base lim k taken (snd (wal_sync io now force w))"
  by (rule accounted_frame [OF acc]) (auto simp: wal_sync_def split: option.splits)

text \<open>The frame loop never claims a sequence number beyond the durable ones.\<close>

primrec fr_limit :: "frames_result \<Rightarrow> nat" where
  "fr_limit (Batch_full offset seq records) = seq"
| "fr_limit (Bad_payload offset seq records) = seq"
| "fr_limit (Segment_end offset expected records bytes damaged) = expected"

lemma read_frames_limit:
  "fr_limit (read_frames io f data n durable from mr mb offset expected records bytes) \<le> max expected (Suc durable)"
proof (induction io f data n durable "from" mr mb offset expected records bytes rule: read_frames.induct)
  case (1 io f data n durable "from" mr mb offset expected records bytes)
  show ?case
    by (subst read_frames.simps)
      (use 1 in \<open>auto simp: Let_def split: option.split\<close>)
qed

lemma read_segments_accounted:
  "accounted base lim k taken w \<Longrightarrow> from \<le> durable_seq w \<Longrightarrow>
   accounted base lim k taken (snd (read_segments io from mr mb index offset records bytes w))"
proof (induction io "from" mr mb index offset records bytes w rule: read_segments.induct)
  case (1 io "from" mr mb index offset records bytes w)
  note acc = "1.prems"(1)
  let ?c = "segments w ! index"
  show ?case
  proof (cases "length (segments w) \<le> index")
    case True
    then show ?thesis using acc by (simp add: read_segments.simps [of io "from" mr mb index])
  next
    case False
    then have i: "index < length (segments w)" by simp
    show ?thesis
    proof (cases "d_lookup (disk w) (seg_first ?c)")
      case None
      obtain removed w' where d: "drop_missing_segments w = (removed, w')" by fastforce
      have acc': "accounted base lim k taken w'" using drop_missing_accounted [OF acc] d by simp
      have "from \<le> durable_seq w'"
        using "1.prems" d drop_missing_durable [of w] acc by (auto simp: accounted_def)
      then show ?thesis
        using "1.IH"(1) [OF False refl refl None d [symmetric] refl _ refl refl] acc' None False d
        by (auto simp: read_segments.simps [of io "from" mr mb index] Let_def)
    next
      case (Some ino)
      let ?e = "if offset = 0 then seg_first ?c else from"
      let ?r = "read_frames io (seg_first ?c) (dk_data (disk w) ino) (seg_bytes ?c) (durable_seq w) from mr mb offset ?e records bytes"
      have "?e \<le> next_seq w"
        using acc i "1.prems"(2) by (auto simp: accounted_def)
      moreover have "fr_limit ?r \<le> max ?e (Suc (durable_seq w))" by (rule read_frames_limit)
      ultimately have lim: "fr_limit ?r \<le> next_seq w"
        using acc by (auto simp: accounted_def)
      have frame: "accounted base lim k taken (w\<lparr>reader_seq := a, reader_path := b, reader_offset := c\<rparr>)" for a b c
        by (rule accounted_frame [OF acc]) simp_all
      show ?thesis
      proof (cases ?r)
        case (Batch_full o' s' r')
        then show ?thesis using False Some acc frame
          by (simp add: read_segments.simps [of io "from" mr mb index] Let_def)
      next
        case (Bad_payload o' s' r')
        then show ?thesis using False Some acc lim isolate_accounted [OF acc i, of s']
          by (simp add: read_segments.simps [of io "from" mr mb index] Let_def)
      next
        case (Segment_end o' e' r' b' dmg)
        then show ?thesis
          using False Some acc lim isolate_accounted [OF acc i, of e'] frame
            "1.IH"(2) [OF False refl refl Some _ Segment_end _ refl] "1.prems"(2)
          by (simp add: read_segments.simps [of io "from" mr mb index offset] Let_def)
      qed
    qed
  qed
qed

lemma read_accounted:
  assumes acc: "accounted base lim k taken w"
  shows "accounted base lim k taken (snd (wal_read io from_seq mr mb w))"
  using read_segments_accounted [OF acc, of from_seq] acc
  by (auto simp: wal_read_def Let_def split: prod.splits)

lemma acknowledge_accounted:
  assumes acc: "accounted base lim k taken w"
  shows "accounted base lim k taken (snd (acknowledge io seq w))"
proof (cases "acknowledged_seq w < seq \<and> seq \<le> durable_seq w \<and> io_cursor io = Cursor_written")
  case False
  have "accounted base lim k taken (w\<lparr>disk := d\<rparr>)" for d
    by (rule accounted_frame [OF acc]) simp_all
  with False acc show ?thesis
    by (cases "io_cursor io") (auto simp: acknowledge_def persist_cursor_def)
next
  case True
  let ?d = "(disk w)\<lparr>dk_cursor := Some (cursor_text seq)\<rparr>"
  let ?w = "w\<lparr>disk := ?d, acknowledged_seq := seq\<rparr>"
  have "{max base seq<..<next_seq w} \<subseteq> {max base (acknowledged_seq w)<..<next_seq w}"
    using True by auto
  then have "{max base seq<..<next_seq w} \<subseteq> indexed ?w \<union> explained (taken @ losses ?w)"
    using acc by (simp add: accounted_def indexed_def) blast
  then have "accounted base lim k taken ?w"
    using acc True by (simp add: accounted_def)
  from drop_acknowledged_accounted [OF this, of seq 1 io] True show ?thesis
    by (simp add: acknowledge_def persist_cursor_def)
qed

lemma take_losses_accounted:
  "accounted base lim k taken w \<Longrightarrow> accounted base lim k (taken @ losses w) (snd (take_losses w))"
  by (simp add: accounted_def take_losses_def indexed_def)

text \<open>Accounting from a point past the next number says nothing, so it may as well start just before that number.\<close>

lemma accounted_base: "accounted base lim k taken w \<Longrightarrow> accounted (min base (next_seq w - 1)) lim k taken w"
  by (auto simp: accounted_def min_def split: if_splits)

section \<open>Runs\<close>

text \<open>
  The methods the pipeline and the uplink call, each with arbitrary outcomes of its system
  calls, and \<open>Tamper\<close>: anything another process does to the files between two calls. The
  second component of a state collects the loss reports already taken.
\<close>

datatype wal_op =
    Append wal_io nat "byte list"
  | Sync wal_io u64 bool
  | Read wal_io nat nat nat
  | Acknowledge wal_io nat
  | Verify_storage
  | Take_losses
  | Tamper wal_disk

fun wal_step :: "wal_op \<Rightarrow> wal \<times> wal_loss list \<Rightarrow> wal \<times> wal_loss list" where
  "wal_step (Append io seq payload) (w, taken) = (snd (wal_append io seq payload w), taken)"
| "wal_step (Sync io now force) (w, taken) = (snd (wal_sync io now force w), taken)"
| "wal_step (Read io from_seq mr mb) (w, taken) = (snd (wal_read io from_seq mr mb w), taken)"
| "wal_step (Acknowledge io seq) (w, taken) = (snd (acknowledge io seq w), taken)"
| "wal_step Verify_storage (w, taken) = (snd (verify_storage w), taken)"
| "wal_step Take_losses (w, taken) = (snd (take_losses w), taken @ fst (take_losses w))"
| "wal_step (Tamper d) (w, taken) = (w\<lparr>disk := d\<rparr>, taken)"

lemma wal_step_accounted:
  assumes "accounted base lim k taken w" and "wal_step op (w, taken) = (w', taken')"
  shows "accounted base lim k taken' w'"
proof (cases op)
  case (Tamper d)
  have "accounted base lim k taken (w\<lparr>disk := d\<rparr>)" by (rule accounted_frame [OF assms(1)]) simp_all
  with Tamper assms(2) show ?thesis by simp
next
  case Take_losses
  then show ?thesis using assms take_losses_accounted [OF assms(1)] by (auto simp: take_losses_def)
qed (use assms append_accounted [OF assms(1)] sync_accounted [OF assms(1)] read_accounted [OF assms(1)]
       acknowledge_accounted [OF assms(1)] drop_missing_accounted [OF assms(1)] in
     \<open>auto simp: verify_storage_def\<close>)

lemma wal_run_accounted:
  "accounted base lim k taken w \<Longrightarrow> fold wal_step ops (w, taken) = (w', taken') \<Longrightarrow> accounted base lim k taken' w'"
proof (induction ops arbitrary: w taken)
  case (Cons op ops)
  obtain w1 taken1 where s: "wal_step op (w, taken) = (w1, taken1)" by fastforce
  with Cons.IH [OF wal_step_accounted [OF Cons.prems(1) s]] Cons.prems(2) show ?case by simp
qed simp

section \<open>Recovery\<close>

text \<open>
  The frame loop of recovery stays below the end of the 64-bit range when the file does, and
  ends after the last intact frame.
\<close>

lemma scan_frames_spec:
  assumes "scan_frames io f mr data offset expected final = (offset', expected', final')"
    and "offset \<le> length data" and "expected + (length data - offset) < 2 ^ 64"
  shows "offset' \<le> length data \<and> expected' + (length data - offset') \<le> expected + (length data - offset) \<and>
    (expected' = expected \<and> final' = final \<or> expected < expected' \<and> final' = expected' - 1)"
  using assms
proof (induction io f mr data offset expected final rule: scan_frames.induct)
  case (1 io f mr data offset expected final)
  show ?case
  proof (cases "scan_frames io f mr data offset expected final = (offset, expected, final)")
    case True
    with "1.prems" show ?thesis by auto
  next
    case False
    then obtain header where g: "offset < length data \<and> wal_header_bytes \<le> length data - offset"
        "read_exact io f data wal_header_bytes offset = Some header"
      by (subst (asm) scan_frames.simps) (auto split: if_splits option.splits)
    let ?frame = "decode_wal_header header"
    let ?len = "unat (fh_length ?frame)"
    from False g obtain payload where h: "\<not> (fh_magic ?frame \<noteq> wal_magic \<or> mr < ?len \<or>
          length data - offset - wal_header_bytes < ?len \<or> fh_seq ?frame \<noteq> of_nat expected)"
        "read_exact io f data ?len (offset + wal_header_bytes) = Some payload"
        "\<not> wal_frame_crc (fh_seq ?frame) payload \<noteq> fh_crc ?frame"
      by (subst (asm) scan_frames.simps) (auto simp: Let_def split: if_splits option.splits)
    have next_eq: "scan_frames io f mr data (offset + wal_header_bytes + ?len) (Suc expected mod 2 ^ 64) expected = (offset', expected', final')"
      using "1.prems"(1) g h by (subst (asm) scan_frames.simps) (simp add: Let_def)
    have suc: "Suc expected mod 2 ^ 64 = Suc expected" "offset + wal_header_bytes + ?len \<le> length data"
        "Suc expected + (length data - (offset + wal_header_bytes + ?len)) \<le> expected + (length data - offset)"
      using "1.prems"(2,3) g(1) h(1) by (auto simp: wal_header_bytes_def)
    let ?rest = "length data - (offset + wal_header_bytes + ?len)"
    have "offset' \<le> length data \<and> expected' + (length data - offset') \<le> Suc expected + ?rest \<and>
      (expected' = Suc expected \<and> final' = expected \<or> Suc expected < expected' \<and> final' = expected' - 1)"
      by (rule "1.IH" [OF g(1) g(2) refl refl h(1) h(2) h(3), unfolded suc(1), OF next_eq [unfolded suc(1)] suc(2)])
        (use suc(3) "1.prems"(3) in linarith)
    then show ?thesis using suc(3) by linarith
  qed
qed

lemma map_of_filter_fst: "g \<noteq> f \<Longrightarrow> map_of (filter (\<lambda>e. fst e \<noteq> f) xs) g = map_of xs g"
  by (induction xs) auto

definition covered :: "wal_segment list \<Rightarrow> nat set" where
  "covered segs = (\<Union>s\<in>set segs. seg_range s)"

lemma covered_append [simp]: "covered (xs @ ys) = covered xs \<union> covered ys" "covered [s] = seg_range s" "covered [] = {}"
  by (auto simp: covered_def)

text \<open>The files recovery still has to look at: each is there, no two are the same file, and no number in them reaches the end of the range.\<close>

definition ready :: "nat list \<Rightarrow> wal_disk \<Rightarrow> bool" where
  "ready fs d \<longleftrightarrow> distinct fs \<and> inj_on (d_lookup d) (set fs) \<and>
     (\<forall>f\<in>set fs. 0 < f \<and> d_lookup d f \<noteq> None \<and> f + length (file_data d f) < 2 ^ 64)"

definition same_files :: "nat list \<Rightarrow> wal_disk \<Rightarrow> wal_disk \<Rightarrow> bool" where
  "same_files fs d d' \<longleftrightarrow> (\<forall>f\<in>set fs. d_lookup d' f = d_lookup d f \<and> file_data d' f = file_data d f)"

lemma ready_later: "ready (f # fs) d \<Longrightarrow> same_files fs d d' \<Longrightarrow> ready fs d'"
  by (auto simp: ready_def same_files_def inj_on_def)

lemma same_files_refl: "same_files fs d d"
  by (simp add: same_files_def)

lemma same_files_trans: "same_files fs d d' \<Longrightarrow> same_files fs d' d'' \<Longrightarrow> same_files fs d d''"
  by (simp add: same_files_def)

lemma same_files_unlink:
  assumes "f \<notin> set fs"
  shows "same_files fs d (unlink_if io f d)"
proof -
  have "d_lookup (unlink_if io f d) g = d_lookup d g" if "g \<noteq> f" for g
    using that by (simp add: unlink_if_def d_unlink_def d_lookup_def map_of_filter_fst)
  moreover have "dk_data (unlink_if io f d) = dk_data d" by (simp add: unlink_if_def d_unlink_def)
  ultimately show ?thesis using assms unfolding same_files_def file_data_def by (metis (no_types, lifting))
qed

lemma same_files_sync: "same_files fs d (d_sync ino d)"
  by (simp add: same_files_def d_sync_def d_lookup_def file_data_def split: option.splits)

lemma same_files_truncate:
  "(\<forall>g\<in>set fs. d_lookup d g \<noteq> Some ino) \<Longrightarrow> same_files fs d (d_truncate ino n d)"
  by (auto simp: same_files_def d_truncate_def d_lookup_def file_data_def split: option.splits)

lemma recover_loop_ConsE:
  assumes loop: "recover_loop io opts (f # fs) (Some e) kept ls d g = Inr r" and ready: "ready (f # fs) d"
  obtains (overlap) "f < e" "recover_loop io opts fs (Some e) kept
        (ls @ [mk_loss ''corrupt_segment'' f 0 0 (length (file_data d f))]) (unlink_if io f d) g = Inr r"
      "same_files fs d (unlink_if io f d)"
    | (scanned) offset e' final d' g' reason where "e \<le> f"
      "scan_frames io f (wo_maximum_record_bytes opts) (file_data d f) 0 f 0 = (offset, e', final)"
      "recover_loop io opts fs (Some e') (kept @ (if final = 0 then [] else [\<lparr>seg_first = f, seg_last = final, seg_bytes = offset\<rparr>]))
         (ls @ (if e < f then [mk_loss ''gap'' e (f - 1) (f - e) 0] else []) @
            (if offset < length (file_data d f) then [mk_loss reason e' 0 0 (length (file_data d f) - offset)] else [])) d' g' = Inr r"
      "same_files fs d d'"
proof (cases "f < e")
  case True
  moreover have "f \<notin> set fs" using ready by (simp add: ready_def)
  ultimately show thesis using loop same_files_unlink by (intro overlap) auto
next
  case False
  obtain ino where ino: "d_lookup d f = Some ino" using ready by (auto simp: ready_def)
  then have data: "file_data d f = dk_data d ino" by (simp add: file_data_def)
  have other: "f \<notin> set fs" using ready by (simp add: ready_def)
  have apart: "\<forall>h\<in>set fs. d_lookup d h \<noteq> Some ino"
  proof
    fix h assume h: "h \<in> set fs"
    have "inj_on (d_lookup d) (set (f # fs))" using ready unfolding ready_def by blast
    from inj_onD [OF this, of h f] h other ino show "d_lookup d h \<noteq> Some ino" by auto
  qed
  obtain offset e' final where scan: "scan_frames io f (wo_maximum_record_bytes opts) (file_data d f) 0 f 0 = (offset, e', final)"
    using prod_cases3 by blast
  let ?torn = "offset < length (file_data d f)"
  let ?d1 = "if ?torn \<and> io_trunc_seg io f then d_truncate ino offset d else d"
  let ?d2 = "if io_sync_seg io f then d_sync ino ?d1 else ?d1"
  let ?d3 = "if final = 0 then unlink_if io f ?d2 else ?d2"
  have "same_files fs d ?d1" using same_files_truncate [OF apart] same_files_refl by simp
  then have "same_files fs d ?d2" using same_files_trans [OF _ same_files_sync] by simp
  then have "same_files fs d ?d3" using same_files_trans [OF _ same_files_unlink [OF other]] by simp
  moreover have "io_open io f" using loop False by (rule_tac ccontr) (simp add: Let_def)
  then have "recover_loop io opts (f # fs) (Some e) kept ls d g =
      recover_loop io opts fs (Some e') (kept @ (if final = 0 then [] else [\<lparr>seg_first = f, seg_last = final, seg_bytes = offset\<rparr>]))
        (ls @ (if e < f then [mk_loss ''gap'' e (f - 1) (f - e) 0] else []) @
          (if ?torn then [mk_loss (if fs = [] then ''torn_tail'' else ''corrupt_segment'') e' 0 0 (length (file_data d f) - offset)] else []))
        ?d3 (g \<or> ?torn \<and> \<not> io_trunc_seg io f \<and> fs = [])"
    using False ino data scan by (cases "final = 0"; cases ?torn; cases "e < f") (simp_all add: Let_def)
  ultimately show thesis using loop False scan by - (rule scanned, simp, assumption, simp, assumption)
qed

text \<open>What the loop has read so far is in a kept segment or in a reported gap, and the kept segments are in order.\<close>

definition in_order :: "nat \<Rightarrow> wal_segment list \<Rightarrow> bool" where
  "in_order e kept \<longleftrightarrow>
     (\<forall>s\<in>set kept. seg_first s \<le> seg_last s \<and> seg_last s < e \<and> seg_last s \<le> seg_last (last kept))"

lemma recover_loop_covers:
  assumes "recover_loop io opts fs (Some e) kept ls d g = Inr (kept', ls', d', g')" and "ready fs d"
    and "{a..<e} \<subseteq> covered kept \<union> explained ls" and "in_order e kept" and "e < 2 ^ 64"
  shows "\<exists>e'. {a..<e'} \<subseteq> covered kept' \<union> explained ls' \<and> in_order e' kept' \<and> e' < 2 ^ 64"
  using assms
proof (induction fs arbitrary: e kept ls d g)
  case (Cons f fs)
  from Cons.prems(1,2) show ?case
  proof (cases rule: recover_loop_ConsE)
    case overlap
    from Cons.IH [OF this(2) ready_later [OF Cons.prems(2) this(3)]] Cons.prems(3,4,5) show ?thesis by auto
  next
    case (scanned offset e' final d1 g1 reason)
    let ?kept = "kept @ (if final = 0 then [] else [\<lparr>seg_first = f, seg_last = final, seg_bytes = offset\<rparr>])"
    let ?gap = "if e < f then [mk_loss ''gap'' e (f - 1) (f - e) 0] else []"
    have f: "0 < f" "f + length (file_data d f) < 2 ^ 64" using Cons.prems(2) by (simp_all add: ready_def)
    with scan_frames_spec [OF scanned(2)] have e': "e' < 2 ^ 64" "f \<le> e'" "final = 0 \<and> e' = f \<or> f < e' \<and> final = e' - 1"
      by auto
    have order: "in_order e' ?kept"
      using Cons.prems(4) scanned(1) e'(2,3) f(1) by (auto simp: in_order_def)
    have "{e..<f} \<subseteq> explained ?gap" by (auto simp: mk_loss_def loss_range_def)
    moreover have "{f..<e'} \<subseteq> covered ?kept" using e'(3) f(1) by (auto simp: seg_range_def)
    moreover have "{a..<e'} \<subseteq> {a..<e} \<union> {e..<f} \<union> {f..<e'}" by auto
    moreover have "covered kept \<subseteq> covered ?kept" by simp
    ultimately have "{a..<e'} \<subseteq> covered ?kept \<union> explained (ls @ ?gap @ x)" for x
      using Cons.prems(3) unfolding explained_append by blast
    then show ?thesis
      by (rule Cons.IH [OF scanned(3) ready_later [OF Cons.prems(2) scanned(4)] _ order e'(1)])
  qed
qed auto

text \<open>What becomes of one file: it overlaps the one before and is reported as a whole, or its intact records are kept and what follows them is reported.\<close>

definition file_accounted :: "wal_io \<Rightarrow> wal_options \<Rightarrow> wal_disk \<Rightarrow> nat set \<Rightarrow> wal_loss list \<Rightarrow> nat \<Rightarrow> bool" where
  "file_accounted io opts d held ls f \<longleftrightarrow>
     (case scan_frames io f (wo_maximum_record_bytes opts) (file_data d f) 0 f 0 of (offset, e, final) \<Rightarrow>
        mk_loss ''corrupt_segment'' f 0 0 (length (file_data d f)) \<in> set ls \<or>
        {f..<e} \<subseteq> held \<and>
        (offset < length (file_data d f) \<longrightarrow>
           (\<exists>reason. mk_loss reason e 0 0 (length (file_data d f) - offset) \<in> set ls)))"

lemma file_accounted_mono:
  "file_accounted io opts d held ls f \<Longrightarrow> held \<subseteq> held' \<Longrightarrow> set ls \<subseteq> set ls' \<Longrightarrow> file_accounted io opts d held' ls' f"
  by (auto simp: file_accounted_def)

lemma recover_loop_accounts:
  assumes "recover_loop io opts fs (Some e) kept ls d g = Inr (kept', ls', d', g')" and "ready fs d"
  shows "covered kept \<subseteq> covered kept' \<and> set ls \<subseteq> set ls' \<and> (\<forall>f\<in>set fs. file_accounted io opts d (covered kept') ls' f)"
  using assms
proof (induction fs arbitrary: e kept ls d g)
  case (Cons f fs)
  have later: "file_accounted io opts d1 h l f1 = file_accounted io opts d h l f1" if "same_files fs d d1" "f1 \<in> set fs" for d1 h l f1
    using that by (simp add: file_accounted_def same_files_def)
  from Cons.prems(1,2) show ?case
  proof (cases rule: recover_loop_ConsE)
    case overlap
    from Cons.IH [OF this(2) ready_later [OF Cons.prems(2) this(3)]] later [OF this(3)] show ?thesis
      by (auto simp: file_accounted_def [of io opts d _ _ f] split: prod.split)
  next
    case (scanned offset e' final d1 g1 reason)
    have f: "0 < f" "f + length (file_data d f) < 2 ^ 64" using Cons.prems(2) by (simp_all add: ready_def)
    with scan_frames_spec [OF scanned(2)] have "final = 0 \<and> e' = f \<or> f < e' \<and> final = e' - 1" by auto
    then have "{f..<e'} \<subseteq> covered (kept @ (if final = 0 then [] else [\<lparr>seg_first = f, seg_last = final, seg_bytes = offset\<rparr>]))"
      using f(1) by (auto simp: seg_range_def)
    with Cons.IH [OF scanned(3) ready_later [OF Cons.prems(2) scanned(4)]] later [OF scanned(4)] scanned(2) show ?thesis
      by (auto simp: file_accounted_def [of io opts d _ _ f])
  qed
qed auto

lemma drop_acknowledged_fields:
  "losses (drop_acknowledged io keep n w) = losses w \<and> acknowledged_seq (drop_acknowledged io keep n w) = acknowledged_seq w \<and>
   next_seq (drop_acknowledged io keep n w) = next_seq w \<and> active_fd (drop_acknowledged io keep n w) = active_fd w \<and>
   indexed w \<subseteq> indexed (drop_acknowledged io keep n w) \<union> {..n}"
proof (induction io keep n w rule: drop_acknowledged.induct)
  case (1 io keep n w)
  show ?case
  proof (cases "keep < length (segments w) \<and> seg_last (hd (segments w)) \<le> n")
    case True
    then have "hd (segments w) = segments w ! 0" "0 < length (segments w)" by (cases "segments w"; simp)+
    with indexed_erase [of 0 w "delete_segment io 0 w"] True
    have "indexed w \<subseteq> indexed (delete_segment io 0 w) \<union> {..n}" by (auto simp: seg_range_def)
    with "1.IH" [OF True] True show ?thesis by (subst (1 2 3 4 5) drop_acknowledged.simps) auto
  next
    case False
    then show ?thesis by (subst (1 2 3 4 5) drop_acknowledged.simps) auto
  qed
qed

text \<open>
  A directory recovery can be run on: every name is one file, no name or cursor is at the end of
  the 64-bit range. Recovery accounts from the first file it finds.
\<close>

definition sound_disk :: "wal_disk \<Rightarrow> bool" where
  "sound_disk d \<longleftrightarrow> distinct (map fst (dk_names d)) \<and> distinct (map snd (dk_names d)) \<and> read_cursor d + 1 < 2 ^ 64 \<and>
     (\<forall>e\<in>set (dk_names d). 0 < fst e \<and> fst e + length (dk_data d (snd e)) < 2 ^ 64)"

definition before_first :: "wal_disk \<Rightarrow> nat" where
  "before_first d = (case sort (map fst (dk_names d)) of [] \<Rightarrow> 0 | f # fs \<Rightarrow> f - 1)"

lemma sound_disk_ready:
  assumes "sound_disk d"
  shows "ready (sort (map fst (dk_names d))) d"
proof -
  have lookup: "d_lookup d (fst e) = Some (snd e)" if "e \<in> set (dk_names d)" for e
    using assms that by (simp add: sound_disk_def d_lookup_def)
  have "inj_on (d_lookup d) (fst ` set (dk_names d))"
  proof (rule inj_onI)
    fix f g assume "f \<in> fst ` set (dk_names d)" "g \<in> fst ` set (dk_names d)" and same: "d_lookup d f = d_lookup d g"
    then obtain a b where ab: "a \<in> set (dk_names d)" "f = fst a" "b \<in> set (dk_names d)" "g = fst b" by blast
    with same lookup have "snd a = snd b" by simp
    moreover have "inj_on snd (set (dk_names d))" using assms by (simp add: sound_disk_def distinct_map)
    ultimately have "a = b" using ab by (auto dest: inj_onD)
    with ab show "f = g" by simp
  qed
  then show ?thesis
    using assms lookup by (auto simp: ready_def sound_disk_def file_data_def)
qed

lemma recover_loop_start:
  "recover_loop io opts (f # fs) None kept ls d g = recover_loop io opts (f # fs) (Some f) kept ls d g"
  by simp

lemma recovered:
  assumes "recover_loop io opts (sort (map fst (dk_names d))) None [] [] d False = Inr (segs, ls, d', g)" and "sound_disk d"
  shows "\<exists>e. {Suc (before_first d)..<e} \<subseteq> covered segs \<union> explained ls \<and> in_order e segs \<and> e < 2 ^ 64"
    and "\<forall>f\<in>fst ` set (dk_names d). file_accounted io opts d (covered segs) ls f"
proof -
  note ready = sound_disk_ready [OF assms(2)]
  have "(\<exists>e. {Suc (before_first d)..<e} \<subseteq> covered segs \<union> explained ls \<and> in_order e segs \<and> e < 2 ^ 64) \<and>
    (\<forall>f\<in>set (sort (map fst (dk_names d))). file_accounted io opts d (covered segs) ls f)"
  proof (cases "sort (map fst (dk_names d))")
    case Nil
    with assms(1) show ?thesis by (auto simp: in_order_def before_first_def intro: exI [of _ 0])
  next
    case (Cons f fs)
    have f: "0 < f" "f < 2 ^ 64" using ready Cons by (auto simp: ready_def)
    have loop: "recover_loop io opts (f # fs) (Some f) [] [] d False = Inr (segs, ls, d', g)"
      using assms(1) unfolding Cons recover_loop_start .
    have "Suc (before_first d) = f" using f Cons by (simp add: before_first_def)
    then show ?thesis
      using recover_loop_covers [OF loop ready [unfolded Cons], of f] recover_loop_accounts [OF loop ready [unfolded Cons]] f(2)
      unfolding Cons by (simp add: in_order_def)
  qed
  then show "\<exists>e. {Suc (before_first d)..<e} \<subseteq> covered segs \<union> explained ls \<and> in_order e segs \<and> e < 2 ^ 64"
    "\<forall>f\<in>fst ` set (dk_names d). file_accounted io opts d (covered segs) ls f" by simp_all
qed

lemma no_descriptor: "active_fd (w::wal) = None \<Longrightarrow> w = w\<lparr>active_fd := None\<rparr>"
  by (cases w) simp

lemma wal_open_accounted:
  assumes "wal_open io opts d = Inr w0" and sound: "sound_disk d"
  shows "(\<forall>l\<in>set (losses w0). loss_last l < max lim (next_seq w0)) \<Longrightarrow>
      accounted (before_first d) lim (sum_list (map loss_records (losses w0))) [] w0"
    and "acknowledged_seq w0 = read_cursor d"
    and "\<forall>f\<in>fst ` set (dk_names d). file_accounted io opts d ({..acknowledged_seq w0} \<union> indexed w0) (losses w0) f"
proof -
  obtain segs ls d' g where loop: "recover_loop io opts (sort (map fst (dk_names d))) None [] [] d False = Inr (segs, ls, d', g)"
    using assms(1) by (auto simp: wal_open_def recover_def Let_def split: if_splits sum.splits)
  let ?a = "read_cursor d"
  let ?n = "max (if segs = [] then 0 else seg_last (last segs)) ?a + 1"
  let ?w = "(wal_new opts d')\<lparr>segments := segs, losses := ls, acknowledged_seq := ?a, next_seq := ?n, durable_seq := ?n - 1\<rparr>"
  let ?w1 = "drop_acknowledged io 0 ?a ?w"
  note drop = drop_acknowledged_fields [of io 0 ?a ?w]
  obtain e where e: "{Suc (before_first d)..<e} \<subseteq> covered segs \<union> explained ls" "in_order e segs" "e < 2 ^ 64"
    using recovered(1) [OF loop sound] by blast
  have final: "segs \<noteq> [] \<Longrightarrow> seg_last (last segs) < e" using e(2) by (simp add: in_order_def)
  then have "?n < 2 ^ 64" using e(3) sound by (auto simp: sound_disk_def)
  then have wrap: "?n mod 2 ^ 64 = ?n" "(?n + (2 ^ 64 - 1)) mod 2 ^ 64 = ?n - 1" by (simp_all add: mod_if)
  obtain fd where w0: "w0 = ?w1\<lparr>active_fd := fd\<rparr>" "fd \<noteq> None \<longrightarrow> segments ?w1 \<noteq> []"
  proof -
    have "recover io opts d = Inr w0" using assms(1) by (simp add: wal_open_def split: if_splits)
    then have "w0 = ?w1\<lparr>active_fd := d_lookup (disk ?w1) (seg_first (last (segments ?w1)))\<rparr> \<and> segments ?w1 \<noteq> [] \<or> w0 = ?w1"
      unfolding recover_def Let_def loop sum.case prod.case wrap by (simp split: if_splits)
    moreover have "active_fd ?w1 = None" using drop by (simp add: wal_new_def)
    then have "?w1 = ?w1\<lparr>active_fd := None\<rparr>" by (rule no_descriptor)
    ultimately show thesis using that by blast
  qed
  show "acknowledged_seq w0 = read_cursor d" using w0(1) drop by simp
  have idx: "indexed ?w = covered segs" "indexed w0 = indexed ?w1" by (simp_all add: indexed_def covered_def w0(1))
  show "\<forall>f\<in>fst ` set (dk_names d). file_accounted io opts d ({..acknowledged_seq w0} \<union> indexed w0) (losses w0) f"
  proof -
    have "covered segs \<subseteq> {..acknowledged_seq w0} \<union> indexed w0" "set ls \<subseteq> set (losses w0)"
      using drop idx w0(1) by auto
    then show ?thesis using recovered(2) [OF loop sound] by (blast intro: file_accounted_mono)
  qed
  assume lim: "\<forall>l\<in>set (losses w0). loss_last l < max lim (next_seq w0)"
  have "accounted (before_first d) lim (sum_list (map loss_records ls)) [] ?w"
  proof -
    have "{max (before_first d) ?a<..<?n} \<subseteq> {Suc (before_first d)..<e}" using final by (auto split: if_splits)
    then have "{max (before_first d) ?a<..<?n} \<subseteq> covered segs \<union> explained ls" using e(1) by blast
    moreover have "\<forall>s\<in>set segs. seg_first s \<le> ?n \<and> seg_last s < ?n" using e(2) by (force simp: in_order_def)
    ultimately show ?thesis
      using lim drop idx(1) w0(1) unfolding accounted_def by (simp add: wal_new_def)
  qed
  from drop_acknowledged_accounted [OF this, of ?a 0 io]
  show "accounted (before_first d) lim (sum_list (map loss_records (losses w0))) [] w0"
    using w0 drop by (auto simp: accounted_def indexed_def wal_new_def)
qed

text \<open>
  C17. No silent loss. A life of the log begins with \<open>wal_open\<close> on whatever the directory then
  holds, and goes on with any sequence of appends, syncs, reads, acknowledgements, storage
  checks and loss readings, with every system call failing or succeeding as it likes and with
  other processes deleting, replacing or rewriting the log's files at any moment. Assumed of the
  directory that is opened (\<open>sound_disk\<close>) is that no two names are one file and that the cursor and the
  numbers in the files do not reach the end of the 64-bit range. Then, from the first
  segment file on that recovery finds, every record number that has been handed out and is not
  acknowledged is in the range of an indexed segment or named by a loss report. Each file
  recovery finds either overlaps the one before it and is reported as a whole, or all its
  intact records are indexed or acknowledged, and what follows them in the file is reported. The counter
  of dropped records, with the records recovery's own reports name, equals the number of records
  all reports name. What recovery does not report are numbers between the cursor
  and the first file it finds, and files that are gone after the last intact record.
\<close>

theorem wal_no_silent_loss:
  assumes "wal_open io opts d = Inr w0" and "sound_disk d" and "fold wal_step ops (w0, []) = (w, taken)"
  shows "{max (before_first d) (acknowledged_seq w)<..<next_seq w} \<subseteq> indexed w \<union> explained (taken @ losses w) \<and>
    (\<forall>f\<in>fst ` set (dk_names d). file_accounted io opts d ({..read_cursor d} \<union> indexed w0) (losses w0) f) \<and>
    dropped_records w + sum_list (map loss_records (losses w0)) = sum_list (map loss_records (taken @ losses w)) \<and>
    acknowledged_seq w \<le> durable_seq w \<and> durable_seq w < next_seq w"
proof -
  obtain lim where "\<forall>l\<in>set (losses w0). loss_last l < lim"
    using finite_nat_set_iff_bounded [of "loss_last ` set (losses w0)"] by auto
  then have "accounted (before_first d) lim (sum_list (map loss_records (losses w0))) [] w0"
    by (intro wal_open_accounted(1) [OF assms(1,2)]) auto
  from wal_run_accounted [OF this assms(3)] wal_open_accounted(2,3) [OF assms(1,2)]
  show ?thesis unfolding accounted_def by (intro conjI) simp_all
qed

definition empty_disk :: wal_disk where
  "empty_disk = \<lparr>dk_names = [], dk_data = (\<lambda>_. []), dk_synced = (\<lambda>_. 0), dk_fresh = 0, dk_cursor = None\<rparr>"

definition small_options :: wal_options where
  "small_options = \<lparr>wo_directory = ''/w'', wo_quota_bytes = 8192, wo_segment_bytes = 4096,
     wo_sync_interval_ns = 1000, wo_sync_bytes = 64, wo_maximum_record_bytes = 100\<rparr>"

lemma decode_header_prefix:
  assumes "length payload < 2 ^ 32"
  shows "decode_wal_header (take wal_header_bytes (encode_wal_frame seq payload)) =
    \<lparr>fh_magic = wal_magic, fh_length = of_nat (length payload), fh_crc = wal_frame_crc seq payload, fh_seq = seq\<rparr>"
  using get_u64_append [of seq "[]"]
  by (simp add: decode_wal_header_def encode_wal_frame_def get_u32_append get_u64_append wal_header_bytes_def)

lemma scan_frames_frame:
  assumes "io_pread io f (length pre)" "io_pread io f (length pre + wal_header_bytes)" "length payload \<le> mr" "length payload < 2 ^ 32"
  shows "scan_frames io f mr (pre @ encode_wal_frame (of_nat e) payload @ rest) (length pre) e final =
    scan_frames io f mr (pre @ encode_wal_frame (of_nat e) payload @ rest) (length pre + wal_header_bytes + length payload) (Suc e mod 2 ^ 64) e"
proof -
  let ?frame = "encode_wal_frame (of_nat e) payload"
  have "read_exact io f (pre @ ?frame @ rest) wal_header_bytes (length pre) = Some (take wal_header_bytes ?frame)"
    using assms(1) by (simp add: read_exact_def)
  moreover have "read_exact io f (pre @ ?frame @ rest) (length payload) (length pre + wal_header_bytes) = Some payload"
    using assms(2) by (simp add: read_exact_def drop_encode_header flip: drop_drop)
  ultimately show ?thesis
    using assms(3,4) by (subst scan_frames.simps) (simp add: decode_header_prefix Let_def unat_of_nat, simp add: wal_header_bytes_def)
qed

lemma scan_torn: "scan_frames io_good 7 100 (encode_wal_frame 7 [65] @ [1, 2, 3]) 0 7 0 = (21, 8, 7)"
proof -
  have "scan_frames io_good 7 100 (encode_wal_frame 7 [65] @ [1, 2, 3]) 21 8 7 = (21, 8, 7)"
    by (subst scan_frames.simps) (simp add: wal_header_bytes_def)
  then show ?thesis
    using scan_frames_frame [of io_good 7 "[]" "[65]" 100 7 "[1, 2, 3]" 0] by (simp add: io_good_def wal_header_bytes_def)
qed

definition torn_disk :: wal_disk where
  "torn_disk = \<lparr>dk_names = [(4, 0), (7, 1)], dk_data = (\<lambda>i. if i = 0 then [9] else encode_wal_frame 7 [65] @ [1, 2, 3]), dk_synced = (\<lambda>_. 21), dk_fresh = 2,
     dk_cursor = Some ''acknowledged 2''\<rparr>"

lemma scan_no_frame: "scan_frames io_good 4 100 [9] 0 4 0 = (0, 4, 0)"
    by (subst scan_frames.simps) (simp add: wal_header_bytes_def)

lemma torn_cursor: "read_cursor torn_disk = 2"
  by (simp add: read_cursor_def torn_disk_def scan_cursor_def is_space_def is_digit_def digits_value_def)

lemma torn_open: "\<exists>w. wal_open io_good small_options torn_disk = Inr w \<and> next_seq w = 8 \<and> acknowledged_seq w = 2 \<and>
   segments w = [\<lparr>seg_first = 7, seg_last = 7, seg_bytes = 21\<rparr>] \<and>
    losses w = [mk_loss ''corrupt_segment'' 4 0 0 1, mk_loss ''gap'' 4 6 3 0, mk_loss ''torn_tail'' 8 0 0 3]"
proof -
  have loop: "\<exists>d'. recover_loop io_good small_options [4, 7] None [] [] torn_disk False =
     Inr ([\<lparr>seg_first = 7, seg_last = 7, seg_bytes = 21\<rparr>], [mk_loss ''corrupt_segment'' 4 0 0 1, mk_loss ''gap'' 4 6 3 0, mk_loss ''torn_tail'' 8 0 0 3], d', False)"
    by (simp add: torn_disk_def Let_def io_good_def small_options_def d_lookup_def scan_no_frame [unfolded io_good_def]
        scan_torn [unfolded io_good_def] wal_header_bytes_def unlink_if_def d_unlink_def d_sync_def d_truncate_def)
  then obtain d' where loop: "recover_loop io_good small_options (sort (map fst (dk_names torn_disk))) None [] [] torn_disk False =
     Inr ([\<lparr>seg_first = 7, seg_last = 7, seg_bytes = 21\<rparr>], [mk_loss ''corrupt_segment'' 4 0 0 1, mk_loss ''gap'' 4 6 3 0, mk_loss ''torn_tail'' 8 0 0 3], d', False)"
    by (auto simp: torn_disk_def)
  show ?thesis
    by (simp add: wal_open_def options_valid_def recover_def Let_def loop torn_cursor drop_acknowledged.simps wal_new_def)
      (simp add: small_options_def io_good_def wal_header_bytes_def)
qed


theorem wal_no_silent_loss_witness:
  "\<exists>w0. wal_open io_good small_options torn_disk = Inr w0 \<and>
     (case fold wal_step [Take_losses, Tamper empty_disk, Verify_storage] (w0, []) of (w, taken) \<Rightarrow>
        next_seq w = 8 \<and> segments w = [] \<and> losses w = [mk_loss ''removed'' 7 7 1 21] \<and>
        {3<..<8} \<subseteq> indexed w \<union> explained (taken @ losses w))"
proof -
  let ?ops = "[Take_losses, Tamper empty_disk, Verify_storage]"
  obtain w0 where w0: "wal_open io_good small_options torn_disk = Inr w0" "next_seq w0 = 8" "acknowledged_seq w0 = 2"
      "segments w0 = [\<lparr>seg_first = 7, seg_last = 7, seg_bytes = 21\<rparr>]"
    using torn_open by blast
  obtain w taken where run: "fold wal_step ?ops (w0, []) = (w, taken)" by fastforce
  have "next_seq w = 8 \<and> segments w = [] \<and> losses w = [mk_loss ''removed'' 7 7 1 21] \<and> acknowledged_seq w = 2"
    using run w0 by (auto simp: take_losses_def verify_storage_def drop_missing_segments_def segment_gone_def empty_disk_def
        d_lookup_def drop_gone_def report_lost_def erase_def Let_def split: if_splits)
  moreover have "sound_disk torn_disk" "before_first torn_disk = 3"
    by (simp_all add: sound_disk_def before_first_def torn_cursor) (simp_all add: torn_disk_def wal_header_bytes_def)
  ultimately show ?thesis
    using wal_no_silent_loss [OF w0(1) _ run] w0(1) run by simp
qed

end
