(* ===== verification/Wal_Quota.thy ===== *)
theory Wal_Quota
  imports Wal_Accounting
begin



























end
