(* ===== verification/Bpf_Events.thy ===== *)
theory Bpf_Events
  imports Prelude
begin

text \<open>
  The event layout shared by the eBPF programs and the loader
  (\<^verbatim>\<open>bpf/panopticon_events.h\<close>) and the part of \<^verbatim>\<open>bpf/panopticon.bpf.c\<close> every program uses:
  the per-CPU scratch event, the ring buffer with its drop counter, the wake-up decision, and the
  rate windows over the LRU maps. Kernel objects are records of the fields the programs read.
  What the kernel decides (time, the current task, whether the ring has room, which entries an
  LRU map evicts, what a user-memory read returns) is an argument.
\<close>

section \<open>Event layout\<close>

datatype pan_event_kind =
    PAN_EVENT_FORK | PAN_EVENT_EXEC | PAN_EVENT_EXIT | PAN_EVENT_RENAME | PAN_EVENT_CRED
  | PAN_EVENT_PTRACE | PAN_EVENT_NET_CONNECT | PAN_EVENT_NET_ACCEPT | PAN_EVENT_NET_LISTEN
  | PAN_EVENT_NET_UDP | PAN_EVENT_MEM_MAP | PAN_EVENT_MEM_PROTECT | PAN_EVENT_BPF
  | PAN_EVENT_NS_CHANGE | PAN_EVENT_DNS_QUERY | PAN_EVENT_SIGNAL | PAN_EVENT_RAW_SOCKET
  | PAN_EVENT_NET_CLOSE

fun pan_event_number :: "pan_event_kind \<Rightarrow> u32" where
  "pan_event_number PAN_EVENT_FORK = 1"
| "pan_event_number PAN_EVENT_EXEC = 2"
| "pan_event_number PAN_EVENT_EXIT = 3"
| "pan_event_number PAN_EVENT_RENAME = 4"
| "pan_event_number PAN_EVENT_CRED = 5"
| "pan_event_number PAN_EVENT_PTRACE = 6"
| "pan_event_number PAN_EVENT_NET_CONNECT = 7"
| "pan_event_number PAN_EVENT_NET_ACCEPT = 8"
| "pan_event_number PAN_EVENT_NET_LISTEN = 9"
| "pan_event_number PAN_EVENT_NET_UDP = 10"
| "pan_event_number PAN_EVENT_MEM_MAP = 11"
| "pan_event_number PAN_EVENT_MEM_PROTECT = 12"
| "pan_event_number PAN_EVENT_BPF = 13"
| "pan_event_number PAN_EVENT_NS_CHANGE = 14"
| "pan_event_number PAN_EVENT_DNS_QUERY = 15"
| "pan_event_number PAN_EVENT_SIGNAL = 16"
| "pan_event_number PAN_EVENT_RAW_SOCKET = 17"
| "pan_event_number PAN_EVENT_NET_CLOSE = 18"

definition PAN_FD_CLOSED :: u8 where "PAN_FD_CLOSED = 0"
definition PAN_FD_SOCKET :: u8 where "PAN_FD_SOCKET = 1"
definition PAN_FD_PIPE :: u8 where "PAN_FD_PIPE = 2"
definition PAN_FD_TTY :: u8 where "PAN_FD_TTY = 3"
definition PAN_FD_FILE :: u8 where "PAN_FD_FILE = 4"
definition PAN_FD_NULL :: u8 where "PAN_FD_NULL = 5"
definition PAN_FD_OTHER :: u8 where "PAN_FD_OTHER = 6"

definition PAN_MEM_ANON :: u8 where "PAN_MEM_ANON = 1"
definition PAN_MEM_MEMFD :: u8 where "PAN_MEM_MEMFD = 2"
definition PAN_MEM_FILE :: u8 where "PAN_MEM_FILE = 3"

definition PAN_COMM_LEN :: nat where "PAN_COMM_LEN = 16"
definition PAN_FILENAME_LEN :: nat where "PAN_FILENAME_LEN = 448"
definition PAN_INTERP_LEN :: nat where "PAN_INTERP_LEN = 192"
definition PAN_ARGS_LEN :: nat where "PAN_ARGS_LEN = 3072"
definition PAN_DNS_CAPTURE :: nat where "PAN_DNS_CAPTURE = 320"

definition PAN_FLAG_ARGS_TRUNC :: u32 where "PAN_FLAG_ARGS_TRUNC = 1"
definition PAN_FLAG_COMM_EXEC :: u32 where "PAN_FLAG_COMM_EXEC = 2"
definition PAN_FLAG_CRED_UID :: u32 where "PAN_FLAG_CRED_UID = 4"
definition PAN_FLAG_CRED_GID :: u32 where "PAN_FLAG_CRED_GID = 8"
definition PAN_FLAG_PTRACE_ATTACH :: u32 where "PAN_FLAG_PTRACE_ATTACH = 16"

text \<open>
  The fixed part of \<open>struct pan_event\<close>: everything before \<open>filename\<close>, which is what
  \<open>event_base\<close> zeroes and what \<open>submit\<close> sends.
\<close>

record pan_header =
  ev_kind :: u32
  ev_flags :: u32
  ev_time_boot_ns :: u64
  ev_start_boot_ns :: u64
  ev_pid :: u32
  ev_tid :: u32
  ev_ppid :: u32
  ev_child_pid :: u32
  ev_child_tid :: u32
  ev_exit_code :: u32
  ev_uid :: u32
  ev_euid :: u32
  ev_gid :: u32
  ev_egid :: u32
  ev_tracer_pid :: u32
  ev_ptrace_mode :: u32
  ev_args_count :: u32
  ev_args_len :: u32
  ev_net_family :: u8
  ev_net_proto :: u8
  ev_net_sport :: u16
  ev_net_dport :: u16
  ev_net_dir :: u8
  ev_net_state :: u8
  ev_net_saddr :: "byte list"
  ev_net_daddr :: "byte list"
  ev_mem_addr :: u64
  ev_mem_length :: u64
  ev_net_bytes_sent :: u64
  ev_net_bytes_received :: u64
  ev_net_duration_ns :: u64
  ev_bpf_cmd :: u32
  ev_bpf_type :: u32
  ev_mem_backing :: u8
  ev_mem_write :: u8
  ev_stdio :: "u8 list"
  ev_sig_result :: u8
  ev_sock_family :: u8
  ev_sock_type :: u8
  ev_sig_number :: u32
  ev_sig_code :: u32
  ev_sig_sender :: u32
  ev_obj_name :: "byte list"
  ev_ns_old :: "u32 list"
  ev_ns_new :: "u32 list"
  ev_dns_len :: u16
  ev_sock_protocol :: u16
  ev_comm :: "byte list"

definition zero_header :: pan_header where
  "zero_header = \<lparr>ev_kind = 0, ev_flags = 0, ev_time_boot_ns = 0, ev_start_boot_ns = 0, ev_pid = 0, ev_tid = 0,
     ev_ppid = 0, ev_child_pid = 0, ev_child_tid = 0, ev_exit_code = 0, ev_uid = 0, ev_euid = 0, ev_gid = 0,
     ev_egid = 0, ev_tracer_pid = 0, ev_ptrace_mode = 0, ev_args_count = 0, ev_args_len = 0, ev_net_family = 0,
     ev_net_proto = 0, ev_net_sport = 0, ev_net_dport = 0, ev_net_dir = 0, ev_net_state = 0,
     ev_net_saddr = replicate 16 0, ev_net_daddr = replicate 16 0, ev_mem_addr = 0, ev_mem_length = 0,
     ev_net_bytes_sent = 0, ev_net_bytes_received = 0, ev_net_duration_ns = 0, ev_bpf_cmd = 0, ev_bpf_type = 0,
     ev_mem_backing = 0, ev_mem_write = 0, ev_stdio = replicate 3 0, ev_sig_result = 0, ev_sock_family = 0,
     ev_sock_type = 0, ev_sig_number = 0, ev_sig_code = 0, ev_sig_sender = 0, ev_obj_name = replicate 16 0,
     ev_ns_old = replicate 6 0, ev_ns_new = replicate 6 0, ev_dns_len = 0, ev_sock_protocol = 0,
     ev_comm = replicate 16 0\<rparr>"

record pan_event =
  hdr :: pan_header
  filename :: "byte list"
  interp :: "byte list"
  args :: "byte list"

text \<open>A ring-buffer record: the header and the bytes of the trailing buffers that were sent.\<close>

record pan_output =
  out_hdr :: pan_header
  out_tail :: "byte list"
  out_wakes :: bool

section \<open>Maps and shared state\<close>

record pan_udp_key =
  uk_tgid :: u32
  uk_dport :: u16
  uk_family :: u8
  uk_daddr :: "byte list"

record pan_conn_val =
  cv_start_ns :: u64
  cv_dir :: u8

record pan_dns_key =
  dk_tgid :: u32
  dk_hash :: u32

record pan_mem_key =
  mk_tgid :: u32
  mk_kind :: u8
  mk_backing :: u8
  mk_write :: u8

record bpf_maps =
  scratch :: "pan_event option"
  drops :: "u64 option"
  wake_last :: "u64 option"
  udp_seen :: "pan_udp_key \<Rightarrow> u64 option"
  conn_seen :: "u64 \<Rightarrow> pan_conn_val option"
  dns_seen :: "pan_dns_key \<Rightarrow> u64 option"
  mem_seen :: "pan_mem_key \<Rightarrow> u64 option"
  ring :: "pan_output list"

text \<open>
  An update of an LRU hash map: the new entry is there afterwards, and the map may have evicted
  any other entries to make room for it.
\<close>

definition lru_update :: "('k \<Rightarrow> bool) \<Rightarrow> ('k \<Rightarrow> 'v option) \<Rightarrow> 'k \<Rightarrow> 'v \<Rightarrow> 'k \<Rightarrow> 'v option" where
  "lru_update evicted m k v = (\<lambda>k'. if k' = k then Some v else if evicted k' then None else m k')"

section \<open>Scratch, ring and drop counter\<close>

definition count_drop :: "bpf_maps \<Rightarrow> bpf_maps" where
  "count_drop s = s\<lparr>drops := map_option (\<lambda>n. n + 1) (drops s)\<rparr>"

definition event_base :: "pan_event_kind \<Rightarrow> u64 \<Rightarrow> bpf_maps \<Rightarrow> pan_event option" where
  "event_base kind now s =
     map_option (\<lambda>e. e\<lparr>hdr := zero_header\<lparr>ev_kind := pan_event_number kind, ev_time_boot_ns := now\<rparr>\<rparr>) (scratch s)"

definition PAN_WAKE_GAP_NS :: u64 where "PAN_WAKE_GAP_NS = 20000000"

text \<open>\<open>wake_flags\<close> returns whether the record wakes the reader (flag 0) or not (\<open>BPF_RB_NO_WAKEUP\<close>).\<close>

definition wake_flags :: "u64 \<Rightarrow> bpf_maps \<Rightarrow> bool \<times> bpf_maps" where
  "wake_flags now s =
     (case wake_last s of
        None \<Rightarrow> (True, s)
      | Some seen \<Rightarrow>
          if PAN_WAKE_GAP_NS \<le> now - seen then (True, s\<lparr>wake_last := Some now\<rparr>)
          else if 1000000 \<le> now - seen then (False, s\<lparr>wake_last := Some now\<rparr>)
          else (False, s))"

definition ringbuf_output :: "bool \<Rightarrow> pan_event \<Rightarrow> byte list \<Rightarrow> bpf_maps \<Rightarrow> bpf_maps" where
  "ringbuf_output ring_ok e tail s =
     (let (wakes, s1) = wake_flags (ev_time_boot_ns (hdr e)) s
      in if ring_ok then s1\<lparr>ring := ring s1 @ [\<lparr>out_hdr = hdr e, out_tail = tail, out_wakes = wakes\<rparr>], scratch := Some e\<rparr>
         else count_drop (s1\<lparr>scratch := Some e\<rparr>))"

definition submit :: "bool \<Rightarrow> pan_event \<Rightarrow> bpf_maps \<Rightarrow> bpf_maps" where
  "submit ring_ok e s = ringbuf_output ring_ok e [] s"

definition submit_exec :: "bool \<Rightarrow> pan_event \<Rightarrow> bpf_maps \<Rightarrow> bpf_maps" where
  "submit_exec ring_ok e s =
     (let used = unat (ev_args_len (hdr e) AND of_nat (PAN_ARGS_LEN - 1))
      in ringbuf_output ring_ok e (filename e @ interp e @ take used (args e)) s)"

text \<open>An event that a program filled but did not submit stays in the scratch buffer.\<close>

definition abandon :: "pan_event \<Rightarrow> bpf_maps \<Rightarrow> bpf_maps" where
  "abandon e s = s\<lparr>scratch := Some e\<rparr>"

section \<open>Kernel reads\<close>

text \<open>
  \<open>bpf_probe_read_kernel_str\<close> writes at most \<open>n\<close> bytes, NUL included, and leaves the rest of
  the destination as it was; a fault zeroes it. \<open>None\<close> stands for a fault.
\<close>

definition put_str :: "nat \<Rightarrow> byte list option \<Rightarrow> byte list \<Rightarrow> byte list" where
  "put_str n src dst =
     (case src of None \<Rightarrow> replicate n 0
      | Some str \<Rightarrow> (let w = take (n - 1) str @ [0] in w @ drop (length w) dst))"

text \<open>\<open>bpf_probe_read_user\<close>: \<open>n\<close> bytes at an address, or a fault (the destination is zeroed).\<close>

definition read_user :: "(u64 \<Rightarrow> nat \<Rightarrow> byte list option) \<Rightarrow> u64 \<Rightarrow> nat \<Rightarrow> bool \<times> byte list" where
  "read_user umem addr n =
     (case umem addr n of None \<Rightarrow> (False, replicate n 0) | Some bs \<Rightarrow> (True, take n (bs @ replicate n 0)))"

definition put_bytes :: "byte list \<Rightarrow> byte list \<Rightarrow> byte list" where
  "put_bytes bs dst = bs @ drop (length bs) dst"

definition le_bytes32 :: "u32 \<Rightarrow> byte list" where
  "le_bytes32 v = map (\<lambda>i. ucast (drop_bit (8 * i) v)) [0..<4]"

definition bpf_ntohs :: "u16 \<Rightarrow> u16" where
  "bpf_ntohs v = push_bit 8 v OR drop_bit 8 v"

lemma length_read_user [simp]: "length (snd (read_user umem addr n)) = n"
  by (auto simp: read_user_def split: option.split)

lemma length_put_str: "length dst = n \<Longrightarrow> 0 < n \<Longrightarrow> length (put_str n src dst) = n"
  by (auto simp: put_str_def Let_def split: option.split)

section \<open>Rate windows\<close>

text \<open>
  The check the UDP, DNS, memory and raw-socket programs make before they report: an entry
  younger than the window suppresses the event, otherwise the map remembers this report.
\<close>

definition window_gate ::
  "u64 \<Rightarrow> ('k \<Rightarrow> bool) \<Rightarrow> u64 \<Rightarrow> 'k \<Rightarrow> ('k \<Rightarrow> u64 option) \<Rightarrow> bool \<times> ('k \<Rightarrow> u64 option)" where
  "window_gate window evicted now k m =
     (case m k of
        Some reported \<Rightarrow> if now - reported < window then (False, m) else (True, lru_update evicted m k now)
      | None \<Rightarrow> (True, lru_update evicted m k now))"

end
