(* ===== verification/Bpf_Programs.thy ===== *)
theory Bpf_Programs
  imports Bpf_Events
begin

text \<open>
  The eBPF programs of \<^verbatim>\<open>bpf/panopticon.bpf.c\<close>, one definition per program or inlined
  helper, in the order of the source. A program takes what the kernel passes or returns to it and
  the shared maps, and returns the maps; an early \<open>return 0\<close> returns them unchanged.
\<close>

section \<open>Kernel objects\<close>

record kcred =
  kc_uid :: u32
  kc_euid :: u32
  kc_gid :: u32
  kc_egid :: u32

record kinode =
  ki_mode :: u16
  ki_rdev :: u32

record kfile =
  kf_inode :: "kinode option"
  kf_name :: "byte list option option"

record knsproxy =
  kn_addr :: u64
  kn_mnt :: u32
  kn_pid_for_children :: u32
  kn_net :: u32
  kn_uts :: u32
  kn_ipc :: u32
  kn_cgroup :: u32

record ktask =
  kt_tgid :: u32
  kt_pid :: u32
  kt_start_boottime :: u64
  kt_leader_start :: u64
  kt_ppid :: u32
  kt_comm :: "byte list option"
  kt_live :: "32 word"
  kt_exit_code :: u32
  kt_in_execve :: bool
  kt_cred :: kcred
  kt_fd_table :: "(nat \<Rightarrow> kfile option) option"
  kt_arg_start :: u64
  kt_arg_end :: u64
  kt_nsproxy :: "knsproxy option"

record kbinprm =
  kb_filename :: "byte list option"
  kb_interp :: "byte list option option"

record ksock =
  ks_addr :: u64
  ks_family :: u16
  ks_num :: u16
  ks_dport :: u16
  ks_rcv_saddr :: u32
  ks_daddr :: u32
  ks_v6_rcv_saddr :: "byte list"
  ks_v6_daddr :: "byte list"
  ks_state :: u8
  ks_bytes_acked :: u64
  ks_bytes_received :: u64

text \<open>What one invocation sees of the kernel: the current task, the clock at each of its readings, the ring.\<close>

record kenv =
  en_current :: ktask
  en_pid_tgid :: u64
  en_uid_gid :: u64
  en_event_time :: u64
  en_gate_time :: u64
  en_conn_time :: u64
  en_dns_event_time :: u64
  en_dns_gate_time :: u64
  en_ring_ok :: bool
  en_dns_ring_ok :: bool
  en_user :: "u64 \<Rightarrow> nat \<Rightarrow> byte list option"
  en_evict_udp :: "pan_udp_key \<Rightarrow> bool"
  en_evict_conn :: "u64 \<Rightarrow> bool"
  en_evict_dns :: "pan_dns_key \<Rightarrow> bool"
  en_evict_mem :: "pan_mem_key \<Rightarrow> bool"

definition set_hdr :: "(pan_header \<Rightarrow> pan_header) \<Rightarrow> pan_event \<Rightarrow> pan_event" where
  "set_hdr f e = e\<lparr>hdr := f (hdr e)\<rparr>"

definition set_comm :: "byte list option \<Rightarrow> pan_header \<Rightarrow> pan_header" where
  "set_comm src h = h\<lparr>ev_comm := put_str PAN_COMM_LEN src (ev_comm h)\<rparr>"

section \<open>Process programs\<close>

definition classify_fd :: "(nat \<Rightarrow> kfile option) \<Rightarrow> nat \<Rightarrow> u8" where
  "classify_fd table index =
     (case table index of
        None \<Rightarrow> PAN_FD_CLOSED
      | Some file \<Rightarrow>
          (case kf_inode file of
             None \<Rightarrow> PAN_FD_OTHER
           | Some inode \<Rightarrow>
               let format = ki_mode inode AND 0xF000
               in if format = 0xC000 then PAN_FD_SOCKET
                  else if format = 0x1000 then PAN_FD_PIPE
                  else if format = 0x8000 then PAN_FD_FILE
                  else if format = 0x2000 then
                    let rdev = ki_rdev inode; major = drop_bit 20 rdev
                    in if rdev = (push_bit 20 1 OR 3) then PAN_FD_NULL
                       else if major = 4 \<or> major = 5 \<or> (136 \<le> major \<and> major \<le> 143) then PAN_FD_TTY
                       else PAN_FD_OTHER
                  else PAN_FD_OTHER))"

definition on_fork :: "kenv \<Rightarrow> ktask \<Rightarrow> ktask \<Rightarrow> bpf_maps \<Rightarrow> bpf_maps" where
  "on_fork env parent child s =
     (case event_base PAN_EVENT_FORK (en_event_time env) s of
        None \<Rightarrow> s
      | Some e \<Rightarrow>
          submit (en_ring_ok env)
            (set_hdr (\<lambda>h. set_comm (kt_comm child) (h\<lparr>ev_pid := kt_tgid parent, ev_tid := kt_pid parent,
               ev_child_pid := kt_tgid child, ev_child_tid := kt_pid child, ev_ppid := kt_tgid parent,
               ev_start_boot_ns := kt_start_boottime child\<rparr>)) e) s)"

text \<open>The length of argv that is captured, and the flags, as \<open>on_exec\<close> computes them.\<close>

definition exec_args_span :: "u64 \<Rightarrow> u64 \<Rightarrow> u64 \<times> bool" where
  "exec_args_span arg_start arg_end =
     (let len = (if arg_start < arg_end then arg_end - arg_start else 0);
          (len1, truncated) = (if of_nat PAN_ARGS_LEN \<le> len then (of_nat (PAN_ARGS_LEN - 1), True) else (len, False))
      in (len1 AND of_nat (PAN_ARGS_LEN - 1), truncated))"

text \<open>What \<open>on_exec\<close> writes into the event between \<open>event_base\<close> and \<open>submit_exec\<close>.\<close>

definition exec_fill :: "(u64 \<Rightarrow> nat \<Rightarrow> byte list option) \<Rightarrow> ktask \<Rightarrow> kbinprm \<Rightarrow> pan_event \<Rightarrow> pan_event" where
  "exec_fill umem p bprm e =
     (let (len, truncated) = exec_args_span (kt_arg_start p) (kt_arg_end p);
          e1 = e\<lparr>filename := put_str PAN_FILENAME_LEN (kb_filename bprm) (filename e),
                 interp := (let cleared = (interp e)[0 := 0]
                            in case kb_interp bprm of None \<Rightarrow> cleared | Some src \<Rightarrow> put_str PAN_INTERP_LEN src cleared),
                 args := (if 0 < len
                          then put_bytes (snd (read_user umem (kt_arg_start p) (unat len))) (args e)
                          else args e)\<rparr>
      in set_hdr (\<lambda>h. set_comm (kt_comm p) (h\<lparr>ev_pid := kt_tgid p, ev_tid := kt_pid p,
           ev_flags := (ev_flags h OR (if kt_tgid p \<noteq> kt_pid p then PAN_FLAG_COMM_EXEC else 0))
                       OR (if truncated then PAN_FLAG_ARGS_TRUNC else 0),
           ev_ppid := kt_ppid p, ev_start_boot_ns := kt_leader_start p,
           ev_stdio := (case kt_fd_table p of None \<Rightarrow> ev_stdio h
                        | Some table \<Rightarrow> [classify_fd table 0, classify_fd table 1, classify_fd table 2]),
           ev_args_len := ucast len\<rparr>)) e1)"

definition on_exec :: "kenv \<Rightarrow> ktask \<Rightarrow> kbinprm \<Rightarrow> bpf_maps \<Rightarrow> bpf_maps" where
  "on_exec env p bprm s =
     (case event_base PAN_EVENT_EXEC (en_event_time env) s of
        None \<Rightarrow> s
      | Some e \<Rightarrow> submit_exec (en_ring_ok env) (exec_fill (en_user env) p bprm e) s)"

definition on_exit :: "kenv \<Rightarrow> ktask \<Rightarrow> bpf_maps \<Rightarrow> bpf_maps" where
  "on_exit env p s =
     (if kt_live p \<noteq> 0 then s
      else case event_base PAN_EVENT_EXIT (en_event_time env) s of
             None \<Rightarrow> s
           | Some e \<Rightarrow>
               submit (en_ring_ok env)
                 (set_hdr (\<lambda>h. set_comm (kt_comm p) (h\<lparr>ev_pid := kt_tgid p, ev_tid := kt_pid p, ev_ppid := kt_ppid p,
                    ev_start_boot_ns := kt_leader_start p, ev_exit_code := kt_exit_code p\<rparr>)) e) s)"

definition on_rename :: "kenv \<Rightarrow> ktask \<Rightarrow> byte list option \<Rightarrow> bpf_maps \<Rightarrow> bpf_maps" where
  "on_rename env task new_comm s =
     (if kt_tgid task \<noteq> kt_pid task then s
      else if kt_in_execve task then s
      else case event_base PAN_EVENT_RENAME (en_event_time env) s of
             None \<Rightarrow> s
           | Some e \<Rightarrow>
               submit (en_ring_ok env)
                 (set_hdr (\<lambda>h. set_comm new_comm (h\<lparr>ev_pid := kt_tgid task, ev_tid := kt_pid task\<rparr>)) e) s)"

definition cred_flags :: "kcred \<Rightarrow> kcred \<Rightarrow> u32" where
  "cred_flags new_cred old_cred =
     (if kc_uid new_cred \<noteq> kc_uid old_cred \<or> kc_euid new_cred \<noteq> kc_euid old_cred then PAN_FLAG_CRED_UID else 0) OR
     (if kc_gid new_cred \<noteq> kc_gid old_cred \<or> kc_egid new_cred \<noteq> kc_egid old_cred then PAN_FLAG_CRED_GID else 0)"

definition on_commit_creds :: "kenv \<Rightarrow> kcred \<Rightarrow> bpf_maps \<Rightarrow> bpf_maps" where
  "on_commit_creds env new_cred s =
     (let t = en_current env; flags = cred_flags new_cred (kt_cred t)
      in if kt_tgid t \<noteq> kt_pid t then s
         else if flags = 0 then s
         else case event_base PAN_EVENT_CRED (en_event_time env) s of
                None \<Rightarrow> s
              | Some e \<Rightarrow>
                  submit (en_ring_ok env)
                    (set_hdr (\<lambda>h. set_comm (kt_comm t) (h\<lparr>ev_flags := flags, ev_pid := kt_tgid t, ev_tid := kt_pid t,
                       ev_ppid := kt_ppid t, ev_start_boot_ns := kt_leader_start t, ev_uid := kc_uid new_cred,
                       ev_euid := kc_euid new_cred, ev_gid := kc_gid new_cred, ev_egid := kc_egid new_cred\<rparr>)) e) s)"

definition PAN_PTRACE_MODE_ATTACH :: u32 where "PAN_PTRACE_MODE_ATTACH = 0x02"

definition on_ptrace :: "kenv \<Rightarrow> ktask \<Rightarrow> u32 \<Rightarrow> bpf_maps \<Rightarrow> bpf_maps" where
  "on_ptrace env child mode s =
     (if mode AND PAN_PTRACE_MODE_ATTACH = 0 then s
      else if kt_tgid (en_current env) = kt_tgid child then s
      else case event_base PAN_EVENT_PTRACE (en_event_time env) s of
             None \<Rightarrow> s
           | Some e \<Rightarrow>
               submit (en_ring_ok env)
                 (set_hdr (\<lambda>h. set_comm (kt_comm child) (h\<lparr>ev_flags := ev_flags h OR PAN_FLAG_PTRACE_ATTACH,
                    ev_pid := kt_tgid child, ev_tid := kt_pid child, ev_start_boot_ns := kt_leader_start child,
                    ev_tracer_pid := kt_tgid (en_current env), ev_ptrace_mode := mode\<rparr>)) e) s)"

text \<open>\<open>info\<close> is a pointer whose values 0 and 1 are the kernel's special senders; the code is signed.\<close>

definition on_signal :: "kenv \<Rightarrow> u32 \<Rightarrow> u64 \<Rightarrow> u32 \<Rightarrow> ktask \<Rightarrow> u32 \<Rightarrow> bpf_maps \<Rightarrow> bpf_maps" where
  "on_signal env sig info si_code task result s =
     (if sig \<notin> {3, 6, 9, 11, 15, 19} then s
      else if info \<le> 1 then s
      else if 0 < sint si_code then s
      else if kt_tgid (en_current env) = kt_tgid task then s
      else case event_base PAN_EVENT_SIGNAL (en_event_time env) s of
             None \<Rightarrow> s
           | Some e \<Rightarrow>
               submit (en_ring_ok env)
                 (set_hdr (\<lambda>h. set_comm (kt_comm task) (h\<lparr>ev_pid := kt_tgid task, ev_tid := kt_pid task,
                    ev_start_boot_ns := kt_leader_start task, ev_sig_number := sig, ev_sig_code := si_code,
                    ev_sig_sender := kt_tgid (en_current env), ev_sig_result := ucast result\<rparr>)) e) s)"

section \<open>Network programs\<close>

definition PAN_AF_INET :: u16 where "PAN_AF_INET = 2"
definition PAN_AF_INET6 :: u16 where "PAN_AF_INET6 = 10"
definition PAN_UDP_FLOW_WINDOW_NS :: u64 where "PAN_UDP_FLOW_WINDOW_NS = 60 * 1000000000"

definition conn_track :: "kenv \<Rightarrow> ksock \<Rightarrow> u8 \<Rightarrow> bpf_maps \<Rightarrow> bpf_maps" where
  "conn_track env sk dir s =
     s\<lparr>conn_seen := lru_update (en_evict_conn env) (conn_seen s) (ks_addr sk)
         \<lparr>cv_start_ns = en_conn_time env, cv_dir = dir\<rparr>\<rparr>"

definition net_actor :: "kenv \<Rightarrow> pan_header \<Rightarrow> pan_header" where
  "net_actor env h =
     (let t = en_current env
      in set_comm (kt_comm t) (h\<lparr>ev_pid := kt_tgid t, ev_tid := kt_pid t, ev_ppid := kt_ppid t,
           ev_start_boot_ns := kt_leader_start t, ev_uid := ucast (en_uid_gid env)\<rparr>))"

definition net_fill_sock :: "ksock \<Rightarrow> u8 \<Rightarrow> pan_header \<Rightarrow> pan_header option" where
  "net_fill_sock sk proto h =
     (let family = ks_family sk
      in if family \<noteq> PAN_AF_INET \<and> family \<noteq> PAN_AF_INET6 then None
         else
           let h1 = h\<lparr>ev_net_family := ucast family, ev_net_proto := proto, ev_net_sport := ks_num sk,
                      ev_net_dport := bpf_ntohs (ks_dport sk)\<rparr>
           in Some (if family = PAN_AF_INET
                    then h1\<lparr>ev_net_saddr := put_bytes (le_bytes32 (ks_rcv_saddr sk)) (ev_net_saddr h1),
                            ev_net_daddr := put_bytes (le_bytes32 (ks_daddr sk)) (ev_net_daddr h1)\<rparr>
                    else h1\<lparr>ev_net_saddr := put_bytes (ks_v6_rcv_saddr sk) (ev_net_saddr h1),
                            ev_net_daddr := put_bytes (ks_v6_daddr sk) (ev_net_daddr h1)\<rparr>))"

definition on_tcp_connect :: "kenv \<Rightarrow> ksock \<Rightarrow> bpf_maps \<Rightarrow> bpf_maps" where
  "on_tcp_connect env sk s =
     (case event_base PAN_EVENT_NET_CONNECT (en_event_time env) s of
        None \<Rightarrow> s
      | Some e \<Rightarrow>
          (case net_fill_sock sk 6 (hdr e) of
             None \<Rightarrow> abandon e s
           | Some h \<Rightarrow>
               submit (en_ring_ok env) (set_hdr (\<lambda>_. net_actor env h) e) (conn_track env sk 1 s)))"

definition on_tcp_accept :: "kenv \<Rightarrow> ksock option \<Rightarrow> bpf_maps \<Rightarrow> bpf_maps" where
  "on_tcp_accept env ret s =
     (case ret of
        None \<Rightarrow> s
      | Some sk \<Rightarrow>
          (case event_base PAN_EVENT_NET_ACCEPT (en_event_time env) s of
             None \<Rightarrow> s
           | Some e \<Rightarrow>
               (case net_fill_sock sk 6 (hdr e) of
                  None \<Rightarrow> abandon e s
                | Some h \<Rightarrow>
                    submit (en_ring_ok env) (set_hdr (\<lambda>_. net_actor env h) e) (conn_track env sk 2 s))))"

text \<open>The payload byte counts of a closing socket: the SYN and the FINs are taken out.\<close>

definition close_counters :: "u8 \<Rightarrow> u8 \<Rightarrow> u64 \<Rightarrow> u64 \<Rightarrow> u64 \<times> u64" where
  "close_counters state dir bytes_acked bytes_received =
     (let sent1 = (if dir = 1 \<and> bytes_acked \<noteq> 0 then bytes_acked - 1 else bytes_acked);
          sent2 = (if state = 5 \<and> sent1 \<noteq> 0 then sent1 - 1 else sent1);
          received = (if (state = 8 \<or> state = 9 \<or> state = 11) \<and> bytes_received \<noteq> 0
                      then bytes_received - 1 else bytes_received)
      in (sent2, received))"

definition on_tcp_close :: "kenv \<Rightarrow> ksock \<Rightarrow> bpf_maps \<Rightarrow> bpf_maps" where
  "on_tcp_close env sk s =
     (let state = ks_state sk
      in if state = 10 then s
         else
           let seen = conn_seen s (ks_addr sk);
               start = (case seen of None \<Rightarrow> 0 | Some v \<Rightarrow> cv_start_ns v);
               dir = (case seen of None \<Rightarrow> 0 | Some v \<Rightarrow> cv_dir v);
               s1 = (case seen of None \<Rightarrow> s | Some _ \<Rightarrow> s\<lparr>conn_seen := (conn_seen s)(ks_addr sk := None)\<rparr>)
           in if seen = None \<and> (state = 7 \<or> ks_dport sk = 0) then s
              else case event_base PAN_EVENT_NET_CLOSE (en_event_time env) s1 of
                     None \<Rightarrow> s1
                   | Some e \<Rightarrow>
                       (case net_fill_sock sk 6 (hdr e) of
                          None \<Rightarrow> abandon e s1
                        | Some h \<Rightarrow>
                            let (sent, received) = close_counters state dir (ks_bytes_acked sk) (ks_bytes_received sk);
                                h1 = h\<lparr>ev_net_bytes_sent := sent, ev_net_bytes_received := received,
                                       ev_net_state := state, ev_net_dir := dir,
                                       ev_net_duration_ns := (if start \<noteq> 0 then ev_time_boot_ns h - start
                                                              else ev_net_duration_ns h)\<rparr>
                            in submit (en_ring_ok env) (set_hdr (\<lambda>_. net_actor env h1) e) s1))"

definition on_tcp_listen :: "kenv \<Rightarrow> ksock option \<Rightarrow> u32 \<Rightarrow> bpf_maps \<Rightarrow> bpf_maps" where
  "on_tcp_listen env sock ret s =
     (if ret \<noteq> 0 then s
      else case sock of
             None \<Rightarrow> s
           | Some sk \<Rightarrow>
               (case event_base PAN_EVENT_NET_LISTEN (en_event_time env) s of
                  None \<Rightarrow> s
                | Some e \<Rightarrow>
                    (case net_fill_sock sk 6 (hdr e) of
                       None \<Rightarrow> abandon e s
                     | Some h \<Rightarrow> submit (en_ring_ok env) (set_hdr (\<lambda>_. net_actor env (h\<lparr>ev_net_dport := 0\<rparr>)) e) s)))"

section \<open>DNS queries and UDP flows\<close>

definition PAN_DNS_PORT :: u16 where "PAN_DNS_PORT = 53"
definition PAN_DNS_MIN :: u64 where "PAN_DNS_MIN = 17"
definition PAN_DNS_HASHED :: nat where "PAN_DNS_HASHED = 96"
definition PAN_DNS_WINDOW_NS :: u64 where "PAN_DNS_WINDOW_NS = 5 * 1000000000"

record ksockaddr =
  ka_family :: u16
  ka_port :: u16
  ka_addr4 :: "byte list"
  ka_addr6 :: "byte list"

text \<open>
  \<open>km_ubuf\<close> is \<open>None\<close> where the running kernel has no such field, \<open>km_vec\<close> the first
  I/O vector (base and length) when there is one that can be read.
\<close>

record kmsg =
  km_name :: "ksockaddr option"
  km_is_iovec :: bool
  km_ubuf :: "u64 option"
  km_vec :: "(u64 \<times> u64) option"

definition msg_user_buffer :: "kmsg \<Rightarrow> u64 \<Rightarrow> u64 \<times> u64" where
  "msg_user_buffer msg len =
     (if \<not> km_is_iovec msg then (case km_ubuf msg of None \<Rightarrow> (0, 0) | Some base \<Rightarrow> (base, len))
      else case km_vec msg of
             None \<Rightarrow> (0, 0)
           | Some (base, iov_len) \<Rightarrow> (base, if iov_len < len then iov_len else len))"

definition dns_hash :: "nat \<Rightarrow> byte list \<Rightarrow> u32" where
  "dns_hash avail bytes =
     fold (\<lambda>i hash. (hash XOR ucast (bytes ! i)) * 16777619) [2..<min PAN_DNS_HASHED avail]
       (2166136261 XOR of_nat avail)"

definition local_addr :: "ksock \<Rightarrow> u16 \<Rightarrow> byte list \<Rightarrow> byte list" where
  "local_addr sk family old =
     (if family = PAN_AF_INET then put_bytes (le_bytes32 (ks_rcv_saddr sk)) old
      else put_bytes (ks_v6_rcv_saddr sk) old)"

definition dns_query ::
  "kenv \<Rightarrow> ksock \<Rightarrow> kmsg \<Rightarrow> u64 \<Rightarrow> u16 \<Rightarrow> byte list \<Rightarrow> u16 \<Rightarrow> bpf_maps \<Rightarrow> bpf_maps" where
  "dns_query env sk msg len family daddr dport s =
     (let (base, limit) = msg_user_buffer msg len
      in if base = 0 \<or> limit < PAN_DNS_MIN then s
         else case event_base PAN_EVENT_DNS_QUERY (en_dns_event_time env) s of
                None \<Rightarrow> s
              | Some e \<Rightarrow>
                  let avail = (if PAN_DNS_CAPTURE < unat limit then PAN_DNS_CAPTURE else unat limit);
                      (ok, bytes) = read_user (en_user env) base avail;
                      e1 = e\<lparr>filename := put_bytes bytes (filename e)\<rparr>
                  in if \<not> ok then abandon e1 s
                     else
                       let key = \<lparr>dk_tgid = ucast (drop_bit 32 (en_pid_tgid env)), dk_hash = dns_hash avail (filename e1)\<rparr>;
                           (report, seen) = window_gate PAN_DNS_WINDOW_NS (en_evict_dns env) (en_dns_gate_time env) key (dns_seen s)
                       in if \<not> report then abandon e1 s
                          else
                            let e2 = set_hdr (\<lambda>h. net_actor env (h\<lparr>ev_net_family := ucast family, ev_net_proto := 17,
                                   ev_net_sport := ks_num sk, ev_net_dport := dport, ev_net_daddr := daddr,
                                   ev_net_saddr := local_addr sk family (ev_net_saddr h), ev_dns_len := of_nat avail\<rparr>)) e1
                            in ringbuf_output (en_dns_ring_ok env) e2 (take avail (filename e2)) (s\<lparr>dns_seen := seen\<rparr>))"

text \<open>Family, port and address of the datagram's destination; family 0 where neither protocol applies.\<close>

definition udp_destination :: "ksock \<Rightarrow> kmsg \<Rightarrow> u16 \<times> u16 \<times> byte list" where
  "udp_destination sk msg =
     (case km_name msg of
        Some name \<Rightarrow>
          if ka_family name = PAN_AF_INET
          then (PAN_AF_INET, bpf_ntohs (ka_port name), put_bytes (ka_addr4 name) (replicate 16 0))
          else if ka_family name = PAN_AF_INET6
          then (PAN_AF_INET6, bpf_ntohs (ka_port name), put_bytes (ka_addr6 name) (replicate 16 0))
          else (0, 0, replicate 16 0)
      | None \<Rightarrow>
          if ks_family sk = PAN_AF_INET
          then (PAN_AF_INET, bpf_ntohs (ks_dport sk), put_bytes (le_bytes32 (ks_daddr sk)) (replicate 16 0))
          else if ks_family sk = PAN_AF_INET6
          then (PAN_AF_INET6, bpf_ntohs (ks_dport sk), put_bytes (ks_v6_daddr sk) (replicate 16 0))
          else (0, bpf_ntohs (ks_dport sk), replicate 16 0))"

definition udp_flow :: "kenv \<Rightarrow> ksock \<Rightarrow> kmsg \<Rightarrow> u64 \<Rightarrow> bpf_maps \<Rightarrow> bpf_maps" where
  "udp_flow env sk msg len s =
     (let (family, dport, daddr) = udp_destination sk msg
      in if family = 0 \<or> dport = 0 then s
         else
           let s1 = (if dport = PAN_DNS_PORT then dns_query env sk msg len family daddr dport s else s);
               key = \<lparr>uk_tgid = ucast (drop_bit 32 (en_pid_tgid env)), uk_dport = dport, uk_family = ucast family, uk_daddr = daddr\<rparr>;
               (report, seen) = window_gate PAN_UDP_FLOW_WINDOW_NS (en_evict_udp env) (en_gate_time env) key (udp_seen s1)
           in if \<not> report then s1
              else
                let s2 = s1\<lparr>udp_seen := seen\<rparr>
                in case event_base PAN_EVENT_NET_UDP (en_event_time env) s2 of
                     None \<Rightarrow> s2
                   | Some e \<Rightarrow>
                       submit (en_ring_ok env)
                         (set_hdr (\<lambda>h. net_actor env (h\<lparr>ev_net_family := ucast family, ev_net_proto := 17,
                            ev_net_sport := ks_num sk, ev_net_dport := dport, ev_net_daddr := daddr,
                            ev_net_saddr := local_addr sk family (ev_net_saddr h)\<rparr>)) e) s2)"

definition on_udp_send :: "kenv \<Rightarrow> ksock \<Rightarrow> kmsg \<Rightarrow> u64 \<Rightarrow> bpf_maps \<Rightarrow> bpf_maps" where
  "on_udp_send env sk msg len s = udp_flow env sk msg len s"

definition on_udp6_send :: "kenv \<Rightarrow> ksock \<Rightarrow> kmsg \<Rightarrow> u64 \<Rightarrow> bpf_maps \<Rightarrow> bpf_maps" where
  "on_udp6_send env sk msg len s = udp_flow env sk msg len s"

section \<open>Memory, bpf(2), raw sockets, namespaces\<close>

definition PAN_PROT_WRITE :: u64 where "PAN_PROT_WRITE = 2"
definition PAN_PROT_EXEC :: u64 where "PAN_PROT_EXEC = 4"
definition PAN_VM_EXEC :: u64 where "PAN_VM_EXEC = 4"
definition PAN_MEM_WINDOW_NS :: u64 where "PAN_MEM_WINDOW_NS = 5000000000"

text \<open>The prefix \<open>memfd:\<close> of the dentry name, read into an eight-byte buffer.\<close>

definition file_backing :: "kfile option \<Rightarrow> u8" where
  "file_backing file =
     (case file of
        None \<Rightarrow> PAN_MEM_ANON
      | Some f \<Rightarrow>
          let prefix = (case kf_name f of None \<Rightarrow> replicate 8 0 | Some src \<Rightarrow> put_str 8 src (replicate 8 0))
          in if take 6 prefix = map of_char ''memfd:'' then PAN_MEM_MEMFD else PAN_MEM_FILE)"

definition mem_event :: "kenv \<Rightarrow> pan_event_kind \<Rightarrow> u8 \<Rightarrow> u64 \<Rightarrow> u64 \<Rightarrow> u64 \<Rightarrow> bpf_maps \<Rightarrow> bpf_maps" where
  "mem_event env kind backing prot start len s =
     (let write = (if prot AND PAN_PROT_WRITE \<noteq> 0 then 1 else 0);
          key = \<lparr>mk_tgid = ucast (drop_bit 32 (en_pid_tgid env)), mk_kind = ucast (pan_event_number kind),
                 mk_backing = backing, mk_write = write\<rparr>;
          (report, seen) = window_gate PAN_MEM_WINDOW_NS (en_evict_mem env) (en_gate_time env) key (mem_seen s)
      in if \<not> report then s
         else
           let s1 = s\<lparr>mem_seen := seen\<rparr>
           in case event_base kind (en_event_time env) s1 of
                None \<Rightarrow> s1
              | Some e \<Rightarrow>
                  submit (en_ring_ok env)
                    (set_hdr (\<lambda>h. net_actor env (h\<lparr>ev_mem_backing := backing, ev_mem_write := write,
                       ev_mem_addr := start, ev_mem_length := len\<rparr>)) e) s1)"

definition on_mmap_exec :: "kenv \<Rightarrow> kfile option \<Rightarrow> u64 \<Rightarrow> bpf_maps \<Rightarrow> bpf_maps" where
  "on_mmap_exec env file prot s =
     (if prot AND PAN_PROT_EXEC = 0 then s
      else let backing = file_backing file
           in if backing = PAN_MEM_FILE then s else mem_event env PAN_EVENT_MEM_MAP backing prot 0 0 s)"

record kvma =
  kv_flags :: u64
  kv_file :: "kfile option"
  kv_start :: u64
  kv_end :: u64

definition on_mprotect_exec :: "kenv \<Rightarrow> kvma \<Rightarrow> u64 \<Rightarrow> bpf_maps \<Rightarrow> bpf_maps" where
  "on_mprotect_exec env vma prot s =
     (if prot AND PAN_PROT_EXEC = 0 then s
      else if kv_flags vma AND PAN_VM_EXEC \<noteq> 0 then s
      else let backing = file_backing (kv_file vma)
           in if backing = PAN_MEM_FILE \<and> prot AND PAN_PROT_WRITE = 0 then s
              else mem_event env PAN_EVENT_MEM_PROTECT backing prot (kv_start vma)
                     (if kv_start vma < kv_end vma then kv_end vma - kv_start vma else 0) s)"

record kbpf_attr =
  kb_prog_type :: u32
  kb_prog_name :: "byte list option"
  kb_attach_type :: u32
  kb_link_attach_type :: u32
  kb_tracepoint :: "byte list option option"

definition on_bpf_syscall :: "kenv \<Rightarrow> u32 \<Rightarrow> kbpf_attr \<Rightarrow> bpf_maps \<Rightarrow> bpf_maps" where
  "on_bpf_syscall env cmd attr s =
     (if cmd \<noteq> 5 \<and> cmd \<noteq> 8 \<and> cmd \<noteq> 17 \<and> cmd \<noteq> 28 then s
      else case event_base PAN_EVENT_BPF (en_event_time env) s of
             None \<Rightarrow> s
           | Some e \<Rightarrow>
               submit (en_ring_ok env)
                 (set_hdr (\<lambda>h0. net_actor env
                    (let h = h0\<lparr>ev_bpf_cmd := cmd\<rparr>
                     in if cmd = 5 then h\<lparr>ev_bpf_type := kb_prog_type attr,
                                          ev_obj_name := put_str PAN_COMM_LEN (kb_prog_name attr) (ev_obj_name h)\<rparr>
                        else if cmd = 8 then h\<lparr>ev_bpf_type := kb_attach_type attr\<rparr>
                        else if cmd = 28 then h\<lparr>ev_bpf_type := kb_link_attach_type attr\<rparr>
                        else case kb_tracepoint attr of
                               None \<Rightarrow> h
                             | Some src \<Rightarrow> h\<lparr>ev_obj_name := put_str PAN_COMM_LEN src (ev_obj_name h)\<rparr>)) e) s)"

definition on_socket_create :: "kenv \<Rightarrow> u32 \<Rightarrow> u32 \<Rightarrow> u32 \<Rightarrow> u32 \<Rightarrow> bpf_maps \<Rightarrow> bpf_maps" where
  "on_socket_create env family type protocol kern s =
     (if kern \<noteq> 0 then s
      else
        let base = type AND 0xf
        in if family \<noteq> 17 \<and> \<not> ((family = 2 \<or> family = 10) \<and> base = 3) then s
           else
             let key = \<lparr>mk_tgid = ucast (drop_bit 32 (en_pid_tgid env)),
                        mk_kind = ucast (pan_event_number PAN_EVENT_RAW_SOCKET),
                        mk_backing = ucast family, mk_write = ucast base\<rparr>;
                 (report, seen) = window_gate PAN_MEM_WINDOW_NS (en_evict_mem env) (en_gate_time env) key (mem_seen s)
             in if \<not> report then s
                else
                  let s1 = s\<lparr>mem_seen := seen\<rparr>
                  in case event_base PAN_EVENT_RAW_SOCKET (en_event_time env) s1 of
                       None \<Rightarrow> s1
                     | Some e \<Rightarrow>
                         submit (en_ring_ok env)
                           (set_hdr (\<lambda>h. net_actor env (h\<lparr>ev_sock_family := ucast family, ev_sock_type := ucast base,
                              ev_sock_protocol := ucast protocol\<rparr>)) e) s1)"

definition ns_inums :: "knsproxy \<Rightarrow> u32 list" where
  "ns_inums proxy = [kn_mnt proxy, kn_pid_for_children proxy, kn_net proxy, kn_uts proxy, kn_ipc proxy, kn_cgroup proxy]"

definition on_ns_switch :: "kenv \<Rightarrow> ktask \<Rightarrow> knsproxy option \<Rightarrow> bpf_maps \<Rightarrow> bpf_maps" where
  "on_ns_switch env tsk new_proxy s =
     (case new_proxy of
        None \<Rightarrow> s
      | Some new \<Rightarrow>
          (case kt_nsproxy tsk of
             None \<Rightarrow> s
           | Some old \<Rightarrow>
               if kn_addr old = kn_addr new then s
               else case event_base PAN_EVENT_NS_CHANGE (en_event_time env) s of
                      None \<Rightarrow> s
                    | Some e \<Rightarrow>
                        let e1 = set_hdr (\<lambda>h. h\<lparr>ev_ns_old := ns_inums old, ev_ns_new := ns_inums new\<rparr>) e
                        in if ns_inums old = ns_inums new then abandon e1 s
                           else submit (en_ring_ok env) (set_hdr (net_actor env) e1) s))"

end
