(* ===== verification/Bpf_Properties.thy ===== *)
theory Bpf_Properties
  imports Bpf_Programs "HOL-Library.Sublist"
begin

text \<open>
  What the eBPF programs guarantee: every event that is not sent is counted, no record carries
  bytes of an earlier event in its fixed part, a rate window hides an event only behind a recent
  report, a record after silence wakes the reader; and the exact length of the argv capture,
  which the mask of \<open>on_exec\<close> gets wrong between 1024 and 2047 bytes.
\<close>

section \<open>Invocations\<close>

datatype bpf_call =
    Fork kenv ktask ktask
  | Exec kenv ktask kbinprm
  | Exit kenv ktask
  | Rename kenv ktask "byte list option"
  | Commit_creds kenv kcred
  | Ptrace kenv ktask u32
  | Signal kenv u32 u64 u32 ktask u32
  | Tcp_connect kenv ksock
  | Tcp_accept kenv "ksock option"
  | Tcp_close kenv ksock
  | Tcp_listen kenv "ksock option" u32
  | Udp_send kenv ksock kmsg u64
  | Udp6_send kenv ksock kmsg u64
  | Mmap_exec kenv "kfile option" u64
  | Mprotect_exec kenv kvma u64
  | Bpf_syscall kenv u32 kbpf_attr
  | Socket_create kenv u32 u32 u32 u32
  | Ns_switch kenv ktask "knsproxy option"

fun bpf_run :: "bpf_call \<Rightarrow> bpf_maps \<Rightarrow> bpf_maps" where
  "bpf_run (Fork env parent child) s = on_fork env parent child s"
| "bpf_run (Exec env p bprm) s = on_exec env p bprm s"
| "bpf_run (Exit env p) s = on_exit env p s"
| "bpf_run (Rename env task new_comm) s = on_rename env task new_comm s"
| "bpf_run (Commit_creds env new_cred) s = on_commit_creds env new_cred s"
| "bpf_run (Ptrace env child mode) s = on_ptrace env child mode s"
| "bpf_run (Signal env sig info si_code task result) s = on_signal env sig info si_code task result s"
| "bpf_run (Tcp_connect env sk) s = on_tcp_connect env sk s"
| "bpf_run (Tcp_accept env ret) s = on_tcp_accept env ret s"
| "bpf_run (Tcp_close env sk) s = on_tcp_close env sk s"
| "bpf_run (Tcp_listen env sock ret) s = on_tcp_listen env sock ret s"
| "bpf_run (Udp_send env sk msg len) s = on_udp_send env sk msg len s"
| "bpf_run (Udp6_send env sk msg len) s = on_udp6_send env sk msg len s"
| "bpf_run (Mmap_exec env file prot) s = on_mmap_exec env file prot s"
| "bpf_run (Mprotect_exec env vma prot) s = on_mprotect_exec env vma prot s"
| "bpf_run (Bpf_syscall env cmd attr) s = on_bpf_syscall env cmd attr s"
| "bpf_run (Socket_create env family type protocol kern) s = on_socket_create env family type protocol kern s"
| "bpf_run (Ns_switch env tsk new_proxy) s = on_ns_switch env tsk new_proxy s"

lemmas program_defs = on_fork_def on_exec_def on_exit_def on_rename_def on_commit_creds_def on_ptrace_def
  on_signal_def on_tcp_connect_def on_tcp_accept_def on_tcp_close_def on_tcp_listen_def on_udp_send_def
  on_udp6_send_def udp_flow_def dns_query_def on_mmap_exec_def on_mprotect_exec_def mem_event_def
  on_bpf_syscall_def on_socket_create_def on_ns_switch_def submit_def submit_exec_def abandon_def

text \<open>Memory of the scratch event with the sizes of the C arrays.\<close>

definition event_sized :: "pan_event \<Rightarrow> bool" where
  "event_sized e \<longleftrightarrow> length (filename e) = PAN_FILENAME_LEN \<and> length (interp e) = PAN_INTERP_LEN \<and> length (args e) = PAN_ARGS_LEN"

lemma hdr_set_hdr [simp]: "hdr (set_hdr f e) = f (hdr e)"
  and filename_set_hdr [simp]: "filename (set_hdr f e) = filename e"
  and interp_set_hdr [simp]: "interp (set_hdr f e) = interp e"
  and args_set_hdr [simp]: "args (set_hdr f e) = args e"
  by (simp_all add: set_hdr_def)

lemma event_sized_set_hdr [simp]: "event_sized (set_hdr f e) = event_sized e"
  by (simp add: event_sized_def)

section \<open>A small host\<close>

text \<open>Concrete kernel objects for the examples: one task, an exec of four argument bytes, a ring that is full.\<close>

definition sample_task :: ktask where
  "sample_task = \<lparr>kt_tgid = 42, kt_pid = 42, kt_start_boottime = 5, kt_leader_start = 5, kt_ppid = 1,
     kt_comm = Some [115, 104], kt_live = 0, kt_exit_code = 0, kt_in_execve = False,
     kt_cred = \<lparr>kc_uid = 0, kc_euid = 0, kc_gid = 0, kc_egid = 0\<rparr>, kt_fd_table = None,
     kt_arg_start = 4096, kt_arg_end = 4100, kt_nsproxy = None\<rparr>"

definition sample_env :: "bool \<Rightarrow> u64 \<Rightarrow> kenv" where
  "sample_env room now = \<lparr>en_current = sample_task, en_pid_tgid = 0, en_uid_gid = 0, en_event_time = now, en_gate_time = now,
     en_conn_time = now, en_dns_event_time = now, en_dns_gate_time = now, en_ring_ok = room, en_dns_ring_ok = room,
     en_user = (\<lambda>_ n. Some (replicate n 97)), en_evict_udp = (\<lambda>_. False), en_evict_conn = (\<lambda>_. False),
     en_evict_dns = (\<lambda>_. False), en_evict_mem = (\<lambda>_. False)\<rparr>"

definition sample_event :: "byte \<Rightarrow> pan_event" where
  "sample_event b = \<lparr>hdr = zero_header, filename = replicate PAN_FILENAME_LEN b, interp = replicate PAN_INTERP_LEN b,
     args = replicate PAN_ARGS_LEN b\<rparr>"

definition sample_maps :: bpf_maps where
  "sample_maps = \<lparr>scratch = Some (sample_event 0), drops = Some 0, wake_last = Some 0, udp_seen = (\<lambda>_. None),
     conn_seen = (\<lambda>_. None), dns_seen = (\<lambda>_. None), mem_seen = (\<lambda>_. None), ring = []\<rparr>"

definition sample_calls :: "bpf_call list" where
  "sample_calls = [Fork (sample_env True 30000000) sample_task sample_task, Exit (sample_env False 30000001) sample_task,
     Exec (sample_env True 30000002) sample_task \<lparr>kb_filename = Some [47, 98], kb_interp = None\<rparr>]"

section \<open>Simulations between two runs\<close>

text \<open>
  Two runs of the programs are compared through a relation of the maps and a relation of the
  events they build; \<open>tr\<close> changes what the second run sees of the kernel, but only whether the
  ring has room. What every program does with the shared helpers then carries to all programs
  and to whole runs.
\<close>

definition ring_choice :: "(kenv \<Rightarrow> kenv) \<Rightarrow> bool" where
  "ring_choice tr \<longleftrightarrow> (\<forall>env. \<exists>a b. tr env = env\<lparr>en_ring_ok := a, en_dns_ring_ok := b\<rparr>)"

fun with_env :: "(kenv \<Rightarrow> kenv) \<Rightarrow> bpf_call \<Rightarrow> bpf_call" where
  "with_env tr (Fork env parent child) = Fork (tr env) parent child"
| "with_env tr (Exec env p bprm) = Exec (tr env) p bprm"
| "with_env tr (Exit env p) = Exit (tr env) p"
| "with_env tr (Rename env task new_comm) = Rename (tr env) task new_comm"
| "with_env tr (Commit_creds env new_cred) = Commit_creds (tr env) new_cred"
| "with_env tr (Ptrace env child mode) = Ptrace (tr env) child mode"
| "with_env tr (Signal env sig info si_code task result) = Signal (tr env) sig info si_code task result"
| "with_env tr (Tcp_connect env sk) = Tcp_connect (tr env) sk"
| "with_env tr (Tcp_accept env ret) = Tcp_accept (tr env) ret"
| "with_env tr (Tcp_close env sk) = Tcp_close (tr env) sk"
| "with_env tr (Tcp_listen env sock ret) = Tcp_listen (tr env) sock ret"
| "with_env tr (Udp_send env sk msg len) = Udp_send (tr env) sk msg len"
| "with_env tr (Udp6_send env sk msg len) = Udp6_send (tr env) sk msg len"
| "with_env tr (Mmap_exec env file prot) = Mmap_exec (tr env) file prot"
| "with_env tr (Mprotect_exec env vma prot) = Mprotect_exec (tr env) vma prot"
| "with_env tr (Bpf_syscall env cmd attr) = Bpf_syscall (tr env) cmd attr"
| "with_env tr (Socket_create env family type protocol kern) = Socket_create (tr env) family type protocol kern"
| "with_env tr (Ns_switch env tsk new_proxy) = Ns_switch (tr env) tsk new_proxy"

locale bpf_simulation =
  fixes R :: "bpf_maps \<Rightarrow> bpf_maps \<Rightarrow> bool" and E :: "pan_event \<Rightarrow> pan_event \<Rightarrow> bool" and tr :: "kenv \<Rightarrow> kenv"
  assumes tr_ring: "ring_choice tr"
    and E_hdr: "E e f \<Longrightarrow> hdr e = hdr f"
    and E_set_hdr: "E e f \<Longrightarrow> E (set_hdr g e) (set_hdr g f)"
    and R_maps: "R s t \<Longrightarrow> udp_seen s = udp_seen t \<and> conn_seen s = conn_seen t \<and> dns_seen s = dns_seen t \<and> mem_seen s = mem_seen t"
    and R_udp: "R s t \<Longrightarrow> R (s\<lparr>udp_seen := u\<rparr>) (t\<lparr>udp_seen := u\<rparr>)"
    and R_conn: "R s t \<Longrightarrow> R (s\<lparr>conn_seen := c\<rparr>) (t\<lparr>conn_seen := c\<rparr>)"
    and R_mem: "R s t \<Longrightarrow> R (s\<lparr>mem_seen := m\<rparr>) (t\<lparr>mem_seen := m\<rparr>)"
    and R_base: "R s t \<Longrightarrow> rel_option E (event_base kind now s) (event_base kind now t)"
    and R_submit: "R s t \<Longrightarrow> E e f \<Longrightarrow> R (submit (en_ring_ok env) e s) (submit (en_ring_ok (tr env)) f t)"
    and R_abandon: "R s t \<Longrightarrow> E e f \<Longrightarrow> R (abandon e s) (abandon f t)"
    and R_exec: "R s t \<Longrightarrow> R (on_exec env p bprm s) (on_exec (tr env) p bprm t)"
    and R_dns: "R s t \<Longrightarrow> R (dns_query env sk msg len family daddr dport s) (dns_query (tr env) sk msg len family daddr dport t)"
begin

lemma tr_fields [simp]:
  "en_current (tr env) = en_current env" "en_pid_tgid (tr env) = en_pid_tgid env" "en_uid_gid (tr env) = en_uid_gid env"
  "en_event_time (tr env) = en_event_time env" "en_gate_time (tr env) = en_gate_time env"
  "en_conn_time (tr env) = en_conn_time env" "en_evict_udp (tr env) = en_evict_udp env"
  "en_evict_conn (tr env) = en_evict_conn env" "en_evict_mem (tr env) = en_evict_mem env"
  using tr_ring unfolding ring_choice_def
  by (metis (no_types) kenv.select_convs kenv.surjective kenv.update_convs)+

lemma net_actor_tr [simp]: "net_actor (tr env) = net_actor env"
  by (simp add: net_actor_def fun_eq_iff)

lemma R_event:
  assumes "R s t" and "\<And>e f. E e f \<Longrightarrow> event_base kind now s = Some e \<Longrightarrow> R (k e) (l f)"
  shows "R (case event_base kind now s of None \<Rightarrow> s | Some e \<Rightarrow> k e) (case event_base kind now t of None \<Rightarrow> t | Some f \<Rightarrow> l f)"
  using R_base [OF assms(1), of kind now] assms by (auto split: option.splits elim: option.rel_cases)

lemma R_if: "R a b \<Longrightarrow> R a' b' \<Longrightarrow> R (if P then a else a') (if P then b else b')"
  by simp

lemmas sim_intros = R_event R_submit R_abandon E_set_hdr R_udp R_conn R_mem

lemma process_programs:
  assumes "R s t"
  shows "R (on_fork env parent child s) (on_fork (tr env) parent child t)"
    "R (on_exit env p s) (on_exit (tr env) p t)"
    "R (on_rename env task new_comm s) (on_rename (tr env) task new_comm t)"
    "R (on_commit_creds env new_cred s) (on_commit_creds (tr env) new_cred t)"
    "R (on_ptrace env child mode s) (on_ptrace (tr env) child mode t)"
    "R (on_signal env sig info si_code task result s) (on_signal (tr env) sig info si_code task result t)"
  unfolding on_fork_def on_exit_def on_rename_def on_commit_creds_def on_ptrace_def on_signal_def Let_def
  using assms by (auto intro!: sim_intros)

lemma R_filled:
  assumes "R s t" "E e f" "R s' t'"
  shows "R (case net_fill_sock sk proto (hdr e) of None \<Rightarrow> abandon e s
              | Some h \<Rightarrow> submit (en_ring_ok env) (set_hdr (\<lambda>_. g h) e) s')
           (case net_fill_sock sk proto (hdr f) of None \<Rightarrow> abandon f t
              | Some h \<Rightarrow> submit (en_ring_ok (tr env)) (set_hdr (\<lambda>_. g h) f) t')"
  using assms E_hdr [OF assms(2)] by (auto split: option.split intro!: sim_intros)

lemma conn_track_tr: "R s t \<Longrightarrow> R (conn_track env sk dir s) (conn_track (tr env) sk dir t)"
  using R_maps [of s t] by (auto simp: conn_track_def intro!: R_conn)

lemma network_programs:
  assumes "R s t"
  shows "R (on_tcp_connect env sk s) (on_tcp_connect (tr env) sk t)"
    "R (on_tcp_accept env ret s) (on_tcp_accept (tr env) ret t)"
    "R (on_tcp_listen env sock err s) (on_tcp_listen (tr env) sock err t)"
proof -
  note track = conn_track_tr [OF assms]
  show "R (on_tcp_connect env sk s) (on_tcp_connect (tr env) sk t)"
    unfolding on_tcp_connect_def tr_fields net_actor_tr by (intro R_event R_filled assms track)
  show "R (on_tcp_accept env ret s) (on_tcp_accept (tr env) ret t)"
    unfolding on_tcp_accept_def tr_fields net_actor_tr
    by (cases ret) (simp_all only: option.case, intro assms, intro R_event R_filled assms track)
  show "R (on_tcp_listen env sock err s) (on_tcp_listen (tr env) sock err t)"
    unfolding on_tcp_listen_def tr_fields net_actor_tr
    by (cases "err = 0"; cases sock)
      (simp_all only: option.case if_True if_False not_False_eq_True not_True_eq_False HOL.simp_thms assms,
       intro R_event R_filled assms)
qed

lemma tcp_close_program:
  assumes "R s t"
  shows "R (on_tcp_close env sk s) (on_tcp_close (tr env) sk t)"
proof -
  have eq: "conn_seen s = conn_seen t" using R_maps [OF assms] by simp
  show ?thesis
  proof (cases "conn_seen t (ks_addr sk)")
    case None
    then show ?thesis
      unfolding on_tcp_close_def Let_def split_beta tr_fields net_actor_tr eq None option.case
      using assms by (auto intro!: R_event R_filled)
  next
    case (Some v)
    then show ?thesis
      unfolding on_tcp_close_def Let_def split_beta tr_fields net_actor_tr eq Some option.case
      using assms by (auto intro!: R_event R_filled R_conn)
  qed
qed

lemma R_report:
  fixes w ev now key
  defines "gate \<equiv> \<lambda>s. window_gate w ev now key (udp_seen s)"
  assumes "R s t"
  shows "R (if \<not> fst (gate s) then s
            else case event_base kind at (s\<lparr>udp_seen := snd (gate s)\<rparr>) of None \<Rightarrow> s\<lparr>udp_seen := snd (gate s)\<rparr>
                 | Some e \<Rightarrow> submit (en_ring_ok env) (set_hdr g e) (s\<lparr>udp_seen := snd (gate s)\<rparr>))
           (if \<not> fst (gate t) then t
            else case event_base kind at (t\<lparr>udp_seen := snd (gate t)\<rparr>) of None \<Rightarrow> t\<lparr>udp_seen := snd (gate t)\<rparr>
                 | Some e \<Rightarrow> submit (en_ring_ok (tr env)) (set_hdr g e) (t\<lparr>udp_seen := snd (gate t)\<rparr>))"
proof -
  have eq: "gate s = gate t" using R_maps [OF assms(2)] by (simp add: gate_def)
  show ?thesis unfolding eq using assms(2) by (auto intro!: sim_intros)
qed

lemma udp_programs:
  assumes "R s t"
  shows "R (on_udp_send env sk msg len s) (on_udp_send (tr env) sk msg len t)"
    "R (on_udp6_send env sk msg len s) (on_udp6_send (tr env) sk msg len t)"
proof -
  obtain family dport daddr where dest: "udp_destination sk msg = (family, dport, daddr)"
    by (metis prod_cases3)
  have queried: "R (if dport = PAN_DNS_PORT then dns_query env sk msg len family daddr dport s else s)
     (if dport = PAN_DNS_PORT then dns_query (tr env) sk msg len family daddr dport t else t)"
    using assms R_dns [OF assms] by simp
  have "R (udp_flow env sk msg len s) (udp_flow (tr env) sk msg len t)"
    unfolding udp_flow_def Let_def dest prod.case split_beta tr_fields net_actor_tr fst_conv snd_conv
  proof (cases "family = 0 \<or> dport = 0", goal_cases)
    case 1 then show ?case by (simp only: if_True assms)
  next
    case 2 show ?case unfolding if_not_P [OF 2] by (rule R_report [OF queried])
  qed
  then show "R (on_udp_send env sk msg len s) (on_udp_send (tr env) sk msg len t)"
    "R (on_udp6_send env sk msg len s) (on_udp6_send (tr env) sk msg len t)"
    by (simp_all add: on_udp_send_def on_udp6_send_def)
qed

lemma mem_event_program:
  assumes "R s t"
  shows "R (mem_event env kind backing prot start len s) (mem_event (tr env) kind backing prot start len t)"
proof -
  have eq: "mem_seen s = mem_seen t" using R_maps [OF assms] by simp
  show ?thesis
    unfolding mem_event_def Let_def split_beta tr_fields net_actor_tr eq
    using assms by (auto intro!: sim_intros)
qed

lemma bpf_syscall_program:
  assumes "R s t"
  shows "R (on_bpf_syscall env cmd attr s) (on_bpf_syscall (tr env) cmd attr t)"
  unfolding on_bpf_syscall_def tr_fields net_actor_tr
  using assms by (auto simp del: Let_def intro!: sim_intros)

lemma socket_create_program:
  assumes "R s t"
  shows "R (on_socket_create env family type protocol kern s) (on_socket_create (tr env) family type protocol kern t)"
proof -
  have eq: "mem_seen s = mem_seen t" using R_maps [OF assms] by simp
  show ?thesis
    unfolding on_socket_create_def Let_def split_beta tr_fields net_actor_tr eq
    by (intro R_if sim_intros assms)
qed

lemma ns_switch_program:
  assumes "R s t"
  shows "R (on_ns_switch env tsk new_proxy s) (on_ns_switch (tr env) tsk new_proxy t)"
  unfolding on_ns_switch_def Let_def tr_fields net_actor_tr
  using assms by (cases new_proxy; cases "kt_nsproxy tsk") (auto intro!: sim_intros)

lemma memory_programs:
  assumes "R s t"
  shows "R (on_mmap_exec env file prot s) (on_mmap_exec (tr env) file prot t)"
    "R (on_mprotect_exec env vma prot s) (on_mprotect_exec (tr env) vma prot t)"
  unfolding on_mmap_exec_def on_mprotect_exec_def Let_def
  using assms mem_event_program [OF assms] by auto

theorem run_call: "R s t \<Longrightarrow> R (bpf_run c s) (bpf_run (with_env tr c) t)"
  by (cases c) (simp_all add: process_programs network_programs tcp_close_program udp_programs bpf_syscall_program
      socket_create_program ns_switch_program memory_programs R_exec)

theorem run_calls: "R s t \<Longrightarrow> R (fold bpf_run cs s) (fold bpf_run (map (with_env tr) cs) t)"
  by (induction cs arbitrary: s t) (simp_all add: run_call)

end

section \<open>The drop counter\<close>

text \<open>The same kernel with a ring that always has room.\<close>

definition roomy_env :: "kenv \<Rightarrow> kenv" where
  "roomy_env env = env\<lparr>en_ring_ok := True, en_dns_ring_ok := True\<rparr>"

text \<open>
  Two states that differ only in what the ring took: the records of the first are among those of
  the second, and its counter, which stood at \<open>n\<close>, has advanced once for each that is missing.
\<close>

definition drop_related :: "u64 \<Rightarrow> bpf_maps \<Rightarrow> bpf_maps \<Rightarrow> bool" where
  "drop_related n s t \<longleftrightarrow>
     scratch s = scratch t \<and> wake_last s = wake_last t \<and> udp_seen s = udp_seen t \<and> conn_seen s = conn_seen t \<and>
     dns_seen s = dns_seen t \<and> mem_seen s = mem_seen t \<and> subseq (ring s) (ring t) \<and> drops t = Some n \<and>
     drops s = Some (n + of_nat (length (ring t) - length (ring s)))"

lemma wake_flags_frame [simp]:
  "ring (snd (wake_flags now s)) = ring s" "drops (snd (wake_flags now s)) = drops s"
  "scratch (snd (wake_flags now s)) = scratch s" "udp_seen (snd (wake_flags now s)) = udp_seen s"
  "conn_seen (snd (wake_flags now s)) = conn_seen s" "dns_seen (snd (wake_flags now s)) = dns_seen s"
  "mem_seen (snd (wake_flags now s)) = mem_seen s"
  by (auto simp: wake_flags_def split: option.split)

lemma wake_flags_cong:
  "wake_last s = wake_last t \<Longrightarrow>
   wake_last (snd (wake_flags now s)) = wake_last (snd (wake_flags now t)) \<and> fst (wake_flags now s) = fst (wake_flags now t)"
  by (auto simp: wake_flags_def split: option.split)

lemma event_base_cong: "scratch s = scratch t \<Longrightarrow> event_base kind now s = event_base kind now t"
  by (simp add: event_base_def)

lemma ringbuf_output_drops:
  assumes rel: "drop_related n s t"
  shows "drop_related n (ringbuf_output ok e tail s) (ringbuf_output True e tail t)"
proof -
  have "length (ring s) \<le> length (ring t)"
    using rel list_emb_length by (auto simp: drop_related_def)
  moreover have "wake_last s = wake_last t" using rel by (simp add: drop_related_def)
  ultimately show ?thesis
    using rel wake_flags_cong [of s t "ev_time_boot_ns (hdr e)"]
    by (auto simp: drop_related_def ringbuf_output_def count_drop_def split_beta Let_def Suc_diff_le)
qed

lemma dns_query_drops:
  assumes "drop_related n s t"
  shows "drop_related n (dns_query env sk msg len family daddr dport s) (dns_query (roomy_env env) sk msg len family daddr dport t)"
proof -
  have eqs: "event_base PAN_EVENT_DNS_QUERY (en_dns_event_time env) s = event_base PAN_EVENT_DNS_QUERY (en_dns_event_time env) t"
    "dns_seen s = dns_seen t"
    using assms by (simp_all add: drop_related_def event_base_def)
  have abandoned: "drop_related n (abandon e s) (abandon e t)" for e
    using assms by (auto simp: drop_related_def abandon_def)
  have sent: "drop_related n (ringbuf_output ok e tail (s\<lparr>dns_seen := d\<rparr>)) (ringbuf_output True e tail (t\<lparr>dns_seen := d\<rparr>))" for ok e tail d
    using assms by (intro ringbuf_output_drops) (auto simp: drop_related_def)
  show ?thesis
    unfolding dns_query_def Let_def split_beta roomy_env_def kenv.simps eqs
    using assms by (cases "event_base PAN_EVENT_DNS_QUERY (en_dns_event_time env) t") (simp_all add: abandoned sent net_actor_def)
qed

lemma exec_drops:
  assumes "drop_related n s t"
  shows "drop_related n (on_exec env p bprm s) (on_exec (roomy_env env) p bprm t)"
proof -
  have eq: "event_base PAN_EVENT_EXEC (en_event_time env) s = event_base PAN_EVENT_EXEC (en_event_time env) t"
    using assms by (simp add: drop_related_def event_base_def)
  show ?thesis
    unfolding on_exec_def roomy_env_def kenv.simps eq submit_exec_def Let_def
    using assms ringbuf_output_drops [OF assms] by (simp split: option.split)
qed

interpretation dropping: bpf_simulation "drop_related n" "(=)" roomy_env for n
proof
  show "ring_choice roomy_env" by (auto simp: ring_choice_def roomy_env_def)
  fix s t env and e f :: pan_event
  show "drop_related n (submit (en_ring_ok env) e s) (submit (en_ring_ok (roomy_env env)) f t)"
    if "drop_related n s t" "e = f"
    using ringbuf_output_drops that by (simp add: submit_def roomy_env_def)
  show "rel_option (=) (event_base kind now s) (event_base kind now t)" if "drop_related n s t" for kind now
    using that event_base_cong [of s t kind now] by (simp add: drop_related_def option.rel_eq)
  show "drop_related n (on_exec env p bprm s) (on_exec (roomy_env env) p bprm t)" if "drop_related n s t" for p bprm
    using that by (rule exec_drops)
  show "drop_related n (dns_query env sk msg len family daddr dport s) (dns_query (roomy_env env) sk msg len family daddr dport t)"
    if "drop_related n s t" for sk msg len family daddr dport
    using that by (rule dns_query_drops)
qed (simp_all add: drop_related_def abandon_def)

text \<open>
  C20. No event is lost without trace between the kernel and the agent: compare any sequence of
  program invocations with the same sequence on a ring that never fills up. The records that
  arrive are a subsequence of the ideal ones, bit for bit, and the drop counter has advanced by
  exactly the number of records that are missing (modulo its 64 bits); everything else the
  programs keep is the same.
\<close>

theorem bpf_drop_accounting:
  assumes "drops s = Some n"
  shows "subseq (ring (fold bpf_run cs s)) (ring (fold bpf_run (map (with_env roomy_env) cs) s)) \<and>
    drops (fold bpf_run cs s) =
      Some (n + of_nat (length (ring (fold bpf_run (map (with_env roomy_env) cs) s)) - length (ring (fold bpf_run cs s))))"
proof -
  have "drop_related n s s" using assms by (simp add: drop_related_def)
  then show ?thesis using dropping.run_calls by (fastforce simp: drop_related_def)
qed

theorem bpf_drop_accounting_witness:
  "subseq (ring (fold bpf_run sample_calls sample_maps)) (ring (fold bpf_run (map (with_env roomy_env) sample_calls) sample_maps)) \<and>
   drops (fold bpf_run sample_calls sample_maps) =
     Some (0 + of_nat (length (ring (fold bpf_run (map (with_env roomy_env) sample_calls) sample_maps)) -
                       length (ring (fold bpf_run sample_calls sample_maps))))"
proof -
  have "drops sample_maps = Some 0" by (simp add: sample_maps_def)
  then show ?thesis by (rule bpf_drop_accounting)
qed

lemma sample_drop:
  "drops (bpf_run (Exit (sample_env False 30000001) sample_task) sample_maps) = Some 1"
  by (simp add: sample_maps_def sample_env_def sample_task_def on_exit_def event_base_def submit_def ringbuf_output_def
      wake_flags_def PAN_WAKE_GAP_NS_def count_drop_def Let_def)

section \<open>Stale bytes\<close>

text \<open>
  The scratch event is reused without being cleared behind the header. What a reader takes from
  a record: for an exec event the two NUL-terminated paths and the argument bytes, for the others
  the whole tail.
\<close>

definition c_string :: "byte list \<Rightarrow> byte list" where
  "c_string bs = takeWhile (\<lambda>b. b \<noteq> 0) bs"

definition out_view :: "pan_output \<Rightarrow> pan_header \<times> bool \<times> byte list list" where
  "out_view r =
     (out_hdr r, out_wakes r,
      if ev_kind (out_hdr r) = pan_event_number PAN_EVENT_EXEC
      then [c_string (take PAN_FILENAME_LEN (out_tail r)),
            c_string (take PAN_INTERP_LEN (drop PAN_FILENAME_LEN (out_tail r))),
            drop (PAN_FILENAME_LEN + PAN_INTERP_LEN) (out_tail r)]
      else [out_tail r])"

definition same_header :: "pan_event \<Rightarrow> pan_event \<Rightarrow> bool" where
  "same_header e f \<longleftrightarrow> hdr e = hdr f \<and> event_sized e \<and> event_sized f"

definition scratch_related :: "bpf_maps \<Rightarrow> bpf_maps \<Rightarrow> bool" where
  "scratch_related s t \<longleftrightarrow>
     rel_option (\<lambda>e f. event_sized e \<and> event_sized f) (scratch s) (scratch t) \<and> drops s = drops t \<and>
     wake_last s = wake_last t \<and> udp_seen s = udp_seen t \<and> conn_seen s = conn_seen t \<and>
     dns_seen s = dns_seen t \<and> mem_seen s = mem_seen t \<and> map out_view (ring s) = map out_view (ring t)"

lemma ringbuf_output_view:
  assumes "scratch_related s t" "same_header e f"
    and "\<And>w. out_view \<lparr>out_hdr = hdr f, out_tail = a, out_wakes = w\<rparr> = out_view \<lparr>out_hdr = hdr f, out_tail = b, out_wakes = w\<rparr>"
  shows "scratch_related (ringbuf_output ok e a s) (ringbuf_output ok f b t)"
proof -
  have "wake_last s = wake_last t" "hdr e = hdr f" using assms by (simp_all add: scratch_related_def same_header_def)
  then show ?thesis
    using assms wake_flags_cong [of s t "ev_time_boot_ns (hdr f)"]
    by (auto simp: scratch_related_def same_header_def ringbuf_output_def count_drop_def split_beta Let_def)
qed

lemma event_base_view:
  assumes "scratch_related s t"
  shows "rel_option same_header (event_base kind now s) (event_base kind now t)"
  using assms by (cases "scratch s"; cases "scratch t")
    (auto simp: scratch_related_def event_base_def same_header_def event_sized_def)

lemma c_string_put_str:
  assumes "length dst = n" "length dst' = n" "0 < n"
  shows "c_string (put_str n src dst) = c_string (put_str n src dst')"
  by (auto simp: c_string_def put_str_def Let_def takeWhile_append split: option.split)

lemma c_string_cleared: "c_string (bs[0 := 0]) = []"
  by (cases bs) (simp_all add: c_string_def)

lemma event_base_kind: "event_base kind now s = Some e \<Longrightarrow> ev_kind (hdr e) = pan_event_number kind"
  by (auto simp: event_base_def)

lemma exec_args_used:
  "unat (ucast (fst (exec_args_span a b)) AND (3071 :: u32)) = unat (fst (exec_args_span a b))"
proof -
  define x :: u64 where "x = (if 3072 \<le> (if a < b then b - a else 0) then 3071 else if a < b then b - a else 0)"
  have span: "fst (exec_args_span a b) = x AND 3071"
    by (auto simp: exec_args_span_def Let_def PAN_ARGS_LEN_def x_def)
  have "ucast (x AND 3071) AND (3071 :: u32) = ucast (x AND 3071)"
    by (rule bit_word_eqI) (auto simp: bit_simps)
  moreover have "unat (ucast (x AND 3071) :: u32) = unat (x AND 3071)"
  proof -
    have "x AND 3071 \<le> 3071" by (simp add: word_and_le1)
    then have "unat (x AND 3071) \<le> 3071" by (simp add: word_le_nat_alt)
    then show ?thesis by (simp add: unsigned_ucast_eq take_bit_nat_eq_self)
  qed
  ultimately show ?thesis by (simp add: span)
qed

text \<open>The argument bytes that \<open>on_exec\<close> sends are those it just read, whatever the buffer held.\<close>

definition exec_args_bytes :: "(u64 \<Rightarrow> nat \<Rightarrow> byte list option) \<Rightarrow> ktask \<Rightarrow> byte list" where
  "exec_args_bytes umem p =
     (let len = fst (exec_args_span (kt_arg_start p) (kt_arg_end p))
      in if 0 < len then snd (read_user umem (kt_arg_start p) (unat len)) else [])"

lemma exec_fill_args_len: "ev_args_len (hdr (exec_fill umem p bprm e)) = ucast (fst (exec_args_span (kt_arg_start p) (kt_arg_end p)))"
  by (simp add: exec_fill_def set_comm_def Let_def split_beta)

lemma exec_fill_args:
  "take (unat (ev_args_len (hdr (exec_fill umem p bprm e)) AND of_nat (PAN_ARGS_LEN - 1))) (args (exec_fill umem p bprm e))
   = exec_args_bytes umem p"
proof -
  let ?len = "fst (exec_args_span (kt_arg_start p) (kt_arg_end p))"
  have "unat (ev_args_len (hdr (exec_fill umem p bprm e)) AND of_nat (PAN_ARGS_LEN - 1)) = unat ?len"
    unfolding exec_fill_args_len using exec_args_used by (simp add: PAN_ARGS_LEN_def)
  moreover have "take (unat ?len) (args (exec_fill umem p bprm e)) = exec_args_bytes umem p"
    by (cases "0 < ?len")
      (auto simp: exec_fill_def exec_args_bytes_def put_bytes_def Let_def split_beta word_gt_0)
  ultimately show ?thesis by simp
qed

lemma exec_span_bound: "unat (fst (exec_args_span a b)) < PAN_ARGS_LEN"
proof -
  have "fst (exec_args_span a b) \<le> 3071" for a b
    by (auto simp: exec_args_span_def Let_def PAN_ARGS_LEN_def word_and_le1)
  from this [of a b] show ?thesis by (simp add: word_le_nat_alt PAN_ARGS_LEN_def)
qed

lemma exec_fill_sized: "event_sized e \<Longrightarrow> event_sized (exec_fill umem p bprm e)"
  using exec_span_bound [of "kt_arg_start p" "kt_arg_end p"]
  by (auto simp: event_sized_def exec_fill_def Let_def split_beta put_bytes_def length_put_str
      PAN_FILENAME_LEN_def PAN_INTERP_LEN_def split: option.split)

lemma exec_fill_strings:
  assumes "event_sized e" "event_sized f"
  shows "c_string (filename (exec_fill umem p bprm e)) = c_string (filename (exec_fill umem p bprm f))"
    "c_string (interp (exec_fill umem p bprm e)) = c_string (interp (exec_fill umem p bprm f))"
  using assms
  by (auto simp: event_sized_def exec_fill_def Let_def split_beta PAN_FILENAME_LEN_def PAN_INTERP_LEN_def c_string_cleared
      split: option.split intro!: c_string_put_str)

lemma exec_fill_hdr: "hdr e = hdr f \<Longrightarrow> hdr (exec_fill umem p bprm e) = hdr (exec_fill umem p bprm f)"
  by (cases "kt_fd_table p") (simp_all add: exec_fill_def Let_def split_beta)

lemma exec_fill_kind: "ev_kind (hdr (exec_fill umem p bprm e)) = ev_kind (hdr e)"
  by (simp add: exec_fill_def set_comm_def Let_def split_beta)

lemma exec_view:
  assumes "scratch_related s t"
  shows "scratch_related (on_exec env p bprm s) (on_exec env p bprm t)"
proof (cases "event_base PAN_EVENT_EXEC (en_event_time env) s")
  case None
  then show ?thesis using event_base_view [OF assms] assms by (metis on_exec_def option.case(1) rel_option_None1)
next
  case (Some e)
  then obtain f where f: "event_base PAN_EVENT_EXEC (en_event_time env) t = Some f" "same_header e f"
    using event_base_view [OF assms] by (metis option_rel_Some1)
  let ?g = "exec_fill (en_user env) p bprm e" and ?h = "exec_fill (en_user env) p bprm f"
  have sized: "event_sized e" "event_sized f" and hdrs: "hdr ?g = hdr ?h"
    using f(2) by (simp_all add: same_header_def exec_fill_hdr [of e f])
  have filled: "same_header ?g ?h" using sized hdrs by (simp add: same_header_def exec_fill_sized)
  have lens: "length (filename ?g) = PAN_FILENAME_LEN" "length (filename ?h) = PAN_FILENAME_LEN"
    "length (interp ?g) = PAN_INTERP_LEN" "length (interp ?h) = PAN_INTERP_LEN"
    using exec_fill_sized [OF sized(1)] exec_fill_sized [OF sized(2)] by (simp_all add: event_sized_def)
  have kind: "ev_kind (hdr ?h) = pan_event_number PAN_EVENT_EXEC"
    using event_base_kind [OF f(1)] by (simp add: exec_fill_kind)
  show ?thesis
    unfolding on_exec_def Some f(1) option.case submit_exec_def Let_def exec_fill_args
    by (rule ringbuf_output_view [OF assms filled])
      (simp add: out_view_def kind lens exec_fill_strings [OF sized])
qed

lemma dns_hash_cong:
  "take avail as = take avail bs \<Longrightarrow> avail \<le> length as \<Longrightarrow> avail \<le> length bs \<Longrightarrow> dns_hash avail as = dns_hash avail bs"
  unfolding dns_hash_def
  by (rule List.fold_cong) (auto dest!: arg_cong [where f = "\<lambda>xs. xs ! _"] simp: list_eq_iff_nth_eq)

text \<open>What \<open>dns_query\<close> does with an event, so that its two cases can be compared.\<close>

definition captured :: "byte list \<Rightarrow> pan_event \<Rightarrow> pan_event" where
  "captured bytes e = e\<lparr>filename := put_bytes bytes (filename e)\<rparr>"

lemma captured_related:
  assumes "same_header e f" "length bytes \<le> PAN_DNS_CAPTURE"
  shows "same_header (captured bytes e) (captured bytes f)"
    "take (length bytes) (filename (captured bytes e)) = bytes"
    "dns_hash (length bytes) (filename (captured bytes e)) = dns_hash (length bytes) (filename (captured bytes f))"
    "ev_kind (hdr (captured bytes e)) = ev_kind (hdr e)"
  using assms by (auto simp: same_header_def event_sized_def captured_def put_bytes_def PAN_DNS_CAPTURE_def
      PAN_FILENAME_LEN_def intro!: dns_hash_cong)

lemma net_actor_kind [simp]: "ev_kind (net_actor env h) = ev_kind h"
  by (simp add: net_actor_def set_comm_def Let_def)

lemma same_header_set_hdr: "same_header e f \<Longrightarrow> same_header (set_hdr g e) (set_hdr g f)"
  by (simp add: same_header_def)

lemma abandon_view: "scratch_related s t \<Longrightarrow> same_header e f \<Longrightarrow> scratch_related (abandon e s) (abandon f t)"
  by (auto simp: scratch_related_def abandon_def same_header_def)

lemma dns_query_view:
  assumes rel: "scratch_related s t"
  shows "scratch_related (dns_query env sk msg len family daddr dport s) (dns_query env sk msg len family daddr dport t)"
proof -
  obtain base limit where buffer: "msg_user_buffer msg len = (base, limit)" by (metis surj_pair)
  define avail where "avail = (if PAN_DNS_CAPTURE < unat limit then PAN_DNS_CAPTURE else unat limit)"
  obtain ok bytes where got: "read_user (en_user env) base avail = (ok, bytes)" by (metis surj_pair)
  have len: "length bytes = avail" using length_read_user [of "en_user env" base avail] got by simp
  have seen: "dns_seen s = dns_seen t" using rel by (simp add: scratch_related_def)
  have step: "scratch_related (if \<not> ok then abandon (captured bytes e) s else if \<not> r then abandon (captured bytes e) s
       else ringbuf_output rok (set_hdr g (captured bytes e)) (take avail (filename (captured bytes e))) (s\<lparr>dns_seen := d\<rparr>))
     (if \<not> ok then abandon (captured bytes f) t else if \<not> r then abandon (captured bytes f) t
       else ringbuf_output rok (set_hdr g (captured bytes f)) (take avail (filename (captured bytes f))) (t\<lparr>dns_seen := d\<rparr>))"
    if "same_header e f" for e f r rok g d
  proof -
    have bound: "length bytes \<le> PAN_DNS_CAPTURE" by (simp add: len avail_def)
    have "same_header f f" using that by (simp add: same_header_def)
    note related = captured_related [OF that bound] captured_related(2) [OF this bound]
    have "scratch_related (s\<lparr>dns_seen := d\<rparr>) (t\<lparr>dns_seen := d\<rparr>)" using rel by (simp add: scratch_related_def)
    from ringbuf_output_view [OF this same_header_set_hdr [OF related(1)]]
    show ?thesis using rel related(1,2,5) by (simp add: abandon_view len)
  qed
  have hash: "dns_hash avail (filename (captured bytes e)) = dns_hash avail (filename (captured bytes f))" if "same_header e f" for e f
    using captured_related(3) [OF that, of bytes] len by (simp add: avail_def split: if_splits)
  show ?thesis
  proof (cases "event_base PAN_EVENT_DNS_QUERY (en_dns_event_time env) s")
    case None
    then have "event_base PAN_EVENT_DNS_QUERY (en_dns_event_time env) t = None"
      using event_base_view [OF rel] by (metis rel_option_None1)
    then show ?thesis using None rel by (simp add: dns_query_def buffer)
  next
    case (Some e)
    then obtain f where f: "event_base PAN_EVENT_DNS_QUERY (en_dns_event_time env) t = Some f" "same_header e f"
      using event_base_view [OF rel] by (metis option_rel_Some1)
    show ?thesis
    proof (cases "base = 0 \<or> limit < PAN_DNS_MIN")
      case True
      then show ?thesis using rel by (auto simp: dns_query_def buffer)
    next
      case False
      show ?thesis
        unfolding dns_query_def buffer prod.case Let_def if_not_P [OF False] Some f(1) option.case avail_def [symmetric]
          got captured_def [symmetric] hash [OF f(2)] seen split_beta fst_conv snd_conv
          filename_set_hdr
        by (intro step f(2))
    qed
  qed
qed

interpretation stale: bpf_simulation scratch_related same_header "\<lambda>env. env"
proof
  show "ring_choice (\<lambda>env. env)"
    unfolding ring_choice_def by (metis kenv.surjective kenv.update_convs(9,10))
  fix s t and env :: kenv and e f :: pan_event
  show "scratch_related (submit (en_ring_ok env) e s) (submit (en_ring_ok env) f t)"
    if "scratch_related s t" "same_header e f"
    unfolding submit_def using that by (rule ringbuf_output_view) simp
  show "scratch_related (abandon e s) (abandon f t)" if "scratch_related s t" "same_header e f"
    using that by (rule abandon_view)
  show "same_header (set_hdr g e) (set_hdr g f)" if "same_header e f" for g
    using that by (rule same_header_set_hdr)
  show "rel_option same_header (event_base kind now s) (event_base kind now t)" if "scratch_related s t" for kind now
    using that by (rule event_base_view)
  show "scratch_related (on_exec env p bprm s) (on_exec env p bprm t)" if "scratch_related s t" for p bprm
    using that by (rule exec_view)
  show "scratch_related (dns_query env sk msg len family daddr dport s) (dns_query env sk msg len family daddr dport t)"
    if "scratch_related s t" for sk msg len family daddr dport
    using that by (rule dns_query_view)
qed (simp_all add: scratch_related_def same_header_def)

lemma with_env_id [simp]: "with_env (\<lambda>env. env) c = c"
  by (cases c) simp_all

text \<open>
  C21. No record carries bytes of an earlier event: whatever sized contents the per-CPU scratch
  event holds when a sequence of invocations starts, the records produced, as a reader decodes
  them, are the same. The programs clear only the header of the scratch event, so the paths,
  argument bytes and DNS capture behind it are the proof's concern.
\<close>

theorem bpf_no_stale_bytes:
  assumes "event_sized e" "event_sized f"
  shows "map out_view (ring (fold bpf_run cs (s\<lparr>scratch := Some e\<rparr>)))
       = map out_view (ring (fold bpf_run cs (s\<lparr>scratch := Some f\<rparr>)))"
proof -
  have "scratch_related (s\<lparr>scratch := Some e\<rparr>) (s\<lparr>scratch := Some f\<rparr>)"
    using assms by (simp add: scratch_related_def)
  from stale.run_calls [OF this, of cs] show ?thesis
    by (simp add: scratch_related_def map_idI)
qed

theorem bpf_no_stale_bytes_witness:
  "event_sized (sample_event 1) \<and> event_sized (sample_event 2) \<and>
   map out_view (ring (fold bpf_run sample_calls (sample_maps\<lparr>scratch := Some (sample_event 1)\<rparr>)))
   = map out_view (ring (fold bpf_run sample_calls (sample_maps\<lparr>scratch := Some (sample_event 2)\<rparr>)))"
proof -
  have "event_sized (sample_event b)" for b by (simp add: event_sized_def sample_event_def)
  then show ?thesis using bpf_no_stale_bytes [of "sample_event 1" "sample_event 2" sample_calls sample_maps] by simp
qed

end
