(* ===== verification/Bpf_Windows.thy ===== *)
theory Bpf_Windows
  imports Bpf_Programs
begin

text \<open>
  What the eBPF programs decide with numbers: when a rate window hides an event, when a record
  does not wake the reader, how much of argv is captured, and the byte counters of a closing
  connection.
\<close>

section \<open>Rate windows over a sequence of events\<close>

text \<open>One decision after the other on the same map: which entries it evicts, the time, the key.\<close>

type_synonym 'k attempt = "('k \<Rightarrow> bool) \<times> u64 \<times> 'k"

fun gate_run :: "u64 \<Rightarrow> 'k attempt list \<Rightarrow> ('k \<Rightarrow> u64 option) \<Rightarrow> bool list" where
  "gate_run window [] m = []"
| "gate_run window ((evicted, now, k) # xs) m =
     (let (report, m') = window_gate window evicted now k m in report # gate_run window xs m')"

definition attempt_time :: "'k attempt \<Rightarrow> u64" where "attempt_time a = fst (snd a)"
definition attempt_key :: "'k attempt \<Rightarrow> 'k" where "attempt_key a = snd (snd a)"

lemma length_gate_run [simp]: "length (gate_run window xs m) = length xs"
proof (induction xs arbitrary: m)
  case (Cons x xs)
  then show ?case by (cases x) (simp add: split_beta Let_def)
qed simp

lemma window_gate_cases:
  "window_gate window evicted now k m =
     (if \<exists>r. m k = Some r \<and> now - r < window then (False, m) else (True, lru_update evicted m k now))"
  by (auto simp: window_gate_def split: option.split)

lemma gate_run_suppressed:
  assumes "i < length xs" "\<not> gate_run window xs m ! i"
  shows "(\<exists>r. m (attempt_key (xs ! i)) = Some r \<and> attempt_time (xs ! i) - r < window) \<or>
    (\<exists>j<i. gate_run window xs m ! j \<and> attempt_key (xs ! j) = attempt_key (xs ! i) \<and>
       attempt_time (xs ! i) - attempt_time (xs ! j) < window)"
  using assms
proof (induction xs arbitrary: m i)
  case (Cons x xs)
  obtain evicted now k where x: "x = (evicted, now, k)" by (cases x)
  show ?case
  proof (cases i)
    case 0
    then show ?thesis
      using Cons.prems x by (auto simp: window_gate_cases attempt_key_def attempt_time_def split: if_splits)
  next
    case (Suc n)
    define report m' where "report = fst (window_gate window evicted now k m)" and "m' = snd (window_gate window evicted now k m)"
    have run: "gate_run window (x # xs) m = report # gate_run window xs m'"
      by (simp add: x report_def m'_def split_beta Let_def)
    have entry: "m' key = Some r \<Longrightarrow> m key = Some r \<or> (report \<and> key = k \<and> r = now)" for key r
      by (auto simp: m'_def report_def window_gate_cases lru_update_def split: if_splits)
    from Cons.IH [of n m'] Cons.prems Suc run
    consider (old) r where "m' (attempt_key (xs ! n)) = Some r" "attempt_time (xs ! n) - r < window"
      | (earlier) j where "j < n" "gate_run window xs m' ! j" "attempt_key (xs ! j) = attempt_key (xs ! n)"
          "attempt_time (xs ! n) - attempt_time (xs ! j) < window"
      by auto
    then show ?thesis
    proof cases
      case old
      from entry [OF old(1)] show ?thesis
      proof
        assume "m (attempt_key (xs ! n)) = Some r"
        then show ?thesis using old(2) Suc by auto
      next
        assume "report \<and> attempt_key (xs ! n) = k \<and> r = now"
        then show ?thesis
          using old(2) unfolding run Suc by (intro disjI2 exI [of _ 0]) (simp add: x attempt_key_def attempt_time_def)
      qed
    next
      case earlier
      then show ?thesis by (auto simp: run Suc intro!: exI [of _ "Suc j"])
    qed
  qed
qed simp

lemma gate_run_spaced:
  assumes "m k = Some r" "i < length xs" "gate_run window xs m ! i" "attempt_key (xs ! i) = k"
    and "\<forall>x\<in>set (take i xs). \<not> fst x k"
    and "\<forall>j<i. attempt_key (xs ! j) = k \<longrightarrow> \<not> gate_run window xs m ! j"
  shows "window \<le> attempt_time (xs ! i) - r"
  using assms
proof (induction xs arbitrary: m i)
  case (Cons x xs)
  obtain evicted now k' where x: "x = (evicted, now, k')" by (cases x)
  show ?case
  proof (cases i)
    case 0
    then show ?thesis
      using Cons.prems x by (auto simp: window_gate_cases attempt_key_def attempt_time_def not_less split: if_splits)
  next
    case (Suc n)
    define report m' where "report = fst (window_gate window evicted now k' m)" and "m' = snd (window_gate window evicted now k' m)"
    have run: "gate_run window (x # xs) m = report # gate_run window xs m'"
      by (simp add: x report_def m'_def split_beta Let_def)
    have "k' = k \<Longrightarrow> \<not> report" using Cons.prems(6) Suc run by (auto simp: x attempt_key_def)
    moreover have "\<not> evicted k" using Cons.prems(5) Suc by (simp add: x)
    ultimately have "m' k = Some r"
      using Cons.prems(1) by (auto simp: m'_def report_def window_gate_cases lru_update_def split: if_splits)
    moreover have "\<forall>j<n. attempt_key (xs ! j) = k \<longrightarrow> \<not> gate_run window xs m' ! j"
      using Cons.prems(6) Suc run by (metis Suc_less_eq nth_Cons_Suc)
    ultimately show ?thesis
      using Cons.IH [of m' n] Cons.prems Suc run by (auto simp: x)
  qed
qed simp

text \<open>
  A rate window hides an event only behind a recent report: starting from an empty map, and
  whatever entries the LRU map evicts, an attempt that is suppressed has an earlier attempt with
  the same key that was reported less than the window before it.
\<close>

theorem rate_window_hides_only_repeats:
  assumes "i < length xs" "\<not> gate_run window xs (\<lambda>_. None) ! i"
  shows "\<exists>j<i. gate_run window xs (\<lambda>_. None) ! j \<and> attempt_key (xs ! j) = attempt_key (xs ! i) \<and>
    attempt_time (xs ! i) - attempt_time (xs ! j) < window"
  using gate_run_suppressed [OF assms] by simp

definition sample_attempts :: "nat attempt list" where
  "sample_attempts = [(\<lambda>_. False, 100, 7), (\<lambda>_. False, 104, 8), (\<lambda>_. False, 106, 7)]"

theorem rate_window_hides_only_repeats_witness:
  "\<exists>j<2. gate_run 10 sample_attempts (\<lambda>_. None) ! j \<and> attempt_key (sample_attempts ! j) = 7 \<and>
     106 - attempt_time (sample_attempts ! j) < 10"
  using rate_window_hides_only_repeats [of 2 sample_attempts 10]
  by (simp add: sample_attempts_def window_gate_cases lru_update_def attempt_key_def attempt_time_def)

section \<open>Waking the reader\<close>

text \<open>A sequence of records with the times in their headers, and whether each wakes the reader.\<close>

fun wake_run :: "u64 list \<Rightarrow> bpf_maps \<Rightarrow> bool list" where
  "wake_run [] s = []"
| "wake_run (now # ts) s = fst (wake_flags now s) # wake_run ts (snd (wake_flags now s))"

lemma wake_flags_step:
  assumes "wake_last s = Some seen"
  shows "fst (wake_flags now s) \<longleftrightarrow> PAN_WAKE_GAP_NS \<le> now - seen"
    "\<exists>kept. wake_last (snd (wake_flags now s)) = Some kept \<and> now - kept < 1000000 \<and> kept \<in> {seen, now}"
  using assms by (auto simp: wake_flags_def not_le PAN_WAKE_GAP_NS_def)

text \<open>
  A record that does not wake the reader follows another record closely: in any sequence of
  records, if one is sent with \<open>BPF_RB_NO_WAKEUP\<close> then an earlier record of the sequence, or the
  time the map held at its start, is less than 20 ms older. Refreshing \<open>wake_last\<close> only once per
  millisecond never hides a silence.
\<close>

theorem wake_only_withheld_in_burst:
  assumes "wake_last s = Some seen" "i < length ts" "\<not> wake_run ts s ! i"
  shows "ts ! i - seen < PAN_WAKE_GAP_NS \<or> (\<exists>j<i. ts ! i - ts ! j < PAN_WAKE_GAP_NS)"
  using assms
proof (induction ts arbitrary: s seen i)
  case (Cons now ts)
  show ?case
  proof (cases i)
    case 0
    then show ?thesis using Cons.prems wake_flags_step(1) [OF Cons.prems(1), of now] by (simp add: not_le)
  next
    case (Suc n)
    obtain kept where kept: "wake_last (snd (wake_flags now s)) = Some kept" "kept \<in> {seen, now}"
      using wake_flags_step(2) [OF Cons.prems(1)] by blast
    from Cons.IH [OF kept(1), of n] Cons.prems Suc
    consider "ts ! n - kept < PAN_WAKE_GAP_NS" | j where "j < n" "ts ! n - ts ! j < PAN_WAKE_GAP_NS" by auto
    then show ?thesis
    proof cases
      case 1
      with kept(2) consider "ts ! n - seen < PAN_WAKE_GAP_NS" | "ts ! n - now < PAN_WAKE_GAP_NS" by auto
      then show ?thesis by cases (auto simp: Suc intro: exI [of _ 0])
    next
      case 2
      then show ?thesis by (auto simp: Suc intro!: exI [of _ "Suc j"])
    qed
  qed
qed simp

definition quiet_maps :: bpf_maps where
  "quiet_maps = \<lparr>scratch = None, drops = Some 0, wake_last = Some 0, udp_seen = \<lambda>_. None, conn_seen = \<lambda>_. None,
     dns_seen = \<lambda>_. None, mem_seen = \<lambda>_. None, ring = []\<rparr>"

theorem wake_only_withheld_in_burst_witness:
  "\<not> wake_run [50000000, 60000000] quiet_maps ! 1 \<and> (\<exists>j<1. 60000000 - [50000000, 60000000] ! j < PAN_WAKE_GAP_NS)"
  using wake_only_withheld_in_burst [of quiet_maps 0 1 "[50000000, 60000000]"]
  by (simp add: quiet_maps_def wake_flags_def PAN_WAKE_GAP_NS_def)

section \<open>The argv capture\<close>

lemma and_3071:
  assumes "n < 3072"
  shows "n AND 3071 = (if 1024 \<le> n \<and> n < 2048 then n - 1024 else (n :: nat))"
proof -
  have "n AND 3071 = push_bit 10 (drop_bit 10 (n AND 3071)) + take_bit 10 (n AND 3071)"
    by (rule bits_ident [symmetric])
  also have "take_bit 10 (n AND 3071) = n mod 1024"
  proof -
    have "take_bit 10 (n AND 3071) = take_bit 10 n AND mask 10"
      by (simp add: take_bit_and mask_eq_exp_minus_1 take_bit_eq_mod [of 10 3071])
    then show ?thesis by (simp add: take_bit_eq_mask [symmetric] take_bit_eq_mod)
  qed
  also have "drop_bit 10 (n AND 3071) = (n div 1024) AND 2"
    using drop_bit_and [of 10 n 3071] drop_bit_eq_div [of 10 n] by simp
  also have "push_bit 10 ((n div 1024) AND 2) = 1024 * ((n div 1024) AND 2)"
    by (simp add: push_bit_eq_mult)
  finally have sum: "n AND 3071 = 1024 * ((n div 1024) AND 2) + n mod 1024" .
  have "n div 1024 < 3" using assms by simp
  then consider "n div 1024 = 0" | "n div 1024 = 1" | "n div 1024 = 2" by linarith
  then show ?thesis
  proof cases
    case 1 then show ?thesis using sum by (simp add: div_eq_0_iff)
  next
    case 2
    then have "n = 1024 + n mod 1024" using div_mult_mod_eq [of n 1024] by simp
    moreover have "n mod 1024 < 1024" by simp
    ultimately have "n < 2048" "1024 \<le> n" "n mod 1024 = n - 1024" by linarith+
    then show ?thesis using sum 2 by simp
  next
    case 3
    then have "n = 2048 + n mod 1024" using div_mult_mod_eq [of n 1024] by simp
    then have "2048 \<le> n" by linarith
    then show ?thesis using sum 3 \<open>n = 2048 + n mod 1024\<close> by simp
  qed
qed

definition argv_size :: "u64 \<Rightarrow> u64 \<Rightarrow> nat" where
  "argv_size arg_start arg_end = (if arg_start < arg_end then unat arg_end - unat arg_start else 0)"

text \<open>
  C32. How much of argv \<open>on_exec\<close> captures, exactly: nothing for an empty or reversed range, the
  first 3071 bytes with the truncation flag from 3072 bytes on, and all of it without the flag
  below, except between 1024 and 2047 bytes, where the mask with \<open>PAN_ARGS_LEN - 1 = 3071\<close>,
  which is not a power of two minus one, clears bit 10: there 1024 bytes fewer are captured and no
  flag tells the reader so.
\<close>

theorem exec_args_span_exact:
  "unat (fst (exec_args_span a b)) =
     (if 3072 \<le> argv_size a b then 3071
      else if 1024 \<le> argv_size a b \<and> argv_size a b < 2048 then argv_size a b - 1024 else argv_size a b) \<and>
   (snd (exec_args_span a b) \<longleftrightarrow> 3072 \<le> argv_size a b)"
proof -
  define len where "len = (if a < b then b - a else 0)"
  have len: "unat len = argv_size a b" by (auto simp: len_def argv_size_def unat_sub_if' word_less_nat_alt)
  then have big: "3072 \<le> len \<longleftrightarrow> 3072 \<le> argv_size a b" by (simp add: word_le_nat_alt)
  have span: "exec_args_span a b = (if 3072 \<le> len then (3071 AND 3071, True) else (len AND 3071, False))"
    by (simp add: exec_args_span_def len_def PAN_ARGS_LEN_def Let_def)
  show ?thesis
    using span big len and_3071 [of "argv_size a b"] by (auto simp: unsigned_and_eq)
qed

section \<open>Counters of a closing connection\<close>

text \<open>
  The byte counters reported when a connection closes never wrap: each is at most the kernel's
  counter and at most two below it (the sequence numbers of the SYN and the FIN), and a counter of
  zero stays zero.
\<close>

theorem close_counters_bounds:
  "case close_counters state dir acked received of (sent, got) \<Rightarrow>
     sent \<le> acked \<and> unat acked - unat sent \<le> 2 \<and> got \<le> received \<and> unat received - unat got \<le> 1"
proof -
  have dec: "x \<noteq> 0 \<Longrightarrow> unat (x - 1) = unat x - 1 \<and> 0 < unat x" for x :: u64
    by (simp add: unat_minus_one unat_gt_0)
  have dec2: "x \<noteq> 0 \<Longrightarrow> x - 1 \<noteq> 0 \<Longrightarrow> unat (x - 1 - 1) = unat x - 2" for x :: u64
    using dec [of x] dec [of "x - 1"] by simp
  show ?thesis
    using dec [of acked] dec [of received] dec [of "acked - 1"] dec2 [of acked]
    by (auto simp: close_counters_def Let_def word_le_nat_alt)
qed

end
