(* ===== verification/Json_Text.thy ===== *)
theory Json_Text
  imports Prelude "HOL-Library.Monad_Syntax"
begin

text \<open>
  The JSON writer, \<^verbatim>\<open>src/sensor/json.cpp\<close>: the UTF-8 check, the escaping of string bodies
  and the streaming \<open>json_writer\<close>. Text is a list of bytes, as in the source. The writer's
  \<open>first_\<close> vector is a stack with its back at the head of the list; a call that an assertion of
  the source forbids is \<open>None\<close>.
\<close>

definition ascii :: "string \<Rightarrow> byte list" where
  "ascii text = map (\<lambda>c. of_nat (of_char c)) text"

lemma ascii_append [simp]: "ascii (a @ b) = ascii a @ ascii b"
  by (simp add: ascii_def)

section \<open>UTF-8\<close>

fun continue_code :: "byte list \<Rightarrow> u32 \<Rightarrow> u32 option" where
  "continue_code [] code_point = Some code_point"
| "continue_code (b # bs) code_point =
     (if b AND 0xC0 \<noteq> 0x80 then None else continue_code bs (push_bit 6 code_point OR (ucast b AND 0x3F)))"

definition valid_utf8_sequence :: "byte list \<Rightarrow> nat" where
  "valid_utf8_sequence data =
     (let lead = hd data
      in if lead < 0x80 then 1
         else
           let (n, code_point) =
             (if lead AND 0xE0 = 0xC0 then (2, ucast lead AND 0x1F)
              else if lead AND 0xF0 = 0xE0 then (3, ucast lead AND 0x0F)
              else if lead AND 0xF8 = 0xF0 then (4, ucast lead AND 0x07)
              else (0, 0))
           in if n = 0 \<or> length data < n then 0
              else case continue_code (take (n - 1) (tl data)) code_point of
                     None \<Rightarrow> 0
                   | Some cp \<Rightarrow>
                       if (n = 2 \<and> cp < 0x80) \<or> (n = 3 \<and> cp < 0x800) \<or> (n = 4 \<and> (cp < 0x10000 \<or> 0x10FFFF < cp)) \<or>
                          (0xD800 \<le> cp \<and> cp \<le> 0xDFFF)
                       then 0 else n)"

section \<open>String bodies\<close>

definition plain_byte :: "byte \<Rightarrow> bool" where
  "plain_byte b \<longleftrightarrow> 0x20 \<le> b \<and> b < 0x7F \<and> b \<noteq> 0x22 \<and> b \<noteq> 0x5C"

definition hex_digit :: "byte \<Rightarrow> byte" where
  "hex_digit d = (if d < 10 then 0x30 + d else 0x57 + d)"

definition escape_byte :: "byte \<Rightarrow> byte list" where
  "escape_byte c =
     (if c = 0x22 then [0x5C, 0x22]
      else if c = 0x5C then [0x5C, 0x5C]
      else if c = 0x0A then [0x5C, 0x6E]
      else if c = 0x0D then [0x5C, 0x72]
      else if c = 0x09 then [0x5C, 0x74]
      else if c = 0x08 then [0x5C, 0x62]
      else if c = 0x0C then [0x5C, 0x66]
      else if c < 0x20 \<or> c = 0x7F then [0x5C, 0x75, 0x30, 0x30, hex_digit (drop_bit 4 c), hex_digit (c AND 0x0F)]
      else [c])"

definition replacement :: "byte list" where
  "replacement = [0xEF, 0xBF, 0xBD]"

function json_body_loop :: "byte list \<Rightarrow> byte list \<Rightarrow> bool \<Rightarrow> byte list \<times> bool" where
  "json_body_loop str out replaced =
     (if str = [] then (out, replaced)
      else
        let run = takeWhile plain_byte str
        in if run \<noteq> [] then json_body_loop (dropWhile plain_byte str) (out @ run) replaced
           else
             let c = hd str
             in if 0x80 \<le> c then
                  let n = valid_utf8_sequence str
                  in if n = 0 then json_body_loop (tl str) (out @ replacement) True
                     else json_body_loop (drop n str) (out @ take n str) replaced
                else json_body_loop (tl str) (out @ escape_byte c) replaced)"
  by pat_completeness auto
termination
proof (relation "measure (\<lambda>(str, out, replaced). length str)", goal_cases)
  case (2 str out replaced run)
  then have "plain_byte (hd str)" by (cases str) (auto split: if_splits)
  then have "dropWhile plain_byte str = dropWhile plain_byte (tl str)" using 2 by (cases str) auto
  moreover have "length (dropWhile plain_byte (tl str)) \<le> length (tl str)" by (rule length_dropWhile_le)
  ultimately show ?case using 2 by (cases str) auto
qed auto

declare json_body_loop.simps [simp del]

definition append_json_string_body :: "byte list \<Rightarrow> byte list \<Rightarrow> byte list \<times> bool" where
  "append_json_string_body out str = json_body_loop str out False"

section \<open>The writer\<close>

record json_writer =
  jw_out :: "byte list"
  jw_first :: "bool list"
  jw_after_key :: bool
  jw_replaced :: bool

definition json_writer_new :: json_writer where
  "json_writer_new = \<lparr>jw_out = [], jw_first = [], jw_after_key = False, jw_replaced = False\<rparr>"

definition separate :: "json_writer \<Rightarrow> json_writer" where
  "separate w =
     (if jw_after_key w then w\<lparr>jw_after_key := False\<rparr>
      else case jw_first w of
             [] \<Rightarrow> w
           | first # rest \<Rightarrow> w\<lparr>jw_out := (if first then jw_out w else jw_out w @ ascii '',''), jw_first := False # rest\<rparr>)"

definition put :: "byte list \<Rightarrow> json_writer \<Rightarrow> json_writer" where
  "put bs w = w\<lparr>jw_out := jw_out w @ bs\<rparr>"

definition begin_object :: "json_writer \<Rightarrow> json_writer" where
  "begin_object w = (let w1 = put (ascii ''{'') (separate w) in w1\<lparr>jw_first := True # jw_first w1\<rparr>)"

definition end_object :: "json_writer \<Rightarrow> json_writer option" where
  "end_object w =
     (if jw_first w = [] \<or> jw_after_key w then None
      else let w1 = put (ascii ''}'') w in Some (w1\<lparr>jw_first := tl (jw_first w1)\<rparr>))"

definition begin_array :: "json_writer \<Rightarrow> json_writer" where
  "begin_array w = (let w1 = put (ascii ''['') (separate w) in w1\<lparr>jw_first := True # jw_first w1\<rparr>)"

definition end_array :: "json_writer \<Rightarrow> json_writer option" where
  "end_array w =
     (if jw_first w = [] \<or> jw_after_key w then None
      else let w1 = put (ascii '']'') w in Some (w1\<lparr>jw_first := tl (jw_first w1)\<rparr>))"

definition put_body :: "byte list \<Rightarrow> json_writer \<Rightarrow> json_writer" where
  "put_body text w =
     (let (out, replaced) = append_json_string_body (jw_out w) text
      in w\<lparr>jw_out := out, jw_replaced := (jw_replaced w \<or> replaced)\<rparr>)"

definition jw_key :: "byte list \<Rightarrow> json_writer \<Rightarrow> json_writer option" where
  "jw_key name w =
     (if jw_after_key w then None
      else let w1 = put (ascii ''\":'') (put_body name (put (ascii ''\"'') (separate w)))
           in Some (w1\<lparr>jw_after_key := True\<rparr>))"

definition value_string :: "byte list \<Rightarrow> json_writer \<Rightarrow> json_writer" where
  "value_string text w = put (ascii ''\"'') (put_body text (put (ascii ''\"'') (separate w)))"

definition value_unsigned :: "u64 \<Rightarrow> json_writer \<Rightarrow> json_writer" where
  "value_unsigned number w = put (ascii (to_string (unat number))) (separate w)"

definition signed_text :: "int \<Rightarrow> string" where
  "signed_text i = (if i < 0 then CHR ''-'' # to_string (nat (- i)) else to_string (nat i))"

definition value_signed :: "u64 \<Rightarrow> json_writer \<Rightarrow> json_writer" where
  "value_signed number w = put (ascii (signed_text (sint number))) (separate w)"

definition value_bool :: "bool \<Rightarrow> json_writer \<Rightarrow> json_writer" where
  "value_bool flag w = put (ascii (if flag then ''true'' else ''false'')) (separate w)"

definition value_null :: "json_writer \<Rightarrow> json_writer" where
  "value_null w = put (ascii ''null'') (separate w)"

definition raw :: "byte list \<Rightarrow> json_writer \<Rightarrow> json_writer" where
  "raw json w = put json (separate w)"

definition field :: "byte list \<Rightarrow> (json_writer \<Rightarrow> json_writer) \<Rightarrow> json_writer \<Rightarrow> json_writer option" where
  "field name emit w = map_option emit (jw_key name w)"

end
