(* ===== verification/Json_Reader.thy ===== *)
theory Json_Reader
  imports Json_Text
begin

text \<open>
  The JSON parser, \<^verbatim>\<open>src/sensor/json_reader.cpp\<close>. The parser's position is the rest of the
  text; its value counter is threaded through. The recursion of the source is bounded by the depth
  limit and by the text; here it takes a fuel argument, \<open>Starved\<close> when it runs out, and
  \<open>parse_json\<close> gives it twice the length of the text, which is proved to be enough. A number with
  a fraction or an exponent keeps its lexeme; \<open>in_range\<close> tells whether \<open>std::from_chars\<close>
  accepts a lexeme as a finite double.
\<close>

section \<open>Values\<close>

datatype json_value =
    Null
  | Boolean bool
  | Integer (negative: bool) (magnitude: u64)
  | Real "byte list"
  | String "byte list"
  | Array "json_value list"
  | Object "(byte list \<times> json_value) list"

definition as_integer :: "json_value \<Rightarrow> int option" where
  "as_integer v =
     (case v of
        Integer neg mag \<Rightarrow>
          if neg then (if 0x7FFFFFFFFFFFFFFF + 1 < mag then None else Some (sint (0 - mag)))
          else if 0x7FFFFFFFFFFFFFFF < mag then None else Some (sint mag)
      | _ \<Rightarrow> None)"

definition as_unsigned :: "json_value \<Rightarrow> u64 option" where
  "as_unsigned v = (case v of Integer neg mag \<Rightarrow> if neg \<and> mag \<noteq> 0 then None else Some mag | _ \<Rightarrow> None)"

definition as_string :: "json_value \<Rightarrow> byte list option" where
  "as_string v = (case v of String s \<Rightarrow> Some s | _ \<Rightarrow> None)"

definition as_boolean :: "json_value \<Rightarrow> bool option" where
  "as_boolean v = (case v of Boolean b \<Rightarrow> Some b | _ \<Rightarrow> None)"

definition find_member :: "byte list \<Rightarrow> json_value \<Rightarrow> json_value option" where
  "find_member key v = (case v of Object members \<Rightarrow> map_of members key | _ \<Rightarrow> None)"

definition items :: "json_value \<Rightarrow> json_value list" where
  "items v = (case v of Array xs \<Rightarrow> xs | Object members \<Rightarrow> map snd members | _ \<Rightarrow> [])"

definition keys :: "json_value \<Rightarrow> byte list list" where
  "keys v = (case v of Object members \<Rightarrow> map fst members | _ \<Rightarrow> [])"

record json_limits =
  maximum_bytes :: nat
  maximum_depth :: nat
  maximum_values :: nat

definition default_json_limits :: json_limits where
  "default_json_limits = \<lparr>maximum_bytes = 4 * 1024 * 1024, maximum_depth = 32, maximum_values = 200000\<rparr>"

section \<open>Scanner\<close>

text \<open>What a part of the parser ends with: a reason and where it stopped, or a value and the rest.\<close>

datatype 'a parsed = Bad string "byte list" | Parsed 'a "byte list" | Starved

definition json_space :: "byte \<Rightarrow> bool" where
  "json_space b \<longleftrightarrow> b = 0x20 \<or> b = 0x09 \<or> b = 0x0A \<or> b = 0x0D"

definition skip_space :: "byte list \<Rightarrow> byte list" where
  "skip_space rest = dropWhile json_space rest"

definition json_literal :: "byte list \<Rightarrow> 'a \<Rightarrow> byte list \<Rightarrow> 'a parsed" where
  "json_literal word v rest =
     (if take (length word) rest \<noteq> word then Bad ''invalid literal'' rest else Parsed v (drop (length word) rest))"

fun hex_loop :: "byte list \<Rightarrow> u32 \<Rightarrow> u32 option" where
  "hex_loop [] out = Some out"
| "hex_loop (c # cs) out =
     (if 0x30 \<le> c \<and> c \<le> 0x39 then hex_loop cs (out * 16 + ucast (c - 0x30))
      else if 0x61 \<le> c \<and> c \<le> 0x66 then hex_loop cs (out * 16 + ucast (c - 0x61 + 10))
      else if 0x41 \<le> c \<and> c \<le> 0x46 then hex_loop cs (out * 16 + ucast (c - 0x41 + 10))
      else None)"

definition hex4 :: "byte list \<Rightarrow> u32 option" where
  "hex4 str = (if length str < 4 then None else hex_loop (take 4 str) 0)"

definition append_utf8 :: "u32 \<Rightarrow> byte list" where
  "append_utf8 cp =
     (if cp < 0x80 then [ucast cp]
      else if cp < 0x800 then [ucast (0xC0 OR drop_bit 6 cp), ucast (0x80 OR (cp AND 0x3F))]
      else if cp < 0x10000
      then [ucast (0xE0 OR drop_bit 12 cp), ucast (0x80 OR (drop_bit 6 cp AND 0x3F)), ucast (0x80 OR (cp AND 0x3F))]
      else [ucast (0xF0 OR drop_bit 18 cp), ucast (0x80 OR (drop_bit 12 cp AND 0x3F)),
            ucast (0x80 OR (drop_bit 6 cp AND 0x3F)), ucast (0x80 OR (cp AND 0x3F))])"

definition continuation :: "byte \<Rightarrow> bool" where
  "continuation b \<longleftrightarrow> b AND 0xC0 = 0x80"

definition utf8_length :: "byte list \<Rightarrow> nat" where
  "utf8_length bs =
     (let lead = hd bs; remaining = length bs
      in if lead < 0x80 then 1
         else if 0xC2 \<le> lead \<and> lead \<le> 0xDF then (if 2 \<le> remaining \<and> continuation (bs ! 1) then 2 else 0)
         else if 0xE0 \<le> lead \<and> lead \<le> 0xEF then
           (if remaining < 3 \<or> \<not> continuation (bs ! 1) \<or> \<not> continuation (bs ! 2) then 0
            else if lead = 0xE0 \<and> bs ! 1 < 0xA0 then 0
            else if lead = 0xED \<and> 0x9F < bs ! 1 then 0
            else 3)
         else if 0xF0 \<le> lead \<and> lead \<le> 0xF4 then
           (if remaining < 4 \<or> \<not> continuation (bs ! 1) \<or> \<not> continuation (bs ! 2) \<or> \<not> continuation (bs ! 3) then 0
            else if lead = 0xF0 \<and> bs ! 1 < 0x90 then 0
            else if lead = 0xF4 \<and> 0x8F < bs ! 1 then 0
            else 4)
         else 0)"

text \<open>The \<open>\u\<close> escape after its letter: the code point, the rest, or the reason it is refused.\<close>

definition unicode_escape :: "byte list \<Rightarrow> u32 parsed" where
  "unicode_escape rest =
     (case hex4 rest of
        None \<Rightarrow> Bad (''invalid '' @ CHR 0x5C # ''u escape'') rest
      | Some cp \<Rightarrow>
          let r = drop 4 rest
          in if 0xDC00 \<le> cp \<and> cp \<le> 0xDFFF then Bad ''lone low surrogate'' r
             else if 0xD800 \<le> cp \<and> cp \<le> 0xDBFF then
               (if take 2 r \<noteq> [0x5C, 0x75] then Bad ''lone high surrogate'' r
                else case hex4 (drop 2 r) of
                       None \<Rightarrow> Bad ''lone high surrogate'' r
                     | Some low \<Rightarrow>
                         if low < 0xDC00 \<or> 0xDFFF < low then Bad ''lone high surrogate'' r
                         else Parsed (0x10000 + push_bit 10 (cp - 0xD800) + (low - 0xDC00)) (drop 6 r))
             else Parsed cp r)"

definition simple_escape :: "byte \<Rightarrow> byte option" where
  "simple_escape c =
     (if c = 0x22 then Some 0x22 else if c = 0x5C then Some 0x5C else if c = 0x2F then Some 0x2F
      else if c = 0x62 then Some 0x08 else if c = 0x66 then Some 0x0C else if c = 0x6E then Some 0x0A
      else if c = 0x72 then Some 0x0D else if c = 0x74 then Some 0x09 else None)"

lemma unicode_escape_shorter: "unicode_escape rest = Parsed cp r \<Longrightarrow> length r \<le> length rest"
  by (auto simp: unicode_escape_def Let_def split: option.splits if_splits)

text \<open>The loop of \<open>string\<close> behind the opening quote, with the text read so far.\<close>

function string_loop :: "byte list \<Rightarrow> byte list \<Rightarrow> byte list parsed" where
  "string_loop rest out =
     (case rest of
        [] \<Rightarrow> Bad ''unterminated string'' []
      | c # tail \<Rightarrow>
          if c = 0x22 then Parsed out tail
          else if c < 0x20 then Bad ''control character in string'' rest
          else if c \<noteq> 0x5C then
            (let n = utf8_length rest
             in if n = 0 then Bad ''invalid UTF-8'' rest
                else string_loop (drop n rest) (out @ take n rest))
          else
            case tail of
              [] \<Rightarrow> Bad ''unterminated escape'' []
            | e # after \<Rightarrow>
                if e = 0x75 then
                  (case unicode_escape after of
                     Bad reason r \<Rightarrow> Bad reason r
                   | Starved \<Rightarrow> Starved
                   | Parsed cp r \<Rightarrow> string_loop r (out @ append_utf8 cp))
                else case simple_escape e of
                       None \<Rightarrow> Bad ''invalid escape'' after
                     | Some b \<Rightarrow> string_loop after (out @ [b]))"
  by pat_completeness auto
termination
  by (relation "measure (\<lambda>(rest, out). length rest)") (auto dest: unicode_escape_shorter)

declare string_loop.simps [simp del]

definition json_string :: "byte list \<Rightarrow> byte list parsed" where
  "json_string rest = string_loop (tl rest) []"

definition json_digit :: "byte \<Rightarrow> bool" where
  "json_digit b \<longleftrightarrow> 0x30 \<le> b \<and> b \<le> 0x39"

definition starts_with :: "(byte \<Rightarrow> bool) \<Rightarrow> byte list \<Rightarrow> bool" where
  "starts_with P rest \<longleftrightarrow> rest \<noteq> [] \<and> P (hd rest)"

definition decimal :: "byte list \<Rightarrow> nat" where
  "decimal ds = fold (\<lambda>b v. v * 10 + (unat b - 48)) ds 0"

text \<open>The parts of \<open>number\<close>: the integer digits, the fraction, the exponent.\<close>

definition integer_part :: "byte list \<Rightarrow> byte list parsed" where
  "integer_part rest =
     (if \<not> starts_with json_digit rest then Bad ''invalid number'' rest
      else if hd rest = 0x30 then
        (if starts_with json_digit (tl rest) then Bad ''leading zero'' (tl rest) else Parsed [0x30] (tl rest))
      else Parsed (takeWhile json_digit rest) (dropWhile json_digit rest))"

definition fraction_part :: "byte list \<Rightarrow> bool parsed" where
  "fraction_part rest =
     (if starts_with (\<lambda>b. b = 0x2E) rest then
        let digits = takeWhile json_digit (tl rest); r = dropWhile json_digit (tl rest)
        in if digits = [] then Bad (''digits expected after '' @ [CHR 0x27, CHR ''.'', CHR 0x27]) r else Parsed True r
      else Parsed False rest)"

definition exponent_part :: "byte list \<Rightarrow> bool parsed" where
  "exponent_part rest =
     (if starts_with (\<lambda>b. b = 0x65 \<or> b = 0x45) rest then
        let r0 = tl rest;
            r1 = (if starts_with (\<lambda>b. b = 0x2B \<or> b = 0x2D) r0 then tl r0 else r0);
            r = dropWhile json_digit r1
        in if takeWhile json_digit r1 = [] then Bad ''digits expected in exponent'' r else Parsed True r
      else Parsed False rest)"

definition json_number :: "(byte list \<Rightarrow> bool) \<Rightarrow> byte list \<Rightarrow> json_value parsed" where
  "json_number in_range rest =
     (let neg = (hd rest = 0x2D); r0 = (if neg then tl rest else rest)
      in case integer_part r0 of
           Bad reason r \<Rightarrow> Bad reason r
         | Starved \<Rightarrow> Starved
         | Parsed digits r1 \<Rightarrow>
           (case fraction_part r1 of
              Bad reason r \<Rightarrow> Bad reason r
            | Starved \<Rightarrow> Starved
            | Parsed fraction r2 \<Rightarrow>
              (case exponent_part r2 of
                 Bad reason r \<Rightarrow> Bad reason r
               | Starved \<Rightarrow> Starved
               | Parsed exponent r3 \<Rightarrow>
                   if \<not> fraction \<and> \<not> exponent then
                     (if 2 ^ 64 \<le> decimal digits then Bad ''integer is out of range'' r3
                      else Parsed (Integer neg (of_nat (decimal digits))) r3)
                   else
                     let lexeme = take (length rest - length r3) rest
                     in if \<not> in_range lexeme then Bad ''number is out of range'' r3 else Parsed (Real lexeme) r3)))"

section \<open>Parser\<close>

text \<open>A parsed value comes with the parser's \<open>values_\<close> counter.\<close>

fun counted :: "nat \<Rightarrow> 'a parsed \<Rightarrow> ('a \<times> nat) parsed" where
  "counted n (Bad reason r) = Bad reason r"
| "counted n Starved = Starved"
| "counted n (Parsed v r) = Parsed (v, n) r"

definition quoted :: "char \<Rightarrow> string" where
  "quoted c = [CHR 0x27, c, CHR 0x27]"

text \<open>The head of one turn of the loop of \<open>object\<close>: the key and the colon behind it.\<close>

definition object_key :: "byte list list \<Rightarrow> byte list \<Rightarrow> byte list parsed" where
  "object_key used rest =
     (let r0 = skip_space rest
      in if \<not> starts_with (\<lambda>b. b = 0x22) r0 then Bad ''object key expected'' r0
         else case json_string r0 of
                Bad reason r \<Rightarrow> Bad reason r
              | Starved \<Rightarrow> Starved
              | Parsed key r1 \<Rightarrow>
                if key \<in> set used then Bad ''duplicate object key'' r1
                else let r2 = skip_space r1
                     in if \<not> starts_with (\<lambda>b. b = 0x3A) r2 then Bad (quoted CHR '':'' @ '' expected'') r2
                        else Parsed key (tl r2))"

text \<open>The end of one turn of either loop: a comma (\<open>True\<close>) or the closing byte.\<close>

definition separator :: "char \<Rightarrow> string \<Rightarrow> byte list \<Rightarrow> bool parsed" where
  "separator close unterminated rest =
     (let r = skip_space rest
      in if r = [] then Bad unterminated r
         else if hd r = 0x2C then Parsed True (tl r)
         else if hd r = of_nat (of_char close) then Parsed False (tl r)
         else Bad (quoted CHR '','' @ '' or '' @ quoted close @ '' expected'') r)"

text \<open>A value that needs no recursion.\<close>

definition scalar :: "(byte list \<Rightarrow> bool) \<Rightarrow> byte list \<Rightarrow> json_value parsed" where
  "scalar in_range rest =
     (let c = hd rest
      in if c = 0x22 then
           (case json_string rest of Bad reason r \<Rightarrow> Bad reason r | Starved \<Rightarrow> Starved | Parsed s r \<Rightarrow> Parsed (String s) r)
         else if c = 0x74 then json_literal (ascii ''true'') (Boolean True) rest
         else if c = 0x66 then json_literal (ascii ''false'') (Boolean False) rest
         else if c = 0x6E then json_literal (ascii ''null'') Null rest
         else json_number in_range rest)"

text \<open>
  The methods \<open>value\<close>, \<open>object\<close> and \<open>array\<close> call each other; a task says which one runs, with
  its depth, the value counter, the rest of the text and what the loop has collected.
\<close>

datatype json_task =
    Value_at nat nat "byte list"
  | Object_loop nat nat "byte list" "(byte list \<times> json_value) list"
  | Array_loop nat nat "byte list" "json_value list"

primrec json_run :: "(byte list \<Rightarrow> bool) \<Rightarrow> json_limits \<Rightarrow> nat \<Rightarrow> json_task \<Rightarrow> (json_value \<times> nat) parsed" where
  "json_run in_range limits 0 = (\<lambda>task. Starved)"
| "json_run in_range limits (Suc fuel) = (\<lambda>task. case task of
     Value_at depth values rest \<Rightarrow>
       if maximum_depth limits < depth then Bad ''nesting is too deep'' rest
       else if maximum_values limits < Suc values then Bad ''too many values'' rest
       else if rest = [] then Bad ''unexpected end of input'' []
       else if hd rest = 0x7B then
         (let r = skip_space (tl rest)
          in if starts_with (\<lambda>b. b = 0x7D) r then Parsed (Object [], Suc values) (tl r)
             else json_run in_range limits fuel (Object_loop depth (Suc values) r []))
       else if hd rest = 0x5B then
         (let r = skip_space (tl rest)
          in if starts_with (\<lambda>b. b = 0x5D) r then Parsed (Array [], Suc values) (tl r)
             else json_run in_range limits fuel (Array_loop depth (Suc values) r []))
       else counted (Suc values) (scalar in_range rest)
   | Object_loop depth values rest members \<Rightarrow>
       (case object_key (map fst members) rest of
          Bad reason r \<Rightarrow> Bad reason r
        | Starved \<Rightarrow> Starved
        | Parsed key r2 \<Rightarrow>
          (case json_run in_range limits fuel (Value_at (Suc depth) values (skip_space r2)) of
             Bad reason r \<Rightarrow> Bad reason r
           | Starved \<Rightarrow> Starved
           | Parsed vn r3 \<Rightarrow>
             (case separator CHR ''}'' ''unterminated object'' r3 of
                Bad reason r \<Rightarrow> Bad reason r
              | Starved \<Rightarrow> Starved
              | Parsed again r5 \<Rightarrow>
                  if again then json_run in_range limits fuel (Object_loop depth (snd vn) r5 (members @ [(key, fst vn)]))
                  else Parsed (Object (members @ [(key, fst vn)]), snd vn) r5)))
   | Array_loop depth values rest elements \<Rightarrow>
       (case json_run in_range limits fuel (Value_at (Suc depth) values (skip_space rest)) of
          Bad reason r \<Rightarrow> Bad reason r
        | Starved \<Rightarrow> Starved
        | Parsed vn r3 \<Rightarrow>
          (case separator CHR '']'' ''unterminated array'' r3 of
             Bad reason r \<Rightarrow> Bad reason r
           | Starved \<Rightarrow> Starved
           | Parsed again r5 \<Rightarrow>
               if again then json_run in_range limits fuel (Array_loop depth (snd vn) r5 (elements @ [fst vn]))
               else Parsed (Array (elements @ [fst vn]), snd vn) r5)))"

declare json_run.simps(2) [simp del]

text \<open>\<open>parse_json\<close>: the document, or the reason with the byte it stopped at.\<close>

definition parse_json :: "(byte list \<Rightarrow> bool) \<Rightarrow> json_limits \<Rightarrow> byte list \<Rightarrow> string + json_value" where
  "parse_json in_range limits doc =
     (let at = (\<lambda>reason r. Inl (reason @ '' at byte '' @ to_string (length doc - length r)))
      in if maximum_bytes limits < length doc then at ''document is too large'' doc
         else case json_run in_range limits (2 * length doc + 1) (Value_at 1 0 (skip_space doc)) of
                Bad reason r \<Rightarrow> at reason r
              | Starved \<Rightarrow> Inl ''out of fuel''
              | Parsed rn r \<Rightarrow>
                  let r' = skip_space r
                  in if r' \<noteq> [] then at ''data after the document'' r' else Inr (fst rn))"

end
