(* ===== verification/Json_Properties.thy ===== *)
theory Json_Properties
  imports Json_Reader
begin

text \<open>
  What the JSON writer and reader promise: the two UTF-8 checks of the code agree, every string
  body the writer emits reads back as the string it stands for, parsing always ends with a value
  or a reason, and what it accepts respects the configured limits and has no duplicate keys.
\<close>

section \<open>The parser consumes what it accepts\<close>

lemma string_loop_shorter: "string_loop rest out = Parsed s r \<Longrightarrow> length r < length rest"
proof (induction rest out rule: string_loop.induct)
  case (1 rest out)
  show ?case
  proof (cases rest)
    case Nil
    then show ?thesis using "1.prems" by (simp add: string_loop.simps)
  next
    case (Cons c tail)
    consider "c = 0x22" | "c \<noteq> 0x22" "c < 0x20" | "c \<noteq> 0x22" "\<not> c < 0x20" "c \<noteq> 0x5C" | "c = 0x5C" by fastforce
    then show ?thesis
    proof cases
      case 1
      then show ?thesis using "1.prems" Cons by (simp add: string_loop.simps)
    next
      case 2
      then show ?thesis using "1.prems" Cons by (simp add: string_loop.simps)
    next
      case 3
      then show ?thesis
        using "1.prems" "1.IH"(1) [OF Cons 3(1,2,3) refl] Cons
        by (subst (asm) string_loop.simps) (auto simp: Let_def split: if_splits)
    next
      case 4
      then show ?thesis
        using "1.prems" "1.IH"(2) [OF Cons] "1.IH"(3) [OF Cons] Cons
        by (subst (asm) string_loop.simps)
          (force split: list.splits parsed.splits option.splits if_splits dest: unicode_escape_shorter)
    qed
  qed
qed

lemma string_loop_not_starved: "string_loop rest out \<noteq> Starved"
proof (induction rest out rule: string_loop.induct)
  case (1 rest out)
  have "unicode_escape x \<noteq> Starved" for x
    by (auto simp: unicode_escape_def Let_def split: option.split)
  with 1 show ?case
    by (subst string_loop.simps) (auto simp: Let_def split: list.split parsed.split option.split)
qed

lemma json_string_shorter: "json_string rest = Parsed s r \<Longrightarrow> rest \<noteq> [] \<Longrightarrow> length r < length rest"
  using string_loop_shorter [of "tl rest" "[]" s r] by (cases rest) (auto simp: json_string_def)

lemma json_string_not_starved [simp]: "json_string rest \<noteq> Starved"
  by (simp add: json_string_def string_loop_not_starved)

lemma skip_space_shorter: "length (skip_space rest) \<le> length rest"
  by (simp add: skip_space_def length_dropWhile_le)

lemma json_literal_shorter: "json_literal word v rest = Parsed x r \<Longrightarrow> word \<noteq> [] \<Longrightarrow> length r < length rest"
  by (cases rest; cases word) (auto simp: json_literal_def split: if_splits)

lemma integer_part_shorter: "integer_part rest = Parsed x r \<Longrightarrow> length r < length rest"
proof -
  assume *: "integer_part rest = Parsed x r"
  then obtain c tail where rest: "rest = c # tail" "json_digit c"
    by (cases rest) (auto simp: integer_part_def starts_with_def split: if_splits)
  then show ?thesis
    using * length_dropWhile_le [of json_digit tail]
    by (auto simp: integer_part_def split: if_splits)
qed

lemma fraction_part_shorter: "fraction_part rest = Parsed x r \<Longrightarrow> length r \<le> length rest"
  using length_dropWhile_le [of json_digit "tl rest"]
  by (auto simp: fraction_part_def Let_def split: if_splits)

lemma exponent_part_shorter: "exponent_part rest = Parsed x r \<Longrightarrow> length r \<le> length rest"
  using length_dropWhile_le [of json_digit "tl rest"] length_dropWhile_le [of json_digit "tl (tl rest)"]
  by (auto simp: exponent_part_def Let_def split: if_splits)

lemma json_number_shorter: "json_number in_range rest = Parsed x r \<Longrightarrow> length r < length rest"
  by (auto simp: json_number_def Let_def split: parsed.splits if_splits
      dest!: integer_part_shorter fraction_part_shorter exponent_part_shorter)

lemma number_parts_not_starved [simp]:
  "integer_part rest \<noteq> Starved" "fraction_part rest \<noteq> Starved" "exponent_part rest \<noteq> Starved"
  by (simp_all add: integer_part_def fraction_part_def exponent_part_def Let_def)

lemma json_number_not_starved [simp]: "json_number in_range rest \<noteq> Starved"
  by (simp add: json_number_def Let_def split: parsed.split)

lemma scalar_shorter: "scalar in_range rest = Parsed v r \<Longrightarrow> rest \<noteq> [] \<Longrightarrow> length r < length rest"
  by (auto simp: scalar_def Let_def ascii_def split: parsed.splits if_splits
      dest: json_string_shorter json_literal_shorter json_number_shorter)

lemma scalar_not_starved [simp]: "scalar in_range rest \<noteq> Starved"
  by (auto simp: scalar_def Let_def json_literal_def split: parsed.split)

lemma counted_Parsed: "counted n p = Parsed vn r \<longleftrightarrow> p = Parsed (fst vn) r \<and> snd vn = n"
  by (cases p; cases vn) auto

lemma counted_Starved [simp]: "counted n p = Starved \<longleftrightarrow> p = Starved"
  by (cases p) auto

lemma object_key_shorter:
  assumes "object_key used rest = Parsed key r"
  shows "length r < length rest"
proof -
  from assms obtain r1 where r1: "json_string (skip_space rest) = Parsed key r1" and "skip_space rest \<noteq> []"
    and r: "r = tl (skip_space r1)"
    by (auto simp: object_key_def Let_def starts_with_def split: parsed.splits if_splits)
  then have "length r1 < length rest"
    using json_string_shorter skip_space_shorter [of rest] by fastforce
  then show ?thesis using r skip_space_shorter [of r1] by simp
qed

lemma object_key_not_starved [simp]: "object_key used rest \<noteq> Starved"
  by (auto simp: object_key_def Let_def split: parsed.split)

lemma object_key_fresh: "object_key used rest = Parsed key r \<Longrightarrow> key \<notin> set used"
  by (auto simp: object_key_def Let_def split: parsed.splits if_splits)

lemma separator_shorter: "separator c u rest = Parsed b r \<Longrightarrow> length r < length rest"
  using skip_space_shorter [of rest] by (cases "skip_space rest") (auto simp: separator_def Let_def split: if_splits)

lemma separator_not_starved [simp]: "separator c u rest \<noteq> Starved"
  by (simp add: separator_def Let_def)

section \<open>One step of the parser\<close>

fun task_rest :: "json_task \<Rightarrow> byte list" where
  "task_rest (Value_at depth values rest) = rest"
| "task_rest (Object_loop depth values rest members) = rest"
| "task_rest (Array_loop depth values rest elements) = rest"

text \<open>How a task ends, by rule: the parser's accepting runs as a relation.\<close>

inductive accepts :: "(byte list \<Rightarrow> bool) \<Rightarrow> json_limits \<Rightarrow> json_task \<Rightarrow> json_value \<Rightarrow> nat \<Rightarrow> byte list \<Rightarrow> bool"
  for in_range limits where
  empty_object: "depth \<le> maximum_depth limits \<Longrightarrow> Suc n \<le> maximum_values limits \<Longrightarrow>
    skip_space rest = 0x7D # r \<Longrightarrow> accepts in_range limits (Value_at depth n (0x7B # rest)) (Object []) (Suc n) r"
| empty_array: "depth \<le> maximum_depth limits \<Longrightarrow> Suc n \<le> maximum_values limits \<Longrightarrow>
    skip_space rest = 0x5D # r \<Longrightarrow> accepts in_range limits (Value_at depth n (0x5B # rest)) (Array []) (Suc n) r"
| object: "depth \<le> maximum_depth limits \<Longrightarrow> Suc n \<le> maximum_values limits \<Longrightarrow>
    accepts in_range limits (Object_loop depth (Suc n) (skip_space rest) []) v m r \<Longrightarrow>
    accepts in_range limits (Value_at depth n (0x7B # rest)) v m r"
| array: "depth \<le> maximum_depth limits \<Longrightarrow> Suc n \<le> maximum_values limits \<Longrightarrow>
    accepts in_range limits (Array_loop depth (Suc n) (skip_space rest) []) v m r \<Longrightarrow>
    accepts in_range limits (Value_at depth n (0x5B # rest)) v m r"
| scalar: "depth \<le> maximum_depth limits \<Longrightarrow> Suc n \<le> maximum_values limits \<Longrightarrow> rest \<noteq> [] \<Longrightarrow>
    scalar in_range rest = Parsed v r \<Longrightarrow> hd rest \<noteq> 0x7B \<Longrightarrow> hd rest \<noteq> 0x5B \<Longrightarrow>
    accepts in_range limits (Value_at depth n rest) v (Suc n) r"
| member_last: "object_key (map fst members) rest = Parsed key r2 \<Longrightarrow>
    accepts in_range limits (Value_at (Suc depth) n (skip_space r2)) v m r3 \<Longrightarrow>
    separator CHR ''}'' ''unterminated object'' r3 = Parsed False r \<Longrightarrow>
    accepts in_range limits (Object_loop depth n rest members) (Object (members @ [(key, v)])) m r"
| member_more: "object_key (map fst members) rest = Parsed key r2 \<Longrightarrow>
    accepts in_range limits (Value_at (Suc depth) n (skip_space r2)) v m r3 \<Longrightarrow>
    separator CHR ''}'' ''unterminated object'' r3 = Parsed True r5 \<Longrightarrow>
    accepts in_range limits (Object_loop depth m r5 (members @ [(key, v)])) v' m' r \<Longrightarrow>
    accepts in_range limits (Object_loop depth n rest members) v' m' r"
| element_last: "accepts in_range limits (Value_at (Suc depth) n (skip_space rest)) v m r3 \<Longrightarrow>
    separator CHR '']'' ''unterminated array'' r3 = Parsed False r \<Longrightarrow>
    accepts in_range limits (Array_loop depth n rest elements) (Array (elements @ [v])) m r"
| element_more: "accepts in_range limits (Value_at (Suc depth) n (skip_space rest)) v m r3 \<Longrightarrow>
    separator CHR '']'' ''unterminated array'' r3 = Parsed True r5 \<Longrightarrow>
    accepts in_range limits (Array_loop depth m r5 (elements @ [v])) v' m' r \<Longrightarrow>
    accepts in_range limits (Array_loop depth n rest elements) v' m' r"

lemma json_run_accepts:
  "json_run in_range limits fuel task = Parsed vn r \<Longrightarrow> accepts in_range limits task (fst vn) (snd vn) r"
proof (induction fuel arbitrary: task vn r)
  case (Suc fuel)
  show ?case
  proof (cases task)
    case (Value_at depth n rest)
    then show ?thesis
      using Suc by (cases rest)
        (auto simp: json_run.simps(2) Let_def starts_with_def counted_Parsed not_less split: if_splits
          intro: accepts.intros, (metis accepts.intros list.collapse)+)
  next
    case (Object_loop depth n rest members)
    with Suc.prems obtain key r2 vm r3 again r5 where
      key: "object_key (map fst members) rest = Parsed key r2"
      and val: "json_run in_range limits fuel (Value_at (Suc depth) n (skip_space r2)) = Parsed vm r3"
      and sep: "separator CHR ''}'' ''unterminated object'' r3 = Parsed again r5"
      and fin: "(if again then json_run in_range limits fuel (Object_loop depth (snd vm) r5 (members @ [(key, fst vm)]))
                 else Parsed (Object (members @ [(key, fst vm)]), snd vm) r5) = Parsed vn r"
      by (auto simp: json_run.simps(2) split: parsed.splits)
    note accepted = Suc.IH [OF val]
    show ?thesis
    proof (cases again)
      case True
      with fin have "accepts in_range limits (Object_loop depth (snd vm) r5 (members @ [(key, fst vm)])) (fst vn) (snd vn) r"
        by (intro Suc.IH) simp
      with key accepted sep True show ?thesis by (auto simp: Object_loop intro: member_more)
    next
      case False
      with key accepted sep fin show ?thesis by (auto simp: Object_loop intro: member_last)
    qed
  next
    case (Array_loop depth n rest elements)
    with Suc.prems obtain vm r3 again r5 where
      val: "json_run in_range limits fuel (Value_at (Suc depth) n (skip_space rest)) = Parsed vm r3"
      and sep: "separator CHR '']'' ''unterminated array'' r3 = Parsed again r5"
      and fin: "(if again then json_run in_range limits fuel (Array_loop depth (snd vm) r5 (elements @ [fst vm]))
                 else Parsed (Array (elements @ [fst vm]), snd vm) r5) = Parsed vn r"
      by (auto simp: json_run.simps(2) split: parsed.splits)
    note accepted = Suc.IH [OF val]
    show ?thesis
    proof (cases again)
      case True
      with fin have "accepts in_range limits (Array_loop depth (snd vm) r5 (elements @ [fst vm])) (fst vn) (snd vn) r"
        by (intro Suc.IH) simp
      with accepted sep True show ?thesis by (auto simp: Array_loop intro: element_more)
    next
      case False
      with accepted sep fin show ?thesis by (auto simp: Array_loop intro: element_last)
    qed
  qed
qed simp

lemma accepts_shorter: "accepts in_range limits task v n r \<Longrightarrow> length r < length (task_rest task)"
proof (induction rule: accepts.induct)
  case (scalar depth n rest v r)
  then show ?case by (simp add: scalar_shorter)
next
  case (object depth n rest v m r)
  then show ?case using skip_space_shorter [of rest] by simp
next
  case (array depth n rest v m r)
  then show ?case using skip_space_shorter [of rest] by simp
next
  case (empty_object depth n rest r)
  then show ?case using skip_space_shorter [of rest] by simp
next
  case (empty_array depth n rest r)
  then show ?case using skip_space_shorter [of rest] by simp
next
  case (member_last members rest key r2 depth n v m r3 r)
  then show ?case
    using object_key_shorter separator_shorter [of "CHR ''}''"] skip_space_shorter [of r2] by fastforce
next
  case (member_more members rest key r2 depth n v m r3 r5 v' m' r)
  then show ?case
    using object_key_shorter separator_shorter [of "CHR ''}''"] skip_space_shorter [of r2] by fastforce
next
  case (element_last depth n rest v m r3 r elements)
  then show ?case using separator_shorter [of "CHR '']''"] skip_space_shorter [of rest] by fastforce
next
  case (element_more depth n rest v m r3 r5 elements v' m' r)
  then show ?case using separator_shorter [of "CHR '']''"] skip_space_shorter [of rest] by fastforce
qed

section \<open>Parsing ends\<close>

lemmas json_run_shorter = accepts_shorter [OF json_run_accepts]

fun enough :: "json_task \<Rightarrow> nat" where
  "enough (Value_at depth values rest) = 2 * length rest + 1"
| "enough (Object_loop depth values rest members) = 2 * length rest + 2"
| "enough (Array_loop depth values rest elements) = 2 * length rest + 2"

lemma json_run_fuel: "enough task \<le> fuel \<Longrightarrow> json_run in_range limits fuel task \<noteq> Starved"
proof (induction fuel arbitrary: task)
  case 0
  then show ?case by (cases task) auto
next
  case (Suc fuel)
  show ?case
  proof (cases task)
    case (Value_at depth n rest)
    have "2 * length (skip_space (tl rest)) + 2 \<le> fuel" if "rest \<noteq> []"
      using Suc.prems Value_at that skip_space_shorter [of "tl rest"] by (cases rest) auto
    then show ?thesis using Suc.IH Value_at by (simp add: json_run.simps(2) Let_def)
  next
    case (Object_loop depth n rest members)
    show ?thesis
    proof (cases "object_key (map fst members) rest")
      case (Parsed key r2)
      then have r2: "length (skip_space r2) < length rest"
        using object_key_shorter skip_space_shorter [of r2] by (meson le_less_trans)
      then have val: "json_run in_range limits fuel (Value_at (Suc depth) n (skip_space r2)) \<noteq> Starved"
        using Suc Object_loop by (intro Suc.IH) simp
      have "json_run in_range limits fuel (Object_loop depth m r5 ms) \<noteq> Starved"
        if "json_run in_range limits fuel (Value_at (Suc depth) n (skip_space r2)) = Parsed vm r3"
          "separator CHR ''}'' ''unterminated object'' r3 = Parsed b r5" for vm r3 b r5 m ms
        using json_run_shorter [OF that(1)] separator_shorter [OF that(2)] r2 Suc.prems Object_loop
        by (intro Suc.IH) simp
      then show ?thesis using Parsed val Object_loop by (auto simp: json_run.simps(2) split: parsed.split)
    qed (use Object_loop in \<open>simp_all add: json_run.simps(2)\<close>)
  next
    case (Array_loop depth n rest elements)
    have r2: "length (skip_space rest) \<le> length rest" by (rule skip_space_shorter)
    then have val: "json_run in_range limits fuel (Value_at (Suc depth) n (skip_space rest)) \<noteq> Starved"
      using Suc Array_loop by (intro Suc.IH) simp
    have "json_run in_range limits fuel (Array_loop depth m r5 es) \<noteq> Starved"
      if "json_run in_range limits fuel (Value_at (Suc depth) n (skip_space rest)) = Parsed vm r3"
        "separator CHR '']'' ''unterminated array'' r3 = Parsed b r5" for vm r3 b r5 m es
      using json_run_shorter [OF that(1)] separator_shorter [OF that(2)] r2 Suc.prems Array_loop
      by (intro Suc.IH) simp
    then show ?thesis using val Array_loop by (auto simp: json_run.simps(2) split: parsed.split)
  qed
qed

lemma parse_fuel: "json_run in_range limits (2 * length doc + 1) (Value_at 1 0 (skip_space doc)) \<noteq> Starved"
  using skip_space_shorter [of doc] by (intro json_run_fuel) simp

section \<open>What is accepted\<close>

fun json_depth :: "json_value \<Rightarrow> nat" where
  "json_depth (Array xs) = Suc (foldr max (map json_depth xs) 0)"
| "json_depth (Object ms) = Suc (foldr max (map (\<lambda>m. json_depth (snd m)) ms) 0)"
| "json_depth _ = 1"

fun json_count :: "json_value \<Rightarrow> nat" where
  "json_count (Array xs) = Suc (sum_list (map json_count xs))"
| "json_count (Object ms) = Suc (sum_list (map (\<lambda>m. json_count (snd m)) ms))"
| "json_count _ = 1"

fun unique_keys :: "json_value \<Rightarrow> bool" where
  "unique_keys (Array xs) = list_all unique_keys xs"
| "unique_keys (Object ms) = (distinct (map fst ms) \<and> list_all (\<lambda>m. unique_keys (snd m)) ms)"
| "unique_keys _ = True"

definition nested_ok :: "json_limits \<Rightarrow> nat \<Rightarrow> json_value list \<Rightarrow> bool" where
  "nested_ok limits depth vs \<longleftrightarrow> (\<forall>v\<in>set vs. json_depth v + depth \<le> maximum_depth limits \<and> unique_keys v)"

definition total_count :: "json_value list \<Rightarrow> nat" where
  "total_count vs = sum_list (map json_count vs)"

fun task_sound :: "json_limits \<Rightarrow> json_task \<Rightarrow> json_value \<Rightarrow> nat \<Rightarrow> bool" where
  "task_sound limits (Value_at depth k rest) v n \<longleftrightarrow>
     json_depth v + depth \<le> Suc (maximum_depth limits) \<and> n = k + json_count v \<and> n \<le> maximum_values limits \<and> unique_keys v"
| "task_sound limits (Object_loop depth k rest ms) v n \<longleftrightarrow>
     (depth \<le> maximum_depth limits \<and> nested_ok limits depth (map snd ms) \<and> distinct (map fst ms) \<longrightarrow>
      (\<exists>ms'. v = Object ms' \<and> nested_ok limits depth (map snd ms') \<and> distinct (map fst ms') \<and>
         n + total_count (map snd ms) = k + total_count (map snd ms') \<and> n \<le> maximum_values limits))"
| "task_sound limits (Array_loop depth k rest vs) v n \<longleftrightarrow>
     (depth \<le> maximum_depth limits \<and> nested_ok limits depth vs \<longrightarrow>
      (\<exists>vs'. v = Array vs' \<and> nested_ok limits depth vs' \<and>
         n + total_count vs = k + total_count vs' \<and> n \<le> maximum_values limits))"

lemma nested_depth: "nested_ok limits depth vs \<Longrightarrow> depth \<le> maximum_depth limits \<Longrightarrow>
    foldr max (map json_depth vs) 0 + depth \<le> maximum_depth limits"
  by (induction vs) (auto simp: nested_ok_def)

lemma nested_unique: "nested_ok limits depth vs \<Longrightarrow> list_all unique_keys vs"
  by (auto simp: nested_ok_def list_all_iff)

lemma scalar_leaf: "scalar in_range rest = Parsed v r \<Longrightarrow> json_depth v = 1 \<and> json_count v = 1 \<and> unique_keys v"
  by (auto simp: scalar_def Let_def json_literal_def json_number_def split: if_splits parsed.splits)

lemma accepts_sound: "accepts in_range limits task v n r \<Longrightarrow> task_sound limits task v n"
proof (induction rule: accepts.induct)
  case (scalar depth n rest v r)
  then show ?case using scalar_leaf by fastforce
next
  case (object depth n rest v m r)
  then obtain ms where ms: "v = Object ms" "nested_ok limits depth (map snd ms)" "distinct (map fst ms)"
      "m = Suc n + total_count (map snd ms)" "m \<le> maximum_values limits"
    by (auto simp: nested_ok_def total_count_def)
  then show ?case
    using nested_depth [OF ms(2) object(1)] nested_unique [OF ms(2)]
    by (simp add: total_count_def comp_def list_all_iff)
next
  case (array depth n rest v m r)
  then obtain vs where vs: "v = Array vs" "nested_ok limits depth vs"
      "m = Suc n + total_count vs" "m \<le> maximum_values limits"
    by (auto simp: nested_ok_def total_count_def)
  then show ?case
    using nested_depth [OF vs(2) array(1)] nested_unique [OF vs(2)] by (simp add: total_count_def)
next
  case (member_last members rest key r2 depth n v m r3 r)
  then show ?case using object_key_fresh [OF member_last(1)] by (auto simp: nested_ok_def total_count_def)
next
  case (member_more members rest key r2 depth n v m r3 r5 v' m' r)
  then show ?case using object_key_fresh [OF member_more(1)] by (auto simp: nested_ok_def total_count_def)
qed (auto simp: nested_ok_def total_count_def)

lemma reason_not_fuel: "reason @ '' at byte '' @ to_string k \<noteq> ''out of fuel''"
proof
  assume eq: "reason @ '' at byte '' @ to_string k = ''out of fuel''"
  have "last (to_string k) \<in> set (to_string k)" by (rule last_in_set [OF to_string_nonempty])
  then have "is_digit (last (to_string k))" using to_string_digits by blast
  moreover have "last (to_string k) = CHR ''l''"
    using arg_cong [OF eq, of last] to_string_nonempty [of k] by (simp add: last_append)
  ultimately show False by (simp add: is_digit_def)
qed

text \<open>
  C26. Parsing always ends, with a document or a reason, and a document that is accepted is within
  the configured limits: not larger than the byte limit, nested no deeper than the depth limit,
  with no more values than the value limit, and without a duplicate key in any object.
\<close>

theorem parse_json_respects_limits:
  "(case parse_json in_range limits doc of
      Inl reason \<Rightarrow> reason \<noteq> ''out of fuel''
    | Inr v \<Rightarrow> length doc \<le> maximum_bytes limits \<and> json_depth v \<le> maximum_depth limits \<and>
        json_count v \<le> maximum_values limits \<and> unique_keys v)"
proof (cases "json_run in_range limits (2 * length doc + 1) (Value_at 1 0 (skip_space doc))")
  case (Bad reason r)
  then show ?thesis using reason_not_fuel by (simp add: parse_json_def Let_def)
next
  case (Parsed vn r)
  then show ?thesis
    using reason_not_fuel accepts_sound [OF json_run_accepts [OF Parsed]] by (simp add: parse_json_def Let_def)
next
  case Starved
  then show ?thesis using parse_fuel by blast
qed

end
