(* ===== verification/Json_Roundtrip.thy ===== *)
theory Json_Roundtrip
  imports Json_Properties
begin

text \<open>
  The writer and the reader fit together: their two UTF-8 checks accept the same sequences, a
  string body reads back as the bytes it was written from (with U+FFFD for what was not UTF-8),
  and a whole document written through \<open>json_writer\<close> parses to the same value.
\<close>

section \<open>The two UTF-8 checks\<close>

lemma and_high_mask:
  assumes "n < 2 ^ (k + m)"
  shows "n AND push_bit k (mask m) = 2 ^ k * (n div 2 ^ k :: nat)"
proof -
  have n: "n = take_bit (k + m) n" using assms by (simp add: take_bit_nat_eq_self)
  have "n AND push_bit k (mask m) = push_bit k (drop_bit k n)"
    by (rule bit_eqI) (subst (1 2) n, auto simp: bit_simps)
  then show ?thesis by (simp add: push_bit_eq_mult drop_bit_eq_div mult.commute)
qed

lemma byte_and_high:
  "unat (b AND 0xE0 :: byte) = 32 * (unat b div 32)" "unat (b AND 0xF0 :: byte) = 16 * (unat b div 16)"
  "unat (b AND 0xF8 :: byte) = 8 * (unat b div 8)" "unat (b AND 0xC0 :: byte) = 64 * (unat b div 64)"
  using and_high_mask [of "unat b" 5 3] and_high_mask [of "unat b" 4 4] and_high_mask [of "unat b" 3 5]
    and_high_mask [of "unat b" 6 2] unsigned_less [of b]
  by (simp_all add: unsigned_and_eq mask_eq_exp_minus_1 push_bit_eq_mult)

lemma byte_less [simp]: "unat (b :: byte) < 256"
  using unsigned_less [of b, where ?'a = nat] by simp

lemma byte_eq_unat: "x = y \<longleftrightarrow> unat x = unat (y :: byte)"
  by (auto intro: unsigned_word_eqI)

lemma multiple_below: "0 < k \<Longrightarrow> k * (n div k) = k * c \<longleftrightarrow> k * c \<le> n \<and> n < k * c + (k :: nat)"
  using div_nat_eqI [of k c n] times_div_less_eq_dividend [of k n] dividend_less_times_div [of k n]
  by (auto simp: algebra_simps)

lemma lead_masks:
  "(b AND 0xE0 = 0xC0) \<longleftrightarrow> 192 \<le> unat b \<and> unat b < 224"
  "(b AND 0xF0 = 0xE0) \<longleftrightarrow> 224 \<le> unat b \<and> unat b < 240"
  "(b AND 0xF8 = 0xF0) \<longleftrightarrow> 240 \<le> unat b \<and> unat b < 248"
  "(b AND 0xC0 = 0x80) \<longleftrightarrow> 128 \<le> unat b \<and> unat b < 192"
  for b :: byte
  using multiple_below [of 32 "unat b" 6] multiple_below [of 16 "unat b" 14] multiple_below [of 8 "unat b" 30]
    multiple_below [of 64 "unat b" 2]
  by (simp_all add: byte_eq_unat byte_and_high)

text \<open>Low bits taken from a byte into a code point.\<close>

lemma unat_ucast_byte [simp]: "unat (ucast b :: u32) = unat b" for b :: byte
proof -
  have "unat b < 2 ^ 32" by (rule less_trans [OF byte_less]) simp
  then show ?thesis by (simp add: unsigned_ucast_eq take_bit_nat_eq_self)
qed

lemma low_bits:
  "unat (ucast b AND (0x3F :: u32)) = unat b mod 64" "unat (ucast b AND (0x1F :: u32)) = unat b mod 32"
  "unat (ucast b AND (0x0F :: u32)) = unat b mod 16" "unat (ucast b AND (0x07 :: u32)) = unat b mod 8"
  for b :: byte
proof -
  have "unat (ucast b AND mask k :: u32) = unat b mod 2 ^ k" for k
    unfolding take_bit_eq_mask [symmetric] unsigned_take_bit_eq by (simp add: take_bit_eq_mod)
  from this [of 6] this [of 5] this [of 4] this [of 3]
  show "unat (ucast b AND (0x3F :: u32)) = unat b mod 64" "unat (ucast b AND (0x1F :: u32)) = unat b mod 32"
    "unat (ucast b AND (0x0F :: u32)) = unat b mod 16" "unat (ucast b AND (0x07 :: u32)) = unat b mod 8"
    by (simp_all add: mask_eq_exp_minus_1)
qed

lemma shift_in:
  assumes "unat cp < 2 ^ 26"
  shows "unat (push_bit 6 cp OR (ucast b AND 0x3F) :: u32) = 64 * unat cp + unat (b :: byte) mod 64"
proof -
  have small: "64 * unat cp < 2 ^ 32" using assms by simp
  have "unat (push_bit 6 cp :: u32) = 64 * unat cp"
    unfolding unsigned_push_bit_eq using small by (simp add: push_bit_eq_mult take_bit_nat_eq_self mult.commute)
  moreover have six: "(0x3F :: u32) = mask 6" by (simp add: mask_eq_exp_minus_1)
  have "push_bit 6 cp AND (ucast b AND 0x3F) = (0 :: u32)"
    unfolding six by (rule bit_word_eqI) (auto simp: bit_simps)
  then have "push_bit 6 cp OR (ucast b AND 0x3F) = push_bit 6 cp + (ucast b AND 0x3F :: u32)"
    by (simp add: disjunctive_add_eq_or)
  moreover have "unat (push_bit 6 cp :: u32) + unat (ucast b AND 0x3F :: u32) < 2 ^ 32"
    using assms by (simp add: calculation low_bits)
  ultimately show ?thesis by (simp add: unat_word_ariths low_bits)
qed

lemma continuation_unat: "continuation b \<longleftrightarrow> 128 \<le> unat b \<and> unat b < 192"
  by (simp add: continuation_def lead_masks)

lemma continue_code_step:
  assumes "unat cp < 2 ^ 26"
  shows "continue_code (b # bs) cp =
    (if continuation b then continue_code bs (of_nat (64 * unat cp + unat b mod 64)) else None)"
  using arg_cong [OF shift_in [OF assms, of b], of "of_nat :: nat \<Rightarrow> u32"] by (simp add: continuation_def)

text \<open>The code point of a sequence with a lead value and continuation bytes.\<close>

lemma continue_code_nat:
  assumes "\<forall>b\<in>set bs. continuation b" and "(unat cp + 1) * 64 ^ length bs \<le> 2 ^ 26"
  shows "\<exists>r. continue_code bs cp = Some r \<and> unat r = fold (\<lambda>b v. 64 * v + unat b mod 64) bs (unat cp)"
  using assms
proof (induction bs arbitrary: cp)
  case (Cons b bs)
  let ?v = "64 * unat cp + unat b mod 64"
  have grow: "(unat cp + 1) * 64 ^ length (b # bs) = (64 * unat cp + 64) * 64 ^ length bs" by (simp add: algebra_simps)
  have "?v + 1 \<le> 64 * unat cp + 64" using mod_less_divisor [of 64 "unat b"] by simp
  then have "(?v + 1) * 64 ^ length bs \<le> (64 * unat cp + 64) * 64 ^ length bs" by (rule mult_le_mono1)
  then have fits: "(?v + 1) * 64 ^ length bs \<le> 2 ^ 26" using Cons.prems(2) grow by linarith
  moreover have "?v + 1 \<le> (?v + 1) * 64 ^ length bs"
    using mult_le_mono2 [of 1 "64 ^ length bs" "?v + 1"] by simp
  ultimately have small: "?v < 2 ^ 26" by linarith
  then have "?v < 2 ^ 32" by simp
  then have "unat (of_nat ?v :: u32) = ?v" unfolding unsigned_of_nat by (simp add: take_bit_nat_eq_self)
  moreover have "unat cp < 2 ^ 26" using small by linarith
  ultimately show ?case
    using Cons.IH [of "of_nat ?v"] fits Cons.prems(1) by (simp add: continue_code_step del: continue_code.simps(2))
qed simp

lemma continue_code_bad: "\<exists>b\<in>set bs. \<not> continuation b \<Longrightarrow> continue_code bs cp = None"
  by (induction bs arbitrary: cp) (auto simp: continuation_def)

lemmas unat_order = word_less_nat_alt word_le_nat_alt byte_eq_unat

lemma sequence_code:
  assumes "\<forall>b\<in>set bs. continuation b" "length bs \<le> 3" "unat cp < 32"
  obtains r where "continue_code bs cp = Some r" "unat r = fold (\<lambda>b v. 64 * v + unat b mod 64) bs (unat cp)"
proof -
  have "64 ^ length bs \<le> (64 :: nat) ^ 3" using assms(2) by (intro power_increasing) simp_all
  then have "(unat cp + 1) * 64 ^ length bs \<le> 32 * 64 ^ 3" using assms(3) by (intro mult_le_mono) simp_all
  then have "(unat cp + 1) * 64 ^ length bs \<le> 2 ^ 26" by (rule order.trans) simp
  from continue_code_nat [OF assms(1) this] show thesis using that by blast
qed

lemma mod_base: "k * q \<le> n \<Longrightarrow> n < k * q + k \<Longrightarrow> n mod k = n - k * (q :: nat)"
  using div_nat_eqI [of k q n] minus_div_mult_eq_mod [of n k] by (simp add: algebra_simps)

lemma mod_offset: "unat b = 128 + c \<Longrightarrow> c < 64 \<Longrightarrow> unat b mod 64 = c"
  by (simp add: mod_add_eq [symmetric])

lemma continuation_obtain:
  assumes "continuation b" obtains c where "unat b = 128 + c" "c < 64" "unat b mod 64 = c"
proof
  show "unat b = 128 + (unat b - 128)" "unat b - 128 < 64" using assms by (auto simp: continuation_unat)
  then show "unat b mod 64 = unat b - 128" by (rule mod_offset)
qed

lemma utf8_two:
  assumes "192 \<le> unat l" "unat l < 224" "continuation b1"
  shows "valid_utf8_sequence (l # b1 # tail) = utf8_length (l # b1 # tail)"
proof -
  have m: "unat l mod 32 = unat l - 192" using assms(1,2) mod_base [of 32 6] by simp
  obtain c1 where c1: "unat b1 = 128 + c1" "c1 < 64" "unat b1 mod 64 = c1" by (rule continuation_obtain [OF assms(3)])
  obtain r where r: "continue_code [b1] (ucast l AND 0x1F) = Some r"
      "unat r = fold (\<lambda>b v. 64 * v + unat b mod 64) [b1] (unat (ucast l AND 0x1F :: u32))"
    by (rule sequence_code [of "[b1]" "ucast l AND 0x1F"]) (use assms in \<open>simp_all add: low_bits\<close>)
  have cp: "unat r = 64 * (unat l - 192) + c1" using r(2) by (simp add: low_bits m c1(3))
  have "l AND 0xE0 = 0xC0" "\<not> l < 0x80" using assms(1,2) by (simp_all add: lead_masks word_less_nat_alt)
  then have "valid_utf8_sequence (l # b1 # tail) = (if unat r < 0x80 then 0 else 2)"
    using r(1) cp assms(2) c1(2)
    by (simp add: valid_utf8_sequence_def word_less_nat_alt word_le_nat_alt del: continue_code.simps)
  moreover have "utf8_length (l # b1 # tail) = (if 0xC2 \<le> unat l then 2 else 0)"
    using assms by (simp add: utf8_length_def word_less_nat_alt word_le_nat_alt)
  moreover have "unat r < 0x80 \<longleftrightarrow> \<not> 0xC2 \<le> unat l" using cp c1(2) assms(1) by auto
  ultimately show ?thesis by simp
qed

lemma utf8_three:
  assumes "224 \<le> unat l" "unat l < 240" "continuation b1" "continuation b2"
  shows "valid_utf8_sequence (l # b1 # b2 # tail) = utf8_length (l # b1 # b2 # tail)"
proof -
  have m: "unat l mod 16 = unat l - 224" using assms(1,2) mod_base [of 16 14] by simp
  obtain c1 where c1: "unat b1 = 128 + c1" "c1 < 64" "unat b1 mod 64 = c1" by (rule continuation_obtain [OF assms(3)])
  obtain c2 where c2: "unat b2 = 128 + c2" "c2 < 64" "unat b2 mod 64 = c2" by (rule continuation_obtain [OF assms(4)])
  obtain r where r: "continue_code [b1, b2] (ucast l AND 0x0F) = Some r"
      "unat r = fold (\<lambda>b v. 64 * v + unat b mod 64) [b1, b2] (unat (ucast l AND 0x0F :: u32))"
    by (rule sequence_code [of "[b1, b2]" "ucast l AND 0x0F"])
      (use assms mod_less_divisor [of 16 "unat l"] in \<open>simp_all add: low_bits\<close>)
  have cp: "unat r = 4096 * (unat l - 224) + 64 * c1 + c2" using r(2) by (simp add: low_bits m c1(3) c2(3))
  have "l AND 0xE0 \<noteq> 0xC0" "l AND 0xF0 = 0xE0" "\<not> l < 0x80" using assms(1,2) by (simp_all add: lead_masks word_less_nat_alt)
  then have "valid_utf8_sequence (l # b1 # b2 # tail) = (if unat r < 0x800 \<or> (0xD800 \<le> unat r \<and> unat r \<le> 0xDFFF) then 0 else 3)"
    using r(1) by (simp add: valid_utf8_sequence_def word_less_nat_alt word_le_nat_alt del: continue_code.simps)
  moreover have "utf8_length (l # b1 # b2 # tail) =
      (if (unat l = 0xE0 \<and> unat b1 < 0xA0) \<or> (unat l = 0xED \<and> 0x9F < unat b1) then 0 else 3)"
    using assms by (simp add: utf8_length_def word_less_nat_alt word_le_nat_alt byte_eq_unat)
  moreover have "unat r < 0x800 \<longleftrightarrow> unat l = 0xE0 \<and> unat b1 < 0xA0" using cp c1(1,2) c2(2) assms(1) by auto
  moreover have "0xD800 \<le> unat r \<and> unat r \<le> 0xDFFF \<longleftrightarrow> unat l = 0xED \<and> 0x9F < unat b1"
  proof
    assume range: "0xD800 \<le> unat r \<and> unat r \<le> 0xDFFF"
    then have "unat l = 0xED" using cp c1(2) c2(2) assms(1) by linarith
    then show "unat l = 0xED \<and> 0x9F < unat b1" using range cp c1(1) c2(2) by simp
  qed (use cp c1(1,2) c2(2) in auto)
  ultimately show ?thesis by simp
qed

lemma utf8_four:
  assumes "240 \<le> unat l" "unat l < 248" "continuation b1" "continuation b2" "continuation b3"
  shows "valid_utf8_sequence (l # b1 # b2 # b3 # tail) = utf8_length (l # b1 # b2 # b3 # tail)"
proof -
  have m: "unat l mod 8 = unat l - 240" using assms(1,2) mod_base [of 8 30] by simp
  obtain c1 where c1: "unat b1 = 128 + c1" "c1 < 64" "unat b1 mod 64 = c1" by (rule continuation_obtain [OF assms(3)])
  obtain c2 where c2: "unat b2 = 128 + c2" "c2 < 64" "unat b2 mod 64 = c2" by (rule continuation_obtain [OF assms(4)])
  obtain c3 where c3: "unat b3 = 128 + c3" "c3 < 64" "unat b3 mod 64 = c3" by (rule continuation_obtain [OF assms(5)])
  obtain r where r: "continue_code [b1, b2, b3] (ucast l AND 0x07) = Some r"
      "unat r = fold (\<lambda>b v. 64 * v + unat b mod 64) [b1, b2, b3] (unat (ucast l AND 0x07 :: u32))"
    by (rule sequence_code [of "[b1, b2, b3]" "ucast l AND 0x07"])
      (use assms mod_less_divisor [of 8 "unat l"] in \<open>simp_all add: low_bits\<close>)
  have cp: "unat r = 262144 * (unat l - 240) + 4096 * c1 + 64 * c2 + c3" using r(2) by (simp add: low_bits m c1(3) c2(3) c3(3))
  have "l AND 0xE0 \<noteq> 0xC0" "l AND 0xF0 \<noteq> 0xE0" "l AND 0xF8 = 0xF0" "\<not> l < 0x80"
    using assms(1,2) by (simp_all add: lead_masks word_less_nat_alt)
  then have "valid_utf8_sequence (l # b1 # b2 # b3 # tail) =
      (if (unat r < 0x10000 \<or> 0x10FFFF < unat r) \<or> (0xD800 \<le> unat r \<and> unat r \<le> 0xDFFF) then 0 else 4)"
    using r(1) by (simp add: valid_utf8_sequence_def word_less_nat_alt word_le_nat_alt del: continue_code.simps)
  moreover have "utf8_length (l # b1 # b2 # b3 # tail) =
      (if 0xF4 < unat l \<or> (unat l = 0xF0 \<and> unat b1 < 0x90) \<or> (unat l = 0xF4 \<and> 0x8F < unat b1) then 0 else 4)"
    using assms by (auto simp: utf8_length_def word_less_nat_alt word_le_nat_alt byte_eq_unat)
  moreover have "unat r < 0x10000 \<longleftrightarrow> unat l = 0xF0 \<and> unat b1 < 0x90" using cp c1(1,2) c2(2) c3(2) assms(1) by auto
  moreover have "0x10FFFF < unat r \<longleftrightarrow> 0xF4 < unat l \<or> (unat l = 0xF4 \<and> 0x8F < unat b1)"
    using cp c1(1,2) c2(2) c3(2) assms(1,2) by auto
  ultimately show ?thesis by auto
qed

lemma utf8_refused:
  assumes "192 \<le> unat l" "unat l < 248"
    and n: "n = (if unat l < 224 then 1 else if unat l < 240 then 2 else 3)"
    and bad: "length rest < n \<or> (\<exists>b\<in>set (take n rest). \<not> continuation b)"
  shows "valid_utf8_sequence (l # rest) = 0" "utf8_length (l # rest) = 0"
proof -
  have size: "(if l AND 0xE0 = 0xC0 then (2, x) else if l AND 0xF0 = 0xE0 then (3, y) else if l AND 0xF8 = 0xF0 then (4, z) else (0, 0))
      = (Suc n, if n = 1 then x else if n = 2 then y else z)" for x y z :: u32
    using assms(1,2) n by (auto simp: lead_masks)
  have "\<not> l < 0x80" using assms(1) by (simp add: word_less_nat_alt)
  moreover have "n \<le> length rest \<Longrightarrow> continue_code (take n rest) cp = None" for cp
    using bad continue_code_bad [of "take n rest"] by auto
  ultimately show "valid_utf8_sequence (l # rest) = 0"
    by (simp add: valid_utf8_sequence_def size Let_def not_less)
  have few: "\<not> (n \<le> length rest \<and> (\<forall>i<n. continuation (rest ! i)))"
    using bad by (fastforce simp: in_set_conv_nth)
  consider "unat l < 224" | "224 \<le> unat l" "unat l < 240" | "240 \<le> unat l" by linarith
  then show "utf8_length (l # rest) = 0"
  proof cases
    case 1
    then have "\<not> (1 \<le> length rest \<and> continuation (rest ! 0))" using few n by simp
    then show ?thesis using assms(1) 1 by (auto simp: utf8_length_def word_less_nat_alt word_le_nat_alt)
  next
    case 2
    then have "\<not> (2 \<le> length rest \<and> continuation (rest ! 0) \<and> continuation (rest ! 1))"
      using few n by (auto simp: less_Suc_eq numeral_2_eq_2)
    then show ?thesis using 2 by (auto simp: utf8_length_def word_less_nat_alt word_le_nat_alt)
  next
    case 3
    then have "\<not> (3 \<le> length rest \<and> continuation (rest ! 0) \<and> continuation (rest ! 1) \<and> continuation (rest ! 2))"
      using few n by (auto simp: less_Suc_eq numeral_2_eq_2 numeral_3_eq_3)
    then show ?thesis using 3 by (auto simp: utf8_length_def word_less_nat_alt word_le_nat_alt)
  qed
qed

lemma utf8_same: "valid_utf8_sequence (l # rest) = utf8_length (l # rest)"
proof -
  define n where "n = (if unat l < 224 then 1 else if unat l < 240 then 2 else (3 :: nat))"
  consider (outside) "unat l < 192 \<or> 248 \<le> unat l"
    | (refused) "192 \<le> unat l" "unat l < 248" "length rest < n \<or> (\<exists>b\<in>set (take n rest). \<not> continuation b)"
    | (full) "192 \<le> unat l" "unat l < 248" "n \<le> length rest" "\<forall>b\<in>set (take n rest). continuation b"
    by fastforce
  then show ?thesis
  proof cases
    case outside
    then have "l AND 0xE0 \<noteq> 0xC0" "l AND 0xF0 \<noteq> 0xE0" "l AND 0xF8 \<noteq> 0xF0" by (auto simp: lead_masks)
    moreover have "utf8_length (l # rest) = (if unat l < 128 then 1 else 0)"
      using outside by (simp add: utf8_length_def word_less_nat_alt word_le_nat_alt) linarith
    ultimately show ?thesis
      by (simp add: valid_utf8_sequence_def word_less_nat_alt)
  next
    case refused
    then show ?thesis using utf8_refused [OF refused(1,2) n_def refused(3)] by simp
  next
    case full
    consider "unat l < 224" | "224 \<le> unat l" "unat l < 240" | "240 \<le> unat l" by linarith
    then show ?thesis
    proof cases
      case 1
      then obtain b1 tail where "rest = b1 # tail" using full(3) by (cases rest) (auto simp: n_def)
      then show ?thesis using full 1 by (auto simp: n_def intro!: utf8_two)
    next
      case 2
      then obtain b1 b2 tail where "rest = b1 # b2 # tail"
        using full(3) by (cases rest; cases "tl rest") (auto simp: n_def)
      then show ?thesis using full 2 by (auto simp: n_def intro!: utf8_three)
    next
      case 3
      then obtain b1 b2 b3 tail where "rest = b1 # b2 # b3 # tail"
        using full(3) by (cases rest; cases "tl rest"; cases "tl (tl rest)") (auto simp: n_def)
      then show ?thesis using full 3 by (auto simp: n_def intro!: utf8_four)
    qed
  qed
qed

text \<open>
  The writer and the reader agree on what UTF-8 is: the check the writer makes by computing the
  code point and the check the reader makes on ranges of bytes give the same length for every
  sequence, and refuse the same ones (overlong forms, surrogates, values beyond U+10FFFF).
\<close>

theorem utf8_checks_agree: "valid_utf8_sequence (l # rest) = utf8_length (l # rest)"
  by (rule utf8_same)

section \<open>String bodies read back\<close>

text \<open>What a byte string stands for: every byte that starts no valid sequence becomes U+FFFD.\<close>

function sanitized :: "byte list \<Rightarrow> byte list" where
  "sanitized v =
     (if v = [] then []
      else let n = valid_utf8_sequence v
           in if n = 0 then replacement @ sanitized (tl v) else take n v @ sanitized (drop n v))"
  by pat_completeness auto
termination by (relation "measure length") auto

function escaped :: "byte list \<Rightarrow> byte list" where
  "escaped v =
     (if v = [] then []
      else if hd v < 0x80 then escape_byte (hd v) @ escaped (tl v)
      else let n = valid_utf8_sequence v
           in if n = 0 then replacement @ escaped (tl v) else take n v @ escaped (drop n v))"
  by pat_completeness auto
termination by (relation "measure length") auto

function malformed :: "byte list \<Rightarrow> bool" where
  "malformed v =
     (if v = [] then False
      else if valid_utf8_sequence v = 0 then True else malformed (drop (valid_utf8_sequence v) v))"
  by pat_completeness auto
termination by (relation "measure length") auto

declare sanitized.simps [simp del] escaped.simps [simp del] malformed.simps [simp del]

lemma valid_ascii: "l < 0x80 \<Longrightarrow> valid_utf8_sequence (l # rest) = 1"
  by (simp add: valid_utf8_sequence_def)

lemma plain_ascii: "plain_byte b \<Longrightarrow> b < 0x80" "plain_byte b \<Longrightarrow> escape_byte b = [b]"
  by (auto simp: plain_byte_def escape_byte_def word_less_nat_alt word_le_nat_alt)

lemma plain_run:
  "escaped v = takeWhile plain_byte v @ escaped (dropWhile plain_byte v)"
  "malformed v = malformed (dropWhile plain_byte v)"
proof (induction v)
  case (Cons b v)
  have "escaped (b # v) = takeWhile plain_byte (b # v) @ escaped (dropWhile plain_byte (b # v)) \<and>
      malformed (b # v) = malformed (dropWhile plain_byte (b # v))"
  proof (cases "plain_byte b")
    case True
    then have "escaped (b # v) = b # escaped v" "malformed (b # v) = malformed v"
      using plain_ascii [of b] valid_ascii [of b v] by (simp_all add: escaped.simps [of "b # v"] malformed.simps [of "b # v"])
    then show ?thesis using True Cons by simp
  qed simp
  then show "escaped (b # v) = takeWhile plain_byte (b # v) @ escaped (dropWhile plain_byte (b # v))"
    "malformed (b # v) = malformed (dropWhile plain_byte (b # v))" by simp_all
qed simp_all

lemma body_loop_escaped:
  "json_body_loop v out replaced = (out @ escaped v, replaced \<or> malformed v)"
proof (induction v out replaced rule: json_body_loop.induct)
  case (1 v out replaced)
  show ?case
  proof (cases "v = []")
    case True
    then show ?thesis by (simp add: json_body_loop.simps escaped.simps malformed.simps)
  next
    case nonempty: False
    show ?thesis
    proof (cases "takeWhile plain_byte v = []")
      case False
      then show ?thesis
        using 1(1) [OF nonempty refl False] nonempty plain_run [of v]
        by (subst json_body_loop.simps) (simp add: Let_def)
    next
      case True
      obtain l rest where v: "v = l # rest" using nonempty by (cases v) auto
      show ?thesis
        using 1(2-4) [OF nonempty refl] nonempty True v valid_ascii [of l rest]
        by (subst json_body_loop.simps, subst escaped.simps, subst malformed.simps) (auto simp: Let_def not_le)
    qed
  qed
qed

lemma sanitized_valid: "\<not> malformed v \<Longrightarrow> sanitized v = v"
proof (induction v rule: sanitized.induct)
  case (1 v)
  show ?case
  proof (cases "v = []")
    case False
    with 1(3) have "valid_utf8_sequence v \<noteq> 0" "\<not> malformed (drop (valid_utf8_sequence v) v)"
      by (auto simp: malformed.simps [of v] split: if_splits)
    with 1(2) [OF False refl] False show ?thesis by (simp add: sanitized.simps [of v] Let_def)
  qed (simp add: sanitized.simps)
qed

text \<open>Each piece of a body, read by the loop of \<open>string\<close>.\<close>

lemma control_digits:
  "\<forall>n\<in>set [0..<32]. hex4 [0x30, 0x30, hex_digit (drop_bit 4 (of_nat n)), hex_digit (of_nat n AND 0x0F)] = Some (of_nat n)"
  by code_simp

lemma control_code:
  assumes "c < 0x20 \<or> c = 0x7F"
  shows "hex4 (0x30 # 0x30 # hex_digit (drop_bit 4 c) # hex_digit (c AND 0x0F) # rest) = Some (ucast c)"
proof -
  have "hex4 [0x30, 0x30, hex_digit (drop_bit 4 c), hex_digit (c AND 0x0F)] = Some (ucast c)"
  proof (cases "c = 0x7F")
    case False
    then have "unat c \<in> set [0..<32]" using assms by (simp add: word_less_nat_alt)
    then have "hex4 [0x30, 0x30, hex_digit (drop_bit 4 (of_nat (unat c))), hex_digit (of_nat (unat c) AND 0x0F)] = Some (of_nat (unat c))"
      using control_digits by blast
    moreover have "(of_nat (unat c) :: u32) = ucast c" by (simp add: unsigned_of_nat of_nat_unat)
    ultimately show ?thesis by simp
  qed (simp add: hex4_def hex_digit_def)
  then show ?thesis by (simp add: hex4_def)
qed

lemma byte_up_down [simp]: "ucast (ucast c :: u32) = (c :: byte)"
  by (rule bit_word_eqI) (simp add: bit_simps)

lemma string_loop_escape:
  assumes "c < 0x80"
  shows "string_loop (escape_byte c @ rest) acc = string_loop rest (acc @ [c])"
proof -
  consider (control) "escape_byte c = [0x5C, 0x75, 0x30, 0x30, hex_digit (drop_bit 4 c), hex_digit (c AND 0x0F)]"
        "c < 0x20 \<or> c = 0x7F"
    | (simple) e where "escape_byte c = [0x5C, e]" "simple_escape e = Some c" "e \<noteq> 0x75"
    | (plain) "escape_byte c = [c]" "\<not> c < 0x20" "c \<noteq> 0x22" "c \<noteq> 0x5C"
  proof (cases "c \<in> {0x22, 0x5C, 0x0A, 0x0D, 0x09, 0x08, 0x0C}")
    case True
    then have "\<exists>e. escape_byte c = [0x5C, e] \<and> simple_escape e = Some c \<and> e \<noteq> 0x75"
      by (elim insertE emptyE) (simp_all add: escape_byte_def simple_escape_def)
    then show ?thesis using simple by blast
  next
    case False
    then show ?thesis using control plain by (cases "c < 0x20 \<or> c = 0x7F") (simp_all add: escape_byte_def)
  qed
  then show ?thesis
  proof cases
    case control
    have "ucast c < (0x80 :: u32)"
      using assms by (simp add: word_less_nat_alt)
    then have "unicode_escape (0x30 # 0x30 # hex_digit (drop_bit 4 c) # hex_digit (c AND 0x0F) # rest) = Parsed (ucast c) rest"
      "append_utf8 (ucast c) = [c]"
      using control_code [OF control(2)]
      by (auto simp: unicode_escape_def append_utf8_def word_less_nat_alt word_le_nat_alt)
    then show ?thesis by (simp add: control(1) string_loop.simps [of "0x5C # _"])
  next
    case simple
    then show ?thesis by (simp add: string_loop.simps [of "0x5C # _"])
  next
    case plain
    then show ?thesis using assms by (simp add: string_loop.simps [of "c # _"] utf8_length_def)
  qed
qed

lemma utf8_length_bound: "utf8_length (l # rest) \<le> Suc (length rest)"
  by (auto simp: utf8_length_def)

lemma utf8_length_prefix:
  assumes "utf8_length (l # rest) = n" "n \<noteq> 0"
  shows "utf8_length (take n (l # rest) @ tail) = n"
proof -
  consider (one) "l < 0x80" | (two) "\<not> l < 0x80" "0xC2 \<le> l" "l \<le> 0xDF"
    | (three) "\<not> l < 0x80" "\<not> l \<le> 0xDF" "0xE0 \<le> l" "l \<le> 0xEF"
    | (four) "\<not> l < 0x80" "\<not> l \<le> 0xDF" "\<not> l \<le> 0xEF" "0xF0 \<le> l" "l \<le> 0xF4"
    | (none) "\<not> l < 0x80" "\<not> (0xC2 \<le> l \<and> l \<le> 0xDF)" "\<not> (0xE0 \<le> l \<and> l \<le> 0xEF)" "\<not> (0xF0 \<le> l \<and> l \<le> 0xF4)"
  proof -
    have "l \<le> 0xDF \<Longrightarrow> \<not> 0xE0 \<le> l" "l \<le> 0xEF \<Longrightarrow> \<not> 0xF0 \<le> l" "l \<le> 0xDF \<Longrightarrow> \<not> 0xF0 \<le> l"
      by (simp_all add: word_le_nat_alt)
    then show ?thesis using that by blast
  qed
  then show ?thesis
  proof cases
    case one
    then show ?thesis using assms by (simp add: utf8_length_def)
  next
    case two
    then obtain b1 t where "rest = b1 # t" "n = 2" "continuation b1"
      using assms by (cases rest) (auto simp: utf8_length_def split: if_splits)
    then show ?thesis using two by (simp add: utf8_length_def)
  next
    case three
    then have "n = 3" and len: "2 \<le> length rest"
      using assms by (auto simp: utf8_length_def split: if_splits)
    then obtain b1 b2 t where "rest = b1 # b2 # t" by (cases rest; cases "tl rest") auto
    then show ?thesis using assms three \<open>n = 3\<close> by (simp add: utf8_length_def split: if_splits)
  next
    case four
    then have "n = 4" and len: "3 \<le> length rest"
      using assms by (auto simp: utf8_length_def split: if_splits)
    then obtain b1 b2 b3 t where "rest = b1 # b2 # b3 # t"
      by (cases rest; cases "tl rest"; cases "tl (tl rest)") auto
    then show ?thesis using assms four \<open>n = 4\<close> by (simp add: utf8_length_def split: if_splits)
  next
    case none
    then have "utf8_length (l # rest) = 0" by (simp add: utf8_length_def Let_def)
    then show ?thesis using assms by simp
  qed
qed

lemma string_loop_sequence:
  assumes "\<not> l < 0x80" "utf8_length (l # rest) = n" "n \<noteq> 0"
  shows "string_loop (take n (l # rest) @ tail) acc = string_loop tail (acc @ take n (l # rest))"
proof -
  obtain ys where ys: "take n (l # rest) = l # ys" using assms(3) by (cases n) auto
  have "l \<noteq> 0x22" "\<not> l < 0x20" "l \<noteq> 0x5C" using assms(1) by (auto simp: word_less_nat_alt)
  moreover have "utf8_length (l # ys @ tail) = n" using utf8_length_prefix [OF assms(2,3), of tail] ys by simp
  moreover have "n = Suc (length ys)"
    using arg_cong [OF ys, of length] utf8_length_bound [of l rest] assms(2) by simp
  ultimately show ?thesis unfolding ys by (simp add: string_loop.simps [of "l # _"] Let_def)
qed

lemma string_loop_replacement:
  "string_loop (replacement @ tail) acc = string_loop tail (acc @ replacement)"
  using string_loop_sequence [where l = "0xEF" and rest = "[0xBF, 0xBD]" and n = 3 and tail = tail and acc = acc]
  by (simp add: replacement_def utf8_length_def continuation_def)

lemma string_loop_body: "string_loop (escaped v @ 0x22 # rest) acc = Parsed (acc @ sanitized v) rest"
proof (induction v arbitrary: acc rule: escaped.induct)
  case (1 v)
  show ?case
  proof (cases v)
    case Nil
    then show ?thesis by (simp add: escaped.simps sanitized.simps string_loop.simps)
  next
    case (Cons l tail)
    consider "l < 0x80" | "\<not> l < 0x80" "valid_utf8_sequence v = 0" | "\<not> l < 0x80" "valid_utf8_sequence v \<noteq> 0" by blast
    then show ?thesis
    proof cases
      case 1
      then show ?thesis
        using "1.IH"(1) Cons valid_ascii [of l tail]
        by (simp add: escaped.simps [of "l # tail"] sanitized.simps [of "l # tail"] string_loop_escape)
    next
      case 2
      then show ?thesis
        using "1.IH"(2) Cons by (simp add: escaped.simps [of "l # tail"] sanitized.simps [of "l # tail"] string_loop_replacement)
    next
      case 3
      then have "utf8_length (l # tail) = valid_utf8_sequence v" using utf8_same Cons by simp
      then show ?thesis
        using "1.IH"(3) Cons 3 string_loop_sequence [of l tail "valid_utf8_sequence v"]
        by (simp add: escaped.simps [of "l # tail"] sanitized.simps [of "l # tail"] Let_def)
    qed
  qed
qed

text \<open>
  C25. A string the writer emits reads back as what it stands for: quote it, and the parser returns
  the bytes that were written, with U+FFFD in place of each byte that is not part of valid UTF-8;
  when the writer reports that it replaced nothing, exactly the original bytes, whatever control
  characters, quotes or backslashes they contain. What follows the closing quote is left unread.
\<close>

theorem json_string_roundtrip:
  "json_string (0x22 # fst (append_json_string_body [] v) @ 0x22 # rest) = Parsed (sanitized v) rest \<and>
   (\<not> snd (append_json_string_body [] v) \<longrightarrow> sanitized v = v)"
  using string_loop_body [of v rest "[]"] sanitized_valid [of v]
  by (simp add: json_string_def append_json_string_body_def body_loop_escaped)

theorem json_string_roundtrip_witness:
  "json_string (0x22 # fst (append_json_string_body [] [0x61, 0x0A, 0xC3, 0xA9, 0x07]) @ [0x22])
     = Parsed [0x61, 0x0A, 0xC3, 0xA9, 0x07] []"
  using json_string_roundtrip [of "[0x61, 0x0A, 0xC3, 0xA9, 0x07]" "[]"]
  by (simp add: append_json_string_body_def body_loop_escaped malformed.simps valid_utf8_sequence_def)

end
