(* ===== verification/Uplink.thy ===== *)
theory Uplink
  imports Json_Reader Wal
begin

text \<open>
  Delivery of durable records to the Manager, class \<open>uplink\<close> of \<^verbatim>\<open>src/sensor/uplink.cpp\<close>. The
  record poster is the interface to the network: an argument that answers a batch. The steps are
  written over the log operations they call (\<open>uplink_step_with\<close>) and instantiated with the
  write-ahead log. The quarantine file is the uplink's own state; what opening and writing it do
  is an argument.
\<close>

section \<open>State\<close>

datatype post_status = answered | retry | unauthorized | refused

record post_response =
  pr_status :: post_status
  pr_http_status :: nat
  pr_body :: "byte list"
  pr_detail :: "byte list"

record uplink_options =
  uo_maximum_records :: nat
  uo_maximum_bytes :: nat
  uo_idle_poll_ns :: u64
  uo_initial_backoff_ns :: u64
  uo_maximum_backoff_ns :: u64
  uo_quarantine_path :: string
  uo_quarantine_limit_bytes :: nat

datatype uplink_state = Idle | Delivering | Backing_off | Unauthorized | Rejected

record uplink_metrics =
  um_state :: uplink_state
  um_batches_sent :: nat
  um_records_acknowledged :: nat
  um_retries :: nat
  um_refusals :: nat
  um_records_quarantined :: nat
  um_recent_quarantined_seqs :: "nat list"
  um_quarantine_failures :: nat
  um_consecutive_failures :: nat
  um_acknowledged_seq :: nat
  um_last_error :: "byte list"

record uplink =
  up_options :: uplink_options
  up_metrics :: uplink_metrics
  up_next_attempt_ns :: u64
  up_backoff_ns :: u64
  up_record_budget :: nat
  up_jitter_state :: u64
  up_quarantine_file :: "byte list option"

definition uplink_new :: "nat \<Rightarrow> uplink_options \<Rightarrow> byte list option \<Rightarrow> uplink" where
  "uplink_new acked opts file =
     \<lparr>up_options = opts,
      up_metrics = \<lparr>um_state = Idle, um_batches_sent = 0, um_records_acknowledged = 0, um_retries = 0, um_refusals = 0,
        um_records_quarantined = 0, um_recent_quarantined_seqs = [], um_quarantine_failures = 0,
        um_consecutive_failures = 0, um_acknowledged_seq = acked, um_last_error = []\<rparr>,
      up_next_attempt_ns = 0, up_backoff_ns = 0, up_record_budget = max 1 (uo_maximum_records opts),
      up_jitter_state = 0x9E3779B97F4A7C15, up_quarantine_file = file\<rparr>"

definition set_metrics :: "(uplink_metrics \<Rightarrow> uplink_metrics) \<Rightarrow> uplink \<Rightarrow> uplink" where
  "set_metrics f u = u\<lparr>up_metrics := f (up_metrics u)\<rparr>"

section \<open>Back-off\<close>

definition next_backoff :: "uplink_options \<Rightarrow> uplink_state \<Rightarrow> u64 \<Rightarrow> u64" where
  "next_backoff opts state backoff =
     (if state = Unauthorized then uo_maximum_backoff_ns opts
      else if backoff = 0 then uo_initial_backoff_ns opts
      else min (uo_maximum_backoff_ns opts) (backoff * 2))"

definition next_jitter :: "u64 \<Rightarrow> u64" where
  "next_jitter j0 =
     (let j1 = j0 XOR push_bit 13 j0; j2 = j1 XOR drop_bit 7 j1 in j2 XOR push_bit 17 j2)"

definition uplink_fail :: "u64 \<Rightarrow> uplink_state \<Rightarrow> byte list \<Rightarrow> uplink \<Rightarrow> u64 \<times> uplink" where
  "uplink_fail now_ns state err u =
     (let backoff = next_backoff (up_options u) state (up_backoff_ns u);
          jitter = next_jitter (up_jitter_state u);
          delay = backoff div 2 + jitter mod (backoff div 2 + 1)
      in (delay, set_metrics (\<lambda>m. m\<lparr>um_state := state, um_consecutive_failures := um_consecutive_failures m + 1,
                    um_last_error := err\<rparr>)
                  (u\<lparr>up_backoff_ns := backoff, up_jitter_state := jitter, up_next_attempt_ns := now_ns + delay\<rparr>)))"

section \<open>The Manager's answer\<close>

record verdict =
  vd_accepted :: bool
  vd_rejected_lines :: "nat list"
  vd_rejected_reasons :: "byte list list"
  vd_why :: "byte list"

definition refused_verdict :: "byte list \<Rightarrow> verdict" where
  "refused_verdict why = \<lparr>vd_accepted = False, vd_rejected_lines = [], vd_rejected_reasons = [], vd_why = why\<rparr>"

definition response_limits :: json_limits where
  "response_limits = \<lparr>maximum_bytes = 256 * 1024, maximum_depth = 8, maximum_values = 20000\<rparr>"

text \<open>The reason text of one rejected record.\<close>

definition rejection_text :: "json_value \<Rightarrow> byte list" where
  "rejection_text entry =
     (let base = (case Option.bind (find_member (ascii ''reason'') entry) as_string of None \<Rightarrow> ascii ''rejected'' | Some s \<Rightarrow> s)
      in case Option.bind (find_member (ascii ''detail'') entry) as_string of
           None \<Rightarrow> base
         | Some d \<Rightarrow> base @ ascii '' ('' @ take 200 d @ ascii '')'')"

text \<open>The loop over the rejected entries: the lines named so far serve as the \<open>seen\<close> vector.\<close>

fun rejected_loop :: "nat \<Rightarrow> json_value list \<Rightarrow> nat list \<Rightarrow> byte list list \<Rightarrow> (nat list \<times> byte list list) option" where
  "rejected_loop sent [] lines reasons = Some (lines, reasons)"
| "rejected_loop sent (entry # entries) lines reasons =
     (case Option.bind (find_member (ascii ''line'') entry) as_unsigned of
        None \<Rightarrow> None
      | Some position \<Rightarrow>
          if unat position < 1 \<or> sent < unat position \<or> unat position \<in> set lines then None
          else rejected_loop sent entries (lines @ [unat position]) (reasons @ [rejection_text entry]))"

definition check_response ::
  "(byte list \<Rightarrow> bool) \<Rightarrow> post_response \<Rightarrow> byte list \<Rightarrow> nat \<Rightarrow> verdict" where
  "check_response in_range response batch_id sent =
     (case parse_json in_range response_limits (pr_body response) of
        Inl parse_error \<Rightarrow> refused_verdict (ascii (''acknowledgement is not a JSON object: '' @ parse_error))
      | Inr document \<Rightarrow>
        (case document of
           Object _ \<Rightarrow>
             if Option.bind (find_member (ascii ''batch_id'') document) as_string \<noteq> Some batch_id
             then refused_verdict (ascii ''acknowledgement is for a different batch'')
             else
               (case (Option.bind (find_member (ascii ''received'') document) as_unsigned,
                      Option.bind (find_member (ascii ''accepted'') document) as_unsigned,
                      Option.bind (find_member (ascii ''duplicates'') document) as_unsigned,
                      find_member (ascii ''rejected'') document) of
                  (Some received, Some accepted, Some duplicates, Some (Array entries)) \<Rightarrow>
                    (case rejected_loop sent entries [] [] of
                       None \<Rightarrow> refused_verdict (ascii ''the Manager rejected a record without naming a valid line'')
                     | Some (lines, reasons) \<Rightarrow>
                         if received \<noteq> of_nat sent \<or> accepted + duplicates + of_nat (length lines) \<noteq> of_nat sent
                         then refused_verdict (ascii ''acknowledgement does not account for every record sent'' @
                                (if reasons = [] then [] else ascii ''; the Manager reported: '' @ hd reasons))
                         else \<lparr>vd_accepted = True, vd_rejected_lines = lines, vd_rejected_reasons = reasons, vd_why = []\<rparr>)
                | _ \<Rightarrow> refused_verdict (ascii ''acknowledgement lacks received, accepted, duplicates or rejected''))
         | _ \<Rightarrow> refused_verdict (ascii ''acknowledgement is not a JSON object: '')))"

section \<open>Quarantine\<close>

definition hex2 :: "byte \<Rightarrow> byte list" where
  "hex2 c = [hex_digit (drop_bit 4 c), hex_digit (c AND 0x0F)]"

definition json_escaped :: "byte list \<Rightarrow> byte list" where
  "json_escaped str =
     concat (map (\<lambda>c. if c = 0x22 \<or> c = 0x5C then [0x5C, c]
                      else if c < 0x20 then [0x5C, 0x75, 0x30, 0x30] @ hex2 c else [c]) str)"

text \<open>Opening and writing the quarantine file, by the index of the rejected record.\<close>

record quarantine_io =
  qi_open :: "nat \<Rightarrow> bool"
  qi_write :: "nat \<Rightarrow> nat option"
  qi_close :: "nat \<Rightarrow> bool"

definition quarantine_line :: "wal_record \<Rightarrow> byte list \<Rightarrow> byte list" where
  "quarantine_line r reason =
     ascii (CHR ''{'' # CHR 0x22 # ''seq'' @ CHR 0x22 # '':'' @ to_string (wr_seq r) @ '','' @ CHR 0x22 # ''reason'' @ CHR 0x22 # '':'' @ [CHR 0x22])
     @ json_escaped reason @ ascii (CHR 0x22 # '','' @ CHR 0x22 # ''record'' @ CHR 0x22 # '':'' @ [CHR 0x22])
     @ json_escaped (wr_payload r) @ ascii (CHR 0x22 # ''}'' @ [CHR 0x0A])"

definition quarantine_one ::
  "quarantine_io \<Rightarrow> uplink_options \<Rightarrow> nat \<Rightarrow> wal_record \<Rightarrow> byte list \<Rightarrow> byte list option \<Rightarrow> bool \<times> byte list option" where
  "quarantine_one io opts index r reason file =
     (let content = (case file of None \<Rightarrow> [] | Some bs \<Rightarrow> bs)
      in if uo_quarantine_path opts = [] then (False, file)
         else if uo_quarantine_limit_bytes opts < length content + length (wr_payload r) + 512 then (False, file)
         else if \<not> qi_open io index then (False, file)
         else case qi_write io index of
                None \<Rightarrow> (qi_close io index, Some (content @ quarantine_line r reason))
              | Some k \<Rightarrow> (False, Some (content @ take k (quarantine_line r reason))))"

fun quarantine_loop ::
  "quarantine_io \<Rightarrow> uplink_options \<Rightarrow> wal_record list \<Rightarrow> nat \<Rightarrow> nat list \<Rightarrow> byte list list \<Rightarrow> nat \<Rightarrow> byte list option \<Rightarrow>
   nat \<times> byte list option" where
  "quarantine_loop io opts records index [] reasons failures file = (failures, file)"
| "quarantine_loop io opts records index (line # lines) reasons failures file =
     (let (written, file') = quarantine_one io opts index (records ! (line - 1)) (reasons ! index) file
      in quarantine_loop io opts records (Suc index) lines reasons
           (if \<not> written \<and> uo_quarantine_path opts \<noteq> [] then failures + 1 else failures) file')"

definition push_recent :: "nat \<Rightarrow> nat list \<Rightarrow> nat list" where
  "push_recent seq recent = (let r = recent @ [seq] in if 16 < length r then tl r else r)"

definition uplink_quarantine :: "quarantine_io \<Rightarrow> wal_record list \<Rightarrow> verdict \<Rightarrow> uplink \<Rightarrow> uplink" where
  "uplink_quarantine io records outcome u =
     (let lines = vd_rejected_lines outcome; reasons = vd_rejected_reasons outcome;
          (failures, file) = quarantine_loop io (up_options u) records 0 lines reasons 0 (up_quarantine_file u)
      in set_metrics (\<lambda>m. m\<lparr>um_records_quarantined := um_records_quarantined m + length lines,
             um_recent_quarantined_seqs := fold (\<lambda>line. push_recent (wr_seq (records ! (line - 1)))) lines (um_recent_quarantined_seqs m),
             um_quarantine_failures := um_quarantine_failures m + failures,
             um_last_error := (if reasons \<noteq> [] then ascii ''quarantined: '' @ hd reasons else um_last_error m)\<rparr>)
           (u\<lparr>up_quarantine_file := file\<rparr>))"

section \<open>One delivery attempt\<close>

definition batch_id_of :: "wal_record list \<Rightarrow> byte list" where
  "batch_id_of records = ascii (''wal-'' @ to_string (wr_seq (hd records)) @ ''-'' @ to_string (wr_seq (last records)))"

definition ndjson_of :: "wal_record list \<Rightarrow> byte list" where
  "ndjson_of records = concat (map (\<lambda>r. wr_payload r @ [0x0A]) records)"

text \<open>
  \<open>step\<close>, over the log operations \<open>acked\<close>, \<open>read_log\<close> and \<open>ack_log\<close> and the poster \<open>post\<close>, in
  three parts: settling a batch the Manager took, delivering a batch that was read, and the whole
  attempt. Each returns the delay, the uplink and the log.
\<close>

definition uplink_settle ::
  "(nat \<Rightarrow> 'l \<Rightarrow> bool result \<times> 'l) \<Rightarrow> quarantine_io \<Rightarrow> u64 \<Rightarrow> wal_record list \<Rightarrow> verdict \<Rightarrow> uplink \<Rightarrow> 'l \<Rightarrow> u64 \<times> uplink \<times> 'l"
where
  "uplink_settle ack_log qio now_ns records outcome u log =
     (let u1 = (if vd_rejected_lines outcome \<noteq> [] then uplink_quarantine qio records outcome u else u);
          final = wr_seq (last records)
      in case ack_log final log of
           (Inl _, log1) \<Rightarrow>
             (let (d, u2) = uplink_fail now_ns Backing_off
                    (ascii ''cannot record the acknowledgement in the write-ahead log'') u1
              in (d, u2, log1))
         | (Inr _, log1) \<Rightarrow>
             (0, set_metrics (\<lambda>m. m\<lparr>um_state := Idle, um_consecutive_failures := 0,
                    um_records_acknowledged := um_records_acknowledged m + (length records - length (vd_rejected_lines outcome)),
                    um_acknowledged_seq := final,
                    um_last_error := (if vd_rejected_lines outcome = [] then [] else um_last_error m)\<rparr>)
                  (u1\<lparr>up_backoff_ns := 0, up_next_attempt_ns := 0,
                      up_record_budget := min (uo_maximum_records (up_options u1)) (up_record_budget u1 * 2)\<rparr>),
              log1))"

definition uplink_deliver ::
  "(nat \<Rightarrow> 'l \<Rightarrow> bool result \<times> 'l) \<Rightarrow> (byte list \<Rightarrow> byte list \<Rightarrow> post_response) \<Rightarrow> (byte list \<Rightarrow> bool) \<Rightarrow> quarantine_io \<Rightarrow> u64 \<Rightarrow>
   wal_record list \<Rightarrow> uplink \<Rightarrow> 'l \<Rightarrow> u64 \<times> uplink \<times> 'l"
where
  "uplink_deliver ack_log post in_range qio now_ns records u log =
     (let batch_id = batch_id_of records;
          u1 = set_metrics (\<lambda>m. m\<lparr>um_state := Delivering, um_batches_sent := um_batches_sent m + 1\<rparr>) u;
          response = post batch_id (ndjson_of records)
      in case pr_status response of
           retry \<Rightarrow>
             (let (d, u2) = uplink_fail now_ns Backing_off
                    (if pr_detail response = [] then ascii ''delivery failed'' else pr_detail response)
                    (set_metrics (\<lambda>m. m\<lparr>um_retries := um_retries m + 1\<rparr>) u1)
              in (d, u2, log))
         | unauthorized \<Rightarrow>
             (let (d, u2) = uplink_fail now_ns Unauthorized
                    (ascii (''the Manager refused this agent'' @ CHR 0x27 # ''s credentials'')) u1
              in (d, u2, log))
         | refused \<Rightarrow>
             (let u2 = set_metrics (\<lambda>m. m\<lparr>um_refusals := um_refusals m + 1\<rparr>) u1;
                  u3 = (if pr_http_status response = 413 \<and> 1 < up_record_budget u2
                        then u2\<lparr>up_record_budget := max 1 (up_record_budget u2 div 2)\<rparr> else u2);
                  (d, u4) = uplink_fail now_ns Rejected
                    (ascii (''the Manager refused the batch (HTTP '' @ to_string (pr_http_status response) @ '')'')) u3
              in (d, u4, log))
         | answered \<Rightarrow>
             (let outcome = check_response in_range response batch_id (length records)
              in if \<not> vd_accepted outcome then
                   let (d, u2) = uplink_fail now_ns Rejected (vd_why outcome)
                         (set_metrics (\<lambda>m. m\<lparr>um_refusals := um_refusals m + 1\<rparr>) u1)
                   in (d, u2, log)
                 else uplink_settle ack_log qio now_ns records outcome u1 log))"

definition uplink_step_with ::
  "('l \<Rightarrow> nat) \<Rightarrow> (nat \<Rightarrow> nat \<Rightarrow> nat \<Rightarrow> 'l \<Rightarrow> wal_record list result \<times> 'l) \<Rightarrow> (nat \<Rightarrow> 'l \<Rightarrow> bool result \<times> 'l) \<Rightarrow>
   (byte list \<Rightarrow> byte list \<Rightarrow> post_response) \<Rightarrow> (byte list \<Rightarrow> bool) \<Rightarrow> quarantine_io \<Rightarrow> u64 \<Rightarrow> uplink \<Rightarrow> 'l \<Rightarrow> u64 \<times> uplink \<times> 'l"
where
  "uplink_step_with acked read_log ack_log post in_range qio now_ns u log =
     (if now_ns < up_next_attempt_ns u then (up_next_attempt_ns u - now_ns, u, log)
      else
        case read_log (Suc (acked log)) (up_record_budget u) (uo_maximum_bytes (up_options u)) log of
          (Inl _, log1) \<Rightarrow>
            (let (d, u1) = uplink_fail now_ns Backing_off (ascii ''cannot read the write-ahead log'') u in (d, u1, log1))
        | (Inr records, log1) \<Rightarrow>
            if records = [] then (uo_idle_poll_ns (up_options u), set_metrics (\<lambda>m. m\<lparr>um_state := Idle\<rparr>) u, log1)
            else uplink_deliver ack_log post in_range qio now_ns records u log1)"

text \<open>The step on the write-ahead log; reading and acknowledging each have their own system calls.\<close>

definition uplink_step ::
  "(byte list \<Rightarrow> byte list \<Rightarrow> post_response) \<Rightarrow> (byte list \<Rightarrow> bool) \<Rightarrow> quarantine_io \<Rightarrow> wal_io \<Rightarrow> wal_io \<Rightarrow> u64 \<Rightarrow> uplink \<Rightarrow> wal \<Rightarrow>
   u64 \<times> uplink \<times> wal" where
  "uplink_step post in_range qio read_io ack_io now_ns u w =
     uplink_step_with acknowledged_seq (wal_read read_io) (acknowledge ack_io) post in_range qio now_ns u w"

end
