(* ===== verification/Uplink_Properties.thy ===== *)
theory Uplink_Properties
  imports Uplink
begin

text \<open>
  What delivery guarantees. The uplink is a client of a log with an acknowledged cursor: the
  interface is a locale, the uplink's lemmas are proved in it once, and the write-ahead log is
  shown to provide it. The cursor moves only behind an answer of the Manager that matches the
  batch; the delays stay within the configured back-off.
\<close>

section \<open>What an accepted answer says\<close>

definition answer_field :: "string \<Rightarrow> json_value \<Rightarrow> u64 option" where
  "answer_field name doc = Option.bind (find_member (ascii name) doc) as_unsigned"

lemma rejected_loop_lines:
  assumes "rejected_loop sent entries lines reasons = Some (lines', reasons')"
    "distinct lines" "set lines \<subseteq> {1..sent}" "length lines = length reasons"
  shows "distinct lines' \<and> set lines' \<subseteq> {1..sent} \<and> length lines' = length reasons' \<and>
    (\<exists>named. lines' = lines @ named \<and>
      map (\<lambda>entry. map_option unat (answer_field ''line'' entry)) entries = map Some named)"
  using assms
proof (induction sent entries lines reasons rule: rejected_loop.induct)
  case (2 sent entry entries lines reasons)
  then obtain position where "Option.bind (find_member (ascii ''line'') entry) as_unsigned = Some position"
    by (auto split: option.splits)
  with 2 show ?case by (auto simp: answer_field_def split: if_splits)
qed simp

definition answer_matches :: "(byte list \<Rightarrow> bool) \<Rightarrow> byte list \<Rightarrow> byte list \<Rightarrow> nat \<Rightarrow> nat list \<Rightarrow> bool" where
  "answer_matches in_range body batch_id sent lines \<longleftrightarrow>
     (\<exists>doc accepted duplicates entries. parse_json in_range response_limits body = Inr doc \<and>
        Option.bind (find_member (ascii ''batch_id'') doc) as_string = Some batch_id \<and>
        answer_field ''received'' doc = Some (of_nat sent) \<and> answer_field ''accepted'' doc = Some accepted \<and>
        answer_field ''duplicates'' doc = Some duplicates \<and>
        find_member (ascii ''rejected'') doc = Some (Array entries) \<and>
        map (\<lambda>entry. map_option unat (answer_field ''line'' entry)) entries = map Some lines \<and>
        accepted + duplicates + of_nat (length lines) = of_nat sent \<and>
        distinct lines \<and> set lines \<subseteq> {1..sent})"

lemma check_response_accepts:
  assumes "vd_accepted (check_response in_range response batch_id sent)"
  shows "answer_matches in_range (pr_body response) batch_id sent
      (vd_rejected_lines (check_response in_range response batch_id sent)) \<and>
    length (vd_rejected_reasons (check_response in_range response batch_id sent)) =
      length (vd_rejected_lines (check_response in_range response batch_id sent))"
proof (cases "parse_json in_range response_limits (pr_body response)")
  case (Inl e)
  then show ?thesis using assms by (simp add: check_response_def refused_verdict_def)
next
  case (Inr doc)
  note parsed = Inr
  from assms parsed obtain members where doc: "doc = Object members"
    by (cases doc) (simp_all add: check_response_def refused_verdict_def)
  let ?num = "\<lambda>n. Option.bind (find_member (ascii n) doc) as_unsigned"
  have id: "Option.bind (find_member (ascii ''batch_id'') doc) as_string = Some batch_id"
    using assms parsed doc by (auto simp: check_response_def refused_verdict_def split: if_splits)
  obtain received accepted duplicates entries where
    fields: "?num ''received'' = Some received" "?num ''accepted'' = Some accepted" "?num ''duplicates'' = Some duplicates"
      "find_member (ascii ''rejected'') doc = Some (Array entries)"
    using assms parsed doc id
    by (auto simp: check_response_def refused_verdict_def split: option.splits json_value.splits)
  obtain lines reasons where loop: "rejected_loop sent entries [] [] = Some (lines, reasons)"
    using assms parsed doc id fields by (auto simp: check_response_def refused_verdict_def split: option.splits)
  have sums: "received = of_nat sent" "accepted + duplicates + of_nat (length lines) = of_nat sent"
    using assms parsed doc id fields loop by (auto simp: check_response_def refused_verdict_def split: if_splits)
  have res: "check_response in_range response batch_id sent =
      \<lparr>vd_accepted = True, vd_rejected_lines = lines, vd_rejected_reasons = reasons, vd_why = []\<rparr>"
    using parsed doc id fields loop sums by (simp add: check_response_def)
  show ?thesis
    using parsed id fields sums rejected_loop_lines [OF loop]
    by (auto simp: res answer_matches_def answer_field_def)
qed

lemma check_response_length:
  assumes "vd_accepted (check_response in_range response batch_id sent)"
  shows "length (vd_rejected_lines (check_response in_range response batch_id sent)) \<le> sent"
proof -
  let ?lines = "vd_rejected_lines (check_response in_range response batch_id sent)"
  have "distinct ?lines" "set ?lines \<subseteq> {1..sent}"
    using check_response_accepts [OF assms] by (auto simp: answer_matches_def)
  then show ?thesis using card_mono [of "{1..sent}" "set ?lines"] by (simp add: distinct_card)
qed

section \<open>The log as the uplink sees it\<close>

text \<open>The records delivered one way or the other: stored by the Manager, or set aside here.\<close>

definition settled_count :: "uplink \<Rightarrow> nat" where
  "settled_count u = um_records_acknowledged (up_metrics u) + um_records_quarantined (up_metrics u)"

locale acked_log =
  fixes acked :: "'l \<Rightarrow> nat"
    and read_log :: "nat \<Rightarrow> nat \<Rightarrow> nat \<Rightarrow> 'l \<Rightarrow> wal_record list result \<times> 'l"
    and ack_log :: "nat \<Rightarrow> 'l \<Rightarrow> bool result \<times> 'l"
  assumes read_acked: "acked (snd (read_log start n b l)) = acked l"
    and read_range: "fst (read_log start n b l) = Inr records \<Longrightarrow> r \<in> set records \<Longrightarrow> start \<le> wr_seq r"
    and ack_moves: "fst (ack_log seq l) = Inr ok \<Longrightarrow> acked (snd (ack_log seq l)) = max (acked l) seq"
    and ack_refused: "fst (ack_log seq l) = Inl e \<Longrightarrow> acked (snd (ack_log seq l)) = acked l"
begin

text \<open>One attempt either leaves the cursor or moves it to the end of a batch the Manager took.\<close>

lemma settle_cursor:
  assumes "uplink_settle ack_log qio now records outcome u l = (d, u', l')" and "acked l < wr_seq (last records)"
    and "length (vd_rejected_lines outcome) \<le> length records"
  shows "acked l' = acked l \<or> (acked l' = wr_seq (last records) \<and> d = 0 \<and> um_acknowledged_seq (up_metrics u') = acked l' \<and>
    settled_count u' = settled_count u + length records)"
proof (cases "ack_log (wr_seq (last records)) l")
  case (Pair a l2)
  then show ?thesis
    using assms ack_refused [of "wr_seq (last records)" l] ack_moves [of "wr_seq (last records)" l]
    by (cases a) (auto simp: uplink_settle_def Let_def set_metrics_def settled_count_def uplink_quarantine_def split: prod.splits)
qed

lemma deliver_cursor:
  assumes "uplink_deliver ack_log post in_range qio now records u l = (d, u', l')" "acked l' \<noteq> acked l"
    and "acked l < wr_seq (last records)"
  shows "pr_status (post (batch_id_of records) (ndjson_of records)) = answered"
    "vd_accepted (check_response in_range (post (batch_id_of records) (ndjson_of records)) (batch_id_of records) (length records))"
    "acked l' = wr_seq (last records) \<and> d = 0 \<and> um_acknowledged_seq (up_metrics u') = acked l' \<and>
     settled_count u' = settled_count u + length records"
proof -
  let ?p = "post (batch_id_of records) (ndjson_of records)"
  let ?v = "check_response in_range ?p (batch_id_of records) (length records)"
  show ans: "pr_status ?p = answered" and acc: "vd_accepted ?v"
    using assms(1,2) by (auto simp: uplink_deliver_def Let_def split: post_status.splits prod.splits if_splits)
  obtain u1 where settle: "uplink_settle ack_log qio now records ?v u1 l = (d, u', l')" and "settled_count u1 = settled_count u"
    using assms(1) ans acc by (auto simp: uplink_deliver_def Let_def settled_count_def set_metrics_def)
  with settle_cursor [OF settle assms(3) check_response_length [OF acc]] assms(2)
  show "acked l' = wr_seq (last records) \<and> d = 0 \<and> um_acknowledged_seq (up_metrics u') = acked l' \<and>
     settled_count u' = settled_count u + length records" by simp
qed

lemma step_cursor:
  assumes step: "uplink_step_with acked read_log ack_log post in_range qio now u l = (d, u', l')"
    and moved: "acked l' \<noteq> acked l"
  shows "\<exists>records l1. read_log (Suc (acked l)) (up_record_budget u) (uo_maximum_bytes (up_options u)) l = (Inr records, l1) \<and>
    records \<noteq> [] \<and> pr_status (post (batch_id_of records) (ndjson_of records)) = answered \<and>
    vd_accepted (check_response in_range (post (batch_id_of records) (ndjson_of records)) (batch_id_of records) (length records)) \<and>
    acked l' = wr_seq (last records) \<and> acked l < acked l' \<and> d = 0 \<and> um_acknowledged_seq (up_metrics u') = acked l' \<and>
    settled_count u' = settled_count u + length records"
proof -
  let ?read = "read_log (Suc (acked l)) (up_record_budget u) (uo_maximum_bytes (up_options u)) l"
  have same: "acked (snd ?read) = acked l" by (rule read_acked)
  from step moved same obtain records l1 where rd: "?read = (Inr records, l1)" "records \<noteq> []"
    and deliver: "uplink_deliver ack_log post in_range qio now records u l1 = (d, u', l')"
    by (auto simp: uplink_step_with_def split: if_splits sum.splits prod.splits)
  have "acked l1 = acked l" using same rd by simp
  moreover have "acked l < wr_seq (last records)"
    using read_range [of "Suc (acked l)" "up_record_budget u" "uo_maximum_bytes (up_options u)" l records "last records"] rd
    by (simp add: Suc_le_eq)
  ultimately show ?thesis
    using deliver_cursor [OF deliver] moved rd by auto
qed

end

section \<open>The write-ahead log provides it\<close>

lemma drop_missing_loop_acked: "acknowledged_seq (snd (drop_missing_loop n w)) = acknowledged_seq w"
  by (induction n arbitrary: w) (auto simp: split_beta drop_gone_def Let_def)

lemma read_segments_acked:
  "acknowledged_seq (snd (read_segments io from mr mb index offset records bytes w)) = acknowledged_seq w"
proof (induction io "from" mr mb index offset records bytes w rule: read_segments.induct)
  case (1 io "from" mr mb index offset records bytes w)
  have iso: "acknowledged_seq (isolate_corrupt_tail io i b c w) = acknowledged_seq w" for i b c
    by (simp add: isolate_corrupt_tail_def Let_def)
  show ?case
  proof (cases "length (segments w) \<le> index")
    case True
    then show ?thesis by (simp add: read_segments.simps [of io "from" mr mb index])
  next
    case False
    let ?c = "segments w ! index"
    show ?thesis
    proof (cases "d_lookup (disk w) (seg_first ?c)")
      case None
      obtain removed w' where d: "drop_missing_segments w = (removed, w')" by fastforce
      have "acknowledged_seq w' = acknowledged_seq w"
        using drop_missing_loop_acked [of "length (segments w)" w] d by (simp add: drop_missing_segments_def)
      then show ?thesis
        using "1.IH"(1) [OF False refl refl None d [symmetric] refl _ refl refl] None False d
        by (simp add: read_segments.simps [of io "from" mr mb index] Let_def)
    next
      case (Some ino)
      let ?e = "if offset = 0 then seg_first ?c else from"
      let ?r = "read_frames io (seg_first ?c) (dk_data (disk w) ino) (seg_bytes ?c) (durable_seq w) from mr mb offset ?e records bytes"
      show ?thesis
        using False Some iso "1.IH"(2) [OF False refl refl Some]
        by (cases ?r) (simp_all add: read_segments.simps [of io "from" mr mb index offset] Let_def)
    qed
  qed
qed

lemma read_frames_from:
  "\<forall>r\<in>set records. from \<le> wr_seq r \<Longrightarrow>
   \<forall>r\<in>set (fr_records (read_frames io f data n durable from mr mb offset expected records bytes)). from \<le> wr_seq r"
proof (induction io f data n durable "from" mr mb offset expected records bytes rule: read_frames.induct)
  case (1 io f data n durable "from" mr mb offset expected records bytes)
  show ?case
    by (subst read_frames.simps) (use 1 in \<open>auto simp: Let_def split: option.split\<close>)
qed

lemma read_segments_from:
  "\<forall>r\<in>set records. from \<le> wr_seq r \<Longrightarrow>
   fst (read_segments io from mr mb index offset records bytes w) = Inr rs \<Longrightarrow> \<forall>r\<in>set rs. from \<le> wr_seq r"
proof (induction io "from" mr mb index offset records bytes w rule: read_segments.induct)
  case (1 io "from" mr mb index offset records bytes w)
  show ?case
  proof (cases "length (segments w) \<le> index")
    case True
    then show ?thesis using "1.prems" by (simp add: read_segments.simps [of io "from" mr mb index])
  next
    case False
    let ?c = "segments w ! index"
    show ?thesis
    proof (cases "d_lookup (disk w) (seg_first ?c)")
      case None
      obtain removed w' where d: "drop_missing_segments w = (removed, w')" by fastforce
      show ?thesis
        using "1.IH"(1) [OF False refl refl None d [symmetric] refl _ refl refl] None False d "1.prems"
        by (auto simp: read_segments.simps [of io "from" mr mb index] Let_def split: if_splits)
    next
      case (Some ino)
      let ?e = "if offset = 0 then seg_first ?c else from"
      let ?r = "read_frames io (seg_first ?c) (dk_data (disk w) ino) (seg_bytes ?c) (durable_seq w) from mr mb offset ?e records bytes"
      have got: "\<forall>r\<in>set (fr_records ?r). from \<le> wr_seq r" using read_frames_from "1.prems"(1) by blast
      show ?thesis
        using "1.prems"(2) got False Some "1.IH"(2) [OF False refl refl Some]
        by (cases ?r) (auto simp: read_segments.simps [of io "from" mr mb index offset] Let_def split: if_splits)
    qed
  qed
qed

lemma drop_acknowledged_acked: "acknowledged_seq (drop_acknowledged io keep n w) = acknowledged_seq w"
proof (induction io keep n w rule: drop_acknowledged.induct)
  case (1 io keep n w)
  then show ?case by (subst drop_acknowledged.simps) (auto simp: delete_segment_def Let_def)
qed

interpretation wal_log: acked_log acknowledged_seq "wal_read read_io" "acknowledge ack_io" for read_io ack_io
proof
  show "acknowledged_seq (snd (wal_read read_io start n b l)) = acknowledged_seq l" for start n b l
    using read_segments_acked by (simp add: wal_read_def Let_def split_beta)
  show "start \<le> wr_seq r" if "fst (wal_read read_io start n b l) = Inr records" "r \<in> set records" for start n b l records r
    using that read_segments_from [of "[]" start] by (auto simp: wal_read_def Let_def split_beta split: if_splits)
  show "acknowledged_seq (snd (acknowledge ack_io seq l)) = max (acknowledged_seq l) seq"
    if "fst (acknowledge ack_io seq l) = Inr ok" for seq l ok
    using that by (auto simp: acknowledge_def persist_cursor_def drop_acknowledged_acked max_def
        split: if_splits prod.splits cursor_io.splits)
  show "acknowledged_seq (snd (acknowledge ack_io seq l)) = acknowledged_seq l"
    if "fst (acknowledge ack_io seq l) = Inl e" for seq l e
    using that by (auto simp: acknowledge_def persist_cursor_def split: if_splits prod.splits cursor_io.splits)
qed

section \<open>Delivery on the write-ahead log\<close>

text \<open>
  C33. The acknowledged cursor moves only behind the Manager's word: an attempt leaves it where it
  was, or it had read a non-empty batch behind the old cursor, the Manager answered the post of
  exactly that batch, the answer is a JSON object that names the batch, says that as many records
  were received as were sent and accounts for them all: the numbers it gives as stored and as
  duplicate and the number of entries of its rejected array add up, in 64-bit arithmetic, to the
  number of records sent, and the entries of that array name distinct positions inside the batch.
  Then the new cursor is the last record of that batch, and the counters of
  acknowledged and quarantined records together grew by the size of the batch.
\<close>

theorem uplink_cursor_behind_answer:
  "case uplink_step post in_range qio read_io ack_io now u w of (d, u', w') \<Rightarrow>
    acknowledged_seq w' = acknowledged_seq w \<or>
    (\<exists>records w1 lines.
      wal_read read_io (Suc (acknowledged_seq w)) (up_record_budget u) (uo_maximum_bytes (up_options u)) w = (Inr records, w1) \<and>
      records \<noteq> [] \<and> acknowledged_seq w' = wr_seq (last records) \<and> acknowledged_seq w < acknowledged_seq w' \<and>
      pr_status (post (batch_id_of records) (ndjson_of records)) = answered \<and>
      answer_matches in_range (pr_body (post (batch_id_of records) (ndjson_of records))) (batch_id_of records) (length records) lines \<and>
      settled_count u' = settled_count u + length records)"
proof (cases "uplink_step post in_range qio read_io ack_io now u w")
  case (fields d u' w')
  note step = fields [unfolded uplink_step_def]
  show ?thesis
  proof (cases "acknowledged_seq w' = acknowledged_seq w")
    case True
    with fields show ?thesis by simp
  next
    case False
    from wal_log.step_cursor [OF step False] check_response_accepts fields show ?thesis by (simp; metis)
  qed
qed

section \<open>Delays and batch sizes\<close>

text \<open>
  After a failure the uplink waits between half of its back-off and the whole of it, the next
  attempt is that far in the future, and the back-off is the maximum when the Manager refused the
  agent's credentials, the initial one after a success, and otherwise twice the last one but at
  most the maximum. The jitter never adds more than half.
\<close>

theorem uplink_fail_delay:
  "case uplink_fail now state err u of (d, u') \<Rightarrow>
     up_backoff_ns u' = next_backoff (up_options u) state (up_backoff_ns u) \<and>
     up_backoff_ns u' \<le> max (uo_initial_backoff_ns (up_options u)) (uo_maximum_backoff_ns (up_options u)) \<and>
     up_backoff_ns u' div 2 \<le> d \<and> d \<le> up_backoff_ns u' \<and> up_next_attempt_ns u' = now + d"
proof -
  define b where "b = next_backoff (up_options u) state (up_backoff_ns u)"
  define j where "j = next_jitter (up_jitter_state u)"
  have half: "unat (b div 2) = unat b div 2" by (simp add: unat_div)
  have bound: "unat b < 2 ^ 64" using unsigned_less [of b, where ?'a = nat] by simp
  have "unat (b div 2 + 1) = unat b div 2 + 1"
    using bound half by (simp add: unat_word_ariths)
  then have "unat (j mod (b div 2 + 1)) \<le> unat b div 2"
    using mod_less_divisor [of "unat b div 2 + 1" "unat j"] by (simp add: unat_mod)
  moreover from this have "unat (b div 2 + j mod (b div 2 + 1)) = unat b div 2 + unat (j mod (b div 2 + 1))"
    using bound half by (simp add: unat_word_ariths)
  ultimately have "b div 2 \<le> b div 2 + j mod (b div 2 + 1) \<and> b div 2 + j mod (b div 2 + 1) \<le> b"
    using half by (simp add: word_le_nat_alt)
  moreover have "b \<le> max (uo_initial_backoff_ns (up_options u)) (uo_maximum_backoff_ns (up_options u))"
    by (simp add: b_def next_backoff_def le_max_iff_disj min_le_iff_disj)
  ultimately show ?thesis
    by (simp add: uplink_fail_def set_metrics_def Let_def b_def [symmetric] j_def [symmetric])
qed

text \<open>The batch size stays between one record and the configured maximum.\<close>

definition budget_ok :: "uplink \<Rightarrow> bool" where
  "budget_ok u \<longleftrightarrow> 1 \<le> up_record_budget u \<and> up_record_budget u \<le> uo_maximum_records (up_options u)"

lemma budget_ok_fail: "uplink_fail now state err u = (d, u') \<Longrightarrow> budget_ok u' = budget_ok u"
  by (auto simp: uplink_fail_def budget_ok_def set_metrics_def Let_def)

lemma budget_ok_settle:
  assumes "uplink_settle ack_log qio now records outcome u l = (d, u', l')" "budget_ok u"
  shows "budget_ok u'"
proof -
  define u1 where "u1 = (if vd_rejected_lines outcome \<noteq> [] then uplink_quarantine qio records outcome u else u)"
  have u1: "budget_ok u1" using assms(2)
    by (auto simp: u1_def budget_ok_def uplink_quarantine_def set_metrics_def Let_def split: prod.splits)
  show ?thesis
    using assms(1) budget_ok_fail u1
    by (auto simp: uplink_settle_def u1_def [symmetric] budget_ok_def set_metrics_def Let_def split: prod.splits sum.splits)
qed

lemma budget_ok_deliver:
  assumes "uplink_deliver ack_log post in_range qio now records u l = (d, u', l')" "budget_ok u"
  shows "budget_ok u'"
  using assms
  by (auto simp: uplink_deliver_def Let_def split: post_status.splits prod.splits if_splits
      dest!: budget_ok_fail budget_ok_settle) (auto simp: budget_ok_def set_metrics_def)

lemma budget_ok_step:
  assumes "budget_ok u"
  shows "budget_ok (fst (snd (uplink_step post in_range qio read_io ack_io now u w)))"
proof -
  obtain d u' w' where s: "uplink_step post in_range qio read_io ack_io now u w = (d, u', w')" by (rule prod_cases3)
  from s assms have "budget_ok u'"
    by (auto simp: uplink_step_def uplink_step_with_def split: if_splits sum.splits prod.splits
        dest!: budget_ok_fail budget_ok_deliver) (auto simp: budget_ok_def set_metrics_def)
  with s show ?thesis by simp
qed

text \<open>
  The states an uplink can be in: freshly made, or after an attempt on whatever the log holds by
  then, with whatever the network and the file system answer.
\<close>

inductive uplink_reachable :: "uplink_options \<Rightarrow> uplink \<Rightarrow> bool" for opts where
  fresh: "uplink_reachable opts (uplink_new acked opts file)"
| attempt: "uplink_reachable opts u \<Longrightarrow>
    uplink_reachable opts (fst (snd (uplink_step post in_range qio read_io ack_io now u w)))"

text \<open>
  The batch size always stays between one record and the configured maximum (when that is at
  least one): a batch the Manager finds too large is halved but never becomes empty, and a taken
  batch lets it grow again no further than the maximum.
\<close>

theorem uplink_budget_in_range:
  assumes "uplink_reachable opts u" "1 \<le> uo_maximum_records opts"
  shows "budget_ok u"
  using assms
proof (induction rule: uplink_reachable.induct)
  case fresh
  then show ?case by (simp add: budget_ok_def uplink_new_def)
next
  case (attempt u post in_range qio read_io ack_io now w)
  then show ?case by (simp add: budget_ok_step)
qed

definition sample_options :: uplink_options where
  "sample_options = \<lparr>uo_maximum_records = 500, uo_maximum_bytes = 1048576, uo_idle_poll_ns = 250000000,
     uo_initial_backoff_ns = 500000000, uo_maximum_backoff_ns = 60000000000, uo_quarantine_path = [],
     uo_quarantine_limit_bytes = 16777216\<rparr>"

theorem uplink_budget_in_range_witness:
  "uplink_reachable sample_options (uplink_new 0 sample_options None) \<and> budget_ok (uplink_new 0 sample_options None)"
  using uplink_budget_in_range [of sample_options "uplink_new 0 sample_options None"]
  by (simp add: uplink_reachable.fresh sample_options_def)

end
