(* ===== verification/Dns_Message.thy ===== *)
theory Dns_Message
  imports Json_Text
begin

text \<open>
  The parser of captured DNS queries, \<^verbatim>\<open>src/sensor/dns_message.cpp\<close>: bytes a program chose,
  read with bounds, and rendered so that the text of a name cannot be misread. The parser is shown
  to accept exactly the well-formed queries of one question, and the rendering to be reversible.
\<close>

section \<open>The parser\<close>

record dns_question =
  dq_transaction_id :: u16
  dq_recursion_desired :: bool
  dq_opcode :: u8
  dq_name :: "byte list"
  dq_type :: u16
  dq_klass :: u16

definition header_size :: nat where "header_size = 12"
definition max_name_wire :: nat where "max_name_wire = 255"
definition max_label :: nat where "max_label = 63"

definition be16 :: "byte \<Rightarrow> byte \<Rightarrow> u16" where
  "be16 hi lo = push_bit 8 (ucast hi) OR ucast lo"

definition append_label_byte :: "byte list \<Rightarrow> byte \<Rightarrow> byte list" where
  "append_label_byte out b =
     (if b = 0x2E \<or> b = 0x5C then out @ [0x5C, b]
      else if 0x21 \<le> b \<and> b \<le> 0x7e then out @ [b]
      else out @ [0x5C, 0x30 + b div 100, 0x30 + (b div 10) mod 10, 0x30 + b mod 10])"

text \<open>The label loop: \<open>position\<close> and the name built so far, until the root label.\<close>

function name_loop :: "byte list \<Rightarrow> nat \<Rightarrow> nat \<Rightarrow> bool \<Rightarrow> byte list \<Rightarrow> (nat \<times> byte list) option" where
  "name_loop msg position wire first_label name =
     (if length msg \<le> position then None
      else let len = msg ! position; position' = position + 1 in
        if len = 0 then Some (position', name)
        else if len AND 0xc0 \<noteq> 0 then None
        else if max_label < unat len \<or> length msg < position' + unat len then None
        else let wire' = wire + (1 + unat len) in
          if max_name_wire < wire' then None
          else name_loop msg (position' + unat len) wire' False
                 (foldl append_label_byte (if first_label then name else name @ [0x2E]) (take (unat len) (drop position' msg))))"
  by pat_completeness auto
termination by (relation "measure (\<lambda>(msg, position, _). length msg - position)") auto

declare name_loop.simps [simp del]

definition parse_dns_query :: "byte list \<Rightarrow> dns_question option" where
  "parse_dns_query msg =
     (if length msg < header_size + 1 + 4 then None
      else let flags = be16 (msg ! 2) (msg ! 3) in
        if flags AND 0x8000 \<noteq> 0 then None
        else if be16 (msg ! 4) (msg ! 5) \<noteq> 1 then None
        else case name_loop msg header_size 1 True [] of
               None \<Rightarrow> None
             | Some (position, name) \<Rightarrow>
                 if length msg < position + 4 then None
                 else Some \<lparr>dq_transaction_id = be16 (msg ! 0) (msg ! 1), dq_recursion_desired = (flags AND 0x0100 \<noteq> 0),
                        dq_opcode = ucast (drop_bit 11 flags AND 0x0f), dq_name = (if name = [] then [0x2E] else name),
                        dq_type = be16 (msg ! position) (msg ! (position + 1)),
                        dq_klass = be16 (msg ! (position + 2)) (msg ! (position + 3))\<rparr>)"

section \<open>Names of types and classes\<close>

definition dns_types :: "(nat \<times> string) list" where
  "dns_types = [(1, ''A''), (2, ''NS''), (5, ''CNAME''), (6, ''SOA''), (12, ''PTR''), (15, ''MX''), (16, ''TXT''), (28, ''AAAA''),
     (33, ''SRV''), (35, ''NAPTR''), (41, ''OPT''), (43, ''DS''), (44, ''SSHFP''), (46, ''RRSIG''), (48, ''DNSKEY''), (52, ''TLSA''),
     (64, ''SVCB''), (65, ''HTTPS''), (99, ''SPF''), (251, ''IXFR''), (252, ''AXFR''), (255, ''ANY''), (257, ''CAA'')]"

definition dns_type_name :: "u16 \<Rightarrow> string" where
  "dns_type_name t = (case map_of dns_types (unat t) of Some s \<Rightarrow> s | None \<Rightarrow> ''TYPE'' @ to_string (unat t))"

definition dns_classes :: "(nat \<times> string) list" where
  "dns_classes = [(1, ''IN''), (3, ''CH''), (4, ''HS''), (255, ''ANY'')]"

definition dns_class_name :: "u16 \<Rightarrow> string" where
  "dns_class_name c = (case map_of dns_classes (unat c) of Some s \<Rightarrow> s | None \<Rightarrow> ''CLASS'' @ to_string (unat c))"

section \<open>The format of a question, as RFC 1035 writes it\<close>

definition encode_labels :: "byte list list \<Rightarrow> byte list" where
  "encode_labels labels = concat (map (\<lambda>l. of_nat (length l) # l) labels)"

definition valid_label :: "byte list \<Rightarrow> bool" where
  "valid_label l \<longleftrightarrow> 1 \<le> length l \<and> length l \<le> 63"

text \<open>The wire form of a name: its labels and the root, 255 bytes at most.\<close>

definition valid_name :: "byte list list \<Rightarrow> bool" where
  "valid_name labels \<longleftrightarrow> list_all valid_label labels \<and> length (encode_labels labels) + 1 \<le> 255"

definition render_label :: "byte list \<Rightarrow> byte list" where
  "render_label l = concat (map (append_label_byte []) l)"

fun render_labels :: "byte list list \<Rightarrow> byte list" where
  "render_labels [] = []"
| "render_labels [l] = render_label l"
| "render_labels (l # ls) = render_label l @ [0x2E] @ render_labels ls"

definition render_name :: "byte list list \<Rightarrow> byte list" where
  "render_name labels = (if labels = [] then [0x2E] else render_labels labels)"

section \<open>The label loop reads exactly the wire form\<close>

lemma encode_labels_simps [simp]:
  "encode_labels [] = []"
  "encode_labels (l # ls) = of_nat (length l) # l @ encode_labels ls"
  by (simp_all add: encode_labels_def)

lemma append_label_byte_out: "append_label_byte out b = out @ append_label_byte [] b"
  by (simp add: append_label_byte_def)

lemma foldl_append_label_byte: "foldl append_label_byte out l = out @ render_label l"
proof (induction l arbitrary: out)
  case (Cons b l)
  then show ?case using append_label_byte_out [of out b] by (simp add: render_label_def)
qed (simp add: render_label_def)

lemma append_label_byte_nonempty: "append_label_byte [] b \<noteq> []"
  by (simp add: append_label_byte_def)

lemma render_label_nonempty: "valid_label l \<Longrightarrow> render_label l \<noteq> []"
  by (cases l) (simp_all add: valid_label_def render_label_def append_label_byte_nonempty)

lemma label_byte_bounds:
  fixes len :: byte
  shows "len AND 0xc0 = 0 \<longleftrightarrow> unat len \<le> 63"
proof -
  have m: "(0xc0 :: byte) = NOT (mask 6)" by (simp add: mask_eq_exp_minus_1)
  have "len AND NOT (mask 6) = 0 \<longleftrightarrow> take_bit 6 len = len"
  proof
    assume "len AND NOT (mask 6) = 0"
    moreover have "len = (len AND mask 6) OR (len AND NOT (mask 6))" by (simp flip: bit.conj_disj_distrib)
    ultimately show "take_bit 6 len = len" by (simp add: take_bit_eq_mask)
  next
    assume "take_bit 6 len = len"
    then have "len AND NOT (mask 6) = (len AND mask 6) AND NOT (mask 6)" by (simp add: take_bit_eq_mask)
    then show "len AND NOT (mask 6) = 0" by (simp add: and.assoc)
  qed
  also have "\<dots> \<longleftrightarrow> unat len < 2 ^ 6"
    by (metis unsigned_take_bit_eq take_bit_nat_eq_self_iff word_unat_eq_iff)
  finally show ?thesis unfolding m by auto
qed

text \<open>Text written between two positions: nothing before the first label, dots between labels.\<close>

definition name_from :: "bool \<Rightarrow> byte list \<Rightarrow> byte list list \<Rightarrow> byte list" where
  "name_from first_label name labels =
     (if labels = [] then name else (if first_label then name else name @ [0x2E]) @ render_labels labels)"

lemma name_from_Cons:
  "name_from False (foldl append_label_byte (if first_label then name else name @ [0x2E]) l) ls = name_from first_label name (l # ls)"
  by (cases ls) (simp_all add: name_from_def foldl_append_label_byte)

lemma name_loop_reads:
  assumes "list_all valid_label labels" "wire + length (encode_labels labels) \<le> 255"
  shows "name_loop (pre @ encode_labels labels @ 0 # rest) (length pre) wire first_label name =
    Some (length pre + length (encode_labels labels) + 1, name_from first_label name labels)"
  using assms
proof (induction labels arbitrary: pre wire first_label name)
  case Nil
  then show ?case by (simp add: name_loop.simps [of _ "length pre"] name_from_def)
next
  case (Cons l ls)
  let ?len = "of_nat (length l) :: byte"
  have valid: "1 \<le> length l" "length l \<le> 63" using Cons.prems by (simp_all add: valid_label_def)
  have u: "unat ?len = length l" using valid by (simp add: unat_of_nat take_bit_eq_mod)
  have nz: "?len \<noteq> 0" using u valid by (metis not_one_le_zero unsigned_0)
  have small: "?len AND 0xc0 = 0" using label_byte_bounds [of ?len] u valid by simp
  let ?pre = "pre @ ?len # l"
  have "name_loop (?pre @ encode_labels ls @ 0 # rest) (length ?pre) (wire + (1 + length l)) False
      (foldl append_label_byte (if first_label then name else name @ [0x2E]) l) =
    Some (length ?pre + length (encode_labels ls) + 1, name_from first_label name (l # ls))"
    using Cons.prems by (subst Cons.IH) (simp_all add: name_from_Cons)
  then show ?case
    using Cons.prems u nz small valid
    by (subst name_loop.simps) (simp add: Let_def nth_append max_label_def max_name_wire_def)
qed

lemma name_loop_only:
  assumes "name_loop msg position wire first_label name = Some (q, result)"
  shows "\<exists>labels rest. drop position msg = encode_labels labels @ 0 # rest \<and> position \<le> length msg \<and> list_all valid_label labels \<and>
    wire + length (encode_labels labels) \<le> max 255 wire \<and> q = position + length (encode_labels labels) + 1 \<and>
    result = name_from first_label name labels"
  using assms
proof (induction msg position wire first_label name rule: name_loop.induct)
  case (1 msg position wire first_label name)
  let ?len = "msg ! position"
  from "1.prems" have inside: "position < length msg" by (subst (asm) name_loop.simps) (auto split: if_splits)
  then have cons: "drop position msg = ?len # drop (Suc position) msg" by (rule Cons_nth_drop_Suc [symmetric])
  show ?case
  proof (cases "?len = 0")
    case True
    with "1.prems" inside have "q = Suc position" "result = name" by (simp_all add: name_loop.simps [of msg position] Let_def)
    with True cons inside show ?thesis
      by (intro exI [of _ "[]"] exI [of _ "drop (Suc position) msg"]) (simp add: name_from_def)
  next
    case False
    let ?l = "take (unat ?len) (drop (position + 1) msg)"
    from "1.prems" inside False
    have fits: "unat ?len \<le> 63" "position + 1 + unat ?len \<le> length msg" "wire + (1 + unat ?len) \<le> 255"
      and small: "?len AND 0xc0 = 0"
      and rec: "name_loop msg (position + 1 + unat ?len) (wire + (1 + unat ?len)) False
        (foldl append_label_byte (if first_label then name else name @ [0x2E]) ?l) = Some (q, result)"
      by (simp_all add: name_loop.simps [of msg position] Let_def max_label_def max_name_wire_def split: if_splits)
    have len: "length ?l = unat ?len" using fits by simp
    have lab: "of_nat (length ?l) = ?len" using len by simp
    have pos: "1 \<le> unat ?len" using False by (metis One_nat_def Suc_leI unat_gt_0)
    from "1.IH" [of ?len "position + 1" "wire + (1 + unat ?len)"] inside False small fits rec
    obtain ls rest where ls: "drop (position + 1 + unat ?len) msg = encode_labels ls @ 0 # rest" "list_all valid_label ls"
        "wire + (1 + unat ?len) + length (encode_labels ls) \<le> max 255 (wire + (1 + unat ?len))"
        "q = position + 1 + unat ?len + length (encode_labels ls) + 1"
        "result = name_from False (foldl append_label_byte (if first_label then name else name @ [0x2E]) ?l) ls"
      by (auto simp: max_label_def max_name_wire_def)
    have split: "drop (Suc position) msg = ?l @ drop (position + 1 + unat ?len) msg"
      by (metis Suc_eq_plus1 add.commute append_take_drop_id drop_drop)
    have "drop position msg = encode_labels (?l # ls) @ 0 # rest"
      unfolding cons split using ls(1) lab by simp
    moreover have "list_all valid_label (?l # ls)" using ls(2) len pos fits by (simp add: valid_label_def)
    moreover have "wire + length (encode_labels (?l # ls)) \<le> max 255 wire" using ls(3) fits(3) len by simp
    moreover have "q = position + length (encode_labels (?l # ls)) + 1" using ls(4) len by simp
    moreover have "result = name_from first_label name (?l # ls)" using ls(5) by (simp only: name_from_Cons)
    ultimately show ?thesis using inside by (intro exI [of _ "?l # ls"] exI [of _ rest]) simp
  qed
qed

lemma rendered_name:
  assumes "list_all valid_label labels"
  shows "(if name_from True [] labels = [] then [0x2E] else name_from True [] labels) = render_name labels"
  using assms render_label_nonempty
  by (cases labels rule: render_labels.cases) (auto simp: render_name_def name_from_def)

text \<open>
  C34. The parser accepts exactly the well-formed queries with one question: a message of a
  12-byte header with the response bit clear and a question count of one, a name of labels of 1 to
  63 bytes that takes at most 255 bytes on the wire, ended by the root label and written without
  compression, then type and class, and whatever follows. The question it returns has the header's
  fields, the rendered name and exactly those two numbers.
\<close>

theorem parse_dns_query_exact:
  "parse_dns_query msg = Some q \<longleftrightarrow>
     (\<exists>h labels t rest.
        msg = h @ encode_labels labels @ 0 # t @ rest \<and> length h = 12 \<and> length t = 4 \<and>
        valid_name labels \<and> be16 (h ! 2) (h ! 3) AND 0x8000 = 0 \<and> be16 (h ! 4) (h ! 5) = 1 \<and>
        q = \<lparr>dq_transaction_id = be16 (h ! 0) (h ! 1), dq_recursion_desired = (be16 (h ! 2) (h ! 3) AND 0x0100 \<noteq> 0),
             dq_opcode = ucast (drop_bit 11 (be16 (h ! 2) (h ! 3)) AND 0x0f), dq_name = render_name labels,
             dq_type = be16 (t ! 0) (t ! 1), dq_klass = be16 (t ! 2) (t ! 3)\<rparr>)"
  (is "_ \<longleftrightarrow> ?form")
proof
  assume parsed: "parse_dns_query msg = Some q"
  then have long: "17 \<le> length msg" by (simp add: parse_dns_query_def header_size_def split: if_splits)
  from parsed long obtain position name where loop: "name_loop msg 12 1 True [] = Some (position, name)"
    and fits: "position + 4 \<le> length msg"
    by (auto simp: parse_dns_query_def header_size_def Let_def split: if_splits option.splits)
  from name_loop_only [OF loop] obtain labels more_bytes where
    wire: "drop 12 msg = encode_labels labels @ 0 # more_bytes" "list_all valid_label labels"
      "1 + length (encode_labels labels) \<le> 255" "position = 12 + length (encode_labels labels) + 1"
      "name = name_from True [] labels"
    by auto
  define h t rest where "h = take 12 msg" and "t = take 4 more_bytes" and "rest = drop 4 more_bytes"
  have whole: "msg = h @ encode_labels labels @ 0 # more_bytes"
    using append_take_drop_id [of 12 msg] wire(1) by (simp add: h_def)
  have "length h = 12" using long by (simp add: h_def)
  moreover from this have "4 \<le> length more_bytes" using fits wire(4) arg_cong [OF whole, of length] by simp
  ultimately have lens: "length h = 12" "length t = 4" by (simp_all add: t_def)
  have msg: "msg = (h @ encode_labels labels @ [0]) @ t @ rest" using whole by (simp add: t_def rest_def)
  have at: "msg ! (position + i) = t ! i" if "i < 4" for i
    unfolding msg using that wire(4) lens by (simp add: nth_append)
  have head: "msg ! i = h ! i" if "i < 12" for i unfolding msg using that lens by (simp add: nth_append)
  have fields: "msg ! 0 = h ! 0" "msg ! 1 = h ! 1" "msg ! 2 = h ! 2" "msg ! 3 = h ! 3" "msg ! 4 = h ! 4" "msg ! 5 = h ! 5"
    "msg ! position = t ! 0" "msg ! (position + 1) = t ! 1" "msg ! (position + 2) = t ! 2" "msg ! (position + 3) = t ! 3"
    using head at [of 0] at [of 1] at [of 2] at [of 3] by simp_all
  have sizes: "(length msg < 12 + 1 + 4) = False" "(length msg < position + 4) = False" using long fits by simp_all
  have shown: "(if name = [] then [0x2E] else name) = render_name labels" unfolding wire(5) by (rule rendered_name [OF wire(2)])
  have "parse_dns_query msg = (if be16 (h ! 2) (h ! 3) AND 0x8000 \<noteq> 0 then None else if be16 (h ! 4) (h ! 5) \<noteq> 1 then None
      else Some \<lparr>dq_transaction_id = be16 (h ! 0) (h ! 1), dq_recursion_desired = (be16 (h ! 2) (h ! 3) AND 0x0100 \<noteq> 0),
             dq_opcode = ucast (drop_bit 11 (be16 (h ! 2) (h ! 3)) AND 0x0f), dq_name = render_name labels,
             dq_type = be16 (t ! 0) (t ! 1), dq_klass = be16 (t ! 2) (t ! 3)\<rparr>)"
    by (simp only: parse_dns_query_def header_size_def loop Let_def fields sizes shown option.case prod.case if_False)
  with parsed have "be16 (h ! 2) (h ! 3) AND 0x8000 = 0 \<and> be16 (h ! 4) (h ! 5) = 1 \<and>
      q = \<lparr>dq_transaction_id = be16 (h ! 0) (h ! 1), dq_recursion_desired = (be16 (h ! 2) (h ! 3) AND 0x0100 \<noteq> 0),
             dq_opcode = ucast (drop_bit 11 (be16 (h ! 2) (h ! 3)) AND 0x0f), dq_name = render_name labels,
             dq_type = be16 (t ! 0) (t ! 1), dq_klass = be16 (t ! 2) (t ! 3)\<rparr>"
    by (metis option.inject option.distinct(1))
  moreover have "valid_name labels" using wire(2,3) by (simp add: valid_name_def)
  ultimately show ?form using msg lens by (intro exI [of _ h] exI [of _ labels] exI [of _ t] exI [of _ rest] conjI) simp_all
next
  assume ?form
  then obtain h labels t rest where
    msg: "msg = h @ encode_labels labels @ 0 # t @ rest" and lens: "length h = 12" "length t = 4"
    and name: "valid_name labels" and hdr: "be16 (h ! 2) (h ! 3) AND 0x8000 = 0" "be16 (h ! 4) (h ! 5) = 1"
    and q: "q = \<lparr>dq_transaction_id = be16 (h ! 0) (h ! 1), dq_recursion_desired = (be16 (h ! 2) (h ! 3) AND 0x0100 \<noteq> 0),
             dq_opcode = ucast (drop_bit 11 (be16 (h ! 2) (h ! 3)) AND 0x0f), dq_name = render_name labels,
             dq_type = be16 (t ! 0) (t ! 1), dq_klass = be16 (t ! 2) (t ! 3)\<rparr>"
    by auto
  have loop: "name_loop msg 12 1 True [] = Some (12 + length (encode_labels labels) + 1, name_from True [] labels)"
    using name_loop_reads [of labels 1 h] name lens by (simp add: msg valid_name_def)
  have "list_all valid_label labels" using name by (simp add: valid_name_def)
  from rendered_name [OF this] show "parse_dns_query msg = Some q"
    unfolding parse_dns_query_def header_size_def loop
    using hdr lens by (simp add: msg q Let_def nth_append)
qed

section \<open>A rendered name cannot be misread\<close>

text \<open>Reading a rendered name back: a dot ends a label, a backslash escapes a byte or three digits.\<close>

fun unrender :: "byte list \<Rightarrow> byte list \<Rightarrow> byte list list" where
  "unrender label [] = [label]"
| "unrender label (c # cs) =
     (if c = 0x2E then label # unrender [] cs
      else if c = 0x5C then
        (case cs of
           d # e # f # cs' \<Rightarrow> if 0x30 \<le> d \<and> d \<le> 0x39 then unrender (label @ [(d - 0x30) * 100 + (e - 0x30) * 10 + (f - 0x30)]) cs'
                             else unrender (label @ [d]) (e # f # cs')
         | d # cs' \<Rightarrow> unrender (label @ [d]) cs'
         | [] \<Rightarrow> [label])
      else unrender (label @ [c]) cs)"

definition unrender_name :: "byte list \<Rightarrow> byte list list" where
  "unrender_name name = (if name = [0x2E] then [] else unrender [] name)"

lemma decimal_byte:
  fixes b :: byte
  shows "(0x30 + b div 100 - 0x30) * 100 + (0x30 + (b div 10) mod 10 - 0x30) * 10 + (0x30 + b mod 10 - 0x30) = b"
proof -
  let ?n = "unat b"
  have parts: "b div 100 = of_nat (?n div 100)" "(b div 10) mod 10 = of_nat (?n div 10 mod 10)" "b mod 10 = of_nat (?n mod 10)"
    using unsigned_less [of b, where ?'a = nat] by (simp_all add: word_unat_eq_iff unat_div unat_mod unat_of_nat)
  have "?n div 100 * 100 + ?n div 10 mod 10 * 10 + ?n mod 10 = ?n"
    using div_mult2_eq [of ?n 10 10, simplified] div_mult_mod_eq [of ?n 10] div_mult_mod_eq [of "?n div 10" 10] by linarith
  then have "of_nat (?n div 100 * 100 + ?n div 10 mod 10 * 10 + ?n mod 10) = b" by simp
  then show ?thesis unfolding parts by simp
qed

lemma unrender_byte: "unrender label (append_label_byte [] b @ cs) = unrender (label @ [b]) cs"
proof -
  have three: "0x30 \<le> 0x30 + b div 100" "0x30 + b div 100 \<le> 0x39"
  proof -
    have "unat (b div 100) \<le> 2" using unsigned_less [of b, where ?'a = nat] by (simp add: unat_div)
    then have "unat (0x30 + b div 100) = 0x30 + unat (b div 100)" by (simp add: unat_word_ariths)
    with \<open>unat (b div 100) \<le> 2\<close> show "0x30 \<le> 0x30 + b div 100" "0x30 + b div 100 \<le> 0x39"
      by (simp_all add: word_le_nat_alt)
  qed
  consider "b = 0x2E \<or> b = 0x5C" | "b \<noteq> 0x2E" "b \<noteq> 0x5C" "0x21 \<le> b" "b \<le> 0x7e" | "\<not> (0x21 \<le> b \<and> b \<le> 0x7e)" by blast
  then show ?thesis
  proof cases
    case 1
    then show ?thesis by (cases cs; cases "tl cs") (auto simp: append_label_byte_def)
  next
    case 2
    then show ?thesis by (simp add: append_label_byte_def)
  next
    case 3
    then have "append_label_byte [] b = [0x5C, 0x30 + b div 100, 0x30 + (b div 10) mod 10, 0x30 + b mod 10]"
      by (auto simp: append_label_byte_def)
    then show ?thesis using three decimal_byte [of b] by (simp add: add.assoc)
  qed
qed

lemma unrender_label: "unrender label (render_label l @ cs) = unrender (label @ l) cs"
  by (induction l arbitrary: label) (simp_all add: render_label_def unrender_byte)

lemma unrender_labels: "labels \<noteq> [] \<Longrightarrow> unrender [] (render_labels labels) = labels"
proof (induction labels rule: render_labels.induct)
  case (2 l)
  then show ?case using unrender_label [of "[]" l "[]"] by simp
next
  case (3 l k ls)
  then show ?case by (simp add: unrender_label)
qed simp

text \<open>
  The text of a name determines its labels, byte for byte, whatever bytes the program put in
  them: reading the rendered name back gives the labels, so a dot, a backslash or a control byte
  inside a label is never taken for a separator, and only the root is written as a lone dot.
\<close>

theorem dns_name_roundtrip:
  assumes "valid_name labels"
  shows "unrender_name (render_name labels) = labels"
proof (cases "labels = []")
  case True
  then show ?thesis by (simp add: unrender_name_def render_name_def)
next
  case False
  have "render_labels labels \<noteq> [0x2E]"
  proof
    assume "render_labels labels = [0x2E]"
    with unrender_labels [OF False] have "labels = [[], []]" by simp
    with assms show False by (simp add: valid_name_def valid_label_def)
  qed
  then show ?thesis using unrender_labels [OF False] False by (simp add: unrender_name_def render_name_def)
qed

theorem dns_name_roundtrip_witness:
  "valid_name [[0x77, 0x2E, 0x00], [0x63]] \<and>
   render_name [[0x77, 0x2E, 0x00], [0x63]] = [0x77, 0x5C, 0x2E, 0x5C, 0x30, 0x30, 0x30, 0x2E, 0x63] \<and>
   unrender_name (render_name [[0x77, 0x2E, 0x00], [0x63]]) = [[0x77, 0x2E, 0x00], [0x63]]"
proof -
  have v: "valid_name [[0x77, 0x2E, 0x00], [0x63]]" by (simp add: valid_name_def valid_label_def)
  have "render_name [[0x77, 0x2E, 0x00], [0x63]] = [0x77, 0x5C, 0x2E, 0x5C, 0x30, 0x30, 0x30, 0x2E, 0x63]"
    by (simp add: render_name_def render_label_def append_label_byte_def)
  with v dns_name_roundtrip [OF v] show ?thesis by simp
qed

end
