(* ===== verification/Container_Identity.thy ===== *)
theory Container_Identity
  imports Prelude
begin

text \<open>
  Attribution of a process to a container from its cgroup path alone,
  \<^verbatim>\<open>src/sensor/container_identity.cpp\<close>. What the parser reports is shown to be written in the
  path, each runtime's scope is shown to be recognised, and both spellings of a Kubernetes pod are
  shown to give the same uid.
\<close>

section \<open>Text helpers\<close>

definition is_lower_hex_char :: "char \<Rightarrow> bool" where
  "is_lower_hex_char c \<longleftrightarrow> (let n = (of_char c :: nat) in 48 \<le> n \<and> n \<le> 57 \<or> 97 \<le> n \<and> n \<le> 102)"

definition is_lower_hex :: "string \<Rightarrow> bool" where
  "is_lower_hex str \<longleftrightarrow> str \<noteq> [] \<and> list_all is_lower_hex_char str"

definition is_container_id :: "string \<Rightarrow> bool" where
  "is_container_id str \<longleftrightarrow> 12 \<le> length str \<and> length str \<le> 64 \<and> is_lower_hex str"

definition starts_with :: "string \<Rightarrow> string \<Rightarrow> bool" where
  "starts_with str prefix \<longleftrightarrow> take (length prefix) str = prefix"

definition ends_with :: "string \<Rightarrow> string \<Rightarrow> bool" where
  "ends_with str suffix \<longleftrightarrow> length suffix \<le> length str \<and> drop (length str - length suffix) str = suffix"

definition substr :: "nat \<Rightarrow> nat \<Rightarrow> 'a list \<Rightarrow> 'a list" where
  "substr pos n str = take n (drop pos str)"

text \<open>\<open>rfind\<close>: the last position at which the pattern stands.\<close>

fun rfind :: "string \<Rightarrow> string \<Rightarrow> nat option" where
  "rfind pat [] = (if pat = [] then Some 0 else None)"
| "rfind pat (c # str) =
     (case rfind pat str of Some i \<Rightarrow> Some (Suc i) | None \<Rightarrow> if starts_with (c # str) pat then Some 0 else None)"

section \<open>Components\<close>

definition scope_id :: "string \<Rightarrow> string \<Rightarrow> string option" where
  "scope_id component prefix =
     (if \<not> starts_with component prefix \<or> \<not> ends_with component ''.scope'' then None
      else let cid = substr (length prefix) (length component - length prefix - 6) component
           in if is_container_id cid then Some cid else None)"

definition dashed :: "string \<Rightarrow> string" where
  "dashed str = map (\<lambda>c. if c = CHR ''_'' then CHR ''-'' else c) str"

definition uid_char_ok :: "nat \<Rightarrow> char \<Rightarrow> bool" where
  "uid_char_ok index c = (if index = 8 \<or> index = 13 \<or> index = 18 \<or> index = 23 then c = CHR ''-'' else is_lower_hex_char c)"

definition pod_uid_from :: "string \<Rightarrow> string option" where
  "pod_uid_from str =
     (if length str \<noteq> 36 then None
      else let uid = dashed str
           in if list_all (\<lambda>index. uid_char_ok index (uid ! index)) [0..<length uid] then Some uid else None)"

definition pod_uid_of_component :: "string \<Rightarrow> string option" where
  "pod_uid_of_component component =
     (if starts_with component ''pod'' then pod_uid_from (drop 3 component)
      else if ends_with component ''.slice'' then
        (case rfind ''-pod'' component of
           Some marker \<Rightarrow> pod_uid_from (substr (marker + 4) (length component - marker - 4 - 6) component)
         | None \<Rightarrow> None)
      else None)"

definition scope_rules :: "(string \<times> string) list" where
  "scope_rules = [(''docker-'', ''docker''), (''cri-containerd-'', ''containerd''), (''crio-'', ''crio''), (''libpod-'', ''podman'')]"

section \<open>The path\<close>

record container_identity =
  ci_id :: string
  ci_runtime :: string
  ci_pod_uid :: string

definition maximum_path_bytes :: nat where "maximum_path_bytes = 8192"
definition maximum_components :: nat where "maximum_components = 64"

text \<open>The splitting loop, on the rest of the path behind \<open>start\<close>.\<close>

function split_loop :: "string \<Rightarrow> string list \<Rightarrow> string list" where
  "split_loop rest parts =
     (if maximum_components < length parts then parts
      else let part = takeWhile (\<lambda>c. c \<noteq> CHR ''/'') rest;
               parts' = (if part \<noteq> [] then parts @ [part] else parts)
           in case dropWhile (\<lambda>c. c \<noteq> CHR ''/'') rest of [] \<Rightarrow> parts' | _ # rest' \<Rightarrow> split_loop rest' parts')"
  by pat_completeness auto
termination
  by (relation "measure (\<lambda>(rest, _). length rest)")
    (auto, metis Suc_le_eq length_Cons length_dropWhile_le)

declare split_loop.simps [simp del]

definition apply_scope_rules :: "string \<Rightarrow> container_identity \<Rightarrow> container_identity" where
  "apply_scope_rules part found =
     fold (\<lambda>(prefix, runtime) f. case scope_id part prefix of
             Some cid \<Rightarrow> f\<lparr>ci_id := cid, ci_runtime := runtime\<rparr> | None \<Rightarrow> f) scope_rules found"

definition bare_component :: "string \<Rightarrow> string \<Rightarrow> bool \<Rightarrow> container_identity \<Rightarrow> container_identity" where
  "bare_component parent part in_kubernetes found =
     (if is_container_id part \<and> ci_id found = [] then
        if parent = ''docker'' then found\<lparr>ci_id := part, ci_runtime := ''docker''\<rparr>
        else if in_kubernetes \<and> length part = 64 then found\<lparr>ci_id := part, ci_runtime := ''kubernetes''\<rparr>
        else if parent = ''libpod_parent'' \<or> parent = ''libpod'' then found\<lparr>ci_id := part, ci_runtime := ''podman''\<rparr>
        else found
      else found)"

definition component_step :: "string \<Rightarrow> string \<Rightarrow> container_identity \<times> bool \<Rightarrow> container_identity \<times> bool" where
  "component_step parent part st =
     (let (found, seen) = st;
          pod = pod_uid_of_component part;
          in_kubernetes = (seen \<or> starts_with part ''kubepods'' \<or> pod \<noteq> None);
          found1 = (case pod of Some uid \<Rightarrow> found\<lparr>ci_pod_uid := uid\<rparr> | None \<Rightarrow> found)
      in (bare_component parent part in_kubernetes (apply_scope_rules part found1), in_kubernetes))"

fun component_loop :: "string \<Rightarrow> string list \<Rightarrow> container_identity \<times> bool \<Rightarrow> container_identity \<times> bool" where
  "component_loop parent [] st = st"
| "component_loop parent (part # parts) st = component_loop part parts (component_step parent part st)"

definition parse_container_cgroup :: "string \<Rightarrow> container_identity option" where
  "parse_container_cgroup cgroup =
     (if cgroup = [] \<or> maximum_path_bytes < length cgroup then None
      else let parts = split_loop cgroup [] in
        if parts = [] \<or> maximum_components < length parts then None
        else let found = fst (component_loop [] parts (\<lparr>ci_id = [], ci_runtime = [], ci_pod_uid = []\<rparr>, False))
             in if ci_id found = [] then None else Some found)"

section \<open>The components of a path\<close>

text \<open>What the splitting loop is meant to give: the non-empty pieces between slashes.\<close>

fun pieces :: "string \<Rightarrow> string list" where
  "pieces [] = [[]]"
| "pieces (c # str) = (if c = CHR ''/'' then [] # pieces str else (c # hd (pieces str)) # tl (pieces str))"

definition components :: "string \<Rightarrow> string list" where
  "components path = filter (\<lambda>p. p \<noteq> []) (pieces path)"

lemma pieces_nonempty [simp]: "pieces str \<noteq> []"
  by (cases str) auto

lemma pieces_takeWhile:
  "pieces str = takeWhile (\<lambda>c. c \<noteq> CHR ''/'') str #
     (case dropWhile (\<lambda>c. c \<noteq> CHR ''/'') str of [] \<Rightarrow> [] | _ # rest \<Rightarrow> pieces rest)"
  by (induction str) auto

lemma split_loop_components:
  "length parts \<le> 65 \<Longrightarrow> split_loop rest parts = take 65 (parts @ components rest)"
proof (induction rest parts rule: split_loop.induct)
  case (1 rest parts)
  let ?part = "takeWhile (\<lambda>c. c \<noteq> CHR ''/'') rest"
  let ?tail = "dropWhile (\<lambda>c. c \<noteq> CHR ''/'') rest"
  let ?parts = "if ?part \<noteq> [] then parts @ [?part] else parts"
  show ?case
  proof (cases "64 < length parts")
    case True
    with "1.prems" show ?thesis by (simp add: split_loop.simps [of rest] maximum_components_def)
  next
    case False
    have comp: "parts @ components rest = ?parts @ (case ?tail of [] \<Rightarrow> [] | _ # r \<Rightarrow> components r)"
      unfolding components_def pieces_takeWhile [of rest] by (cases ?tail) (simp_all del: dropWhile_eq_Nil_conv)
    show ?thesis
    proof (cases ?tail)
      case Nil
      with False comp show ?thesis
        by (simp add: split_loop.simps [of rest] maximum_components_def Let_def del: dropWhile_eq_Nil_conv)
    next
      case (Cons c r)
      have "length ?parts \<le> 65" using False by simp
      with "1.IH" [of ?part ?parts c r] False Cons comp show ?thesis
        by (simp add: split_loop.simps [of rest] maximum_components_def)
    qed
  qed
qed

lemma split_loop_all:
  assumes "length (split_loop path []) \<le> maximum_components"
  shows "split_loop path [] = components path"
  using assms split_loop_components [of "[]" path] by (simp add: maximum_components_def)

section \<open>What is reported is written in the path\<close>

text \<open>The id a component carries, with the runtime its form names.\<close>

definition carries :: "string \<Rightarrow> string \<Rightarrow> string \<Rightarrow> bool" where
  "carries part cid runtime \<longleftrightarrow>
     (part = cid \<and> runtime \<in> {''docker'', ''kubernetes'', ''podman''}) \<or>
     (\<exists>prefix. (prefix, runtime) \<in> set scope_rules \<and> part = prefix @ cid @ ''.scope'')"

definition identity_ok :: "string set \<Rightarrow> container_identity \<Rightarrow> bool" where
  "identity_ok parts found \<longleftrightarrow>
     (ci_id found = [] \<or> is_container_id (ci_id found) \<and> (\<exists>p\<in>parts. carries p (ci_id found) (ci_runtime found))) \<and>
     (ci_pod_uid found = [] \<or> (\<exists>p\<in>parts. pod_uid_of_component p = Some (ci_pod_uid found)))"

lemma starts_with_append: "starts_with str prefix \<longleftrightarrow> (\<exists>rest. str = prefix @ rest)"
  by (metis append_eq_conv_conj starts_with_def)

lemma ends_with_append: "ends_with str suffix \<longleftrightarrow> (\<exists>rest. str = rest @ suffix)"
  unfolding ends_with_def
  by (metis add_diff_cancel_right' append_eq_conv_conj append_take_drop_id le_add2 length_append)

text \<open>A prefix without a dot cannot reach into the suffix, so \<open>substr\<close> cuts exactly the id.\<close>

lemma prefix_suffix_disjoint:
  assumes "prefix @ a = b @ d # suffix" "d \<notin> set prefix"
  shows "\<exists>m. b = prefix @ m \<and> a = m @ d # suffix"
proof -
  have "length prefix \<le> length b"
  proof (rule ccontr)
    assume "\<not> length prefix \<le> length b"
    then have short: "length b < length prefix" by simp
    have "(prefix @ a) ! length b = d" using assms(1) by simp
    with short have "prefix ! length b = d" by (simp add: nth_append)
    with short assms(2) show False using nth_mem by blast
  qed
  with assms(1) show ?thesis by (auto simp: append_eq_append_conv2)
qed

lemma scope_id_Some:
  assumes "scope_id part prefix = Some cid" "CHR ''.'' \<notin> set prefix"
  shows "part = prefix @ cid @ ''.scope'' \<and> is_container_id cid"
proof -
  from assms(1) have "starts_with part prefix" "ends_with part ''.scope''" by (auto simp: scope_id_def split: if_splits)
  then obtain a b where "part = prefix @ a" "part = b @ ''.scope''" unfolding starts_with_append ends_with_append by blast
  then have "\<exists>m. b = prefix @ m \<and> a = m @ ''.scope''" using assms(2) by (intro prefix_suffix_disjoint) simp_all
  with \<open>part = prefix @ a\<close> obtain m where "part = prefix @ m @ ''.scope''" by blast
  with assms(1) show ?thesis by (auto simp: scope_id_def substr_def Let_def split: if_splits)
qed

lemma scope_id_recognises:
  assumes "is_container_id cid"
  shows "scope_id (prefix @ cid @ ''.scope'') prefix = Some cid"
proof -
  have "ends_with (prefix @ cid @ ''.scope'') ''.scope''"
    unfolding ends_with_append by (metis append_assoc)
  with assms show ?thesis by (simp add: scope_id_def starts_with_append substr_def Let_def)
qed

lemma scope_rules_dotless: "(prefix, runtime) \<in> set scope_rules \<Longrightarrow> CHR ''.'' \<notin> set prefix"
  by (auto simp: scope_rules_def)

lemma identity_ok_scope_rules:
  assumes "identity_ok parts found" "part \<in> parts"
  shows "identity_ok parts (apply_scope_rules part found)"
proof -
  have "identity_ok parts (fold (\<lambda>(prefix, runtime) f. case scope_id part prefix of
      Some cid \<Rightarrow> f\<lparr>ci_id := cid, ci_runtime := runtime\<rparr> | None \<Rightarrow> f) rules found)"
    if "set rules \<subseteq> set scope_rules" for rules
    using that assms(1)
  proof (induction rules arbitrary: found)
    case (Cons rule rules)
    obtain prefix runtime where rule: "rule = (prefix, runtime)" by fastforce
    have mem: "(prefix, runtime) \<in> set scope_rules" using Cons.prems(1) rule by simp
    show ?case
    proof (cases "scope_id part prefix")
      case None
      with Cons rule show ?thesis by simp
    next
      case (Some cid)
      have "part = prefix @ cid @ ''.scope'' \<and> is_container_id cid"
        using scope_id_Some [OF Some scope_rules_dotless [OF mem]] .
      then have "carries part cid runtime \<and> is_container_id cid" using mem by (auto simp: carries_def)
      then have "identity_ok parts (found\<lparr>ci_id := cid, ci_runtime := runtime\<rparr>)"
        using Cons.prems(2) assms(2) by (auto simp: identity_ok_def)
      with Cons rule Some show ?thesis by simp
    qed
  qed simp
  then show ?thesis by (simp add: apply_scope_rules_def)
qed

lemma identity_ok_step:
  assumes "identity_ok parts (fst st)" "part \<in> parts"
  shows "identity_ok parts (fst (component_step parent part st))"
proof -
  obtain found k8s where st: "st = (found, k8s)" by fastforce
  define found1 where "found1 = (case pod_uid_of_component part of Some uid \<Rightarrow> found\<lparr>ci_pod_uid := uid\<rparr> | None \<Rightarrow> found)"
  have "identity_ok parts found1"
    using assms st by (auto simp: found1_def identity_ok_def split: option.split)
  then have ok: "identity_ok parts (apply_scope_rules part found1)" using assms(2) by (rule identity_ok_scope_rules)
  have set_id: "identity_ok parts (f\<lparr>ci_id := part, ci_runtime := rt\<rparr>)"
    if "identity_ok parts f" "is_container_id part" "rt \<in> {''docker'', ''kubernetes'', ''podman''}" for f rt
  proof -
    have "carries part part rt" using that(3) by (simp add: carries_def)
    with that(1,2) assms(2) show ?thesis by (auto simp: identity_ok_def)
  qed
  have "identity_ok parts (bare_component parent part k f)" if "identity_ok parts f" for k f
    using that set_id [OF that] by (simp add: bare_component_def)
  with ok show ?thesis by (simp add: component_step_def st found1_def Let_def)
qed

lemma identity_ok_loop:
  "identity_ok parts (fst st) \<Longrightarrow> set ps \<subseteq> parts \<Longrightarrow> identity_ok parts (fst (component_loop parent ps st))"
  by (induction parent ps st rule: component_loop.induct) (auto intro: identity_ok_step)

text \<open>
  Whatever is reported about a container is written in the cgroup path: the id is 12 to 64
  lower-case hexadecimal digits and stands in one component of the path, alone or as the scope of
  the runtime reported with it, and a pod uid is the one some component spells.
\<close>

theorem container_identity_sound:
  assumes "parse_container_cgroup cgroup = Some found"
  shows "is_container_id (ci_id found) \<and> (\<exists>p\<in>set (components cgroup). carries p (ci_id found) (ci_runtime found)) \<and>
    (ci_pod_uid found = [] \<or> (\<exists>p\<in>set (components cgroup). pod_uid_of_component p = Some (ci_pod_uid found)))"
proof -
  let ?start = "(\<lparr>ci_id = [], ci_runtime = [], ci_pod_uid = []\<rparr>, False)"
  from assms have short: "length (split_loop cgroup []) \<le> maximum_components" and nonempty: "ci_id found \<noteq> []"
    and found: "found = fst (component_loop [] (split_loop cgroup []) ?start)"
    by (auto simp: parse_container_cgroup_def Let_def split: if_splits)
  have "identity_ok (set (components cgroup)) (fst (component_loop [] (components cgroup) ?start))"
    by (rule identity_ok_loop) (simp_all add: identity_ok_def)
  with found split_loop_all [OF short] have "identity_ok (set (components cgroup)) found" by simp
  with nonempty show ?thesis by (auto simp: identity_ok_def)
qed

theorem container_identity_sound_witness:
  "parse_container_cgroup ''/docker/0123456789ab'' = Some \<lparr>ci_id = ''0123456789ab'', ci_runtime = ''docker'', ci_pod_uid = []\<rparr> \<and>
   is_container_id ''0123456789ab'' \<and> (\<exists>p\<in>set (components ''/docker/0123456789ab''). carries p ''0123456789ab'' ''docker'')"
proof -
  have p: "parse_container_cgroup ''/docker/0123456789ab'' = Some \<lparr>ci_id = ''0123456789ab'', ci_runtime = ''docker'', ci_pod_uid = []\<rparr>"
    by code_simp
  from container_identity_sound [OF p] p show ?thesis by simp
qed

section \<open>What every runtime writes is recognised\<close>

lemma pieces_slash: "pieces (a @ CHR ''/'' # b) = pieces a @ pieces b"
  by (induction a) (simp_all add: hd_append)

lemma pieces_single: "CHR ''/'' \<notin> set str \<Longrightarrow> pieces str = [str]"
  by (induction str) auto

lemma components_append: "CHR ''/'' \<notin> set str \<Longrightarrow> str \<noteq> [] \<Longrightarrow> components (a @ CHR ''/'' # str) = components a @ [str]"
  by (simp add: components_def pieces_slash pieces_single)

lemma component_loop_append:
  "component_loop parent (ps @ [p]) st =
     component_step (if ps = [] then parent else last ps) p (component_loop parent ps st)"
  by (induction ps arbitrary: parent st) auto

lemma container_id_chars: "is_container_id cid \<Longrightarrow> c \<in> set cid \<Longrightarrow> is_lower_hex_char c"
  by (auto simp: is_container_id_def is_lower_hex_def list_all_iff)

lemma apply_scope_rules_own:
  assumes "(prefix, runtime) \<in> set scope_rules" "is_container_id cid"
  shows "apply_scope_rules (prefix @ cid @ ''.scope'') found = found\<lparr>ci_id := cid, ci_runtime := runtime\<rparr>"
proof -
  note own = scope_id_recognises [OF assms(2)]
  consider "(prefix, runtime) = (''docker-'', ''docker'')" | "(prefix, runtime) = (''cri-containerd-'', ''containerd'')"
    | "(prefix, runtime) = (''crio-'', ''crio'')" | "(prefix, runtime) = (''libpod-'', ''podman'')"
    using assms(1) unfolding scope_rules_def by auto
  then show ?thesis
  proof cases
    case 1
    then show ?thesis using own [of "''docker-''"] by (simp add: apply_scope_rules_def scope_rules_def scope_id_def starts_with_def)
  next
    case 2
    then show ?thesis using own [of "''cri-containerd-''"] by (simp add: apply_scope_rules_def scope_rules_def scope_id_def starts_with_def)
  next
    case 3
    then show ?thesis using own [of "''crio-''"] by (simp add: apply_scope_rules_def scope_rules_def scope_id_def starts_with_def)
  next
    case 4
    then show ?thesis using own [of "''libpod-''"] by (simp add: apply_scope_rules_def scope_rules_def scope_id_def starts_with_def)
  qed
qed

text \<open>
  The scope of every runtime is recognised: for a path within the limits whose last component
  is the scope of a runtime of the table around a container id, the parser reports that id and that
  runtime, whatever the components before it are.
\<close>

theorem container_scope_recognised:
  assumes "(prefix, runtime) \<in> set scope_rules" "is_container_id cid"
    and "length path + length (prefix @ cid @ ''.scope'') < maximum_path_bytes"
    and "length (components path) < maximum_components"
  shows "\<exists>found. parse_container_cgroup (path @ ''/'' @ prefix @ cid @ ''.scope'') = Some found \<and>
    ci_id found = cid \<and> ci_runtime found = runtime"
proof -
  let ?part = "prefix @ cid @ ''.scope''"
  let ?cgroup = "path @ ''/'' @ ?part"
  let ?start = "(\<lparr>ci_id = [], ci_runtime = [], ci_pod_uid = []\<rparr>, False)"
  have "CHR ''/'' \<notin> set prefix" using assms(1) by (auto simp: scope_rules_def)
  moreover have "CHR ''/'' \<notin> set cid" using container_id_chars [OF assms(2), of "CHR ''/''"] by (auto simp: is_lower_hex_char_def)
  ultimately have "components ?cgroup = components path @ [?part]" by (simp add: components_append)
  then have parts: "split_loop ?cgroup [] = components path @ [?part]"
    using split_loop_components [of "[]" ?cgroup] assms(4) by (simp add: maximum_components_def)
  obtain parent st where last: "component_loop [] (components path @ [?part]) ?start = component_step parent ?part st"
    by (simp add: component_loop_append)
  have "cid \<noteq> []" using assms(2) by (auto simp: is_container_id_def)
  then have "ci_id (fst (component_step parent ?part st)) = cid \<and> ci_runtime (fst (component_step parent ?part st)) = runtime"
    using apply_scope_rules_own [OF assms(1,2)]
    by (simp add: component_step_def bare_component_def Let_def split_beta del: append_assoc append.simps)
  with \<open>cid \<noteq> []\<close> assms(3,4) parts last show ?thesis
    by (simp add: parse_container_cgroup_def Let_def)
qed

theorem container_scope_recognised_witness:
  "\<exists>found. parse_container_cgroup (''/system.slice'' @ ''/'' @ ''docker-'' @ ''0123456789abcdef'' @ ''.scope'') = Some found \<and>
    ci_id found = ''0123456789abcdef'' \<and> ci_runtime found = ''docker''"
proof (rule container_scope_recognised)
  show "(''docker-'', ''docker'') \<in> set scope_rules" by (simp add: scope_rules_def)
  show "is_container_id ''0123456789abcdef''" by code_simp
  show "length ''/system.slice'' + length (''docker-'' @ ''0123456789abcdef'' @ ''.scope'') < maximum_path_bytes"
    by (simp add: maximum_path_bytes_def)
  show "length (components ''/system.slice'') < maximum_components" by code_simp
qed

section \<open>Both spellings of a pod\<close>

text \<open>A pod uid in its canonical form: 36 characters, dashes at four places, hexadecimal elsewhere.\<close>

definition canonical_uid :: "string \<Rightarrow> bool" where
  "canonical_uid uid \<longleftrightarrow> pod_uid_from uid = Some uid"

definition underscored :: "string \<Rightarrow> string" where
  "underscored uid = map (\<lambda>c. if c = CHR ''-'' then CHR ''_'' else c) uid"

lemma canonical_uid_iff:
  "canonical_uid uid \<longleftrightarrow> length uid = 36 \<and> dashed uid = uid \<and> list_all (\<lambda>index. uid_char_ok index (uid ! index)) [0..<36]"
proof (cases "length uid = 36 \<and> dashed uid = uid")
  case True
  then show ?thesis by (simp add: canonical_uid_def pod_uid_from_def Let_def)
next
  case False
  then show ?thesis by (auto simp: canonical_uid_def pod_uid_from_def Let_def split: if_splits)
qed

lemma canonical_uid_chars:
  assumes "canonical_uid uid" "c \<in> set uid"
  shows "c = CHR ''-'' \<or> is_lower_hex_char c"
proof -
  from assms(2) obtain i where i: "i < length uid" "c = uid ! i" by (auto simp: in_set_conv_nth)
  with assms(1) have "uid_char_ok i c" by (simp add: canonical_uid_iff list_all_iff)
  then show ?thesis by (simp add: uid_char_ok_def split: if_splits)
qed

lemma dashed_underscored: "CHR ''_'' \<notin> set uid \<Longrightarrow> dashed (underscored uid) = uid"
  by (induction uid) (auto simp: dashed_def underscored_def)

lemma pod_uid_from_underscored:
  assumes "canonical_uid uid"
  shows "pod_uid_from (underscored uid) = Some uid"
proof -
  have "CHR ''_'' \<notin> set uid"
    using canonical_uid_chars [OF assms, of "CHR ''_''"] by (auto simp: is_lower_hex_char_def)
  then have "dashed (underscored uid) = uid" by (rule dashed_underscored)
  moreover have "length (underscored uid) = length uid" by (simp add: underscored_def)
  ultimately show ?thesis using assms by (simp add: canonical_uid_iff pod_uid_from_def Let_def)
qed

lemma starts_with_Cons: "starts_with (c # str) (d # pat) \<longleftrightarrow> c = d \<and> starts_with str pat"
  by (auto simp: starts_with_def)

lemma rfind_none:
  assumes "pat \<noteq> []" "\<forall>k<length str. \<not> starts_with (drop k str) pat"
  shows "rfind pat str = None"
  using assms(2)
proof (induction str)
  case Nil
  then show ?case using assms(1) by simp
next
  case (Cons c str)
  have "rfind pat str = None" using Cons.prems by (intro Cons.IH) force
  then show ?case using Cons.prems by force
qed

lemma rfind_append: "rfind pat str = Some i \<Longrightarrow> rfind pat (pre @ str) = Some (length pre + i)"
  by (induction pre) simp_all

text \<open>No text without a \<open>p\<close> behind its dashes holds the marker.\<close>

lemma no_marker:
  assumes "CHR ''p'' \<notin> set str"
  shows "rfind ''-pod'' str = None"
proof (rule rfind_none)
  have "CHR ''p'' \<in> set str" if "starts_with (drop k str) ''-pod''" for k
  proof -
    from that obtain rest where "drop k str = ''-pod'' @ rest" unfolding starts_with_append by blast
    then have "CHR ''p'' \<in> set (drop k str)" by simp
    then show ?thesis by (rule in_set_dropD)
  qed
  with assms show "\<forall>k<length str. \<not> starts_with (drop k str) ''-pod''" by blast
qed simp

lemma rfind_marker:
  assumes "CHR ''p'' \<notin> set str"
  shows "rfind ''-pod'' (pre @ ''-pod'' @ str) = Some (length pre)"
proof -
  note none = no_marker [OF assms]
  have "rfind ''-pod'' (''-pod'' @ str) = Some 0" using none by (simp add: starts_with_def)
  then show ?thesis using rfind_append by fastforce
qed

text \<open>
  The two ways a pod is written in a path give the same uid: the cgroupfs driver's component
  \<open>pod<uid>\<close> and the systemd driver's slice, which replaces the dashes of the uid by underscores
  because a slice name uses dashes for hierarchy.
\<close>

theorem pod_layouts_agree:
  assumes "canonical_uid uid" "\<not> starts_with (par @ ''-pod'' @ underscored uid @ ''.slice'') ''pod''"
  shows "pod_uid_of_component (''pod'' @ uid) = Some uid \<and>
    pod_uid_of_component (par @ ''-pod'' @ underscored uid @ ''.slice'') = Some uid"
proof
  show "pod_uid_of_component (''pod'' @ uid) = Some uid"
    using assms(1) by (simp add: pod_uid_of_component_def starts_with_def canonical_uid_def)
  let ?c = "par @ ''-pod'' @ underscored uid @ ''.slice''"
  have "CHR ''p'' \<notin> set uid" using canonical_uid_chars [OF assms(1), of "CHR ''p''"] by (auto simp: is_lower_hex_char_def)
  then have "CHR ''p'' \<notin> set (underscored uid @ ''.slice'')" by (auto simp: underscored_def)
  from rfind_marker [OF this, of par] have marker: "rfind ''-pod'' ?c = Some (length par)" by simp
  have "ends_with ?c ''.slice''" unfolding ends_with_append by (metis append_assoc)
  then have "pod_uid_of_component ?c = pod_uid_from (substr (length par + 4) (length ?c - length par - 4 - 6) ?c)"
    unfolding pod_uid_of_component_def marker using assms(2) by (simp only: if_True if_False option.case)
  also have "substr (length par + 4) (length ?c - length par - 4 - 6) ?c = underscored uid"
    by (simp add: substr_def)
  finally show "pod_uid_of_component ?c = Some uid" using pod_uid_from_underscored [OF assms(1)] by simp
qed

theorem pod_layouts_agree_witness:
  "pod_uid_of_component (''pod'' @ ''01234567-89ab-cdef-0123-456789abcdef'') = Some ''01234567-89ab-cdef-0123-456789abcdef'' \<and>
   pod_uid_of_component (''kubepods-burstable'' @ ''-pod'' @ underscored ''01234567-89ab-cdef-0123-456789abcdef'' @ ''.slice'') =
     Some ''01234567-89ab-cdef-0123-456789abcdef''"
proof (rule pod_layouts_agree)
  show "canonical_uid ''01234567-89ab-cdef-0123-456789abcdef''" by code_simp
  show "\<not> starts_with (''kubepods-burstable'' @ ''-pod'' @ underscored ''01234567-89ab-cdef-0123-456789abcdef'' @ ''.slice'') ''pod''"
    by (simp add: starts_with_def)
qed

end
