(* ===== verification/State_Diff.thy ===== *)
theory State_Diff
  imports Json_Reader "HOL-Library.List_Lexorder"
begin

text \<open>
  Changes between two inventories of the host, \<^verbatim>\<open>src/sensor/state_diff.cpp\<close>. A \<open>std::map\<close>
  from strings is a list of pairs in ascending order of the keys. The text of a number with a
  fraction (\<open>std::to_string\<close> of a double) is an argument, as the parser keeps such a number as it
  was written. The reported changes are shown to be exactly the difference of the two inventories.
\<close>

section \<open>Ordered maps\<close>

type_synonym smap = "(byte list \<times> byte list) list"

fun smap_set :: "byte list \<Rightarrow> byte list \<Rightarrow> smap \<Rightarrow> smap" where
  "smap_set k v [] = [(k, v)]"
| "smap_set k v ((k', v') # m) =
     (if k < k' then (k, v) # (k', v') # m else if k = k' then (k, v) # m else (k', v') # smap_set k v m)"

definition smap_ok :: "smap \<Rightarrow> bool" where
  "smap_ok m \<longleftrightarrow> sorted_wrt (<) (map fst m)"

lemma map_of_smap_set: "map_of (smap_set k v m) = (map_of m)(k \<mapsto> v)"
proof (induction m)
  case (Cons p m)
  then show ?case by (cases p) (auto simp: fun_eq_iff)
qed simp

lemma keys_smap_set: "fst ` set (smap_set k v m) = insert k (fst ` set m)"
proof (induction m)
  case (Cons p m)
  then show ?case by (cases p) auto
qed simp

lemma smap_ok_set: "smap_ok m \<Longrightarrow> smap_ok (smap_set k v m)"
proof (induction m)
  case (Cons p m)
  obtain k' v' where p: "p = (k', v')" by fastforce
  have keys: "set (map fst (smap_set k v m)) = insert k (set (map fst m))" using keys_smap_set by simp
  show ?case
    using Cons p keys by (auto simp: smap_ok_def simp del: set_map intro: order.strict_trans)
qed (simp add: smap_ok_def)

lemma smap_ok_distinct: "smap_ok m \<Longrightarrow> distinct (map fst m)"
  by (simp add: smap_ok_def strict_sorted_imp_sorted strict_sorted_iff)

section \<open>Rules and rendering\<close>

record diff_rule =
  dr_object :: string
  dr_type :: string
  dr_key_fields :: "string list"
  dr_flatten :: bool

definition diff_rules :: "diff_rule list" where
  "diff_rules =
     [\<lparr>dr_object = ''posture'', dr_type = ''posture.changed'', dr_key_fields = [], dr_flatten = True\<rparr>,
      \<lparr>dr_object = ''interfaces'', dr_type = ''interface.changed'', dr_key_fields = [''name''], dr_flatten = False\<rparr>,
      \<lparr>dr_object = ''users'', dr_type = ''account.changed'', dr_key_fields = [''name''], dr_flatten = False\<rparr>,
      \<lparr>dr_object = ''groups'', dr_type = ''account.changed'', dr_key_fields = [''name''], dr_flatten = False\<rparr>,
      \<lparr>dr_object = ''packages'', dr_type = ''package.changed'', dr_key_fields = [''name'', ''architecture''], dr_flatten = False\<rparr>,
      \<lparr>dr_object = ''devices'', dr_type = ''device.changed'', dr_key_fields = [''path''], dr_flatten = False\<rparr>]"

definition rule_for :: "string \<Rightarrow> diff_rule option" where
  "rule_for object = List.find (\<lambda>r. dr_object r = object) diff_rules"

definition change_type_for :: "string \<Rightarrow> string" where
  "change_type_for object = (case rule_for object of None \<Rightarrow> [] | Some r \<Rightarrow> dr_type r)"

definition json_quoted :: "byte list \<Rightarrow> byte list" where
  "json_quoted str =
     [0x22] @ concat (map (\<lambda>c. if c = 0x22 \<or> c = 0x5C then [0x5C, c]
        else if c < 0x20 then [0x5C, 0x75, 0x30, 0x30, hex_digit (drop_bit 4 c), hex_digit (c AND 0x0F)] else [c]) str) @ [0x22]"

fun commas :: "byte list list \<Rightarrow> byte list" where
  "commas [] = []"
| "commas [x] = x"
| "commas (x # xs) = x @ [0x2C] @ commas xs"

fun render :: "(byte list \<Rightarrow> byte list) \<Rightarrow> json_value \<Rightarrow> byte list" where
  "render real_text Null = ascii ''null''"
| "render real_text (Boolean b) = ascii (if b then ''true'' else ''false'')"
| "render real_text (Integer neg mag) =
     (case as_integer (Integer neg mag) of
        Some i \<Rightarrow> ascii (signed_text i)
      | None \<Rightarrow> ascii (to_string (unat (case as_unsigned (Integer neg mag) of Some u \<Rightarrow> u | None \<Rightarrow> 0))))"
| "render real_text (Real lexeme) = real_text lexeme"
| "render real_text (String str) = json_quoted str"
| "render real_text (Array xs) = [0x5B] @ commas (map (render real_text) xs) @ [0x5D]"
| "render real_text (Object ms) =
     [0x7B] @ commas (map (\<lambda>m. json_quoted (fst m) @ [0x3A] @ render real_text (snd m)) ms) @ [0x7D]"

fun flatten :: "(byte list \<Rightarrow> byte list) \<Rightarrow> json_value \<Rightarrow> byte list \<Rightarrow> smap \<Rightarrow> smap" where
  "flatten real_text (Object ms) path out =
     fold (\<lambda>m. flatten real_text (snd m) (if path = [] then fst m else path @ [0x2E] @ fst m)) ms out"
| "flatten real_text v path out = smap_set path (render real_text v) out"

definition key_text :: "(byte list \<Rightarrow> byte list) \<Rightarrow> json_value \<Rightarrow> byte list" where
  "key_text real_text v =
     (case as_string v of Some str \<Rightarrow> str
      | None \<Rightarrow> (case v of Integer _ _ \<Rightarrow> render real_text v | _ \<Rightarrow> []))"

section \<open>Snapshots\<close>

record state_snapshot =
  ss_object :: string
  ss_items :: "byte list list"
  ss_unavailable :: "string list"
  ss_truncated :: bool

datatype change_kind = Added | Removed | Modified

record state_change_entry =
  ce_key :: "byte list"
  ce_kind :: change_kind
  ce_before :: "byte list option"
  ce_after :: "byte list option"

record state_change =
  sc_object :: string
  sc_type :: string
  sc_total :: nat
  sc_entries :: "state_change_entry list"
  sc_truncated :: bool

definition item_limits :: json_limits where
  "item_limits = default_json_limits\<lparr>maximum_bytes := 256 * 1024\<rparr>"

text \<open>The key of an item: the rule's fields that are present, joined by a bar.\<close>

definition item_key :: "(byte list \<Rightarrow> byte list) \<Rightarrow> diff_rule \<Rightarrow> json_value \<Rightarrow> byte list" where
  "item_key real_text rule item =
     fold (\<lambda>field key. case find_member (ascii field) item of
             None \<Rightarrow> key
           | Some member \<Rightarrow> (if key \<noteq> [] then key @ [0x7C] else key) @ key_text real_text member) (dr_key_fields rule) []"

definition read_item :: "(byte list \<Rightarrow> bool) \<Rightarrow> (byte list \<Rightarrow> byte list) \<Rightarrow> diff_rule \<Rightarrow> byte list \<Rightarrow> smap \<Rightarrow> smap" where
  "read_item in_range real_text rule item current =
     (case parse_json in_range item_limits item of
        Inr (Object ms) \<Rightarrow>
          if dr_flatten rule then flatten real_text (Object ms) [] current
          else let key = item_key real_text rule (Object ms) in if key \<noteq> [] then smap_set key item current else current
      | _ \<Rightarrow> current)"

definition current_of :: "(byte list \<Rightarrow> bool) \<Rightarrow> (byte list \<Rightarrow> byte list) \<Rightarrow> diff_rule \<Rightarrow> state_snapshot \<Rightarrow> smap" where
  "current_of in_range real_text rule snapshot = fold (read_item in_range real_text rule) (ss_items snapshot) []"

section \<open>Observing\<close>

definition record_entry :: "nat \<Rightarrow> state_change_entry \<Rightarrow> state_change \<Rightarrow> state_change" where
  "record_entry maximum e c =
     (let c = c\<lparr>sc_total := sc_total c + 1\<rparr>
      in if length (sc_entries c) < maximum then c\<lparr>sc_entries := sc_entries c @ [e]\<rparr> else c\<lparr>sc_truncated := True\<rparr>)"

definition record_current :: "nat \<Rightarrow> smap \<Rightarrow> byte list \<times> byte list \<Rightarrow> state_change \<Rightarrow> state_change" where
  "record_current maximum before kv c =
     (case map_of before (fst kv) of
        None \<Rightarrow> record_entry maximum \<lparr>ce_key = fst kv, ce_kind = Added, ce_before = None, ce_after = Some (snd kv)\<rparr> c
      | Some old \<Rightarrow>
          if old \<noteq> snd kv
          then record_entry maximum \<lparr>ce_key = fst kv, ce_kind = Modified, ce_before = Some old, ce_after = Some (snd kv)\<rparr> c
          else c)"

definition record_removed :: "nat \<Rightarrow> smap \<Rightarrow> byte list \<times> byte list \<Rightarrow> state_change \<Rightarrow> state_change" where
  "record_removed maximum current kv c =
     (if map_of current (fst kv) = None
      then record_entry maximum \<lparr>ce_key = fst kv, ce_kind = Removed, ce_before = Some (snd kv), ce_after = None\<rparr> c else c)"

definition changes_between :: "nat \<Rightarrow> diff_rule \<Rightarrow> state_snapshot \<Rightarrow> smap \<Rightarrow> smap \<Rightarrow> state_change" where
  "changes_between maximum rule snapshot before current =
     (let c0 = \<lparr>sc_object = ss_object snapshot, sc_type = dr_type rule, sc_total = 0, sc_entries = [], sc_truncated = False\<rparr>;
          c1 = fold (record_current maximum before) current c0
      in if \<not> ss_truncated snapshot \<and> \<not> dr_flatten rule then fold (record_removed maximum current) before c1 else c1)"

definition observe ::
  "(byte list \<Rightarrow> bool) \<Rightarrow> (byte list \<Rightarrow> byte list) \<Rightarrow> nat \<Rightarrow> state_snapshot \<Rightarrow> (string \<rightharpoonup> smap) \<Rightarrow> state_change option \<times> (string \<rightharpoonup> smap)"
where
  "observe in_range real_text maximum snapshot previous =
     (case rule_for (ss_object snapshot) of
        None \<Rightarrow> (None, previous)
      | Some rule \<Rightarrow>
          let current = current_of in_range real_text rule snapshot;
              previous' = previous(ss_object snapshot \<mapsto> current)
          in case previous (ss_object snapshot) of
               None \<Rightarrow> (None, previous')
             | Some before \<Rightarrow>
                 let change = changes_between maximum rule snapshot before current
                 in (if sc_total change = 0 then None else Some change, previous'))"

section \<open>The difference of two inventories\<close>

definition changed_entry :: "smap \<Rightarrow> byte list \<times> byte list \<Rightarrow> state_change_entry list" where
  "changed_entry before kv =
     (case map_of before (fst kv) of
        None \<Rightarrow> [\<lparr>ce_key = fst kv, ce_kind = Added, ce_before = None, ce_after = Some (snd kv)\<rparr>]
      | Some old \<Rightarrow> if old \<noteq> snd kv then [\<lparr>ce_key = fst kv, ce_kind = Modified, ce_before = Some old, ce_after = Some (snd kv)\<rparr>] else [])"

definition removed_entry :: "smap \<Rightarrow> byte list \<times> byte list \<Rightarrow> state_change_entry list" where
  "removed_entry current kv =
     (if map_of current (fst kv) = None
      then [\<lparr>ce_key = fst kv, ce_kind = Removed, ce_before = Some (snd kv), ce_after = None\<rparr>] else [])"

definition difference :: "bool \<Rightarrow> smap \<Rightarrow> smap \<Rightarrow> state_change_entry list" where
  "difference removals before current =
     concat (map (changed_entry before) current) @ (if removals then concat (map (removed_entry current) before) else [])"

lemma fold_record_entry:
  assumes "sc_total c = length done_list" "sc_entries c = take maximum done_list" "sc_truncated c = (maximum < length done_list)"
  shows "fold (record_entry maximum) es c =
    c\<lparr>sc_total := length (done_list @ es), sc_entries := take maximum (done_list @ es),
      sc_truncated := (maximum < length (done_list @ es))\<rparr>"
  using assms
proof (induction es arbitrary: c done_list)
  case (Cons e es)
  have "sc_total (record_entry maximum e c) = length (done_list @ [e])"
    "sc_entries (record_entry maximum e c) = take maximum (done_list @ [e])"
    "sc_truncated (record_entry maximum e c) = (maximum < length (done_list @ [e]))"
    using Cons.prems by (auto simp: record_entry_def Let_def)
  from Cons.IH [OF this] show ?case
    by (simp add: record_entry_def Let_def)
qed simp

lemma fold_record_current:
  "fold (record_current maximum before) current c = fold (record_entry maximum) (concat (map (changed_entry before) current)) c"
  by (induction current arbitrary: c) (auto simp: record_current_def changed_entry_def split: option.split)

lemma fold_record_removed:
  "fold (record_removed maximum current) before c = fold (record_entry maximum) (concat (map (removed_entry current) before)) c"
  by (induction before arbitrary: c) (auto simp: record_removed_def removed_entry_def)

lemma changes_between_difference:
  "changes_between maximum rule snapshot before current =
     (let d = difference (\<not> ss_truncated snapshot \<and> \<not> dr_flatten rule) before current
      in \<lparr>sc_object = ss_object snapshot, sc_type = dr_type rule, sc_total = length d, sc_entries = take maximum d,
          sc_truncated = (maximum < length d)\<rparr>)"
proof -
  let ?c0 = "\<lparr>sc_object = ss_object snapshot, sc_type = dr_type rule, sc_total = 0, sc_entries = [], sc_truncated = False\<rparr>"
  have "changes_between maximum rule snapshot before current =
      fold (record_entry maximum) (difference (\<not> ss_truncated snapshot \<and> \<not> dr_flatten rule) before current) ?c0"
    by (simp add: changes_between_def difference_def fold_record_current fold_record_removed Let_def)
  with fold_record_entry [of ?c0 "[]" maximum] show ?thesis by (simp add: Let_def)
qed

text \<open>Every entry of the difference tells the truth about both sides.\<close>

definition entry_true :: "smap \<Rightarrow> smap \<Rightarrow> state_change_entry \<Rightarrow> bool" where
  "entry_true before current e \<longleftrightarrow>
     ce_before e = map_of before (ce_key e) \<and> ce_after e = map_of current (ce_key e) \<and> ce_before e \<noteq> ce_after e \<and>
     ce_kind e = (if ce_before e = None then Added else if ce_after e = None then Removed else Modified)"

lemma difference_true:
  assumes "smap_ok before" "smap_ok current" "e \<in> set (difference removals before current)"
  shows "entry_true before current e"
proof -
  note look = map_of_eq_Some_iff [OF smap_ok_distinct [OF assms(1)]] map_of_eq_Some_iff [OF smap_ok_distinct [OF assms(2)]]
  from assms(3) consider k v where "(k, v) \<in> set current" "e \<in> set (changed_entry before (k, v))"
    | k v where "(k, v) \<in> set before" "e \<in> set (removed_entry current (k, v))"
    by (auto simp: difference_def split: if_splits)
  then show ?thesis
  proof cases
    case 1
    then have "map_of current k = Some v" by (simp add: look)
    with 1 show ?thesis by (auto simp: changed_entry_def entry_true_def split: option.splits if_splits)
  next
    case 2
    then have "map_of before k = Some v" by (simp add: look)
    with 2 show ?thesis by (auto simp: removed_entry_def entry_true_def split: if_splits)
  qed
qed

text \<open>A key no entry names has the same value on both sides.\<close>

lemma difference_complete:
  assumes "smap_ok before" "smap_ok current" "k \<notin> ce_key ` set (difference True before current)"
  shows "map_of before k = map_of current k"
proof (cases "map_of current k")
  case (Some v)
  then have kv: "(k, v) \<in> set current" by (rule map_of_SomeD)
  with assms(3) have "changed_entry before (k, v) = []" by (force simp: difference_def changed_entry_def split: option.splits if_splits)
  with Some show ?thesis by (auto simp: changed_entry_def split: option.splits if_splits)
next
  case None
  show ?thesis
  proof (cases "map_of before k")
    case (Some v)
    then have kv: "(k, v) \<in> set before" by (rule map_of_SomeD)
    with None have "\<lparr>ce_key = k, ce_kind = Removed, ce_before = Some v, ce_after = None\<rparr> \<in> set (difference True before current)"
      by (force simp: difference_def removed_entry_def)
    with assms(3) show ?thesis by force
  qed (simp add: None)
qed

section \<open>Histories\<close>

definition patch :: "state_change_entry list \<Rightarrow> (byte list \<rightharpoonup> byte list) \<Rightarrow> (byte list \<rightharpoonup> byte list)" where
  "patch es m = fold (\<lambda>e m. m(ce_key e := ce_after e)) es m"

lemma patch_consistent:
  assumes "\<forall>e\<in>set es. ce_after e = goal_map (ce_key e)"
  shows "patch es m k = (if k \<in> ce_key ` set es then goal_map k else m k)"
  using assms by (induction es arbitrary: m) (auto simp: patch_def)

definition after_history ::
  "(byte list \<Rightarrow> bool) \<Rightarrow> (byte list \<Rightarrow> byte list) \<Rightarrow> nat \<Rightarrow> state_snapshot list \<Rightarrow> (string \<rightharpoonup> smap)" where
  "after_history in_range real_text maximum history =
     fold (\<lambda>s p. snd (observe in_range real_text maximum s p)) history Map.empty"

lemma smap_ok_flatten: "smap_ok out \<Longrightarrow> smap_ok (flatten real_text v path out)"
proof (induction real_text v path out rule: flatten.induct)
  case (1 real_text ms path out)
  have "smap_ok (fold (\<lambda>m. flatten real_text (snd m) (if path = [] then fst m else path @ [0x2E] @ fst m)) xs out)"
    if "set xs \<subseteq> set ms" "smap_ok out" for xs out
    using that
  proof (induction xs arbitrary: out)
    case (Cons x xs)
    then have "smap_ok (flatten real_text (snd x) (if path = [] then fst x else path @ [0x2E] @ fst x) out)"
      using "1.IH" by simp
    with Cons show ?case by simp
  qed simp
  then show ?case using 1 by simp
qed (simp_all add: smap_ok_set)

lemma smap_ok_current: "smap_ok (current_of in_range real_text rule snapshot)"
proof -
  have step: "smap_ok (read_item in_range real_text rule item m)" if "smap_ok m" for item m
    using that by (auto simp: read_item_def Let_def smap_ok_set smap_ok_flatten simp del: flatten.simps
        split: sum.split json_value.split)
  have "smap_ok (fold (read_item in_range real_text rule) xs m)" if "smap_ok m" for xs m
    using that by (induction xs arbitrary: m) (auto simp: step)
  then show ?thesis by (simp add: current_of_def smap_ok_def)
qed

lemma observe_remembers:
  assumes "rule_for (ss_object s) = Some rule"
  shows "snd (observe in_range real_text maximum s previous) = previous(ss_object s \<mapsto> current_of in_range real_text rule s)"
  using assms by (simp add: observe_def Let_def split: option.split)

lemma observe_other:
  "ss_object s \<noteq> object \<Longrightarrow> snd (observe in_range real_text maximum s previous) object = previous object"
  by (simp add: observe_def Let_def split: option.split)

lemma after_history_last:
  assumes "rule_for (ss_object s0) = Some rule" "\<forall>x\<in>set h2. ss_object x \<noteq> ss_object s0"
  shows "after_history in_range real_text maximum (h1 @ s0 # h2) (ss_object s0) = Some (current_of in_range real_text rule s0)"
proof -
  have "fold (\<lambda>s p. snd (observe in_range real_text maximum s p)) h2 p (ss_object s0) = p (ss_object s0)" for p
    using assms(2) by (induction h2 arbitrary: p) (auto simp: observe_other)
  then show ?thesis by (simp add: after_history_def observe_remembers [OF assms(1)])
qed

lemma observe_after:
  assumes "rule_for (ss_object s) = Some rule" "ss_object s0 = ss_object s" "\<forall>x\<in>set h2. ss_object x \<noteq> ss_object s"
  shows "fst (observe in_range real_text maximum s (after_history in_range real_text maximum (h1 @ s0 # h2))) =
    (let c = changes_between maximum rule s (current_of in_range real_text rule s0) (current_of in_range real_text rule s)
     in if sc_total c = 0 then None else Some c)"
  using after_history_last [of s0 rule h2] assms by (simp add: observe_def Let_def)

text \<open>
  C35. Replaying the reported changes gives the new inventory: whatever was observed before, if the
  last snapshot of an object was \<open>s0\<close> and a snapshot \<open>s\<close> of it that is not truncated is observed now
  (an object that is compared item by item, not flattened), then no report means that both
  inventories are the same, and a report whose entries were not cut turns the old inventory into
  the new one when its entries are applied. A snapshot with unavailable parts is no exception: the
  code reports what it lacks as removed, which \<^verbatim>\<open>state_diff.hpp\<close> says it does not.
\<close>

theorem state_diff_replays:
  assumes "rule_for (ss_object s) = Some rule" "ss_object s0 = ss_object s" "\<forall>x\<in>set h2. ss_object x \<noteq> ss_object s"
    and "\<not> ss_truncated s" "\<not> dr_flatten rule"
  shows "case fst (observe in_range real_text maximum s (after_history in_range real_text maximum (h1 @ s0 # h2))) of
      None \<Rightarrow> map_of (current_of in_range real_text rule s0) = map_of (current_of in_range real_text rule s)
    | Some c \<Rightarrow> sc_truncated c \<or>
        patch (sc_entries c) (map_of (current_of in_range real_text rule s0)) = map_of (current_of in_range real_text rule s)"
proof -
  let ?b = "current_of in_range real_text rule s0" and ?c = "current_of in_range real_text rule s"
  let ?d = "difference True ?b ?c"
  have "patch ?d (map_of ?b) = map_of ?c"
  proof
    fix k
    have "\<forall>e\<in>set ?d. ce_after e = map_of ?c (ce_key e)"
      using difference_true [OF smap_ok_current smap_ok_current] by (auto simp: entry_true_def)
    from patch_consistent [OF this] show "patch ?d (map_of ?b) k = map_of ?c k"
      using difference_complete [OF smap_ok_current smap_ok_current] by simp
  qed
  moreover have "map_of ?b = map_of ?c" if "?d = []"
    using calculation that by (simp add: patch_def)
  ultimately show ?thesis
    using assms(4,5) unfolding observe_after [OF assms(1-3)] changes_between_difference
    by (cases "maximum < length ?d") (auto simp: Let_def not_less)
qed

definition sample_item :: "string \<Rightarrow> byte list" where
  "sample_item name = ascii (''{'' @ [CHR 0x22] @ ''name'' @ [CHR 0x22] @ '':'' @ [CHR 0x22] @ name @ [CHR 0x22] @ ''}'')"

definition sample_packages :: "string list \<Rightarrow> string list \<Rightarrow> state_snapshot" where
  "sample_packages names missing = \<lparr>ss_object = ''packages'', ss_items = map sample_item names, ss_unavailable = missing, ss_truncated = False\<rparr>"

theorem state_diff_replays_witness:
  "case fst (observe (\<lambda>_. True) id 256 (sample_packages [''b''] []) (after_history (\<lambda>_. True) id 256 ([] @ sample_packages [''a''] [] # []))) of
      None \<Rightarrow> map_of (current_of (\<lambda>_. True) id (diff_rules ! 4) (sample_packages [''a''] [])) =
              map_of (current_of (\<lambda>_. True) id (diff_rules ! 4) (sample_packages [''b''] []))
    | Some c \<Rightarrow> sc_truncated c \<or>
        patch (sc_entries c) (map_of (current_of (\<lambda>_. True) id (diff_rules ! 4) (sample_packages [''a''] []))) =
          map_of (current_of (\<lambda>_. True) id (diff_rules ! 4) (sample_packages [''b''] []))"
proof (rule state_diff_replays)
  show "rule_for (ss_object (sample_packages [''b''] [])) = Some (diff_rules ! 4)"
    by (simp add: sample_packages_def rule_for_def diff_rules_def)
qed (simp_all add: sample_packages_def diff_rules_def)

text \<open>
  C36. Every reported entry is true of the two inventories it compares: the value before and the
  value after are the inventories' values of that key, they differ, and the kind fits them; no more
  entries than the limit are kept, the total counts them all, and a snapshot marked truncated or of
  an object that is flattened never reports a removal.
\<close>

theorem state_diff_true:
  assumes "rule_for (ss_object s) = Some rule" "ss_object s0 = ss_object s" "\<forall>x\<in>set h2. ss_object x \<noteq> ss_object s"
    and "fst (observe in_range real_text maximum s (after_history in_range real_text maximum (h1 @ s0 # h2))) = Some c"
  shows "(\<forall>e\<in>set (sc_entries c). entry_true (current_of in_range real_text rule s0) (current_of in_range real_text rule s) e) \<and>
    length (sc_entries c) = min maximum (sc_total c) \<and> (sc_truncated c \<longleftrightarrow> maximum < sc_total c) \<and>
    (ss_truncated s \<or> dr_flatten rule \<longrightarrow> (\<forall>e\<in>set (sc_entries c). ce_kind e \<noteq> Removed))"
proof -
  let ?b = "current_of in_range real_text rule s0" and ?c = "current_of in_range real_text rule s"
  let ?d = "difference (\<not> ss_truncated s \<and> \<not> dr_flatten rule) ?b ?c"
  have c: "sc_entries c = take maximum ?d" "sc_total c = length ?d" "sc_truncated c = (maximum < length ?d)"
    using assms(4) unfolding observe_after [OF assms(1-3)] changes_between_difference
    by (auto simp: Let_def split: if_splits)
  have sub: "set (sc_entries c) \<subseteq> set ?d" unfolding c by (rule set_take_subset)
  then have "\<forall>e\<in>set (sc_entries c). entry_true ?b ?c e" using difference_true [OF smap_ok_current smap_ok_current] by blast
  moreover have "ce_kind e \<noteq> Removed" if "ss_truncated s \<or> dr_flatten rule" "e \<in> set ?d" for e
    using that by (auto simp: difference_def changed_entry_def split: option.splits if_splits)
  ultimately show ?thesis using c sub by (auto simp: min.commute)
qed

lemma sample_item_parsed:
  "parse_json (\<lambda>_. True) item_limits (sample_item ''a'') = Inr (Object [(ascii ''name'', String (ascii ''a''))])"
proof -
  let ?v = "ascii ([CHR 0x22] @ ''a'' @ [CHR 0x22] @ ''}'')"
  have doc: "skip_space (sample_item ''a'') = sample_item ''a''" "sample_item ''a'' \<noteq> []" "hd (sample_item ''a'') = 0x7B"
    "\<not> starts_with (\<lambda>b. b = 0x7D) (skip_space (tl (sample_item ''a'')))" "length (sample_item ''a'') = 12"
    by code_simp+
  have key: "object_key [] (skip_space (tl (sample_item ''a''))) = Parsed (ascii ''name'') ?v" by code_simp
  have val: "skip_space ?v = ?v" "scalar (\<lambda>_. True) ?v = Parsed (String (ascii ''a'')) (ascii ''}'')" "?v \<noteq> []" "hd ?v = 0x22" by code_simp+
  have sep: "separator CHR ''}'' ''unterminated object'' (ascii ''}'') = Parsed False []" "skip_space [] = []" by code_simp+
  have run: "json_run (\<lambda>_. True) item_limits (Suc (Suc (Suc n))) (Value_at 1 0 (sample_item ''a'')) =
      Parsed (Object [(ascii ''name'', String (ascii ''a''))], 2) []" for n
    using doc key val sep by (simp add: json_run.simps(2) item_limits_def default_json_limits_def)
  have "2 * length (sample_item ''a'') + 1 = Suc (Suc (Suc 22))" using doc by simp
  then show ?thesis using doc run [of 22] sep(2) by (simp add: parse_json_def item_limits_def default_json_limits_def)
qed
lemma sample_current:
  "current_of (\<lambda>_. True) id (diff_rules ! 4) (sample_packages [''a''] []) = [(ascii ''a'', sample_item ''a'')]"
  "current_of (\<lambda>_. True) id (diff_rules ! 4) (sample_packages [] missing) = []"
proof -
  have "item_key id (diff_rules ! 4) (Object [(ascii ''name'', String (ascii ''a''))]) = ascii ''a''" by code_simp
  moreover have "ascii ''a'' \<noteq> []" by code_simp
  ultimately show "current_of (\<lambda>_. True) id (diff_rules ! 4) (sample_packages [''a''] []) = [(ascii ''a'', sample_item ''a'')]"
    by (simp add: current_of_def sample_packages_def read_item_def sample_item_parsed Let_def diff_rules_def)
  show "current_of (\<lambda>_. True) id (diff_rules ! 4) (sample_packages [] missing) = []"
    by (simp add: current_of_def sample_packages_def)
qed

text \<open>
  A snapshot that could not be collected does report removals: the list of what was unavailable is
  not consulted, only \<open>truncated\<close> is.
\<close>

theorem state_diff_unavailable_removes:
  "fst (observe (\<lambda>_. True) id 256 (sample_packages [] [''packages.dpkg''])
      (after_history (\<lambda>_. True) id 256 ([] @ sample_packages [''a''] [] # []))) =
   Some \<lparr>sc_object = ''packages'', sc_type = ''package.changed'', sc_total = 1,
     sc_entries = [\<lparr>ce_key = ascii ''a'', ce_kind = Removed, ce_before = Some (sample_item ''a''), ce_after = None\<rparr>],
     sc_truncated = False\<rparr>"
proof -
  have r: "rule_for (ss_object (sample_packages [] [''packages.dpkg''])) = Some (diff_rules ! 4)"
    by (simp add: sample_packages_def rule_for_def diff_rules_def)
  have "difference True [(ascii ''a'', sample_item ''a'')] [] =
      [\<lparr>ce_key = ascii ''a'', ce_kind = Removed, ce_before = Some (sample_item ''a''), ce_after = None\<rparr>]"
    by (simp add: difference_def removed_entry_def)
  moreover have "\<not> ss_truncated (sample_packages [] [''packages.dpkg''])" "\<not> dr_flatten (diff_rules ! 4)"
      "dr_type (diff_rules ! 4) = ''package.changed''" "ss_object (sample_packages [] [''packages.dpkg'']) = ''packages''"
      "ss_object (sample_packages [''a''] []) = ''packages''"
    by (simp_all add: sample_packages_def diff_rules_def)
  ultimately show ?thesis
    using observe_after [OF r, of "sample_packages [''a''] []" "[]" "\<lambda>_. True" id 256 "[]"]
    by (simp add: changes_between_difference sample_current Let_def)
qed

theorem state_diff_true_witness:
  "entry_true (current_of (\<lambda>_. True) id (diff_rules ! 4) (sample_packages [''a''] []))
     (current_of (\<lambda>_. True) id (diff_rules ! 4) (sample_packages [] [''packages.dpkg'']))
     \<lparr>ce_key = ascii ''a'', ce_kind = Removed, ce_before = Some (sample_item ''a''), ce_after = None\<rparr>"
proof -
  have r: "rule_for (ss_object (sample_packages [] [''packages.dpkg''])) = Some (diff_rules ! 4)"
    by (simp add: sample_packages_def rule_for_def diff_rules_def)
  have same: "ss_object (sample_packages [''a''] []) = ss_object (sample_packages [] [''packages.dpkg''])"
    by (simp add: sample_packages_def)
  have none: "\<forall>x\<in>set []. ss_object x \<noteq> ss_object (sample_packages [] [''packages.dpkg''])" by simp
  from state_diff_true [OF r same none state_diff_unavailable_removes] show ?thesis by simp
qed

end
