(* ===== verification/Loss_Accounting.thy ===== *)
theory Loss_Accounting
  imports Wal_Accounting Event_Queue "HOL-Library.List_Lexorder" "HOL-Library.Char_ord"
begin

text \<open>
  How the pipeline accounts for what is lost, \<^verbatim>\<open>src/sensor/pipeline.cpp\<close>: \<open>emit\<close>, \<open>emit_loss\<close>,
  \<open>carry_dropped_loss_reports\<close>, \<open>collect_losses\<close>, the marker of an unclean end, and the order in which \<open>start\<close> and \<open>step\<close> call
  them. The sink is the write-ahead log. The uplink and whoever touches the files act on the log from outside between any two calls: what they
  do before the call with a given number is an argument. Which records the rest of the pipeline writes, and their bytes, are
  arguments too. \<open>pl_fate\<close> is not part of the code: it notes what became of every count, with what the code saw
  when it let go of one, so that the theorems can say that each was let go of rightly.
\<close>

section \<open>Reports\<close>

record loss_report =
  lr_stage :: string
  lr_count :: nat
  lr_by_type :: "(string \<times> nat) list"
  lr_detail :: string

text \<open>A \<open>std::map\<close> from strings is a list in ascending order of its keys; this is \<open>map[name] += n\<close>.\<close>

fun add_count :: "string \<Rightarrow> nat \<Rightarrow> (string \<times> nat) list \<Rightarrow> (string \<times> nat) list" where
  "add_count name n [] = [(name, n)]"
| "add_count name n ((m, k) # rest) =
     (if name = m then (m, k + n) # rest
      else if name < m then (name, n) # (m, k) # rest
      else (m, k) # add_count name n rest)"

definition merge_report :: "loss_report \<Rightarrow> loss_report \<Rightarrow> loss_report" where
  "merge_report into other =
     into\<lparr>lr_count := lr_count into + lr_count other,
          lr_by_type := fold (\<lambda>(name, n). add_count name n) (lr_by_type other) (lr_by_type into)\<rparr>"

section \<open>State\<close>

text \<open>
  What became of a count of a stage: it was declared; its record, of that number, was taken for delivered; its report was no longer tracked,
  those of the given stages still being tracked; it was added to a report of another stage, so many reports being held back.
\<close>

datatype fate =
    Declared string nat
  | Settled string nat nat
  | Forgotten string nat "string list"
  | Moved string string nat nat

type_synonym written_loss = "nat \<times> loss_report"

record 'a sensor_pipeline =
  pl_log :: wal
  pl_queue :: "'a record_queue"
  pl_queue_capacity :: nat
  written_losses :: "written_loss list"
  pending_losses :: "loss_report list"
  m_records :: nat
  m_loss_records :: nat
  m_sink_errors :: nat
  m_oversize_dropped :: nat
  m_records_unwritten :: nat
  m_reconciles :: nat
  unwritten_reported :: nat
  quarantine_reported :: nat
  last_loss_retry_ns :: u64
  last_storage_check_ns :: u64
  last_write_error :: string
  write_failed :: bool
  last_emitted_seq :: nat
  pl_tick :: nat
  pl_fate :: "fate list"

definition pipeline_new :: "nat \<Rightarrow> wal \<Rightarrow> 'a sensor_pipeline" where
  "pipeline_new capacity log =
     \<lparr>pl_log = log, pl_queue = record_queue_new capacity, pl_queue_capacity = capacity, written_losses = [], pending_losses = [],
      m_records = 0, m_loss_records = 0, m_sink_errors = 0, m_oversize_dropped = 0, m_records_unwritten = 0, m_reconciles = 0,
      unwritten_reported = 0, quarantine_reported = 0, last_loss_retry_ns = 0, last_storage_check_ns = 0, last_write_error = [],
      write_failed = False, last_emitted_seq = 0, pl_tick = 0, pl_fate = []\<rparr>"

text \<open>Only the pipeline appends to the log and takes its losses.\<close>

fun other_step :: "wal_op \<Rightarrow> wal \<Rightarrow> wal" where
  "other_step (Append io seq payload) w = w"
| "other_step Take_losses w = w"
| "other_step op w = fst (wal_step op (w, []))"

record pipeline_env =
  pe_others :: "nat \<Rightarrow> wal_op list"
  pe_io :: "nat \<Rightarrow> wal_io"
  pe_loss_bytes :: "nat \<Rightarrow> loss_report \<Rightarrow> nat \<Rightarrow> byte list"

text \<open>The log as a call of the sink finds it.\<close>

definition log_now :: "pipeline_env \<Rightarrow> 'a sensor_pipeline \<Rightarrow> wal" where
  "log_now env p = fold other_step (pe_others env (pl_tick p)) (pl_log p)"

definition with_log :: "wal \<Rightarrow> 'a sensor_pipeline \<Rightarrow> 'a sensor_pipeline" where
  "with_log w p = p\<lparr>pl_log := w, pl_tick := pl_tick p + 1\<rparr>"

definition note_fate :: "fate list \<Rightarrow> 'a sensor_pipeline \<Rightarrow> 'a sensor_pipeline" where
  "note_fate fs p = p\<lparr>pl_fate := pl_fate p @ fs\<rparr>"

section \<open>Writing\<close>

definition emit :: "pipeline_env \<Rightarrow> (nat \<Rightarrow> byte list) \<Rightarrow> 'a sensor_pipeline \<Rightarrow> bool result \<times> 'a sensor_pipeline" where
  "emit env serialise p =
     (let w = log_now env p; seq = next_seq w
      in case wal_append (pe_io env (pl_tick p)) seq (serialise seq) w of
           (Inl e, w') \<Rightarrow>
             (Inl e, (with_log w' p)
                \<lparr>m_sink_errors := m_sink_errors p + 1, m_records_unwritten := m_records_unwritten p + 1, write_failed := True,
                 last_write_error := message e,
                 m_oversize_dropped := m_oversize_dropped p + (if code e = resource_limit then 1 else 0)\<rparr>)
         | (Inr _, w') \<Rightarrow>
             (Inr True, (with_log w' p)\<lparr>write_failed := False, m_records := m_records p + 1, last_emitted_seq := seq\<rparr>))"

definition maximum_tracked :: nat where "maximum_tracked = 8192"

definition maximum_pending :: nat where "maximum_pending = 64"

definition track :: "written_loss \<Rightarrow> 'a sensor_pipeline \<Rightarrow> 'a sensor_pipeline" where
  "track entry p =
     (let ws = written_losses p @ [entry]
      in if maximum_tracked < length ws then
           let front = hd ws
           in case find_if (\<lambda>other. lr_stage (snd other) = lr_stage (snd front)) (tl ws) of
                Some i \<Rightarrow> p\<lparr>written_losses := (fst front, merge_report (snd front) (snd (tl ws ! i))) # erase i (tl ws)\<rparr>
              | None \<Rightarrow> note_fate [Forgotten (lr_stage (snd front)) (lr_count (snd front)) (map (\<lambda>e. lr_stage (snd e)) (tl ws))] (p\<lparr>written_losses := tl ws\<rparr>)
         else p\<lparr>written_losses := ws\<rparr>)"

definition hold_back :: "loss_report \<Rightarrow> 'a sensor_pipeline \<Rightarrow> 'a sensor_pipeline" where
  "hold_back report p =
     (if length (pending_losses p) < maximum_pending then p\<lparr>pending_losses := pending_losses p @ [report]\<rparr>
      else let final = last (pending_losses p)
           in note_fate [Moved (lr_stage report) (lr_stage final) (lr_count report) (length (pending_losses p))]
                (p\<lparr>pending_losses := butlast (pending_losses p) @ [final\<lparr>lr_count := lr_count final + lr_count report\<rparr>]\<rparr>))"

definition emit_loss :: "pipeline_env \<Rightarrow> loss_report \<Rightarrow> 'a sensor_pipeline \<Rightarrow> bool result \<times> 'a sensor_pipeline" where
  "emit_loss env report p =
     (case emit env (pe_loss_bytes env (pl_tick p) report) p of
        (Inr b, p1) \<Rightarrow> (Inr b, track (last_emitted_seq p1, report) (p1\<lparr>m_loss_records := m_loss_records p1 + 1\<rparr>))
      | (Inl e, p1) \<Rightarrow> (Inl e, hold_back report (p1\<lparr>m_records_unwritten := m_records_unwritten p1 - 1\<rparr>)))"

text \<open>A loss that is reported for the first time, rather than again.\<close>

definition report_loss :: "pipeline_env \<Rightarrow> loss_report \<Rightarrow> 'a sensor_pipeline \<Rightarrow> 'a sensor_pipeline" where
  "report_loss env report p = snd (emit_loss env report (note_fate [Declared (lr_stage report) (lr_count report)] p))"

definition emit_all :: "pipeline_env \<Rightarrow> (nat \<Rightarrow> byte list) list \<Rightarrow> 'a sensor_pipeline \<Rightarrow> 'a sensor_pipeline" where
  "emit_all env records p = fold (\<lambda>r p. snd (emit env r p)) records p"

section \<open>Carrying reports forward\<close>

text \<open>The map \<open>carried\<close> with the map \<open>reports\<close> beside it: per stage how many reports, and their sum.\<close>

definition absorb :: "loss_report \<Rightarrow> nat \<times> loss_report \<Rightarrow> nat \<times> loss_report" where
  "absorb r c =
     (let into = (if lr_stage (snd c) = [] then (snd c)\<lparr>lr_stage := lr_stage r, lr_detail := lr_detail r\<rparr> else snd c)
      in (fst c + 1, merge_report into r))"

definition no_report :: loss_report where
  "no_report = \<lparr>lr_stage = [], lr_count = 0, lr_by_type = [], lr_detail = []\<rparr>"

fun carry_into :: "loss_report \<Rightarrow> (string \<times> nat \<times> loss_report) list \<Rightarrow> (string \<times> nat \<times> loss_report) list" where
  "carry_into r [] = [(lr_stage r, absorb r (0, no_report))]"
| "carry_into r ((stage, c) # rest) =
     (if lr_stage r = stage then (stage, absorb r c) # rest
      else if lr_stage r < stage then (lr_stage r, absorb r (0, no_report)) # (stage, c) # rest
      else (stage, c) # carry_into r rest)"

definition in_loss :: "wal_loss \<Rightarrow> written_loss \<Rightarrow> bool" where
  "in_loss loss entry \<longleftrightarrow> \<not> (fst entry < loss_first loss \<or> loss_last loss < fst entry)"

fun carry_loop ::
  "wal_loss list \<Rightarrow> written_loss list \<Rightarrow> (string \<times> nat \<times> loss_report) list \<Rightarrow>
   written_loss list \<times> (string \<times> nat \<times> loss_report) list"
where
  "carry_loop [] ws carried = (ws, carried)"
| "carry_loop (loss # dropped) ws carried =
     (if loss_last loss = 0 then carry_loop dropped ws carried
      else carry_loop dropped (filter (\<lambda>e. \<not> in_loss loss e) ws)
             (fold (\<lambda>e. carry_into (snd e)) (filter (in_loss loss) ws) carried))"

definition carried_detail :: "string \<Rightarrow> nat \<Rightarrow> string \<Rightarrow> string" where
  "carried_detail stage n detail =
     ''carried forward: '' @ to_string n @ '' earlier '' @ stage @
     '' loss record(s) were removed from the write-ahead log before delivery; the first said: '' @ take 160 detail"

fun carried_report :: "string \<times> nat \<times> loss_report \<Rightarrow> loss_report" where
  "carried_report (stage, n, r) = r\<lparr>lr_detail := carried_detail stage n (lr_detail r)\<rparr>"

definition carry_dropped_loss_reports :: "pipeline_env \<Rightarrow> wal_loss list \<Rightarrow> 'a sensor_pipeline \<Rightarrow> 'a sensor_pipeline" where
  "carry_dropped_loss_reports env dropped p =
     (let (ws, carried) = carry_loop dropped (written_losses p) []
      in fold (\<lambda>c p. snd (emit_loss env (carried_report c) p)) carried (p\<lparr>written_losses := ws\<rparr>))"

section \<open>Collecting losses\<close>

definition ns_per_second :: u64 where "ns_per_second = 1000000000"

definition retry_pending :: "pipeline_env \<Rightarrow> 'a sensor_pipeline \<Rightarrow> 'a sensor_pipeline" where
  "retry_pending env p =
     fold (\<lambda>r p. snd (emit_loss env r p)) (pending_losses p) (p\<lparr>pending_losses := []\<rparr>)"

definition write_failed_report :: "nat \<Rightarrow> string \<Rightarrow> loss_report" where
  "write_failed_report lost err =
     \<lparr>lr_stage = ''wal'', lr_count = lost, lr_by_type = [(''write_failed'', lost)],
      lr_detail = ''write_failed: '' @ to_string lost @ '' record(s) could not be written to the write-ahead log ('' @ err @
        ''); their sequence numbers were not used, so the stream has no gap''\<rparr>"

definition report_unwritten :: "pipeline_env \<Rightarrow> 'a sensor_pipeline \<Rightarrow> 'a sensor_pipeline" where
  "report_unwritten env p =
     (if unwritten_reported p < m_records_unwritten p then
        let total = m_records_unwritten p; lost = total - unwritten_reported p
        in report_loss env (write_failed_report lost (last_write_error p)) (p\<lparr>unwritten_reported := total\<rparr>)
      else p)"

definition retry_writes :: "pipeline_env \<Rightarrow> u64 \<Rightarrow> 'a sensor_pipeline \<Rightarrow> 'a sensor_pipeline" where
  "retry_writes env now p =
     (if \<not> write_failed p \<or> ns_per_second \<le> now - last_loss_retry_ns p
      then report_unwritten env (retry_pending env (p\<lparr>last_loss_retry_ns := now\<rparr>)) else p)"

definition queue_report :: "nat \<Rightarrow> nat \<Rightarrow> loss_report" where
  "queue_report capacity dropped =
     \<lparr>lr_stage = ''queue'', lr_count = dropped, lr_by_type = [],
      lr_detail = ''the in-memory record queue (capacity '' @ to_string capacity @ '') was full: '' @ to_string dropped @
        '' event(s) were dropped before the pipeline could process them''\<rparr>"

definition report_queue :: "pipeline_env \<Rightarrow> 'a sensor_pipeline \<Rightarrow> bool \<times> 'a sensor_pipeline" where
  "report_queue env p =
     (let (dropped, q) = take_dropped (pl_queue p); p1 = p\<lparr>pl_queue := q\<rparr>
      in if 0 < dropped then (True, report_loss env (queue_report (pl_queue_capacity p) (unat dropped)) p1) else (False, p1))"

text \<open>What a provider says when it is asked: a parameter for every provider in turn.\<close>

record provider_gap =
  pg_what :: string
  pg_last_verified_unix_ns :: nat
  pg_detected_unix_ns :: nat
  pg_restored_unix_ns :: nat
  pg_attempts :: nat

record provider_readings =
  sr_name :: string
  sr_governed :: nat
  sr_refused :: nat
  sr_losses :: nat
  sr_losses_are_event_counts :: bool
  sr_gaps :: "provider_gap list"

definition plain_report :: "string \<Rightarrow> nat \<Rightarrow> string \<Rightarrow> loss_report" where
  "plain_report stage n detail = \<lparr>lr_stage = stage, lr_count = n, lr_by_type = [], lr_detail = detail\<rparr>"

definition governor_report :: "provider_readings \<Rightarrow> loss_report" where
  "governor_report s = plain_report ''governor'' (sr_governed s)
     (sr_name s @ '' exceeded its event budget; '' @ to_string (sr_governed s) @ '' event(s) skipped'')"

definition refused_report :: "provider_readings \<Rightarrow> loss_report" where
  "refused_report s = plain_report ''refused'' (sr_refused s)
     (sr_name s @ '' refused '' @ to_string (sr_refused s) @
      '' input(s) it could not turn into events (for example a log line over the size limit); nothing was recorded about them'')"

definition kernel_report :: "provider_readings \<Rightarrow> loss_report" where
  "kernel_report s = plain_report ''kernel'' (sr_losses s)
     (if sr_losses_are_event_counts s
      then sr_name s @ '' could not reserve space in its kernel ring buffer for '' @ to_string (sr_losses s) @ '' event(s); the count is exact''
      else sr_name s @ '' receive buffer overflowed '' @ to_string (sr_losses s) @ '' time(s); the number of lost events is unknown'')"

definition gap_report :: "string \<Rightarrow> provider_gap \<Rightarrow> loss_report" where
  "gap_report name g =
     (let ms = (\<lambda>ns. to_string (ns div 1000000));
          blind = (if pg_last_verified_unix_ns g \<le> pg_restored_unix_ns g then pg_restored_unix_ns g - pg_last_verified_unix_ns g else 0)
      in plain_report ''provider_gap'' 1
           (name @ '' '' @ pg_what g @ '' was removed from outside the sensor: last verified attached at unix '' @
            ms (pg_last_verified_unix_ns g) @ '' ms, found missing at '' @ ms (pg_detected_unix_ns g) @
            '' ms, attached again and verified at '' @ ms (pg_restored_unix_ns g) @ '' ms after '' @ to_string (pg_attempts g) @
            '' attempt(s); events it would have reported in those '' @ ms blind @
            '' ms may be missing. The count is 1 interval, not a number of events''))"

text \<open>The reports about one provider, and whether the entity graph must be reconciled.\<close>

definition provider_reports :: "provider_readings \<Rightarrow> loss_report list" where
  "provider_reports s =
     (if 0 < sr_governed s then [governor_report s] else []) @ (if 0 < sr_refused s then [refused_report s] else []) @
     (if 0 < sr_losses s then [kernel_report s] else []) @ map (gap_report (sr_name s)) (sr_gaps s)"

definition provider_blind :: "provider_readings \<Rightarrow> bool" where
  "provider_blind s \<longleftrightarrow> 0 < sr_losses s \<or> sr_gaps s \<noteq> []"

definition check_storage :: "pipeline_env \<Rightarrow> u64 \<Rightarrow> 'a sensor_pipeline \<Rightarrow> 'a sensor_pipeline" where
  "check_storage env now p =
     (if ns_per_second \<le> now - last_storage_check_ns p
      then (with_log (snd (verify_storage (log_now env p))) p)\<lparr>last_storage_check_ns := now\<rparr> else p)"

definition settle_delivered :: "pipeline_env \<Rightarrow> 'a sensor_pipeline \<Rightarrow> 'a sensor_pipeline" where
  "settle_delivered env p =
     (if written_losses p = [] then p
      else let w = log_now env p; acked = acknowledged_seq w
           in note_fate (map (\<lambda>e. Settled (lr_stage (snd e)) (lr_count (snd e)) (fst e)) (filter (\<lambda>e. fst e \<le> acked) (written_losses p)))
                ((with_log w p)\<lparr>written_losses := filter (\<lambda>e. \<not> fst e \<le> acked) (written_losses p)\<rparr>))"

definition dropped_report :: "wal_loss \<Rightarrow> loss_report" where
  "dropped_report loss =
     \<lparr>lr_stage = ''wal'', lr_count = loss_records loss, lr_by_type = [(loss_reason loss, loss_records loss)],
      lr_detail = loss_reason loss @ '': seq '' @ to_string (loss_first loss) @
        (if loss_last loss \<noteq> 0 then ''-'' @ to_string (loss_last loss) else ''+'') @ '', '' @ to_string (loss_bytes loss) @ '' bytes''\<rparr>"

definition report_dropped :: "pipeline_env \<Rightarrow> 'a sensor_pipeline \<Rightarrow> 'a sensor_pipeline" where
  "report_dropped env p =
     (let (dropped, w) = take_losses (log_now env p)
      in carry_dropped_loss_reports env dropped (fold (\<lambda>loss. report_loss env (dropped_report loss)) dropped (with_log w p)))"

text \<open>The last argument is what \<open>emit_events\<close> writes about a reconciled graph.\<close>

definition collect_losses ::
  "pipeline_env \<Rightarrow> u64 \<Rightarrow> provider_readings list \<Rightarrow> (nat \<Rightarrow> byte list) list \<Rightarrow> 'a sensor_pipeline \<Rightarrow> 'a sensor_pipeline"
where
  "collect_losses env now sources reconciled p =
     (let p1 = retry_writes env now p;
          (reconcile, p2) = report_queue env p1;
          p3 = fold (report_loss env) (concat (map provider_reports sources)) p2;
          p4 = report_dropped env (settle_delivered env (check_storage env now p3))
      in if reconcile \<or> list_ex provider_blind sources
         then (emit_all env reconciled p4)\<lparr>m_reconciles := m_reconciles p4 + 1\<rparr> else p4)"

section \<open>One iteration\<close>

text \<open>What \<open>delivery_probe_\<close> answers about records the Manager refused for good.\<close>

record delivery_health =
  dh_records_quarantined :: nat
  dh_recent_quarantined_seqs :: "nat list"
  dh_last_error :: string

definition rejected_detail :: "delivery_health \<Rightarrow> string" where
  "rejected_detail d =
     ''sequence numbers'' @ concat (map (\<lambda>seq. '' '' @ to_string seq) (dh_recent_quarantined_seqs d)) @ ''; '' @ dh_last_error d"

definition report_rejected :: "pipeline_env \<Rightarrow> delivery_health option \<Rightarrow> 'a sensor_pipeline \<Rightarrow> 'a sensor_pipeline" where
  "report_rejected env delivery p =
     (case delivery of
        None \<Rightarrow> p
      | Some d \<Rightarrow>
          if quarantine_reported p < dh_records_quarantined d
          then (report_loss env (plain_report ''manager_rejected'' (dh_records_quarantined d - quarantine_reported p) (rejected_detail d)) p)
                 \<lparr>quarantine_reported := dh_records_quarantined d\<rparr>
          else p)"

definition flush_log :: "pipeline_env \<Rightarrow> u64 \<Rightarrow> bool \<Rightarrow> 'a sensor_pipeline \<Rightarrow> bool result \<times> 'a sensor_pipeline" where
  "flush_log env now force p =
     (let (r, w) = wal_sync (pe_io env (pl_tick p)) now force (log_now env p) in (r, with_log w p))"

text \<open>
  What surrounds one call of \<open>step\<close>: the time, what the providers push before it, while it waits and while it works, and the
  records the parts outside this theory write.
\<close>

record 'a step_input =
  si_now :: u64
  si_before :: "'a rq_event list"
  si_meanwhile :: "'a rq_event list"
  si_waiting :: "'a rq_event list"
  si_lingering :: "'a rq_event list"
  si_wait_ms :: nat
  si_processed :: "nat \<Rightarrow> 'a \<Rightarrow> (nat \<Rightarrow> byte list) list"
  si_sources :: "provider_readings list"
  si_reconciled :: "(nat \<Rightarrow> byte list) list"
  si_policy_records :: "(nat \<Rightarrow> byte list) list"
  si_delivery :: "delivery_health option"
  si_periodic_records :: "(nat \<Rightarrow> byte list) list"

definition batch_linger_ms :: nat where "batch_linger_ms = 20"

definition process_batch ::
  "pipeline_env \<Rightarrow> (nat \<Rightarrow> 'a \<Rightarrow> (nat \<Rightarrow> byte list) list) \<Rightarrow> 'a list \<Rightarrow> 'a sensor_pipeline \<Rightarrow> 'a sensor_pipeline"
where
  "process_batch env processed batch p = fold (\<lambda>r p. emit_all env (processed (pl_tick p) r) p) batch p"

definition pipeline_step :: "pipeline_env \<Rightarrow> 'a step_input \<Rightarrow> 'a sensor_pipeline \<Rightarrow> bool result \<times> 'a sensor_pipeline" where
  "pipeline_step env i p =
     (let (batch, q) = pop_batch (while_waiting (si_before i) (pl_queue p)) 1024 (if 0 < si_wait_ms i then batch_linger_ms else 0)
                         (si_waiting i) (si_lingering i);
          p1 = process_batch env (si_processed i) batch (p\<lparr>pl_queue := while_waiting (si_meanwhile i) q\<rparr>);
          p2 = collect_losses env (si_now i) (si_sources i) (si_reconciled i) p1;
          p3 = report_rejected env (si_delivery i) (emit_all env (si_policy_records i) p2)
      in flush_log env (si_now i) False (emit_all env (si_periodic_records i) p3))"

section \<open>Start and end of a process\<close>

definition newline :: char where "newline = CHR 0x0A"

definition marker_text :: "string \<Rightarrow> nat \<Rightarrow> nat \<Rightarrow> bool \<Rightarrow> string" where
  "marker_text boot_id started now clean =
     ''panopticon-instance 1'' @ [newline] @ ''boot_id='' @ boot_id @ [newline] @ ''started_unix_ns='' @ to_string started @ [newline] @
     ''alive_unix_ns='' @ to_string now @ [newline] @ ''clean='' @ (if clean then ''1'' else ''0'') @ [newline]"

text \<open>The lines \<open>std::getline\<close> gives one after the other.\<close>

function text_lines :: "string \<Rightarrow> string list" where
  "text_lines s = (if s = [] then [] else takeWhile (\<lambda>c. c \<noteq> newline) s # text_lines (drop 1 (dropWhile (\<lambda>c. c \<noteq> newline) s)))"
  by auto
termination
proof (relation "measure length")
  fix s :: string assume "s \<noteq> []"
  then have "0 < length s" by simp
  with length_dropWhile_le [of "\<lambda>c. c \<noteq> newline" s] have "length (dropWhile (\<lambda>c. c \<noteq> newline) s) - 1 < length s" by linarith
  then show "(drop 1 (dropWhile (\<lambda>c. c \<noteq> newline) s), s) \<in> measure length" by simp
qed simp

declare text_lines.simps [simp del]

definition add_field :: "string \<Rightarrow> (string \<rightharpoonup> string) \<Rightarrow> (string \<rightharpoonup> string)" where
  "add_field line fs =
     (if CHR ''='' \<in> set line
      then fs(takeWhile (\<lambda>c. c \<noteq> CHR ''='') line \<mapsto> drop 1 (dropWhile (\<lambda>c. c \<noteq> CHR ''='') line)) else fs)"

text \<open>\<open>integer<std::uint64_t>\<close>: \<open>std::from_chars\<close> over the whole text.\<close>

definition integer_u64 :: "string \<Rightarrow> nat option" where
  "integer_u64 s = (if s \<noteq> [] \<and> list_all is_digit s \<and> digits_value s < 2 ^ 64 then Some (digits_value s) else None)"

definition gap_detail :: "nat option \<Rightarrow> nat \<Rightarrow> bool \<Rightarrow> string" where
  "gap_detail alive now rebooted =
     ''the previous sensor process did not shut down cleanly (killed, crashed, or lost power)'' @
     (case alive of
        Some t \<Rightarrow>
          ''; it was last known to be running at unix time '' @ to_string (t div 1000000000) @ '' s and this instance started at '' @
          to_string (now div 1000000000) @ '' s'' @
          (if t \<le> now then '', so up to '' @ to_string ((now - t) div 1000000000) @ '' s of activity were not observed'' else [])
      | None \<Rightarrow> ''; its state marker could not be read, so the length of the gap is unknown'') @
     (if rebooted then ''; the host rebooted in between'' else []) @ ''. The count is 1 interval, not a number of events''"

text \<open>The report about the previous process, from its marker.\<close>

definition instance_gap :: "string \<Rightarrow> nat \<Rightarrow> string \<Rightarrow> loss_report option" where
  "instance_gap boot_id now content =
     (let lines = text_lines content;
          recognised = (lines \<noteq> [] \<and> hd lines = ''panopticon-instance 1'');
          fs = fold add_field (tl lines) Map.empty
      in if \<not> recognised \<or> fs ''clean'' = None \<or> fs ''clean'' \<noteq> Some ''1''
         then Some (plain_report ''sensor_gap'' 1
                (gap_detail (if recognised then integer_u64 (case fs ''alive_unix_ns'' of None \<Rightarrow> [] | Some t \<Rightarrow> t) else None) now
                   (recognised \<and> (case fs ''boot_id'' of None \<Rightarrow> [] | Some b \<Rightarrow> b) \<noteq> boot_id)))
         else None)"

text \<open>
  \<open>marker\<close> is the content of the state file, if it exists; \<open>written\<close> tells whether \<open>write_file_durably\<close> replaced it, which it
  does as a whole or not at all. No file is kept when its path is not configured.
\<close>

definition write_instance_marker :: "bool \<Rightarrow> bool \<Rightarrow> string \<Rightarrow> nat \<Rightarrow> nat \<Rightarrow> bool \<Rightarrow> string option \<Rightarrow> string option" where
  "write_instance_marker configured written boot_id started now clean marker =
     (if configured \<and> written then Some (marker_text boot_id started now clean) else marker)"

definition begin_instance ::
  "pipeline_env \<Rightarrow> bool \<Rightarrow> bool \<Rightarrow> string \<Rightarrow> nat \<Rightarrow> string option \<Rightarrow> 'a sensor_pipeline \<Rightarrow> string option \<times> 'a sensor_pipeline"
where
  "begin_instance env configured written boot_id now marker p =
     (if \<not> configured then (marker, p)
      else (write_instance_marker configured written boot_id now now False marker,
            case marker of
              None \<Rightarrow> p
            | Some content \<Rightarrow> (case instance_gap boot_id now content of None \<Rightarrow> p | Some r \<Rightarrow> report_loss env r p)))"

record start_input =
  ti_now :: u64
  ti_unix_now :: nat
  ti_configured :: bool
  ti_written :: bool
  ti_boot_id :: string
  ti_sources :: "provider_readings list"
  ti_reconciled :: "(nat \<Rightarrow> byte list) list"
  ti_records :: "(nat \<Rightarrow> byte list) list"

definition pipeline_start ::
  "pipeline_env \<Rightarrow> start_input \<Rightarrow> string option \<Rightarrow> 'a sensor_pipeline \<Rightarrow> bool result \<times> string option \<times> 'a sensor_pipeline"
where
  "pipeline_start env i marker p =
     (let p1 = collect_losses env (ti_now i) (ti_sources i) (ti_reconciled i) (p\<lparr>m_reconciles := m_reconciles p + 1\<rparr>);
          (marker', p2) = begin_instance env (ti_configured i) (ti_written i) (ti_boot_id i) (ti_unix_now i) marker p1;
          (r, p3) = flush_log env (ti_now i) True (emit_all env (ti_records i) p2)
      in (r, marker', p3))"

text \<open>What the providers had queued when they stopped is processed before the end.\<close>

lemma queue_untouched [simp]:
  "pl_queue (snd (emit env r p)) = pl_queue p" "pl_queue (emit_all env rs p) = pl_queue p" "pl_queue (process_batch env processed batch p) = pl_queue p"
proof -
  show e: "pl_queue (snd (emit env r p)) = pl_queue p" for r and p :: "'a sensor_pipeline"
    by (auto simp: emit_def with_log_def Let_def split: prod.split sum.split)
  show a: "pl_queue (emit_all env rs p) = pl_queue p" for rs and p :: "'a sensor_pipeline"
    unfolding emit_all_def by (induction rs arbitrary: p) (simp_all add: e)
  show "pl_queue (process_batch env processed batch p) = pl_queue p"
    unfolding process_batch_def by (induction batch arbitrary: p) (simp_all add: a)
qed

function drain ::
  "pipeline_env \<Rightarrow> (nat \<Rightarrow> 'a \<Rightarrow> (nat \<Rightarrow> byte list) list) \<Rightarrow> 'a sensor_pipeline \<Rightarrow> 'a sensor_pipeline"
where
  "drain env processed p =
     (if rq_items (pl_queue p) = [] then p
      else let (batch, q) = pop_batch (pl_queue p) 1024 0 [] []
           in drain env processed (process_batch env processed batch (p\<lparr>pl_queue := q\<rparr>)))"
  by auto
termination
  by (relation "measure (\<lambda>(env, processed, p). length (rq_items (pl_queue p)))") (auto simp: pop_batch_def Let_def)

declare drain.simps [simp del]

record 'a end_input =
  xi_now :: u64
  xi_unix_now :: nat
  xi_configured :: bool
  xi_written :: bool
  xi_boot_id :: string
  xi_started_unix_ns :: nat
  xi_processed :: "nat \<Rightarrow> 'a \<Rightarrow> (nat \<Rightarrow> byte list) list"
  xi_health :: "nat \<Rightarrow> byte list"

definition pipeline_shutdown ::
  "pipeline_env \<Rightarrow> 'a end_input \<Rightarrow> string option \<Rightarrow> 'a sensor_pipeline \<Rightarrow> string option \<times> 'a sensor_pipeline"
where
  "pipeline_shutdown env i marker p =
     (let (r, p1) = flush_log env (xi_now i) True (snd (emit env (xi_health i) (drain env (xi_processed i) p)))
      in (if isl r then marker
          else write_instance_marker (xi_configured i) (xi_written i) (xi_boot_id i) (xi_started_unix_ns i) (xi_unix_now i) True marker,
          p1))"

end
