(* ===== verification/Loss_Properties.thy ===== *)
theory Loss_Properties
  imports Loss_Accounting Uplink_Properties
begin

text \<open>
  What the pipeline's accounting of losses guarantees. Whatever is reported lost is waiting to be written, written in a record the
  log still holds or will be told about, delivered, or given up at one of the two limits of the code; and what the log
  dropped is reported. The interface \<open>pipeline_invariant\<close> lifts a property of the state from the parts of an
  iteration to whole runs; it is interpreted for each of these.
\<close>

section \<open>Runs from their parts\<close>

locale pipeline_invariant =
  fixes env :: pipeline_env and I :: "'a sensor_pipeline \<Rightarrow> bool"
  assumes emit_keeps: "I p \<Longrightarrow> I (snd (emit env r p))"
    and report_keeps: "I p \<Longrightarrow> lr_stage report \<noteq> ''wal'' \<Longrightarrow> I (report_loss env report p)"
    and pending_keeps: "I p \<Longrightarrow> I (retry_pending env p)"
    and unwritten_keeps: "I p \<Longrightarrow> I (report_unwritten env p)"
    and storage_keeps: "I p \<Longrightarrow> I (check_storage env now p)"
    and settle_keeps: "I p \<Longrightarrow> I (settle_delivered env p)"
    and dropped_keeps: "I p \<Longrightarrow> I (report_dropped env p)"
    and flush_keeps: "I p \<Longrightarrow> I (snd (flush_log env now force p))"
    and frame: "I p \<Longrightarrow> I (p\<lparr>pl_queue := q\<rparr>)" "I p \<Longrightarrow> I (p\<lparr>last_loss_retry_ns := t\<rparr>)" "I p \<Longrightarrow> I (p\<lparr>m_reconciles := n\<rparr>)"
      "I p \<Longrightarrow> I (p\<lparr>quarantine_reported := n\<rparr>)"
begin

lemma emit_all_keeps: "I p \<Longrightarrow> I (emit_all env rs p)"
  unfolding emit_all_def by (induction rs arbitrary: p) (simp_all add: emit_keeps)

lemma batch_keeps: "I p \<Longrightarrow> I (process_batch env processed batch p)"
  unfolding process_batch_def by (induction batch arbitrary: p) (simp_all add: emit_all_keeps)

lemma reports_keep: "I p \<Longrightarrow> \<forall>r\<in>set rs. lr_stage r \<noteq> ''wal'' \<Longrightarrow> I (fold (report_loss env) rs p)"
  by (induction rs arbitrary: p) (simp_all add: report_keeps)

lemma provider_stages: "r \<in> set (provider_reports s) \<Longrightarrow> lr_stage r \<noteq> ''wal''"
  by (auto simp: provider_reports_def governor_report_def refused_report_def kernel_report_def gap_report_def plain_report_def Let_def
      split: if_splits)

lemma retry_keeps: "I p \<Longrightarrow> I (retry_writes env now p)"
  by (simp add: retry_writes_def frame(2) pending_keeps unwritten_keeps)

lemma queue_keeps: "I p \<Longrightarrow> I (snd (report_queue env p))"
  by (auto simp: report_queue_def take_dropped_def queue_report_def Let_def intro!: report_keeps frame(1))

lemma collect_keeps: "I p \<Longrightarrow> I (collect_losses env now sources reconciled p)"
proof -
  assume "I p"
  then have "I (snd (report_queue env (retry_writes env now p)))" (is "I ?p2") by (intro queue_keeps retry_keeps)
  then have "I (fold (report_loss env) (concat (map provider_reports sources)) ?p2)"
    by (intro reports_keep) (auto dest: provider_stages)
  then have "I (report_dropped env (settle_delivered env (check_storage env now
      (fold (report_loss env) (concat (map provider_reports sources)) ?p2))))"
    by (intro dropped_keeps settle_keeps storage_keeps)
  then show "I (collect_losses env now sources reconciled p)"
    by (simp add: collect_losses_def Let_def case_prod_beta frame(3) emit_all_keeps)
qed

lemma rejected_keeps: "I p \<Longrightarrow> I (report_rejected env delivery p)"
  by (auto simp: report_rejected_def plain_report_def split: option.split prod.split intro!: frame(4) report_keeps)

lemma step_keeps: "I p \<Longrightarrow> I (snd (pipeline_step env i p))"
  by (simp add: pipeline_step_def Let_def case_prod_beta flush_keeps emit_all_keeps rejected_keeps collect_keeps batch_keeps frame(1))

lemma steps_keep: "I p \<Longrightarrow> I (fold (\<lambda>i p. snd (pipeline_step env i p)) steps p)"
  by (induction steps arbitrary: p) (simp_all add: step_keeps)

lemma begin_keeps: "I p \<Longrightarrow> I (snd (begin_instance env configured written boot now marker p))"
  by (auto simp: begin_instance_def instance_gap_def plain_report_def Let_def split: option.split intro!: report_keeps)

lemma start_keeps: "I p \<Longrightarrow> I (snd (snd (pipeline_start env i marker p)))"
  by (simp add: pipeline_start_def Let_def case_prod_beta flush_keeps emit_all_keeps begin_keeps collect_keeps frame(3))

lemma drain_keeps: "I p \<Longrightarrow> I (drain env processed p)"
proof (induction "length (rq_items (pl_queue p))" arbitrary: p rule: less_induct)
  case less
  obtain batch q where pop: "pop_batch (pl_queue p) 1024 0 [] [] = (batch, q)" by fastforce
  show ?case
  proof (cases "rq_items (pl_queue p) = []")
    case True
    with less.prems show ?thesis by (simp add: drain.simps [of env processed p])
  next
    case False
    let ?p = "process_batch env processed batch (p\<lparr>pl_queue := q\<rparr>)"
    have "length (rq_items (pl_queue ?p)) < length (rq_items (pl_queue p))"
      using pop False by (auto simp: pop_batch_def Let_def)
    then have "I (drain env processed ?p)" using less.prems by (intro less.hyps batch_keeps frame(1))
    then show ?thesis using False pop by (simp add: drain.simps [of env processed p])
  qed
qed

lemma shutdown_keeps: "I p \<Longrightarrow> I (snd (pipeline_shutdown env i marker p))"
  by (simp add: pipeline_shutdown_def Let_def case_prod_beta flush_keeps emit_keeps drain_keeps)

end

section \<open>Where the counts are\<close>

text \<open>What was declared of a stage, and what became of it.\<close>

primrec declared :: "string \<Rightarrow> fate \<Rightarrow> nat" where
  "declared stage (Declared s n) = (if s = stage then n else 0)"
| "declared stage (Settled s n seq) = 0"
| "declared stage (Forgotten s n others) = 0"
| "declared stage (Moved s t n waiting) = 0"

primrec settled :: "string \<Rightarrow> fate \<Rightarrow> nat" where
  "settled stage (Declared s n) = 0"
| "settled stage (Settled s n seq) = (if s = stage then n else 0)"
| "settled stage (Forgotten s n others) = 0"
| "settled stage (Moved s t n waiting) = 0"

primrec forgotten :: "string \<Rightarrow> fate \<Rightarrow> nat" where
  "forgotten stage (Declared s n) = 0"
| "forgotten stage (Settled s n seq) = 0"
| "forgotten stage (Forgotten s n others) = (if s = stage then n else 0)"
| "forgotten stage (Moved s t n waiting) = 0"

primrec moved_out :: "string \<Rightarrow> fate \<Rightarrow> nat" where
  "moved_out stage (Declared s n) = 0"
| "moved_out stage (Settled s n seq) = 0"
| "moved_out stage (Forgotten s n others) = 0"
| "moved_out stage (Moved s t n waiting) = (if s = stage then n else 0)"

primrec moved_in :: "string \<Rightarrow> fate \<Rightarrow> nat" where
  "moved_in stage (Declared s n) = 0"
| "moved_in stage (Settled s n seq) = 0"
| "moved_in stage (Forgotten s n others) = 0"
| "moved_in stage (Moved s t n waiting) = (if t = stage then n else 0)"

text \<open>
  Whether a count was let go of rightly: its record is one the acknowledged cursor has passed; 8192 reports were tracked beside
  it and none of them was of its stage; 64 reports were held back.
\<close>

primrec rightly :: "nat \<Rightarrow> fate \<Rightarrow> bool" where
  "rightly acked (Declared s n) = True"
| "rightly acked (Settled s n seq) = (seq \<le> acked)"
| "rightly acked (Forgotten s n others) = (length others = 8192 \<and> s \<notin> set others)"
| "rightly acked (Moved s t n waiting) = (waiting = 64)"

definition tally :: "(fate \<Rightarrow> nat) \<Rightarrow> 'a sensor_pipeline \<Rightarrow> nat" where
  "tally f p = sum_list (map f (pl_fate p))"

definition share :: "string \<Rightarrow> loss_report \<Rightarrow> nat" where
  "share stage r = (if lr_stage r = stage then lr_count r else 0)"

definition on_stage :: "string \<Rightarrow> loss_report list \<Rightarrow> nat" where
  "on_stage stage rs = sum_list (map (share stage) rs)"

definition tracked :: "'a sensor_pipeline \<Rightarrow> loss_report list" where
  "tracked p = map snd (written_losses p)"

text \<open>What is declared of a stage and nowhere to be found; the invariant is that it is nothing.\<close>

definition owed :: "string \<Rightarrow> 'a sensor_pipeline \<Rightarrow> int" where
  "owed stage p = int (tally (declared stage) p) + int (tally (moved_in stage) p) - int (on_stage stage (pending_losses p))
     - int (on_stage stage (tracked p)) - int (tally (settled stage) p) - int (tally (forgotten stage) p) - int (tally (moved_out stage) p)"

lemma nothing_owed:
  "owed stage p = 0 \<longleftrightarrow> tally (declared stage) p + tally (moved_in stage) p =
     on_stage stage (pending_losses p) + on_stage stage (tracked p) + tally (settled stage) p + tally (forgotten stage) p +
     tally (moved_out stage) p"
  unfolding owed_def by linarith

lemma on_stage_simps [simp]:
  "on_stage stage [] = 0" "on_stage stage (r # rs) = share stage r + on_stage stage rs"
  "on_stage stage (rs @ qs) = on_stage stage rs + on_stage stage qs"
  by (simp_all add: on_stage_def)

lemma on_stage_erase: "i < length rs \<Longrightarrow> on_stage stage (erase i rs) + share stage (rs ! i) = on_stage stage rs"
proof (induction rs arbitrary: i)
  case (Cons r rs)
  then show ?case by (cases i) auto
qed simp

lemma map_erase: "map f (erase i xs) = erase i (map f xs)"
  by (simp add: erase_def take_map drop_map)

lemma merge_report_simps [simp]: "lr_stage (merge_report a b) = lr_stage a" "lr_count (merge_report a b) = lr_count a + lr_count b"
  by (simp_all add: merge_report_def)

lemma note_fate_simps [simp]:
  "pl_log (note_fate fs p) = pl_log p" "pl_tick (note_fate fs p) = pl_tick p" "written_losses (note_fate fs p) = written_losses p"
  "pending_losses (note_fate fs p) = pending_losses p" "tally f (note_fate fs p) = tally f p + sum_list (map f fs)"
  "unwritten_reported (note_fate fs p) = unwritten_reported p" "m_records_unwritten (note_fate fs p) = m_records_unwritten p"
  by (simp_all add: note_fate_def tally_def)

lemma emit_frame [simp]:
  "written_losses (snd (emit env r p)) = written_losses p" "pending_losses (snd (emit env r p)) = pending_losses p"
  "pl_fate (snd (emit env r p)) = pl_fate p" "unwritten_reported (snd (emit env r p)) = unwritten_reported p"
  by (auto simp: emit_def with_log_def Let_def split: prod.split sum.split)

lemma share_merge: "lr_stage b = lr_stage a \<Longrightarrow> share stage (merge_report a b) = share stage a + share stage b"
  by (simp add: share_def)

lemma share_more: "share stage (r\<lparr>lr_count := lr_count r + n\<rparr>) = share stage r + (if lr_stage r = stage then n else 0)"
  by (simp add: share_def)

lemma share_detail [simp]: "share stage (r\<lparr>lr_detail := d\<rparr>) = share stage r"
  by (simp add: share_def)

lemma owed_track: "owed stage (track e p) = owed stage p - int (share stage (snd e))"
proof -
  obtain front rest where f: "written_losses p @ [e] = front # rest" by (cases "written_losses p @ [e]") auto
  have sum: "on_stage stage (tracked p) + share stage (snd e) = share stage (snd front) + on_stage stage (map snd rest)"
    using arg_cong [OF f, of "\<lambda>ws. on_stage stage (map snd ws)"] by (simp add: tracked_def)
  show ?thesis
  proof (cases "maximum_tracked < length (front # rest)")
    case False
    then show ?thesis using sum by (simp add: track_def f owed_def tracked_def tally_def)
  next
    case True
    note big = this
    show ?thesis
    proof (cases "find_if (\<lambda>other. lr_stage (snd other) = lr_stage (snd front)) rest")
      case None
      moreover have "(if lr_stage (snd front) = stage then lr_count (snd front) else 0) = share stage (snd front)" by (simp add: share_def)
      ultimately show ?thesis using big sum
        by (simp add: track_def f owed_def tracked_def split del: if_split) (simp add: tally_def split del: if_split)
    next
      case (Some i)
      then have i: "i < length rest" "lr_stage (snd (rest ! i)) = lr_stage (snd front)" using find_if_SomeD by fastforce+
      then show ?thesis using big sum Some on_stage_erase [of i "map snd rest" stage]
        by (simp add: track_def f owed_def tracked_def map_erase share_merge) (simp add: tally_def)
    qed
  qed
qed

lemma owed_hold_back: "owed stage (hold_back r p) = owed stage p - int (share stage r)"
proof (cases "length (pending_losses p) < maximum_pending")
  case True
  then show ?thesis by (simp add: hold_back_def owed_def tracked_def tally_def)
next
  case False
  then have "pending_losses p \<noteq> []" by (auto simp: maximum_pending_def)
  then obtain front final where f: "pending_losses p = front @ [final]" by (cases "pending_losses p" rule: rev_cases) auto
  with False show ?thesis
    by (simp add: hold_back_def owed_def tracked_def share_more Let_def) (simp add: tally_def share_def)
qed

lemma owed_frame:
  "written_losses p' = written_losses p \<Longrightarrow> pending_losses p' = pending_losses p \<Longrightarrow> pl_fate p' = pl_fate p \<Longrightarrow> owed stage p' = owed stage p"
  by (simp add: owed_def tracked_def tally_def)

lemma owed_with_log: "owed stage (with_log w p) = owed stage p"
  by (rule owed_frame) (simp_all add: with_log_def)

lemma owed_updates [simp]:
  "owed stage (p\<lparr>pl_queue := q\<rparr>) = owed stage p" "owed stage (p\<lparr>last_loss_retry_ns := t\<rparr>) = owed stage p"
  "owed stage (p\<lparr>last_storage_check_ns := t\<rparr>) = owed stage p" "owed stage (p\<lparr>m_reconciles := n\<rparr>) = owed stage p"
  "owed stage (p\<lparr>quarantine_reported := n\<rparr>) = owed stage p" "owed stage (p\<lparr>unwritten_reported := n\<rparr>) = owed stage p"
  "owed stage (p\<lparr>m_loss_records := n\<rparr>) = owed stage p" "owed stage (p\<lparr>m_records_unwritten := n\<rparr>) = owed stage p"
  by (rule owed_frame; simp)+

lemma owed_emit [simp]: "owed stage (snd (emit env r p)) = owed stage p"
  by (rule owed_frame) simp_all

lemma owed_emit_loss: "owed stage (snd (emit_loss env r p)) = owed stage p - int (share stage r)"
proof -
  obtain x p1 where e: "emit env (pe_loss_bytes env (pl_tick p) r) p = (x, p1)" by fastforce
  then have "owed stage p1 = owed stage p" using owed_emit by (metis snd_conv)
  then show ?thesis using e by (cases x) (simp_all add: emit_loss_def owed_track owed_hold_back)
qed

lemma owed_report_loss [simp]: "owed stage (report_loss env r p) = owed stage p"
  by (simp add: report_loss_def owed_emit_loss) (simp add: owed_def tracked_def share_def)

lemma owed_emit_losses: "owed stage (fold (\<lambda>x p. snd (emit_loss env (f x) p)) xs p) = owed stage p - int (on_stage stage (map f xs))"
  by (induction xs arbitrary: p) (simp_all add: owed_emit_loss)

lemma owed_report_losses: "owed stage (fold (\<lambda>x. report_loss env (f x)) xs p) = owed stage p"
  by (induction xs arbitrary: p) simp_all

section \<open>Carried reports\<close>

definition keyed :: "(string \<times> nat \<times> loss_report) list \<Rightarrow> bool" where
  "keyed carried \<longleftrightarrow> list_all (\<lambda>(stage, n, r). lr_stage r = stage) carried"

definition carried_sum :: "string \<Rightarrow> (string \<times> nat \<times> loss_report) list \<Rightarrow> nat" where
  "carried_sum stage carried = on_stage stage (map (\<lambda>(s, n, r). r) carried)"

lemma absorb_share:
  "lr_stage (snd c) = lr_stage r \<or> c = (0, no_report) \<Longrightarrow>
   share stage (snd (absorb r c)) = share stage r + share stage (snd c) \<and> lr_stage (snd (absorb r c)) = lr_stage r"
  by (auto simp: absorb_def share_def no_report_def)

lemma carry_into_sum:
  assumes "keyed carried"
  shows "keyed (carry_into r carried)" and "carried_sum stage (carry_into r carried) = share stage r + carried_sum stage carried"
proof -
  have fresh: "share stage (snd (absorb r (0, no_report))) = share stage r" "lr_stage (snd (absorb r (0, no_report))) = lr_stage r"
    by (simp_all add: absorb_def share_def no_report_def)
  from assms have "keyed (carry_into r carried) \<and> carried_sum stage (carry_into r carried) = share stage r + carried_sum stage carried"
  proof (induction carried)
    case Nil
    then show ?case using fresh by (simp add: keyed_def carried_sum_def case_prod_beta)
  next
    case (Cons x carried)
    obtain s c where x: "x = (s, c)" by (cases x)
    with Cons.prems have "lr_stage (snd c) = s" "keyed carried" by (auto simp: keyed_def case_prod_beta)
    with Cons.IH x fresh absorb_share [of c r stage] show ?case
      by (auto simp: keyed_def carried_sum_def case_prod_beta)
  qed
  then show "keyed (carry_into r carried)" "carried_sum stage (carry_into r carried) = share stage r + carried_sum stage carried" by auto
qed

lemma carry_fold_sum:
  "keyed carried \<Longrightarrow> keyed (fold (\<lambda>e. carry_into (snd e)) es carried) \<and>
   carried_sum stage (fold (\<lambda>e. carry_into (snd e)) es carried) = on_stage stage (map snd es) + carried_sum stage carried"
  by (induction es arbitrary: carried) (simp_all add: carry_into_sum)

lemma on_stage_filter: "on_stage stage (map snd (filter P es)) + on_stage stage (map snd (filter (\<lambda>e. \<not> P e) es)) = on_stage stage (map snd es)"
  by (induction es) simp_all

lemma carry_loop_sum:
  "keyed carried \<Longrightarrow> carry_loop dropped ws carried = (ws', carried') \<Longrightarrow>
   on_stage stage (map snd ws') + carried_sum stage carried' = on_stage stage (map snd ws) + carried_sum stage carried"
proof (induction dropped arbitrary: ws carried)
  case (Cons loss dropped)
  then show ?case
    using on_stage_filter [of stage "in_loss loss" ws] carry_fold_sum [of carried "filter (in_loss loss) ws" stage]
    by (cases "loss_last loss = 0") fastforce+
qed simp

lemma owed_carry [simp]: "owed stage (carry_dropped_loss_reports env dropped p) = owed stage p"
proof -
  obtain ws carried where c: "carry_loop dropped (written_losses p) [] = (ws, carried)" by fastforce
  have "on_stage stage (map carried_report carried) = carried_sum stage carried"
    by (induction carried) (auto simp: carried_sum_def)
  moreover have "on_stage stage (map snd ws) + carried_sum stage carried = on_stage stage (map snd (written_losses p))"
    using carry_loop_sum [OF _ c, of stage] by (simp add: keyed_def carried_sum_def)
  ultimately show ?thesis
    unfolding carry_dropped_loss_reports_def c prod.case Let_def
    by (simp add: owed_emit_losses) (simp add: owed_def tracked_def tally_def)
qed

section \<open>The counts over whole runs\<close>

definition balanced :: "'a sensor_pipeline \<Rightarrow> bool" where
  "balanced p \<longleftrightarrow> (\<forall>stage. owed stage p = 0)"

lemma settled_fates:
  fixes es :: "written_loss list"
  defines "fs \<equiv> map (\<lambda>e. Settled (lr_stage (snd e)) (lr_count (snd e)) (fst e)) es"
  shows "sum_list (map (settled stage) fs) = on_stage stage (map snd es)" "sum_list (map (declared stage) fs) = 0"
    "sum_list (map (forgotten stage) fs) = 0" "sum_list (map (moved_in stage) fs) = 0" "sum_list (map (moved_out stage) fs) = 0"
  unfolding fs_def by (induction es) (simp_all add: share_def)

lemma owed_settle: "owed stage (settle_delivered env p) = owed stage p"
  using on_stage_filter [of stage "\<lambda>e. fst e \<le> acknowledged_seq (log_now env p)" "written_losses p"]
  by (simp add: settle_delivered_def owed_def tracked_def Let_def settled_fates del: map_map) (simp add: tally_def with_log_def)

lemma owed_retry: "owed stage (retry_pending env p) = owed stage p"
proof -
  have "owed stage (p\<lparr>pending_losses := []\<rparr>) = owed stage p + int (on_stage stage (pending_losses p))"
    by (simp add: owed_def tracked_def tally_def)
  then show ?thesis
    using owed_emit_losses [of stage env "\<lambda>r. r" "pending_losses p" "p\<lparr>pending_losses := []\<rparr>"] by (simp add: retry_pending_def)
qed

interpretation counts: pipeline_invariant env balanced for env
proof unfold_locales
  fix p :: "'a sensor_pipeline"
  assume b: "balanced p"
  show "balanced (snd (emit env r p))" for r using b by (simp add: balanced_def)
  show "balanced (report_loss env report p)" for report using b by (simp add: balanced_def)
  show "balanced (retry_pending env p)"
    using b by (simp add: balanced_def owed_retry)
  show "balanced (settle_delivered env p)" using b by (simp add: balanced_def owed_settle)
  show "balanced (report_dropped env p)"
    using b by (simp add: balanced_def report_dropped_def case_prod_beta owed_report_losses owed_with_log)
qed (simp_all add: balanced_def report_unwritten_def check_storage_def flush_log_def owed_with_log Let_def case_prod_beta)

section \<open>The log under the pipeline\<close>

lemma isolate_next_seq [simp]: "next_seq (isolate_corrupt_tail io i bad offset w) = next_seq w"
  by (simp add: isolate_corrupt_tail_def Let_def)

lemma drop_missing_next_seq [simp]: "next_seq (snd (drop_missing_segments w)) = next_seq w"
  using drop_missing_loop_durable by (simp add: drop_missing_segments_def)

lemma read_segments_next_seq: "next_seq (snd (read_segments io from mr mb index offset records bytes w)) = next_seq w"
proof (induction io "from" mr mb index offset records bytes w rule: read_segments.induct)
  case (1 io "from" mr mb index offset records bytes w)
  note unfold = read_segments.simps [of io "from" mr mb index]
  let ?c = "segments w ! index"
  show ?case
  proof (cases "length (segments w) \<le> index")
    case True
    then show ?thesis by (simp add: unfold)
  next
    case False
    show ?thesis
    proof (cases "d_lookup (disk w) (seg_first ?c)")
      case None
      obtain removed w' where d: "drop_missing_segments w = (removed, w')" by fastforce
      then have "next_seq w' = next_seq w" using drop_missing_next_seq by (metis snd_conv)
      then show ?thesis
        using "1.IH"(1) [OF False refl refl None d [symmetric] refl _ refl refl] None False d
        by (auto simp: unfold Let_def)
    next
      case (Some ino)
      let ?e = "if offset = 0 then seg_first ?c else from"
      let ?r = "read_frames io (seg_first ?c) (dk_data (disk w) ino) (seg_bytes ?c) (durable_seq w) from mr mb offset ?e records bytes"
      show ?thesis
      proof (cases ?r)
        case (Segment_end o' e' r' b' dmg)
        then show ?thesis
          using False Some "1.IH"(2) [OF False refl refl Some _ Segment_end _ refl]
          by (simp add: read_segments.simps [of io "from" mr mb index offset] Let_def)
      qed (use False Some in \<open>simp_all add: unfold Let_def\<close>)
    qed
  qed
qed

lemma drop_acknowledged_next_seq: "next_seq (drop_acknowledged io keep n w) = next_seq w"
proof (induction io keep n w rule: drop_acknowledged.induct)
  case (1 io keep n w)
  then show ?case by (subst drop_acknowledged.simps) simp
qed


lemma other_step_next_seq [simp]: "next_seq (other_step op w) = next_seq w"
  by (cases op) (auto simp: wal_sync_def wal_read_def acknowledge_def persist_cursor_def verify_storage_def Let_def read_segments_next_seq
      drop_acknowledged_next_seq split: option.split prod.split cursor_io.split dest: arg_cong [where f = "\<lambda>x. next_seq (snd x)"])





lemma log_now_next_seq [simp]: "next_seq (log_now env p) = next_seq (pl_log p)"
proof -
  have "next_seq (fold other_step ops w) = next_seq w" for ops w by (induction ops arbitrary: w) simp_all
  then show ?thesis by (simp add: log_now_def)
qed

text \<open>
  \<open>taken\<close> are the losses the pipeline took from the log, \<open>hidden\<close> those of them it has carried reports forward for: no report
  it tracks is in a range that was dropped.
\<close>

definition seqs :: "'a sensor_pipeline \<Rightarrow> nat set" where
  "seqs p = fst ` set (written_losses p)"

definition placed :: "nat \<Rightarrow> nat \<Rightarrow> wal_loss list \<Rightarrow> wal_loss list \<Rightarrow> 'a sensor_pipeline \<Rightarrow> bool" where
  "placed base k hidden taken p \<longleftrightarrow>
     accounted base 0 k taken (pl_log p) \<and> base < next_seq (pl_log p) \<and> set hidden \<subseteq> set taken \<and>
     seqs p \<subseteq> {base<..<next_seq (pl_log p)} - explained hidden"


lemma placed_updates [simp]:
  "placed base k hidden taken (note_fate fs p) = placed base k hidden taken p"
  "placed base k hidden taken (p\<lparr>m_loss_records := n\<rparr>) = placed base k hidden taken p"
  "placed base k hidden taken (p\<lparr>m_records_unwritten := n\<rparr>) = placed base k hidden taken p"
  "placed base k hidden taken (p\<lparr>pending_losses := rs\<rparr>) = placed base k hidden taken p"
  "placed base k hidden taken (p\<lparr>unwritten_reported := n\<rparr>) = placed base k hidden taken p"
  "placed base k hidden taken (p\<lparr>last_storage_check_ns := t\<rparr>) = placed base k hidden taken p"
  by (simp_all add: placed_def seqs_def)


lemma track_log [simp]: "pl_log (track e p) = pl_log p" "unwritten_reported (track e p) = unwritten_reported p"
  by (simp_all add: track_def Let_def split: option.split)

lemma hold_back_simps [simp]:
  "pl_log (hold_back r p) = pl_log p" "written_losses (hold_back r p) = written_losses p" "unwritten_reported (hold_back r p) = unwritten_reported p"
  by (simp_all add: hold_back_def Let_def)











lemma carry_declared [simp]: "tally (declared s) (snd (emit_loss env r p)) = tally (declared s) p"
  "unwritten_reported (snd (emit_loss env r p)) = unwritten_reported p"
proof -
  obtain x p1 where e: "emit env (pe_loss_bytes env (pl_tick p) r) p = (x, p1)" by fastforce
  then have "pl_fate p1 = pl_fate p" "unwritten_reported p1 = unwritten_reported p" using emit_frame(3,4) by (metis snd_conv)+
  then show "tally (declared s) (snd (emit_loss env r p)) = tally (declared s) p" "unwritten_reported (snd (emit_loss env r p)) = unwritten_reported p"
    using e by (cases x; simp add: emit_loss_def track_def hold_back_def tally_def note_fate_def Let_def split: option.split)+
qed

lemma declared_emit_losses [simp]:
  "tally (declared s) (fold (\<lambda>x p. snd (emit_loss env (f x) p)) xs p) = tally (declared s) p"
  "unwritten_reported (fold (\<lambda>x p. snd (emit_loss env (f x) p)) xs p) = unwritten_reported p"
  by (induction xs arbitrary: p) simp_all

lemma declared_report_loss [simp]:
  "tally (declared s) (report_loss env r p) = tally (declared s) p + share s r"
  "unwritten_reported (report_loss env r p) = unwritten_reported p"
  by (simp_all add: report_loss_def share_def)

lemma declared_report_losses [simp]:
  "tally (declared s) (fold (\<lambda>x. report_loss env (f x)) xs p) = tally (declared s) p + on_stage s (map f xs)"
  "unwritten_reported (fold (\<lambda>x. report_loss env (f x)) xs p) = unwritten_reported p"
  by (induction xs arbitrary: p) simp_all

lemma declared_carry [simp]:
  "tally (declared s) (carry_dropped_loss_reports env dropped p) = tally (declared s) p"
  "unwritten_reported (carry_dropped_loss_reports env dropped p) = unwritten_reported p"
proof -
  obtain ws carried where c: "carry_loop dropped (written_losses p) [] = (ws, carried)" by fastforce
  show "tally (declared s) (carry_dropped_loss_reports env dropped p) = tally (declared s) p"
    "unwritten_reported (carry_dropped_loss_reports env dropped p) = unwritten_reported p"
    unfolding carry_dropped_loss_reports_def c prod.case Let_def
    by simp_all (simp add: tally_def)
qed


lemma on_wal [simp]: "on_stage ''wal'' (map dropped_report ls) = sum_list (map loss_records ls)"
  by (induction ls) (simp_all add: dropped_report_def share_def)








section \<open>Bounds\<close>

definition bounded :: "'a sensor_pipeline \<Rightarrow> bool" where
  "bounded p \<longleftrightarrow> length (written_losses p) \<le> maximum_tracked \<and> length (pending_losses p) \<le> maximum_pending"

lemma bounded_track: "bounded p \<Longrightarrow> bounded (track e p)"
  by (auto simp: bounded_def track_def Let_def length_erase_Suc dest!: find_if_SomeD split: option.split)

lemma bounded_hold_back: "bounded p \<Longrightarrow> bounded (hold_back r p)"
  by (auto simp: bounded_def hold_back_def maximum_pending_def Let_def)

lemma bounded_emit_loss: "bounded p \<Longrightarrow> bounded (snd (emit_loss env r p))"
proof -
  assume "bounded p"
  obtain x p1 where e: "emit env (pe_loss_bytes env (pl_tick p) r) p = (x, p1)" by fastforce
  then have "written_losses p1 = written_losses p" "pending_losses p1 = pending_losses p" using emit_frame(1,2) by (metis snd_conv)+
  with \<open>bounded p\<close> have "bounded (p1\<lparr>m_loss_records := n\<rparr>)" "bounded (p1\<lparr>m_records_unwritten := n\<rparr>)" for n by (simp_all add: bounded_def)
  then show ?thesis using e by (cases x) (simp_all add: emit_loss_def bounded_track bounded_hold_back)
qed

lemma bounded_emit_losses: "bounded p \<Longrightarrow> bounded (fold (\<lambda>x p. snd (emit_loss env (f x) p)) xs p)"
  by (induction xs arbitrary: p) (simp_all add: bounded_emit_loss)

lemma bounded_report_loss: "bounded p \<Longrightarrow> bounded (report_loss env r p)"
  unfolding report_loss_def by (rule bounded_emit_loss) (simp add: bounded_def)

lemma bounded_report_losses: "bounded p \<Longrightarrow> bounded (fold (\<lambda>x. report_loss env (f x)) xs p)"
  by (induction xs arbitrary: p) (simp_all add: bounded_report_loss)

lemma carry_loop_length: "carry_loop dropped ws carried = (ws', carried') \<Longrightarrow> length ws' \<le> length ws"
proof (induction dropped arbitrary: ws carried)
  case (Cons loss dropped)
  show ?case
  proof (cases "loss_last loss = 0")
    case False
    then have "length ws' \<le> length (filter (\<lambda>e. \<not> in_loss loss e) ws)" using Cons by fastforce
    then show ?thesis using length_filter_le [of "\<lambda>e. \<not> in_loss loss e" ws] by linarith
  qed (use Cons in auto)
qed simp

lemma bounded_carry: "bounded p \<Longrightarrow> bounded (carry_dropped_loss_reports env dropped p)"
proof -
  assume "bounded p"
  obtain ws carried where c: "carry_loop dropped (written_losses p) [] = (ws, carried)" by fastforce
  from carry_loop_length [OF c] \<open>bounded p\<close> have "bounded (p\<lparr>written_losses := ws\<rparr>)" by (simp add: bounded_def)
  then show ?thesis unfolding carry_dropped_loss_reports_def c prod.case Let_def by (rule bounded_emit_losses)
qed

interpretation bounds: pipeline_invariant env bounded for env
proof unfold_locales
  fix p :: "'a sensor_pipeline"
  assume b: "bounded p"
  show "bounded (report_loss env report p)" for report using b by (rule bounded_report_loss)
  show "bounded (retry_pending env p)"
    unfolding retry_pending_def by (rule bounded_emit_losses [where f = "\<lambda>r. r"]) (use b in \<open>simp add: bounded_def\<close>)
  have "bounded (p\<lparr>unwritten_reported := n\<rparr>)" for n using b by (simp add: bounded_def)
  then show "bounded (report_unwritten env p)" using b by (simp add: report_unwritten_def Let_def bounded_report_loss)
  show "bounded (settle_delivered env p)"
    using b by (auto simp: bounded_def settle_delivered_def with_log_def Let_def intro: le_trans [OF length_filter_le])
  have "bounded (with_log w p)" for w using b by (simp add: bounded_def with_log_def)
  then show "bounded (report_dropped env p)"
    by (simp add: report_dropped_def case_prod_beta bounded_carry bounded_report_losses)
qed (simp_all add: bounded_def check_storage_def flush_log_def with_log_def case_prod_beta)

section \<open>What the code let go of\<close>

lemma quota_loop_acked: "acknowledged_seq (quota_loop io n w) = acknowledged_seq w"
proof (induction io n w rule: quota_loop.induct)
  case (1 io n w)
  then show ?case by (subst quota_loop.simps) (simp add: Let_def)
qed

lemma append_acked: "acknowledged_seq (snd (wal_append io seq payload w)) = acknowledged_seq w"
proof -
  obtain x w1 where e: "ensure_active io seq (encode_wal_frame (of_nat seq) payload) w = (x, w1)" by fastforce
  then have "acknowledged_seq w1 = acknowledged_seq w"
    by (auto simp: ensure_active_def open_active_def Let_def split: if_splits option.splits)
  then show ?thesis
    using e by (cases x; cases "io_write io")
      (auto simp: wal_append_def enforce_quota_def quota_loop_acked append_written_def append_failed_def Let_def)
qed

lemma other_step_acked: "acknowledged_seq w \<le> acknowledged_seq (other_step op w)"
  by (cases op) (auto simp: wal_sync_def wal_read_def acknowledge_def persist_cursor_def verify_storage_def drop_missing_segments_def
      drop_missing_loop_acked read_segments_acked drop_acknowledged_acked Let_def case_prod_beta split: option.split prod.split cursor_io.split)

lemma log_now_acked: "acknowledged_seq (pl_log p) \<le> acknowledged_seq (log_now env p)"
proof -
  have "acknowledged_seq w \<le> acknowledged_seq (fold other_step ops w)" for ops w
    by (induction ops arbitrary: w) (auto intro: order.trans [OF other_step_acked])
  then show ?thesis by (simp add: log_now_def)
qed

lemma emit_acked: "acknowledged_seq (pl_log p) \<le> acknowledged_seq (pl_log (snd (emit env r p)))"
proof -
  let ?w = "log_now env p"
  have "pl_log (snd (emit env r p)) = snd (wal_append (pe_io env (pl_tick p)) (next_seq ?w) (r (next_seq ?w)) ?w)"
    by (auto simp: emit_def with_log_def Let_def split: prod.split sum.split)
  then show ?thesis using log_now_acked [of p env] by (simp add: append_acked)
qed

definition let_go :: "'a sensor_pipeline \<Rightarrow> bool" where
  "let_go p \<longleftrightarrow> bounded p \<and> list_all (rightly (acknowledged_seq (pl_log p))) (pl_fate p)"

lemma rightly_later: "rightly a f \<Longrightarrow> a \<le> b \<Longrightarrow> rightly b f"
  by (cases f) auto

lemma let_go_later:
  assumes "let_go p" "bounded p'" "pl_fate p' = pl_fate p" "acknowledged_seq (pl_log p) \<le> acknowledged_seq (pl_log p')"
  shows "let_go p'"
  using assms by (auto simp: let_go_def list_all_iff intro: rightly_later)

lemma let_go_emit: "let_go p \<Longrightarrow> let_go (snd (emit env r p))"
  by (rule let_go_later [of p]) (simp_all add: bounded_def let_go_def emit_acked)

lemma let_go_track: "let_go p \<Longrightarrow> let_go (track e p)"
proof -
  assume p: "let_go p"
  obtain front rest where f: "written_losses p @ [e] = front # rest" by (cases "written_losses p @ [e]") auto
  have len: "Suc (length rest) \<le> Suc 8192"
    using p arg_cong [OF f, of length] by (simp add: let_go_def bounded_def maximum_tracked_def)
  have "rightly a (Forgotten (lr_stage (snd front)) n (map (\<lambda>e. lr_stage (snd e)) rest))"
    if "maximum_tracked < length (front # rest)" "find_if (\<lambda>other. lr_stage (snd other) = lr_stage (snd front)) rest = None" for a n
    using that len by (force simp: maximum_tracked_def find_if_None_iff)
  with p bounded_track [of p e] show ?thesis
    by (auto simp: let_go_def track_def f note_fate_def Let_def split: option.split)
qed

lemma let_go_hold_back: "let_go p \<Longrightarrow> let_go (hold_back r p)"
  using bounded_hold_back [of p r] by (auto simp: let_go_def hold_back_def note_fate_def bounded_def maximum_pending_def Let_def)

lemma let_go_emit_loss: "let_go p \<Longrightarrow> let_go (snd (emit_loss env r p))"
proof -
  assume "let_go p"
  obtain x p1 where e: "emit env (pe_loss_bytes env (pl_tick p) r) p = (x, p1)" by fastforce
  then have "let_go p1" using let_go_emit [OF \<open>let_go p\<close>] by (metis snd_conv)
  then have "let_go (p1\<lparr>m_loss_records := n\<rparr>)" "let_go (p1\<lparr>m_records_unwritten := n\<rparr>)" for n
    by (simp_all add: let_go_def bounded_def)
  then show ?thesis using e by (cases x) (simp_all add: emit_loss_def let_go_track let_go_hold_back)
qed

lemma let_go_emit_losses: "let_go p \<Longrightarrow> let_go (fold (\<lambda>x p. snd (emit_loss env (f x) p)) xs p)"
  by (induction xs arbitrary: p) (simp_all add: let_go_emit_loss)

lemma let_go_report_loss: "let_go p \<Longrightarrow> let_go (report_loss env r p)"
  unfolding report_loss_def by (rule let_go_emit_loss) (simp add: let_go_def bounded_def note_fate_def)

lemma let_go_report_losses: "let_go p \<Longrightarrow> let_go (fold (\<lambda>x. report_loss env (f x)) xs p)"
  by (induction xs arbitrary: p) (simp_all add: let_go_report_loss)

lemma let_go_carry: "let_go p \<Longrightarrow> let_go (carry_dropped_loss_reports env dropped p)"
proof -
  assume "let_go p"
  obtain ws carried where c: "carry_loop dropped (written_losses p) [] = (ws, carried)" by fastforce
  from carry_loop_length [OF c] \<open>let_go p\<close> have "let_go (p\<lparr>written_losses := ws\<rparr>)" by (simp add: let_go_def bounded_def)
  then show ?thesis unfolding carry_dropped_loss_reports_def c prod.case Let_def by (rule let_go_emit_losses)
qed

lemma let_go_with_log: "let_go p \<Longrightarrow> acknowledged_seq (log_now env p) \<le> acknowledged_seq w \<Longrightarrow> let_go (with_log w p)"
  using log_now_acked [of p env] by - (rule let_go_later [of p], simp_all add: let_go_def bounded_def with_log_def)

lemma let_go_settle: "let_go p \<Longrightarrow> let_go (settle_delivered env p)"
proof -
  assume p: "let_go p"
  have "let_go (with_log (log_now env p) p)" using let_go_with_log [OF p order.refl] .
  then show ?thesis using p bounds.settle_keeps [of p env]
    by (auto simp: let_go_def settle_delivered_def note_fate_def with_log_def Let_def list_all_iff)
qed

interpretation releases: pipeline_invariant env let_go for env
proof unfold_locales
  fix p :: "'a sensor_pipeline"
  assume p: "let_go p"
  show "let_go (snd (emit env r p))" for r using p by (rule let_go_emit)
  show "let_go (report_loss env report p)" for report using p by (rule let_go_report_loss)
  show "let_go (retry_pending env p)"
    unfolding retry_pending_def by (rule let_go_emit_losses [where f = "\<lambda>r. r"]) (use p in \<open>simp add: let_go_def bounded_def\<close>)
  have "let_go (p\<lparr>unwritten_reported := n\<rparr>)" for n using p by (simp add: let_go_def bounded_def)
  then show "let_go (report_unwritten env p)" using p by (simp add: report_unwritten_def Let_def let_go_report_loss)
  have "let_go (with_log (snd (verify_storage (log_now env p))) p)"
    by (rule let_go_with_log [OF p, of env]) (simp add: verify_storage_def drop_missing_segments_def drop_missing_loop_acked)
  then show "let_go (check_storage env now p)" for now using p by (simp add: check_storage_def let_go_def bounded_def)
  show "let_go (settle_delivered env p)" using p by (rule let_go_settle)
  have "let_go (with_log (snd (take_losses (log_now env p))) p)" by (rule let_go_with_log [OF p, of env]) (simp add: take_losses_def)
  then show "let_go (report_dropped env p)" by (simp add: report_dropped_def case_prod_beta let_go_carry let_go_report_losses)
  have "acknowledged_seq (snd (wal_sync io now force w)) = acknowledged_seq w" for io now force w by (simp add: wal_sync_def split: option.split)
  then show "let_go (snd (flush_log env now force p))" for now force
    using let_go_with_log [OF p, of env] by (simp add: flush_log_def case_prod_beta)
qed (simp_all add: let_go_def bounded_def)

section \<open>What is declared of the providers\<close>

lemma declared_emits [simp]:
  "tally f (snd (emit env r p)) = tally f p" "tally f (emit_all env rs p) = tally f p" "tally f (process_batch env processed batch p) = tally f p"
proof -
  show e: "tally f (snd (emit env r p)) = tally f p" for r and p :: "'a sensor_pipeline" by (simp add: tally_def)
  show a: "tally f (emit_all env rs p) = tally f p" for rs and p :: "'a sensor_pipeline"
    unfolding emit_all_def by (induction rs arbitrary: p) (simp_all add: e)
  show "tally f (process_batch env processed batch p) = tally f p"
    unfolding process_batch_def by (induction batch arbitrary: p) (simp_all add: a)
qed

lemma tally_frame [simp]:
  "tally f (p\<lparr>pl_queue := q\<rparr>) = tally f p" "tally f (p\<lparr>last_loss_retry_ns := t\<rparr>) = tally f p" "tally f (p\<lparr>m_reconciles := n\<rparr>) = tally f p"
  "tally f (p\<lparr>quarantine_reported := n\<rparr>) = tally f p" "tally f (p\<lparr>unwritten_reported := n\<rparr>) = tally f p"
  "tally f (p\<lparr>pending_losses := rs\<rparr>) = tally f p" "tally f (p\<lparr>last_storage_check_ns := t\<rparr>) = tally f p" "tally f (with_log w p) = tally f p"
  by (simp_all add: tally_def with_log_def)

lemma declared_retry: "s \<noteq> ''wal'' \<Longrightarrow> tally (declared s) (retry_writes env now p) = tally (declared s) p"
  using declared_emit_losses(1) [where f = "\<lambda>r. r"]
  by (simp add: retry_writes_def retry_pending_def report_unwritten_def write_failed_report_def share_def Let_def)

lemma declared_queue: "s \<noteq> ''queue'' \<Longrightarrow> tally (declared s) (snd (report_queue env p)) = tally (declared s) p"
  by (simp add: report_queue_def take_dropped_def queue_report_def share_def Let_def)

lemma declared_settle [simp]: "tally (declared s) (settle_delivered env p) = tally (declared s) p"
  by (simp add: settle_delivered_def Let_def settled_fates del: map_map) (simp add: tally_def with_log_def)

lemma declared_dropped: "tally (declared s) (report_dropped env p) = tally (declared s) p + on_stage s (map dropped_report (losses (log_now env p)))"
  by (simp add: report_dropped_def take_losses_def)

lemma dropped_stage: "s \<noteq> ''wal'' \<Longrightarrow> on_stage s (map dropped_report ls) = 0"
  by (induction ls) (simp_all add: dropped_report_def share_def)

lemma declared_collect:
  assumes "s \<noteq> ''wal''" "s \<noteq> ''queue''"
  shows "tally (declared s) (collect_losses env now sources reconciled p) = tally (declared s) p + on_stage s (concat (map provider_reports sources))"
  using declared_report_losses(1) [where f = "\<lambda>r. r"] assms
  by (simp add: collect_losses_def declared_dropped dropped_stage declared_queue declared_retry check_storage_def case_prod_beta Let_def)

lemma declared_step:
  assumes "s \<noteq> ''wal''" "s \<noteq> ''queue''" "s \<noteq> ''manager_rejected''"
  shows "tally (declared s) (snd (pipeline_step env i p)) = tally (declared s) p + on_stage s (concat (map provider_reports (si_sources i)))"
  using assms
  by (simp add: pipeline_step_def flush_log_def declared_collect report_rejected_def plain_report_def share_def case_prod_beta Let_def split: option.split)

lemma declared_start:
  assumes "s \<noteq> ''wal''" "s \<noteq> ''queue''" "s \<noteq> ''sensor_gap''"
  shows "tally (declared s) (snd (snd (pipeline_start env i marker p))) = tally (declared s) p + on_stage s (concat (map provider_reports (ti_sources i)))"
  using assms
  by (simp add: pipeline_start_def flush_log_def declared_collect begin_instance_def instance_gap_def plain_report_def share_def case_prod_beta
      Let_def split: option.split)

lemma provider_counts:
  "on_stage ''kernel'' (concat (map provider_reports ss)) = (\<Sum>s\<leftarrow>ss. sr_losses s)"
  "on_stage ''governor'' (concat (map provider_reports ss)) = (\<Sum>s\<leftarrow>ss. sr_governed s)"
  "on_stage ''refused'' (concat (map provider_reports ss)) = (\<Sum>s\<leftarrow>ss. sr_refused s)"
  "on_stage ''provider_gap'' (concat (map provider_reports ss)) = (\<Sum>s\<leftarrow>ss. length (sr_gaps s))"
proof -
  have gaps: "on_stage stage (map (gap_report name) gs) = (if stage = ''provider_gap'' then length gs else 0)" for stage name gs
    by (induction gs) (simp_all add: gap_report_def plain_report_def share_def Let_def)
  show "on_stage ''kernel'' (concat (map provider_reports ss)) = (\<Sum>s\<leftarrow>ss. sr_losses s)"
    "on_stage ''governor'' (concat (map provider_reports ss)) = (\<Sum>s\<leftarrow>ss. sr_governed s)"
    "on_stage ''refused'' (concat (map provider_reports ss)) = (\<Sum>s\<leftarrow>ss. sr_refused s)"
    "on_stage ''provider_gap'' (concat (map provider_reports ss)) = (\<Sum>s\<leftarrow>ss. length (sr_gaps s))"
    by (induction ss) (simp_all add: provider_reports_def governor_report_def refused_report_def kernel_report_def plain_report_def share_def gaps)
qed

section \<open>Whole runs\<close>

definition pipeline_run ::
  "pipeline_env \<Rightarrow> start_input \<Rightarrow> string option \<Rightarrow> 'a step_input list \<Rightarrow> nat \<Rightarrow> wal \<Rightarrow> 'a sensor_pipeline"
where
  "pipeline_run env i marker steps capacity log =
     fold (\<lambda>i p. snd (pipeline_step env i p)) steps (snd (snd (pipeline_start env i marker (pipeline_new capacity log))))"

text \<open>What the providers said in the course of a run.\<close>

definition run_sources :: "start_input \<Rightarrow> 'a step_input list \<Rightarrow> provider_readings list" where
  "run_sources i steps = ti_sources i @ concat (map si_sources steps)"

lemma declared_run:
  assumes "s \<noteq> ''wal''" "s \<noteq> ''queue''" "s \<noteq> ''manager_rejected''" "s \<noteq> ''sensor_gap''"
  shows "tally (declared s) (pipeline_run env i marker steps capacity log) = on_stage s (concat (map provider_reports (run_sources i steps)))"
proof -
  have "tally (declared s) (fold (\<lambda>i p. snd (pipeline_step env i p)) steps p) =
      tally (declared s) p + on_stage s (concat (map provider_reports (concat (map si_sources steps))))" for p :: "'a sensor_pipeline"
    using assms by (induction steps arbitrary: p) (simp_all add: declared_step)
  moreover have "tally (declared s) (pipeline_new capacity log :: 'a sensor_pipeline) = 0" by (simp add: tally_def pipeline_new_def)
  ultimately show ?thesis using assms by (simp add: pipeline_run_def declared_start run_sources_def)
qed

text \<open>
  C18. No count of a loss gets lost. Over any run of the pipeline, whatever the log answers, what other threads do to it and which records are
  written between, everything declared lost of a stage is, exactly: waiting to be written, tracked as a written record, settled, given up, or counted under
  another stage. Each of the last three happened for the reason the code has for it: what is settled was in a record whose number the acknowledged cursor of
  the log has passed; what is given up was of a stage none of the 8192 other tracked reports had; what is counted under another stage found 64
  reports waiting. What is declared of the kernel, of the governor, of refused inputs and of provider gaps is exactly the sum of what the
  providers said. Both lists stay within their limits. (A record behind the cursor need not have reached the Manager: one that the quota removed
  and an acknowledgement then passed counts as settled.)
\<close>

theorem loss_counts_conserved:
  "let p = pipeline_run env i marker steps capacity log; sources = run_sources i steps
   in (\<forall>stage. tally (declared stage) p + tally (moved_in stage) p =
         on_stage stage (pending_losses p) + on_stage stage (tracked p) + tally (settled stage) p + tally (forgotten stage) p +
         tally (moved_out stage) p) \<and>
      list_all (rightly (acknowledged_seq (pl_log p))) (pl_fate p) \<and>
      tally (declared ''kernel'') p = (\<Sum>s\<leftarrow>sources. sr_losses s) \<and> tally (declared ''governor'') p = (\<Sum>s\<leftarrow>sources. sr_governed s) \<and>
      tally (declared ''refused'') p = (\<Sum>s\<leftarrow>sources. sr_refused s) \<and> tally (declared ''provider_gap'') p = (\<Sum>s\<leftarrow>sources. length (sr_gaps s)) \<and>
      length (written_losses p) \<le> 8192 \<and> length (pending_losses p) \<le> 64"
proof -
  let ?p = "pipeline_run env i marker steps capacity log"
  have "balanced (pipeline_new capacity log)" "let_go (pipeline_new capacity log)"
    by (simp_all add: balanced_def owed_def tally_def tracked_def let_go_def bounded_def pipeline_new_def)
  then have "balanced ?p" "let_go ?p"
    unfolding pipeline_run_def by (auto intro!: counts.steps_keep counts.start_keeps releases.steps_keep releases.start_keeps)
  then show ?thesis
    by (simp add: balanced_def nothing_owed let_go_def bounded_def maximum_tracked_def maximum_pending_def declared_run provider_counts Let_def)
qed






lemma settled_emit_loss [simp]: "tally (settled s) (snd (emit_loss env r p)) = tally (settled s) p"
proof -
  obtain x p1 where e: "emit env (pe_loss_bytes env (pl_tick p) r) p = (x, p1)" by fastforce
  then have "pl_fate p1 = pl_fate p" using emit_frame(3) by (metis snd_conv)
  then show ?thesis
    using e by (cases x; simp add: emit_loss_def track_def hold_back_def tally_def note_fate_def Let_def split: option.split)
qed




section \<open>The marker of an instance\<close>

lemma text_lines_line: "newline \<notin> set l \<Longrightarrow> text_lines (l @ newline # s) = l # text_lines s"
  by (subst text_lines.simps) (simp add: takeWhile_append dropWhile_append)

lemma no_newline_number: "newline \<notin> set (to_string n)"
  using to_string_digits [of n] by (auto simp: newline_def is_digit_def)

lemma marker_lines:
  assumes "newline \<notin> set boot_id"
  shows "text_lines (marker_text boot_id started alive clean) =
    [''panopticon-instance 1'', ''boot_id='' @ boot_id, ''started_unix_ns='' @ to_string started, ''alive_unix_ns='' @ to_string alive,
     ''clean='' @ (if clean then ''1'' else ''0'')]"
proof -
  have line: "text_lines (l @ [newline] @ s) = l # text_lines s" if "newline \<notin> set l" for l s
    using text_lines_line [OF that] by simp
  have "marker_text boot_id started alive clean =
    ''panopticon-instance 1'' @ [newline] @ (''boot_id='' @ boot_id) @ [newline] @ (''started_unix_ns='' @ to_string started) @ [newline] @
    (''alive_unix_ns='' @ to_string alive) @ [newline] @ (''clean='' @ (if clean then ''1'' else ''0'')) @ [newline] @ []"
    by (simp add: marker_text_def)
  then show ?thesis
    using assms by - (simp only: line, (subst line, simp add: newline_def no_newline_number [unfolded newline_def])+, simp add: text_lines.simps)
qed

lemma integer_to_string: "n < 2 ^ 64 \<Longrightarrow> integer_u64 (to_string n) = Some n"
  using to_string_digits [of n] by (simp add: integer_u64_def to_string_nonempty digits_value_to_string list_all_iff)

text \<open>
  An instance that ends without a clean shutdown is reported by the next one, with the time it was last alive and
  whether the host was restarted, and one that ended cleanly is not.
\<close>

theorem unclean_end_reported:
  assumes "newline \<notin> set boot_id" "alive < 2 ^ 64"
  shows "instance_gap boot now (marker_text boot_id started alive clean) =
    (if clean then None else Some (plain_report ''sensor_gap'' 1 (gap_detail (Some alive) now (boot_id \<noteq> boot))))"
proof -
  have fields: "fold add_field (tl (text_lines (marker_text boot_id started alive clean))) Map.empty =
    [''boot_id'' \<mapsto> boot_id, ''started_unix_ns'' \<mapsto> to_string started, ''alive_unix_ns'' \<mapsto> to_string alive,
     ''clean'' \<mapsto> (if clean then ''1'' else ''0'')]"
    by (simp add: marker_lines [OF assms(1)] add_field_def)
  show ?thesis
    unfolding instance_gap_def Let_def fields by (simp add: marker_lines [OF assms(1)] integer_to_string [OF assms(2)])
qed




end
