(* ===== verification/Process_Info.thy ===== *)
theory Process_Info
  imports Prelude
begin

text \<open>
  Reading one process from procfs, \<^verbatim>\<open>src/sensor/process_info.cpp\<close>: the bounded file reader over
  any behaviour of \<open>read(2)\<close>, the parsers of \<open>stat\<close>, \<open>status\<close>, \<open>cmdline\<close>, \<open>environ\<close> and the links,
  and \<open>read_process\<close>, which puts them together. What the files hold when they are read is an
  argument, one component per file, because every one of them may change in between.
\<close>

section \<open>Data\<close>

datatype executable_kind = Exe_file | Exe_deleted | Exe_memfd | Exe_anonymous | Exe_unknown

datatype stdio_kind = Stdio_closed | Stdio_socket | Stdio_pipe | Stdio_tty | Stdio_file | Stdio_null | Stdio_other

datatype unavailable_reason =
    not_supported_by_provider | process_exited | permission_denied | truncated_reason | budget_exceeded | not_applicable
  | kernel_feature_missing | object_gone

type_synonym unavailable_field = "string \<times> unavailable_reason"

record process_credentials =
  pc_uids :: "u32 list"
  pc_gids :: "u32 list"
  pc_groups :: "u32 list"
  pc_loginuid :: "u32 option"
  pc_sessionid :: "u32 option"

record process_capabilities =
  cap_effective :: u64
  cap_permitted :: u64
  cap_inheritable :: u64
  cap_bounding :: u64
  cap_ambient :: u64

record executable_info =
  ex_path :: string
  ex_kind :: executable_kind
  ex_dev :: u64
  ex_inode :: u64
  ex_size :: u64
  ex_mtime_ns :: u64
  ex_mode :: u32
  ex_uid :: u32
  ex_gid :: u32
  ex_known :: bool

record process_info =
  pi_pid :: u32
  pi_ppid :: u32
  pi_pgid :: u32
  pi_sid :: u32
  pi_tty_nr :: u32
  pi_vpid :: u32
  pi_threads :: u32
  pi_start_ticks :: u64
  pi_state :: char
  pi_kernel_thread :: bool
  pi_comm :: string
  pi_creds :: process_credentials
  pi_caps :: process_capabilities
  pi_seccomp_mode :: "int option"
  pi_no_new_privs :: "bool option"
  pi_executable :: executable_info
  pi_args :: "string list"
  pi_args_truncated :: bool
  pi_stdio :: "stdio_kind list option"
  pi_interpreter :: string
  pi_script :: string
  pi_cwd :: string
  pi_namespaces :: "u64 list"
  pi_cgroup :: string
  pi_env :: "string \<rightharpoonup> string"
  pi_unavailable :: "unavailable_field list"

record procfs_limits =
  pl_maximum_args :: nat
  pl_maximum_args_bytes :: nat
  pl_maximum_path_bytes :: nat
  pl_collect_environment :: bool

record stat_fields =
  sf_comm :: string
  sf_state :: char
  sf_ppid :: u32
  sf_pgid :: u32
  sf_sid :: u32
  sf_tty_nr :: u32
  sf_flags :: u64
  sf_threads :: u32
  sf_start_ticks :: u64

definition no_executable :: executable_info where
  "no_executable = \<lparr>ex_path = [], ex_kind = Exe_unknown, ex_dev = 0, ex_inode = 0, ex_size = 0, ex_mtime_ns = 0,
     ex_mode = 0, ex_uid = 0, ex_gid = 0, ex_known = False\<rparr>"

text \<open>A value-initialised \<open>process_info\<close>.\<close>

definition empty_info :: process_info where
  "empty_info = \<lparr>pi_pid = 0, pi_ppid = 0, pi_pgid = 0, pi_sid = 0, pi_tty_nr = 0, pi_vpid = 0, pi_threads = 0, pi_start_ticks = 0,
     pi_state = CHR ''?'', pi_kernel_thread = False, pi_comm = [],
     pi_creds = \<lparr>pc_uids = replicate 4 0, pc_gids = replicate 4 0, pc_groups = [], pc_loginuid = None, pc_sessionid = None\<rparr>,
     pi_caps = \<lparr>cap_effective = 0, cap_permitted = 0, cap_inheritable = 0, cap_bounding = 0, cap_ambient = 0\<rparr>,
     pi_seccomp_mode = None, pi_no_new_privs = None, pi_executable = no_executable, pi_args = [], pi_args_truncated = False,
     pi_stdio = None, pi_interpreter = [], pi_script = [], pi_cwd = [], pi_namespaces = replicate 7 0, pi_cgroup = [],
     pi_env = Map.empty, pi_unavailable = []\<rparr>"

definition mark_unavailable :: "string \<Rightarrow> unavailable_reason \<Rightarrow> process_info \<Rightarrow> process_info" where
  "mark_unavailable field reason info = info\<lparr>pi_unavailable := pi_unavailable info @ [(field, reason)]\<rparr>"

section \<open>Reading a file\<close>

text \<open>What one call of \<open>read\<close> does: it is interrupted, fails, or gives some of the bytes asked for.\<close>

datatype read_answer = Interrupted | Failed_with nat | Gives nat

record read_outcome =
  ro_contents :: "string option"
  ro_truncated :: bool
  ro_reason :: unavailable_reason

definition reason_from_errno :: "nat \<Rightarrow> unavailable_reason" where
  "reason_from_errno error_number = (if error_number = 13 \<or> error_number = 1 then permission_denied else process_exited)"

text \<open>
  The reading loop of \<open>read_bounded\<close> on the rest of the file; \<open>room\<close> is the size of the buffer
  and \<open>got\<close> what it holds. When the list of answers is used up, \<open>read\<close> gives all it is asked
  for. A call that gives no byte before the end of the file does not happen.
\<close>

definition read_result :: "string \<Rightarrow> bool \<Rightarrow> read_outcome" where
  "read_result got more_left = \<lparr>ro_contents = Some got, ro_truncated = more_left, ro_reason = process_exited\<rparr>"

definition read_failed :: "nat \<Rightarrow> read_outcome" where
  "read_failed errno = \<lparr>ro_contents = None, ro_truncated = False, ro_reason = reason_from_errno errno\<rparr>"

text \<open>The one-byte probe at the limit: only bytes count as more, an interrupted call does not.\<close>

definition probe :: "string \<Rightarrow> read_answer list \<Rightarrow> bool" where
  "probe rest answers = (rest \<noteq> [] \<and> (case answers of [] \<Rightarrow> True | Gives k # _ \<Rightarrow> True | _ \<Rightarrow> False))"

function read_loop :: "nat \<Rightarrow> nat \<Rightarrow> string \<Rightarrow> string \<Rightarrow> read_answer list \<Rightarrow> read_outcome" where
  "read_loop limit room got rest answers =
     (if length got = room \<and> limit \<le> room then read_result got (probe rest answers)
      else
        let room' = (if length got = room then min limit (room * 2) else room)
        in case answers of
             Interrupted # answers' \<Rightarrow> read_loop limit room' got rest answers'
           | Failed_with e # answers' \<Rightarrow> read_failed e
           | Gives k # answers' \<Rightarrow>
               if rest = [] \<or> room' \<le> length got then read_result got False
               else let n = min (max 1 k) (room' - length got)
                    in read_loop limit room' (got @ take n rest) (drop n rest) answers'
           | [] \<Rightarrow>
               if rest = [] \<or> room' \<le> length got then read_result got False
               else let n = room' - length got in read_loop limit room' (got @ take n rest) (drop n rest) [])"
  by pat_completeness auto
termination
  by (relation "measure (\<lambda>(limit, room, got, rest, answers). length answers + length rest)")
    (auto simp: Let_def length_greater_0_conv [symmetric] simp del: length_greater_0_conv)

declare read_loop.simps [simp del]

text \<open>A file as it is when it is read: it does not open, or it has contents and \<open>read\<close> answers in some way.\<close>

datatype proc_file = Unopenable nat | Opened string "read_answer list"

fun read_bounded :: "nat \<Rightarrow> proc_file \<Rightarrow> read_outcome" where
  "read_bounded limit (Unopenable errno) = read_failed errno"
| "read_bounded limit (Opened data answers) = read_loop limit (min limit 4096) [] data answers"

section \<open>Numbers and words\<close>

definition blank :: "char \<Rightarrow> bool" where
  "blank c \<longleftrightarrow> c = CHR '' '' \<or> c = CHR 0x09"

definition space :: "char \<Rightarrow> bool" where
  "space c \<longleftrightarrow> c = CHR '' '' \<or> c = CHR 0x09 \<or> c = CHR 0x0A"

definition trim :: "string \<Rightarrow> string" where
  "trim str = rev (dropWhile space (rev (dropWhile blank str)))"

definition digit_of :: "nat \<Rightarrow> char \<Rightarrow> nat option" where
  "digit_of base c =
     (let n = (of_char c :: nat);
          v = (if 48 \<le> n \<and> n \<le> 57 then n - 48 else if 97 \<le> n \<and> n \<le> 122 then n - 87 else if 65 \<le> n \<and> n \<le> 90 then n - 55 else base)
      in if v < base then Some v else None)"

definition number_of :: "nat \<Rightarrow> string \<Rightarrow> nat" where
  "number_of base ds = fold (\<lambda>c v. v * base + the (digit_of base c)) ds 0"

text \<open>
  \<open>std::from_chars\<close> on an unsigned type: the longest run of digits; nothing is assigned without a
  digit or beyond the maximum. \<open>parse_number\<close> is true when the whole trimmed text was taken, but
  a number that is followed by something else has been assigned all the same.
\<close>

definition parse_unsigned :: "nat \<Rightarrow> nat \<Rightarrow> string \<Rightarrow> nat option \<times> bool" where
  "parse_unsigned base limit str =
     (let t = trim str; ds = takeWhile (\<lambda>c. digit_of base c \<noteq> None) t
      in if ds = [] \<or> limit < number_of base ds then (None, False) else (Some (number_of base ds), ds = t))"

text \<open>The signed form takes one minus sign.\<close>

definition parse_signed :: "nat \<Rightarrow> string \<Rightarrow> int option \<times> bool" where
  "parse_signed bits str =
     (let t = trim str; neg = (t \<noteq> [] \<and> hd t = CHR ''-''); u = (if neg then tl t else t);
          ds = takeWhile (\<lambda>c. digit_of 10 c \<noteq> None) u; n = number_of 10 ds
      in if ds = [] \<or> (if neg then 2 ^ (bits - 1) < n else 2 ^ (bits - 1) \<le> n) then (None, False)
         else (Some (if neg then - int n else int n), ds = u))"

definition parse_u32 :: "string \<Rightarrow> u32 option" where
  "parse_u32 str = (case parse_unsigned 10 (2 ^ 32 - 1) str of (Some n, True) \<Rightarrow> Some (of_nat n) | _ \<Rightarrow> None)"

definition parse_u64 :: "string \<Rightarrow> u64 option" where
  "parse_u64 str = (case parse_unsigned 10 (2 ^ 64 - 1) str of (Some n, True) \<Rightarrow> Some (of_nat n) | _ \<Rightarrow> None)"

function split_whitespace :: "string \<Rightarrow> string list" where
  "split_whitespace str =
     (let t = dropWhile space str; w = takeWhile (\<lambda>c. \<not> space c) t
      in if w = [] then [] else w # split_whitespace (drop (length w) t))"
  by pat_completeness auto
termination
proof (relation "measure length")
  fix str t w
  assume "t = dropWhile space str" "w = takeWhile (\<lambda>c. \<not> space c) t" "w \<noteq> []"
  then have "0 < length w" "length t \<le> length str" by (simp_all add: length_dropWhile_le)
  moreover have "t \<noteq> []" using \<open>w = takeWhile (\<lambda>c. \<not> space c) t\<close> \<open>w \<noteq> []\<close> by (cases t) simp_all
  ultimately have "length (drop (length w) t) < length str"
    unfolding length_drop using length_greater_0_conv [of t] by linarith
  then show "(drop (length w) t, str) \<in> measure length" by simp
qed simp

declare split_whitespace.simps [simp del]

text \<open>The pieces of a text that a separator ends, as the loops over lines and NUL-ended strings see them.\<close>

function cut_all :: "char \<Rightarrow> string \<Rightarrow> string list" where
  "cut_all sep str =
     (if str = [] then [] else takeWhile (\<lambda>c. c \<noteq> sep) str # cut_all sep (tl (dropWhile (\<lambda>c. c \<noteq> sep) str)))"
  by pat_completeness auto
termination
proof (relation "measure (\<lambda>(_, str). length str)")
  fix sep str
  assume "str \<noteq> ([] :: string)"
  moreover have "length (dropWhile (\<lambda>c. c \<noteq> sep) str) \<le> length str" by (rule length_dropWhile_le)
  ultimately have "length (dropWhile (\<lambda>c. c \<noteq> sep) str) - 1 < length str"
    using length_greater_0_conv [of str] by linarith
  then show "((sep, tl (dropWhile (\<lambda>c. c \<noteq> sep) str)), sep, str) \<in> measure (\<lambda>(_, str). length str)" by simp
qed simp

declare cut_all.simps [simp del]

section \<open>Parsers\<close>

text \<open>\<open>find\<close> and \<open>rfind\<close> of a character, \<open>find\<close> of a text.\<close>

definition find_char :: "char \<Rightarrow> string \<Rightarrow> nat option" where
  "find_char c str = find_if (\<lambda>x. x = c) str"

definition rfind_char :: "char \<Rightarrow> string \<Rightarrow> nat option" where
  "rfind_char c str = map_option (\<lambda>i. length str - 1 - i) (find_if (\<lambda>x. x = c) (rev str))"

fun find_text :: "string \<Rightarrow> string \<Rightarrow> nat option" where
  "find_text pat [] = (if pat = [] then Some 0 else None)"
| "find_text pat (c # str) = (if take (length pat) (c # str) = pat then Some 0 else map_option Suc (find_text pat str))"

definition parse_namespace_link :: "string \<Rightarrow> u64" where
  "parse_namespace_link target =
     (case (find_text '':['' target, rfind_char CHR '']'' target) of
        (Some open_at, Some close_at) \<Rightarrow>
          if close_at \<le> open_at + 2 then 0
          else (case parse_u64 (take (close_at - open_at - 2) (drop (open_at + 2) target)) of Some inode \<Rightarrow> inode | None \<Rightarrow> 0)
      | _ \<Rightarrow> 0)"

fun select_cgroup_loop :: "string list \<Rightarrow> string \<Rightarrow> string" where
  "select_cgroup_loop [] joined = joined"
| "select_cgroup_loop (line # ls) joined =
     (if take 3 line = ''0::'' then drop 3 line
      else select_cgroup_loop ls (if line = [] then joined else (if joined = [] then line else joined @ '';'' @ line)))"

definition select_cgroup :: "string \<Rightarrow> string" where
  "select_cgroup contents = select_cgroup_loop (cut_all CHR 0x0A contents) []"

definition unset_id :: u32 where "unset_id = 4294967295"

definition parse_optional_id :: "string option \<Rightarrow> u32 option" where
  "parse_optional_id contents =
     (case Option.bind contents parse_u32 of None \<Rightarrow> None | Some v \<Rightarrow> if v = unset_id then None else Some v)"

definition environment_allowlist :: "string list" where
  "environment_allowlist = [''LD_PRELOAD'', ''LD_LIBRARY_PATH'', ''LD_AUDIT'', ''PATH'', ''SSH_CONNECTION'', ''SSH_CLIENT'', ''SUDO_USER'',
     ''SUDO_UID'', ''SUDO_COMMAND'', ''container'']"

text \<open>The fields behind the name: field \<open>n\<close> of the line is value \<open>n - 3\<close>.\<close>

definition stat_values :: "string \<Rightarrow> string list \<Rightarrow> stat_fields option" where
  "stat_values comm values =
     (if length values \<le> 19 \<or> length (values ! 0) \<noteq> 1 then None
      else
        (case (parse_u32 (values ! 1), parse_u32 (values ! 2), parse_u32 (values ! 3), parse_signed 64 (values ! 4),
               parse_u64 (values ! 6), parse_u32 (values ! 17), parse_u64 (values ! 19)) of
           (Some ppid, Some pgid, Some sid, (Some tty, True), Some flags, Some threads, Some start) \<Rightarrow>
             Some \<lparr>sf_comm = comm, sf_state = hd (values ! 0), sf_ppid = ppid, sf_pgid = pgid, sf_sid = sid,
                   sf_tty_nr = of_int tty, sf_flags = flags, sf_threads = threads, sf_start_ticks = start\<rparr>
         | _ \<Rightarrow> None))"

definition parse_stat :: "string \<Rightarrow> stat_fields option" where
  "parse_stat contents =
     (case (find_char CHR ''('' contents, rfind_char CHR '')'' contents) of
        (Some open_at, Some close_at) \<Rightarrow>
          if close_at < open_at \<or> length contents < close_at + 2 then None
          else stat_values (take (close_at - open_at - 1) (drop (open_at + 1) contents)) (split_whitespace (drop (close_at + 1) contents))
      | _ \<Rightarrow> None)"

text \<open>
  The fields of \<open>status\<close>, line by line. A value that is only partly a number is assigned
  (\<open>fst\<close> of the parse), a value that is not one is left alone.
\<close>

definition assigned32 :: "string \<Rightarrow> u32 \<Rightarrow> u32" where
  "assigned32 str old = (case fst (parse_unsigned 10 (2 ^ 32 - 1) str) of Some n \<Rightarrow> of_nat n | None \<Rightarrow> old)"

definition assigned_hex :: "string \<Rightarrow> u64 \<Rightarrow> u64" where
  "assigned_hex str old = (case fst (parse_unsigned 16 (2 ^ 64 - 1) str) of Some n \<Rightarrow> of_nat n | None \<Rightarrow> old)"

definition fill_ids :: "string list \<Rightarrow> u32 list \<Rightarrow> u32 list" where
  "fill_ids values ids = map (\<lambda>i. if i < length values then assigned32 (values ! i) (ids ! i) else ids ! i) [0..<length ids]"

definition set_creds :: "(process_credentials \<Rightarrow> process_credentials) \<Rightarrow> process_info \<Rightarrow> process_info" where
  "set_creds f info = info\<lparr>pi_creds := f (pi_creds info)\<rparr>"

definition set_caps :: "(process_capabilities \<Rightarrow> process_capabilities) \<Rightarrow> process_info \<Rightarrow> process_info" where
  "set_caps f info = info\<lparr>pi_caps := f (pi_caps info)\<rparr>"

definition parse_status_field :: "string \<Rightarrow> string \<Rightarrow> process_info \<Rightarrow> process_info" where
  "parse_status_field label rest info =
     (let values = split_whitespace rest
      in if label = ''Uid'' then set_creds (\<lambda>c. c\<lparr>pc_uids := fill_ids values (pc_uids c)\<rparr>) info
         else if label = ''Gid'' then set_creds (\<lambda>c. c\<lparr>pc_gids := fill_ids values (pc_gids c)\<rparr>) info
         else if label = ''Groups'' then set_creds (\<lambda>c. c\<lparr>pc_groups := List.map_filter parse_u32 values\<rparr>) info
         else if label = ''NSpid'' then
           (if values \<noteq> [] then info\<lparr>pi_vpid := assigned32 (last values) (pi_vpid info)\<rparr> else info)
         else if label = ''Threads'' then
           (if values \<noteq> [] then info\<lparr>pi_threads := assigned32 (hd values) (pi_threads info)\<rparr> else info)
         else if label = ''CapInh'' then set_caps (\<lambda>c. c\<lparr>cap_inheritable := assigned_hex rest (cap_inheritable c)\<rparr>) info
         else if label = ''CapPrm'' then set_caps (\<lambda>c. c\<lparr>cap_permitted := assigned_hex rest (cap_permitted c)\<rparr>) info
         else if label = ''CapEff'' then set_caps (\<lambda>c. c\<lparr>cap_effective := assigned_hex rest (cap_effective c)\<rparr>) info
         else if label = ''CapBnd'' then set_caps (\<lambda>c. c\<lparr>cap_bounding := assigned_hex rest (cap_bounding c)\<rparr>) info
         else if label = ''CapAmb'' then set_caps (\<lambda>c. c\<lparr>cap_ambient := assigned_hex rest (cap_ambient c)\<rparr>) info
         else if label = ''Seccomp'' then
           (case values of v # _ \<Rightarrow> (case parse_signed 32 v of (Some n, True) \<Rightarrow> info\<lparr>pi_seccomp_mode := Some n\<rparr> | _ \<Rightarrow> info) | [] \<Rightarrow> info)
         else if label = ''NoNewPrivs'' then
           (case values of v # _ \<Rightarrow> (case parse_signed 32 v of (Some n, True) \<Rightarrow> info\<lparr>pi_no_new_privs := Some (n \<noteq> 0)\<rparr> | _ \<Rightarrow> info) | [] \<Rightarrow> info)
         else info)"

definition parse_status_line :: "string \<Rightarrow> process_info \<Rightarrow> process_info" where
  "parse_status_line line info =
     (case find_char CHR '':'' line of
        None \<Rightarrow> info
      | Some colon \<Rightarrow> parse_status_field (take colon line) (drop (colon + 1) line) info)"

definition parse_status :: "string \<Rightarrow> process_info \<Rightarrow> process_info" where
  "parse_status contents info = fold parse_status_line (cut_all CHR 0x0A contents) info"

fun cmdline_loop :: "nat \<Rightarrow> nat \<Rightarrow> string list \<Rightarrow> string list \<Rightarrow> nat \<Rightarrow> bool \<Rightarrow> string list \<times> bool" where
  "cmdline_loop maximum_args maximum_bytes [] args used trunc = (args, trunc)"
| "cmdline_loop maximum_args maximum_bytes (arg # pending) args used trunc =
     (if length args = maximum_args then (args, True)
      else if maximum_bytes < used + length arg then (args @ [take (maximum_bytes - used) arg], True)
      else cmdline_loop maximum_args maximum_bytes pending (args @ [arg]) (used + length arg) trunc)"

definition split_cmdline :: "string \<Rightarrow> nat \<Rightarrow> nat \<Rightarrow> string list \<times> bool" where
  "split_cmdline contents maximum_args maximum_bytes = cmdline_loop maximum_args maximum_bytes (cut_all CHR 0x00 contents) [] 0 False"

definition deleted_suffix :: string where "deleted_suffix = '' (deleted)''"

definition classify_exe_link :: "string \<Rightarrow> string \<times> executable_kind" where
  "classify_exe_link target =
     (let n = length deleted_suffix;
          gone = (n < length target \<and> drop (length target - n) target = deleted_suffix)
      in if take 7 target = ''/memfd:'' then (target, Exe_memfd)
         else let t = (if gone then take (length target - n) target else target)
              in if t = [] \<or> hd t \<noteq> CHR ''/'' then (t, Exe_anonymous)
                 else (t, if gone then Exe_deleted else Exe_file))"

section \<open>One process\<close>

record file_status =
  st_dev :: u64
  st_ino :: u64
  st_size :: u64
  st_mtime_sec :: u64
  st_mtime_nsec :: u64
  st_mode :: u32
  st_uid :: u32
  st_gid :: u32

text \<open>
  The directory of a process in procfs, file by file, each at the moment it is read; \<open>pv_stat_again\<close>
  is the last read of \<open>stat\<close>. A link gives its target or an error number.
\<close>

record proc_view =
  pv_stat :: proc_file
  pv_status :: proc_file
  pv_exe :: "nat + string"
  pv_exe_status :: "file_status option"
  pv_cmdline :: proc_file
  pv_cwd :: "nat + string"
  pv_environ :: proc_file
  pv_ns :: "nat \<Rightarrow> nat + string"
  pv_cgroup :: proc_file
  pv_loginuid :: proc_file
  pv_sessionid :: proc_file
  pv_stat_again :: proc_file

definition read_link :: "nat + string \<Rightarrow> unavailable_reason + string" where
  "read_link link = (case link of Inl errno \<Rightarrow> Inl (reason_from_errno errno) | Inr target \<Rightarrow> Inr target)"

definition read_start_ticks :: "proc_file \<Rightarrow> u64 option" where
  "read_start_ticks stat_file =
     (case ro_contents (read_bounded 4096 stat_file) of
        None \<Rightarrow> None
      | Some contents \<Rightarrow> map_option sf_start_ticks (parse_stat contents))"

definition list_pids :: "string list \<Rightarrow> u32 list" where
  "list_pids names = sort (filter (\<lambda>pid. pid \<noteq> 0) (List.map_filter parse_u32 names))"

definition info_from_stat :: "u32 \<Rightarrow> stat_fields \<Rightarrow> process_info" where
  "info_from_stat pid sf =
     empty_info\<lparr>pi_pid := pid, pi_vpid := pid, pi_ppid := sf_ppid sf, pi_pgid := sf_pgid sf, pi_sid := sf_sid sf,
       pi_tty_nr := sf_tty_nr sf, pi_threads := sf_threads sf, pi_start_ticks := sf_start_ticks sf,
       pi_state := sf_state sf, pi_comm := sf_comm sf, pi_kernel_thread := (sf_flags sf AND 0x00200000 \<noteq> 0)\<rparr>"

definition read_status_part :: "proc_view \<Rightarrow> process_info \<Rightarrow> process_info" where
  "read_status_part view info =
     (let status = read_bounded 16384 (pv_status view)
      in case ro_contents status of
           Some contents \<Rightarrow> parse_status contents info
         | None \<Rightarrow> mark_unavailable ''process.capabilities'' (ro_reason status) (mark_unavailable ''process.user'' (ro_reason status) info))"

definition read_exe_part :: "proc_view \<Rightarrow> process_info \<Rightarrow> process_info" where
  "read_exe_part view info =
     (case read_link (pv_exe view) of
        Inl reason \<Rightarrow> mark_unavailable ''process.executable'' reason info
      | Inr target \<Rightarrow>
          let (path, kind) = classify_exe_link target;
              e = (pi_executable info)\<lparr>ex_path := path, ex_kind := kind\<rparr>
          in info\<lparr>pi_executable :=
               (case pv_exe_status view of
                  None \<Rightarrow> e
                | Some st \<Rightarrow> e\<lparr>ex_dev := st_dev st, ex_inode := st_ino st, ex_size := st_size st,
                    ex_mtime_ns := st_mtime_sec st * 1000000000 + st_mtime_nsec st, ex_mode := st_mode st,
                    ex_uid := st_uid st, ex_gid := st_gid st, ex_known := True\<rparr>)\<rparr>)"

definition read_cmdline_part :: "procfs_limits \<Rightarrow> proc_view \<Rightarrow> process_info \<Rightarrow> process_info" where
  "read_cmdline_part limits view info =
     (let cmdline = read_bounded (pl_maximum_args_bytes limits + 1) (pv_cmdline view)
      in case ro_contents cmdline of
           None \<Rightarrow> mark_unavailable ''process.args'' (ro_reason cmdline) info
         | Some contents \<Rightarrow>
             let (args, trunc) = split_cmdline contents (pl_maximum_args limits) (pl_maximum_args_bytes limits);
                 info' = info\<lparr>pi_args := args, pi_args_truncated := (trunc \<or> ro_truncated cmdline)\<rparr>
             in if trunc \<or> ro_truncated cmdline then mark_unavailable ''process.args'' truncated_reason info' else info')"

definition read_cwd_part :: "procfs_limits \<Rightarrow> proc_view \<Rightarrow> process_info \<Rightarrow> process_info" where
  "read_cwd_part limits view info =
     (case read_link (pv_cwd view) of
        Inl reason \<Rightarrow> mark_unavailable ''process.cwd'' reason info
      | Inr cwd \<Rightarrow> info\<lparr>pi_cwd := take (pl_maximum_path_bytes limits) cwd\<rparr>)"

text \<open>One entry of the environment; \<open>emplace\<close> keeps a key that is already there.\<close>

definition env_entry :: "nat \<Rightarrow> string \<Rightarrow> (string \<rightharpoonup> string) \<Rightarrow> (string \<rightharpoonup> string)" where
  "env_entry maximum entry env =
     (case find_char CHR ''='' entry of
        None \<Rightarrow> env
      | Some equals \<Rightarrow>
          let name = take equals entry
          in if name \<in> set environment_allowlist \<and> env name = None
             then env(name \<mapsto> take maximum (drop (equals + 1) entry)) else env)"

definition read_env_part :: "procfs_limits \<Rightarrow> proc_view \<Rightarrow> process_info \<Rightarrow> process_info" where
  "read_env_part limits view info =
     (if \<not> pl_collect_environment limits then info
      else let environ = read_bounded 65536 (pv_environ view)
           in case ro_contents environ of
                None \<Rightarrow> mark_unavailable ''process.env'' (ro_reason environ) info
              | Some contents \<Rightarrow>
                  let info' = info\<lparr>pi_env := fold (env_entry (pl_maximum_path_bytes limits)) (cut_all CHR 0x00 contents) (pi_env info)\<rparr>
                  in if ro_truncated environ then mark_unavailable ''process.env'' truncated_reason info' else info')"

definition read_image_part :: "procfs_limits \<Rightarrow> proc_view \<Rightarrow> process_info \<Rightarrow> process_info" where
  "read_image_part limits view info =
     (if pi_kernel_thread info
      then mark_unavailable ''process.executable'' not_applicable (info\<lparr>pi_executable := (pi_executable info)\<lparr>ex_kind := Exe_anonymous\<rparr>\<rparr>)
      else read_env_part limits view (read_cwd_part limits view (read_cmdline_part limits view (read_exe_part view info))))"

definition read_ns_part :: "proc_view \<Rightarrow> process_info \<Rightarrow> process_info" where
  "read_ns_part view info =
     (let info' = info\<lparr>pi_namespaces := map (\<lambda>i. case read_link (pv_ns view i) of
            Inr target \<Rightarrow> parse_namespace_link target | Inl _ \<Rightarrow> pi_namespaces info ! i) [0..<7]\<rparr>
      in if \<exists>i\<in>set [0..<7]. (case read_link (pv_ns view i) of Inl _ \<Rightarrow> True | Inr _ \<Rightarrow> False)
         then mark_unavailable ''process.namespaces'' permission_denied info' else info')"

definition read_cgroup_part :: "proc_view \<Rightarrow> process_info \<Rightarrow> process_info" where
  "read_cgroup_part view info =
     (let cgroup = read_bounded 8192 (pv_cgroup view)
      in case ro_contents cgroup of
           Some contents \<Rightarrow> info\<lparr>pi_cgroup := select_cgroup contents\<rparr>
         | None \<Rightarrow> mark_unavailable ''process.cgroup'' (ro_reason cgroup) info)"

definition read_ids_part :: "proc_view \<Rightarrow> process_info \<Rightarrow> process_info" where
  "read_ids_part view info =
     set_creds (\<lambda>c. c\<lparr>pc_loginuid := parse_optional_id (ro_contents (read_bounded 32 (pv_loginuid view))),
                      pc_sessionid := parse_optional_id (ro_contents (read_bounded 32 (pv_sessionid view)))\<rparr>) info"

definition read_process :: "procfs_limits \<Rightarrow> u32 \<Rightarrow> proc_view \<Rightarrow> process_info result" where
  "read_process limits pid view =
     (case ro_contents (read_bounded 4096 (pv_stat view)) of
        None \<Rightarrow> Inl (Error target_mismatch ''process is not present'')
      | Some contents \<Rightarrow>
          (case parse_stat contents of
             None \<Rightarrow> Inl (Error corrupt_data ''unparseable stat'')
           | Some sf \<Rightarrow>
               let info = read_ids_part view (read_cgroup_part view (read_ns_part view (read_image_part limits view
                            (read_status_part view (info_from_stat pid sf)))))
               in (case read_start_ticks (pv_stat_again view) of
                     Some again \<Rightarrow>
                       if again \<noteq> pi_start_ticks info then Inl (Error target_mismatch ''pid was reused during the read'') else Inr info
                   | None \<Rightarrow> Inr info)))"

end
