(* ===== verification/Process_Properties.thy ===== *)
theory Process_Properties
  imports Process_Info
begin

text \<open>
  What reading a process guarantees: the bounded reader gives exactly the first bytes of the file
  however \<open>read(2)\<close> cuts them, a command name cannot disguise the fields behind it, arguments are
  bounded and otherwise complete, no environment variable outside the allowlist is kept, and no
  record mixes two processes that had the same pid.
\<close>

section \<open>The bounded reader\<close>

text \<open>What a read of \<open>data\<close> may come to; \<open>calm\<close> answers neither fail nor interrupt.\<close>

definition calm :: "read_answer list \<Rightarrow> bool" where
  "calm answers \<longleftrightarrow> (\<forall>a\<in>set answers. \<exists>k. a = Gives k)"

definition read_spec :: "nat \<Rightarrow> string \<Rightarrow> read_answer list \<Rightarrow> read_outcome \<Rightarrow> bool" where
  "read_spec limit data answers out \<longleftrightarrow>
     (case ro_contents out of
        None \<Rightarrow> \<exists>e. Failed_with e \<in> set answers
      | Some c \<Rightarrow> c = take limit data \<and> (ro_truncated out \<longrightarrow> limit < length data) \<and>
          (calm answers \<and> limit < length data \<longrightarrow> ro_truncated out))"

lemma read_spec_Cons: "read_spec limit data answers out \<Longrightarrow> read_spec limit data (a # answers) out"
  by (auto simp: read_spec_def calm_def split: option.splits)

lemma probe_calm: "calm answers \<Longrightarrow> probe rest answers \<longleftrightarrow> rest \<noteq> []"
  by (auto simp: probe_def calm_def split: list.split read_answer.split)

lemma read_loop_spec:
  assumes "length got \<le> room" "room \<le> limit" "0 < room \<or> limit = 0"
  shows "read_spec limit (got @ rest) answers (read_loop limit room got rest answers)"
  using assms
proof (induction limit room got rest answers rule: read_loop.induct)
  case (1 limit room got rest answers)
  let ?room = "if length got = room then min limit (room * 2) else room"
  show ?case
  proof (cases "length got = room \<and> limit \<le> room")
    case True
    then have "limit = length got" using "1.prems" by simp
    moreover have "read_loop limit room got rest answers = read_result got (probe rest answers)"
      using True by (simp add: read_loop.simps [of limit room])
    ultimately show ?thesis using probe_calm [of answers rest] by (auto simp: read_spec_def read_result_def probe_def)
  next
    case False
    have room: "length got \<le> ?room" "?room \<le> limit" "0 < ?room \<or> limit = 0" "length got < ?room"
      using False "1.prems" by auto
    show ?thesis
    proof (cases "\<exists>k a. answers = Gives k # a \<or> answers = []")
      case gives: True
      show ?thesis
      proof (cases "rest = []")
        case True
        with False gives have "read_loop limit room got rest answers = read_result got False"
          by (auto simp: read_loop.simps [of limit room] Let_def)
        with True room show ?thesis by (simp add: read_spec_def read_result_def)
      next
        case more: False
        from gives consider (one) k a where "answers = Gives k # a" | (none) "answers = []" by blast
        then show ?thesis
        proof cases
          case one
          let ?n = "min (max 1 k) (?room - length got)"
          have eq: "read_loop limit room got rest answers = read_loop limit ?room (got @ take ?n rest) (drop ?n rest) a"
            by (subst read_loop.simps, subst if_not_P [OF False]) (use one more room(4) in \<open>simp add: Let_def\<close>)
          have "\<not> (rest = [] \<or> ?room \<le> length got)" "length (got @ take ?n rest) \<le> ?room" using more room(1,4) by simp_all
          from "1.IH"(3) [OF False refl one refl this(1) refl this(2) room(2,3)]
          have "read_spec limit (got @ rest) a (read_loop limit ?room (got @ take ?n rest) (drop ?n rest) a)"
            by (simp only: append_assoc append_take_drop_id)
          then show ?thesis using eq one read_spec_Cons by metis
        next
          case none
          let ?n = "?room - length got"
          have eq: "read_loop limit room got rest answers = read_loop limit ?room (got @ take ?n rest) (drop ?n rest) []"
            by (subst read_loop.simps, subst if_not_P [OF False]) (use none more room(4) in \<open>simp add: Let_def\<close>)
          have "\<not> (rest = [] \<or> ?room \<le> length got)" "length (got @ take ?n rest) \<le> ?room" using more room(1,4) by simp_all
          from "1.IH"(1) [OF False refl none this(1) refl this(2) room(2,3)]
          have "read_spec limit (got @ rest) [] (read_loop limit ?room (got @ take ?n rest) (drop ?n rest) [])"
            by (simp only: append_assoc append_take_drop_id)
          then show ?thesis using eq none by metis
        qed
      qed
    next
      case stop: False
      then consider (again) a where "answers = Interrupted # a" | (failed) e a where "answers = Failed_with e # a"
        by (metis list.exhaust read_answer.exhaust)
      then show ?thesis
      proof cases
        case again
        then have "read_loop limit room got rest answers = read_loop limit ?room got rest a"
          by (subst read_loop.simps, subst if_not_P [OF False]) (simp add: Let_def)
        then show ?thesis using "1.IH"(2) [OF False refl again refl] room again by (simp add: read_spec_Cons)
      next
        case failed
        then show ?thesis using False by (auto simp: read_loop.simps [of limit room] Let_def read_failed_def read_spec_def)
      qed
    qed
  qed
qed

text \<open>
  The bounded reader returns exactly the first \<open>limit\<close> bytes of the file, however the kernel
  cuts the reads and however often it interrupts them; it returns nothing only when a read failed.
  It marks the result as cut only when there is more, and always then unless the probe for more was
  itself interrupted.
\<close>

theorem read_bounded_exact:
  "case ro_contents (read_bounded limit (Opened data answers)) of
     None \<Rightarrow> \<exists>e. Failed_with e \<in> set answers
   | Some c \<Rightarrow> c = take limit data \<and> (ro_truncated (read_bounded limit (Opened data answers)) \<longrightarrow> limit < length data) \<and>
       (calm answers \<and> limit < length data \<longrightarrow> ro_truncated (read_bounded limit (Opened data answers)))"
proof -
  have "0 < min limit 4096 \<or> limit = 0" by auto
  then have "read_spec limit ([] @ data) answers (read_loop limit (min limit 4096) [] data answers)"
    by (intro read_loop_spec) simp_all
  then show ?thesis by (simp only: read_bounded.simps read_spec_def append_Nil)
qed

theorem read_bounded_exact_witness:
  "ro_contents (read_bounded 3 (Opened ''abcd'' [Gives 1, Interrupted, Gives 9])) = Some ''abc'' \<and>
   ro_truncated (read_bounded 3 (Opened ''abcd'' [Gives 1, Gives 9]))"
proof -
  have c: "ro_contents (read_bounded 3 (Opened ''abcd'' [Gives 1, Interrupted, Gives 9])) \<noteq> None"
    "ro_contents (read_bounded 3 (Opened ''abcd'' [Gives 1, Gives 9])) \<noteq> None"
    using read_bounded_exact [where limit = 3 and data = "''abcd''" and answers = "[Gives 1, Interrupted, Gives 9]"]
      read_bounded_exact [where limit = 3 and data = "''abcd''" and answers = "[Gives 1, Gives 9]"] by (auto split: option.splits)
  then show ?thesis
    using read_bounded_exact [where limit = 3 and data = "''abcd''" and answers = "[Gives 1, Interrupted, Gives 9]"]
      read_bounded_exact [where limit = 3 and data = "''abcd''" and answers = "[Gives 1, Gives 9]"] by (auto simp: calm_def split: option.splits)
qed

section \<open>The environment\<close>

text \<open>The assignments of an environment block, in order; a later one of the same name does not count.\<close>

definition assignments :: "string \<Rightarrow> (string \<times> string) list" where
  "assignments contents =
     List.map_filter (\<lambda>entry. map_option (\<lambda>i. (take i entry, drop (i + 1) entry)) (find_char CHR ''='' entry)) (cut_all CHR 0x00 contents)"

lemma env_fold:
  "fold (env_entry maximum) entries env k =
     (case env k of
        Some v \<Rightarrow> Some v
      | None \<Rightarrow> if k \<in> set environment_allowlist
                then map_option (take maximum) (map_of (List.map_filter
                  (\<lambda>entry. map_option (\<lambda>i. (take i entry, drop (i + 1) entry)) (find_char CHR ''='' entry)) entries) k)
                else None)"
proof (induction entries arbitrary: env)
  case Nil
  show ?case by (simp split: option.split)
next
  case (Cons entry entries)
  show ?case
    unfolding fold_simps o_apply Cons.IH
    by (auto simp: env_entry_def Let_def split: option.splits)
qed

text \<open>The parts that leave the environment and the identity of the record alone.\<close>

definition core :: "process_info \<Rightarrow> u32 \<times> u32 \<times> u64 \<times> string \<times> bool" where
  "core info = (pi_pid info, pi_ppid info, pi_start_ticks info, pi_comm info, pi_kernel_thread info)"

lemma mark_unavailable_keeps [simp]:
  "pi_env (mark_unavailable f r info) = pi_env info" "core (mark_unavailable f r info) = core info"
  "pi_kernel_thread (mark_unavailable f r info) = pi_kernel_thread info"
  by (simp_all add: mark_unavailable_def core_def)

lemma parse_status_field_keeps: "pi_env (parse_status_field l r info) = pi_env info \<and> core (parse_status_field l r info) = core info"
  by (simp add: parse_status_field_def set_creds_def set_caps_def core_def Let_def split: list.split prod.split option.split bool.split)

lemma parse_status_keeps: "pi_env (parse_status contents info) = pi_env info \<and> core (parse_status contents info) = core info"
proof -
  have "pi_env (fold parse_status_line xs info) = pi_env info \<and> core (fold parse_status_line xs info) = core info" for xs
    by (induction xs arbitrary: info) (auto simp: parse_status_line_def parse_status_field_keeps split: option.split)
  then show ?thesis by (simp add: parse_status_def)
qed

lemma parts_keep_core [simp]:
  "core (read_status_part view info) = core info"
  "core (read_exe_part view info) = core info"
  "core (read_cmdline_part limits view info) = core info"
  "core (read_cwd_part limits view info) = core info"
  "core (read_env_part limits view info) = core info"
  "core (read_image_part limits view info) = core info"
  "core (read_ns_part view info) = core info"
  "core (read_cgroup_part view info) = core info"
  "core (read_ids_part view info) = core info"
proof -
  show exe: "core (read_exe_part view info) = core info" for info
    by (simp add: read_exe_part_def core_def Let_def mark_unavailable_def split: sum.split prod.split)
  show cmd: "core (read_cmdline_part limits view info) = core info" for info
    by (simp add: read_cmdline_part_def core_def Let_def mark_unavailable_def split: option.split prod.split)
  show cwd: "core (read_cwd_part limits view info) = core info" for info
    by (simp add: read_cwd_part_def core_def mark_unavailable_def split: sum.split)
  show env: "core (read_env_part limits view info) = core info" for info
    by (simp add: read_env_part_def core_def Let_def mark_unavailable_def split: option.split)
  show "core (read_status_part view info) = core info"
    using parse_status_keeps by (simp add: read_status_part_def Let_def split: option.split)
  show "core (read_image_part limits view info) = core info"
    using exe cmd cwd env by (simp add: read_image_part_def) (simp add: core_def)
  show "core (read_ns_part view info) = core info"
    by (simp add: read_ns_part_def core_def Let_def mark_unavailable_def)
  show "core (read_cgroup_part view info) = core info"
    by (simp add: read_cgroup_part_def core_def Let_def mark_unavailable_def split: option.split)
  show "core (read_ids_part view info) = core info"
    by (simp add: read_ids_part_def core_def set_creds_def)
qed

lemma parts_keep_env [simp]:
  "pi_env (read_status_part view info) = pi_env info"
  "pi_env (read_exe_part view info) = pi_env info"
  "pi_env (read_cmdline_part limits view info) = pi_env info"
  "pi_env (read_cwd_part limits view info) = pi_env info"
  "pi_env (read_ns_part view info) = pi_env info"
  "pi_env (read_cgroup_part view info) = pi_env info"
  "pi_env (read_ids_part view info) = pi_env info"
  using parse_status_keeps
  by (simp_all add: read_status_part_def read_exe_part_def read_cmdline_part_def read_cwd_part_def read_ns_part_def
      read_cgroup_part_def read_ids_part_def set_creds_def mark_unavailable_def Let_def split: sum.split prod.split option.split)

lemma parts_keep_kernel_thread [simp]:
  "pi_kernel_thread (read_exe_part view info) = pi_kernel_thread info"
  "pi_kernel_thread (read_cmdline_part limits view info) = pi_kernel_thread info"
  "pi_kernel_thread (read_cwd_part limits view info) = pi_kernel_thread info"
  using parts_keep_core(2) [of view info] parts_keep_core(3,4) [of limits view info] by (simp_all only: core_def prod.inject)

lemma read_env_exact:
  "pi_env (read_env_part limits view info) =
     (if \<not> pl_collect_environment limits then pi_env info
      else case ro_contents (read_bounded 65536 (pv_environ view)) of
             None \<Rightarrow> pi_env info
           | Some contents \<Rightarrow> fold (env_entry (pl_maximum_path_bytes limits)) (cut_all CHR 0x00 contents) (pi_env info))"
  by (simp add: read_env_part_def Let_def split: option.split)

text \<open>The record before the last check of the identity.\<close>

lemma read_process_Inr:
  assumes "read_process limits pid view = Inr info"
  obtains contents sf where "ro_contents (read_bounded 4096 (pv_stat view)) = Some contents" "parse_stat contents = Some sf"
    "info = read_ids_part view (read_cgroup_part view (read_ns_part view (read_image_part limits view
                            (read_status_part view (info_from_stat pid sf)))))"
    "read_start_ticks (pv_stat_again view) = None \<or> read_start_ticks (pv_stat_again view) = Some (pi_start_ticks info)"
  using assms by (auto simp: read_process_def Let_def split: option.splits if_splits)

text \<open>
  The environment is kept for the allowlisted variables only and for those exactly: a variable
  is in the record just when the collection is on, the process is no kernel thread, its environment
  could be read and assigns the variable, and the name is on the list; its value is that of the
  first assignment, cut at the limit. No other variable is ever kept, whatever a process puts there.
\<close>

theorem read_process_env_allowlisted:
  assumes "read_process limits pid view = Inr info"
  shows "pi_env info name =
    (if \<not> pl_collect_environment limits \<or> pi_kernel_thread info \<or> name \<notin> set environment_allowlist then None
     else case ro_contents (read_bounded 65536 (pv_environ view)) of
            None \<Rightarrow> None
          | Some contents \<Rightarrow> map_option (take (pl_maximum_path_bytes limits)) (map_of (assignments contents) name))"
proof -
  from assms obtain contents sf where info: "info = read_ids_part view (read_cgroup_part view (read_ns_part view (read_image_part limits view
                            (read_status_part view (info_from_stat pid sf)))))"
    by (rule read_process_Inr)
  define start where "start = read_status_part view (info_from_stat pid sf)"
  have none: "pi_env start = Map.empty" by (simp add: start_def info_from_stat_def empty_info_def)
  have "core info = core start" by (simp add: info start_def)
  then have thread: "pi_kernel_thread info = pi_kernel_thread start" by (simp add: core_def)
  have "pi_env info = pi_env (read_image_part limits view start)" by (simp add: info start_def)
  then show ?thesis
    using none by (simp add: thread read_image_part_def read_env_exact env_fold assignments_def split: option.split)
qed

lemma read_process_core:
  assumes "read_process limits pid view = Inr info"
  obtains sf where "core info = core (info_from_stat pid sf)" "read_start_ticks (pv_stat view) = Some (sf_start_ticks sf)"
    "read_start_ticks (pv_stat_again view) = None \<or> read_start_ticks (pv_stat_again view) = Some (pi_start_ticks info)"
proof -
  from assms obtain contents sf where read: "ro_contents (read_bounded 4096 (pv_stat view)) = Some contents" "parse_stat contents = Some sf"
    and info: "info = read_ids_part view (read_cgroup_part view (read_ns_part view (read_image_part limits view
                            (read_status_part view (info_from_stat pid sf)))))"
    and again: "read_start_ticks (pv_stat_again view) = None \<or> read_start_ticks (pv_stat_again view) = Some (pi_start_ticks info)"
    by (rule read_process_Inr)
  have "core info = core (info_from_stat pid sf)" by (simp add: info)
  moreover have "read_start_ticks (pv_stat view) = Some (sf_start_ticks sf)" using read by (simp add: read_start_ticks_def)
  ultimately show thesis using again that by blast
qed

lemma read_process_pid: "read_process limits pid view = Inr info \<Longrightarrow> pi_pid info = pid"
  by (erule read_process_core) (simp add: core_def info_from_stat_def)

text \<open>
  Every outcome of a read is known: it succeeds just
  when \<open>stat\<close> could be read and parsed first and, where it can still be read after all the other
  files, shows the same start time; the record then has the pid asked for and that start time.
  When the start time changed in between, the pid was reused and the read fails. Where the second
  reading of \<open>stat\<close> fails, the process had ended, and files read after its end may be of a later process.
\<close>

theorem read_process_identity:
  "case read_start_ticks (pv_stat view) of
     None \<Rightarrow> read_process limits pid view =
       Inl (if ro_contents (read_bounded 4096 (pv_stat view)) = None then Error target_mismatch ''process is not present''
            else Error corrupt_data ''unparseable stat'')
   | Some ticks \<Rightarrow>
       if read_start_ticks (pv_stat_again view) = None \<or> read_start_ticks (pv_stat_again view) = Some ticks
       then \<exists>info. read_process limits pid view = Inr info \<and> pi_pid info = pid \<and> pi_start_ticks info = ticks
       else read_process limits pid view = Inl (Error target_mismatch ''pid was reused during the read'')"
proof -
  have "core (read_ids_part view (read_cgroup_part view (read_ns_part view (read_image_part limits view
      (read_status_part view (info_from_stat pid sf)))))) = core (info_from_stat pid sf)" for sf
    by simp
  then have kept: "pi_pid (read_ids_part view (read_cgroup_part view (read_ns_part view (read_image_part limits view
      (read_status_part view (info_from_stat pid sf)))))) = pid"
    "pi_start_ticks (read_ids_part view (read_cgroup_part view (read_ns_part view (read_image_part limits view
      (read_status_part view (info_from_stat pid sf)))))) = sf_start_ticks sf" for sf
    by (simp_all add: core_def info_from_stat_def)
  show ?thesis
    by (cases "ro_contents (read_bounded 4096 (pv_stat view))"; cases "read_start_ticks (pv_stat_again view)")
      (auto simp: read_process_def read_start_ticks_def [of "pv_stat view"] Let_def kept split: option.split)
qed

section \<open>Arguments\<close>

lemma cmdline_loop_spec:
  assumes "length args \<le> ma" "sum_list (map length args) = used" "used \<le> mb"
  shows "case cmdline_loop ma mb pending args used False of (out, trunc) \<Rightarrow>
    length out \<le> ma \<and> sum_list (map length out) \<le> mb \<and> (\<not> trunc \<longleftrightarrow> out = args @ pending) \<and>
    (trunc \<longleftrightarrow> ma < length (args @ pending) \<or> mb < sum_list (map length (args @ pending)))"
  using assms
proof (induction pending arbitrary: args used)
  case (Cons arg pending)
  show ?case
  proof (cases "length args = ma \<or> mb < used + length arg")
    case True
    then show ?thesis using Cons.prems by (auto simp: not_le min_def dest: arg_cong [of _ _ "\<lambda>xs. sum_list (map length xs)"])
  next
    case False
    then show ?thesis using Cons.IH [of "args @ [arg]" "used + length arg"] Cons.prems by (auto simp: split_beta)
  qed
qed simp

text \<open>
  The recorded arguments are bounded and otherwise complete: at most the configured number of
  arguments and of bytes, and the mark that they were cut is set exactly when the arguments, all
  the NUL-ended strings of the command line in order, do not fit those bounds; unmarked, they are
  exactly those.
\<close>

theorem split_cmdline_exact:
  "case split_cmdline contents maximum_args maximum_bytes of (args, trunc) \<Rightarrow>
     length args \<le> maximum_args \<and> sum_list (map length args) \<le> maximum_bytes \<and>
     (\<not> trunc \<longleftrightarrow> args = cut_all CHR 0x00 contents) \<and>
     (trunc \<longleftrightarrow> maximum_args < length (cut_all CHR 0x00 contents) \<or> maximum_bytes < sum_list (map length (cut_all CHR 0x00 contents)))"
  using cmdline_loop_spec [of "[]" maximum_args 0 maximum_bytes "cut_all CHR 0x00 contents"] by (simp add: split_cmdline_def)

section \<open>The name of a command\<close>

lemma find_if_skip: "\<forall>x\<in>set xs. \<not> P x \<Longrightarrow> P y \<Longrightarrow> find_if P (xs @ y # ys) = Some (length xs)"
  by (induction xs) auto

lemma find_char_at: "c \<notin> set pre \<Longrightarrow> find_char c (pre @ c # rest) = Some (length pre)"
  by (auto simp: find_char_def intro: find_if_skip)

lemma rfind_char_at:
  assumes "c \<notin> set rest"
  shows "rfind_char c (pre @ c # rest) = Some (length pre)"
proof -
  have "find_if (\<lambda>x. x = c) (rev rest @ c # rev pre) = Some (length (rev rest))"
    using assms by (intro find_if_skip) auto
  then show ?thesis by (simp add: rfind_char_def)
qed

text \<open>
  A process cannot disguise itself with its name: whatever bytes the command name holds,
  parentheses and spaces included, \<open>stat\<close> is parsed to exactly that name and to the same other fields
  (state, parent, session, start time and the rest) as with an empty name.
\<close>

theorem parse_stat_name_opaque:
  assumes "CHR ''('' \<notin> set pre" "CHR '')'' \<notin> set rest"
  shows "parse_stat (pre @ ''('' @ comm @ '')'' @ rest) =
    map_option (\<lambda>sf. sf\<lparr>sf_comm := comm\<rparr>) (parse_stat (pre @ ''('' @ '')'' @ rest))"
proof -
  have at: "find_char CHR ''('' (pre @ ''('' @ x @ '')'' @ rest) = Some (length pre)"
    "rfind_char CHR '')'' (pre @ ''('' @ x @ '')'' @ rest) = Some (length pre + 1 + length x)" for x
    using find_char_at [OF assms(1), of "x @ '')'' @ rest"] rfind_char_at [OF assms(2), of "pre @ ''('' @ x"] by simp_all
  have parsed: "parse_stat (pre @ ''('' @ x @ '')'' @ rest) = (if rest = [] then None else stat_values x (split_whitespace rest))" for x
    unfolding parse_stat_def at by simp
  have "stat_values comm values = map_option (\<lambda>sf. sf\<lparr>sf_comm := comm\<rparr>) (stat_values [] values)" for "values"
    unfolding stat_values_def by (simp split: option.split prod.split bool.split)
  then show ?thesis using parsed [of comm] parsed [of "[]"] by simp
qed

section \<open>A sample process\<close>

definition sample_stat :: string where
  "sample_stat = ''7 ('' @ ''a) R 9 ('' @ '') S 1 7 7 -1 0 0 0 0 0 0 0 0 0 0 0 0 1 0 99''"

definition sample_view :: proc_view where
  "sample_view = \<lparr>pv_stat = Opened sample_stat [], pv_status = Unopenable 13, pv_exe = Inl 13, pv_exe_status = None,
     pv_cmdline = Unopenable 2, pv_cwd = Inl 2, pv_environ = Opened (''PATH=/bin'' @ [CHR 0x00] @ ''SECRET=1'') [],
     pv_ns = (\<lambda>_. Inl 13), pv_cgroup = Unopenable 2, pv_loginuid = Unopenable 2, pv_sessionid = Unopenable 2,
     pv_stat_again = Unopenable 2\<rparr>"

lemma number_digits [simp]: "digit_of 10 c \<noteq> None \<longleftrightarrow> is_digit c"
  by (auto simp: digit_of_def is_digit_def Let_def)

lemma sample_values:
  "split_whitespace '' S 1 7 7 -1 0 0 0 0 0 0 0 0 0 0 0 0 1 0 99'' =
    [''S'', ''1'', ''7'', ''7'', ''-1'', ''0'', ''0'', ''0'', ''0'', ''0'', ''0'', ''0'', ''0'', ''0'', ''0'', ''0'', ''0'', ''1'', ''0'', ''99'']"
  by code_simp

lemma sample_numbers:
  "parse_u32 ''1'' = Some 1" "parse_u32 ''7'' = Some 7" "parse_u64 ''0'' = Some 0" "parse_u64 ''99'' = Some 99" "parse_signed 64 ''-1'' = (Some (- 1), True)"
  by (simp_all add: parse_u32_def parse_u64_def parse_unsigned_def parse_signed_def trim_def blank_def space_def is_digit_def digit_of_def number_of_def Let_def)

lemma sample_parsed:
  "stat_values comm (split_whitespace '' S 1 7 7 -1 0 0 0 0 0 0 0 0 0 0 0 0 1 0 99'') =
    Some \<lparr>sf_comm = comm, sf_state = CHR ''S'', sf_ppid = 1, sf_pgid = 7, sf_sid = 7, sf_tty_nr = - 1, sf_flags = 0, sf_threads = 1, sf_start_ticks = 99\<rparr>"
  unfolding sample_values by (simp add: stat_values_def sample_numbers)

theorem parse_stat_name_opaque_witness:
  "parse_stat (''7 '' @ ''('' @ ''a) R 9 ('' @ '')'' @ '' S 1 7 7 -1 0 0 0 0 0 0 0 0 0 0 0 0 1 0 99'') =
    map_option (\<lambda>sf. sf\<lparr>sf_comm := ''a) R 9 (''\<rparr>)
      (parse_stat (''7 '' @ ''('' @ '')'' @ '' S 1 7 7 -1 0 0 0 0 0 0 0 0 0 0 0 0 1 0 99''))"
  by (rule parse_stat_name_opaque) simp_all

lemma sample_stat_parsed: "\<exists>sf. parse_stat sample_stat = Some sf \<and> sf_flags sf = 0 \<and> sf_start_ticks sf = 99"
proof -
  have "find_char CHR ''('' sample_stat = Some 2" "rfind_char CHR '')'' sample_stat = Some 11"
    by (simp_all add: sample_stat_def find_char_def rfind_char_def)
  then show ?thesis using sample_parsed by (simp add: parse_stat_def sample_stat_def)
qed

lemma read_bounded_all:
  assumes "length data \<le> limit"
  shows "ro_contents (read_bounded limit (Opened data [])) = Some data"
proof -
  have "0 < min limit 4096 \<or> limit = 0" by auto
  then have "read_spec limit ([] @ data) [] (read_loop limit (min limit 4096) [] data [])" by (intro read_loop_spec) simp_all
  with assms show ?thesis by (auto simp: read_spec_def split: option.splits)
qed

definition sample_limits :: procfs_limits where
  "sample_limits = \<lparr>pl_maximum_args = 64, pl_maximum_args_bytes = 4096, pl_maximum_path_bytes = 4096, pl_collect_environment = True\<rparr>"

lemma sample_read: "\<exists>info. read_process sample_limits 7 sample_view = Inr info \<and> \<not> pi_kernel_thread info"
proof -
  have "ro_contents (read_bounded 4096 (pv_stat sample_view)) = Some sample_stat"
    using read_bounded_all [of sample_stat 4096] by (simp add: sample_view_def sample_stat_def)
  moreover have "read_start_ticks (pv_stat_again sample_view) = None"
    by (simp add: sample_view_def read_start_ticks_def read_failed_def)
  moreover obtain sf where sf: "parse_stat sample_stat = Some sf" "sf_flags sf = 0" using sample_stat_parsed by blast
  moreover have "pi_kernel_thread (read_ids_part sample_view (read_cgroup_part sample_view (read_ns_part sample_view
      (read_image_part sample_limits sample_view (read_status_part sample_view (info_from_stat 7 sf)))))) = pi_kernel_thread (info_from_stat 7 sf)"
    using parts_keep_core by (simp only: core_def prod.inject)
  ultimately show ?thesis by (auto simp: read_process_def Let_def info_from_stat_def)
qed

theorem read_process_env_allowlisted_witness:
  "\<exists>info. read_process sample_limits 7 sample_view = Inr info \<and> pi_env info ''SECRET'' = None \<and> pi_env info ''PATH'' = Some ''/bin''"
proof -
  obtain info where info: "read_process sample_limits 7 sample_view = Inr info" "\<not> pi_kernel_thread info" using sample_read by blast
  have environ: "ro_contents (read_bounded 65536 (pv_environ sample_view)) = Some (''PATH=/bin'' @ [CHR 0x00] @ ''SECRET=1'')"
    using read_bounded_all [of "''PATH=/bin'' @ [CHR 0x00] @ ''SECRET=1''" 65536] by (simp add: sample_view_def)
  have "pi_env info ''SECRET'' = None"
    using read_process_env_allowlisted [OF info(1), of "''SECRET''"] by (simp add: environment_allowlist_def)
  moreover have "pi_env info ''PATH'' = Some ''/bin''"
    unfolding read_process_env_allowlisted [OF info(1), of "''PATH''"] environ
    using info(2) by (simp add: sample_limits_def environment_allowlist_def assignments_def cut_all.simps map_filter_simps find_char_def)
  ultimately show ?thesis using info(1) by blast
qed

end
