(* ===== verification/Sha256.thy ===== *)
theory Sha256
  imports Json_Text
begin

text \<open>
  The agent's own SHA-256, \<open>sha256_hex\<close> of \<^verbatim>\<open>src/event.cpp\<close>, which names process entities and
  fingerprints evidence. The loops of the source are shown to compute the function the standard
  (FIPS 180-4) defines by recursion.
\<close>

section \<open>The code\<close>

definition sha256_constants :: "u32 list" where
  "sha256_constants =
     [0x428a2f98,0x71374491,0xb5c0fbcf,0xe9b5dba5,0x3956c25b,0x59f111f1,0x923f82a4,0xab1c5ed5] @
     [0xd807aa98,0x12835b01,0x243185be,0x550c7dc3,0x72be5d74,0x80deb1fe,0x9bdc06a7,0xc19bf174] @
     [0xe49b69c1,0xefbe4786,0x0fc19dc6,0x240ca1cc,0x2de92c6f,0x4a7484aa,0x5cb0a9dc,0x76f988da] @
     [0x983e5152,0xa831c66d,0xb00327c8,0xbf597fc7,0xc6e00bf3,0xd5a79147,0x06ca6351,0x14292967] @
     [0x27b70a85,0x2e1b2138,0x4d2c6dfc,0x53380d13,0x650a7354,0x766a0abb,0x81c2c92e,0x92722c85] @
     [0xa2bfe8a1,0xa81a664b,0xc24b8b70,0xc76c51a3,0xd192e819,0xd6990624,0xf40e3585,0x106aa070] @
     [0x19a4c116,0x1e376c08,0x2748774c,0x34b0bcb5,0x391c0cb3,0x4ed8aa4a,0x5b9cca4f,0x682e6ff3] @
     [0x748f82ee,0x78a5636f,0x84c87814,0x8cc70208,0x90befffa,0xa4506ceb,0xbef9a3f7,0xc67178f2]"

definition rotate_right :: "u32 \<Rightarrow> nat \<Rightarrow> u32" where
  "rotate_right v bits = drop_bit bits v OR push_bit (32 - bits) v"

function pad_zeros :: "byte list \<Rightarrow> byte list" where
  "pad_zeros input = (if length input mod 64 \<noteq> 56 then pad_zeros (input @ [0]) else input)"
  by pat_completeness auto
termination
proof (relation "measure (\<lambda>input. if length input mod 64 \<le> 56 then 56 - length input mod 64 else 120 - length input mod 64)")
  fix input :: "byte list"
  define r where "r = length input mod 64"
  assume "length input mod 64 \<noteq> 56"
  then have "r \<noteq> 56" "r < 64" by (simp_all add: r_def)
  moreover have "length (input @ [0]) mod 64 = (if Suc r = 64 then 0 else Suc r)" by (simp add: r_def mod_Suc)
  ultimately show "(input @ [0], input) \<in>
      measure (\<lambda>input. if length input mod 64 \<le> 56 then 56 - length input mod 64 else 120 - length input mod 64)"
    unfolding in_measure r_def [symmetric] by (cases "Suc r = 64") auto
qed simp

declare pad_zeros.simps [simp del]

definition sha256_padded :: "byte list \<Rightarrow> byte list" where
  "sha256_padded input =
     (let original_bits = of_nat (length input) * 8 :: u64
      in pad_zeros (input @ [0x80]) @ map (\<lambda>shift. ucast (drop_bit shift original_bits AND 0xFF)) [56, 48, 40, 32, 24, 16, 8, 0])"

definition block_word :: "byte list \<Rightarrow> nat \<Rightarrow> nat \<Rightarrow> u32" where
  "block_word input offset i =
     push_bit 24 (ucast (input ! (offset + i * 4))) OR push_bit 16 (ucast (input ! (offset + i * 4 + 1))) OR
     push_bit 8 (ucast (input ! (offset + i * 4 + 2))) OR ucast (input ! (offset + i * 4 + 3))"

definition extend_word :: "nat \<Rightarrow> u32 list \<Rightarrow> u32" where
  "extend_word i ws =
     (let s0 = rotate_right (ws ! (i - 15)) 7 XOR rotate_right (ws ! (i - 15)) 18 XOR drop_bit 3 (ws ! (i - 15));
          s1 = rotate_right (ws ! (i - 2)) 17 XOR rotate_right (ws ! (i - 2)) 19 XOR drop_bit 10 (ws ! (i - 2))
      in ws ! (i - 16) + s0 + ws ! (i - 7) + s1)"

definition block_words :: "byte list \<Rightarrow> nat \<Rightarrow> u32 list" where
  "block_words input offset =
     fold (\<lambda>i ws. ws @ [extend_word i ws]) [16..<64] (map (block_word input offset) [0..<16])"

type_synonym sha_state = "u32 \<times> u32 \<times> u32 \<times> u32 \<times> u32 \<times> u32 \<times> u32 \<times> u32"

definition sha_round :: "u32 \<Rightarrow> u32 \<Rightarrow> sha_state \<Rightarrow> sha_state" where
  "sha_round k w st =
     (case st of (a, b, c, d, e, f, g, h) \<Rightarrow>
        let s1 = rotate_right e 6 XOR rotate_right e 11 XOR rotate_right e 25;
            choice = (e AND f) XOR (NOT e AND g);
            temp1 = h + s1 + choice + k + w;
            s0 = rotate_right a 2 XOR rotate_right a 13 XOR rotate_right a 22;
            majority = (a AND b) XOR (a AND c) XOR (b AND c);
            temp2 = s0 + majority
        in (temp1 + temp2, a, b, c, d + temp1, e, f, g))"

definition add_state :: "sha_state \<Rightarrow> sha_state \<Rightarrow> sha_state" where
  "add_state x y =
     (case x of (a, b, c, d, e, f, g, h) \<Rightarrow> case y of (a', b', c', d', e', f', g', h') \<Rightarrow>
        (a + a', b + b', c + c', d + d', e + e', f + f', g + g', h + h'))"

definition sha_block :: "byte list \<Rightarrow> nat \<Rightarrow> sha_state \<Rightarrow> sha_state" where
  "sha_block input offset hash =
     (let ws = block_words input offset
      in add_state hash (fold (\<lambda>i. sha_round (sha256_constants ! i) (ws ! i)) [0..<64] hash))"

definition initial_hash :: sha_state where
  "initial_hash = (0x6a09e667, 0xbb67ae85, 0x3c6ef372, 0xa54ff53a, 0x510e527f, 0x9b05688c, 0x1f83d9ab, 0x5be0cd19)"

text \<open>The loop over the blocks: \<open>offset < input.size()\<close> in steps of 64.\<close>

function sha_blocks :: "byte list \<Rightarrow> nat \<Rightarrow> sha_state \<Rightarrow> sha_state" where
  "sha_blocks input offset hash =
     (if offset < length input then sha_blocks input (offset + 64) (sha_block input offset hash) else hash)"
  by pat_completeness auto
termination by (relation "measure (\<lambda>(input, offset, _). length input - offset)") auto

declare sha_blocks.simps [simp del]

definition hex_char :: "u32 \<Rightarrow> char" where
  "hex_char d = ''0123456789abcdef'' ! unat d"

definition hex8 :: "u32 \<Rightarrow> string" where
  "hex8 w = map (\<lambda>shift. hex_char (drop_bit shift w AND 0x0F)) [28, 24, 20, 16, 12, 8, 4, 0]"

definition sha256_hex :: "byte list \<Rightarrow> string" where
  "sha256_hex input =
     (case sha_blocks (sha256_padded input) 0 initial_hash of (a, b, c, d, e, f, g, h) \<Rightarrow>
        concat (map hex8 [a, b, c, d, e, f, g, h]))"

section \<open>The standard\<close>

text \<open>Padding: the message, a one bit, the least number of zero bits, the length in bits.\<close>

definition fips_padding :: "byte list \<Rightarrow> byte list" where
  "fips_padding m =
     m @ [0x80] @ replicate (LEAST k. (length m + 1 + k + 8) mod 64 = 0) 0 @
     map (\<lambda>i. of_nat (8 * length m div 256 ^ (7 - i))) [0..<8]"

fun schedule :: "(nat \<Rightarrow> u32) \<Rightarrow> nat \<Rightarrow> u32" where
  "schedule m t =
     (if t < 16 then m t
      else let x = schedule m (t - 2); y = schedule m (t - 15) in
        (word_rotr 17 x XOR word_rotr 19 x XOR drop_bit 10 x) + schedule m (t - 7) +
        (word_rotr 7 y XOR word_rotr 18 y XOR drop_bit 3 y) + schedule m (t - 16))"

declare schedule.simps [simp del]

primrec rounds :: "(nat \<Rightarrow> u32) \<Rightarrow> nat \<Rightarrow> sha_state \<Rightarrow> sha_state" where
  "rounds w 0 st = st"
| "rounds w (Suc t) st =
     (case rounds w t st of (a, b, c, d, e, f, g, h) \<Rightarrow>
        let t1 = h + (word_rotr 6 e XOR word_rotr 11 e XOR word_rotr 25 e) + ((e AND f) XOR (NOT e AND g)) + sha256_constants ! t + w t;
            t2 = (word_rotr 2 a XOR word_rotr 13 a XOR word_rotr 22 a) + ((a AND b) XOR (a AND c) XOR (b AND c))
        in (t1 + t2, a, b, c, d + t1, e, f, g))"

definition fips_word :: "byte list \<Rightarrow> nat \<Rightarrow> u32" where
  "fips_word block i = of_nat (\<Sum>j<4. unat (block ! (4 * i + j)) * 256 ^ (3 - j))"

fun fips_blocks :: "byte list list \<Rightarrow> sha_state \<Rightarrow> sha_state" where
  "fips_blocks [] hash = hash"
| "fips_blocks (b # bs) hash = fips_blocks bs (add_state hash (rounds (schedule (fips_word b)) 64 hash))"

definition chunks64 :: "byte list \<Rightarrow> byte list list" where
  "chunks64 m = map (\<lambda>i. take 64 (drop (64 * i) m)) [0..<length m div 64]"

definition fips_digest :: "byte list \<Rightarrow> sha_state" where
  "fips_digest m = fips_blocks (chunks64 (fips_padding m)) initial_hash"

section \<open>The code computes the standard\<close>

lemma rotate_right_rotr:
  assumes "0 < n" "n < 32"
  shows "rotate_right v n = word_rotr n v"
proof (rule bit_word_eqI)
  fix i
  assume "i < LENGTH(32)"
  then have i: "i < 32" by simp
  show "bit (rotate_right v n) i \<longleftrightarrow> bit (word_rotr n v) i"
  proof (cases "i + n < 32")
    case True
    with i assms show ?thesis by (auto simp: rotate_right_def bit_simps add.commute)
  next
    case False
    with i assms have "(i + n) mod 32 = i + n - 32" by (simp add: mod_if)
    moreover have "i - (32 - n) = i + n - 32" "32 - n \<le> i" using False assms by simp_all
    moreover have "\<not> bit v (n + i)" using False bit_imp_le_length [of v "n + i"] by auto
    ultimately show ?thesis using i by (simp add: rotate_right_def bit_simps)
  qed
qed

lemma word_of_bytes:
  fixes a b c d :: byte
  shows "push_bit 24 (ucast a) OR push_bit 16 (ucast b) OR push_bit 8 (ucast c) OR (ucast d :: u32) =
    of_nat (unat a * 256 ^ 3 + unat b * 256 ^ 2 + unat c * 256 + unat d)"
proof -
  have low: "\<not> bit x n" if "8 \<le> n" for x :: byte and n using that bit_imp_le_length [of x n] by auto
  have cd: "push_bit 8 (ucast c) OR ucast d = push_bit 8 (ucast c) + (ucast d :: u32)"
    by (rule disjunctive_add_eq_or [symmetric]) (rule bit_word_eqI, auto simp: bit_simps low)
  have bcd: "push_bit 16 (ucast b) OR (push_bit 8 (ucast c) OR ucast d) = push_bit 16 (ucast b) + (push_bit 8 (ucast c) + (ucast d :: u32))"
    unfolding cd [symmetric] by (rule disjunctive_add_eq_or [symmetric]) (rule bit_word_eqI, auto simp: bit_simps low)
  have "push_bit 24 (ucast a) OR (push_bit 16 (ucast b) OR (push_bit 8 (ucast c) OR ucast d)) =
      push_bit 24 (ucast a) + (push_bit 16 (ucast b) OR (push_bit 8 (ucast c) OR (ucast d :: u32)))"
    by (rule disjunctive_add_eq_or [symmetric]) (rule bit_word_eqI, auto simp: bit_simps low)
  also have "\<dots> = push_bit 24 (ucast a) + (push_bit 16 (ucast b) + (push_bit 8 (ucast c) + (ucast d :: u32)))"
    by (simp only: bcd)
  also have "\<dots> = of_nat (unat a * 256 ^ 3 + unat b * 256 ^ 2 + unat c * 256 + unat d)"
    by (simp add: push_bit_eq_mult ac_simps)
  finally show ?thesis by (simp add: or.assoc)
qed

lemma sum_four: "(\<Sum>j<4. f j) = f 0 + f 1 + f 2 + f (3 :: nat)" for f :: "nat \<Rightarrow> nat"
  by (simp add: eval_nat_numeral)

lemma block_word_fips:
  assumes "offset + 64 \<le> length input" "i < 16"
  shows "block_word input offset i = fips_word (take 64 (drop offset input)) i"
proof -
  have at: "take 64 (drop offset input) ! (4 * i + j) = input ! (offset + i * 4 + j)" if "j < 4" for j
    using that assms by (simp add: ac_simps)
  have "fips_word (take 64 (drop offset input)) i =
      of_nat (unat (input ! (offset + i * 4)) * 256 ^ 3 + unat (input ! (offset + i * 4 + 1)) * 256 ^ 2 +
        unat (input ! (offset + i * 4 + 2)) * 256 + unat (input ! (offset + i * 4 + 3)))"
    using at [of 0] at [of 1] at [of 2] at [of 3] by (simp add: fips_word_def sum_four)
  then show ?thesis by (simp only: block_word_def word_of_bytes)
qed

lemma extend_words:
  assumes "16 \<le> n" "length ws = 16" "\<forall>t<16. ws ! t = m t"
  shows "length (fold (\<lambda>i ws. ws @ [extend_word i ws]) [16..<n] ws) = n \<and>
    (\<forall>t<n. fold (\<lambda>i ws. ws @ [extend_word i ws]) [16..<n] ws ! t = schedule m t)"
  using assms(1)
proof (induction n rule: dec_induct)
  case base
  show ?case using assms(2,3) by (simp add: schedule.simps [of m])
next
  case (step n)
  let ?ws = "fold (\<lambda>i ws. ws @ [extend_word i ws]) [16..<n] ws"
  have "extend_word n ?ws = schedule m n"
    using step by (simp add: extend_word_def schedule.simps [of m n] rotate_right_rotr Let_def ac_simps)
  then show ?case using step by (auto simp: nth_append less_Suc_eq)
qed

lemma fold_rounds:
  assumes "\<forall>t<n. ws ! t = w t"
  shows "fold (\<lambda>i. sha_round (sha256_constants ! i) (ws ! i)) [0..<n] st = rounds w n st"
  using assms
proof (induction n)
  case (Suc n)
  have "sha_round (sha256_constants ! n) (w n) st' = (case st' of (a, b, c, d, e, f, g, h) \<Rightarrow>
        let t1 = h + (word_rotr 6 e XOR word_rotr 11 e XOR word_rotr 25 e) + ((e AND f) XOR (NOT e AND g)) + sha256_constants ! n + w n;
            t2 = (word_rotr 2 a XOR word_rotr 13 a XOR word_rotr 22 a) + ((a AND b) XOR (a AND c) XOR (b AND c))
        in (t1 + t2, a, b, c, d + t1, e, f, g))" for st'
    by (simp add: sha_round_def rotate_right_rotr Let_def split: prod.split)
  with Suc show ?case by simp
qed simp

lemma sha_block_fips:
  assumes "offset + 64 \<le> length input"
  shows "sha_block input offset hash = add_state hash (rounds (schedule (fips_word (take 64 (drop offset input)))) 64 hash)"
proof -
  let ?m = "fips_word (take 64 (drop offset input))" and ?ws = "map (block_word input offset) [0..<16]"
  have len: "length ?ws = 16" by (simp only: length_map length_upt)
  have first: "\<forall>t<16. ?ws ! t = ?m t"
  proof (intro allI impI)
    fix t :: nat
    assume "t < 16"
    then have "?ws ! t = block_word input offset t" by (subst nth_map) (simp_all only: length_upt nth_upt add_0 diff_zero)
    also have "\<dots> = ?m t" using assms \<open>t < 16\<close> by (rule block_word_fips)
    finally show "?ws ! t = ?m t" .
  qed
  have "(16 :: nat) \<le> 64" by simp
  from conjunct2 [OF extend_words [OF this len first]]
  have "\<forall>t<64. block_words input offset ! t = schedule ?m t" unfolding block_words_def .
  from fold_rounds [OF this] show ?thesis unfolding sha_block_def Let_def by (rule arg_cong)
qed

lemma sha_blocks_fips:
  assumes "length input = 64 * n" "k \<le> n"
  shows "sha_blocks input (64 * k) hash = fips_blocks (map (\<lambda>i. take 64 (drop (64 * i) input)) [k..<n]) hash"
  using assms(2)
proof (induction k arbitrary: hash rule: inc_induct)
  case base
  then show ?case using assms(1) by (simp add: sha_blocks.simps [of input])
next
  case (step k)
  then have "sha_block input (64 * k) hash = add_state hash (rounds (schedule (fips_word (take 64 (drop (64 * k) input)))) 64 hash)"
    using assms(1) by (intro sha_block_fips) simp
  then show ?case using step assms(1) by (subst sha_blocks.simps) (simp add: upt_conv_Cons add.commute)
qed

lemma pad_zeros_replicate:
  "\<exists>k. pad_zeros input = input @ replicate k 0 \<and> (length input + k) mod 64 = 56 \<and> (\<forall>j<k. (length input + j) mod 64 \<noteq> 56)"
proof (induction input rule: pad_zeros.induct)
  case (1 input)
  show ?case
  proof (cases "length input mod 64 = 56")
    case True
    then show ?thesis by (intro exI [of _ 0]) (simp add: pad_zeros.simps [of input])
  next
    case False
    with 1 obtain k where k: "pad_zeros (input @ [0]) = (input @ [0]) @ replicate k 0" "(length (input @ [0]) + k) mod 64 = 56"
        "\<forall>j<k. (length (input @ [0]) + j) mod 64 \<noteq> 56"
      by blast
    have "(length input + j) mod 64 \<noteq> 56" if "j < Suc k" for j
      using that k(3) False by (cases j) auto
    with k False show ?thesis
      by (intro exI [of _ "Suc k"]) (simp add: pad_zeros.simps [of input])
  qed
qed

lemma length_byte:
  assumes "shift + 8 \<le> 64"
  shows "(ucast (drop_bit shift (of_nat n :: u64) AND 0xFF) :: byte) = of_nat (n div 2 ^ shift)"
proof (rule bit_word_eqI)
  fix i
  assume "i < LENGTH(8)"
  then have i: "i < 8" by simp
  have mask: "(0xFF :: u64) = mask 8" by (simp add: mask_eq_exp_minus_1)
  show "bit (ucast (drop_bit shift (of_nat n :: u64) AND 0xFF) :: byte) i \<longleftrightarrow> bit (of_nat (n div 2 ^ shift) :: byte) i"
    unfolding mask using i assms
    by (simp add: bit_simps drop_bit_eq_div [symmetric] ac_simps)
qed

lemma mod_56: "(x :: nat) mod 64 = 56 \<longleftrightarrow> (x + 8) mod 64 = 0"
  by presburger

lemma sha256_padded_fips: "sha256_padded input = fips_padding input"
proof -
  obtain k where k: "pad_zeros (input @ [0x80]) = (input @ [0x80]) @ replicate k 0" "(length (input @ [0x80]) + k) mod 64 = 56"
      "\<forall>j<k. (length (input @ [0x80]) + j) mod 64 \<noteq> 56"
    using pad_zeros_replicate by blast
  have least: "(LEAST k. (length input + 1 + k + 8) mod 64 = 0) = k"
  proof (rule Least_equality)
    show "(length input + 1 + k + 8) mod 64 = 0" using k(2) mod_56 [of "length input + 1 + k"] by simp
    show "k \<le> j" if "(length input + 1 + j + 8) mod 64 = 0" for j
      using that k(3) mod_56 [of "length input + 1 + j"] by (metis length_append_singleton Suc_eq_plus1 not_le)
  qed
  have bits: "(of_nat (length input) * 8 :: u64) = of_nat (8 * length input)" by (simp add: mult.commute)
  have "map (\<lambda>shift. ucast (drop_bit shift (of_nat (length input) * 8 :: u64) AND 0xFF) :: byte) [56, 48, 40, 32, 24, 16, 8, 0] =
      map (\<lambda>shift. of_nat (8 * length input div 2 ^ shift)) [56, 48, 40, 32, 24, 16, 8, 0]"
    unfolding bits
  proof (rule map_cong [OF refl])
    fix shift :: nat
    assume "shift \<in> set [56, 48, 40, 32, 24, 16, 8, 0]"
    then have "shift + 8 \<le> 64" by auto
    then show "(ucast (drop_bit shift (of_nat (8 * length input) :: u64) AND 0xFF) :: byte) = of_nat (8 * length input div 2 ^ shift)"
      by (rule length_byte)
  qed
  also have "\<dots> = map (\<lambda>i. of_nat (8 * length input div 256 ^ (7 - i))) [0..<8]" by (simp add: upt_rec)
  finally have tail: "map (\<lambda>shift. ucast (drop_bit shift (of_nat (length input) * 8 :: u64) AND 0xFF) :: byte) [56, 48, 40, 32, 24, 16, 8, 0] =
      map (\<lambda>i. of_nat (8 * length input div 256 ^ (7 - i))) [0..<8]" .
  show ?thesis
    unfolding sha256_padded_def fips_padding_def Let_def tail k(1) least by simp
qed

lemma fips_padding_blocks: "length (fips_padding m) mod 64 = 0"
proof -
  obtain k where "(length (m @ [0x80]) + k) mod 64 = 56" using pad_zeros_replicate by blast
  then have "(length m + 1 + k + 8) mod 64 = 0" using mod_56 [of "length m + 1 + k"] by simp
  then have "(length m + 1 + (LEAST k. (length m + 1 + k + 8) mod 64 = 0) + 8) mod 64 = 0" by (rule LeastI)
  then show ?thesis by (simp add: fips_padding_def add.left_commute)
qed

text \<open>
  C40. The agent's SHA-256 is the function of FIPS 180-4: for every input, the digest text is the
  eight words of the standard's computation (padding by the least number of zeros, the message
  schedule by its recursion, 64 rounds with rotations, block after block) in lower-case hexadecimal.
\<close>

theorem sha256_hex_fips:
  "sha256_hex input = (case fips_digest input of (a, b, c, d, e, f, g, h) \<Rightarrow> concat (map hex8 [a, b, c, d, e, f, g, h]))"
proof -
  let ?m = "fips_padding input"
  have "length ?m = 64 * (length ?m div 64)" using fips_padding_blocks [of input] by auto
  from sha_blocks_fips [OF this, of 0 initial_hash]
  have "sha_blocks ?m 0 initial_hash = fips_digest input" by (simp add: fips_digest_def chunks64_def)
  then show ?thesis by (simp only: sha256_hex_def sha256_padded_fips)
qed

section \<open>The constants\<close>

definition first_primes :: "nat list" where
  "first_primes = [2, 3, 5, 7, 11, 13, 17, 19, 23, 29, 31, 37, 41, 43, 47, 53, 59, 61, 67, 71, 73, 79, 83, 89, 97, 101, 103, 107, 109,
     113, 127, 131, 137, 139, 149, 151, 157, 163, 167, 173, 179, 181, 191, 193, 197, 199, 211, 223, 227, 229, 233, 239, 241, 251, 257,
     263, 269, 271, 277, 281, 283, 293, 307, 311]"

text \<open>
  The whole part of a root below 8, and the first 32 bits of its fraction: the root scaled by
  \<open>2^32\<close> and rounded down is \<open>c\<close>.
\<close>

definition whole_root :: "nat \<Rightarrow> nat \<Rightarrow> nat" where
  "whole_root degree p = length (takeWhile (\<lambda>r. r ^ degree \<le> p) [1, 2, 3, 4, 5, 6, 7])"

definition root_fraction :: "nat \<Rightarrow> nat \<Rightarrow> u32 \<Rightarrow> bool" where
  "root_fraction degree p k \<longleftrightarrow>
     (let c = whole_root degree p * 2 ^ 32 + unat k
      in c ^ degree \<le> p * 2 ^ (32 * degree) \<and> p * 2 ^ (32 * degree) < (c + 1) ^ degree)"

text \<open>
  The constants are the standard's: the round constants are the first 32 bits of the fractions
  of the cube roots of the first 64 primes, the initial hash those of the square roots of the first
  eight.
\<close>

theorem sha256_constants_fips:
  "list_all2 (root_fraction 3) first_primes sha256_constants \<and>
   (case initial_hash of (a, b, c, d, e, f, g, h) \<Rightarrow> list_all2 (root_fraction 2) (take 8 first_primes) [a, b, c, d, e, f, g, h])"
proof
  show "list_all2 (root_fraction 3) first_primes sha256_constants"
    unfolding first_primes_def sha256_constants_def by (simp add: root_fraction_def whole_root_def)
  show "case initial_hash of (a, b, c, d, e, f, g, h) \<Rightarrow> list_all2 (root_fraction 2) (take 8 first_primes) [a, b, c, d, e, f, g, h]"
    unfolding first_primes_def initial_hash_def by (simp add: root_fraction_def whole_root_def)
qed

end
