(* ===== verification/Entity_Graph.thy ===== *)
theory Entity_Graph
  imports Process_Info Sha256 "HOL-Library.AList" "HOL-Library.List_Lexorder" "HOL-Library.Char_ord" "HOL-Library.Product_Lexorder"
begin

text \<open>
  The process entity graph, \<^verbatim>\<open>src/sensor/entity_graph.cpp\<close> with the clock conversions of
  \<^verbatim>\<open>src/sensor/clock.cpp\<close> it uses. A hash map is a list of pairs with distinct keys; the order of
  the list stands for the unspecified iteration order. Entities are immutable once published, so a
  shared pointer is the entity itself, and comparing pointers is comparing entities: a slot of one
  map and one of the other hold equal entities only when one call stored both. What procfs shows is
  an argument of every operation, one view per read.
\<close>

section \<open>Clock\<close>

record clock_domain =
  boot_offset_ns :: u64
  monotonic_offset_ns :: u64
  ticks_per_second :: u64

text \<open>\<open>apply\<close>: modular addition of a signed offset, negative sums become 0.\<close>

definition apply_offset :: "u64 \<Rightarrow> u64 \<Rightarrow> u64" where
  "apply_offset v offset = (let adjusted = v + offset in if adjusted <s 0 then 0 else adjusted)"

definition boottime_to_unix_ns :: "clock_domain \<Rightarrow> u64 \<Rightarrow> u64" where
  "boottime_to_unix_ns clk ns = apply_offset ns (boot_offset_ns clk)"

definition monotonic_to_unix_ns :: "clock_domain \<Rightarrow> u64 \<Rightarrow> u64" where
  "monotonic_to_unix_ns clk ns = apply_offset ns (monotonic_offset_ns clk)"

definition ticks_to_unix_ns :: "clock_domain \<Rightarrow> u64 \<Rightarrow> u64" where
  "ticks_to_unix_ns clk ticks = boottime_to_unix_ns clk (ticks * (1000000000 div ticks_per_second clk))"

definition unix_ns_to_ticks :: "clock_domain \<Rightarrow> u64 \<Rightarrow> u64" where
  "unix_ns_to_ticks clk ns = apply_offset ns (- boot_offset_ns clk) div (1000000000 div ticks_per_second clk)"

section \<open>Records of the providers\<close>

datatype confidence = Observed | Reconstructed | Inferred | User_space_reported

record provenance =
  prov_provider :: string
  prov_mechanism :: string
  prov_level :: confidence

record raw_fork =
  rf_parent_tgid :: u32
  rf_parent_pid :: u32
  rf_child_tgid :: u32
  rf_child_pid :: u32
  rf_child_start_ticks :: "u64 option"

record raw_exec =
  rx_tgid :: u32
  rx_pid :: u32
  rx_filename :: "string option"
  rx_args :: "string list option"
  rx_start_ticks :: "u64 option"
  rx_args_truncated :: bool
  rx_stdio :: "stdio_kind list option"
  rx_interpreter :: "string option"

record raw_exit =
  rt_tgid :: u32
  rt_pid :: u32
  rt_exit_status :: u32
  rt_exit_signal :: u32

record raw_credential_change =
  rc_tgid :: u32
  rc_pid :: u32
  rc_user :: bool
  rc_real :: u32
  rc_effective :: u32

record raw_ptrace =
  rp_tgid :: u32
  rp_pid :: u32
  rp_tracer_tgid :: u32
  rp_tracer_pid :: u32
  rp_technique :: string

record raw_signal =
  rs_sender_tgid :: u32
  rs_target_tgid :: u32
  rs_target_pid :: u32
  rs_number :: u32
  rs_code :: "32 word"
  rs_result :: string
  rs_target_is_sensor :: bool

record raw_comm_change =
  rm_tgid :: u32
  rm_pid :: u32
  rm_comm :: string

record raw_session_change =
  rn_tgid :: u32
  rn_pid :: u32

record raw_namespace_change =
  rw_tgid :: u32
  rw_tid :: u32
  rw_before :: "u32 list"
  rw_after :: "u32 list"

text \<open>The payloads the graph has no use for are told apart by name only.\<close>

datatype other_payload =
    raw_file_event | raw_network_event | raw_auth_event | raw_kernel_event | raw_security_event | raw_dns_query
  | raw_lsm_event | raw_firewall_change | raw_response_action

datatype raw_payload =
    Fork raw_fork | Exec raw_exec | Exit raw_exit | Credential_change raw_credential_change | Ptrace raw_ptrace
  | Comm_change raw_comm_change | Session_change raw_session_change | Namespace_change raw_namespace_change
  | Signal raw_signal | Other other_payload

record raw_record =
  rr_time_unix_ns :: u64
  rr_source :: provenance
  rr_payload :: raw_payload

record exit_details =
  ed_code :: "nat option"
  ed_signal :: "nat option"
  ed_core_dumped :: bool

definition decode_exit_status :: "u32 \<Rightarrow> exit_details" where
  "decode_exit_status status =
     (let low = status AND 0x7F
      in if low = 0 then \<lparr>ed_code = Some (unat (drop_bit 8 status AND 0xFF)), ed_signal = None, ed_core_dumped = False\<rparr>
         else if low \<noteq> 0x7F then \<lparr>ed_code = None, ed_signal = Some (unat low), ed_core_dumped = (status AND 0x80 \<noteq> 0)\<rparr>
         else \<lparr>ed_code = None, ed_signal = None, ed_core_dumped = False\<rparr>)"

section \<open>Entities and events\<close>

record process_entity =
  pe_entity_id :: string
  pe_parent_entity_id :: string
  pe_exec_gen :: u32
  pe_identity :: confidence
  pe_attributes :: confidence
  pe_info :: process_info
  pe_first_seen_unix_ns :: u64
  pe_exited_unix_ns :: "u64 option"

definition empty_entity :: process_entity where
  "empty_entity = \<lparr>pe_entity_id = [], pe_parent_entity_id = [], pe_exec_gen = 0, pe_identity = Observed, pe_attributes = Reconstructed,
     pe_info = empty_info, pe_first_seen_unix_ns = 0, pe_exited_unix_ns = None\<rparr>"

record ancestor_ref =
  ar_entity_id :: string
  ar_pid :: u32
  ar_name :: string
  ar_executable :: string

record namespace_change_body =
  nb_whole_process :: bool
  nb_thread_id :: u32
  nb_moves :: "(string \<times> u64 \<times> u64) list"

record signal_details =
  sd_number :: u32
  sd_code :: "32 word"
  sd_result :: string
  sd_target_is_sensor :: bool

record process_event =
  ev_type :: string
  ev_time_unix_ns :: u64
  ev_source :: provenance
  ev_process :: "process_entity option"
  ev_parent :: "process_entity option"
  ev_target :: "process_entity option"
  ev_ancestry :: "ancestor_ref list"
  ev_exit :: "exit_details option"
  ev_previous_executable :: "string option"
  ev_previous_name :: "string option"
  ev_creds_before :: "process_credentials option"
  ev_technique :: "string option"
  ev_signal :: "signal_details option"
  ev_ns_change :: "namespace_change_body option"
  ev_unavailable :: "unavailable_field list"

record entity_graph_options =
  go_host_id :: string
  go_boot_id :: string
  go_limits :: procfs_limits
  go_exit_grace_ns :: u64
  go_maximum_entities :: nat
  go_maximum_ancestry :: nat

record entity_graph_metrics =
  gm_entities :: nat
  gm_forks :: nat
  gm_execs :: nat
  gm_exits :: nat
  gm_threads_ignored :: nat
  gm_discovered :: nat
  gm_reconciled_exits :: nat
  gm_pid_reuse :: nat
  gm_inferred_identities :: nat
  gm_evicted :: nat

record entity_graph =
  eg_by_tgid :: "(u32 \<times> process_entity) list"
  eg_by_entity_id :: "(string \<times> process_entity) list"
  eg_missing :: "(u32 \<times> u64) list"
  eg_metrics :: entity_graph_metrics

definition entity_graph_new :: entity_graph where
  "entity_graph_new = \<lparr>eg_by_tgid = [], eg_by_entity_id = [], eg_missing = [],
     eg_metrics = \<lparr>gm_entities = 0, gm_forks = 0, gm_execs = 0, gm_exits = 0, gm_threads_ignored = 0, gm_discovered = 0,
       gm_reconciled_exits = 0, gm_pid_reuse = 0, gm_inferred_identities = 0, gm_evicted = 0\<rparr>\<rparr>"

definition bump :: "(entity_graph_metrics \<Rightarrow> entity_graph_metrics) \<Rightarrow> entity_graph \<Rightarrow> entity_graph" where
  "bump f g = g\<lparr>eg_metrics := f (eg_metrics g)\<rparr>"

definition compute_entity_id :: "string \<Rightarrow> string \<Rightarrow> u32 \<Rightarrow> u64 \<Rightarrow> string" where
  "compute_entity_id host_id boot_id tgid start_ticks =
     take 32 (sha256_hex (ascii (host_id @ ''|'' @ boot_id @ ''|'' @ to_string (unat tgid) @ ''|'' @ to_string (unat start_ticks))))"

definition entity_id_of :: "entity_graph_options \<Rightarrow> u32 \<Rightarrow> u64 \<Rightarrow> string" where
  "entity_id_of opts tgid start_ticks = compute_entity_id (go_host_id opts) (go_boot_id opts) tgid start_ticks"

section \<open>Lookup and storage\<close>

definition find_entity :: "u32 \<Rightarrow> entity_graph \<Rightarrow> process_entity option" where
  "find_entity tgid g = map_of (eg_by_tgid g) tgid"

definition live :: "process_entity \<Rightarrow> bool" where
  "live e \<longleftrightarrow> pe_exited_unix_ns e = None"

definition live_entities :: "entity_graph \<Rightarrow> process_entity list" where
  "live_entities g = sort_key (\<lambda>e. pi_pid (pe_info e)) (filter live (map snd (eg_by_tgid g)))"

definition put_id :: "process_entity \<Rightarrow> entity_graph \<Rightarrow> entity_graph" where
  "put_id e g =
     (if pe_entity_id e \<noteq> [] then g\<lparr>eg_by_entity_id := AList.update (pe_entity_id e) e (eg_by_entity_id g)\<rparr> else g)"

text \<open>The part of \<open>store\<close> that ends an instance whose pid was reused.\<close>

definition end_reused :: "process_entity \<Rightarrow> entity_graph \<Rightarrow> entity_graph" where
  "end_reused e g =
     (case find_entity (pi_pid (pe_info e)) g of
        None \<Rightarrow> g
      | Some slot \<Rightarrow>
          if pe_entity_id slot \<noteq> pe_entity_id e \<and> live slot
          then put_id (slot\<lparr>pe_exited_unix_ns := Some (pe_first_seen_unix_ns e)\<rparr>) (bump (\<lambda>m. m\<lparr>gm_pid_reuse := gm_pid_reuse m + 1\<rparr>) g)
          else g)"

definition store :: "process_entity \<Rightarrow> entity_graph \<Rightarrow> entity_graph" where
  "store e g =
     (let g1 = end_reused e g;
          g2 = put_id e (g1\<lparr>eg_by_tgid := AList.update (pi_pid (pe_info e)) e (eg_by_tgid g1)\<rparr>)
      in bump (\<lambda>m. m\<lparr>gm_entities := length (eg_by_tgid g2)\<rparr>) g2)"

text \<open>A parent a freshly read process may be linked to.\<close>

definition parent_for :: "process_info \<Rightarrow> entity_graph \<Rightarrow> process_entity option" where
  "parent_for info g =
     (case find_entity (pi_ppid info) g of
        Some parent \<Rightarrow> if live parent \<and> pi_start_ticks (pe_info parent) \<le> pi_start_ticks info then Some parent else None
      | None \<Rightarrow> None)"

definition load :: "entity_graph_options \<Rightarrow> proc_view \<Rightarrow> u32 \<Rightarrow> u64 \<Rightarrow> confidence \<Rightarrow> entity_graph \<Rightarrow> process_entity option" where
  "load opts view tgid now_unix_ns attributes g =
     (case read_process (go_limits opts) tgid view of
        Inl _ \<Rightarrow> None
      | Inr info \<Rightarrow>
          Some (empty_entity\<lparr>pe_info := info, pe_entity_id := entity_id_of opts tgid (pi_start_ticks info), pe_identity := Observed,
            pe_attributes := attributes, pe_first_seen_unix_ns := now_unix_ns,
            pe_parent_entity_id := (case parent_for info g of Some parent \<Rightarrow> pe_entity_id parent | None \<Rightarrow> [])\<rparr>))"

definition lookup_or_load ::
  "entity_graph_options \<Rightarrow> proc_view \<Rightarrow> u32 \<Rightarrow> u64 \<Rightarrow> entity_graph \<Rightarrow> process_entity option \<times> entity_graph" where
  "lookup_or_load opts view tgid now_unix_ns g =
     (if tgid = 0 then (None, g)
      else case find_entity tgid g of
             Some existing \<Rightarrow>
               if live existing then (Some existing, g)
               else (case load opts view tgid now_unix_ns Reconstructed g of
                       None \<Rightarrow> (None, g) | Some loaded \<Rightarrow> (Some loaded, store loaded g))
           | None \<Rightarrow>
               (case load opts view tgid now_unix_ns Reconstructed g of
                  None \<Rightarrow> (None, g) | Some loaded \<Rightarrow> (Some loaded, store loaded g)))"

section \<open>Events\<close>

text \<open>The walk along the parents; \<open>n\<close> is what is left of the maximal length.\<close>

fun ancestry :: "nat \<Rightarrow> entity_graph \<Rightarrow> string \<Rightarrow> ancestor_ref list" where
  "ancestry 0 g next_id = []"
| "ancestry (Suc n) g next_id =
     (if next_id = [] then []
      else case map_of (eg_by_entity_id g) next_id of
             None \<Rightarrow> []
           | Some ancestor \<Rightarrow>
               \<lparr>ar_entity_id = pe_entity_id ancestor, ar_pid = pi_pid (pe_info ancestor), ar_name = pi_comm (pe_info ancestor),
                ar_executable = ex_path (pi_executable (pe_info ancestor))\<rparr>
               # (if pe_parent_entity_id ancestor = next_id then [] else ancestry n g (pe_parent_entity_id ancestor)))"

definition ancestry_of :: "entity_graph_options \<Rightarrow> entity_graph \<Rightarrow> process_entity \<Rightarrow> ancestor_ref list" where
  "ancestry_of opts g e = ancestry (go_maximum_ancestry opts) g (pe_parent_entity_id e)"

definition make_event ::
  "entity_graph_options \<Rightarrow> string \<Rightarrow> u64 \<Rightarrow> provenance \<Rightarrow> process_entity option \<Rightarrow> entity_graph \<Rightarrow> process_event" where
  "make_event opts type time source subject g =
     \<lparr>ev_type = type, ev_time_unix_ns = time, ev_source = source, ev_process = subject,
      ev_parent = (case subject of None \<Rightarrow> None
                   | Some e \<Rightarrow> if pe_parent_entity_id e = [] then None else map_of (eg_by_entity_id g) (pe_parent_entity_id e)),
      ev_target = None, ev_ancestry = (case subject of None \<Rightarrow> [] | Some e \<Rightarrow> ancestry_of opts g e),
      ev_exit = None, ev_previous_executable = None, ev_previous_name = None, ev_creds_before = None, ev_technique = None,
      ev_signal = None, ev_ns_change = None, ev_unavailable = []\<rparr>"

definition event_for :: "entity_graph_options \<Rightarrow> string \<Rightarrow> raw_record \<Rightarrow> process_entity option \<Rightarrow> entity_graph \<Rightarrow> process_event" where
  "event_for opts type r subject g = make_event opts type (rr_time_unix_ns r) (rr_source r) subject g"

section \<open>Handlers\<close>

text \<open>
  Each handler gets the views of the reads it makes: \<open>v\<close>, \<open>v'\<close> of the directories of processes, a
  \<open>stat\<close> file where only the start time is read. It returns the events and the graph.
\<close>

definition set_info :: "(process_info \<Rightarrow> process_info) \<Rightarrow> process_entity \<Rightarrow> process_entity" where
  "set_info f e = e\<lparr>pe_info := f (pe_info e)\<rparr>"

definition child_ticks :: "clock_domain \<Rightarrow> proc_file \<Rightarrow> u64 \<Rightarrow> raw_fork \<Rightarrow> u64 \<times> confidence" where
  "child_ticks clk stat_file time fork =
     (case rf_child_start_ticks fork of
        Some ticks \<Rightarrow> (ticks, Observed)
      | None \<Rightarrow> (case read_start_ticks stat_file of
                   Some ticks \<Rightarrow> (ticks, Reconstructed)
                 | None \<Rightarrow> (unix_ns_to_ticks clk time, Inferred)))"

definition fork_info :: "raw_fork \<Rightarrow> process_entity option \<Rightarrow> process_info" where
  "fork_info fork parent =
     (case parent of
        Some p \<Rightarrow>
          let info = (pe_info p)\<lparr>pi_unavailable := []\<rparr>;
              vpid = (if pi_vpid (pe_info p) = pi_pid (pe_info p) then rf_child_tgid fork else 0);
              info' = info\<lparr>pi_vpid := vpid\<rparr>
          in if vpid = 0 then mark_unavailable ''process.vpid'' not_supported_by_provider info' else info'
      | None \<Rightarrow>
          mark_unavailable ''process.user'' process_exited (mark_unavailable ''process.args'' process_exited
            (mark_unavailable ''process.executable'' process_exited (empty_info\<lparr>pi_vpid := rf_child_tgid fork\<rparr>))))"

definition graph_on_fork ::
  "entity_graph_options \<Rightarrow> clock_domain \<Rightarrow> proc_view \<Rightarrow> proc_file \<Rightarrow> raw_record \<Rightarrow> raw_fork \<Rightarrow> entity_graph \<Rightarrow> process_event list \<times> entity_graph"
where
  "graph_on_fork opts clk v stat_file r fork g =
     (if rf_child_pid fork \<noteq> rf_child_tgid fork then ([], bump (\<lambda>m. m\<lparr>gm_threads_ignored := gm_threads_ignored m + 1\<rparr>) g)
      else
        let g1 = bump (\<lambda>m. m\<lparr>gm_forks := gm_forks m + 1\<rparr>) g;
            (parent, g2) = lookup_or_load opts v (rf_parent_tgid fork) (rr_time_unix_ns r) g1;
            (ticks, identity) = child_ticks clk stat_file (rr_time_unix_ns r) fork;
            g3 = (if identity = Inferred then bump (\<lambda>m. m\<lparr>gm_inferred_identities := gm_inferred_identities m + 1\<rparr>) g2 else g2);
            info = (fork_info fork parent)\<lparr>pi_pid := rf_child_tgid fork, pi_ppid := rf_parent_tgid fork, pi_start_ticks := ticks, pi_threads := 1\<rparr>;
            child = empty_entity\<lparr>pe_first_seen_unix_ns := rr_time_unix_ns r, pe_identity := identity, pe_info := info,
              pe_attributes := (case parent of Some p \<Rightarrow> pe_attributes p | None \<Rightarrow> Inferred),
              pe_parent_entity_id := (case parent of Some p \<Rightarrow> pe_entity_id p | None \<Rightarrow> []),
              pe_entity_id := entity_id_of opts (rf_child_tgid fork) ticks\<rparr>;
            g4 = store child g3
        in ([event_for opts ''process.fork'' r (Some child) g4], g4))"

text \<open>
  \<open>on_exec\<close> in three parts: the image as procfs, the prior instance or neither tells it, what the
  kernel reported on top of it, and the entity. The first part also says which prior instance is
  still taken to be the same process, and whether the identity had to be inferred.
\<close>

definition exec_base ::
  "entity_graph_options \<Rightarrow> clock_domain \<Rightarrow> proc_view \<Rightarrow> u64 \<Rightarrow> raw_exec \<Rightarrow> process_entity option \<Rightarrow>
   process_info \<times> confidence \<times> confidence \<times> process_entity option \<times> bool" where
  "exec_base opts clk v time exec prior =
     (case read_process (go_limits opts) (rx_tgid exec) v of
        Inr info \<Rightarrow>
          (info, Observed, Reconstructed,
           (case prior of Some p \<Rightarrow> if pi_start_ticks (pe_info p) \<noteq> pi_start_ticks info then None else Some p | None \<Rightarrow> None), False)
      | Inl _ \<Rightarrow>
          (case prior of
             Some p \<Rightarrow>
               let info = (pe_info p)\<lparr>pi_unavailable := [], pi_executable := no_executable\<rparr>;
                   info1 = (case rx_filename exec of
                              None \<Rightarrow> info
                            | Some filename \<Rightarrow>
                                info\<lparr>pi_comm := take 15 (drop (case rfind_char CHR ''/'' filename of None \<Rightarrow> 0 | Some i \<Rightarrow> i + 1) filename)\<rparr>);
                   info2 = mark_unavailable ''process.args'' process_exited (mark_unavailable ''process.executable'' process_exited info1)
               in (info2, pe_identity p, Inferred, prior, False)
           | None \<Rightarrow>
               let info = mark_unavailable ''process.user'' process_exited (mark_unavailable ''process.args'' process_exited
                     (mark_unavailable ''process.executable'' process_exited (empty_info\<lparr>pi_pid := rx_tgid exec, pi_vpid := rx_tgid exec\<rparr>)))
               in (case rx_start_ticks exec of
                     Some ticks \<Rightarrow> (info\<lparr>pi_start_ticks := ticks\<rparr>, Observed, Inferred, None, False)
                   | None \<Rightarrow> (info\<lparr>pi_start_ticks := unix_ns_to_ticks clk time\<rparr>, Inferred, Inferred, None, True))))"

definition drop_unavailable :: "string \<Rightarrow> process_info \<Rightarrow> process_info" where
  "drop_unavailable fld info = info\<lparr>pi_unavailable := filter (\<lambda>u. fst u \<noteq> fld) (pi_unavailable info)\<rparr>"

definition exec_kernel :: "raw_exec \<Rightarrow> process_info \<Rightarrow> confidence \<Rightarrow> process_info \<times> confidence" where
  "exec_kernel exec info attributes =
     (let info1 = (case rx_start_ticks exec of Some ticks \<Rightarrow> info\<lparr>pi_start_ticks := ticks\<rparr> | None \<Rightarrow> info);
          info2 = (case rx_filename exec of
                     Some filename \<Rightarrow>
                       if ex_kind (pi_executable info1) = Exe_unknown then
                         let (path, kind) = classify_exe_link filename
                         in drop_unavailable ''process.executable''
                              (info1\<lparr>pi_executable := (pi_executable info1)\<lparr>ex_path := path, ex_kind := kind\<rparr>\<rparr>)
                       else info1
                   | None \<Rightarrow> info1);
          (info3, attributes3) =
            (case rx_args exec of
               Some args \<Rightarrow>
                 (drop_unavailable ''process.args'' (info2\<lparr>pi_args := args, pi_args_truncated := rx_args_truncated exec\<rparr>), Observed)
             | None \<Rightarrow> (info2, attributes));
          info4 =
            (case rx_stdio exec of
               Some stdio \<Rightarrow>
                 (case (rx_interpreter exec, rx_filename exec) of
                    (Some interpreter, Some filename) \<Rightarrow> info3\<lparr>pi_stdio := Some stdio, pi_interpreter := interpreter, pi_script := filename\<rparr>
                  | _ \<Rightarrow> info3\<lparr>pi_stdio := Some stdio\<rparr>)
             | None \<Rightarrow> mark_unavailable ''process.interpreter'' not_supported_by_provider
                         (mark_unavailable ''process.stdio'' not_supported_by_provider info3))
      in (info4, attributes3))"

definition graph_on_exec ::
  "entity_graph_options \<Rightarrow> clock_domain \<Rightarrow> proc_view \<Rightarrow> proc_view \<Rightarrow> raw_record \<Rightarrow> raw_exec \<Rightarrow> entity_graph \<Rightarrow> process_event list \<times> entity_graph"
where
  "graph_on_exec opts clk v v' r exec g =
     (let g1 = bump (\<lambda>m. m\<lparr>gm_execs := gm_execs m + 1\<rparr>) g;
          prior0 = (case find_entity (rx_tgid exec) g1 of Some p \<Rightarrow> if live p then Some p else None | None \<Rightarrow> None);
          first_seen = (case prior0 of Some p \<Rightarrow> pe_first_seen_unix_ns p | None \<Rightarrow> rr_time_unix_ns r);
          (info0, identity, attributes0, prior, inferred) = exec_base opts clk v (rr_time_unix_ns r) exec prior0;
          g2 = (if inferred then bump (\<lambda>m. m\<lparr>gm_inferred_identities := gm_inferred_identities m + 1\<rparr>) g1 else g1);
          (info, attributes) = exec_kernel exec info0 attributes0;
          entity_id = entity_id_of opts (rx_tgid exec) (pi_start_ticks info);
          (parent_id, g3) =
            (case prior of
               Some p \<Rightarrow>
                 if pe_entity_id p = entity_id then (pe_parent_entity_id p, g2)
                 else (let (parent, g') = lookup_or_load opts v' (pi_ppid info) (rr_time_unix_ns r) g2
                       in (case parent of Some q \<Rightarrow> pe_entity_id q | None \<Rightarrow> [], g'))
             | None \<Rightarrow>
                 (let (parent, g') = lookup_or_load opts v' (pi_ppid info) (rr_time_unix_ns r) g2
                  in (case parent of Some q \<Rightarrow> pe_entity_id q | None \<Rightarrow> [], g')));
          entity = empty_entity\<lparr>pe_first_seen_unix_ns := first_seen, pe_info := info, pe_identity := identity, pe_attributes := attributes,
            pe_exec_gen := (case prior of Some p \<Rightarrow> pe_exec_gen p + 1 | None \<Rightarrow> 1), pe_entity_id := entity_id, pe_parent_entity_id := parent_id\<rparr>;
          g4 = store entity g3;
          event = event_for opts ''process.exec'' r (Some entity) g4
      in ([event\<lparr>ev_previous_executable := map_option (\<lambda>p. ex_path (pi_executable (pe_info p))) prior\<rparr>], g4))"

definition graph_on_exit :: "entity_graph_options \<Rightarrow> raw_record \<Rightarrow> raw_exit \<Rightarrow> entity_graph \<Rightarrow> process_event list \<times> entity_graph" where
  "graph_on_exit opts r exit g =
     (if rt_pid exit \<noteq> rt_tgid exit then ([], bump (\<lambda>m. m\<lparr>gm_threads_ignored := gm_threads_ignored m + 1\<rparr>) g)
      else
        let done_event = (\<lambda>e g. ((event_for opts ''process.exit'' r (Some e) g)\<lparr>ev_exit := Some (decode_exit_status (rt_exit_status exit))\<rparr>));
            g1 = bump (\<lambda>m. m\<lparr>gm_exits := gm_exits m + 1\<rparr>) g
        in case find_entity (rt_tgid exit) g of
             Some prior \<Rightarrow>
               if \<not> live prior then ([], g)
               else let ended = prior\<lparr>pe_exited_unix_ns := Some (rr_time_unix_ns r)\<rparr>; g2 = store ended g1
                    in ([done_event ended g2], g2)
           | None \<Rightarrow>
               let ended = empty_entity\<lparr>pe_identity := Inferred, pe_attributes := Inferred,
                     pe_info := mark_unavailable ''process.executable'' process_exited (mark_unavailable ''process.entity_id'' process_exited
                                  (empty_info\<lparr>pi_pid := rt_tgid exit\<rparr>)),
                     pe_exited_unix_ns := Some (rr_time_unix_ns r)\<rparr>
               in ([done_event ended g1], g1))"

definition graph_on_credentials ::
  "entity_graph_options \<Rightarrow> proc_view \<Rightarrow> raw_record \<Rightarrow> raw_credential_change \<Rightarrow> entity_graph \<Rightarrow> process_event list \<times> entity_graph" where
  "graph_on_credentials opts v r change g =
     (if rc_pid change \<noteq> rc_tgid change then ([], g)
      else case lookup_or_load opts v (rc_tgid change) (rr_time_unix_ns r) g of
             (None, g1) \<Rightarrow> ([], g1)
           | (Some prior, g1) \<Rightarrow>
               let creds = pi_creds (pe_info prior);
                   ids = (if rc_user change then pc_uids creds else pc_gids creds);
                   ids' = ids[0 := rc_real change, 1 := rc_effective change]
               in if ids ! 0 = rc_real change \<and> ids ! 1 = rc_effective change then ([], g1)
                  else let updated = set_info (set_creds (\<lambda>c. if rc_user change then c\<lparr>pc_uids := ids'\<rparr> else c\<lparr>pc_gids := ids'\<rparr>)) prior;
                           g2 = store updated g1
                       in ([(event_for opts ''process.cred_change'' r (Some updated) g2)\<lparr>ev_creds_before := Some creds\<rparr>], g2))"

definition graph_on_ptrace ::
  "entity_graph_options \<Rightarrow> proc_view \<Rightarrow> proc_view \<Rightarrow> raw_record \<Rightarrow> raw_ptrace \<Rightarrow> entity_graph \<Rightarrow> process_event list \<times> entity_graph" where
  "graph_on_ptrace opts v v' r trace g =
     (if rp_tracer_tgid trace = 0 then ([], g)
      else
        let (tracer, g1) = lookup_or_load opts v (rp_tracer_tgid trace) (rr_time_unix_ns r) g;
            (target, g2) = lookup_or_load opts v' (rp_tgid trace) (rr_time_unix_ns r) g1;
            event = event_for opts ''process.inject'' r tracer g2
        in ([event\<lparr>ev_target := target, ev_technique := Some (rp_technique trace),
              ev_unavailable := (if tracer = None then [(''process'', process_exited)] else [])\<rparr>], g2))"

definition graph_on_signal ::
  "entity_graph_options \<Rightarrow> proc_view \<Rightarrow> proc_view \<Rightarrow> raw_record \<Rightarrow> raw_signal \<Rightarrow> entity_graph \<Rightarrow> process_event list \<times> entity_graph" where
  "graph_on_signal opts v v' r sig g =
     (let (sender, g1) = lookup_or_load opts v (rs_sender_tgid sig) (rr_time_unix_ns r) g;
          (target, g2) = lookup_or_load opts v' (rs_target_tgid sig) (rr_time_unix_ns r) g1;
          event = event_for opts ''process.signal'' r sender g2
      in ([event\<lparr>ev_target := target,
            ev_signal := Some \<lparr>sd_number = rs_number sig, sd_code = rs_code sig, sd_result = rs_result sig,
              sd_target_is_sensor = rs_target_is_sensor sig\<rparr>,
            ev_unavailable := (if sender = None then [(''process'', process_exited)] else []) @
              (if target = None then [(''target'', process_exited)] else [])\<rparr>], g2))"

definition graph_on_comm ::
  "entity_graph_options \<Rightarrow> proc_view \<Rightarrow> raw_record \<Rightarrow> raw_comm_change \<Rightarrow> entity_graph \<Rightarrow> process_event list \<times> entity_graph" where
  "graph_on_comm opts v r change g =
     (if rm_pid change \<noteq> rm_tgid change then ([], g)
      else case lookup_or_load opts v (rm_tgid change) (rr_time_unix_ns r) g of
             (None, g1) \<Rightarrow> ([], g1)
           | (Some prior, g1) \<Rightarrow>
               if pi_comm (pe_info prior) = rm_comm change then ([], g1)
               else let updated = set_info (\<lambda>i. i\<lparr>pi_comm := rm_comm change\<rparr>) prior; g2 = store updated g1
                    in ([(event_for opts ''process.rename'' r (Some updated) g2)\<lparr>ev_previous_name := Some (pi_comm (pe_info prior))\<rparr>], g2))"

text \<open>The slots of \<open>process_info::namespaces\<close> the six namespaces of the proxy belong to.\<close>

definition nsproxy_names :: "string list" where
  "nsproxy_names = [''mnt'', ''pid_for_children'', ''net'', ''uts'', ''ipc'', ''cgroup'']"

definition ns_slots :: "(nat \<times> nat) list" where
  "ns_slots = [(0, 0), (2, 2), (3, 4), (4, 5), (5, 6)]"

definition moved_namespaces :: "raw_namespace_change \<Rightarrow> u64 list \<Rightarrow> u64 list" where
  "moved_namespaces change ns =
     fold (\<lambda>(index, slot) ns. if rw_after change ! index \<noteq> 0 then ns[slot := ucast (rw_after change ! index)] else ns) ns_slots ns"

definition ns_moves :: "raw_namespace_change \<Rightarrow> (string \<times> u64 \<times> u64) list" where
  "ns_moves change =
     concat (map (\<lambda>i. if rw_before change ! i \<noteq> rw_after change ! i
       then [(nsproxy_names ! i, ucast (rw_before change ! i), ucast (rw_after change ! i))] else []) [0..<6])"

definition graph_on_namespaces ::
  "entity_graph_options \<Rightarrow> proc_view \<Rightarrow> raw_record \<Rightarrow> raw_namespace_change \<Rightarrow> entity_graph \<Rightarrow> process_event list \<times> entity_graph" where
  "graph_on_namespaces opts v r change g =
     (case lookup_or_load opts v (rw_tgid change) (rr_time_unix_ns r) g of
        (None, g1) \<Rightarrow> ([], g1)
      | (Some prior, g1) \<Rightarrow>
          let whole = (rw_tid change = rw_tgid change);
              updated = set_info (\<lambda>i. i\<lparr>pi_namespaces := moved_namespaces change (pi_namespaces i)\<rparr>) prior;
              (subject, g2) = (if whole then (updated, store updated g1) else (prior, g1));
              moves = ns_moves change
          in if moves = [] then ([], g2)
             else ([(event_for opts ''process.ns_change'' r (Some subject) g2)
                     \<lparr>ev_ns_change := Some \<lparr>nb_whole_process = whole, nb_thread_id = rw_tid change, nb_moves = moves\<rparr>,
                      ev_unavailable := [(''ns_change.user'', not_supported_by_provider)]\<rparr>], g2))"

definition graph_on_session ::
  "entity_graph_options \<Rightarrow> proc_view \<Rightarrow> raw_record \<Rightarrow> raw_session_change \<Rightarrow> entity_graph \<Rightarrow> process_event list \<times> entity_graph" where
  "graph_on_session opts v r change g =
     (case lookup_or_load opts v (rn_tgid change) (rr_time_unix_ns r) g of
        (None, g1) \<Rightarrow> ([], g1)
      | (Some prior, g1) \<Rightarrow>
          ([], store (set_info (\<lambda>i. i\<lparr>pi_sid := rn_tgid change, pi_pgid := rn_tgid change\<rparr>) prior) g1))"

text \<open>The views a record's handler may need.\<close>

record procfs =
  pf_first :: proc_view
  pf_second :: proc_view
  pf_stat :: proc_file

definition graph_apply ::
  "entity_graph_options \<Rightarrow> clock_domain \<Rightarrow> procfs \<Rightarrow> raw_record \<Rightarrow> entity_graph \<Rightarrow> process_event list \<times> entity_graph" where
  "graph_apply opts clk fs r g =
     (case rr_payload r of
        Fork fork \<Rightarrow> graph_on_fork opts clk (pf_first fs) (pf_stat fs) r fork g
      | Exec exec \<Rightarrow> graph_on_exec opts clk (pf_first fs) (pf_second fs) r exec g
      | Exit exit \<Rightarrow> graph_on_exit opts r exit g
      | Credential_change change \<Rightarrow> graph_on_credentials opts (pf_first fs) r change g
      | Ptrace trace \<Rightarrow> graph_on_ptrace opts (pf_first fs) (pf_second fs) r trace g
      | Signal sig \<Rightarrow> graph_on_signal opts (pf_first fs) (pf_second fs) r sig g
      | Comm_change change \<Rightarrow> graph_on_comm opts (pf_first fs) r change g
      | Namespace_change change \<Rightarrow> graph_on_namespaces opts (pf_first fs) r change g
      | Other _ \<Rightarrow> ([], g)
      | Session_change change \<Rightarrow> graph_on_session opts (pf_first fs) r change g)"

section \<open>Reconciling with procfs\<close>

text \<open>A scan: the names in the directory, and each process's files when it is read.\<close>

record proc_scan =
  ps_names :: "string list"
  ps_stat :: "u32 \<Rightarrow> proc_file"
  ps_view :: "u32 \<Rightarrow> proc_view"

definition scan_source :: "confidence \<Rightarrow> provenance" where
  "scan_source level = \<lparr>prov_provider = ''procfs'', prov_mechanism = ''PROCFS'', prov_level = level\<rparr>"

text \<open>One listed pid: nothing when the known instance is still the one, else it is read and stored.\<close>

definition discover ::
  "entity_graph_options \<Rightarrow> proc_scan \<Rightarrow> u64 \<Rightarrow> bool \<Rightarrow> u32 \<Rightarrow> process_event list \<times> entity_graph \<Rightarrow> process_event list \<times> entity_graph" where
  "discover opts scan now_unix_ns emit_discovered pid st =
     (let (events, g) = st; existing = find_entity pid g;
          known = (case existing of
                     Some e \<Rightarrow> live e \<and> (case read_start_ticks (ps_stat scan pid) of
                                        None \<Rightarrow> True | Some ticks \<Rightarrow> ticks = pi_start_ticks (pe_info e))
                   | None \<Rightarrow> False)
      in if known then (events, g)
         else case load opts (ps_view scan pid) pid now_unix_ns Reconstructed g of
                None \<Rightarrow> (events, g)
              | Some loaded \<Rightarrow>
                  if (case existing of Some e \<Rightarrow> pe_entity_id e = pe_entity_id loaded \<and> live e | None \<Rightarrow> False) then (events, g)
                  else let g1 = bump (\<lambda>m. m\<lparr>gm_discovered := gm_discovered m + 1\<rparr>) (store loaded g)
                       in (if emit_discovered
                           then events @ [make_event opts ''process.discovered'' now_unix_ns (scan_source Reconstructed) (Some loaded) g1]
                           else events, g1))"

text \<open>Parent links for processes loaded before their parents.\<close>

definition link_parent :: "u32 \<Rightarrow> entity_graph \<Rightarrow> entity_graph" where
  "link_parent pid g =
     (case find_entity pid g of
        None \<Rightarrow> g
      | Some e \<Rightarrow>
          if pe_parent_entity_id e \<noteq> [] \<or> \<not> live e then g
          else case parent_for (pe_info e) g of
                 None \<Rightarrow> g
               | Some parent \<Rightarrow>
                   let linked = e\<lparr>pe_parent_entity_id := pe_entity_id parent\<rparr>
                   in g\<lparr>eg_by_tgid := AList.update pid linked (eg_by_tgid g),
                        eg_by_entity_id := AList.update (pe_entity_id linked) linked (eg_by_entity_id g)\<rparr>)"

text \<open>A tracked process that is not listed: gone if the scan before missed it too.\<close>

definition miss ::
  "entity_graph_options \<Rightarrow> u64 \<Rightarrow> u32 list \<Rightarrow> entity_graph \<Rightarrow> u32 \<times> process_entity \<Rightarrow>
   process_event list \<times> (u32 \<times> u64) list \<Rightarrow> process_event list \<times> (u32 \<times> u64) list" where
  "miss opts now_unix_ns present g slot st =
     (case slot of (pid, e) \<Rightarrow> case st of (exits, still_missing) \<Rightarrow>
        if \<not> live e \<or> pid \<in> set present then (exits, still_missing)
        else if map_of (eg_missing g) pid \<noteq> None then
          (exits @ [(make_event opts ''process.exit'' now_unix_ns (scan_source Inferred) (Some (e\<lparr>pe_exited_unix_ns := Some now_unix_ns\<rparr>)) g)
             \<lparr>ev_unavailable := [(''process.exit_code'', not_supported_by_provider)]\<rparr>], still_missing)
        else (exits, still_missing @ [(pid, now_unix_ns)]))"

definition reconcile ::
  "entity_graph_options \<Rightarrow> proc_scan \<Rightarrow> u64 \<Rightarrow> bool \<Rightarrow> entity_graph \<Rightarrow> process_event list \<times> entity_graph" where
  "reconcile opts scan now_unix_ns emit_discovered g =
     (let pids = list_pids (ps_names scan);
          (discovered, g1) = fold (discover opts scan now_unix_ns emit_discovered) pids ([], g);
          g2 = fold link_parent (map fst (eg_by_tgid g1)) g1;
          (exits, still_missing) = fold (miss opts now_unix_ns pids g2) (eg_by_tgid g2) ([], []);
          g3 = bump (\<lambda>m. m\<lparr>gm_reconciled_exits := gm_reconciled_exits m + length exits\<rparr>) g2;
          g4 = fold (\<lambda>ev g. case ev_process ev of Some e \<Rightarrow> store e g | None \<Rightarrow> g) exits g3
      in (discovered @ exits, g4\<lparr>eg_missing := still_missing\<rparr>))"

section \<open>Forgetting\<close>

definition expired_entity :: "entity_graph_options \<Rightarrow> u64 \<Rightarrow> process_entity \<Rightarrow> bool" where
  "expired_entity opts now_unix_ns e =
     (case pe_exited_unix_ns e of None \<Rightarrow> False | Some t \<Rightarrow> t + go_exit_grace_ns opts \<le> now_unix_ns)"

definition exited_ids :: "entity_graph \<Rightarrow> (u64 \<times> string) list" where
  "exited_ids g =
     sort (List.map_filter (\<lambda>(i, e). case pe_exited_unix_ns e of Some t \<Rightarrow> Some (t, i) | None \<Rightarrow> None) (eg_by_entity_id g))"

definition evict :: "string \<Rightarrow> entity_graph \<Rightarrow> entity_graph" where
  "evict eid g =
     (case map_of (eg_by_entity_id g) eid of
        None \<Rightarrow> g
      | Some found \<Rightarrow>
          let pid = pi_pid (pe_info found)
          in bump (\<lambda>m. m\<lparr>gm_evicted := gm_evicted m + 1\<rparr>)
               (g\<lparr>eg_by_tgid := (if find_entity pid g = Some found then AList.delete pid (eg_by_tgid g) else eg_by_tgid g),
                  eg_by_entity_id := AList.delete eid (eg_by_entity_id g)\<rparr>))"

definition purge :: "entity_graph_options \<Rightarrow> u64 \<Rightarrow> entity_graph \<Rightarrow> entity_graph" where
  "purge opts now_unix_ns g =
     (let g1 = g\<lparr>eg_by_tgid := filter (\<lambda>s. \<not> expired_entity opts now_unix_ns (snd s)) (eg_by_tgid g),
                  eg_by_entity_id := filter (\<lambda>s. \<not> expired_entity opts now_unix_ns (snd s)) (eg_by_entity_id g)\<rparr>;
          excess = length (eg_by_entity_id g1) - go_maximum_entities opts;
          g2 = fold evict (map snd (take excess (exited_ids g1))) g1
      in bump (\<lambda>m. m\<lparr>gm_entities := length (eg_by_tgid g2)\<rparr>) g2)"

end
