(* ===== verification/Entity_Properties.thy ===== *)
theory Entity_Properties
  imports Entity_Graph Process_Properties "HOL-Library.Multiset"
begin

text \<open>
  What the entity graph guarantees: every entity is named by host, boot, pid and start time, both
  maps agree with the entities they hold, forgetting never touches a live process and bounds the
  memory, and an exit is inferred only after two scans in a row that missed the process.
\<close>

declare map_of_eq_Some_iff [simp del]

section \<open>Well-formed graphs\<close>

definition named :: "entity_graph_options \<Rightarrow> process_entity \<Rightarrow> bool" where
  "named opts e \<longleftrightarrow> pe_entity_id e = entity_id_of opts (pi_pid (pe_info e)) (pi_start_ticks (pe_info e))"

definition graph_ok :: "entity_graph_options \<Rightarrow> entity_graph \<Rightarrow> bool" where
  "graph_ok opts g \<longleftrightarrow>
     distinct (map fst (eg_by_tgid g)) \<and> distinct (map fst (eg_by_entity_id g)) \<and>
     (\<forall>pid e. map_of (eg_by_tgid g) pid = Some e \<longrightarrow> pi_pid (pe_info e) = pid \<and> named opts e) \<and>
     (\<forall>eid e. map_of (eg_by_entity_id g) eid = Some e \<longrightarrow> pe_entity_id e = eid \<and> named opts e) \<and>
     gm_entities (eg_metrics g) = length (eg_by_tgid g)"

lemma graph_ok_new: "graph_ok opts entity_graph_new"
  by (simp add: graph_ok_def entity_graph_new_def)

lemma bump_simps [simp]:
  "eg_by_tgid (bump f g) = eg_by_tgid g" "eg_by_entity_id (bump f g) = eg_by_entity_id g" "eg_missing (bump f g) = eg_missing g"
  "find_entity tgid (bump f g) = find_entity tgid g"
  by (simp_all add: bump_def find_entity_def)

lemma graph_ok_count [simp]:
  "(\<And>m. gm_entities (f m) = gm_entities m) \<Longrightarrow> graph_ok opts (bump f g) = graph_ok opts g"
  by (simp add: graph_ok_def bump_def)

text \<open>A digest is 64 characters, so an entity id is never empty.\<close>

lemma entity_id_of_nonempty [simp]: "entity_id_of opts tgid ticks \<noteq> []"
proof -
  have "length (sha256_hex x) = 64" for x
    by (simp add: sha256_hex_def hex8_def split: prod.split)
  then show ?thesis by (metis compute_entity_id_def entity_id_of_def length_0_conv length_take min_def numeral_eq_iff
        numeral_le_iff semiring_norm(69,72,85) zero_neq_numeral)
qed

lemma named_nonempty: "named opts e \<Longrightarrow> pe_entity_id e \<noteq> []"
  by (simp add: named_def)

lemma graph_ok_found:
  "graph_ok opts g \<Longrightarrow> find_entity tgid g = Some e \<Longrightarrow> pi_pid (pe_info e) = tgid \<and> named opts e"
  by (auto simp: graph_ok_def find_entity_def)

lemma named_kept:
  "named opts e \<Longrightarrow> pe_entity_id e' = pe_entity_id e \<Longrightarrow> pi_pid (pe_info e') = pi_pid (pe_info e) \<Longrightarrow>
   pi_start_ticks (pe_info e') = pi_start_ticks (pe_info e) \<Longrightarrow> named opts e'"
  by (simp add: named_def)

section \<open>Storing\<close>

definition ids_ok :: "entity_graph_options \<Rightarrow> entity_graph \<Rightarrow> bool" where
  "ids_ok opts g \<longleftrightarrow> distinct (map fst (eg_by_entity_id g)) \<and>
     (\<forall>eid e. map_of (eg_by_entity_id g) eid = Some e \<longrightarrow> pe_entity_id e = eid \<and> named opts e)"

definition slots_ok :: "entity_graph_options \<Rightarrow> entity_graph \<Rightarrow> bool" where
  "slots_ok opts g \<longleftrightarrow> distinct (map fst (eg_by_tgid g)) \<and>
     (\<forall>pid e. map_of (eg_by_tgid g) pid = Some e \<longrightarrow> pi_pid (pe_info e) = pid \<and> named opts e)"

lemma graph_ok_parts:
  "graph_ok opts g \<longleftrightarrow> ids_ok opts g \<and> slots_ok opts g \<and> gm_entities (eg_metrics g) = length (eg_by_tgid g)"
  by (auto simp: graph_ok_def ids_ok_def slots_ok_def)

lemma ids_ok_count [simp]: "ids_ok opts (bump f g) = ids_ok opts g"
  by (simp add: ids_ok_def)

lemma slots_ok_count [simp]: "slots_ok opts (bump f g) = slots_ok opts g"
  by (simp add: slots_ok_def)

lemma graph_ok_counted:
  "ids_ok opts g \<Longrightarrow> slots_ok opts g \<Longrightarrow> graph_ok opts (bump (\<lambda>m. m\<lparr>gm_entities := length (eg_by_tgid g)\<rparr>) g)"
  by (simp add: graph_ok_parts) (simp add: bump_def)

lemma put_id_simps [simp]:
  "eg_by_tgid (put_id e g) = eg_by_tgid g" "eg_missing (put_id e g) = eg_missing g" "eg_metrics (put_id e g) = eg_metrics g"
  by (simp_all add: put_id_def)

lemma put_id_ok: "ids_ok opts g \<Longrightarrow> named opts e \<Longrightarrow> ids_ok opts (put_id e g)"
  by (auto simp: ids_ok_def put_id_def distinct_update update_conv')

lemma put_id_lookup:
  "named opts e \<Longrightarrow> map_of (eg_by_entity_id (put_id e g)) eid = (if eid = pe_entity_id e then Some e else map_of (eg_by_entity_id g) eid)"
  by (simp add: put_id_def update_conv' named_nonempty)

lemma end_reused_simps [simp]: "eg_by_tgid (end_reused e g) = eg_by_tgid g" "eg_missing (end_reused e g) = eg_missing g"
  by (simp_all add: end_reused_def split: option.split)

lemma end_reused_ok:
  assumes "ids_ok opts g" "slots_ok opts g"
  shows "ids_ok opts (end_reused e g)"
proof (cases "find_entity (pi_pid (pe_info e)) g")
  case None
  with assms show ?thesis by (simp add: end_reused_def)
next
  case (Some slot)
  then have "named opts slot" using assms(2) by (simp add: slots_ok_def find_entity_def)
  then have "named opts (slot\<lparr>pe_exited_unix_ns := Some t\<rparr>)" for t by (rule named_kept) simp_all
  with Some assms show ?thesis by (simp add: end_reused_def put_id_ok)
qed

lemma store_simps [simp]:
  "eg_by_tgid (store e g) = AList.update (pi_pid (pe_info e)) e (eg_by_tgid g)" "eg_missing (store e g) = eg_missing g"
  by (simp_all add: store_def Let_def)

lemma store_find: "find_entity pid (store e g) = (if pid = pi_pid (pe_info e) then Some e else find_entity pid g)"
  by (simp add: find_entity_def update_conv')

lemma store_ok:
  assumes "graph_ok opts g" "named opts e"
  shows "graph_ok opts (store e g)"
proof -
  let ?g1 = "end_reused e g"
  let ?g2 = "put_id e (?g1\<lparr>eg_by_tgid := AList.update (pi_pid (pe_info e)) e (eg_by_tgid ?g1)\<rparr>)"
  have "ids_ok opts ?g1" using assms by (simp add: end_reused_ok graph_ok_parts)
  then have "ids_ok opts (?g1\<lparr>eg_by_tgid := AList.update (pi_pid (pe_info e)) e (eg_by_tgid ?g1)\<rparr>)" by (simp add: ids_ok_def)
  then have "ids_ok opts ?g2" using assms(2) by (rule put_id_ok)
  moreover have "slots_ok opts ?g2"
    using assms by (auto simp: graph_ok_parts slots_ok_def distinct_update update_conv')
  ultimately show ?thesis unfolding store_def Let_def by (rule graph_ok_counted)
qed

lemma load_named:
  assumes "load opts v tgid now att g = Some e"
  shows "named opts e \<and> pi_pid (pe_info e) = tgid \<and> live e"
proof (cases "read_process (go_limits opts) tgid v")
  case (Inl err)
  with assms show ?thesis by (simp add: load_def)
next
  case (Inr info)
  define p where "p = (case parent_for info g of Some parent \<Rightarrow> pe_entity_id parent | None \<Rightarrow> [])"
  from assms Inr have e: "e = empty_entity\<lparr>pe_info := info, pe_entity_id := entity_id_of opts tgid (pi_start_ticks info), pe_identity := Observed,
            pe_attributes := att, pe_first_seen_unix_ns := now, pe_parent_entity_id := p\<rparr>"
    by (simp add: load_def p_def)
  have "pi_pid info = tgid" using Inr by (rule read_process_pid)
  then show ?thesis by (simp add: e named_def live_def empty_entity_def)
qed

lemma lookup_or_load_ok:
  assumes "graph_ok opts g" "lookup_or_load opts v tgid now g = (res, g')"
  shows "graph_ok opts g' \<and> eg_missing g' = eg_missing g \<and>
    (\<forall>e. res = Some e \<longrightarrow> named opts e \<and> pi_pid (pe_info e) = tgid \<and> live e \<and> find_entity tgid g' = Some e)"
  using assms load_named store_ok graph_ok_found [OF assms(1)]
  by (auto simp: lookup_or_load_def store_find split: if_splits option.splits)

section \<open>Every operation keeps the graph well-formed\<close>

lemma fork_ok:
  assumes "graph_ok opts g"
  shows "graph_ok opts (snd (graph_on_fork opts clk v sf r fork g))"
    and "eg_missing (snd (graph_on_fork opts clk v sf r fork g)) = eg_missing g"
proof -
  define g1 where "g1 = bump (\<lambda>m. m\<lparr>gm_forks := gm_forks m + 1\<rparr>) g"
  obtain parent g2 where look: "lookup_or_load opts v (rf_parent_tgid fork) (rr_time_unix_ns r) g1 = (parent, g2)" by fastforce
  have "graph_ok opts g1" "eg_missing g1 = eg_missing g" using assms by (simp_all add: g1_def)
  with lookup_or_load_ok [OF this(1) look] have g2: "graph_ok opts g2" "eg_missing g2 = eg_missing g" by simp_all
  obtain ticks identity where ticks: "child_ticks clk sf (rr_time_unix_ns r) fork = (ticks, identity)" by fastforce
  show "graph_ok opts (snd (graph_on_fork opts clk v sf r fork g))"
    unfolding graph_on_fork_def Let_def g1_def [symmetric] look ticks
    using assms g2 by (auto simp: named_def intro!: store_ok)
  show "eg_missing (snd (graph_on_fork opts clk v sf r fork g)) = eg_missing g"
    unfolding graph_on_fork_def Let_def g1_def [symmetric] look ticks using assms g2 by simp
qed

lemma exec_kernel_pid: "pi_pid (fst (exec_kernel exec info att)) = pi_pid info"
  by (simp add: exec_kernel_def drop_unavailable_def mark_unavailable_def Let_def split: option.split prod.split)

lemma exec_base_pid:
  assumes "\<forall>p. prior = Some p \<longrightarrow> pi_pid (pe_info p) = rx_tgid exec"
  shows "pi_pid (fst (exec_base opts clk v time exec prior)) = rx_tgid exec"
proof (cases "read_process (go_limits opts) (rx_tgid exec) v")
  case (Inr info)
  with read_process_pid [OF Inr] show ?thesis by (simp add: exec_base_def)
next
  case (Inl e)
  with assms show ?thesis
    by (auto simp: exec_base_def mark_unavailable_def Let_def split: option.split)
qed

lemma exec_ok:
  assumes "graph_ok opts g"
  shows "graph_ok opts (snd (graph_on_exec opts clk v v' r exec g))"
    and "eg_missing (snd (graph_on_exec opts clk v v' r exec g)) = eg_missing g"
proof -
  define g1 where "g1 = bump (\<lambda>m. m\<lparr>gm_execs := gm_execs m + 1\<rparr>) g"
  define prior0 where "prior0 = (case find_entity (rx_tgid exec) g1 of Some p \<Rightarrow> if live p then Some p else None | None \<Rightarrow> None)"
  obtain info0 identity att0 prior inferred where base: "exec_base opts clk v (rr_time_unix_ns r) exec prior0 = (info0, identity, att0, prior, inferred)"
    by (metis prod_cases5)
  obtain info att where kernel: "exec_kernel exec info0 att0 = (info, att)" by fastforce
  have ok1: "graph_ok opts g1" "eg_missing g1 = eg_missing g" using assms by (simp_all add: g1_def)
  have "\<forall>p. prior0 = Some p \<longrightarrow> pi_pid (pe_info p) = rx_tgid exec"
    using graph_ok_found [OF ok1(1)] by (auto simp: prior0_def split: option.splits if_splits)
  from exec_base_pid [OF this, of opts clk v "rr_time_unix_ns r"] exec_kernel_pid [of exec info0 att0]
  have pid: "pi_pid info = rx_tgid exec" by (simp add: base kernel)
  define g2 where "g2 = (if inferred then bump (\<lambda>m. m\<lparr>gm_inferred_identities := gm_inferred_identities m + 1\<rparr>) g1 else g1)"
  have ok2: "graph_ok opts g2" "eg_missing g2 = eg_missing g" using ok1 by (simp_all add: g2_def)
  obtain parent g' where look: "lookup_or_load opts v' (pi_ppid info) (rr_time_unix_ns r) g2 = (parent, g')" by fastforce
  have ok': "graph_ok opts g'" "eg_missing g' = eg_missing g" using lookup_or_load_ok [OF ok2(1) look] ok2(2) by simp_all
  show "graph_ok opts (snd (graph_on_exec opts clk v v' r exec g))"
    unfolding graph_on_exec_def g1_def [symmetric] Let_def prior0_def [symmetric] base prod.case kernel g2_def [symmetric] look
    using ok2(1) ok'(1) pid
    by (auto simp: named_def intro!: store_ok split: option.split)
  show "eg_missing (snd (graph_on_exec opts clk v v' r exec g)) = eg_missing g"
    unfolding graph_on_exec_def g1_def [symmetric] Let_def prior0_def [symmetric] base prod.case kernel g2_def [symmetric] look
    using ok2(2) ok'(2) by (simp split: option.split)
qed

lemma exit_ok:
  assumes "graph_ok opts g"
  shows "graph_ok opts (snd (graph_on_exit opts r exit g))"
    and "eg_missing (snd (graph_on_exit opts r exit g)) = eg_missing g"
proof -
  have "named opts (e\<lparr>pe_exited_unix_ns := t\<rparr>)" if "find_entity tgid g = Some e" for e t tgid
    using graph_ok_found [OF assms that] by (auto intro: named_kept)
  then show "graph_ok opts (snd (graph_on_exit opts r exit g))"
    using assms by (auto simp: graph_on_exit_def Let_def intro!: store_ok split: option.split)
  show "eg_missing (snd (graph_on_exit opts r exit g)) = eg_missing g"
    by (auto simp: graph_on_exit_def Let_def split: option.split)
qed

text \<open>The handlers that change one attribute of a looked-up process.\<close>

lemma credentials_ok:
  assumes "graph_ok opts g"
  shows "graph_ok opts (snd (graph_on_credentials opts v r change g))"
    and "eg_missing (snd (graph_on_credentials opts v r change g)) = eg_missing g"
proof -
  obtain res g1 where look: "lookup_or_load opts v (rc_tgid change) (rr_time_unix_ns r) g = (res, g1)" by fastforce
  note ok = lookup_or_load_ok [OF assms look]
  have "named opts (set_info (set_creds f) e)" if "res = Some e" for e f
    using ok that by (auto simp: set_info_def set_creds_def intro: named_kept)
  then show "graph_ok opts (snd (graph_on_credentials opts v r change g))"
    unfolding graph_on_credentials_def look using assms ok by (auto simp: Let_def intro!: store_ok split: option.split)
  show "eg_missing (snd (graph_on_credentials opts v r change g)) = eg_missing g"
    unfolding graph_on_credentials_def look using assms ok by (auto simp: Let_def split: option.split)
qed

lemma comm_ok:
  assumes "graph_ok opts g"
  shows "graph_ok opts (snd (graph_on_comm opts v r change g))"
    and "eg_missing (snd (graph_on_comm opts v r change g)) = eg_missing g"
proof -
  obtain res g1 where look: "lookup_or_load opts v (rm_tgid change) (rr_time_unix_ns r) g = (res, g1)" by fastforce
  note ok = lookup_or_load_ok [OF assms look]
  have "named opts (set_info (\<lambda>i. i\<lparr>pi_comm := c\<rparr>) e)" if "res = Some e" for e c
    using ok that by (auto simp: set_info_def intro: named_kept)
  then show "graph_ok opts (snd (graph_on_comm opts v r change g))"
    unfolding graph_on_comm_def look using assms ok by (auto simp: Let_def intro!: store_ok split: option.split)
  show "eg_missing (snd (graph_on_comm opts v r change g)) = eg_missing g"
    unfolding graph_on_comm_def look using assms ok by (auto simp: Let_def split: option.split)
qed

lemma namespaces_ok:
  assumes "graph_ok opts g"
  shows "graph_ok opts (snd (graph_on_namespaces opts v r change g))"
    and "eg_missing (snd (graph_on_namespaces opts v r change g)) = eg_missing g"
proof -
  obtain res g1 where look: "lookup_or_load opts v (rw_tgid change) (rr_time_unix_ns r) g = (res, g1)" by fastforce
  note ok = lookup_or_load_ok [OF assms look]
  have "named opts (set_info (\<lambda>i. i\<lparr>pi_namespaces := f i\<rparr>) e)" if "res = Some e" for e f
    using ok that by (auto simp: set_info_def intro: named_kept)
  then show "graph_ok opts (snd (graph_on_namespaces opts v r change g))"
    unfolding graph_on_namespaces_def look using assms ok by (auto simp: Let_def intro!: store_ok split: option.split)
  show "eg_missing (snd (graph_on_namespaces opts v r change g)) = eg_missing g"
    unfolding graph_on_namespaces_def look using assms ok by (auto simp: Let_def split: option.split)
qed

lemma session_ok:
  assumes "graph_ok opts g"
  shows "graph_ok opts (snd (graph_on_session opts v r change g))"
    and "eg_missing (snd (graph_on_session opts v r change g)) = eg_missing g"
proof -
  obtain res g1 where look: "lookup_or_load opts v (rn_tgid change) (rr_time_unix_ns r) g = (res, g1)" by fastforce
  note ok = lookup_or_load_ok [OF assms look]
  have "named opts (set_info (\<lambda>i. i\<lparr>pi_sid := a, pi_pgid := b\<rparr>) e)" if "res = Some e" for e a b
    using ok that by (auto simp: set_info_def intro: named_kept)
  then show "graph_ok opts (snd (graph_on_session opts v r change g))"
    unfolding graph_on_session_def look using assms ok by (auto intro!: store_ok split: option.split)
  show "eg_missing (snd (graph_on_session opts v r change g)) = eg_missing g"
    unfolding graph_on_session_def look using assms ok by (auto split: option.split)
qed

text \<open>The handlers that only look up two processes.\<close>

lemma two_lookups_ok:
  assumes "graph_ok opts g" "lookup_or_load opts v a now g = (x, g1)" "lookup_or_load opts v' b now g1 = (y, g2)"
  shows "graph_ok opts g2 \<and> eg_missing g2 = eg_missing g"
  using lookup_or_load_ok [OF assms(1,2)] lookup_or_load_ok [OF _ assms(3)] by auto

lemma apply_ok:
  assumes "graph_ok opts g"
  shows "graph_ok opts (snd (graph_apply opts clk fs r g)) \<and> eg_missing (snd (graph_apply opts clk fs r g)) = eg_missing g"
proof (cases "rr_payload r")
  case (Ptrace trace)
  obtain x g1 where one: "lookup_or_load opts (pf_first fs) (rp_tracer_tgid trace) (rr_time_unix_ns r) g = (x, g1)" by fastforce
  obtain y g2 where two: "lookup_or_load opts (pf_second fs) (rp_tgid trace) (rr_time_unix_ns r) g1 = (y, g2)" by fastforce
  show ?thesis using two_lookups_ok [OF assms one two] assms by (simp add: graph_apply_def Ptrace graph_on_ptrace_def one two Let_def)
next
  case (Signal sig)
  obtain x g1 where one: "lookup_or_load opts (pf_first fs) (rs_sender_tgid sig) (rr_time_unix_ns r) g = (x, g1)" by fastforce
  obtain y g2 where two: "lookup_or_load opts (pf_second fs) (rs_target_tgid sig) (rr_time_unix_ns r) g1 = (y, g2)" by fastforce
  show ?thesis using two_lookups_ok [OF assms one two] assms by (simp add: graph_apply_def Signal graph_on_signal_def one two Let_def)
qed (simp_all add: graph_apply_def assms fork_ok exec_ok exit_ok credentials_ok comm_ok namespaces_ok session_ok)

section \<open>Reconciling\<close>

lemma discover_ok:
  assumes "graph_ok opts (snd st)"
  shows "graph_ok opts (snd (discover opts scan now emit pid st)) \<and> eg_missing (snd (discover opts scan now emit pid st)) = eg_missing (snd st)"
proof (cases "load opts (ps_view scan pid) pid now Reconstructed (snd st)")
  case None
  then show ?thesis using assms by (auto simp: discover_def split_beta Let_def)
next
  case (Some loaded)
  then have "graph_ok opts (store loaded (snd st))" using assms load_named by (auto intro: store_ok)
  with Some show ?thesis using assms by (auto simp: discover_def split_beta Let_def)
qed

lemma discover_fold_ok:
  assumes "graph_ok opts (snd st)"
  shows "graph_ok opts (snd (fold (discover opts scan now emit) pids st)) \<and>
    eg_missing (snd (fold (discover opts scan now emit) pids st)) = eg_missing (snd st)"
  using assms
proof (induction pids arbitrary: st)
  case (Cons pid pids)
  with discover_ok [of opts st scan now emit pid] show ?case by simp
qed simp

lemma discover_types:
  assumes "\<forall>ev\<in>set (fst st). ev_type ev = ''process.discovered''"
  shows "\<forall>ev\<in>set (fst (fold (discover opts scan now emit) pids st)). ev_type ev = ''process.discovered''"
  using assms
proof (induction pids arbitrary: st)
  case (Cons pid pids)
  have "\<forall>ev\<in>set (fst (discover opts scan now emit pid st)). ev_type ev = ''process.discovered''"
    using Cons.prems by (auto simp: discover_def split_beta Let_def make_event_def split: option.split)
  with Cons.IH show ?case by simp
qed simp

lemma length_update_found: "map_of xs k = Some v \<Longrightarrow> length (AList.update k w xs) = length xs"
  by (induction xs) (auto split: if_splits)

lemma link_parent_ok:
  assumes "graph_ok opts g"
  shows "graph_ok opts (link_parent pid g) \<and> eg_missing (link_parent pid g) = eg_missing g"
proof (cases "find_entity pid g")
  case None
  with assms show ?thesis by (simp add: link_parent_def)
next
  case (Some e)
  note found = graph_ok_found [OF assms Some]
  show ?thesis
  proof (cases "pe_parent_entity_id e \<noteq> [] \<or> \<not> live e \<or> parent_for (pe_info e) g = None")
    case True
    with Some assms show ?thesis by (auto simp: link_parent_def)
  next
    case False
    then obtain parent where parent: "parent_for (pe_info e) g = Some parent" by auto
    define linked where "linked = e\<lparr>pe_parent_entity_id := pe_entity_id parent\<rparr>"
    have linked: "named opts linked" "pi_pid (pe_info linked) = pid" using found by (auto simp: linked_def intro: named_kept)
    define g' where "g' = g\<lparr>eg_by_tgid := AList.update pid linked (eg_by_tgid g),
        eg_by_entity_id := AList.update (pe_entity_id linked) linked (eg_by_entity_id g)\<rparr>"
    have eq: "link_parent pid g = g'" using Some False parent by (simp add: link_parent_def linked_def g'_def Let_def)
    have "ids_ok opts g'" using assms linked by (auto simp: g'_def graph_ok_parts ids_ok_def distinct_update update_conv')
    moreover have "slots_ok opts g'" using assms linked by (auto simp: g'_def graph_ok_parts slots_ok_def distinct_update update_conv')
    moreover have "length (eg_by_tgid g') = length (eg_by_tgid g)"
      using Some length_update_found by (simp add: g'_def find_entity_def)
    moreover have "eg_metrics g' = eg_metrics g" "eg_missing g' = eg_missing g" by (simp_all add: g'_def)
    ultimately show ?thesis using assms by (simp add: eq graph_ok_parts)
  qed
qed

lemma link_fold_ok:
  assumes "graph_ok opts g"
  shows "graph_ok opts (fold link_parent pids g) \<and> eg_missing (fold link_parent pids g) = eg_missing g"
  using assms
proof (induction pids arbitrary: g)
  case (Cons pid pids)
  with link_parent_ok [of opts g pid] show ?case by simp
qed simp

text \<open>An exit the scan infers: a tracked live process, not listed now and missed by the scan before.\<close>

definition inferred_exit :: "u64 \<Rightarrow> u32 list \<Rightarrow> entity_graph \<Rightarrow> process_event \<Rightarrow> bool" where
  "inferred_exit now present g ev \<longleftrightarrow>
     ev_type ev = ''process.exit'' \<and>
     (\<exists>pid e. (pid, e) \<in> set (eg_by_tgid g) \<and> live e \<and> pid \<notin> set present \<and> map_of (eg_missing g) pid \<noteq> None \<and>
       ev_process ev = Some (e\<lparr>pe_exited_unix_ns := Some now\<rparr>))"

lemma miss_fold:
  assumes "set slots \<subseteq> set (eg_by_tgid g)" "\<forall>ev\<in>set exits. inferred_exit now present g ev"
    and "\<forall>p\<in>set still. fst p \<notin> set present"
  shows "case fold (miss opts now present g) slots (exits, still) of (exits', still') \<Rightarrow>
    (\<forall>ev\<in>set exits'. inferred_exit now present g ev) \<and> (\<forall>p\<in>set still'. fst p \<notin> set present)"
  using assms
proof (induction slots arbitrary: exits still)
  case (Cons slot slots)
  obtain pid e where slot: "slot = (pid, e)" by fastforce
  obtain exits' still' where one: "miss opts now present g slot (exits, still) = (exits', still')" by fastforce
  define ev0 where "ev0 = (make_event opts ''process.exit'' now (scan_source Inferred) (Some (e\<lparr>pe_exited_unix_ns := Some now\<rparr>)) g)
      \<lparr>ev_unavailable := [(''process.exit_code'', not_supported_by_provider)]\<rparr>"
  have ev0: "ev_type ev0 = ''process.exit''" "ev_process ev0 = Some (e\<lparr>pe_exited_unix_ns := Some now\<rparr>)"
    by (simp_all add: ev0_def make_event_def)
  have "(pid, e) \<in> set (eg_by_tgid g)" using Cons.prems(1) slot by simp
  with ev0 have new: "inferred_exit now present g ev0" if "live e" "pid \<notin> set present" "map_of (eg_missing g) pid \<noteq> None"
    unfolding inferred_exit_def using that by blast
  have "\<forall>ev\<in>set exits'. inferred_exit now present g ev" "(\<forall>p\<in>set still'. fst p \<notin> set present)"
    using Cons.prems(2,3) one new by (auto simp: miss_def slot ev0_def [symmetric] split: if_splits)
  with Cons.IH [of exits' still'] Cons.prems(1) one show ?case by simp
qed simp

lemma store_exits_ok:
  assumes "graph_ok opts g" "\<forall>ev\<in>set exits. \<exists>e. ev_process ev = Some e \<and> named opts e"
  shows "graph_ok opts (fold (\<lambda>ev g. case ev_process ev of Some e \<Rightarrow> store e g | None \<Rightarrow> g) exits g)"
  using assms
proof (induction exits arbitrary: g)
  case (Cons ev exits)
  then obtain e where "ev_process ev = Some e" "named opts e" by auto
  with Cons store_ok [of opts g e] show ?case by simp
qed simp

lemma reconcile_spec:
  assumes "graph_ok opts g" "reconcile opts scan now emit g = (events, g')"
  shows "graph_ok opts g' \<and> (\<forall>p\<in>set (eg_missing g'). fst p \<notin> set (list_pids (ps_names scan))) \<and>
    (\<forall>ev\<in>set events. ev_type ev = ''process.exit'' \<longrightarrow>
       (\<exists>pid e. ev_process ev = Some e \<and> pi_pid (pe_info e) = pid \<and> pid \<notin> set (list_pids (ps_names scan)) \<and> map_of (eg_missing g) pid \<noteq> None))"
proof -
  define pids where "pids = list_pids (ps_names scan)"
  obtain discovered g1 where disc: "fold (discover opts scan now emit) pids ([], g) = (discovered, g1)" by fastforce
  have g1: "graph_ok opts g1" "eg_missing g1 = eg_missing g"
    using discover_fold_ok [of opts "([], g)" scan now emit pids] assms(1) disc by simp_all
  have types: "\<forall>ev\<in>set discovered. ev_type ev = ''process.discovered''"
    using discover_types [of "([], g)" opts scan now emit pids] disc by simp
  define g2 where "g2 = fold link_parent (map fst (eg_by_tgid g1)) g1"
  have g2: "graph_ok opts g2" "eg_missing g2 = eg_missing g" using link_fold_ok [OF g1(1)] g1(2) by (simp_all add: g2_def)
  obtain exits still where missed: "fold (miss opts now pids g2) (eg_by_tgid g2) ([], []) = (exits, still)" by fastforce
  have exits: "\<forall>ev\<in>set exits. inferred_exit now pids g2 ev" and still: "\<forall>p\<in>set still. fst p \<notin> set pids"
    using miss_fold [of "eg_by_tgid g2" g2 "[]" now pids "[]" opts] missed by simp_all
  have slot: "pi_pid (pe_info e) = pid \<and> named opts (e\<lparr>pe_exited_unix_ns := t\<rparr>)" if "(pid, e) \<in> set (eg_by_tgid g2)" for pid e t
  proof -
    have "map_of (eg_by_tgid g2) pid = Some e" using g2(1) that by (simp add: graph_ok_def)
    then have "pi_pid (pe_info e) = pid" "named opts e" using g2(1) by (auto simp: graph_ok_def)
    then show ?thesis by (auto intro: named_kept)
  qed
  define g3 where "g3 = bump (\<lambda>m. m\<lparr>gm_reconciled_exits := gm_reconciled_exits m + length exits\<rparr>) g2"
  have "graph_ok opts g3" using g2(1) by (simp add: g3_def)
  moreover have "\<forall>ev\<in>set exits. \<exists>e. ev_process ev = Some e \<and> named opts e"
    using exits slot by (auto simp: inferred_exit_def)
  ultimately have g4: "graph_ok opts (fold (\<lambda>ev g. case ev_process ev of Some e \<Rightarrow> store e g | None \<Rightarrow> g) exits g3)"
    by (rule store_exits_ok)
  have res: "events = discovered @ exits"
    "g' = (fold (\<lambda>ev g. case ev_process ev of Some e \<Rightarrow> store e g | None \<Rightarrow> g) exits g3)\<lparr>eg_missing := still\<rparr>"
    using assms(2) unfolding reconcile_def pids_def [symmetric] Let_def disc prod.case g2_def [symmetric] missed g3_def [symmetric] by simp_all
  have "graph_ok opts g'" using g4 by (simp add: res graph_ok_def)
  moreover have "\<exists>pid e. ev_process ev = Some e \<and> pi_pid (pe_info e) = pid \<and> pid \<notin> set pids \<and> map_of (eg_missing g) pid \<noteq> None"
    if "ev \<in> set events" "ev_type ev = ''process.exit''" for ev
  proof -
    have "ev \<in> set exits" using that types res by auto
    with exits have "inferred_exit now pids g2 ev" by blast
    then obtain pid e where pe: "(pid, e) \<in> set (eg_by_tgid g2)" "pid \<notin> set pids" "map_of (eg_missing g2) pid \<noteq> None"
        "ev_process ev = Some (e\<lparr>pe_exited_unix_ns := Some now\<rparr>)"
      by (auto simp: inferred_exit_def)
    with slot [OF pe(1)] g2(2) show ?thesis by auto
  qed
  ultimately show ?thesis using still res by (auto simp: pids_def)
qed

section \<open>Forgetting\<close>

text \<open>The live part of a graph, and that one graph keeps all of another's.\<close>

definition keeps_live :: "entity_graph \<Rightarrow> entity_graph \<Rightarrow> bool" where
  "keeps_live g g' \<longleftrightarrow>
     (\<forall>pid e. map_of (eg_by_tgid g) pid = Some e \<and> live e \<longrightarrow> map_of (eg_by_tgid g') pid = Some e) \<and>
     (\<forall>eid e. map_of (eg_by_entity_id g) eid = Some e \<and> live e \<longrightarrow> map_of (eg_by_entity_id g') eid = Some e)"

lemma keeps_live_trans: "keeps_live g g' \<Longrightarrow> keeps_live g' g'' \<Longrightarrow> keeps_live g g''"
  by (simp add: keeps_live_def)

lemma keeps_live_refl: "keeps_live g g"
  by (simp add: keeps_live_def)

lemma map_of_filter_snd:
  "distinct (map fst xs) \<Longrightarrow> map_of (filter (\<lambda>s. P (snd s)) xs) k = (case map_of xs k of Some v \<Rightarrow> if P v then Some v else None | None \<Rightarrow> None)"
proof (induction xs)
  case (Cons x xs)
  obtain k' v where x: "x = (k', v)" by fastforce
  have "map_of xs k' = None" using Cons.prems x by (simp add: map_of_eq_None_iff)
  with Cons x show ?case by auto
qed simp

text \<open>Evicting entities that have exited.\<close>

definition all_exited :: "entity_graph \<Rightarrow> string list \<Rightarrow> bool" where
  "all_exited g eids \<longleftrightarrow> (\<forall>eid\<in>set eids. \<exists>e. map_of (eg_by_entity_id g) eid = Some e \<and> \<not> live e)"

lemma length_delete_found:
  assumes "distinct (map fst xs)" "map_of xs k = Some v"
  shows "Suc (length (AList.delete k xs)) = length xs"
  using assms
proof (induction xs)
  case (Cons x xs)
  obtain k' v' where x: "x = (k', v')" by fastforce
  show ?case
  proof (cases "k' = k")
    case True
    then have "k \<notin> fst ` set xs" using Cons.prems x by auto
    with True x show ?thesis by simp
  next
    case False
    with Cons x show ?thesis by simp
  qed
qed simp

lemma evict_step:
  assumes "ids_ok opts g" "slots_ok opts g" "map_of (eg_by_entity_id g) eid = Some e" "\<not> live e"
  shows "ids_ok opts (evict eid g)" "slots_ok opts (evict eid g)" "keeps_live g (evict eid g)"
    "Suc (length (eg_by_entity_id (evict eid g))) = length (eg_by_entity_id g)" "eg_missing (evict eid g) = eg_missing g"
    "eid' \<noteq> eid \<Longrightarrow> map_of (eg_by_entity_id (evict eid g)) eid' = map_of (eg_by_entity_id g) eid'"
proof -
  define g' where "g' = g\<lparr>eg_by_tgid := (if find_entity (pi_pid (pe_info e)) g = Some e then AList.delete (pi_pid (pe_info e)) (eg_by_tgid g) else eg_by_tgid g),
                  eg_by_entity_id := AList.delete eid (eg_by_entity_id g)\<rparr>"
  have eq: "evict eid g = bump (\<lambda>m. m\<lparr>gm_evicted := gm_evicted m + 1\<rparr>) g'"
    using assms(3) by (simp add: evict_def g'_def Let_def)
  show "ids_ok opts (evict eid g)" using assms(1) unfolding eq by (auto simp: g'_def ids_ok_def distinct_delete delete_conv' split: if_splits)
  show "slots_ok opts (evict eid g)" using assms(2) unfolding eq by (auto simp: g'_def slots_ok_def distinct_delete delete_conv' split: if_splits)
  show "keeps_live g (evict eid g)" using assms(3,4) unfolding eq
    by (auto simp: g'_def keeps_live_def delete_conv' find_entity_def)
  show "Suc (length (eg_by_entity_id (evict eid g))) = length (eg_by_entity_id g)"
    unfolding eq using assms(1) length_delete_found [OF _ assms(3)] by (simp add: g'_def ids_ok_def)
  show "eg_missing (evict eid g) = eg_missing g" unfolding eq by (simp add: g'_def)
  show "map_of (eg_by_entity_id (evict eid g)) eid' = map_of (eg_by_entity_id g) eid'" if "eid' \<noteq> eid"
    using that unfolding eq by (simp add: g'_def)
qed

lemma evict_fold:
  assumes "ids_ok opts g" "slots_ok opts g" "all_exited g eids" "distinct eids"
  shows "ids_ok opts (fold evict eids g) \<and> slots_ok opts (fold evict eids g) \<and> keeps_live g (fold evict eids g) \<and>
    length (eg_by_entity_id (fold evict eids g)) + length eids = length (eg_by_entity_id g) \<and>
    eg_missing (fold evict eids g) = eg_missing g"
  using assms
proof (induction eids arbitrary: g)
  case Nil
  then show ?case by (simp add: keeps_live_refl)
next
  case (Cons eid eids)
  then obtain e where e: "map_of (eg_by_entity_id g) eid = Some e" "\<not> live e" by (auto simp: all_exited_def)
  note step = evict_step [OF Cons.prems(1,2) e]
  have "all_exited (evict eid g) eids"
    unfolding all_exited_def
  proof
    fix eid'
    assume mem: "eid' \<in> set eids"
    with Cons.prems(4) have "eid' \<noteq> eid" by auto
    with step(6) [OF this] mem Cons.prems(3)
    show "\<exists>e. map_of (eg_by_entity_id (evict eid g)) eid' = Some e \<and> \<not> live e" by (simp add: all_exited_def)
  qed
  from Cons.IH [OF step(1,2) this] Cons.prems(4) step(3,4,5) show ?case
    by (auto intro: keeps_live_trans)
qed

lemma exited_ids_spec:
  assumes "distinct (map fst (eg_by_entity_id g))"
  shows "all_exited g (map snd (exited_ids g))" "distinct (map snd (exited_ids g))"
    "length (exited_ids g) = length (filter (\<lambda>s. \<not> live (snd s)) (eg_by_entity_id g))"
proof -
  let ?f = "\<lambda>(i :: string, e). case pe_exited_unix_ns e of Some t \<Rightarrow> Some (t, i) | None \<Rightarrow> None"
  have mf: "List.map_filter ?f xs = map (\<lambda>s. (the (pe_exited_unix_ns (snd s)), fst s)) (filter (\<lambda>s. \<not> live (snd s)) xs)" for xs
    by (induction xs) (auto simp: List.map_filter_def live_def split: option.splits)
  have set_eq: "set (exited_ids g) = set (List.map_filter ?f (eg_by_entity_id g))" by (simp add: exited_ids_def)
  show "all_exited g (map snd (exited_ids g))"
    unfolding all_exited_def set_map set_eq mf using assms by (auto simp: map_of_eq_Some_iff)
  have "mset (map snd (exited_ids g)) = mset (map snd (List.map_filter ?f (eg_by_entity_id g)))" by (simp add: exited_ids_def)
  moreover have "distinct (map snd (List.map_filter ?f (eg_by_entity_id g)))"
    unfolding mf using assms by (simp add: comp_def distinct_map_filter)
  ultimately show "distinct (map snd (exited_ids g))" by (metis mset_eq_imp_distinct_iff)
  show "length (exited_ids g) = length (filter (\<lambda>s. \<not> live (snd s)) (eg_by_entity_id g))" by (simp add: exited_ids_def mf)
qed

lemma distinct_filter_fst: "distinct (map fst xs) \<Longrightarrow> distinct (map fst (filter P xs))"
  by (induction xs) auto

lemma purge_spec:
  assumes "graph_ok opts g"
  shows "graph_ok opts (purge opts now g) \<and> keeps_live g (purge opts now g) \<and> eg_missing (purge opts now g) = eg_missing g \<and>
    length (eg_by_entity_id (purge opts now g)) \<le>
      max (go_maximum_entities opts) (length (filter (\<lambda>s. live (snd s)) (eg_by_entity_id g)))"
proof -
  let ?gone = "expired_entity opts now"
  define g1 where "g1 = g\<lparr>eg_by_tgid := filter (\<lambda>s. \<not> ?gone (snd s)) (eg_by_tgid g),
                  eg_by_entity_id := filter (\<lambda>s. \<not> ?gone (snd s)) (eg_by_entity_id g)\<rparr>"
  have dist: "distinct (map fst (eg_by_tgid g))" "distinct (map fst (eg_by_entity_id g))" using assms by (simp_all add: graph_ok_def)
  note lookup = map_of_filter_snd [OF dist(1), of "\<lambda>e. \<not> ?gone e"] map_of_filter_snd [OF dist(2), of "\<lambda>e. \<not> ?gone e"]
  have alive: "live e \<Longrightarrow> \<not> ?gone e" for e by (simp add: live_def expired_entity_def)
  have ok1: "ids_ok opts g1" "slots_ok opts g1"
    using assms by (auto simp: g1_def ids_ok_def slots_ok_def graph_ok_def lookup distinct_filter_fst split: option.splits if_splits)
  have keep1: "keeps_live g g1" using alive by (simp add: g1_def keeps_live_def lookup)
  have live1: "filter (\<lambda>s. live (snd s)) (eg_by_entity_id g1) = filter (\<lambda>s. live (snd s)) (eg_by_entity_id g)"
    using alive by (auto simp: g1_def intro: filter_cong)
  define excess where "excess = length (eg_by_entity_id g1) - go_maximum_entities opts"
  define eids where "eids = map snd (take excess (exited_ids g1))"
  have d1: "distinct (map fst (eg_by_entity_id g1))" using ok1(1) by (simp add: ids_ok_def)
  note ex = exited_ids_spec [OF d1]
  have eids: "eids = take excess (map snd (exited_ids g1))" by (simp add: eids_def take_map)
  have "set eids \<subseteq> set (map snd (exited_ids g1))" unfolding eids by (rule set_take_subset)
  then have "all_exited g1 eids" using ex(1) unfolding all_exited_def by blast
  moreover have "distinct eids" using ex(2) by (simp add: eids distinct_take)
  ultimately have evicted: "ids_ok opts (fold evict eids g1)" "slots_ok opts (fold evict eids g1)" "keeps_live g1 (fold evict eids g1)"
    "length (eg_by_entity_id (fold evict eids g1)) + length eids = length (eg_by_entity_id g1)"
    "eg_missing (fold evict eids g1) = eg_missing g1"
    using evict_fold [OF ok1] by auto
  have eq: "purge opts now g = bump (\<lambda>m. m\<lparr>gm_entities := length (eg_by_tgid (fold evict eids g1))\<rparr>) (fold evict eids g1)"
    unfolding purge_def g1_def [symmetric] Let_def excess_def [symmetric] eids_def [symmetric] by (rule refl)
  have "graph_ok opts (purge opts now g)" unfolding eq using evicted(1,2) by (rule graph_ok_counted)
  moreover have "keeps_live g (purge opts now g)"
    using keeps_live_trans [OF keep1 evicted(3)] by (simp add: eq keeps_live_def)
  moreover have "eg_missing (purge opts now g) = eg_missing g" using evicted(5) by (simp add: eq g1_def)
  moreover have "length (eg_by_entity_id (purge opts now g)) \<le>
      max (go_maximum_entities opts) (length (filter (\<lambda>s. live (snd s)) (eg_by_entity_id g)))"
  proof -
    have "length (filter (\<lambda>s. live (snd s)) (eg_by_entity_id g1)) + length (filter (\<lambda>s. \<not> live (snd s)) (eg_by_entity_id g1)) =
        length (eg_by_entity_id g1)"
      by (rule sum_length_filter_compl)
    then have "length (eg_by_entity_id (fold evict eids g1)) \<le>
        max (go_maximum_entities opts) (length (filter (\<lambda>s. live (snd s)) (eg_by_entity_id g1)))"
      using evicted(4) ex(3) by (simp add: eids_def excess_def)
    then show ?thesis by (simp add: eq live1)
  qed
  ultimately show ?thesis by blast
qed

section \<open>Runs\<close>

text \<open>What happens to a graph between two scans, and what a graph can become.\<close>

inductive graph_step :: "entity_graph_options \<Rightarrow> entity_graph \<Rightarrow> entity_graph \<Rightarrow> bool" for opts where
  applied: "graph_step opts g (snd (graph_apply opts clk fs r g))"
| purged: "graph_step opts g (purge opts now g)"

inductive graph_reachable :: "entity_graph_options \<Rightarrow> entity_graph \<Rightarrow> bool" for opts where
  start: "graph_reachable opts entity_graph_new"
| step: "graph_reachable opts g \<Longrightarrow> graph_step opts g g' \<Longrightarrow> graph_reachable opts g'"
| scanned: "graph_reachable opts g \<Longrightarrow> graph_reachable opts (snd (reconcile opts scan now emit g))"

lemma graph_step_ok: "graph_step opts g g' \<Longrightarrow> graph_ok opts g \<Longrightarrow> graph_ok opts g' \<and> eg_missing g' = eg_missing g"
  by (induction rule: graph_step.induct) (use apply_ok purge_spec in blast)+

lemma graph_steps_ok:
  "(graph_step opts)\<^sup>*\<^sup>* g g' \<Longrightarrow> graph_ok opts g \<Longrightarrow> graph_ok opts g' \<and> eg_missing g' = eg_missing g"
  by (induction rule: rtranclp_induct) (auto dest: graph_step_ok)

lemma reachable_graph_ok: "graph_reachable opts g \<Longrightarrow> graph_ok opts g"
proof (induction rule: graph_reachable.induct)
  case start
  show ?case by (rule graph_ok_new)
next
  case (step g g')
  then show ?case using graph_step_ok by blast
next
  case (scanned g scan now emit)
  then show ?case using reconcile_spec by (metis prod.collapse)
qed

text \<open>
  C37. Identities are never confused: over every run of records, scans and purges, with whatever
  procfs shows, the entity in the slot of a pid has that pid, every entity is named by the digest of
  host, boot, its pid and its start time, an entity is found under its own name, and the entity
  count is the number of tracked pids.
\<close>

theorem entity_graph_identities:
  assumes "graph_reachable opts g"
  shows "(find_entity pid g = Some e \<longrightarrow> pi_pid (pe_info e) = pid \<and>
       pe_entity_id e = compute_entity_id (go_host_id opts) (go_boot_id opts) pid (pi_start_ticks (pe_info e))) \<and>
    (map_of (eg_by_entity_id g) eid = Some e \<longrightarrow> pe_entity_id e = eid \<and>
       eid = compute_entity_id (go_host_id opts) (go_boot_id opts) (pi_pid (pe_info e)) (pi_start_ticks (pe_info e))) \<and>
    gm_entities (eg_metrics g) = card (dom (map_of (eg_by_tgid g)))"
proof -
  have ok: "graph_ok opts g" using assms by (rule reachable_graph_ok)
  then have "distinct (map fst (eg_by_tgid g))" by (simp add: graph_ok_def)
  then have "card (dom (map_of (eg_by_tgid g))) = length (eg_by_tgid g)"
    by (metis distinct_card dom_map_of_conv_image_fst length_map set_map)
  with ok show ?thesis by (auto simp: graph_ok_def find_entity_def named_def entity_id_of_def)
qed

text \<open>
  Forgetting never touches a live process and bounds the memory: a purge keeps every entity
  that has not exited in both maps, and leaves at most as many entities as the configured maximum
  or as there are live ones.
\<close>

theorem purge_keeps_live:
  assumes "graph_reachable opts g"
  shows "(find_entity pid g = Some e \<and> live e \<longrightarrow> find_entity pid (purge opts now g) = Some e) \<and>
    (map_of (eg_by_entity_id g) eid = Some e \<and> live e \<longrightarrow> map_of (eg_by_entity_id (purge opts now g)) eid = Some e) \<and>
    length (eg_by_entity_id (purge opts now g)) \<le>
      max (go_maximum_entities opts) (length (filter (\<lambda>s. live (snd s)) (eg_by_entity_id g)))"
  using purge_spec [OF reachable_graph_ok [OF assms], of now] by (auto simp: keeps_live_def find_entity_def)

text \<open>
  C38. An exit is inferred only after two scans in a row: if a scan reports the exit of a process
  that no provider reported, neither this scan nor the scan before listed its pid, whatever records
  and purges came in between.
\<close>

theorem inferred_exit_missed_twice:
  assumes "graph_reachable opts g0" "reconcile opts scan1 now1 emit1 g0 = (events1, g1)" "(graph_step opts)\<^sup>*\<^sup>* g1 g2"
    and "reconcile opts scan2 now2 emit2 g2 = (events2, g3)" "ev \<in> set events2" "ev_type ev = ''process.exit''"
  shows "\<exists>e. ev_process ev = Some e \<and> pi_pid (pe_info e) \<notin> set (list_pids (ps_names scan1)) \<and>
    pi_pid (pe_info e) \<notin> set (list_pids (ps_names scan2))"
proof -
  have "graph_ok opts g0" using assms(1) by (rule reachable_graph_ok)
  from reconcile_spec [OF this assms(2)]
  have g1: "graph_ok opts g1" "\<forall>p\<in>set (eg_missing g1). fst p \<notin> set (list_pids (ps_names scan1))" by auto
  have g2: "graph_ok opts g2" "eg_missing g2 = eg_missing g1" using graph_steps_ok [OF assms(3) g1(1)] by auto
  from reconcile_spec [OF g2(1) assms(4)] assms(5,6) obtain e where e: "ev_process ev = Some e"
    "pi_pid (pe_info e) \<notin> set (list_pids (ps_names scan2))" "map_of (eg_missing g2) (pi_pid (pe_info e)) \<noteq> None"
    by auto
  from e(3) obtain t where "(pi_pid (pe_info e), t) \<in> set (eg_missing g1)" using g2(2) by (auto dest: map_of_SomeD)
  with g1(2) e show ?thesis by force
qed

section \<open>A sample run\<close>

definition sample_graph_options :: entity_graph_options where
  "sample_graph_options = \<lparr>go_host_id = ''host'', go_boot_id = ''boot'', go_limits = sample_limits, go_exit_grace_ns = 30000000000,
     go_maximum_entities = 65536, go_maximum_ancestry = 8\<rparr>"

definition sample_clock :: clock_domain where
  "sample_clock = \<lparr>boot_offset_ns = 0, monotonic_offset_ns = 0, ticks_per_second = 100\<rparr>"

definition sample_fork :: raw_record where
  "sample_fork = \<lparr>rr_time_unix_ns = 5, rr_source = scan_source Observed,
     rr_payload = Fork \<lparr>rf_parent_tgid = 0, rf_parent_pid = 0, rf_child_tgid = 7, rf_child_pid = 7, rf_child_start_ticks = Some 99\<rparr>\<rparr>"

definition sample_procfs :: procfs where
  "sample_procfs = \<lparr>pf_first = sample_view, pf_second = sample_view, pf_stat = Unopenable 2\<rparr>"

definition sample_graph :: entity_graph where
  "sample_graph = snd (graph_apply sample_graph_options sample_clock sample_procfs sample_fork entity_graph_new)"

definition empty_scan :: proc_scan where
  "empty_scan = \<lparr>ps_names = [''self''], ps_stat = (\<lambda>_. Unopenable 2), ps_view = (\<lambda>_. sample_view)\<rparr>"

lemma sample_graph_reachable: "graph_reachable sample_graph_options sample_graph"
  unfolding sample_graph_def by (intro graph_reachable.step [OF graph_reachable.start] graph_step.applied)

lemma sample_graph_slots:
  "\<exists>e. eg_by_tgid sample_graph = [(7, e)] \<and> live e \<and> pi_pid (pe_info e) = 7 \<and> pi_ppid (pe_info e) = 0 \<and> pe_parent_entity_id e = []"
proof -
  define fork where "fork = \<lparr>rf_parent_tgid = 0, rf_parent_pid = 0, rf_child_tgid = 7, rf_child_pid = 7, rf_child_start_ticks = Some (99 :: u64)\<rparr>"
  define g1 where "g1 = bump (\<lambda>m. m\<lparr>gm_forks := gm_forks m + 1\<rparr>) entity_graph_new"
  define child where "child = \<lparr>pe_entity_id = entity_id_of sample_graph_options 7 99, pe_parent_entity_id = [], pe_exec_gen = 0,
     pe_identity = Observed, pe_attributes = Inferred,
     pe_info = (fork_info fork None)\<lparr>pi_pid := 7, pi_ppid := 0, pi_start_ticks := 99, pi_threads := 1\<rparr>,
     pe_first_seen_unix_ns = rr_time_unix_ns sample_fork, pe_exited_unix_ns = None\<rparr>"
  have "sample_graph = snd (graph_on_fork sample_graph_options sample_clock sample_view (Unopenable 2) sample_fork fork entity_graph_new)"
    by (simp add: sample_graph_def graph_apply_def sample_fork_def sample_procfs_def fork_def)
  also have "\<dots> = store child g1"
    unfolding graph_on_fork_def Let_def g1_def [symmetric]
    by (simp add: fork_def child_def lookup_or_load_def child_ticks_def empty_entity_def)
  finally have stored: "sample_graph = store child g1" .
  have "eg_by_tgid sample_graph = [(7, child)]"
    unfolding stored by (simp add: child_def g1_def entity_graph_new_def)
  then show ?thesis by (simp add: child_def live_def)
qed

theorem entity_graph_identities_witness:
  "\<exists>e. find_entity 7 sample_graph = Some e \<and> pe_entity_id e = compute_entity_id ''host'' ''boot'' 7 (pi_start_ticks (pe_info e))"
proof -
  obtain e where e: "find_entity 7 sample_graph = Some e" using sample_graph_slots by (auto simp: find_entity_def)
  with entity_graph_identities [OF sample_graph_reachable, of 7 e] show ?thesis by (auto simp: sample_graph_options_def)
qed

theorem purge_keeps_live_witness:
  "\<exists>e. find_entity 7 sample_graph = Some e \<and> live e \<and> find_entity 7 (purge sample_graph_options 1000 sample_graph) = Some e"
proof -
  obtain e where e: "find_entity 7 sample_graph = Some e" "live e" using sample_graph_slots by (auto simp: find_entity_def)
  with purge_keeps_live [OF sample_graph_reachable, of 7 e 1000] show ?thesis by auto
qed

lemma empty_scan_pids: "list_pids (ps_names empty_scan) = []"
proof -
  have "parse_u32 ''self'' = None"
    by (simp add: parse_u32_def parse_unsigned_def trim_def blank_def space_def digit_of_def Let_def)
  then show ?thesis by (simp add: list_pids_def empty_scan_def List.map_filter_def)
qed

text \<open>A scan that lists nothing, on a graph with one live process without a parent.\<close>

lemma empty_scan_reconcile:
  assumes "eg_by_tgid g = [(7, e)]" "live e" "pi_ppid (pe_info e) = 0"
  shows "reconcile opts empty_scan now emit g =
    (let exits = (if map_of (eg_missing g) 7 \<noteq> None
        then [(make_event opts ''process.exit'' now (scan_source Inferred) (Some (e\<lparr>pe_exited_unix_ns := Some now\<rparr>)) g)
             \<lparr>ev_unavailable := [(''process.exit_code'', not_supported_by_provider)]\<rparr>] else [])
     in (exits, (fold (\<lambda>ev g. case ev_process ev of Some e \<Rightarrow> store e g | None \<Rightarrow> g) exits
             (bump (\<lambda>m. m\<lparr>gm_reconciled_exits := gm_reconciled_exits m + length exits\<rparr>) g))
          \<lparr>eg_missing := (if map_of (eg_missing g) 7 \<noteq> None then [] else [(7, now)])\<rparr>))"
proof -
  have "fold link_parent (map fst (eg_by_tgid g)) g = g"
    using assms by (simp add: link_parent_def parent_for_def find_entity_def)
  then show ?thesis
    unfolding reconcile_def empty_scan_pids Let_def using assms by (simp add: miss_def)
qed

theorem inferred_exit_missed_twice_witness:
  "\<exists>ev e. ev \<in> set (fst (reconcile sample_graph_options empty_scan 20 True (snd (reconcile sample_graph_options empty_scan 10 True sample_graph)))) \<and>
     ev_process ev = Some e \<and> pi_pid (pe_info e) \<notin> set (list_pids (ps_names empty_scan))"
proof -
  obtain e where e: "eg_by_tgid sample_graph = [(7, e)]" "live e" "pi_ppid (pe_info e) = 0" using sample_graph_slots by auto
  have none: "eg_missing sample_graph = []"
    using apply_ok [OF graph_ok_new, of sample_graph_options sample_clock sample_procfs sample_fork]
    by (simp add: sample_graph_def entity_graph_new_def)
  define g1 where "g1 = snd (reconcile sample_graph_options empty_scan 10 True sample_graph)"
  have first: "reconcile sample_graph_options empty_scan 10 True sample_graph = ([], g1)"
    using empty_scan_reconcile [OF e] none by (simp add: g1_def Let_def)
  have g1: "eg_by_tgid g1 = [(7, e)]" "eg_missing g1 = [(7, 10)]"
    using empty_scan_reconcile [OF e, of sample_graph_options 10 True] none e(1) by (simp_all add: g1_def Let_def)
  obtain events2 g3 where second: "reconcile sample_graph_options empty_scan 20 True g1 = (events2, g3)" by fastforce
  have "\<exists>ev\<in>set events2. ev_type ev = ''process.exit''"
    using empty_scan_reconcile [OF g1(1) e(2,3), of sample_graph_options 20 True] g1(2) second by (auto simp: Let_def make_event_def)
  then obtain ev where ev: "ev \<in> set events2" "ev_type ev = ''process.exit''" by blast
  from inferred_exit_missed_twice [OF sample_graph_reachable first rtranclp.rtrancl_refl second ev] ev second
  show ?thesis by (auto simp: g1_def)
qed

end
