(* ===== verification/Command_Auth.thy ===== *)
theory Command_Auth
  imports Sha256 "HOL-Library.List_Lexorder"
begin

text \<open>
  Authorisation of Manager commands, \<^verbatim>\<open>src/sensor/command_auth.cpp\<close>: the command as it is acted on, the
  bytes a signature covers, base64, the pinned keys and their file. ECDSA verification is the
  argument \<open>verify_raw\<close> (OpenSSL); what the file system shows is an argument of each operation.
\<close>

section \<open>Commands\<close>

type_synonym bytes = "byte list"

definition alnum :: "byte \<Rightarrow> bool" where
  "alnum c \<longleftrightarrow> 0x30 \<le> c \<and> c \<le> 0x39 \<or> 0x41 \<le> c \<and> c \<le> 0x5A \<or> 0x61 \<le> c \<and> c \<le> 0x7A"

definition is_valid_identifier :: "bytes \<Rightarrow> bool" where
  "is_valid_identifier v \<longleftrightarrow> v \<noteq> [] \<and> length v \<le> 128 \<and>
     list_all (\<lambda>c. alnum c \<or> c = 0x2D \<or> c = 0x5F \<or> c = 0x2E) v"

datatype command_action =
    Kill_process | Collect_process_info | Collect_network_connections | Collect_file | Quarantine_file
  | Isolate_host | Release_host_isolation

fun action_text :: "command_action \<Rightarrow> string" where
  "action_text Kill_process = ''KILL_PROCESS''"
| "action_text Collect_process_info = ''COLLECT_PROCESS_INFO''"
| "action_text Collect_network_connections = ''COLLECT_NETWORK_CONNECTIONS''"
| "action_text Collect_file = ''COLLECT_FILE''"
| "action_text Quarantine_file = ''QUARANTINE_FILE''"
| "action_text Isolate_host = ''ISOLATE_HOST''"
| "action_text Release_host_isolation = ''RELEASE_HOST_ISOLATION''"

record command_authorization =
  au_algorithm :: bytes
  au_key_id :: bytes
  au_signature :: bytes

record endpoint_command =
  ec_command_id :: bytes
  ec_agent_id :: bytes
  ec_host_id :: bytes
  ec_correlation_id :: bytes
  ec_action :: command_action
  ec_created_unix :: int
  ec_expires_unix :: int
  ec_pid :: u32
  ec_start_ticks :: u64
  ec_path :: bytes
  ec_boot_id :: bytes
  ec_authorization :: "command_authorization option"

section \<open>What is signed\<close>

definition sign_field :: "string \<Rightarrow> bytes \<Rightarrow> bytes" where
  "sign_field name v = ascii name @ ascii '':'' @ ascii (to_string (length v)) @ ascii '':'' @ v @ [0x0A]"

definition command_signing_input :: "endpoint_command \<Rightarrow> bytes" where
  "command_signing_input command =
     ascii ''panopticon-command-auth/1'' @ [0x0A] @
     sign_field ''schema_version'' (ascii (if ec_boot_id command = [] then ''1'' else ''2'')) @
     sign_field ''command_id'' (ec_command_id command) @
     sign_field ''correlation_id'' (ec_correlation_id command) @
     sign_field ''agent_id'' (ec_agent_id command) @
     sign_field ''host_id'' (ec_host_id command) @
     sign_field ''action'' (ascii (action_text (ec_action command))) @
     sign_field ''created_at'' (ascii (signed_text (ec_created_unix command))) @
     sign_field ''expires_at'' (ascii (signed_text (ec_expires_unix command))) @
     sign_field ''pid'' (ascii (to_string (unat (ec_pid command)))) @
     sign_field ''start_time_ticks'' (ascii (to_string (unat (ec_start_ticks command)))) @
     sign_field ''boot_id'' (ec_boot_id command) @
     sign_field ''path'' (ec_path command)"

definition signing_key_id :: "bytes \<Rightarrow> bytes" where
  "signing_key_id point = ascii (take 16 (sha256_hex point))"

section \<open>Base64\<close>

definition base64_value :: "byte \<Rightarrow> nat option" where
  "base64_value c =
     (if 0x41 \<le> c \<and> c \<le> 0x5A then Some (unat c - 65)
      else if 0x61 \<le> c \<and> c \<le> 0x7A then Some (unat c - 97 + 26)
      else if 0x30 \<le> c \<and> c \<le> 0x39 then Some (unat c - 48 + 52)
      else if c = 0x2B then Some 62
      else if c = 0x2F then Some 63
      else None)"

text \<open>
  The inner loop over the characters of one group: \<open>offset\<close> counts them, \<open>padding\<close> the equals signs
  seen; the values are collected in \<open>quad\<close>.
\<close>

fun quad_loop :: "bool \<Rightarrow> nat \<Rightarrow> nat \<Rightarrow> nat list \<Rightarrow> bytes \<Rightarrow> (nat list \<times> nat) option" where
  "quad_loop final offset padding quad [] = Some (quad, padding)"
| "quad_loop final offset padding quad (c # cs) =
     (if c = 0x3D then
        if \<not> final \<or> offset < 2 then None else quad_loop final (offset + 1) (padding + 1) (quad @ [0]) cs
      else if padding \<noteq> 0 then None
      else case base64_value c of None \<Rightarrow> None | Some v \<Rightarrow> quad_loop final (offset + 1) padding (quad @ [v]) cs)"

definition quad_bytes :: "nat list \<Rightarrow> nat \<Rightarrow> bytes option" where
  "quad_bytes quad padding =
     (if padding = 1 \<and> quad ! 2 AND 3 \<noteq> 0 \<or> padding = 2 \<and> quad ! 1 AND 0x0F \<noteq> 0 then None
      else let group = push_bit 18 (quad ! 0) OR push_bit 12 (quad ! 1) OR push_bit 6 (quad ! 2) OR quad ! 3
           in Some (of_nat (drop_bit 16 group) # (if padding < 2 then [of_nat (drop_bit 8 group)] else []) @
                    (if padding < 1 then [of_nat group] else [])))"

fun base64_loop :: "bytes \<Rightarrow> bytes \<Rightarrow> bytes option" where
  "base64_loop (a # b # c # d # rest) out =
     (case quad_loop (rest = []) 0 0 [] [a, b, c, d] of
        None \<Rightarrow> None
      | Some (quad, padding) \<Rightarrow>
          (case quad_bytes quad padding of None \<Rightarrow> None | Some bs \<Rightarrow> base64_loop rest (out @ bs)))"
| "base64_loop _ out = Some out"

definition decode_base64 :: "bytes \<Rightarrow> bytes option" where
  "decode_base64 str = (if str = [] \<or> length str mod 4 \<noteq> 0 then None else base64_loop str [])"

text \<open>The encoder of the response profile header in \<^verbatim>\<open>src/sensor/command_channel.cpp\<close>.\<close>

definition base64_alphabet :: bytes where
  "base64_alphabet = ascii ''ABCDEFGHIJKLMNOPQRSTUVWXYZabcdefghijklmnopqrstuvwxyz0123456789+/''"

fun response_profile_header :: "bytes \<Rightarrow> bytes" where
  "response_profile_header [] = []"
| "response_profile_header [a] =
     [base64_alphabet ! unat (drop_bit 2 a), base64_alphabet ! unat (push_bit 4 (a AND 3)), 0x3D, 0x3D]"
| "response_profile_header [a, b] =
     [base64_alphabet ! unat (drop_bit 2 a), base64_alphabet ! unat (push_bit 4 (a AND 3) OR drop_bit 4 b),
      base64_alphabet ! unat (push_bit 2 (b AND 15)), 0x3D]"
| "response_profile_header (a # b # c # rest) =
     [base64_alphabet ! unat (drop_bit 2 a), base64_alphabet ! unat (push_bit 4 (a AND 3) OR drop_bit 4 b),
      base64_alphabet ! unat (push_bit 2 (b AND 15) OR drop_bit 6 c), base64_alphabet ! unat (c AND 63)]
     @ response_profile_header rest"

section \<open>The keyring\<close>

datatype authorization_verdict = Valid | Missing | Unknown_key | Bad_signature | Unsigned_window

text \<open>Size, modification and change time, device and inode: what tells two versions of a file apart.\<close>

type_synonym file_identity = "int \<times> int \<times> int \<times> u64 \<times> u64"

record command_keyring =
  kr_has_path :: bool
  kr_label :: string
  kr_keys :: "(bytes \<times> bytes) list"
  kr_file :: file_identity
  kr_last_error :: string

text \<open>\<open>verify_raw\<close> gives an error for a point that is not on the curve.\<close>

type_synonym verifier = "bytes \<Rightarrow> bytes \<Rightarrow> bytes \<Rightarrow> bool result"

definition usable_point :: "verifier \<Rightarrow> bytes \<Rightarrow> bool" where
  "usable_point verify_raw point = succeeded (verify_raw point [] (replicate 64 0))"

text \<open>\<open>emplace\<close> keeps the first key of an id.\<close>

definition add_key :: "bytes \<Rightarrow> (bytes \<times> bytes) list \<Rightarrow> (bytes \<times> bytes) list" where
  "add_key point ks =
     (if map_of ks (signing_key_id point) = None then ks @ [(signing_key_id point, point)] else ks)"

definition key_blank :: "byte \<Rightarrow> bool" where
  "key_blank c \<longleftrightarrow> c = 0x20 \<or> c = 0x09 \<or> c = 0x0D"

definition trimmed :: "bytes \<Rightarrow> bytes" where
  "trimmed str = rev (dropWhile key_blank (rev (dropWhile key_blank str)))"

text \<open>One line of the key file: nothing, an error, or a point.\<close>

definition key_line :: "verifier \<Rightarrow> string \<Rightarrow> bytes \<Rightarrow> bytes option result" where
  "key_line verify_raw where_at line =
     (let str = trimmed line
      in if str = [] \<or> hd str = 0x23 then Inr None
         else case decode_base64 (takeWhile (\<lambda>c. c \<noteq> 0x20 \<and> c \<noteq> 0x09) str) of
                None \<Rightarrow> Inl (Error invalid_input (where_at @ '': not a base64 65-byte P-256 point''))
              | Some point \<Rightarrow>
                  if length point \<noteq> 65 then Inl (Error invalid_input (where_at @ '': not a base64 65-byte P-256 point''))
                  else if \<not> usable_point verify_raw point then Inl (Error invalid_input (where_at @ '': not a valid P-256 public key''))
                  else Inr (Some point))"

text \<open>What the key file is when it is read: its name, whether it may be trusted, its lines.\<close>

record key_file =
  kf_path :: string
  kf_untrusted :: string
  kf_lines :: "bytes list option"

fun read_lines :: "verifier \<Rightarrow> string \<Rightarrow> nat \<Rightarrow> bytes list \<Rightarrow> (bytes \<times> bytes) list \<Rightarrow> (bytes \<times> bytes) list result" where
  "read_lines verify_raw path number [] ks = Inr ks"
| "read_lines verify_raw path number (line # ls) ks =
     (case key_line verify_raw (path @ '' line '' @ to_string (number + 1)) line of
        Inl e \<Rightarrow> Inl e
      | Inr None \<Rightarrow> read_lines verify_raw path (number + 1) ls ks
      | Inr (Some point) \<Rightarrow> read_lines verify_raw path (number + 1) ls (add_key point ks))"

definition read_file :: "verifier \<Rightarrow> string \<Rightarrow> key_file \<Rightarrow> (bytes \<times> bytes) list result" where
  "read_file verify_raw label file =
     (if kf_untrusted file \<noteq> [] then Inl (Error invalid_input (''the '' @ label @ '' is not trustworthy: '' @ kf_untrusted file))
      else case kf_lines file of
             None \<Rightarrow> Inl (Error io_failure (''cannot read the '' @ label @ '' '' @ kf_path file))
           | Some ls \<Rightarrow> read_lines verify_raw (kf_path file) 0 ls [])"

definition no_file :: file_identity where "no_file = (- 1, - 1, - 1, 0, 0)"

definition keyring_load :: "verifier \<Rightarrow> string \<Rightarrow> key_file \<Rightarrow> file_identity option \<Rightarrow> command_keyring result" where
  "keyring_load verify_raw label file info =
     (case read_file verify_raw label file of
        Inl e \<Rightarrow> Inl e
      | Inr ks \<Rightarrow> Inr \<lparr>kr_has_path = True, kr_label = label, kr_keys = ks,
                   kr_file = (case info of Some i \<Rightarrow> i | None \<Rightarrow> no_file), kr_last_error = []\<rparr>)"

definition from_points :: "verifier \<Rightarrow> bytes list \<Rightarrow> command_keyring" where
  "from_points verify_raw points =
     \<lparr>kr_has_path = False, kr_label = ''command signing key file'',
      kr_keys = fold (\<lambda>p ks. if usable_point verify_raw p then add_key p ks else ks) points [],
      kr_file = no_file, kr_last_error = []\<rparr>"

definition keyring_verify :: "verifier \<Rightarrow> command_keyring \<Rightarrow> bytes \<Rightarrow> bytes \<Rightarrow> bytes \<Rightarrow> authorization_verdict" where
  "keyring_verify verify_raw ring key_id data signature =
     (case map_of (kr_keys ring) key_id of
        None \<Rightarrow> Unknown_key
      | Some point \<Rightarrow> if verify_raw point data signature = Inr True then Valid else Bad_signature)"

definition keyring_check :: "verifier \<Rightarrow> command_keyring \<Rightarrow> endpoint_command \<Rightarrow> authorization_verdict" where
  "keyring_check verify_raw ring command =
     (case ec_authorization command of
        None \<Rightarrow> Missing
      | Some authorization \<Rightarrow>
          if au_algorithm authorization \<noteq> ascii ''ES256'' then Bad_signature
          else case map_of (kr_keys ring) (au_key_id authorization) of
                 None \<Rightarrow> Unknown_key
               | Some point \<Rightarrow>
                   if ec_created_unix command \<le> 0 then Unsigned_window
                   else if verify_raw point (command_signing_input command) (au_signature authorization) = Inr True
                   then Valid else Bad_signature)"

text \<open>\<open>refresh\<close>: \<open>info\<close> is what \<open>stat\<close> gives, with the seconds of both times; \<open>now\<close> the current time.\<close>

definition keyring_refresh ::
  "verifier \<Rightarrow> (file_identity \<times> int \<times> int) option \<Rightarrow> int \<Rightarrow> key_file \<Rightarrow> command_keyring \<Rightarrow> command_keyring" where
  "keyring_refresh verify_raw info now file ring =
     (if \<not> kr_has_path ring then ring
      else case info of
             None \<Rightarrow> ring\<lparr>kr_last_error := ''the '' @ kr_label ring @ '' is not readable; the previous keys stay in force''\<rparr>
           | Some (ident, mtime_sec, ctime_sec) \<Rightarrow>
               let racy = (now - 1 \<le> mtime_sec \<or> now - 1 \<le> ctime_sec)
               in if \<not> racy \<and> ident = kr_file ring then ring
                  else case read_file verify_raw (kr_label ring) file of
                         Inl e \<Rightarrow> ring\<lparr>kr_file := ident, kr_last_error := message e @ ''; the previous keys stay in force''\<rparr>
                       | Inr ks \<Rightarrow> ring\<lparr>kr_file := ident, kr_keys := ks, kr_last_error := []\<rparr>)"

definition keyring_size :: "command_keyring \<Rightarrow> nat" where
  "keyring_size ring = length (kr_keys ring)"

definition key_ids :: "command_keyring \<Rightarrow> bytes list" where
  "key_ids ring = sort (map fst (kr_keys ring))"

end
