(* ===== verification/Command_Ledger.thy ===== *)
theory Command_Ledger
  imports Command_Auth "HOL-Library.AList"
begin

text \<open>
  The durable record of the commands an endpoint acted on, the class \<open>command_ledger\<close> of
  \<^verbatim>\<open>src/sensor/command_channel.cpp\<close>: its file, one tab-separated record per line, is part of the state, and
  every write, sync and open may fail. The map of entries is a list of pairs with distinct keys;
  where the code iterates over it, it is taken in the order of the keys.
\<close>

section \<open>Text\<close>

definition maximum_command_id_bytes :: nat where "maximum_command_id_bytes = 120"

definition maximum_detail_bytes :: nat where "maximum_detail_bytes = 400"

definition command_id_ok :: "bytes \<Rightarrow> bool" where
  "command_id_ok i \<longleftrightarrow> length i \<le> maximum_command_id_bytes \<and> is_valid_identifier i"

definition clean :: "nat \<Rightarrow> bytes \<Rightarrow> bytes" where
  "clean maximum str = map (\<lambda>c. if 0x20 \<le> c \<and> c < 0x7F then c else 0x3F) (take maximum str)"

definition reason_code_ok :: "bytes \<Rightarrow> bool" where
  "reason_code_ok reason \<longleftrightarrow> reason \<noteq> [] \<and> length reason \<le> 48 \<and> list_all (\<lambda>c. 0x61 \<le> c \<and> c \<le> 0x7A \<or> c = 0x5F) reason"

definition outcome_ok :: "bytes \<Rightarrow> bool" where
  "outcome_ok outcome \<longleftrightarrow> outcome = ascii ''succeeded'' \<or> outcome = ascii ''failed'' \<or> outcome = ascii ''rejected'' \<or>
     outcome = ascii ''indeterminate''"

fun split_tabs :: "bytes \<Rightarrow> bytes list" where
  "split_tabs [] = [[]]"
| "split_tabs (c # cs) = (if c = 0x09 then [] # split_tabs cs else (c # hd (split_tabs cs)) # tl (split_tabs cs))"

text \<open>\<open>std::getline\<close> over a text; \<open>line\<close> is what the current line has so far.\<close>

fun getlines :: "bytes \<Rightarrow> bytes \<Rightarrow> bytes list" where
  "getlines line [] = (if line = [] then [] else [line])"
| "getlines line (c # cs) = (if c = 0x0A then line # getlines [] cs else getlines (line @ [c]) cs)"

definition parse_signed_text :: "bytes \<Rightarrow> int option" where
  "parse_signed_text str =
     (if str = [] \<or> 19 < length str \<or> \<not> list_all (\<lambda>c. 0x30 \<le> c \<and> c \<le> 0x39) str then None
      else Some (fold (\<lambda>c v. v * 10 + (int (unat c) - 48)) str 0))"

definition tabbed :: "bytes list \<Rightarrow> bytes" where
  "tabbed parts = concat (map (\<lambda>p. p @ [0x09]) (butlast parts)) @ last parts @ [0x0A]"

section \<open>State\<close>

datatype phase = Received | Done | Reported

record ledger_entry =
  le_state :: phase
  le_expires_unix :: int
  le_correlation_id :: bytes
  le_outcome :: bytes
  le_reason :: bytes
  le_detail :: bytes

type_synonym ledger_entries = "(bytes \<times> ledger_entry) list"

text \<open>The file, and how much of it a sync has made durable.\<close>

record ledger_disk =
  ld_contents :: bytes
  ld_synced :: nat

record command_ledger =
  cl_maximum_entries :: nat
  cl_disk :: ledger_disk
  cl_writable :: bool
  cl_epoch_unix :: int
  cl_recovered :: bool
  cl_entries :: ledger_entries

definition new_entry :: "bytes \<Rightarrow> int \<Rightarrow> ledger_entry" where
  "new_entry correlation_id expires_unix =
     \<lparr>le_state = Received, le_expires_unix = expires_unix, le_correlation_id = correlation_id, le_outcome = [], le_reason = [], le_detail = []\<rparr>"

section \<open>Opening\<close>

text \<open>One line of the file; \<open>None\<close> is a malformed line.\<close>

definition load_record :: "bytes list \<Rightarrow> ledger_entries \<Rightarrow> ledger_entries option" where
  "load_record parts entries =
     (if length parts < 2 \<or> length (parts ! 0) \<noteq> 1 \<or> \<not> command_id_ok (parts ! 1) then None
      else let i = parts ! 1; found = map_of entries i
           in if parts ! 0 = ascii ''R'' then
                (if length parts \<noteq> 4 then None
                 else case parse_signed_text (parts ! 3) of
                        None \<Rightarrow> None
                      | Some expires \<Rightarrow>
                          if \<not> command_id_ok (parts ! 2) then None
                          else Some (AList.update i (new_entry (parts ! 2) expires) entries))
              else if parts ! 0 = ascii ''D'' then
                (case found of
                   None \<Rightarrow> None
                 | Some e \<Rightarrow>
                     if length parts \<noteq> 4 \<and> length parts \<noteq> 5 \<or> \<not> reason_code_ok (parts ! 3) \<or> \<not> outcome_ok (parts ! 2) then None
                     else Some (AList.update i (e\<lparr>le_state := Done, le_outcome := parts ! 2, le_reason := parts ! 3,
                            le_detail := (if length parts = 5 then parts ! 4 else le_detail e)\<rparr>) entries))
              else if parts ! 0 = ascii ''S'' then
                (case found of
                   None \<Rightarrow> None
                 | Some e \<Rightarrow>
                     if length parts \<noteq> 2 \<or> le_state e \<noteq> Done then None
                     else Some (AList.update i (e\<lparr>le_state := Reported\<rparr>) entries))
              else None)"

fun load_lines :: "bool \<Rightarrow> bytes list \<Rightarrow> int \<Rightarrow> ledger_entries \<Rightarrow> (int \<times> ledger_entries) option" where
  "load_lines first_line [] epoch entries = Some (epoch, entries)"
| "load_lines first_line (line # ls) epoch entries =
     (let parts = split_tabs line
      in if first_line \<and> length parts = 2 \<and> parts ! 0 = ascii ''E'' then
           (case parse_signed_text (parts ! 1) of
              None \<Rightarrow> None
            | Some e \<Rightarrow> if e = 0 then None else load_lines False ls e entries)
         else case load_record parts entries of
                None \<Rightarrow> None
              | Some entries' \<Rightarrow> load_lines False ls epoch entries')"

text \<open>An unterminated last line is what a crash can leave.\<close>

definition whole_lines :: "bytes \<Rightarrow> bytes" where
  "whole_lines contents = rev (dropWhile (\<lambda>c. c \<noteq> 0x0A) (rev contents))"

definition keep_after_expiry :: int where "keep_after_expiry = 86400"

definition stale :: "int \<Rightarrow> ledger_entry \<Rightarrow> bool" where
  "stale now_unix e \<longleftrightarrow> le_state e = Reported \<and> le_expires_unix e + keep_after_expiry < now_unix"

definition number_text :: "int \<Rightarrow> bytes" where
  "number_text i = ascii (signed_text i)"

definition received_line :: "bytes \<Rightarrow> bytes \<Rightarrow> int \<Rightarrow> bytes" where
  "received_line i correlation_id expires_unix = tabbed [ascii ''R'', i, correlation_id, number_text expires_unix]"

definition done_line :: "bytes \<Rightarrow> bytes \<Rightarrow> bytes \<Rightarrow> bytes \<Rightarrow> bytes" where
  "done_line i outcome reason detail = tabbed ([ascii ''D'', i, outcome, reason] @ (if detail = [] then [] else [detail]))"

definition reported_line :: "bytes \<Rightarrow> bytes" where
  "reported_line i = tabbed [ascii ''S'', i]"

definition entry_text :: "bytes \<times> ledger_entry \<Rightarrow> bytes" where
  "entry_text kv =
     (case kv of (i, e) \<Rightarrow>
        received_line i (le_correlation_id e) (le_expires_unix e) @
        (if le_state e \<noteq> Received then done_line i (le_outcome e) (le_reason e) (le_detail e) else []) @
        (if le_state e = Reported then reported_line i else []))"

definition ledger_text :: "int \<Rightarrow> ledger_entries \<Rightarrow> bytes" where
  "ledger_text epoch entries =
     (if 0 < epoch then tabbed [ascii ''E'', number_text epoch] else []) @ concat (map entry_text (sort_key fst entries))"

text \<open>
  What may go wrong when the ledger is opened. The temporary file of the rewrite is not part of the
  state: it replaces the ledger as a whole, or nothing happens.
\<close>

record open_io =
  oi_directory :: bool
  oi_readable :: bool
  oi_rewrite :: bool
  oi_open :: bool

definition no_disk :: ledger_disk where "no_disk = \<lparr>ld_contents = [], ld_synced = 0\<rparr>"

definition ledger_open :: "nat \<Rightarrow> int \<Rightarrow> open_io \<Rightarrow> ledger_disk option \<Rightarrow> command_ledger result \<times> ledger_disk option" where
  "ledger_open maximum_entries now_unix io disk =
     (if maximum_entries = 0 then (Inl (Error invalid_input ''command ledger path or bound is invalid''), disk)
      else if \<not> oi_directory io then (Inl (Error io_failure ''cannot create the command ledger directory''), disk)
      else if disk \<noteq> None \<and> \<not> oi_readable io then (Inl (Error io_failure ''cannot read the command ledger''), disk)
      else
        let d = (case disk of Some d \<Rightarrow> d | None \<Rightarrow> no_disk);
            contents = whole_lines (ld_contents d);
            dropped_tail = (contents \<noteq> ld_contents d)
        in case load_lines True (getlines [] contents) 0 [] of
             None \<Rightarrow> (Inl (Error corrupt_data ''the command ledger has a malformed line''), disk)
           | Some (epoch0, entries0) \<Rightarrow>
               let epoch = (if contents = [] then (if 0 < now_unix then now_unix else 1) else epoch0);
                   entries = filter (\<lambda>kv. \<not> stale now_unix (snd kv)) entries0
               in if maximum_entries < length entries
                  then (Inl (Error resource_limit ''the command ledger holds more commands than its bound''), disk)
                  else
                    let rewrite = (length entries \<noteq> length entries0 \<or> dropped_tail \<or> contents = [] \<and> 0 < epoch);
                        written = ledger_text epoch entries;
                        d' = (if rewrite then \<lparr>ld_contents = written, ld_synced = length written\<rparr> else d)
                    in if rewrite \<and> \<not> oi_rewrite io then (Inl (Error io_failure ''cannot rewrite the command ledger''), disk)
                       else if \<not> oi_open io then (Inl (Error io_failure ''cannot open the command ledger for writing''), Some d')
                       else (Inr \<lparr>cl_maximum_entries = maximum_entries, cl_disk = d', cl_writable = True, cl_epoch_unix = epoch,
                                  cl_recovered = False, cl_entries = entries\<rparr>, Some d'))"

definition ledger_open_or_recover ::
  "nat \<Rightarrow> int \<Rightarrow> open_io \<Rightarrow> bool \<Rightarrow> open_io \<Rightarrow> ledger_disk option \<Rightarrow> command_ledger result \<times> ledger_disk option" where
  "ledger_open_or_recover maximum_entries now_unix io renamed io' disk =
     (case ledger_open maximum_entries now_unix io disk of
        (Inr ledger, disk') \<Rightarrow> (Inr ledger, disk')
      | (Inl e, disk') \<Rightarrow>
          if code e \<noteq> corrupt_data then (Inl e, disk')
          else if \<not> renamed then (Inl (Error io_failure ''cannot set the corrupt command ledger aside''), disk')
          else case ledger_open maximum_entries now_unix io' None of
                 (Inr fresh, disk'') \<Rightarrow> (Inr (fresh\<lparr>cl_recovered := True\<rparr>), disk'')
               | (Inl e', disk'') \<Rightarrow> (Inl e', disk''))"

section \<open>Appending\<close>

text \<open>
  \<open>append\<close>: all of the line is written, and synced or not; or a write fails after some bytes and the
  file is cut back, or cannot be and is closed. (\<open>lseek\<close> on the open file does not fail.)
\<close>

datatype append_io = Append_ok | Sync_failed | Write_failed nat bool

definition set_disk :: "(ledger_disk \<Rightarrow> ledger_disk) \<Rightarrow> command_ledger \<Rightarrow> command_ledger" where
  "set_disk f l = l\<lparr>cl_disk := f (cl_disk l)\<rparr>"

definition ledger_append :: "append_io \<Rightarrow> bytes \<Rightarrow> command_ledger \<Rightarrow> bool result \<times> command_ledger" where
  "ledger_append io line l =
     (if \<not> cl_writable l then (Inl (Error io_failure ''the command ledger is closed''), l)
      else case io of
             Append_ok \<Rightarrow>
               (Inr True, set_disk (\<lambda>d. \<lparr>ld_contents = ld_contents d @ line, ld_synced = length (ld_contents d @ line)\<rparr>) l)
           | Sync_failed \<Rightarrow>
               (Inl (Error io_failure ''cannot sync the command ledger''), set_disk (\<lambda>d. d\<lparr>ld_contents := ld_contents d @ line\<rparr>) l)
           | Write_failed n restored \<Rightarrow>
               (Inl (Error io_failure ''cannot append to the command ledger''),
                if restored then l
                else (set_disk (\<lambda>d. d\<lparr>ld_contents := ld_contents d @ take (min n (length line - 1)) line\<rparr>) l)\<lparr>cl_writable := False\<rparr>))"

definition ledger_find :: "bytes \<Rightarrow> command_ledger \<Rightarrow> ledger_entry option" where
  "ledger_find command_id l = map_of (cl_entries l) command_id"

definition put_entry :: "bytes \<Rightarrow> ledger_entry \<Rightarrow> command_ledger \<Rightarrow> command_ledger" where
  "put_entry command_id e l = l\<lparr>cl_entries := AList.update command_id e (cl_entries l)\<rparr>"

definition mark_received :: "append_io \<Rightarrow> bytes \<Rightarrow> bytes \<Rightarrow> int \<Rightarrow> command_ledger \<Rightarrow> bool result \<times> command_ledger" where
  "mark_received io command_id correlation_id expires_unix l =
     (if \<not> command_id_ok command_id \<or> \<not> command_id_ok correlation_id \<or> expires_unix \<le> 0
      then (Inl (Error invalid_input ''command identity is invalid''), l)
      else if ledger_find command_id l \<noteq> None then (Inr False, l)
      else if cl_maximum_entries l \<le> length (cl_entries l) then (Inl (Error resource_limit ''the command ledger is full''), l)
      else case ledger_append io (received_line command_id correlation_id expires_unix) l of
             (Inl e, l') \<Rightarrow> (Inl e, l')
           | (Inr _, l') \<Rightarrow> (Inr True, put_entry command_id (new_entry correlation_id expires_unix) l'))"

definition mark_done :: "append_io \<Rightarrow> bytes \<Rightarrow> bytes \<Rightarrow> bytes \<Rightarrow> bytes \<Rightarrow> command_ledger \<Rightarrow> bool result \<times> command_ledger" where
  "mark_done io command_id outcome reason detail l =
     (if \<not> reason_code_ok reason \<or> \<not> outcome_ok outcome then (Inl (Error invalid_input ''command outcome is invalid''), l)
      else case ledger_find command_id l of
             None \<Rightarrow> (Inl (Error invalid_input ''the command is not in the ledger''), l)
           | Some found \<Rightarrow>
               if le_state found \<noteq> Received then (Inr False, l)
               else
                 let kept = clean maximum_detail_bytes detail
                 in case ledger_append io (done_line command_id outcome reason kept) l of
                      (Inl e, l') \<Rightarrow> (Inl e, l')
                    | (Inr _, l') \<Rightarrow>
                        (Inr True, put_entry command_id (found\<lparr>le_state := Done, le_outcome := outcome, le_reason := reason, le_detail := kept\<rparr>) l'))"

definition mark_reported :: "append_io \<Rightarrow> bytes \<Rightarrow> command_ledger \<Rightarrow> bool result \<times> command_ledger" where
  "mark_reported io command_id l =
     (case ledger_find command_id l of
        None \<Rightarrow> (Inr False, l)
      | Some found \<Rightarrow>
          if le_state found \<noteq> Done then (Inr False, l)
          else case ledger_append io (reported_line command_id) l of
                 (Inl e, l') \<Rightarrow> (Inl e, l')
               | (Inr _, l') \<Rightarrow> (Inr True, put_entry command_id (found\<lparr>le_state := Reported\<rparr>) l'))"

definition unreported :: "command_ledger \<Rightarrow> ledger_entries" where
  "unreported l = sort_key (\<lambda>kv. le_expires_unix (snd kv)) (filter (\<lambda>kv. le_state (snd kv) = Done) (sort_key fst (cl_entries l)))"

definition interrupted :: "command_ledger \<Rightarrow> ledger_entries" where
  "interrupted l = sort_key (\<lambda>kv. le_expires_unix (snd kv)) (filter (\<lambda>kv. le_state (snd kv) = Received) (sort_key fst (cl_entries l)))"

end
