(* ===== verification/Command_Processor.thy ===== *)
theory Command_Processor
  imports Command_Ledger
begin

text \<open>
  The decision procedure for Manager commands, the class \<open>command_processor\<close> of
  \<^verbatim>\<open>src/sensor/command_channel.cpp\<close>. What acts on the host (\<open>execute\<close>), the Manager's consent to a collection
  and the artifact store are arguments; the ledger is part of the state, and each of its appends
  may fail. A handled command gives its outcome, the new state, and the call of the executor it made.
\<close>

datatype response_mode = Off | Dry_run | Enforce

definition parse_response_mode :: "bytes \<Rightarrow> response_mode option" where
  "parse_response_mode str =
     (if str = ascii ''off'' then Some Off else if str = ascii ''dry_run'' then Some Dry_run
      else if str = ascii ''enforce'' then Some Enforce else None)"

definition all_actions :: "command_action list" where
  "all_actions = [Kill_process, Collect_process_info, Collect_network_connections, Collect_file, Quarantine_file, Isolate_host, Release_host_isolation]"

definition parse_command_action :: "bytes \<Rightarrow> command_action option" where
  "parse_command_action str = find (\<lambda>a. str = ascii (action_text a)) all_actions"

definition command_action_implemented :: "command_action \<Rightarrow> bool" where
  "command_action_implemented a \<longleftrightarrow> a \<in> {Kill_process, Collect_process_info, Collect_network_connections, Collect_file, Quarantine_file,
     Isolate_host, Release_host_isolation}"

definition command_action_changes_host :: "command_action \<Rightarrow> bool" where
  "command_action_changes_host a \<longleftrightarrow> a \<in> {Kill_process, Quarantine_file, Isolate_host, Release_host_isolation}"

record command_policy =
  cp_mode :: response_mode
  cp_allowed :: "command_action list"
  cp_maximum_lifetime_seconds :: int
  cp_clock_skew_seconds :: int
  cp_require_boot_binding :: bool
  cp_require_signature :: bool
  cp_maximum_changes_per_minute :: nat

record command_processor_options =
  po_agent_id :: bytes
  po_host_id :: bytes
  po_boot_digest :: bytes
  po_keyring :: "command_keyring option"
  po_policy :: command_policy
  po_require_collection_acceptance :: bool

record execution_result =
  er_outcome :: bytes
  er_reason :: bytes
  er_detail :: bytes
  er_mode :: bytes
  er_affected :: u32
  er_artifact_json :: bytes
  er_artifact_kind :: bytes

record command_outcome =
  co_command_id :: bytes
  co_correlation_id :: bytes
  co_outcome :: bytes
  co_reason :: bytes
  co_detail :: bytes
  co_mode :: bytes
  co_action :: bytes
  co_dry_run :: bool
  co_executed :: bool
  co_pid :: u32
  co_start_ticks :: u64
  co_path :: bytes
  co_affected :: u32

text \<open>The host and the Manager as the processor sees them.\<close>

record processor_env =
  pe_verify_raw :: verifier
  pe_execute :: "endpoint_command \<Rightarrow> bool \<Rightarrow> execution_result"
  pe_collection_authorized :: "endpoint_command \<Rightarrow> bool"
  pe_collected :: "(endpoint_command \<Rightarrow> bytes \<Rightarrow> bytes \<Rightarrow> bytes result) option"

record command_processor =
  pr_ledger :: command_ledger
  pr_change_times :: "int list"

definition describe :: "endpoint_command \<Rightarrow> bytes \<Rightarrow> bytes \<Rightarrow> bytes \<Rightarrow> command_outcome" where
  "describe command outcome reason detail =
     \<lparr>co_command_id = ec_command_id command, co_correlation_id = ec_correlation_id command, co_outcome = outcome, co_reason = reason,
      co_detail = clean maximum_detail_bytes detail, co_mode = [], co_action = ascii (action_text (ec_action command)), co_dry_run = False,
      co_executed = False, co_pid = ec_pid command, co_start_ticks = ec_start_ticks command, co_path = ec_path command, co_affected = 0\<rparr>"

text \<open>\<open>refuse\<close> with \<open>record\<close> set, as every call has it.\<close>

definition refuse :: "append_io \<Rightarrow> append_io \<Rightarrow> endpoint_command \<Rightarrow> string \<Rightarrow> string \<Rightarrow> command_ledger \<Rightarrow> command_outcome \<times> command_ledger" where
  "refuse io_received io_done command reason detail l =
     (let (made, l1) = mark_received io_received (ec_command_id command) (ec_correlation_id command) (max (ec_expires_unix command) 1) l;
          l2 = (if made = Inr True then snd (mark_done io_done (ec_command_id command) (ascii ''rejected'') (ascii reason) (ascii detail) l1) else l1)
      in (describe command (ascii ''rejected'') (ascii reason) (ascii detail), l2))"

text \<open>The checks in the order of the code: the first one that fails gives the reason and the detail.\<close>

definition authorization_refusal :: "verifier \<Rightarrow> command_processor_options \<Rightarrow> endpoint_command \<Rightarrow> (string \<times> string) option" where
  "authorization_refusal verify_raw opts command =
     (case po_keyring opts of
        Some ring \<Rightarrow>
          (case keyring_check verify_raw ring command of
             Valid \<Rightarrow> None
           | Missing \<Rightarrow> Some (''signature_required'', ''this endpoint acts only on commands signed by the Manager's command authority'')
           | Unknown_key \<Rightarrow> Some (''unknown_signing_key'', ''the command is signed with a key this endpoint does not trust'')
           | Unsigned_window \<Rightarrow> Some (''signature_invalid'', ''a signed command must carry created_at inside the signature'')
           | Bad_signature \<Rightarrow> Some (''signature_invalid'', ''the signature does not match the command''))
      | None \<Rightarrow>
          if cp_require_signature (po_policy opts)
          then Some (''signature_required'', ''signed commands are required and no signing key is configured'') else None)"

definition boot_refusal :: "command_processor_options \<Rightarrow> endpoint_command \<Rightarrow> (string \<times> string) option" where
  "boot_refusal opts command =
     (if ec_boot_id command \<noteq> [] then
        if po_boot_digest opts = [] then Some (''boot_unavailable'', ''this endpoint cannot establish its boot identity'')
        else if ec_boot_id command \<noteq> po_boot_digest opts then Some (''boot_mismatch'', ''the target was observed in a different boot of this host'')
        else None
      else if cp_require_boot_binding (po_policy opts) \<and> (ec_action command = Kill_process \<or> ec_action command = Collect_process_info)
      then Some (''boot_binding_required'', ''this endpoint acts only on boot-bound process targets'')
      else None)"

definition window_refusal :: "command_policy \<Rightarrow> int \<Rightarrow> int \<Rightarrow> endpoint_command \<Rightarrow> (string \<times> string) option" where
  "window_refusal policy epoch current command =
     (if ec_expires_unix command \<le> current then Some (''expired'', ''the command had expired before it was handled'')
      else if current + cp_clock_skew_seconds policy < ec_created_unix command then Some (''not_yet_valid'', ''the command claims to be issued in the future'')
      else
        let issued_lifetime = (if 0 < ec_created_unix command then ec_expires_unix command - ec_created_unix command else 0);
            longest = cp_maximum_lifetime_seconds policy + cp_clock_skew_seconds policy
        in if longest < ec_expires_unix command - current \<or> longest < issued_lifetime
           then Some (''lifetime_exceeded'', ''the command is valid for longer than this endpoint allows'')
           else if 0 < ec_created_unix command \<and> 0 < epoch \<and> ec_created_unix command < epoch
           then Some (''ledger_reset'', ''the command was issued before this endpoint began its replay ledger; issue it again'')
           else None)"

definition policy_refusal :: "command_policy \<Rightarrow> endpoint_command \<Rightarrow> (string \<times> string) option" where
  "policy_refusal policy command =
     (if cp_mode policy = Off then Some (''response_disabled'', ''this endpoint does not act on commands'')
      else if \<not> command_action_implemented (ec_action command) then Some (''unsupported_action'', ''this sensor does not carry out that action'')
      else if ec_action command \<notin> set (cp_allowed policy) then Some (''action_not_permitted'', ''local policy does not permit that action'')
      else None)"

definition first_refusal :: "(string \<times> string) option list \<Rightarrow> (string \<times> string) option" where
  "first_refusal rs = (case filter (\<lambda>r. r \<noteq> None) rs of [] \<Rightarrow> None | r # _ \<Rightarrow> r)"

definition refusal_reason ::
  "verifier \<Rightarrow> command_processor_options \<Rightarrow> int \<Rightarrow> int \<Rightarrow> endpoint_command \<Rightarrow> (string \<times> string) option" where
  "refusal_reason verify_raw opts epoch current command =
     first_refusal
       [if ec_agent_id command \<noteq> po_agent_id opts \<or> ec_host_id command \<noteq> po_host_id opts
        then Some (''wrong_endpoint'', ''the command names a different agent or host'') else None,
        authorization_refusal verify_raw opts command,
        boot_refusal opts command,
        window_refusal (po_policy opts) epoch current command,
        policy_refusal (po_policy opts) command]"

text \<open>The artifact of a successful collection is stored before the outcome is recorded.\<close>

definition store_artifact :: "processor_env \<Rightarrow> endpoint_command \<Rightarrow> execution_result \<Rightarrow> command_outcome \<Rightarrow> command_outcome" where
  "store_artifact env command fin result =
     (case pe_collected env of
        Some on_collected \<Rightarrow>
          if er_outcome fin = ascii ''succeeded'' \<and> er_artifact_json fin \<noteq> [] then
            (case on_collected command (er_artifact_kind fin) (er_artifact_json fin) of
               Inr stored \<Rightarrow> result\<lparr>co_detail := clean maximum_detail_bytes (co_detail result @ ascii '' artifact='' @ stored)\<rparr>
             | Inl e \<Rightarrow> result\<lparr>co_outcome := ascii ''indeterminate'', co_reason := ascii ''artifact_commit_failed'',
                 co_detail := clean maximum_detail_bytes (ascii (message e))\<rparr>)
          else result
      | None \<Rightarrow> result)"

text \<open>From the durable record of the intent on: consent, execution, durable outcome.\<close>

definition carry_out ::
  "processor_env \<Rightarrow> command_processor_options \<Rightarrow> append_io \<Rightarrow> int \<Rightarrow> endpoint_command \<Rightarrow> command_processor \<Rightarrow>
   command_outcome \<times> command_processor \<times> (endpoint_command \<times> bool) option" where
  "carry_out env opts io_done current command p =
     (let changes = command_action_changes_host (ec_action command);
          dry_run = (changes \<and> cp_mode (po_policy opts) \<noteq> Enforce);
          collection = (ec_action command = Collect_process_info \<or> ec_action command = Collect_network_connections \<or>
            ec_action command = Collect_file)
      in if collection \<and> po_require_collection_acceptance opts \<and> \<not> pe_collection_authorized env command then
           let refusal = describe command (ascii ''rejected'') (ascii ''manager_acceptance_required'')
                 (ascii ''collection not executed: Manager acceptance was refused or unavailable'')
           in (refusal, p\<lparr>pr_ledger := snd (mark_done io_done (ec_command_id command) (co_outcome refusal) (co_reason refusal) (co_detail refusal)
                 (pr_ledger p))\<rparr>, None)
         else
           let times = (if changes \<and> \<not> dry_run then pr_change_times p @ [current] else pr_change_times p);
               fin = pe_execute env command dry_run;
               result = store_artifact env command fin
                 ((describe command (er_outcome fin) (er_reason fin) (er_detail fin))
                   \<lparr>co_mode := er_mode fin, co_affected := er_affected fin, co_dry_run := dry_run, co_executed := True\<rparr>);
               l = snd (mark_done io_done (ec_command_id command) (co_outcome result) (co_reason result) (co_detail result) (pr_ledger p))
           in (result, \<lparr>pr_ledger = l, pr_change_times = times\<rparr>, Some (command, dry_run)))"

definition processor_handle ::
  "processor_env \<Rightarrow> command_processor_options \<Rightarrow> append_io \<Rightarrow> append_io \<Rightarrow> int \<Rightarrow> endpoint_command \<Rightarrow> command_processor \<Rightarrow>
   command_outcome \<times> command_processor \<times> (endpoint_command \<times> bool) option" where
  "processor_handle env opts io_received io_done current command p =
     (let refused = (\<lambda>(reason, detail) p.
            let (result, l) = refuse io_received io_done command reason detail (pr_ledger p) in (result, p\<lparr>pr_ledger := l\<rparr>, None))
      in case refusal_reason (pe_verify_raw env) opts (cl_epoch_unix (pr_ledger p)) current command of
           Some r \<Rightarrow> refused r p
         | None \<Rightarrow>
             let changes = command_action_changes_host (ec_action command);
                 dry_run = (changes \<and> cp_mode (po_policy opts) \<noteq> Enforce);
                 p1 = (if changes \<and> \<not> dry_run
                       then p\<lparr>pr_change_times := dropWhile (\<lambda>t. t \<le> current - 60) (pr_change_times p)\<rparr> else p)
             in if changes \<and> \<not> dry_run \<and> cp_maximum_changes_per_minute (po_policy opts) \<le> length (pr_change_times p1)
                then refused (''rate_limited'', ''too many changing actions in the last minute'') p1
                else
                  (case mark_received io_received (ec_command_id command) (ec_correlation_id command) (ec_expires_unix command) (pr_ledger p1) of
                     (Inl _, l) \<Rightarrow>
                       (describe command (ascii ''rejected'') (ascii ''ledger_unavailable'') (ascii ''the replay ledger cannot record the command''),
                        p1\<lparr>pr_ledger := l\<rparr>, None)
                   | (Inr False, l) \<Rightarrow>
                       (describe command (ascii ''rejected'') (ascii ''replay'') (ascii ''the command id was handled before''), p1\<lparr>pr_ledger := l\<rparr>, None)
                   | (Inr True, l) \<Rightarrow> carry_out env opts io_done current command (p1\<lparr>pr_ledger := l\<rparr>)))"

text \<open>The answer for an id the ledger knows; the command, when it was sent again, gives the target.\<close>

definition processor_resume ::
  "append_io \<Rightarrow> bytes \<Rightarrow> bytes \<Rightarrow> endpoint_command option \<Rightarrow> command_processor \<Rightarrow> command_outcome option \<times> command_processor" where
  "processor_resume io_done command_id correlation_id command p =
     (case ledger_find command_id (pr_ledger p) of
        None \<Rightarrow> (None, p)
      | Some entry \<Rightarrow>
          let blank_outcome = \<lparr>co_command_id = [], co_correlation_id = [], co_outcome = [], co_reason = [], co_detail = [], co_mode = [], co_action = [],
                co_dry_run = False, co_executed = False, co_pid = 0, co_start_ticks = 0, co_path = [], co_affected = 0\<rparr>;
              base = (case command of Some c \<Rightarrow> describe c [] [] [] | None \<Rightarrow> blank_outcome);
              named = base\<lparr>co_command_id := command_id,
                co_correlation_id := (if le_correlation_id entry = [] then correlation_id else le_correlation_id entry)\<rparr>
          in if le_state entry = Received then
               let result = named\<lparr>co_outcome := ascii ''indeterminate'', co_reason := ascii ''interrupted'',
                     co_detail := ascii ''the sensor stopped while this command was being carried out; whether it took effect is not known''\<rparr>
               in (Some result, p\<lparr>pr_ledger := snd (mark_done io_done command_id (co_outcome result) (co_reason result) (co_detail result) (pr_ledger p))\<rparr>)
             else (Some (named\<lparr>co_outcome := le_outcome entry, co_reason := le_reason entry, co_detail := le_detail entry\<rparr>), p))"

record command_unreadable =
  cu_command_id :: bytes
  cu_correlation_id :: bytes
  cu_reason :: bytes

definition processor_unreadable ::
  "append_io \<Rightarrow> append_io \<Rightarrow> int \<Rightarrow> command_unreadable \<Rightarrow> command_processor \<Rightarrow> command_outcome \<times> command_processor" where
  "processor_unreadable io_received io_done current failure p =
     (let detail = clean maximum_detail_bytes (ascii ''the command could not be read: '' @ cu_reason failure);
          result = \<lparr>co_command_id = cu_command_id failure, co_correlation_id = cu_correlation_id failure, co_outcome = ascii ''rejected'',
            co_reason = ascii ''invalid_command'', co_detail = detail, co_mode = [], co_action = ascii ''UNKNOWN'', co_dry_run = False,
            co_executed = False, co_pid = 0, co_start_ticks = 0, co_path = [], co_affected = 0\<rparr>;
          l = pr_ledger p;
          l2 = (if cu_command_id failure \<noteq> [] \<and> cu_correlation_id failure \<noteq> [] then
                  let (made, l1) = mark_received io_received (cu_command_id failure) (cu_correlation_id failure) (current + 86400) l
                  in if made = Inr True
                     then snd (mark_done io_done (cu_command_id failure) (ascii ''rejected'') (ascii ''invalid_command'') detail l1) else l1
                else l)
      in (result, p\<lparr>pr_ledger := l2\<rparr>))"

end
