(* ===== verification/Command_Message.thy ===== *)
theory Command_Message
  imports Command_Processor Json_Reader
begin

text \<open>
  Reading Manager commands, the first part of \<^verbatim>\<open>src/sensor/command_channel.cpp\<close>: timestamps, the command
  envelope, the reply to a poll, and the boot digest a command is bound to.
\<close>

section \<open>Timestamps\<close>

text \<open>All intermediate values fit their C++ types for the years a timestamp can name. C++ division rounds to zero.\<close>

definition days_from_civil :: "int \<Rightarrow> int \<Rightarrow> int \<Rightarrow> int" where
  "days_from_civil year month day =
     (let y = year - (if month \<le> 2 then 1 else 0);
          era = (if 0 \<le> y then y div 400 else - ((399 - y) div 400));
          year_of_era = y - era * 400;
          day_of_year = (153 * (month + (if 2 < month then - 3 else 9)) + 2) div 5 + day - 1;
          day_of_era = year_of_era * 365 + year_of_era div 4 - year_of_era div 100 + day_of_year
      in era * 146097 + day_of_era - 719468)"

definition decimal_byte :: "byte \<Rightarrow> bool" where
  "decimal_byte c \<longleftrightarrow> 0x30 \<le> c \<and> c \<le> 0x39"

fun digits_loop :: "bytes \<Rightarrow> int \<Rightarrow> int option" where
  "digits_loop [] number = Some number"
| "digits_loop (c # cs) number = (if decimal_byte c then digits_loop cs (number * 10 + (int (unat c) - 48)) else None)"

definition text_digits :: "bytes \<Rightarrow> nat \<Rightarrow> nat \<Rightarrow> int option" where
  "text_digits str offset n = digits_loop (take n (drop offset str)) 0"

definition month_days :: "int list" where
  "month_days = [31, 28, 31, 30, 31, 30, 31, 31, 30, 31, 30, 31]"

definition leap_year :: "int \<Rightarrow> bool" where
  "leap_year year \<longleftrightarrow> year mod 4 = 0 \<and> year mod 100 \<noteq> 0 \<or> year mod 400 = 0"

text \<open>From the byte after the seconds on: the fraction is skipped, the offset is returned.\<close>

definition zone_cursor :: "bytes \<Rightarrow> nat option" where
  "zone_cursor str =
     (if str ! 19 = 0x2E then
        let n = length (takeWhile decimal_byte (drop 20 str)) in if n = 0 then None else Some (20 + n)
      else Some 19)"

definition zone_offset :: "bytes \<Rightarrow> nat \<Rightarrow> int option" where
  "zone_offset str cursor =
     (if cursor < length str \<and> (str ! cursor = 0x5A \<or> str ! cursor = 0x7A)
      then (if cursor + 1 = length str then Some 0 else None)
      else if cursor + 6 = length str \<and> (str ! cursor = 0x2B \<or> str ! cursor = 0x2D) \<and> str ! (cursor + 3) = 0x3A then
        (case (text_digits str (cursor + 1) 2, text_digits str (cursor + 4) 2) of
           (Some hours, Some minutes) \<Rightarrow>
             if 23 < hours \<or> 59 < minutes then None
             else Some ((hours * 3600 + minutes * 60) * (if str ! cursor = 0x2D then - 1 else 1))
         | _ \<Rightarrow> None)
      else None)"

definition parse_utc_offset_timestamp :: "bytes \<Rightarrow> int option" where
  "parse_utc_offset_timestamp str =
     (if length str < 20 \<or> 40 < length str then None
      else if str ! 4 \<noteq> 0x2D \<or> str ! 7 \<noteq> 0x2D \<or> str ! 10 \<noteq> 0x54 \<and> str ! 10 \<noteq> 0x74 \<or> str ! 13 \<noteq> 0x3A \<or> str ! 16 \<noteq> 0x3A then None
      else case (text_digits str 0 4, text_digits str 5 2, text_digits str 8 2, text_digits str 11 2, text_digits str 14 2, text_digits str 17 2) of
             (Some year, Some month, Some day, Some hour, Some minute, Some second) \<Rightarrow>
               if year < 1970 \<or> month < 1 \<or> 12 < month \<or> day < 1 \<or> 23 < hour \<or> 59 < minute \<or> 59 < second then None
               else if month_days ! nat (month - 1) + (if month = 2 \<and> leap_year year then 1 else 0) < day then None
               else (case zone_cursor str of
                       None \<Rightarrow> None
                     | Some cursor \<Rightarrow>
                         (case zone_offset str cursor of
                            None \<Rightarrow> None
                          | Some offset_seconds \<Rightarrow>
                              Some (days_from_civil year month day * 86400 + hour * 3600 + minute * 60 + second - offset_seconds)))
           | _ \<Rightarrow> None)"

section \<open>Members\<close>

definition string_member :: "string \<Rightarrow> json_value \<Rightarrow> bytes option" where
  "string_member key v = (case find_member (ascii key) v of None \<Rightarrow> None | Some m \<Rightarrow> as_string m)"

fun uint64_loop :: "bytes \<Rightarrow> u64 \<Rightarrow> u64 option" where
  "uint64_loop [] v = Some v"
| "uint64_loop (c # cs) v =
     (if \<not> decimal_byte c then None
      else let digit = ucast c - 48 in if ((- 1) - digit) div 10 < v then None else uint64_loop cs (v * 10 + digit))"

definition parse_canonical_uint64 :: "bytes \<Rightarrow> u64 option" where
  "parse_canonical_uint64 str = (if str = [] \<or> 20 < length str \<or> hd str = 0x30 then None else uint64_loop str 0)"

definition lower_hex :: "byte \<Rightarrow> bool" where
  "lower_hex c \<longleftrightarrow> 0x30 \<le> c \<and> c \<le> 0x39 \<or> 0x61 \<le> c \<and> c \<le> 0x66"

definition boot_digest_ok :: "bytes \<Rightarrow> bool" where
  "boot_digest_ok str \<longleftrightarrow> length str = 69 \<and> take 5 str = ascii ''boot_'' \<and> list_all lower_hex (drop 5 str)"

definition is_object :: "json_value \<Rightarrow> bool" where
  "is_object v \<longleftrightarrow> (case v of Object _ \<Rightarrow> True | _ \<Rightarrow> False)"

definition is_array :: "json_value \<Rightarrow> bool" where
  "is_array v \<longleftrightarrow> (case v of Array _ \<Rightarrow> True | _ \<Rightarrow> False)"

section \<open>One command\<close>

datatype parsed_command = Command endpoint_command | Unreadable command_unreadable

definition maximum_path_bytes :: nat where "maximum_path_bytes = 4096"

definition envelope_keys :: "string list" where
  "envelope_keys = [''command_id'', ''agent_id'', ''host_id'', ''schema_version'', ''action'', ''expires_at'', ''created_at'', ''correlation_id'',
     ''target'', ''authorization'']"

text \<open>The identity, version, action and expiry; \<open>Inl\<close> is the reason of a refusal. The flag is \<open>boot_bound\<close>.\<close>

definition parse_envelope :: "json_value \<Rightarrow> string + endpoint_command \<times> bool" where
  "parse_envelope v =
     (case (string_member ''command_id'' v, string_member ''agent_id'' v, string_member ''host_id'' v, string_member ''correlation_id'' v) of
        (Some i, Some agent, Some host, Some correlation) \<Rightarrow>
          if \<not> command_id_ok i \<or> \<not> is_valid_identifier agent \<or> \<not> is_valid_identifier host \<or> \<not> command_id_ok correlation then Inl ''invalid_envelope''
          else (case string_member ''schema_version'' v of
            None \<Rightarrow> Inl ''unsupported_schema_version''
          | Some version \<Rightarrow>
              if version \<noteq> ascii ''1'' \<and> version \<noteq> ascii ''2'' then Inl ''unsupported_schema_version''
              else (case string_member ''action'' v of
                None \<Rightarrow> Inl ''invalid_envelope''
              | Some named \<Rightarrow>
                  (case parse_command_action named of
                     None \<Rightarrow> Inl ''unknown_action''
                   | Some action \<Rightarrow>
                       (case string_member ''expires_at'' v of
                          None \<Rightarrow> Inl ''invalid_envelope''
                        | Some expires \<Rightarrow>
                            (case parse_utc_offset_timestamp expires of
                               None \<Rightarrow> Inl ''invalid_expiry''
                             | Some expires_unix \<Rightarrow>
                                 Inr (\<lparr>ec_command_id = i, ec_agent_id = agent, ec_host_id = host, ec_correlation_id = correlation, ec_action = action,
                                        ec_created_unix = 0, ec_expires_unix = expires_unix, ec_pid = 0, ec_start_ticks = 0, ec_path = [],
                                        ec_boot_id = [], ec_authorization = None\<rparr>,
                                      version = ascii ''2''))))))
      | _ \<Rightarrow> Inl ''invalid_envelope'')"

definition parse_created :: "json_value \<Rightarrow> string + int" where
  "parse_created v =
     (case find_member (ascii ''created_at'') v of
        None \<Rightarrow> Inr 0
      | Some created \<Rightarrow>
          (case as_string created of
             None \<Rightarrow> Inl ''invalid_created_at''
           | Some str \<Rightarrow> (case parse_utc_offset_timestamp str of None \<Rightarrow> Inl ''invalid_created_at'' | Some t \<Rightarrow> Inr t)))"

definition parse_authorization :: "json_value \<Rightarrow> string + command_authorization option" where
  "parse_authorization v =
     (case find_member (ascii ''authorization'') v of
        None \<Rightarrow> Inr None
      | Some a \<Rightarrow>
          if \<not> is_object a \<or> length (keys a) \<noteq> 3 then Inl ''invalid_authorization''
          else (case (string_member ''algorithm'' a, string_member ''key_id'' a, string_member ''signature'' a) of
                  (Some algorithm, Some key_id, Some signature) \<Rightarrow>
                    if algorithm \<noteq> ascii ''ES256'' \<or> length key_id \<noteq> 16 \<or> \<not> list_all lower_hex key_id then Inl ''invalid_authorization''
                    else (case decode_base64 signature of
                            None \<Rightarrow> Inl ''invalid_authorization''
                          | Some made \<Rightarrow>
                              if length made \<noteq> 64 then Inl ''invalid_authorization''
                              else Inr (Some \<lparr>au_algorithm = algorithm, au_key_id = key_id, au_signature = made\<rparr>))
                | _ \<Rightarrow> Inl ''invalid_authorization''))"

definition only_keys :: "json_value \<Rightarrow> string list \<Rightarrow> bool" where
  "only_keys t expected \<longleftrightarrow> length (keys t) = length expected \<and> list_all (\<lambda>k. k \<in> set (map ascii expected)) (keys t)"

definition u32_max :: u64 where "u32_max = 0xFFFFFFFF"

text \<open>
  The target. The members are looked up after \<open>only\<close> has counted them, and dereferenced
  unchecked: \<open>None\<close> is a null pointer dereferenced.
\<close>

definition parse_boot_target :: "json_value \<Rightarrow> endpoint_command \<Rightarrow> (string + endpoint_command) option" where
  "parse_boot_target target command =
     (if \<not> only_keys target [''pid'', ''start_time_ticks'', ''boot_id''] then Some (Inl ''invalid_target'')
      else case (find_member (ascii ''pid'') target, find_member (ascii ''start_time_ticks'') target, find_member (ascii ''boot_id'') target) of
             (Some p, Some s, Some b) \<Rightarrow>
               Some (case (as_unsigned p, case as_string s of Some str \<Rightarrow> parse_canonical_uint64 str | None \<Rightarrow> None, as_string b) of
                       (Some pid, Some ticks, Some boot) \<Rightarrow>
                         if pid = 0 \<or> u32_max < pid \<or> ticks = 0 \<or> \<not> boot_digest_ok boot then Inl ''invalid_target''
                         else Inr (command\<lparr>ec_pid := ucast pid, ec_start_ticks := ticks, ec_boot_id := boot\<rparr>)
                     | _ \<Rightarrow> Inl ''invalid_target'')
           | _ \<Rightarrow> None)"

definition parse_process_target :: "json_value \<Rightarrow> endpoint_command \<Rightarrow> (string + endpoint_command) option" where
  "parse_process_target target command =
     (if \<not> only_keys target [''pid'', ''start_time_ticks''] then Some (Inl ''invalid_target'')
      else case (find_member (ascii ''pid'') target, find_member (ascii ''start_time_ticks'') target) of
             (Some p, Some s) \<Rightarrow>
               Some (case (as_unsigned p, as_unsigned s) of
                       (Some pid, Some ticks) \<Rightarrow>
                         if pid = 0 \<or> u32_max < pid \<or> ticks = 0 then Inl ''invalid_target''
                         else Inr (command\<lparr>ec_pid := ucast pid, ec_start_ticks := ticks\<rparr>)
                     | _ \<Rightarrow> Inl ''invalid_target'')
           | _ \<Rightarrow> None)"

definition parse_file_target :: "json_value \<Rightarrow> endpoint_command \<Rightarrow> (string + endpoint_command) option" where
  "parse_file_target target command =
     (if \<not> only_keys target [''path''] then Some (Inl ''invalid_target'')
      else case find_member (ascii ''path'') target of
             Some p \<Rightarrow>
               Some (case as_string p of
                       Some path \<Rightarrow>
                         if path = [] \<or> maximum_path_bytes < length path \<or> 0 \<in> set path then Inl ''invalid_target''
                         else Inr (command\<lparr>ec_path := path\<rparr>)
                     | None \<Rightarrow> Inl ''invalid_target'')
           | None \<Rightarrow> None)"

definition parse_target :: "json_value \<Rightarrow> endpoint_command \<Rightarrow> bool \<Rightarrow> (string + endpoint_command) option" where
  "parse_target v command boot_bound =
     (case find_member (ascii ''target'') v of
        None \<Rightarrow> Some (Inl ''invalid_target'')
      | Some target \<Rightarrow>
          if \<not> is_object target then Some (Inl ''invalid_target'')
          else if ec_action command = Kill_process \<or> ec_action command = Collect_process_info
          then (if boot_bound then parse_boot_target target command else parse_process_target target command)
          else if ec_action command = Collect_file \<or> ec_action command = Quarantine_file
          then (if boot_bound then Some (Inl ''invalid_target'') else parse_file_target target command)
          else Some (if boot_bound \<or> keys target \<noteq> [] then Inl ''invalid_target'' else Inr command))"

definition readable_id :: "string \<Rightarrow> json_value \<Rightarrow> bytes" where
  "readable_id key v = (case string_member key v of Some i \<Rightarrow> if command_id_ok i then i else [] | None \<Rightarrow> [])"

definition parse_endpoint_command :: "json_value \<Rightarrow> parsed_command option" where
  "parse_endpoint_command v =
     (if \<not> is_object v then Some (Unreadable \<lparr>cu_command_id = [], cu_correlation_id = [], cu_reason = ascii ''not_an_object''\<rparr>)
      else
        let fail = (\<lambda>reason. Some (Unreadable \<lparr>cu_command_id = readable_id ''command_id'' v, cu_correlation_id = readable_id ''correlation_id'' v,
              cu_reason = ascii reason\<rparr>))
        in if \<not> list_all (\<lambda>k. k \<in> set (map ascii envelope_keys)) (keys v) then fail ''unknown_field''
           else case parse_envelope v of
                  Inl reason \<Rightarrow> fail reason
                | Inr (command, boot_bound) \<Rightarrow>
                    (case parse_created v of
                       Inl reason \<Rightarrow> fail reason
                     | Inr created \<Rightarrow>
                         (case parse_authorization v of
                            Inl reason \<Rightarrow> fail reason
                          | Inr authorization \<Rightarrow>
                              (case parse_target v (command\<lparr>ec_created_unix := created, ec_authorization := authorization\<rparr>) boot_bound of
                                 None \<Rightarrow> None
                               | Some (Inl reason) \<Rightarrow> fail reason
                               | Some (Inr c) \<Rightarrow> Some (Command c)))))"

section \<open>Boot and poll\<close>

definition boot_id_position_ok :: "nat \<Rightarrow> byte \<Rightarrow> bool" where
  "boot_id_position_ok index c \<longleftrightarrow> (if index = 8 \<or> index = 13 \<or> index = 18 \<or> index = 23 then c = 0x2D else lower_hex c)"

definition linux_boot_digest :: "bytes \<Rightarrow> bytes" where
  "linux_boot_digest kernel_boot_id =
     (if length kernel_boot_id \<noteq> 36 \<or> \<not> list_all (\<lambda>(index, c). boot_id_position_ok index c) (enumerate 0 kernel_boot_id) then []
      else ascii ''boot_'' @ ascii (sha256_hex kernel_boot_id))"

record command_poll =
  po_commands :: "parsed_command list"
  po_malformed :: bool
  po_omitted :: nat
  po_why :: bytes

definition poll_limits :: json_limits where
  "poll_limits = \<lparr>maximum_bytes = 256 * 1024, maximum_depth = 8, maximum_values = 4096\<rparr>"

fun parse_items :: "json_value list \<Rightarrow> parsed_command list option" where
  "parse_items [] = Some []"
| "parse_items (v # vs) =
     (case parse_endpoint_command v of
        None \<Rightarrow> None
      | Some c \<Rightarrow> (case parse_items vs of None \<Rightarrow> None | Some cs \<Rightarrow> Some (c # cs)))"

definition malformed_poll :: "bytes \<Rightarrow> command_poll" where
  "malformed_poll why = \<lparr>po_commands = [], po_malformed = True, po_omitted = 0, po_why = why\<rparr>"

definition parse_command_poll :: "(byte list \<Rightarrow> bool) \<Rightarrow> bytes \<Rightarrow> nat \<Rightarrow> command_poll option" where
  "parse_command_poll in_range body maximum_commands =
     (case parse_json in_range poll_limits body of
        Inl why \<Rightarrow> Some (malformed_poll (ascii ''the reply is not valid JSON: '' @ clean 120 (ascii why)))
      | Inr document \<Rightarrow>
          if \<not> is_object document \<or> keys document \<noteq> [ascii ''commands''] then Some (malformed_poll (ascii ''the reply is not a command list''))
          else (case find_member (ascii ''commands'') document of
                  None \<Rightarrow> Some (malformed_poll (ascii ''the command list is missing''))
                | Some found \<Rightarrow>
                    if \<not> is_array found then Some (malformed_poll (ascii ''the command list is missing''))
                    else
                      let taken = min (length (items found)) maximum_commands
                      in (case parse_items (take taken (items found)) of
                            None \<Rightarrow> None
                          | Some cs \<Rightarrow> Some \<lparr>po_commands = cs, po_malformed = False, po_omitted = length (items found) - taken, po_why = []\<rparr>)))"

end
