(* ===== verification/Command_Channel.thy ===== *)
theory Command_Channel
  imports Command_Message Uplink
begin

text \<open>
  The provider that runs the command channel, class \<open>command_channel_provider\<close> of
  \<^verbatim>\<open>src/sensor/command_channel.cpp\<close>: one step polls the Manager, carries out what it brings and reports.
  What the network, the disk, the clock and the host do at each point of a step is an argument, indexed by
  the number of such points the provider has passed; \<open>ch_trace\<close> keeps what it did on the
  host and told the Manager. The threads that call \<open>step\<close> and deliver artifacts are not part of it.
\<close>

section \<open>State\<close>

record channel_env =
  en_verify_raw :: verifier
  en_execute :: "nat \<Rightarrow> endpoint_command \<Rightarrow> bool \<Rightarrow> execution_result"
  en_collected :: "(endpoint_command \<Rightarrow> bytes \<Rightarrow> bytes \<Rightarrow> bytes result) option"
  en_in_range :: "byte list \<Rightarrow> bool"
  en_io :: "nat \<Rightarrow> append_io"
  en_now :: "nat \<Rightarrow> int"
  en_submit :: "nat \<Rightarrow> bytes \<Rightarrow> post_response"
  en_accept :: "nat \<Rightarrow> bytes \<Rightarrow> post_response"
  en_poll :: "nat \<Rightarrow> post_response"
  en_key_info :: "(file_identity \<times> int \<times> int) option"
  en_key_file :: key_file

record command_channel_metrics =
  cm_polls :: u64
  cm_commands_seen :: u64
  cm_executed :: u64
  cm_rejected :: u64
  cm_results_reported :: u64
  cm_result_failures :: u64
  cm_unreadable :: u64
  cm_authorization_refused :: u64
  cm_last_error :: bytes

datatype channel_event =
    Executed endpoint_command bool int
  | Submitted bytes post_status
  | Audited command_outcome

record command_channel =
  ch_options :: command_processor_options
  ch_poll_interval_ms :: u64
  ch_maximum_backoff_ms :: u64
  ch_processor :: command_processor
  ch_metrics :: command_channel_metrics
  ch_backoff_ms :: u64
  ch_state :: string
  ch_tick :: nat
  ch_trace :: "channel_event list"

definition with_metrics :: "(command_channel_metrics \<Rightarrow> command_channel_metrics) \<Rightarrow> command_channel \<Rightarrow> command_channel" where
  "with_metrics f c = c\<lparr>ch_metrics := f (ch_metrics c)\<rparr>"

definition channel_ledger :: "command_channel \<Rightarrow> command_ledger" where
  "channel_ledger c = pr_ledger (ch_processor c)"

section \<open>Messages\<close>

definition json_object :: "(string \<times> bytes) list \<Rightarrow> bytes" where
  "json_object members =
     (case fold (\<lambda>(k, v) w. Option.bind w (field (ascii k) (value_string v))) members (Some (begin_object json_writer_new)) of
        None \<Rightarrow> []
      | Some w \<Rightarrow> (case end_object w of None \<Rightarrow> [] | Some w' \<Rightarrow> jw_out w'))"

definition command_result_json :: "command_outcome \<Rightarrow> bytes" where
  "command_result_json outcome =
     json_object
       [(''schema_version'', ascii ''2''), (''result_id'', ascii ''res-'' @ co_command_id outcome), (''command_id'', co_command_id outcome),
        (''outcome'', co_outcome outcome), (''detail'', clean 500 (co_reason outcome @ ascii '': '' @ co_detail outcome)),
        (''correlation_id'', co_correlation_id outcome)]"

definition valid_collection_accept_ack :: "(byte list \<Rightarrow> bool) \<Rightarrow> bytes \<Rightarrow> post_response \<Rightarrow> bool" where
  "valid_collection_accept_ack in_range command_id reply \<longleftrightarrow>
     pr_status reply = answered \<and> pr_http_status reply = 200 \<and> length (pr_body reply) \<le> 4096 \<and>
     (case parse_json in_range \<lparr>maximum_bytes = 4096, maximum_depth = 2, maximum_values = 8\<rparr> (pr_body reply) of
        Inl _ \<Rightarrow> False
      | Inr v \<Rightarrow> is_object v \<and> length (keys v) = 2 \<and> string_member ''command_id'' v = Some command_id \<and>
          (case find_member (ascii ''accepted'') v of None \<Rightarrow> False | Some accepted \<Rightarrow> as_boolean accepted = Some True))"

section \<open>Starting\<close>

definition channel_probe :: "command_processor_options \<Rightarrow> bool \<Rightarrow> string" where
  "channel_probe opts connected =
     (if cp_mode (po_policy opts) = Off then ''response is off in the configuration'' else if \<not> connected then ''no transport'' else [])"

text \<open>\<open>prepare\<close>: the ledger and the processor; the artifact store it opens is part of \<open>en_collected\<close>.\<close>

definition channel_prepare ::
  "bool \<Rightarrow> nat \<Rightarrow> int \<Rightarrow> open_io \<Rightarrow> bool \<Rightarrow> open_io \<Rightarrow> ledger_disk option \<Rightarrow> command_channel \<Rightarrow> command_channel result \<times> ledger_disk option" where
  "channel_prepare connected maximum_entries now io renamed io' stored c =
     (if channel_probe (ch_options c) connected \<noteq> [] then (Inl (Error unsupported_action (channel_probe (ch_options c) connected)), stored)
      else case ledger_open_or_recover maximum_entries now io renamed io' stored of
             (Inl e, stored') \<Rightarrow> (Inl e, stored')
           | (Inr l, stored') \<Rightarrow>
               (Inr ((if cl_recovered l
                      then with_metrics (\<lambda>m. m\<lparr>cm_last_error := ascii ''the command ledger was corrupt and was set aside; commands issued before now are refused''\<rparr>)
                      else (\<lambda>c. c))
                     (c\<lparr>ch_options := (ch_options c)\<lparr>po_require_collection_acceptance := True\<rparr>,
                        ch_processor := \<lparr>pr_ledger = l, pr_change_times = []\<rparr>\<rparr>)),
                stored'))"

section \<open>Reporting\<close>

definition count_outcome :: "command_outcome \<Rightarrow> command_channel_metrics \<Rightarrow> command_channel_metrics" where
  "count_outcome outcome m =
     (if co_outcome outcome = ascii ''rejected'' then
        m\<lparr>cm_rejected := cm_rejected m + 1,
          cm_authorization_refused := (if co_reason outcome = ascii ''signature_required'' \<or> co_reason outcome = ascii ''unknown_signing_key'' \<or>
            co_reason outcome = ascii ''signature_invalid'' then cm_authorization_refused m + 1 else cm_authorization_refused m)\<rparr>
      else if co_executed outcome then m\<lparr>cm_executed := cm_executed m + 1\<rparr> else m)"

definition channel_mark_reported :: "channel_env \<Rightarrow> bytes \<Rightarrow> command_channel \<Rightarrow> command_channel" where
  "channel_mark_reported env i c =
     c\<lparr>ch_processor := (ch_processor c)\<lparr>pr_ledger := snd (mark_reported (en_io env (ch_tick c)) i (channel_ledger c))\<rparr>, ch_tick := Suc (ch_tick c)\<rparr>"

definition channel_report :: "channel_env \<Rightarrow> bool \<Rightarrow> command_outcome \<Rightarrow> command_channel \<Rightarrow> command_channel" where
  "channel_report env audit outcome c =
     (let c1 = with_metrics (count_outcome outcome) (if audit then c\<lparr>ch_trace := ch_trace c @ [Audited outcome]\<rparr> else c)
      in if co_command_id outcome = [] then c1
         else
           let reply = en_submit env (ch_tick c1) (command_result_json outcome);
               c2 = c1\<lparr>ch_tick := Suc (ch_tick c1), ch_trace := ch_trace c1 @ [Submitted (co_command_id outcome) (pr_status reply)]\<rparr>
           in case pr_status reply of
                answered \<Rightarrow>
                  channel_mark_reported env (co_command_id outcome) (with_metrics (\<lambda>m. m\<lparr>cm_results_reported := cm_results_reported m + 1\<rparr>) c2)
              | refused \<Rightarrow>
                  channel_mark_reported env (co_command_id outcome)
                    (with_metrics (\<lambda>m. m\<lparr>cm_result_failures := cm_result_failures m + 1,
                       cm_last_error := ascii ''the Manager refused a command result: '' @ clean 120 (pr_detail reply)\<rparr>) c2)
              | _ \<Rightarrow>
                  with_metrics (\<lambda>m. m\<lparr>cm_result_failures := cm_result_failures m + 1,
                    cm_last_error := ascii ''command result not delivered: '' @ clean 120 (pr_detail reply)\<rparr>) c2)"

section \<open>One step\<close>

definition channel_resume :: "channel_env \<Rightarrow> bytes \<Rightarrow> bytes \<Rightarrow> endpoint_command option \<Rightarrow> command_channel \<Rightarrow> command_channel" where
  "channel_resume env i correlation_id command c =
     (case processor_resume (en_io env (ch_tick c)) i correlation_id command (ch_processor c) of
        (None, p) \<Rightarrow> c\<lparr>ch_processor := p, ch_tick := Suc (ch_tick c)\<rparr>
      | (Some outcome, p) \<Rightarrow> channel_report env True outcome (c\<lparr>ch_processor := p, ch_tick := Suc (ch_tick c)\<rparr>))"

definition again_outcome :: "bytes \<Rightarrow> ledger_entry \<Rightarrow> command_outcome" where
  "again_outcome i e =
     \<lparr>co_command_id = i, co_correlation_id = le_correlation_id e, co_outcome = le_outcome e, co_reason = le_reason e, co_detail = le_detail e,
      co_mode = [], co_action = [], co_dry_run = False, co_executed = False, co_pid = 0, co_start_ticks = 0, co_path = [], co_affected = 0\<rparr>"

definition channel_processor_env :: "channel_env \<Rightarrow> nat \<Rightarrow> processor_env" where
  "channel_processor_env env n =
     \<lparr>pe_verify_raw = en_verify_raw env, pe_execute = en_execute env n,
      pe_collection_authorized = (\<lambda>command. valid_collection_accept_ack (en_in_range env) (ec_command_id command) (en_accept env n (ec_command_id command))),
      pe_collected = en_collected env\<rparr>"

definition channel_handle :: "channel_env \<Rightarrow> endpoint_command \<Rightarrow> command_channel \<Rightarrow> command_channel" where
  "channel_handle env command c =
     (let n = ch_tick c;
          (outcome, p, call) = processor_handle (channel_processor_env env n) (ch_options c) (en_io env n) (en_io env (Suc n)) (en_now env n) command (ch_processor c);
          ran = (case call of None \<Rightarrow> [] | Some (run, dry_run) \<Rightarrow> [Executed run dry_run (en_now env n)])
      in channel_report env True outcome (c\<lparr>ch_processor := p, ch_tick := Suc (Suc n), ch_trace := ch_trace c @ ran\<rparr>))"

definition channel_unreadable :: "channel_env \<Rightarrow> command_unreadable \<Rightarrow> command_channel \<Rightarrow> command_channel" where
  "channel_unreadable env failure c =
     (let n = ch_tick c;
          (outcome, p) = processor_unreadable (en_io env n) (en_io env (Suc n)) (en_now env n) failure (ch_processor c)
      in channel_report env True outcome (c\<lparr>ch_processor := p, ch_tick := Suc (Suc n)\<rparr>))"

text \<open>One entry of a poll; the flag is \<open>progressed\<close>.\<close>

definition channel_item :: "channel_env \<Rightarrow> parsed_command \<Rightarrow> bool \<times> command_channel \<Rightarrow> bool \<times> command_channel" where
  "channel_item env item pc =
     (case pc of (progressed, c0) \<Rightarrow>
        let c = with_metrics (\<lambda>m. m\<lparr>cm_commands_seen := cm_commands_seen m + 1\<rparr>) c0
        in case item of
             Unreadable failure \<Rightarrow>
               if cu_command_id failure = [] \<or> cu_correlation_id failure = []
               then (progressed, with_metrics (\<lambda>m. m\<lparr>cm_unreadable := cm_unreadable m + 1\<rparr>) c)
               else if ledger_find (cu_command_id failure) (channel_ledger c) \<noteq> None then (progressed, c)
               else (True, channel_unreadable env failure c)
           | Command command \<Rightarrow>
               (case ledger_find (ec_command_id command) (channel_ledger c) of
                  None \<Rightarrow> (True, channel_handle env command c)
                | Some known \<Rightarrow>
                    (case le_state known of
                       Received \<Rightarrow> (progressed, channel_resume env (ec_command_id command) (ec_correlation_id command) (Some command) c)
                     | _ \<Rightarrow> (progressed, c))))"

definition channel_refresh :: "channel_env \<Rightarrow> command_channel \<Rightarrow> command_channel" where
  "channel_refresh env c =
     c\<lparr>ch_options := (ch_options c)\<lparr>po_keyring :=
       map_option (keyring_refresh (en_verify_raw env) (en_key_info env) (en_now env (ch_tick c)) (en_key_file env)) (po_keyring (ch_options c))\<rparr>\<rparr>"

definition poll_failed :: "post_response \<Rightarrow> command_channel \<Rightarrow> u64 \<times> command_channel" where
  "poll_failed reply c =
     (let backoff = (if ch_backoff_ms c = 0 then ch_poll_interval_ms c * 2 else min (ch_backoff_ms c * 2) (ch_maximum_backoff_ms c));
          why = (if pr_status reply = unauthorized then ascii ''the Manager refused the agent credentials''
                 else ascii ''command poll failed: '' @ clean 120 (pr_detail reply))
      in (backoff, with_metrics (\<lambda>m. m\<lparr>cm_last_error := why\<rparr>) (c\<lparr>ch_state := ''degraded'', ch_backoff_ms := backoff\<rparr>)))"

definition poll_answered :: "command_channel \<Rightarrow> command_channel" where
  "poll_answered c =
     with_metrics (\<lambda>m. m\<lparr>cm_last_error := (case po_keyring (ch_options c) of None \<Rightarrow> [] | Some ring \<Rightarrow> ascii (kr_last_error ring))\<rparr>)
       (c\<lparr>ch_state := ''active'', ch_backoff_ms := 0\<rparr>)"

text \<open>What was interrupted is closed and what was never acknowledged is told again, before the poll.\<close>

definition settle_ledger :: "channel_env \<Rightarrow> command_channel \<Rightarrow> command_channel" where
  "settle_ledger env c =
     (let c1 = fold (\<lambda>(i, e). channel_resume env i (le_correlation_id e) None) (interrupted (channel_ledger c)) c
      in fold (\<lambda>(i, e). channel_report env False (again_outcome i e)) (unreported (channel_ledger c1)) c1)"

definition channel_step :: "channel_env \<Rightarrow> command_channel \<Rightarrow> (u64 \<times> command_channel) option" where
  "channel_step env c0 =
     (let c = settle_ledger env (channel_refresh env (with_metrics (\<lambda>m. m\<lparr>cm_polls := cm_polls m + 1\<rparr>) c0));
          reply = en_poll env (ch_tick c);
          c1 = c\<lparr>ch_tick := Suc (ch_tick c)\<rparr>
      in if pr_status reply \<noteq> answered then Some (poll_failed reply c1)
         else
           let c2 = poll_answered c1
           in case parse_command_poll (en_in_range env) (pr_body reply) 32 of
                None \<Rightarrow> None
              | Some poll \<Rightarrow>
                  if po_malformed poll then
                    Some (ch_poll_interval_ms c2,
                      with_metrics (\<lambda>m. m\<lparr>cm_unreadable := cm_unreadable m + 1, cm_last_error := ascii ''command poll reply rejected: '' @ po_why poll\<rparr>) c2)
                  else
                    let (progressed, c3) = fold (channel_item env) (po_commands poll) (False, c2)
                    in Some (if 0 < po_omitted poll \<and> progressed then min (ch_poll_interval_ms c3) 200 else ch_poll_interval_ms c3, c3))"

end
