(* ===== verification/Auth_Properties.thy ===== *)
theory Auth_Properties
  imports Command_Auth
begin

text \<open>
  What the authorisation of commands guarantees: the signed bytes determine every field that is
  acted on, base64 is one text per byte sequence, and the keyring never drops to keys that were
  not read from a trusted file.
\<close>

section \<open>The signed bytes\<close>

lemma byte_of_char_inj: "(of_nat (of_char c) :: byte) = of_nat (of_char d) \<longleftrightarrow> c = d"
proof
  assume "of_nat (of_char c) = (of_nat (of_char d) :: byte)"
  then have "unat (of_nat (of_char c) :: byte) = unat (of_nat (of_char d) :: byte)" by simp
  then have "(of_char c :: nat) mod 256 = of_char d mod 256" by (simp add: unat_of_nat)
  moreover have "(of_char e :: nat) mod 256 = of_char e" for e :: char by (simp add: of_char_mod_256)
  ultimately have "(of_char c :: nat) = of_char d" by simp
  then show "c = d" by simp
qed simp

lemma ascii_inj [simp]: "ascii a = ascii b \<longleftrightarrow> a = b"
  unfolding ascii_def by (intro inj_map_eq_map injI) (simp add: byte_of_char_inj)

lemma colon_not_digit: "is_digit c \<Longrightarrow> (of_nat (of_char c) :: byte) \<noteq> of_nat (of_char CHR '':'')"
  unfolding byte_of_char_inj by (auto simp: is_digit_def)

text \<open>A counted field is read back from the front of any bytes.\<close>

lemma split_at_first:
  assumes "a @ c # r = b @ c # t" "c \<notin> set a" "c \<notin> set b"
  shows "a = b \<and> r = t"
proof -
  have "takeWhile (\<lambda>x. x \<noteq> c) (a @ c # r) = a" "takeWhile (\<lambda>x. x \<noteq> c) (b @ c # t) = b"
    using assms(2,3) by (simp_all add: takeWhile_append)
  with assms(1) show ?thesis by simp
qed

lemma ascii_digits_colon: "of_nat (of_char CHR '':'') \<notin> set (ascii (to_string n))"
  using to_string_digits colon_not_digit by (force simp: ascii_def)

lemma sign_field_inj:
  assumes "sign_field name v @ r = sign_field name u @ t"
  shows "v = u \<and> r = t"
proof -
  have colon: "ascii '':'' = [of_nat (of_char CHR '':'')]" by (simp add: ascii_def)
  have "ascii (to_string (length v)) @ of_nat (of_char CHR '':'') # (v @ 0x0A # r) =
    ascii (to_string (length u)) @ of_nat (of_char CHR '':'') # (u @ 0x0A # t)"
    using assms unfolding sign_field_def colon by simp
  from split_at_first [OF this ascii_digits_colon ascii_digits_colon]
  have "length v = length u" "v @ 0x0A # r = u @ 0x0A # t" by (simp_all add: to_string_inj)
  then show ?thesis by simp
qed

lemma signed_text_inj: "signed_text i = signed_text j \<longleftrightarrow> i = j"
proof -
  have "hd (to_string n) \<noteq> CHR ''-''" for n
    using to_string_digits [of n] to_string_nonempty [of n] by (cases "to_string n") (auto simp: is_digit_def)
  then have minus: "CHR ''-'' # xs \<noteq> to_string n" for xs n by (metis list.sel(1))
  show ?thesis
    unfolding signed_text_def using minus minus [symmetric] by (auto simp: to_string_inj)
qed

lemma action_text_inj: "action_text a = action_text b \<longleftrightarrow> a = b"
  by (cases a; cases b) simp_all

lemma command_signing_input_injective:
  assumes "command_signing_input c = command_signing_input d"
  shows "c\<lparr>ec_authorization := None\<rparr> = d\<lparr>ec_authorization := None\<rparr>"
proof -
  note eq = assms [unfolded command_signing_input_def append_assoc same_append_eq]
  note s1 = sign_field_inj [OF eq]
  note s2 = sign_field_inj [OF conjunct2 [OF s1]]
  note s3 = sign_field_inj [OF conjunct2 [OF s2]]
  note s4 = sign_field_inj [OF conjunct2 [OF s3]]
  note s5 = sign_field_inj [OF conjunct2 [OF s4]]
  note s6 = sign_field_inj [OF conjunct2 [OF s5]]
  note s7 = sign_field_inj [OF conjunct2 [OF s6]]
  note s8 = sign_field_inj [OF conjunct2 [OF s7]]
  note s9 = sign_field_inj [OF conjunct2 [OF s8]]
  note s10 = sign_field_inj [OF conjunct2 [OF s9]]
  note s11 = sign_field_inj [OF conjunct2 [OF s10]]
  have "ec_path c = ec_path d"
    using sign_field_inj [of "''path''" "ec_path c" "[]" "ec_path d" "[]"] conjunct2 [OF s11] by simp
  with s2 s3 s4 s5 s6 s7 s8 s9 s10 s11 show ?thesis
    by (intro endpoint_command.equality) (simp_all add: action_text_inj signed_text_inj to_string_inj word_unat_eq_iff)
qed

text \<open>
  C23. What is signed is what is executed: a command is accepted only with a creation time and a
  signature that a pinned key verifies over its signed bytes, and those bytes determine every field
  that is acted on, whatever colons, digits and line ends the fields contain: no other command has
  the same bytes.
\<close>

theorem command_authorised:
  assumes "keyring_check verify_raw ring c = Valid"
  shows "\<exists>au point. ec_authorization c = Some au \<and> map_of (kr_keys ring) (au_key_id au) = Some point \<and> 0 < ec_created_unix c \<and>
    verify_raw point (command_signing_input c) (au_signature au) = Inr True \<and>
    (\<forall>d. command_signing_input d = command_signing_input c \<longrightarrow> d\<lparr>ec_authorization := None\<rparr> = c\<lparr>ec_authorization := None\<rparr>)"
proof -
  from assms obtain au point where "ec_authorization c = Some au" "map_of (kr_keys ring) (au_key_id au) = Some point" "0 < ec_created_unix c"
    "verify_raw point (command_signing_input c) (au_signature au) = Inr True"
    by (auto simp: keyring_check_def split: option.splits if_splits)
  with command_signing_input_injective show ?thesis by blast
qed

section \<open>Base64\<close>

lemma base64_value_alphabet: "v < 64 \<Longrightarrow> base64_value (base64_alphabet ! v) = Some v"
proof -
  have "list_all (\<lambda>v. base64_value (base64_alphabet ! v) = Some v) [0..<64]" by code_simp
  then show "v < 64 \<Longrightarrow> base64_value (base64_alphabet ! v) = Some v" by (simp add: list_all_iff)
qed

lemma base64_value_inj: "base64_value c = Some v \<Longrightarrow> base64_value d = Some v \<Longrightarrow> c = d"
  by (auto simp: base64_value_def word_le_nat_alt word_unat_eq_iff split: if_splits)

lemma base64_value_less: "base64_value c = Some v \<Longrightarrow> v < 64"
  by (auto simp: base64_value_def word_le_nat_alt split: if_splits)

lemma alphabet_base64_value: "base64_value c = Some v \<Longrightarrow> base64_alphabet ! v = c"
  using base64_value_inj base64_value_alphabet base64_value_less by blast

text \<open>Six-bit values and bytes as numbers: concatenating bits is adding.\<close>

lemma or_shift: "(y :: nat) < 2 ^ n \<Longrightarrow> push_bit n x OR y = x * 2 ^ n + y"
proof -
  assume "y < 2 ^ n"
  then have "take_bit n y = y" by (simp add: take_bit_nat_eq_self)
  then have "\<not> bit y k" if "n \<le> k" for k by (metis bit_take_bit_iff linorder_not_less that)
  then have "push_bit n x AND y = 0" by - (rule bit_eqI, auto simp: bit_simps)
  from disjunctive_add_eq_or [OF this] show ?thesis unfolding push_bit_eq_mult by simp
qed

lemma and_low: "(x :: nat) AND 3 = x mod 4" "x AND 15 = x mod 16" "x AND 63 = x mod 64"
  using take_bit_eq_mask [of 2 x] take_bit_eq_mask [of 4 x] take_bit_eq_mask [of 6 x]
  by (simp_all add: take_bit_eq_mod mask_eq_exp_minus_1)

lemma byte_bound: "unat (b :: byte) < 256"
  using unsigned_less [of b] by simp

lemma or_mult: "(y :: nat) < 16 \<Longrightarrow> x * 16 OR y = x * 16 + y" "y < 4 \<Longrightarrow> x * 4 OR y = x * 4 + y"
  using or_shift [of y 4 x] or_shift [of y 2 x] by (simp_all add: push_bit_eq_mult)

lemma unat_shifts:
  fixes a :: byte
  shows "unat (drop_bit n a) = unat a div 2 ^ n" "unat (push_bit 4 (a AND 3)) = unat a mod 4 * 16" "unat (push_bit 2 (a AND 15)) = unat a mod 16 * 4"
    "unat (a AND 63) = unat a mod 64"
proof -
  have small: "unat a mod 4 * 16 < 256" "unat a mod 16 * 4 < 256"
    by (simp_all add: mult_less_cancel2)
  show "unat (drop_bit n a) = unat a div 2 ^ n" unfolding unsigned_drop_bit_eq using byte_bound [of a]
    by (simp add: drop_bit_eq_div take_bit_eq_mod)
  show "unat (push_bit 4 (a AND 3)) = unat a mod 4 * 16" unfolding unsigned_push_bit_eq unsigned_and_eq
    using small(1) by (simp add: and_low push_bit_eq_mult take_bit_eq_mod)
  show "unat (push_bit 2 (a AND 15)) = unat a mod 16 * 4" unfolding unsigned_push_bit_eq unsigned_and_eq
    using small(2) by (simp add: and_low push_bit_eq_mult take_bit_eq_mod)
  show "unat (a AND 63) = unat a mod 64" unfolding unsigned_and_eq by (simp add: and_low)
qed

lemma sixbit_values:
  fixes a b c :: byte
  shows "unat (push_bit 4 (a AND 3) OR drop_bit 4 b) = unat a mod 4 * 16 + unat b div 16"
    "unat (push_bit 2 (b AND 15) OR drop_bit 6 c) = unat b mod 16 * 4 + unat c div 64"
proof -
  have "unat b div 16 < 16" "unat c div 64 < 4" using byte_bound [of b] byte_bound [of c] by auto
  then show "unat (push_bit 4 (a AND 3) OR drop_bit 4 b) = unat a mod 4 * 16 + unat b div 16"
    "unat (push_bit 2 (b AND 15) OR drop_bit 6 c) = unat b mod 16 * 4 + unat c div 64"
    unfolding unsigned_or_eq unat_shifts by (simp_all add: or_mult)
qed

lemma group_value:
  "v0 < 64 \<Longrightarrow> v1 < 64 \<Longrightarrow> v2 < 64 \<Longrightarrow> v3 < (64 :: nat) \<Longrightarrow>
   push_bit 18 v0 OR push_bit 12 v1 OR push_bit 6 v2 OR v3 = v0 * 262144 + v1 * 4096 + v2 * 64 + v3"
  using or_shift [of v3 6 v2] or_shift [of "v2 * 64 + v3" 12 v1] or_shift [of "v1 * 4096 + (v2 * 64 + v3)" 18 v0]
  by (simp add: or.assoc)

lemma quad_loop_plain:
  assumes "base64_value a = Some v0" "base64_value b = Some v1" "base64_value c = Some v2" "base64_value d = Some v3"
  shows "quad_loop final 0 0 [] [a, b, c, d] = Some ([v0, v1, v2, v3], 0)"
proof -
  have "base64_value 0x3D = None" by (simp add: base64_value_def)
  with assms show ?thesis by auto
qed

lemma three_bytes:
  assumes "y < 256" "z < (256 :: nat)"
  shows "(x * 65536 + y * 256 + z) div 65536 = x" "(x * 65536 + y * 256 + z) div 256 mod 256 = y" "(x * 65536 + y * 256 + z) mod 256 = z"
proof -
  have n: "x * 65536 + y * 256 + z = (x * 256 + y) * 256 + z" by simp
  have "(x * 65536 + y * 256 + z) div 256 = x * 256 + y" unfolding n using assms(2) by simp
  moreover have "(x * 65536 + y * 256 + z) div 65536 = (x * 65536 + y * 256 + z) div 256 div 256" by (simp add: div_mult2_eq [symmetric])
  ultimately show "(x * 65536 + y * 256 + z) div 65536 = x" "(x * 65536 + y * 256 + z) div 256 mod 256 = y" using assms(1) by simp_all
  show "(x * 65536 + y * 256 + z) mod 256 = z" unfolding n using assms(2) by (metis mod_less mod_mult_self3)
qed

lemma quad_bytes_plain:
  assumes "v0 < 64" "v1 < 64" "v2 < 64" "v3 < 64"
  shows "quad_bytes [v0, v1, v2, v3] 0 = Some [of_nat (v0 * 4 + v1 div 16), of_nat (v1 mod 16 * 16 + v2 div 4), of_nat (v2 mod 4 * 64 + v3)]"
proof -
  define n where "n = v0 * 262144 + v1 * 4096 + v2 * 64 + v3"
  have "n div 65536 = v0 * 4 + v1 div 16" "n div 256 mod 256 = v1 mod 16 * 16 + v2 div 4" "n mod 256 = v2 mod 4 * 64 + v3"
  proof -
    obtain p q where v1: "v1 = p * 16 + q" "q < 16" by (metis div_mod_decomp mod_less_divisor zero_less_numeral)
    obtain r t where v2: "v2 = r * 4 + t" "t < 4" by (metis div_mod_decomp mod_less_divisor zero_less_numeral)
    have n: "n = (v0 * 4 + p) * 65536 + (q * 16 + r) * 256 + (t * 64 + v3)"
      unfolding n_def v1(1) v2(1) by (simp add: algebra_simps)
    have "q * 16 + r < 256" "t * 64 + v3 < 256" using v1 v2 assms by linarith+
    from three_bytes [OF this, of "v0 * 4 + p"]
    have "n div 65536 = v0 * 4 + p" "n div 256 mod 256 = q * 16 + r" "n mod 256 = t * 64 + v3" unfolding n by auto
    moreover have "v1 div 16 = p" "v1 mod 16 = q" "v2 div 4 = r" "v2 mod 4 = t" using v1 v2 by simp_all
    ultimately show "n div 65536 = v0 * 4 + v1 div 16" "n div 256 mod 256 = v1 mod 16 * 16 + v2 div 4" "n mod 256 = v2 mod 4 * 64 + v3"
      by simp_all
  qed
  moreover from this have "v1 mod 16 * 16 + v2 div 4 < 256" "v2 mod 4 * 64 + v3 < 256"
    by (metis mod_less_divisor zero_less_numeral)+
  ultimately have "(of_nat (n div 65536) :: byte) = of_nat (v0 * 4 + v1 div 16)" "(of_nat (n div 256) :: byte) = of_nat (v1 mod 16 * 16 + v2 div 4)"
    "(of_nat n :: byte) = of_nat (v2 mod 4 * 64 + v3)"
    by (simp_all add: word_unat_eq_iff unat_of_nat del: of_nat_add of_nat_mult)
  then show ?thesis using assms unfolding quad_bytes_def
    by (simp add: group_value n_def [symmetric] drop_bit_eq_div Let_def)
qed

text \<open>One and two bytes: the padded groups.\<close>

lemma quad_loop_padded:
  assumes "base64_value a = Some v0" "base64_value b = Some v1"
  shows "quad_loop True 0 0 [] [a, b, 0x3D, 0x3D] = Some ([v0, v1, 0, 0], 2)"
    "base64_value c = Some v2 \<Longrightarrow> quad_loop True 0 0 [] [a, b, c, 0x3D] = Some ([v0, v1, v2, 0], 1)"
proof -
  have "base64_value 0x3D = None" by (simp add: base64_value_def)
  with assms show "quad_loop True 0 0 [] [a, b, 0x3D, 0x3D] = Some ([v0, v1, 0, 0], 2)"
    "base64_value c = Some v2 \<Longrightarrow> quad_loop True 0 0 [] [a, b, c, 0x3D] = Some ([v0, v1, v2, 0], 1)" by auto
qed

lemma quad_bytes_padded:
  assumes "v0 < 64" "v1 < 64" "v2 < 64"
  shows "quad_bytes [v0, v1, 0, 0] 2 = (if v1 mod 16 = 0 then Some [of_nat (v0 * 4 + v1 div 16)] else None)"
    "quad_bytes [v0, v1, v2, 0] 1 = (if v2 mod 4 = 0 then Some [of_nat (v0 * 4 + v1 div 16), of_nat (v1 mod 16 * 16 + v2 div 4)] else None)"
  using quad_bytes_plain [of v0 v1 v2 0] quad_bytes_plain [of v0 v1 0 0] assms
  by (auto simp: quad_bytes_def and_low Let_def)

text \<open>The two directions for one whole group.\<close>

lemma base64_loop_prefix: "base64_loop xs (pre @ out) = map_option (\<lambda>r. pre @ r) (base64_loop xs out)"
proof (induction xs out rule: base64_loop.induct)
  case (1 a b c d rest out)
  then show ?case by (auto split: option.split)
qed simp_all

lemma base64_loop_out: "base64_loop xs out = map_option (\<lambda>r. out @ r) (base64_loop xs [])"
  using base64_loop_prefix [of xs out "[]"] by simp

lemma alphabet_values:
  fixes a b c :: byte
  shows "base64_value (base64_alphabet ! unat (drop_bit 2 a)) = Some (unat a div 4)"
    "base64_value (base64_alphabet ! unat (push_bit 4 (a AND 3) OR drop_bit 4 b)) = Some (unat a mod 4 * 16 + unat b div 16)"
    "base64_value (base64_alphabet ! unat (push_bit 2 (b AND 15) OR drop_bit 6 c)) = Some (unat b mod 16 * 4 + unat c div 64)"
    "base64_value (base64_alphabet ! unat (c AND 63)) = Some (unat c mod 64)"
    "base64_value (base64_alphabet ! unat (push_bit 4 (a AND 3))) = Some (unat a mod 4 * 16)"
    "base64_value (base64_alphabet ! unat (push_bit 2 (b AND 15))) = Some (unat b mod 16 * 4)"
proof -
  have m: "unat a mod 4 < 4" "unat b mod 16 < 16" "unat c mod 64 < 64" by simp_all
  have "unat a div 4 < 64" "unat b div 16 < 16" "unat c div 64 < 4" using byte_bound [of a] byte_bound [of b] byte_bound [of c] by linarith+
  with m have small: "unat a mod 4 * 16 + unat b div 16 < 64" "unat b mod 16 * 4 + unat c div 64 < 64" "unat a div 4 < 64"
    "unat a mod 4 * 16 < 64" "unat b mod 16 * 4 < 64" by linarith+
  show "base64_value (base64_alphabet ! unat (drop_bit 2 a)) = Some (unat a div 4)"
    "base64_value (base64_alphabet ! unat (push_bit 4 (a AND 3) OR drop_bit 4 b)) = Some (unat a mod 4 * 16 + unat b div 16)"
    "base64_value (base64_alphabet ! unat (push_bit 2 (b AND 15) OR drop_bit 6 c)) = Some (unat b mod 16 * 4 + unat c div 64)"
    "base64_value (base64_alphabet ! unat (c AND 63)) = Some (unat c mod 64)"
    "base64_value (base64_alphabet ! unat (push_bit 4 (a AND 3))) = Some (unat a mod 4 * 16)"
    "base64_value (base64_alphabet ! unat (push_bit 2 (b AND 15))) = Some (unat b mod 16 * 4)"
    unfolding unat_shifts sixbit_values using small m by (simp_all add: base64_value_alphabet)
qed

lemma base64_loop_group:
  assumes "base64_value x = Some v0" "base64_value y = Some v1"
  shows "base64_loop [x, y, 0x3D, 0x3D] [] = (if v1 mod 16 = 0 then Some [of_nat (v0 * 4 + v1 div 16)] else None)"
    "base64_value z = Some v2 \<Longrightarrow> base64_loop [x, y, z, 0x3D] [] =
       (if v2 mod 4 = 0 then Some [of_nat (v0 * 4 + v1 div 16), of_nat (v1 mod 16 * 16 + v2 div 4)] else None)"
    "base64_value z = Some v2 \<Longrightarrow> base64_value w = Some v3 \<Longrightarrow> base64_loop (x # y # z # w # rest) [] =
       map_option (\<lambda>r. [of_nat (v0 * 4 + v1 div 16), of_nat (v1 mod 16 * 16 + v2 div 4), of_nat (v2 mod 4 * 64 + v3)] @ r) (base64_loop rest [])"
proof -
  note small = base64_value_less [OF assms(1)] base64_value_less [OF assms(2)]
  show "base64_loop [x, y, 0x3D, 0x3D] [] = (if v1 mod 16 = 0 then Some [of_nat (v0 * 4 + v1 div 16)] else None)"
    unfolding base64_loop.simps(1) simp_thms(6) quad_loop_padded(1) [OF assms] using quad_bytes_padded(1) [OF small small(2)] by simp
  show "base64_loop [x, y, z, 0x3D] [] =
       (if v2 mod 4 = 0 then Some [of_nat (v0 * 4 + v1 div 16), of_nat (v1 mod 16 * 16 + v2 div 4)] else None)" if z: "base64_value z = Some v2"
    unfolding base64_loop.simps(1) simp_thms(6) quad_loop_padded(2) [OF assms z] using quad_bytes_padded(2) [OF small base64_value_less [OF z]] by simp
  show "base64_loop (x # y # z # w # rest) [] =
       map_option (\<lambda>r. [of_nat (v0 * 4 + v1 div 16), of_nat (v1 mod 16 * 16 + v2 div 4), of_nat (v2 mod 4 * 64 + v3)] @ r) (base64_loop rest [])"
    if zw: "base64_value z = Some v2" "base64_value w = Some v3"
    unfolding base64_loop.simps(1) quad_loop_plain [OF assms zw] option.case prod.case
      quad_bytes_plain [OF small base64_value_less [OF zw(1)] base64_value_less [OF zw(2)]] append_Nil
    by (rule base64_loop_out)
qed

lemma byte_join: "n = unat b \<Longrightarrow> of_nat n = (b :: byte)"
  by simp

lemma first_byte: "of_nat (unat a div 4 * 4 + (unat a mod 4 * 16 + k) div 16) = a" if "k < 16" for a :: byte
  using that by (intro byte_join) simp

lemma second_byte: "of_nat ((m * 16 + unat b div 16) mod 16 * 16 + (unat b mod 16 * 4 + k) div 4) = b" if "k < 4" for b :: byte
  using that byte_bound [of b] by (intro byte_join) (simp add: mod_mult_self3)

lemma third_byte: "of_nat ((m * 4 + unat c div 64) mod 4 * 64 + unat c mod 64) = c" for c :: byte
  using byte_bound [of c] by (intro byte_join) (simp add: mod_mult_self3)

lemma decode_encode_loop: "base64_loop (response_profile_header bs) [] = Some bs"
proof (induction bs rule: response_profile_header.induct)
  case 1
  show ?case by simp
next
  case (2 a)
  show ?case
    unfolding response_profile_header.simps base64_loop_group(1) [OF alphabet_values(1,5)] using first_byte [of 0 a] by simp
next
  case (3 a b)
  have "unat b div 16 < 16" using byte_bound [of b] by linarith
  from first_byte [OF this, of a] second_byte [of 0 "unat a mod 4" b] show ?case
    unfolding response_profile_header.simps base64_loop_group(2) [OF alphabet_values(1,2,6)] by simp
next
  case (4 a b c rest)
  have "unat b div 16 < 16" "unat c div 64 < 4" using byte_bound [of b] byte_bound [of c] by linarith+
  from first_byte [OF this(1), of a] second_byte [OF this(2), of "unat a mod 4" b] third_byte [of "unat b mod 16" c] 4 show ?case
    unfolding response_profile_header.simps append_Cons append_Nil base64_loop_group(3) [OF alphabet_values(1,2,3,4)] by simp
qed

text \<open>The other direction: an accepted text is the encoding of its bytes.\<close>

lemma quad_loop_cases:
  assumes "quad_loop final 0 0 [] [a, b, c, d] = Some (q, p)"
  obtains (plain) v0 v1 v2 v3 where "p = 0" "q = [v0, v1, v2, v3]" "base64_value a = Some v0" "base64_value b = Some v1"
      "base64_value c = Some v2" "base64_value d = Some v3"
  | (one) v0 v1 v2 where "p = 1" "final" "d = 0x3D" "base64_value a = Some v0" "base64_value b = Some v1" "base64_value c = Some v2"
  | (two) v0 v1 where "p = 2" "final" "c = 0x3D" "d = 0x3D" "base64_value a = Some v0" "base64_value b = Some v1"
  using assms by (auto split: if_splits option.splits)

lemma encode_values:
  assumes "v0 < 64" "v1 < 64" "v2 < 64" "v3 < (64 :: nat)"
  defines "x \<equiv> of_nat (v0 * 4 + v1 div 16) :: byte" and "y \<equiv> of_nat (v1 mod 16 * 16 + v2 div 4) :: byte" and "z \<equiv> of_nat (v2 mod 4 * 64 + v3) :: byte"
  shows "unat (drop_bit 2 x) = v0" "unat (push_bit 4 (x AND 3) OR drop_bit 4 y) = v1" "unat (push_bit 2 (y AND 15) OR drop_bit 6 z) = v2"
    "unat (z AND 63) = v3" "v1 mod 16 = 0 \<Longrightarrow> unat (push_bit 4 (x AND 3)) = v1" "v2 mod 4 = 0 \<Longrightarrow> unat (push_bit 2 (y AND 15)) = v2"
proof -
  have m: "v1 div 16 < 4" "v1 mod 16 < 16" "v2 div 4 < 16" "v2 mod 4 < 4" using assms by (simp_all add: div_less_iff_less_mult)
  with assms(1,4) have "v0 * 4 + v1 div 16 < 256" "v1 mod 16 * 16 + v2 div 4 < 256" "v2 mod 4 * 64 + v3 < 256" by linarith+
  then have u: "unat x = v0 * 4 + v1 div 16" "unat y = v1 mod 16 * 16 + v2 div 4" "unat z = v2 mod 4 * 64 + v3"
    unfolding x_def y_def z_def by (simp_all add: unat_of_nat del: of_nat_add of_nat_mult)
  show "unat (drop_bit 2 x) = v0" "unat (push_bit 4 (x AND 3) OR drop_bit 4 y) = v1" "unat (push_bit 2 (y AND 15) OR drop_bit 6 z) = v2"
    "unat (z AND 63) = v3" "v1 mod 16 = 0 \<Longrightarrow> unat (push_bit 4 (x AND 3)) = v1" "v2 mod 4 = 0 \<Longrightarrow> unat (push_bit 2 (y AND 15)) = v2"
    unfolding unat_shifts sixbit_values u using m assms(4) by (simp_all add: mod_eq_0_iff_dvd)
qed

lemma encode_decode_loop:
  assumes "length t mod 4 = 0" "base64_loop t [] = Some bs"
  shows "response_profile_header bs = t"
  using assms
proof (induction t arbitrary: bs rule: length_induct)
  case (1 t)
  show ?case
  proof (cases t)
    case Nil
    with "1.prems" show ?thesis by simp
  next
    case (Cons a t1)
    with "1.prems"(1) obtain b c d rest where t: "t = a # b # c # d # rest"
      by (cases t1; cases "tl t1"; cases "tl (tl t1)") auto
    then have n: "length t = length rest + 4" by simp
    with "1.prems"(1) have rest: "length rest mod 4 = 0" "length rest < length t" by simp_all
    from "1.prems"(2) t obtain q p where qp: "quad_loop (rest = []) 0 0 [] [a, b, c, d] = Some (q, p)"
      by (auto simp del: quad_loop.simps split: option.splits)
    show ?thesis using qp
    proof (cases rule: quad_loop_cases)
      case (plain v0 v1 v2 v3)
      then obtain r where r: "base64_loop rest [] = Some r" and
        bs: "bs = [of_nat (v0 * 4 + v1 div 16), of_nat (v1 mod 16 * 16 + v2 div 4), of_nat (v2 mod 4 * 64 + v3)] @ r"
        using "1.prems"(2) unfolding t base64_loop_group(3) [OF plain(3-6)] by auto
      have IH: "response_profile_header r = rest" using "1.IH" [THEN spec, of rest] rest r by simp
      note lt = base64_value_less [OF plain(3)] base64_value_less [OF plain(4)] base64_value_less [OF plain(5)] base64_value_less [OF plain(6)]
      show ?thesis unfolding bs append_Cons append_Nil response_profile_header.simps encode_values [OF lt] IH t
        using plain(3-6) [THEN alphabet_base64_value] by simp
    next
      case (one v0 v1 v2)
      note lt = base64_value_less [OF one(4)] base64_value_less [OF one(5)] base64_value_less [OF one(6)]
      from "1.prems"(2) one have bs: "v2 mod 4 = 0" "bs = [of_nat (v0 * 4 + v1 div 16), of_nat (v1 mod 16 * 16 + v2 div 4)]"
        unfolding t using base64_loop_group(2) [OF one(4,5,6)] by (auto split: if_splits)
      show ?thesis unfolding bs(2) response_profile_header.simps encode_values(1,2) [OF lt lt(1)] encode_values(6) [OF lt lt(1) bs(1)] t
        using one(2,3) one(4-6) [THEN alphabet_base64_value] by simp
    next
      case (two v0 v1)
      note lt = base64_value_less [OF two(5)] base64_value_less [OF two(6)]
      from "1.prems"(2) two have bs: "v1 mod 16 = 0" "bs = [of_nat (v0 * 4 + v1 div 16)]"
        unfolding t using base64_loop_group(1) [OF two(5,6)] by (auto split: if_splits)
      show ?thesis unfolding bs(2) response_profile_header.simps encode_values(1) [OF lt lt] encode_values(5) [OF lt lt bs(1)] t
        using two(2-4) two(5,6) [THEN alphabet_base64_value] by simp
    qed
  qed
qed

lemma length_encode: "length (response_profile_header bs) mod 4 = 0"
  by (induction bs rule: response_profile_header.induct) (simp_all add: mod_Suc)

text \<open>
  C28. Base64 is one text per byte sequence: the decoder accepts exactly the texts the encoder writes
  for one or more bytes and returns those bytes, so a key or a signature has no second spelling
  (no missing or early padding, no set bits under it, no other character).
\<close>

theorem base64_exact: "decode_base64 t = Some bs \<longleftrightarrow> bs \<noteq> [] \<and> t = response_profile_header bs"
proof
  assume "decode_base64 t = Some bs"
  then have t: "t \<noteq> []" "length t mod 4 = 0" "base64_loop t [] = Some bs" by (auto simp: decode_base64_def split: if_splits)
  from encode_decode_loop [OF t(2,3)] t(1) show "bs \<noteq> [] \<and> t = response_profile_header bs" by auto
next
  assume bs: "bs \<noteq> [] \<and> t = response_profile_header bs"
  then have "t \<noteq> []" by (cases bs rule: response_profile_header.cases) auto
  with bs show "decode_base64 t = Some bs" using length_encode [of bs] by (simp add: decode_base64_def decode_encode_loop)
qed

section \<open>The pinned keys\<close>

text \<open>
  What a key file says, without reference to the loop that reads it: lines that are blank or begin
  with a hash sign say nothing, every other line spells a point with its first word.
\<close>

definition silent_line :: "bytes \<Rightarrow> bool" where
  "silent_line line \<longleftrightarrow> trimmed line = [] \<or> hd (trimmed line) = 0x23"

definition spelled_point :: "bytes \<Rightarrow> bytes option" where
  "spelled_point line = decode_base64 (takeWhile (\<lambda>c. c \<noteq> 0x20 \<and> c \<noteq> 0x09) (trimmed line))"

definition spelled :: "verifier \<Rightarrow> bytes list \<Rightarrow> bytes list \<Rightarrow> bool" where
  "spelled verify_raw ls points \<longleftrightarrow>
     map spelled_point (filter (\<lambda>line. \<not> silent_line line) ls) = map Some points \<and>
     list_all (\<lambda>point. length point = 65 \<and> usable_point verify_raw point) points"

text \<open>
  A complete reading: the file may be trusted, every line that says something is a usable point,
  and the keys are all those points, under each identifier the first one.
\<close>

definition complete_reading :: "verifier \<Rightarrow> key_file \<Rightarrow> (bytes \<times> bytes) list \<Rightarrow> bool" where
  "complete_reading verify_raw file ks \<longleftrightarrow> kf_untrusted file = [] \<and>
     (\<exists>ls points. kf_lines file = Some ls \<and> spelled verify_raw ls points \<and> distinct (map fst ks) \<and>
        map_of ks = map_of (map (\<lambda>point. (signing_key_id point, point)) points))"

lemma key_line_cases:
  "key_line verify_raw where_at line =
     (if silent_line line then Inr None
      else case spelled_point line of
             None \<Rightarrow> Inl (Error invalid_input (where_at @ '': not a base64 65-byte P-256 point''))
           | Some point \<Rightarrow>
               if length point \<noteq> 65 then Inl (Error invalid_input (where_at @ '': not a base64 65-byte P-256 point''))
               else if \<not> usable_point verify_raw point then Inl (Error invalid_input (where_at @ '': not a valid P-256 public key''))
               else Inr (Some point))"
  by (simp add: key_line_def silent_line_def spelled_point_def Let_def)

lemma spelled_Cons:
  "spelled verify_raw (line # ls) points \<longleftrightarrow>
     (if silent_line line then spelled verify_raw ls points
      else \<exists>point rest. points = point # rest \<and> spelled_point line = Some point \<and> length point = 65 \<and>
             usable_point verify_raw point \<and> spelled verify_raw ls rest)"
  by (cases points) (auto simp: spelled_def)

lemma read_lines_spelled:
  "read_lines verify_raw path number ls ks = Inr ks' \<longleftrightarrow>
     (\<exists>points. spelled verify_raw ls points \<and> ks' = fold add_key points ks)"
proof (induction ls arbitrary: number ks)
  case Nil
  then show ?case by (auto simp: spelled_def)
next
  case (Cons line ls)
  show ?case
  proof (cases "silent_line line")
    case True
    then show ?thesis by (simp add: Cons.IH spelled_Cons key_line_cases)
  next
    case False
    then show ?thesis
      by (cases "spelled_point line") (auto simp: Cons.IH spelled_Cons key_line_cases)
  qed
qed

lemma map_of_add_key:
  "map_of (add_key point ks) = map_of [(signing_key_id point, point)] ++ map_of ks"
  by (auto simp: add_key_def map_add_def fun_eq_iff split: option.splits)

lemma map_of_add_keys:
  "map_of (fold add_key points ks) = map_of (map (\<lambda>point. (signing_key_id point, point)) points) ++ map_of ks"
proof (induction points arbitrary: ks)
  case (Cons point points)
  show ?case by (auto simp: Cons.IH map_of_add_key map_add_def fun_eq_iff split: option.splits)
qed simp

lemma distinct_add_keys: "distinct (map fst ks) \<Longrightarrow> distinct (map fst (fold add_key points ks))"
  by (induction points arbitrary: ks) (simp_all add: add_key_def map_of_eq_None_iff)

lemma read_file_complete:
  "read_file verify_raw label file = Inr ks \<Longrightarrow> complete_reading verify_raw file ks"
  using distinct_add_keys [of "[]"] map_of_add_keys [of _ "[]"]
  by (auto simp: read_file_def complete_reading_def read_lines_spelled split: if_splits option.splits)

lemma read_file_incomplete:
  "read_file verify_raw label file = Inl e \<Longrightarrow> \<not> complete_reading verify_raw file ks"
proof
  assume read: "read_file verify_raw label file = Inl e" and "complete_reading verify_raw file ks"
  then obtain ls points where ls: "kf_untrusted file = []" "kf_lines file = Some ls" "spelled verify_raw ls points"
    by (auto simp: complete_reading_def)
  from ls(3) have "read_lines verify_raw (kf_path file) 0 ls [] = Inr (fold add_key points [])"
    unfolding read_lines_spelled by blast
  with read ls show False by (simp add: read_file_def)
qed

lemma complete_reading_usable:
  assumes "complete_reading verify_raw file ks"
  shows "list_all (\<lambda>(i, point). i = signing_key_id point \<and> usable_point verify_raw point) ks"
proof -
  from assms obtain ls points where r: "spelled verify_raw ls points" "distinct (map fst ks)"
    "map_of ks = map_of (map (\<lambda>point. (signing_key_id point, point)) points)" by (auto simp: complete_reading_def)
  have "i = signing_key_id point \<and> point \<in> set points" if "(i, point) \<in> set ks" for i point
    using map_of_is_SomeI [OF r(2) that] map_of_SomeD [of "map (\<lambda>point. (signing_key_id point, point)) points" i point]
    unfolding r(3) by auto
  with r(1) show ?thesis by (auto simp: list_all_iff spelled_def)
qed

text \<open>The refreshes of a keyring, each with what \<open>stat\<close> says, the time and the file as it is then.\<close>

definition keyring_refreshes ::
  "verifier \<Rightarrow> ((file_identity \<times> int \<times> int) option \<times> int \<times> key_file) list \<Rightarrow> command_keyring \<Rightarrow> command_keyring" where
  "keyring_refreshes verify_raw past ring =
     fold (\<lambda>(info, now, file). keyring_refresh verify_raw info now file) past ring"

lemma keyring_refresh_cases:
  assumes "kr_has_path ring" "ring' = keyring_refresh verify_raw info now file ring"
  obtains (unchanged) mtime ctime where "ring' = ring" "info = Some (kr_file ring, mtime, ctime)" "mtime < now - 1" "ctime < now - 1"
  | (kept) "kr_keys ring' = kr_keys ring" "kr_last_error ring' \<noteq> []" "info = None \<or> (\<forall>ks. \<not> complete_reading verify_raw file ks)"
  | (replaced) "complete_reading verify_raw file (kr_keys ring')" "kr_last_error ring' = []"
proof (cases info)
  case None
  then show thesis using kept assms by (simp add: keyring_refresh_def)
next
  case (Some i)
  obtain ident mtime ctime where i: "i = (ident, mtime, ctime)" by (cases i)
  show thesis
  proof (cases "mtime < now - 1 \<and> ctime < now - 1 \<and> ident = kr_file ring")
    case True
    with Some i assms show thesis by (intro unchanged) (auto simp: keyring_refresh_def)
  next
    case False
    then have read: "ring' = (case read_file verify_raw (kr_label ring) file of
        Inl e \<Rightarrow> ring\<lparr>kr_file := ident, kr_last_error := message e @ ''; the previous keys stay in force''\<rparr>
      | Inr ks \<Rightarrow> ring\<lparr>kr_file := ident, kr_keys := ks, kr_last_error := []\<rparr>)"
      using Some i assms by (auto simp: keyring_refresh_def)
    show thesis
    proof (cases "read_file verify_raw (kr_label ring) file")
      case (Inl e)
      with read read_file_incomplete show thesis by (intro kept) auto
    next
      case (Inr ks)
      with read read_file_complete show thesis by (intro replaced) auto
    qed
  qed
qed

lemma keyring_refresh_path [simp]: "kr_has_path (keyring_refresh verify_raw info now file ring) = kr_has_path ring"
  by (simp add: keyring_refresh_def Let_def split: option.split prod.split sum.split)

lemma keyring_refreshes_reading:
  assumes "complete_reading verify_raw old (kr_keys ring)" "kr_has_path ring"
  shows "kr_has_path (keyring_refreshes verify_raw past ring) \<and>
    (\<exists>f\<in>set (old # map (snd \<circ> snd) past). complete_reading verify_raw f (kr_keys (keyring_refreshes verify_raw past ring)))"
  using assms
proof (induction past arbitrary: old ring)
  case Nil
  then show ?case by (simp add: keyring_refreshes_def)
next
  case (Cons p past)
  obtain info now new where p: "p = (info, now, new)" by (cases p)
  let ?ring = "keyring_refresh verify_raw info now new ring"
  have "\<exists>f\<in>{old, new}. complete_reading verify_raw f (kr_keys ?ring)"
    using Cons.prems(1) by - (rule keyring_refresh_cases [OF Cons.prems(2) refl, of verify_raw info now new]; auto)
  then obtain f where f: "f \<in> {old, new}" "complete_reading verify_raw f (kr_keys ?ring)" by blast
  have step: "keyring_refreshes verify_raw (p # past) ring = keyring_refreshes verify_raw past ?ring"
    by (simp add: keyring_refreshes_def p)
  from Cons.IH [OF f(2)] Cons.prems(2) f(1) show ?case unfolding step by (auto simp: p)
qed

text \<open>
  C29. The pinned keys are always those of one complete reading of a trusted file. After the
  keyring was loaded and refreshed any number of times, whatever happened to the file in between,
  there is one of the files seen (at the load or at one of the refreshes) that could be trusted,
  in which every line was empty, a comment or a usable point of 65 bytes, and the keys in force are
  exactly the points of all its lines, under each identifier the first one. The next refresh
  leaves the keyring as it is, and then the file on disk is the one last looked at and older than
  a second; or it keeps the keys and says so in the error text, and then the file was not there or
  has no complete reading; or it takes exactly the keys of the complete reading of the file it found.
\<close>

theorem keyring_refresh_trusted:
  assumes "keyring_load verify_raw label file info0 = Inr ring0"
  shows "let ring = keyring_refreshes verify_raw past ring0; ring' = keyring_refresh verify_raw info now new ring in
    (\<exists>f. f \<in> set (file # map (snd \<circ> snd) past) \<and> complete_reading verify_raw f (kr_keys ring)) \<and>
    ((ring' = ring \<and> (\<exists>mtime ctime. info = Some (kr_file ring, mtime, ctime) \<and> mtime < now - 1 \<and> ctime < now - 1)) \<or>
     (kr_keys ring' = kr_keys ring \<and> 0 < length (kr_last_error ring') \<and>
        (info = None \<or> (\<nexists>ks. complete_reading verify_raw new ks))) \<or>
     (complete_reading verify_raw new (kr_keys ring') \<and> kr_last_error ring' = []))"
proof -
  have "complete_reading verify_raw file (kr_keys ring0)" "kr_has_path ring0"
    using assms(1) read_file_complete by (auto simp: keyring_load_def split: sum.splits)
  note reading = keyring_refreshes_reading [OF this, of past]
  then have "kr_has_path (keyring_refreshes verify_raw past ring0)" by blast
  from keyring_refresh_cases [OF this refl, of verify_raw info now new] reading show ?thesis
    unfolding Let_def by (cases; auto)
qed

text \<open>
  A key file with a comment and a key; then the file cannot be read, and the key stays.
\<close>

definition sample_key_line :: bytes where
  "sample_key_line = replicate 87 0x41 @ [0x3D, 0x20, 0x6B]"

definition sample_key_file :: "bytes list \<Rightarrow> string \<Rightarrow> key_file" where
  "sample_key_file ls untrusted = \<lparr>kf_path = ''keys'', kf_untrusted = untrusted, kf_lines = Some ls\<rparr>"

lemma sample_key_text:
  "trimmed sample_key_line = sample_key_line" "\<not> silent_line sample_key_line" "silent_line (ascii ''# keys'')"
  by (simp_all add: sample_key_line_def trimmed_def key_blank_def silent_line_def dropWhile_eq_self_iff ascii_def)

lemma sample_key_spelled:
  "spelled (\<lambda>_ _ _. Inr True) [ascii ''# keys'', sample_key_line] [replicate 65 0]"
proof -
  have "base64_alphabet ! 0 = 0x41" by code_simp
  then have "response_profile_header (replicate 65 0) = replicate 87 0x41 @ [0x3D]" by (simp add: eval_nat_numeral)
  also have "\<dots> = takeWhile (\<lambda>c. c \<noteq> 0x20 \<and> c \<noteq> 0x09) sample_key_line"
    by (simp add: sample_key_line_def takeWhile_append)
  finally have "spelled_point sample_key_line = decode_base64 (response_profile_header (replicate 65 0))"
    by (simp add: spelled_point_def sample_key_text)
  moreover have "response_profile_header (replicate 65 0) \<noteq> []" by (simp add: eval_nat_numeral)
  ultimately have "spelled_point sample_key_line = Some (replicate 65 0)"
    by (simp add: decode_base64_def length_encode decode_encode_loop)
  then show ?thesis by (simp add: spelled_def usable_point_def sample_key_text)
qed

theorem keyring_refresh_trusted_witness:
  "\<exists>ring0 ks. keyring_load (\<lambda>_ _ _. Inr True) ''key file'' (sample_key_file [ascii ''# keys'', sample_key_line] []) None = Inr ring0 \<and>
     complete_reading (\<lambda>_ _ _. Inr True) (sample_key_file [ascii ''# keys'', sample_key_line] []) ks \<and>
     kr_keys (keyring_refreshes (\<lambda>_ _ _. Inr True) [(None, 5, sample_key_file [] [])] ring0) = ks \<and> ks \<noteq> []"
proof -
  let ?v = "\<lambda>_ _ _. Inr True :: bool result"
  let ?f = "sample_key_file [ascii ''# keys'', sample_key_line] []"
  have "read_lines ?v ''keys'' 0 [ascii ''# keys'', sample_key_line] [] = Inr (fold add_key [replicate 65 0] [])"
    unfolding read_lines_spelled using sample_key_spelled by blast
  then obtain ring0 where load: "keyring_load ?v ''key file'' ?f None = Inr ring0" and keys: "kr_keys ring0 \<noteq> []"
    by (simp add: keyring_load_def read_file_def sample_key_file_def add_key_def)
  let ?ring = "keyring_refreshes ?v [(None, 5, sample_key_file [] [])] ring0"
  have kept: "kr_keys ?ring = kr_keys ring0" by (simp add: keyring_refreshes_def keyring_refresh_def)
  from keyring_refresh_trusted [OF load, of "[]" None 0 "sample_key_file [] []"]
  have "complete_reading ?v ?f (kr_keys ring0)" by (simp add: keyring_refreshes_def Let_def)
  with load keys kept show ?thesis by blast
qed

section \<open>A sample command\<close>

definition sample_command :: endpoint_command where
  "sample_command = \<lparr>ec_command_id = ascii ''c1'', ec_agent_id = ascii ''a'', ec_host_id = ascii ''h'', ec_correlation_id = ascii ''k'',
     ec_action = Kill_process, ec_created_unix = 100, ec_expires_unix = 200, ec_pid = 7, ec_start_ticks = 9, ec_path = [], ec_boot_id = [],
     ec_authorization = Some \<lparr>au_algorithm = ascii ''ES256'', au_key_id = [1], au_signature = [2]\<rparr>\<rparr>"

definition sample_ring :: command_keyring where
  "sample_ring = \<lparr>kr_has_path = False, kr_label = [], kr_keys = [([1], [4])], kr_file = no_file, kr_last_error = []\<rparr>"

theorem command_authorised_witness:
  "\<exists>au point. ec_authorization sample_command = Some au \<and> map_of (kr_keys sample_ring) (au_key_id au) = Some point \<and>
     0 < ec_created_unix sample_command"
proof -
  have "keyring_check (\<lambda>point data signature. Inr (signature = [2])) sample_ring sample_command = Valid"
    by (simp add: keyring_check_def sample_command_def sample_ring_def)
  from command_authorised [OF this] show ?thesis by blast
qed

end
