(* ===== verification/Ledger_Properties.thy ===== *)
theory Ledger_Properties
  imports Command_Ledger Auth_Properties
begin

text \<open>
  The command ledger as a durable set of command ids: which lines its file has after every
  operation, that the file always reads back to the entries in memory, and that a recorded command
  stays recorded across crashes until it has expired.
\<close>

section \<open>Lines\<close>

definition plain :: "bytes \<Rightarrow> bool" where
  "plain str \<longleftrightarrow> 0x09 \<notin> set str \<and> 0x0A \<notin> set str"

lemma plain_simps [simp]: "plain []" "plain (a @ b) \<longleftrightarrow> plain a \<and> plain b" "plain (c # cs) \<longleftrightarrow> c \<noteq> 0x09 \<and> c \<noteq> 0x0A \<and> plain cs"
  by (auto simp: plain_def)

lemma getlines_no_newline: "0x0A \<notin> set xs \<Longrightarrow> getlines line xs = (if line @ xs = [] then [] else [line @ xs])"
  by (induction xs arbitrary: line) auto

lemma getlines_step: "0x0A \<notin> set xs \<Longrightarrow> getlines line (xs @ 0x0A # ys) = (line @ xs) # getlines [] ys"
  by (induction xs arbitrary: line) auto

lemma getlines_whole: "getlines line (whole @ ys) = (if whole = [] then getlines line ys else getlines line whole @ getlines [] ys)"
  if "whole \<noteq> [] \<Longrightarrow> last whole = 0x0A"
  using that
proof (induction whole arbitrary: line)
  case (Cons c cs)
  show ?case
  proof (cases cs)
    case Nil
    with Cons.prems show ?thesis by simp
  next
    case (Cons d ds)
    with Cons.IH Cons.prems show ?thesis by (auto split: if_splits)
  qed
qed simp

lemma getlines_plain: "list_all (\<lambda>l. 0x0A \<notin> set l) (getlines line xs)" if "0x0A \<notin> set line"
  using that by (induction xs arbitrary: line) auto

definition lines_of :: "bytes \<Rightarrow> bytes list" where
  "lines_of contents = getlines [] (whole_lines contents)"

lemma whole_lines_cases: "whole_lines xs = [] \<or> last (whole_lines xs) = 0x0A"
proof -
  have "dropWhile P ys = [] \<or> \<not> P (hd (dropWhile P ys))" for P and ys :: bytes by (meson hd_dropWhile)
  from this [of "\<lambda>c. c \<noteq> 0x0A" "rev xs"] show ?thesis unfolding whole_lines_def
    by (cases "dropWhile (\<lambda>c. c \<noteq> 0x0A) (rev xs)") (auto simp: last_rev)
qed

lemma whole_lines_idem: "whole_lines (whole_lines xs) = whole_lines xs"
  by (simp add: whole_lines_def)

lemma whole_lines_tail: "0x0A \<notin> set t \<Longrightarrow> whole_lines (xs @ t) = whole_lines xs"
  unfolding whole_lines_def rev_append by (subst dropWhile_append2) auto

lemma whole_lines_end: "whole_lines (xs @ [0x0A]) = xs @ [0x0A]"
  by (simp add: whole_lines_def)

lemma lines_of_tail: "0x0A \<notin> set t \<Longrightarrow> lines_of (xs @ t) = lines_of xs"
  by (simp add: lines_of_def whole_lines_tail)

text \<open>A file that ends with a line end, and one more line.\<close>

lemma lines_of_append:
  assumes "whole_lines xs = xs" "0x0A \<notin> set l"
  shows "lines_of (xs @ l @ [0x0A]) = lines_of xs @ [l]"
proof -
  have "xs \<noteq> [] \<Longrightarrow> last xs = 0x0A" using whole_lines_cases [of xs] assms(1) by auto
  then have "getlines [] (xs @ l @ [0x0A]) = getlines [] xs @ getlines [] (l @ [0x0A])" using getlines_whole [of xs "[]" "l @ [0x0A]"] by auto
  moreover have "getlines [] (l @ [0x0A]) = [l]" using getlines_step [OF assms(2), of "[]" "[]"] by simp
  moreover have "whole_lines (xs @ l @ [0x0A]) = xs @ l @ [0x0A]" using whole_lines_end [of "xs @ l"] by simp
  ultimately show ?thesis using assms(1) by (simp add: lines_of_def)
qed

lemma lines_of_newline_free: "list_all (\<lambda>l. 0x0A \<notin> set l) (lines_of xs)"
  unfolding lines_of_def by (rule getlines_plain) simp

section \<open>Fields\<close>

lemma split_tabs_nonempty [simp]: "split_tabs xs \<noteq> []"
  by (cases xs) auto

lemma split_tabs_no_tab: "0x09 \<notin> set p \<Longrightarrow> split_tabs p = [p]"
  by (induction p) auto

lemma split_tabs_step: "0x09 \<notin> set p \<Longrightarrow> split_tabs (p @ 0x09 # ys) = p # split_tabs ys"
  by (induction p) auto

lemma split_tabs_parts: "list_all (\<lambda>p. 0x09 \<notin> set p \<and> set p \<subseteq> set xs) (split_tabs xs)"
proof (induction xs)
  case (Cons c cs)
  obtain p ps where s: "split_tabs cs = p # ps" by (cases "split_tabs cs") auto
  with Cons show ?case by (auto simp: list_all_iff)
qed simp

lemma tabbed_lines:
  assumes "parts \<noteq> []" "list_all plain parts"
  obtains l where "tabbed parts = l @ [0x0A]" "0x0A \<notin> set l" "split_tabs l = parts"
proof -
  define l where "l = concat (map (\<lambda>p. p @ [0x09]) (butlast parts)) @ last parts"
  have "tabbed parts = l @ [0x0A]" by (simp add: tabbed_def l_def)
  moreover have "0x0A \<notin> set l" using assms by (auto simp: l_def list_all_iff plain_def dest: in_set_butlastD)
  moreover have "split_tabs (concat (map (\<lambda>p. p @ [0x09]) ps) @ q) = ps @ [q]" if "list_all plain (ps @ [q])" for ps q
    using that by (induction ps) (auto simp: split_tabs_no_tab split_tabs_step plain_def)
  from this [of "butlast parts" "last parts"] have "split_tabs l = parts" using assms by (simp add: l_def)
  ultimately show thesis by (rule that)
qed

section \<open>Numbers\<close>

lemma length_to_string: "0 < k \<Longrightarrow> n < 10 ^ k \<Longrightarrow> length (to_string n) \<le> k"
proof (induction n arbitrary: k rule: to_string.induct)
  case (1 n)
  show ?case
  proof (cases "n < 10")
    case True
    with "1.prems" show ?thesis by (subst to_string.simps) simp
  next
    case False
    with "1.prems" obtain j where j: "k = Suc j" "0 < j" by (cases k; cases "k - 1") auto
    with "1.prems" have "n div 10 < 10 ^ j" by (simp add: div_less_iff_less_mult mult.commute)
    with "1.IH" [of j] False j show ?thesis by (subst to_string.simps) simp
  qed
qed

lemma unat_byte_of_char: "unat (of_nat (of_char c) :: byte) = of_char c"
  by (simp add: unat_of_nat of_char_mod_256)

lemma ascii_digits: "list_all is_digit ds \<Longrightarrow> list_all (\<lambda>c :: byte. 0x30 \<le> c \<and> c \<le> 0x39) (ascii ds)"
  by (auto simp: ascii_def list_all_iff is_digit_def word_le_nat_alt unat_byte_of_char)

lemma ascii_digits_value: "list_all is_digit ds \<Longrightarrow>
  fold (\<lambda>c v. v * 10 + (int (unat c) - 48)) (ascii ds) (int acc0) = int (fold (\<lambda>c v. v * 10 + (of_char c - 48)) ds acc0)"
proof (induction ds arbitrary: acc0)
  case (Cons d ds)
  then have "48 \<le> (of_char d :: nat)" by (simp add: is_digit_def)
  then have step: "int acc0 * 10 + (int (unat (of_nat (of_char d) :: byte)) - 48) = int (acc0 * 10 + (of_char d - 48))"
    unfolding unat_byte_of_char by (simp only: of_nat_diff of_nat_add of_nat_mult of_nat_numeral)
  from Cons have "list_all is_digit ds" by simp
  from Cons.IH [OF this, of "acc0 * 10 + (of_char d - 48)", unfolded ascii_def] show ?case
    unfolding ascii_def list.map fold_Cons o_apply step .
qed (simp add: ascii_def)

lemma parse_number_text:
  assumes "0 \<le> e" "e < 10 ^ 19"
  shows "parse_signed_text (number_text e) = Some e"
proof -
  define ds where "ds = to_string (nat e)"
  have shown: "number_text e = ascii ds" using assms by (simp add: number_text_def signed_text_def ds_def)
  have digits: "list_all is_digit ds" using to_string_digits by (simp add: ds_def list_all_iff)
  have "nat e < 10 ^ 19" using assms by simp
  then have "length ds \<le> 19" unfolding ds_def by (intro length_to_string) simp_all
  moreover have "ds \<noteq> []" by (simp add: ds_def to_string_nonempty)
  moreover have "fold (\<lambda>c v. v * 10 + (int (unat c) - 48)) (ascii ds) 0 = e"
    using ascii_digits_value [OF digits, of 0] digits_value_to_string [of "nat e"] assms by (simp add: ds_def digits_value_def)
  ultimately show ?thesis using ascii_digits [OF digits] unfolding parse_signed_text_def shown by (simp add: ascii_def)
qed

lemma parse_signed_bounds:
  assumes "parse_signed_text str = Some e"
  shows "0 \<le> e" "e < 10 ^ 19"
proof -
  from assms have str: "length str \<le> 19" "list_all (\<lambda>c. 0x30 \<le> c \<and> c \<le> 0x39) str"
    and e: "e = fold (\<lambda>c v. v * 10 + (int (unat c) - 48)) str 0"
    by (auto simp: parse_signed_text_def split: if_splits)
  have "0 \<le> v \<Longrightarrow> v < 10 ^ k \<Longrightarrow> 0 \<le> fold (\<lambda>c v. v * 10 + (int (unat c) - 48)) str v \<and>
    fold (\<lambda>c v. v * 10 + (int (unat c) - 48)) str v < 10 ^ (k + length str)" for v k
    using str(2)
  proof (induction str arbitrary: v k)
    case (Cons c cs)
    then have "48 \<le> unat c" "unat c \<le> 57" by (simp_all add: word_le_nat_alt)
    then have "0 \<le> int (unat c) - 48" "int (unat c) - 48 < 10" by linarith+
    with Cons.prems have "0 \<le> v * 10 + (int (unat c) - 48)" "v * 10 + (int (unat c) - 48) < 10 ^ (k + 1)" by simp_all
    from Cons.IH [OF this] Cons.prems show ?case by simp
  qed simp
  from this [of 0 0] e have "0 \<le> e" "e < 10 ^ length str" by simp_all
  moreover have "(10 :: int) ^ length str \<le> 10 ^ 19" using str(1) by (intro power_increasing) simp_all
  ultimately show "0 \<le> e" "e < 10 ^ 19" by linarith+
qed

section \<open>Records\<close>

text \<open>The file as a list of records, each a list of fields.\<close>

definition recs :: "bytes \<Rightarrow> bytes list list" where
  "recs contents = map split_tabs (lines_of contents)"

fun load_recs :: "bool \<Rightarrow> bytes list list \<Rightarrow> int \<Rightarrow> ledger_entries \<Rightarrow> (int \<times> ledger_entries) option" where
  "load_recs first_line [] epoch entries = Some (epoch, entries)"
| "load_recs first_line (parts # ps) epoch entries =
     (if first_line \<and> length parts = 2 \<and> parts ! 0 = ascii ''E'' then
        (case parse_signed_text (parts ! 1) of None \<Rightarrow> None | Some e \<Rightarrow> if e = 0 then None else load_recs False ps e entries)
      else case load_record parts entries of None \<Rightarrow> None | Some entries' \<Rightarrow> load_recs False ps epoch entries')"

lemma load_lines_recs: "load_lines f ls epoch entries = load_recs f (map split_tabs ls) epoch entries"
  by (induction ls arbitrary: f epoch entries) (auto simp: Let_def split: option.split)

lemma load_contents: "load_lines True (getlines [] (whole_lines contents)) 0 [] = load_recs True (recs contents) 0 []"
  by (simp add: load_lines_recs recs_def lines_of_def)

lemma load_recs_append:
  "load_recs f (ps @ qs) epoch entries =
     (case load_recs f ps epoch entries of None \<Rightarrow> None | Some (epoch', entries') \<Rightarrow> load_recs (f \<and> ps = []) qs epoch' entries')"
proof (induction ps arbitrary: f epoch entries)
  case (Cons p ps)
  have "load_recs (False \<and> ps = []) qs = load_recs False qs" by simp
  with Cons.IH [of False] show ?case by (auto split: option.split)
qed simp

lemma recs_tabbed:
  assumes "whole_lines xs = xs" "parts \<noteq> []" "list_all plain parts"
  shows "recs (xs @ tabbed parts) = recs xs @ [parts]" "whole_lines (xs @ tabbed parts) = xs @ tabbed parts"
proof -
  obtain l where l: "tabbed parts = l @ [0x0A]" "0x0A \<notin> set l" "split_tabs l = parts" using tabbed_lines [OF assms(2,3)] .
  show "recs (xs @ tabbed parts) = recs xs @ [parts]" using lines_of_append [OF assms(1) l(2)] l(1,3) by (simp add: recs_def)
  show "whole_lines (xs @ tabbed parts) = xs @ tabbed parts" using whole_lines_end [of "xs @ l"] l(1) by simp
qed

text \<open>What a prefix of an appended record does not show.\<close>

lemma recs_partial:
  assumes "whole_lines xs = xs" "parts \<noteq> []" "list_all plain parts" "n < length (tabbed parts)"
  shows "recs (xs @ take n (tabbed parts)) = recs xs"
proof -
  obtain l where l: "tabbed parts = l @ [0x0A]" "0x0A \<notin> set l" using tabbed_lines [OF assms(2,3)] .
  with assms(4) have "take n (tabbed parts) = take n l" by simp
  moreover have "0x0A \<notin> set (take n l)" using l(2) by (meson in_set_takeD)
  ultimately show ?thesis by (simp add: recs_def lines_of_tail)
qed

lemma recs_plain: "list_all (\<lambda>parts. list_all plain parts) (recs contents)"
proof -
  have "plain p" if "l \<in> set (lines_of contents)" "p \<in> set (split_tabs l)" for l p
    using that lines_of_newline_free [of contents] split_tabs_parts [of l] by (auto simp: list_all_iff plain_def)
  then show ?thesis by (auto simp: recs_def list_all_iff)
qed

section \<open>Entries\<close>

definition entry_ok :: "bytes \<Rightarrow> ledger_entry \<Rightarrow> bool" where
  "entry_ok i e \<longleftrightarrow> command_id_ok i \<and> command_id_ok (le_correlation_id e) \<and> 0 \<le> le_expires_unix e \<and> le_expires_unix e < 10 ^ 19 \<and>
     (if le_state e = Received then le_outcome e = [] \<and> le_reason e = [] \<and> le_detail e = []
      else outcome_ok (le_outcome e) \<and> reason_code_ok (le_reason e) \<and> plain (le_detail e))"

definition entries_ok :: "ledger_entries \<Rightarrow> bool" where
  "entries_ok es \<longleftrightarrow> distinct (map fst es) \<and> list_all (\<lambda>(i, e). entry_ok i e) es"

lemma alnum_plain: "alnum c \<Longrightarrow> c \<noteq> 0x09 \<and> c \<noteq> 0x0A"
  by (auto simp: alnum_def)

lemma plain_fields:
  "command_id_ok i \<Longrightarrow> plain i" "reason_code_ok r \<Longrightarrow> plain r" "outcome_ok out \<Longrightarrow> plain out" "plain (clean n d)" "0 \<le> e \<Longrightarrow> plain (number_text e)"
proof -
  show "command_id_ok i \<Longrightarrow> plain i"
    by (auto simp: command_id_ok_def is_valid_identifier_def plain_def list_all_iff dest: alnum_plain)
  show "reason_code_ok r \<Longrightarrow> plain r" by (auto simp: reason_code_ok_def plain_def list_all_iff)
  show "outcome_ok out \<Longrightarrow> plain out" by (auto simp: outcome_ok_def ascii_def)
  show "plain (clean n d)" by (auto simp: clean_def plain_def)
  show "plain (number_text e)" if "0 \<le> e"
  proof -
    have "list_all (\<lambda>c :: byte. 0x30 \<le> c \<and> c \<le> 0x39) (number_text e)"
      using ascii_digits [of "to_string (nat e)"] to_string_digits that by (simp add: number_text_def signed_text_def list_all_iff)
    then show ?thesis by (auto simp: plain_def list_all_iff)
  qed
qed

lemma map_of_update: "map_of (AList.update k v es) = (map_of es)(k \<mapsto> v)"
  by (rule update_conv')

lemma set_update_subset: "set (AList.update k v es) \<subseteq> insert (k, v) (set es)"
  by (induction es) auto

lemma entries_ok_update: "entries_ok es \<Longrightarrow> entry_ok i e \<Longrightarrow> entries_ok (AList.update i e es)"
  using set_update_subset [of i e es] by (auto simp: entries_ok_def list_all_iff distinct_update)

lemma entries_ok_find: "entries_ok es \<Longrightarrow> map_of es i = Some e \<Longrightarrow> entry_ok i e"
  by (auto simp: entries_ok_def list_all_iff dest: map_of_SomeD)

text \<open>Reading a record keeps the entries well-formed and looks at them only through the map.\<close>

lemma load_record_ok:
  assumes "load_record parts es = Some es'" "list_all plain parts" "entries_ok es"
  shows "entries_ok es'"
proof -
  have nth: "plain (parts ! 4)" if "length parts = 5" using assms(2) that by (simp add: list_all_length)
  have bounds: "0 \<le> e \<and> e < 10 ^ 19" if "parse_signed_text p = Some e" for p e using parse_signed_bounds [OF that] by blast
  from assms(1) obtain e where e: "es' = AList.update (parts ! 1) e es" "entry_ok (parts ! 1) e"
    using nth bounds entries_ok_find [OF assms(3), of "parts ! 1"]
    unfolding load_record_def Let_def by (auto simp: entry_ok_def new_entry_def split: if_splits option.splits)
  with assms(3) show ?thesis by (simp add: entries_ok_update)
qed

lemma load_record_map:
  assumes "map_of es = map_of fs"
  shows "map_option map_of (load_record parts es) = map_option map_of (load_record parts fs)"
  unfolding load_record_def Let_def assms by (simp add: map_of_update assms split: option.split)

lemma load_recs_map:
  assumes "map_of es = map_of fs"
  shows "map_option (\<lambda>(ep, es). (ep, map_of es)) (load_recs f ps ep es) = map_option (\<lambda>(ep, es). (ep, map_of es)) (load_recs f ps ep fs)"
  using assms
proof (induction ps arbitrary: f ep es fs)
  case (Cons p ps)
  from load_record_map [OF Cons.prems, of p] have "rel_option (\<lambda>a b. map_of a = map_of b) (load_record p es) (load_record p fs)"
    by (cases "load_record p es"; cases "load_record p fs") auto
  then consider "load_record p es = None" "load_record p fs = None"
    | a b where "load_record p es = Some a" "load_record p fs = Some b" "map_of a = map_of b"
    by (cases "load_record p es"; cases "load_record p fs") auto
  then show ?case
  proof cases
    case (2 a b)
    show ?thesis unfolding load_recs.simps 2 option.case
      using Cons.IH [OF 2(3), of False ep] Cons.IH [OF Cons.prems, of False] by (simp split: option.split)
  qed (use Cons.IH [OF Cons.prems, of False] in \<open>simp split: option.split\<close>)
qed simp

lemma load_recs_ok:
  assumes "load_recs f ps ep es = Some (ep', es')" "list_all (\<lambda>parts. list_all plain parts) ps" "entries_ok es"
  shows "entries_ok es'"
  using assms
proof (induction ps arbitrary: f ep es)
  case (Cons p ps)
  then show ?case by (auto split: if_splits option.splits dest: load_record_ok)
qed simp

section \<open>Writing and reading back\<close>

definition entry_recs :: "bytes \<times> ledger_entry \<Rightarrow> bytes list list" where
  "entry_recs kv =
     (case kv of (i, e) \<Rightarrow>
        [[ascii ''R'', i, le_correlation_id e, number_text (le_expires_unix e)]] @
        (if le_state e \<noteq> Received then [[ascii ''D'', i, le_outcome e, le_reason e] @ (if le_detail e = [] then [] else [le_detail e])] else []) @
        (if le_state e = Reported then [[ascii ''S'', i]] else []))"

lemma plain_tags [simp]: "plain (ascii ''R'')" "plain (ascii ''D'')" "plain (ascii ''S'')" "plain (ascii ''E'')"
  by (simp_all add: ascii_def)

lemma recs_received:
  assumes "whole_lines xs = xs" "command_id_ok i" "command_id_ok c" "0 \<le> e"
  shows "recs (xs @ received_line i c e) = recs xs @ [[ascii ''R'', i, c, number_text e]]" "whole_lines (xs @ received_line i c e) = xs @ received_line i c e"
  unfolding received_line_def using assms by (auto intro!: recs_tabbed simp: plain_fields)

lemma recs_done:
  assumes "whole_lines xs = xs" "command_id_ok i" "outcome_ok out" "reason_code_ok r" "plain d"
  shows "recs (xs @ done_line i out r d) = recs xs @ [[ascii ''D'', i, out, r] @ (if d = [] then [] else [d])]"
    "whole_lines (xs @ done_line i out r d) = xs @ done_line i out r d"
  unfolding done_line_def using assms by (auto intro!: recs_tabbed simp: plain_fields)

lemma recs_reported:
  assumes "whole_lines xs = xs" "command_id_ok i"
  shows "recs (xs @ reported_line i) = recs xs @ [[ascii ''S'', i]]" "whole_lines (xs @ reported_line i) = xs @ reported_line i"
  unfolding reported_line_def using assms by (auto intro!: recs_tabbed simp: plain_fields)

lemma recs_entry:
  assumes "whole_lines xs = xs" "entry_ok i e"
  shows "recs (xs @ entry_text (i, e)) = recs xs @ entry_recs (i, e) \<and> whole_lines (xs @ entry_text (i, e)) = xs @ entry_text (i, e)"
proof -
  define a where "a = xs @ received_line i (le_correlation_id e) (le_expires_unix e)"
  define b where "b = a @ done_line i (le_outcome e) (le_reason e) (le_detail e)"
  from assms(2) have id: "command_id_ok i" by (simp add: entry_ok_def)
  from assms have a: "recs a = recs xs @ [[ascii ''R'', i, le_correlation_id e, number_text (le_expires_unix e)]]" "whole_lines a = a"
    unfolding a_def by (auto simp: recs_received entry_ok_def)
  show ?thesis
  proof (cases "le_state e = Received")
    case True
    with a show ?thesis by (simp add: entry_text_def entry_recs_def a_def)
  next
    case False
    then have b: "recs b = recs a @ [[ascii ''D'', i, le_outcome e, le_reason e] @ (if le_detail e = [] then [] else [le_detail e])]" "whole_lines b = b"
      unfolding b_def using assms(2) a(2) by (auto simp: recs_done entry_ok_def)
    show ?thesis using a b recs_reported [OF b(2) id] False
      by (cases "le_state e") (simp_all add: entry_text_def entry_recs_def a_def b_def)
  qed
qed

lemma recs_entries:
  assumes "whole_lines xs = xs" "list_all (\<lambda>(i, e). entry_ok i e) es"
  shows "recs (xs @ concat (map entry_text es)) = recs xs @ concat (map entry_recs es) \<and>
    whole_lines (xs @ concat (map entry_text es)) = xs @ concat (map entry_text es)"
  using assms
proof (induction es arbitrary: xs)
  case (Cons kv es)
  obtain i e where kv: "kv = (i, e)" by (cases kv)
  from Cons.prems kv have "entry_ok i e" by simp
  from recs_entry [OF Cons.prems(1) this] have step: "recs (xs @ entry_text kv) = recs xs @ entry_recs kv"
    "whole_lines (xs @ entry_text kv) = xs @ entry_text kv" unfolding kv by auto
  from Cons.IH [OF step(2)] Cons.prems(2) step(1) show ?case by simp
qed simp

lemma recs_ledger_text:
  assumes "entries_ok es" "0 \<le> ep"
  shows "recs (ledger_text ep es) = (if 0 < ep then [[ascii ''E'', number_text ep]] else []) @ concat (map entry_recs (sort_key fst es))"
    "whole_lines (ledger_text ep es) = ledger_text ep es"
proof -
  have ok: "list_all (\<lambda>(i, e). entry_ok i e) (sort_key fst es)" using assms(1) by (simp add: entries_ok_def list_all_iff)
  have nil: "recs [] = []" "whole_lines [] = []" by (simp_all add: recs_def lines_of_def whole_lines_def)
  define xs where "xs = (if 0 < ep then tabbed [ascii ''E'', number_text ep] else [])"
  have xs: "recs xs = (if 0 < ep then [[ascii ''E'', number_text ep]] else [])" "whole_lines xs = xs"
    using recs_tabbed [OF nil(2), of "[ascii ''E'', number_text ep]"] assms(2) by (auto simp: xs_def nil plain_fields)
  have "ledger_text ep es = xs @ concat (map entry_text (sort_key fst es))" by (simp add: ledger_text_def xs_def)
  with recs_entries [OF xs(2) ok] xs(1)
  show "recs (ledger_text ep es) = (if 0 < ep then [[ascii ''E'', number_text ep]] else []) @ concat (map entry_recs (sort_key fst es))"
    "whole_lines (ledger_text ep es) = ledger_text ep es" by simp_all
qed

lemma tags_differ [simp]:
  "ascii ''R'' \<noteq> ascii ''E''" "ascii ''D'' \<noteq> ascii ''R''" "ascii ''S'' \<noteq> ascii ''R''" "ascii ''S'' \<noteq> ascii ''D''" "ascii ''D'' \<noteq> ascii ''E''" "ascii ''S'' \<noteq> ascii ''E''"
  by simp_all

lemma load_received:
  assumes "command_id_ok i" "command_id_ok c" "0 \<le> e" "e < 10 ^ 19"
  shows "load_record [ascii ''R'', i, c, number_text e] es = Some (AList.update i (new_entry c e) es)"
  using assms by (simp add: load_record_def Let_def parse_number_text) (simp add: ascii_def)

lemma load_done:
  assumes "command_id_ok i" "outcome_ok out" "reason_code_ok r" "map_of es i = Some e" "le_detail e = [] \<or> d \<noteq> []"
  shows "load_record ([ascii ''D'', i, out, r] @ (if d = [] then [] else [d])) es =
    Some (AList.update i (e\<lparr>le_state := Done, le_outcome := out, le_reason := r, le_detail := d\<rparr>) es)"
  using assms by (cases e) (auto simp: load_record_def Let_def, simp_all add: ascii_def)

lemma load_reported:
  assumes "command_id_ok i" "map_of es i = Some e" "le_state e = Done"
  shows "load_record [ascii ''S'', i] es = Some (AList.update i (e\<lparr>le_state := Reported\<rparr>) es)"
  using assms by (simp add: load_record_def Let_def) (simp add: ascii_def)

lemma load_recs_tag: "parts ! 0 \<noteq> ascii ''E'' \<Longrightarrow> load_recs f (parts # ps) ep es =
  (case load_record parts es of None \<Rightarrow> None | Some es' \<Rightarrow> load_recs False ps ep es')"
  by simp

lemma load_entry:
  assumes "entry_ok i e" "map_of es i = None"
  shows "load_recs f (entry_recs (i, e) @ ps) ep es = load_recs False ps ep (AList.update i e es)"
proof -
  from assms(1) have ok: "command_id_ok i" "command_id_ok (le_correlation_id e)" "0 \<le> le_expires_unix e" "le_expires_unix e < 10 ^ 19"
    by (simp_all add: entry_ok_def)
  define new where "new = new_entry (le_correlation_id e) (le_expires_unix e)"
  define fin where "fin = new\<lparr>le_state := Done, le_outcome := le_outcome e, le_reason := le_reason e, le_detail := le_detail e\<rparr>"
  have r: "load_record [ascii ''R'', i, le_correlation_id e, number_text (le_expires_unix e)] es = Some (AList.update i new es)"
    unfolding new_def by (rule load_received [OF ok])
  show ?thesis
  proof (cases "le_state e = Received")
    case True
    with assms(1) have "e = new" by (cases e) (simp add: entry_ok_def new_def new_entry_def)
    with True r show ?thesis unfolding entry_recs_def by (simp add: load_recs_tag)
  next
    case False
    have new: "map_of (AList.update i new es) i = Some new" "le_detail new = [] \<or> le_detail e \<noteq> []" by (simp_all add: map_of_update new_def new_entry_def)
    from False assms(1) have d: "load_record ([ascii ''D'', i, le_outcome e, le_reason e] @ (if le_detail e = [] then [] else [le_detail e]))
        (AList.update i new es) = Some (AList.update i fin es)"
      unfolding fin_def by (subst load_done [OF ok(1) _ _ new]) (auto simp: entry_ok_def)
    have "load_record [ascii ''S'', i] (AList.update i fin es) = Some (AList.update i (fin\<lparr>le_state := Reported\<rparr>) es)"
      using load_reported [OF ok(1), of "AList.update i fin es" fin] by (simp add: map_of_update fin_def)
    moreover have "e = (if le_state e = Reported then fin\<lparr>le_state := Reported\<rparr> else fin)"
      using False by (cases e; cases "le_state e") (simp_all add: fin_def new_def new_entry_def)
    ultimately show ?thesis using False r d
      unfolding entry_recs_def prod.case append.assoc append_Cons append_Nil
      by (cases "le_state e = Reported") (simp_all add: load_recs_tag)
  qed
qed

lemma load_entries:
  assumes "list_all (\<lambda>(i, e). entry_ok i e) xs" "distinct (map fst xs)" "\<forall>i\<in>fst ` set xs. map_of es i = None"
  shows "\<exists>es'. load_recs f (concat (map entry_recs xs)) ep es = Some (ep, es') \<and> map_of es' = map_of es ++ map_of xs"
  using assms
proof (induction xs arbitrary: f es)
  case (Cons kv xs)
  obtain i e where kv: "kv = (i, e)" by (cases kv)
  with Cons.prems have e: "entry_ok i e" "map_of es i = None" by auto
  have "\<forall>j\<in>fst ` set xs. map_of (AList.update i e es) j = None" using Cons.prems kv by (auto simp: map_of_update)
  from Cons.IH [OF _ _ this, of False] Cons.prems obtain es' where
    es': "load_recs False (concat (map entry_recs xs)) ep (AList.update i e es) = Some (ep, es')" "map_of es' = map_of (AList.update i e es) ++ map_of xs"
    by auto
  have "map_of xs i = None" using Cons.prems(2) kv by (simp add: map_of_eq_None_iff)
  then have "map_of (AList.update i e es) ++ map_of xs = map_of es ++ map_of (kv # xs)"
    by (auto simp: kv map_of_update map_add_def fun_eq_iff split: option.split)
  with es'(2) have "map_of es' = map_of es ++ map_of (kv # xs)" by (rule trans)
  moreover have "load_recs f (concat (map entry_recs (kv # xs))) ep es = Some (ep, es')" using load_entry [OF e, of f] es'(1) kv by simp
  ultimately show ?case by blast
qed (simp add: exI)

lemma load_ledger_text:
  assumes "entries_ok es" "0 \<le> ep" "ep < 10 ^ 19"
  shows "\<exists>es'. load_recs True (recs (ledger_text ep es)) 0 [] = Some (ep, es') \<and> map_of es' = map_of es"
proof -
  have "list_all (\<lambda>(i, e). entry_ok i e) (sort_key fst es)" "distinct (map fst (sort_key fst es))"
    using assms(1) by (auto simp: entries_ok_def list_all_iff distinct_map)
  from load_entries [OF this, of "[]"] have load: "\<exists>es'. load_recs f (concat (map entry_recs (sort_key fst es))) ep [] = Some (ep, es') \<and>
    map_of es' = map_of (sort_key fst es)" for f ep by simp
  have "map_of (sort_key fst es) = map_of es"
    using assms(1) \<open>distinct (map fst (sort_key fst es))\<close> by (subst map_of_inject_set) (simp_all add: entries_ok_def)
  with load show ?thesis unfolding recs_ledger_text(1) [OF assms(1,2)] using assms(2,3)
    by (cases "ep = 0") (simp_all add: parse_number_text)
qed

section \<open>The operations\<close>

definition contents_of :: "command_ledger \<Rightarrow> bytes" where
  "contents_of l = ld_contents (cl_disk l)"

definition ledger_ok :: "command_ledger \<Rightarrow> bool" where
  "ledger_ok l \<longleftrightarrow> entries_ok (cl_entries l) \<and> 0 \<le> cl_epoch_unix l \<and> cl_epoch_unix l < 10 ^ 19 \<and>
     (if cl_writable l then whole_lines (contents_of l) = contents_of l else True)"

definition reads_back :: "command_ledger \<Rightarrow> bool" where
  "reads_back l \<longleftrightarrow> (\<exists>es. load_recs True (recs (contents_of l)) 0 [] = Some (cl_epoch_unix l, es) \<and> map_of es = map_of (cl_entries l))"

lemma load_epoch_bounds:
  assumes "load_recs f ps ep es = Some (ep', es')" "0 \<le> ep" "ep < 10 ^ 19"
  shows "0 \<le> ep' \<and> ep' < 10 ^ 19"
  using assms
proof (induction ps arbitrary: f ep es)
  case (Cons p ps)
  then show ?case using parse_signed_bounds by (auto split: if_splits option.splits)
qed simp

lemma entries_ok_filter: "entries_ok es \<Longrightarrow> entries_ok (filter P es)"
  by (auto simp: entries_ok_def list_all_iff distinct_map intro: inj_on_subset)

lemma recs_whole: "recs (whole_lines xs) = recs xs"
  by (simp add: recs_def lines_of_def whole_lines_idem)

lemma filter_length_id: "length (filter P xs) = length xs \<Longrightarrow> filter P xs = xs"
  by (metis filter_True length_filter_less less_irrefl)

lemma ledger_open_spec:
  assumes "ledger_open maximum now io disk = (Inr l, disk')" "now < 10 ^ 19"
  obtains ep es where "load_recs True (recs (ld_contents (case disk of Some d \<Rightarrow> d | None \<Rightarrow> no_disk))) 0 [] = Some (ep, es)"
    "cl_entries l = filter (\<lambda>kv. \<not> stale now (snd kv)) es" "ledger_ok l" "reads_back l" "disk' = Some (cl_disk l)" "cl_writable l"
    "cl_disk l = (case disk of Some d \<Rightarrow> d | None \<Rightarrow> no_disk) \<and> cl_entries l = es \<or>
       contents_of l = ledger_text (cl_epoch_unix l) (cl_entries l) \<and> ld_synced (cl_disk l) = length (contents_of l)"
proof -
  define d where "d = (case disk of Some d \<Rightarrow> d | None \<Rightarrow> no_disk)"
  define contents where "contents = whole_lines (ld_contents d)"
  obtain ep es where load: "load_recs True (recs (ld_contents d)) 0 [] = Some (ep, es)"
    using assms(1) unfolding ledger_open_def Let_def load_contents by (auto simp: d_def split: if_splits option.splits)
  define epoch where "epoch = (if contents = [] then (if 0 < now then now else 1) else ep)"
  define entries where "entries = filter (\<lambda>kv. \<not> stale now (snd kv)) es"
  define rewrite where "rewrite \<longleftrightarrow> length entries \<noteq> length es \<or> contents \<noteq> ld_contents d \<or> contents = [] \<and> 0 < epoch"
  define d' where "d' = (if rewrite then \<lparr>ld_contents = ledger_text epoch entries, ld_synced = length (ledger_text epoch entries)\<rparr> else d)"
  have open': "l = \<lparr>cl_maximum_entries = maximum, cl_disk = d', cl_writable = True, cl_epoch_unix = epoch, cl_recovered = False, cl_entries = entries\<rparr>"
    "disk' = Some d'"
    using assms(1) unfolding ledger_open_def Let_def load_contents d_def [symmetric] load contents_def [symmetric] option.case prod.case
      epoch_def [symmetric] entries_def [symmetric] rewrite_def [symmetric] d'_def [symmetric]
    by (auto split: if_splits)
  have es: "entries_ok es" using load_recs_ok [OF load recs_plain] by (simp add: entries_ok_def)
  have ok: "entries_ok entries" unfolding entries_def using es by (rule entries_ok_filter)
  have ep: "0 \<le> epoch" "epoch < 10 ^ 19" using load_epoch_bounds [OF load] assms(2) by (auto simp: epoch_def)
  have same: "d' = d" "entries = es" "epoch = ep" "whole_lines (ld_contents d) = ld_contents d" if "\<not> rewrite"
  proof -
    from that have "length entries = length es" "contents = ld_contents d" "contents \<noteq> []" using ep by (auto simp: rewrite_def epoch_def split: if_splits)
    moreover from this(1) have "entries = es" unfolding entries_def by (rule filter_length_id)
    ultimately show "d' = d" "entries = es" "epoch = ep" "whole_lines (ld_contents d) = ld_contents d"
      using that by (simp_all add: d'_def epoch_def contents_def)
  qed
  have l_ok: "ledger_ok l" using ok ep same(1,4) recs_ledger_text(2) [OF ok ep(1)]
    by (auto simp: ledger_ok_def open' contents_of_def d'_def)
  have reads: "reads_back l"
  proof (cases rewrite)
    case True
    with load_ledger_text [OF ok ep] show ?thesis by (auto simp: reads_back_def open' contents_of_def d'_def)
  next
    case False
    with same load show ?thesis by (auto simp: reads_back_def open' contents_of_def)
  qed
  have disj: "cl_disk l = d \<and> cl_entries l = es \<or>
       contents_of l = ledger_text (cl_epoch_unix l) (cl_entries l) \<and> ld_synced (cl_disk l) = length (contents_of l)"
    using same by (cases rewrite) (auto simp: open' contents_of_def d'_def)
  show thesis by (rule that [OF load [unfolded d_def] _ l_ok reads _ _ disj [unfolded d_def]]) (simp_all add: open' entries_def)
qed

text \<open>
  One append: \<open>parts\<close> is the record, and the file afterwards is the old one, the old one and the
  record, or, closed, the old one and a part of the record.
\<close>

lemma append_cases:
  assumes "ledger_append io (tabbed parts) l = (res, l')" "ledger_ok l" "parts \<noteq> []" "list_all plain parts"
  obtains (same) "l' = l" "\<not> succeeded res"
  | (written) "succeeded res" "cl_writable l" "io = Append_ok" "contents_of l' = contents_of l @ tabbed parts"
      "ld_synced (cl_disk l') = length (contents_of l')" "l' = l\<lparr>cl_disk := cl_disk l'\<rparr>"
  | (unsynced) "\<not> succeeded res" "cl_writable l" "io = Sync_failed" "contents_of l' = contents_of l @ tabbed parts"
      "ld_synced (cl_disk l') = ld_synced (cl_disk l)" "l' = l\<lparr>cl_disk := cl_disk l'\<rparr>"
  | (partial) n where "\<not> succeeded res" "cl_writable l" "io \<noteq> Append_ok" "n < length (tabbed parts)" "contents_of l' = contents_of l @ take n (tabbed parts)"
      "ld_synced (cl_disk l') = ld_synced (cl_disk l)" "l' = l\<lparr>cl_disk := cl_disk l', cl_writable := False\<rparr>" "\<nexists>n. io = Write_failed n True"
proof -
  have "0 < length (tabbed parts)" by (simp add: tabbed_def)
  then have n: "min n (length (tabbed parts) - 1) < length (tabbed parts)" for n by linarith
  show thesis
  proof (cases "cl_writable l")
    case False
    with assms(1) show thesis by (auto simp: ledger_append_def intro: same)
  next
    case True
    show thesis
    proof (cases io)
      case Append_ok
      with True assms(1) show thesis by (intro written) (auto simp: ledger_append_def set_disk_def contents_of_def)
    next
      case Sync_failed
      with True assms(1) show thesis by (intro unsynced) (auto simp: ledger_append_def set_disk_def contents_of_def)
    next
      case (Write_failed k restored)
      show thesis
      proof (cases restored)
        case True
        with Write_failed \<open>cl_writable l\<close> assms(1) show thesis by (intro same) (auto simp: ledger_append_def)
      next
        case False
        with Write_failed True assms(1) n [of k] show thesis
          by (intro partial [of "min k (length (tabbed parts) - 1)"]) (auto simp: ledger_append_def set_disk_def contents_of_def)
      qed
    qed
  qed
qed

text \<open>What one operation does: nothing, or one append and, if that succeeds, one entry.\<close>

definition op_effect :: "append_io \<Rightarrow> command_ledger \<Rightarrow> bytes list \<Rightarrow> bytes \<Rightarrow> ledger_entry \<Rightarrow> command_ledger \<Rightarrow> bool" where
  "op_effect io l parts i e l' \<longleftrightarrow> parts \<noteq> [] \<and> list_all plain parts \<and> entry_ok i e \<and> 2 \<le> length parts \<and> parts ! 0 \<noteq> ascii ''E'' \<and> parts ! 1 = i \<and>
     (parts ! 0 = ascii ''R'' \<longrightarrow> map_of (cl_entries l) i = None \<and> length parts = 4 \<and> parse_signed_text (parts ! 3) = Some (le_expires_unix e)) \<and>
     (parts ! 0 \<noteq> ascii ''R'' \<longrightarrow> (\<exists>e0. map_of (cl_entries l) i = Some e0 \<and> le_expires_unix e0 = le_expires_unix e)) \<and>
     (\<forall>es. map_of es = map_of (cl_entries l) \<longrightarrow> load_record parts es = Some (AList.update i e es)) \<and>
     (\<exists>res l1. ledger_append io (tabbed parts) l = (res, l1) \<and> l' = (if succeeded res then put_entry i e l1 else l1))"

lemma mark_received_effect:
  assumes "mark_received io i c e l = (res, l')" "l' \<noteq> l \<or> res = Inr True" "e < 10 ^ 19"
  shows "op_effect io l [ascii ''R'', i, c, number_text e] i (new_entry c e) l'"
proof -
  from assms(1,2) have ids: "command_id_ok i" "command_id_ok c" "0 < e" "map_of (cl_entries l) i = None"
    by (auto simp: mark_received_def ledger_find_def split: if_splits)
  moreover obtain r l1 where "ledger_append io (received_line i c e) l = (r, l1)" by fastforce
  moreover from this ids assms(1,2) have "l' = (if succeeded r then put_entry i (new_entry c e) l1 else l1)"
    by (auto simp: mark_received_def ledger_find_def split: if_splits sum.splits)
  ultimately show ?thesis using assms(3)
    by (auto simp: op_effect_def plain_fields entry_ok_def new_entry_def parse_number_text load_received received_line_def
        load_received [unfolded new_entry_def])
qed

lemma clean_plain_detail: "plain (clean n d)"
  by (rule plain_fields)

lemma mark_done_effect:
  assumes "mark_done io i out r d l = (res, l')" "l' \<noteq> l" "ledger_ok l"
  shows "\<exists>e0. map_of (cl_entries l) i = Some e0 \<and> le_state e0 = Received \<and>
    op_effect io l ([ascii ''D'', i, out, r] @ (if clean maximum_detail_bytes d = [] then [] else [clean maximum_detail_bytes d])) i
     (e0\<lparr>le_state := Done, le_outcome := out, le_reason := r, le_detail := clean maximum_detail_bytes d\<rparr>) l'"
proof -
  from assms(1,2) obtain e0 where e0: "reason_code_ok r" "outcome_ok out" "map_of (cl_entries l) i = Some e0" "le_state e0 = Received"
    by (auto simp: mark_done_def ledger_find_def split: if_splits option.splits)
  from entries_ok_find [OF _ e0(3)] assms(3) have ok: "entry_ok i e0" by (simp add: ledger_ok_def)
  define k where "k = clean maximum_detail_bytes d"
  have k: "plain k" unfolding k_def by (rule plain_fields)
  obtain r1 l1 where app: "ledger_append io (done_line i out r k) l = (r1, l1)" by fastforce
  then have "l' = (if succeeded r1 then put_entry i (e0\<lparr>le_state := Done, le_outcome := out, le_reason := r, le_detail := k\<rparr>) l1 else l1)"
    using assms(1) e0 by (auto simp: mark_done_def ledger_find_def k_def Let_def split: sum.splits)
  moreover have "load_record ([ascii ''D'', i, out, r] @ (if k = [] then [] else [k])) es =
      Some (AList.update i (e0\<lparr>le_state := Done, le_outcome := out, le_reason := r, le_detail := k\<rparr>) es)" if "map_of es = map_of (cl_entries l)" for es
    using that e0 ok by (intro load_done) (auto simp: entry_ok_def)
  ultimately show ?thesis using e0 ok k app unfolding k_def [symmetric]
    by (auto simp: op_effect_def entry_ok_def plain_fields done_line_def)
qed

lemma mark_reported_effect:
  assumes "mark_reported io i l = (res, l')" "l' \<noteq> l" "ledger_ok l"
  shows "\<exists>e0. map_of (cl_entries l) i = Some e0 \<and> op_effect io l [ascii ''S'', i] i (e0\<lparr>le_state := Reported\<rparr>) l'"
proof -
  from assms(1,2) obtain e0 where e0: "map_of (cl_entries l) i = Some e0" "le_state e0 = Done"
    by (auto simp: mark_reported_def ledger_find_def split: if_splits option.splits)
  from entries_ok_find [OF _ e0(1)] assms(3) have ok: "entry_ok i e0" by (simp add: ledger_ok_def)
  obtain r1 l1 where app: "ledger_append io (reported_line i) l = (r1, l1)" by fastforce
  then have "l' = (if succeeded r1 then put_entry i (e0\<lparr>le_state := Reported\<rparr>) l1 else l1)"
    using assms(1) e0 by (auto simp: mark_reported_def ledger_find_def split: sum.splits)
  moreover have "load_record [ascii ''S'', i] es = Some (AList.update i (e0\<lparr>le_state := Reported\<rparr>) es)" if "map_of es = map_of (cl_entries l)" for es
    using that e0 ok by (intro load_reported) (auto simp: entry_ok_def)
  ultimately show ?thesis using e0 ok app
    by (auto simp: op_effect_def entry_ok_def plain_fields reported_line_def)
qed

lemma put_entry_simps [simp]:
  "cl_entries (put_entry i e l) = AList.update i e (cl_entries l)" "contents_of (put_entry i e l) = contents_of l"
  "cl_disk (put_entry i e l) = cl_disk l" "cl_writable (put_entry i e l) = cl_writable l" "cl_epoch_unix (put_entry i e l) = cl_epoch_unix l"
  by (simp_all add: put_entry_def contents_of_def)

lemma append_keeps:
  assumes "ledger_append io line l = (res, l')"
  shows "cl_entries l' = cl_entries l" "cl_epoch_unix l' = cl_epoch_unix l"
  using assms by (auto simp: ledger_append_def set_disk_def split: if_splits append_io.splits)

lemma op_effect_ok:
  assumes "op_effect io l parts i e l'" "ledger_ok l"
  shows "ledger_ok l'"
proof -
  from assms(1) obtain res l1 where app: "ledger_append io (tabbed parts) l = (res, l1)" "l' = (if succeeded res then put_entry i e l1 else l1)"
    and p: "parts \<noteq> []" "list_all plain parts" "entry_ok i e" by (auto simp: op_effect_def)
  note keeps = append_keeps [OF app(1)]
  from app(1) assms(2) p(1,2) show ?thesis
  proof (cases rule: append_cases)
    case written
    with keeps assms(2) app(2) p show ?thesis by (auto simp: ledger_ok_def entries_ok_update recs_tabbed(2))
  next
    case unsynced
    with keeps assms(2) app(2) p show ?thesis by (auto simp: ledger_ok_def recs_tabbed(2))
  next
    case (partial n)
    from partial(7) have "\<not> cl_writable l1" by (metis command_ledger.select_convs(3) command_ledger.surjective command_ledger.update_convs(3))
    with partial keeps assms(2) app(2) show ?thesis by (auto simp: ledger_ok_def)
  qed (use app assms(2) in simp)
qed

definition steady :: "append_io \<Rightarrow> bool" where
  "steady io \<longleftrightarrow> io = Append_ok \<or> (\<exists>n. io = Write_failed n True)"

lemma op_effect_reads:
  assumes "op_effect io l parts i e l'" "ledger_ok l" "reads_back l" "steady io"
  shows "reads_back l'"
proof -
  from assms(1) obtain res l1 where app: "ledger_append io (tabbed parts) l = (res, l1)" "l' = (if succeeded res then put_entry i e l1 else l1)"
    and p: "parts \<noteq> []" "list_all plain parts" "entry_ok i e" "parts ! 0 \<noteq> ascii ''E''"
    and load: "\<And>es. map_of es = map_of (cl_entries l) \<Longrightarrow> load_record parts es = Some (AList.update i e es)" by (auto simp: op_effect_def)
  note keeps = append_keeps [OF app(1)]
  from app(1) assms(2) p(1,2) show ?thesis
  proof (cases rule: append_cases)
    case written
    from assms(3) obtain es where es: "load_recs True (recs (contents_of l)) 0 [] = Some (cl_epoch_unix l, es)" "map_of es = map_of (cl_entries l)"
      by (auto simp: reads_back_def)
    have "recs (contents_of l1) = recs (contents_of l) @ [parts]"
      using written assms(2) p by (simp add: ledger_ok_def recs_tabbed)
    then have "load_recs True (recs (contents_of l1)) 0 [] = Some (cl_epoch_unix l, AList.update i e es)"
      using es p(4) load [OF es(2)] by (simp add: load_recs_append)
    with written keeps app(2) es(2) show ?thesis by (auto simp: reads_back_def map_of_update)
  next
    case unsynced
    with assms(4) show ?thesis by (simp add: steady_def)
  next
    case (partial n)
    with assms(4) show ?thesis by (auto simp: steady_def)
  qed (use app assms(3) in simp)
qed

section \<open>What a crash cannot undo\<close>

text \<open>The last receipt of a command among the records, and the files in which it says \<open>e\<close> whatever a crash cuts off.\<close>

definition r_for :: "bytes \<Rightarrow> bytes list \<Rightarrow> bool" where
  "r_for j parts \<longleftrightarrow> 2 \<le> length parts \<and> parts ! 0 = ascii ''R'' \<and> parts ! 1 = j"

definition last_receipt :: "bytes \<Rightarrow> bytes list list \<Rightarrow> int option" where
  "last_receipt j ps = fold (\<lambda>p r. if r_for j p then parse_signed_text (p ! 3) else r) ps None"

definition durable :: "bytes \<Rightarrow> int \<Rightarrow> ledger_disk \<Rightarrow> bool" where
  "durable j e d \<longleftrightarrow> (\<forall>n\<ge>ld_synced d. last_receipt j (recs (take n (ld_contents d))) = Some e)"

lemma last_receipt_append: "last_receipt j (ps @ [p]) = (if r_for j p then parse_signed_text (p ! 3) else last_receipt j ps)"
  by (simp add: last_receipt_def)

lemma load_record_expires:
  assumes "load_record p es = Some es'"
  shows "map_option le_expires_unix (map_of es' j) =
    (if r_for j p then parse_signed_text (p ! 3) else map_option le_expires_unix (map_of es j))"
  using assms unfolding load_record_def Let_def
  by (auto simp: r_for_def map_of_update new_entry_def split: if_splits option.splits)

lemma load_recs_expires:
  assumes "load_recs f ps ep es = Some (ep', es')"
  shows "map_option le_expires_unix (map_of es' j) =
    fold (\<lambda>p r. if r_for j p then parse_signed_text (p ! 3) else r) ps (map_option le_expires_unix (map_of es j))"
  using assms
proof (induction ps arbitrary: f ep es)
  case (Cons p ps)
  show ?case
  proof (cases "f \<and> length p = 2 \<and> p ! 0 = ascii ''E''")
    case True
    then have "\<not> r_for j p" by (simp add: r_for_def)
    with True Cons show ?thesis by (auto split: option.splits if_splits)
  next
    case False
    with Cons.prems obtain es1 where es1: "load_record p es = Some es1" "load_recs False ps ep es1 = Some (ep', es')"
      by (auto split: option.splits if_splits)
    from Cons.IH [OF es1(2)] load_record_expires [OF es1(1), of j] show ?thesis by simp
  qed
qed simp

lemma durable_full: "durable j e d \<Longrightarrow> last_receipt j (recs (ld_contents d)) = Some e"
  unfolding durable_def by (drule spec [of _ "max (ld_synced d) (length (ld_contents d))"]) simp

lemma durable_take: "durable j e d \<Longrightarrow> ld_synced d \<le> n \<Longrightarrow> durable j e (d\<lparr>ld_contents := take n (ld_contents d)\<rparr>)"
  by (simp add: durable_def)

text \<open>An append that is no receipt of \<open>j\<close> leaves it durable, synced or not, whole or cut.\<close>

lemma op_effect_durable:
  assumes "op_effect io l parts i e l'" "ledger_ok l" "durable j x (cl_disk l)" "map_of (cl_entries l) j \<noteq> None"
  shows "durable j x (cl_disk l')"
proof -
  from assms(1) obtain res l1 where app: "ledger_append io (tabbed parts) l = (res, l1)" "l' = (if succeeded res then put_entry i e l1 else l1)"
    and p: "parts \<noteq> []" "list_all plain parts" by (auto simp: op_effect_def)
  from assms(1,4) have other: "\<not> r_for j parts" by (auto simp: op_effect_def r_for_def)
  have disk: "cl_disk l' = cl_disk l1" using app(2) by simp
  have full: "last_receipt j (recs (contents_of l)) = Some x" using durable_full [OF assms(3)] by (simp add: contents_of_def)
  have all: "last_receipt j (recs (contents_of l @ take n (tabbed parts))) = Some x" if "cl_writable l" for n
  proof (cases "n < length (tabbed parts)")
    case True
    with recs_partial [OF _ p, of "contents_of l" n] assms(2) full that show ?thesis by (simp add: ledger_ok_def)
  next
    case False
    with recs_tabbed(1) [OF _ p, of "contents_of l"] assms(2) full other that show ?thesis by (simp add: ledger_ok_def last_receipt_append)
  qed
  have cut: "last_receipt j (recs (take n (contents_of l @ take m (tabbed parts)))) = Some x"
    if "cl_writable l" "ld_synced (cl_disk l) \<le> n" for n m
    using all [OF that(1), of "min (n - length (contents_of l)) m"] assms(3) that(2) unfolding durable_def
    by (cases "n \<le> length (contents_of l)") (simp_all add: contents_of_def min.commute)
  from app(1) assms(2) p show ?thesis
  proof (cases rule: append_cases)
    case written
    with all [of "length (tabbed parts)"] show ?thesis unfolding disk by (auto simp: durable_def contents_of_def)
  next
    case unsynced
    with cut [where m = "length (tabbed parts)"] show ?thesis unfolding disk by (auto simp: durable_def contents_of_def)
  next
    case (partial n)
    with cut [where m = n] show ?thesis unfolding disk by (auto simp: durable_def contents_of_def)
  qed (use disk assms(3) in simp)
qed

lemma received_durable:
  assumes "op_effect io l parts i e l'" "ledger_ok l" "parts ! 0 = ascii ''R''" "map_of (cl_entries l') i \<noteq> None"
  shows "durable i (le_expires_unix e) (cl_disk l')" "map_of (cl_entries l') i = Some e"
proof -
  from assms(1,3) obtain res l1 where app: "ledger_append io (tabbed parts) l = (res, l1)" "l' = (if succeeded res then put_entry i e l1 else l1)"
    and p: "parts \<noteq> []" "list_all plain parts" "r_for i parts" "parse_signed_text (parts ! 3) = Some (le_expires_unix e)" "map_of (cl_entries l) i = None"
    by (auto simp: op_effect_def r_for_def)
  have res: "succeeded res" using assms(4) p(5) app(2) append_keeps(1) [OF app(1)] by (auto split: if_splits)
  from app(1) assms(2) p(1,2) have "durable i (le_expires_unix e) (cl_disk l')"
  proof (cases rule: append_cases)
    case written
    have "last_receipt i (recs (contents_of l1)) = Some (le_expires_unix e)"
      using written p assms(2) by (simp add: ledger_ok_def recs_tabbed last_receipt_append)
    with written app(2) show ?thesis by (auto simp: durable_def contents_of_def)
  qed (use res in simp_all)
  with res app(2) show "durable i (le_expires_unix e) (cl_disk l')" "map_of (cl_entries l') i = Some e" by (simp_all add: map_of_update)
qed

lemma op_effect_entry:
  assumes "op_effect io l parts i e l'" "map_of (cl_entries l) j = Some x"
  shows "\<exists>y. map_of (cl_entries l') j = Some y \<and> le_expires_unix y = le_expires_unix x"
proof -
  from assms(1) obtain res l1 where app: "ledger_append io (tabbed parts) l = (res, l1)" "l' = (if succeeded res then put_entry i e l1 else l1)"
    by (auto simp: op_effect_def)
  from append_keeps(1) [OF app(1)] app(2) assms show ?thesis by (auto simp: op_effect_def map_of_update)
qed

lemma map_of_filter_keep: "map_of es j = Some e \<Longrightarrow> P e \<Longrightarrow> distinct (map fst es) \<Longrightarrow> map_of (filter (\<lambda>kv. P (snd kv)) es) j = Some e"
  by (induction es) (auto simp: map_of_eq_None_iff dest: map_of_SomeD)

lemma open_durable:
  assumes "ledger_open maximum now io (Some d) = (Inr l, disk')" "now < 10 ^ 19" "durable j x d"
  shows "x + keep_after_expiry < now \<or> durable j x (cl_disk l) \<and> (\<exists>e. map_of (cl_entries l) j = Some e \<and> le_expires_unix e = x)"
proof -
  obtain ep es where open': "load_recs True (recs (ld_contents d)) 0 [] = Some (ep, es)" "cl_entries l = filter (\<lambda>kv. \<not> stale now (snd kv)) es"
    "ledger_ok l" "reads_back l" "disk' = Some (cl_disk l)" "cl_writable l" "cl_disk l = d \<and> cl_entries l = es \<or>
       contents_of l = ledger_text (cl_epoch_unix l) (cl_entries l) \<and> ld_synced (cl_disk l) = length (contents_of l)"
    by (rule ledger_open_spec [OF assms(1,2), unfolded option.case])
  have receipt: "last_receipt j (recs c) = map_option le_expires_unix (map_of fs j)" if "load_recs True (recs c) 0 [] = Some (ep, fs)" for c ep fs
    using load_recs_expires [OF that, of j] by (simp add: last_receipt_def)
  from receipt [OF open'(1)] durable_full [OF assms(3)] obtain e where e: "map_of es j = Some e" "le_expires_unix e = x"
    by (cases "map_of es j") simp_all
  show ?thesis
  proof (cases "stale now e")
    case True
    with e show ?thesis by (simp add: stale_def)
  next
    case False
    have "entries_ok es" using load_recs_ok [OF open'(1) recs_plain] by (simp add: entries_ok_def)
    then have kept: "map_of (cl_entries l) j = Some e" unfolding open'(2)
      using map_of_filter_keep [of es j e "\<lambda>e. \<not> stale now e"] e(1) False by (simp add: entries_ok_def)
    from open'(4) obtain fs where "load_recs True (recs (contents_of l)) 0 [] = Some (cl_epoch_unix l, fs)" "map_of fs = map_of (cl_entries l)"
      by (auto simp: reads_back_def)
    from receipt [OF this(1)] this(2) kept e(2) have last: "last_receipt j (recs (contents_of l)) = Some x" by simp
    have "durable j x (cl_disk l)" using open'(7) assms(3) last by (auto simp: durable_def contents_of_def)
    with kept e(2) show ?thesis by blast
  qed
qed

lemma open_failed_disk:
  assumes "ledger_open maximum now io disk = (Inl err, disk')"
  shows "disk' = disk \<or> (\<exists>l. ledger_open maximum now (io\<lparr>oi_open := True\<rparr>) disk = (Inr l, disk'))"
  using assms unfolding ledger_open_def Let_def by (auto split: option.splits if_splits)

section \<open>Reopening\<close>

text \<open>
  One operation on the ledger, its append restricted by \<open>P\<close>. \<open>steady_op\<close>: every write was whole or
  undone, and every sync succeeded.
\<close>

inductive ledger_op :: "(append_io \<Rightarrow> bool) \<Rightarrow> command_ledger \<Rightarrow> command_ledger \<Rightarrow> bool" for P where
  received: "P io \<Longrightarrow> e < 10 ^ 19 \<Longrightarrow> ledger_op P l (snd (mark_received io i c e l))"
| finished: "P io \<Longrightarrow> ledger_op P l (snd (mark_done io i out r d l))"
| told: "P io \<Longrightarrow> ledger_op P l (snd (mark_reported io i l))"

abbreviation steady_op :: "command_ledger \<Rightarrow> command_ledger \<Rightarrow> bool" where
  "steady_op \<equiv> ledger_op steady"

lemma ledger_op_effect:
  assumes "ledger_op P l l'" "ledger_ok l"
  shows "l' = l \<or> (\<exists>io parts i e. P io \<and> op_effect io l parts i e l')"
  using assms(1)
proof cases
  case (received io e i c)
  with mark_received_effect [of io i c e l "fst (mark_received io i c e l)" l'] show ?thesis by fastforce
next
  case (finished io i out r d)
  with mark_done_effect [of io i out r d l "fst (mark_done io i out r d l)" l'] assms(2) show ?thesis by fastforce
next
  case (told io i)
  with mark_reported_effect [of io i l "fst (mark_reported io i l)" l'] assms(2) show ?thesis by fastforce
qed

lemma length_update: "length (AList.update k v es) = (if map_of es k = None then Suc (length es) else length es)"
  by (induction es) auto

lemma append_maximum: "ledger_append io line l = (res, l') \<Longrightarrow> cl_maximum_entries l' = cl_maximum_entries l"
  by (auto simp: ledger_append_def set_disk_def split: if_splits append_io.splits)

lemma ledger_op_bounds:
  assumes "ledger_op P l l'" "length (cl_entries l) \<le> cl_maximum_entries l"
  shows "length (cl_entries l') \<le> cl_maximum_entries l' \<and> cl_maximum_entries l' = cl_maximum_entries l \<and> cl_epoch_unix l' = cl_epoch_unix l"
  using assms(1)
proof cases
  case (received io e i c)
  obtain res l1 where app: "ledger_append io (received_line i c e) l = (res, l1)" by fastforce
  from received app append_keeps [OF app] append_maximum [OF app] assms(2) show ?thesis
    by (auto simp: mark_received_def put_entry_def length_update split: sum.split)
next
  case (finished io i out r d)
  obtain res l1 where app: "ledger_append io (done_line i out r (clean maximum_detail_bytes d)) l = (res, l1)" by fastforce
  from finished app append_keeps [OF app] append_maximum [OF app] assms(2) show ?thesis
    by (auto simp: mark_done_def put_entry_def length_update ledger_find_def Let_def split: sum.split option.split)
next
  case (told io i)
  obtain res l1 where app: "ledger_append io (reported_line i) l = (res, l1)" by fastforce
  from told app append_keeps [OF app] append_maximum [OF app] assms(2) show ?thesis
    by (auto simp: mark_reported_def put_entry_def length_update ledger_find_def split: sum.split option.split)
qed

lemma steady_ops:
  assumes "steady_op\<^sup>*\<^sup>* l l'" "ledger_ok l" "reads_back l" "length (cl_entries l) \<le> cl_maximum_entries l"
  shows "ledger_ok l' \<and> reads_back l' \<and> length (cl_entries l') \<le> cl_maximum_entries l' \<and> cl_maximum_entries l' = cl_maximum_entries l \<and>
    cl_epoch_unix l' = cl_epoch_unix l"
  using assms(1)
proof (induction rule: rtranclp_induct)
  case base
  from assms(2-4) show ?case by simp
next
  case (step l1 l2)
  from ledger_op_effect [OF step(2)] step(3) op_effect_ok op_effect_reads have "ledger_ok l2 \<and> reads_back l2" by metis
  with ledger_op_bounds [OF step(2)] step(3) show ?case by simp
qed

definition all_well :: open_io where
  "all_well = \<lparr>oi_directory = True, oi_readable = True, oi_rewrite = True, oi_open = True\<rparr>"

lemma open_bound:
  assumes "ledger_open maximum now io disk = (Inr l, disk')"
  shows "length (cl_entries l) \<le> cl_maximum_entries l" "cl_maximum_entries l = maximum" "0 < maximum"
  using assms unfolding ledger_open_def Let_def by (auto split: option.splits if_splits)

text \<open>
  C22. The ledger survives a restart: opened at a time below \<open>10 ^ 19\<close> with an epoch recorded, and
  after any operations (expiry times below \<open>10 ^ 19\<close>) during which writes were whole or undone and syncs succeeded, opening the
  file again succeeds and gives the same epoch and exactly the entries the process had, except
  those that were reported and expired more than a day ago. The condition on the syncs is needed:
  a line whose sync failed stays in the file, is written a second time by the next attempt, and
  the file is then taken for a corrupt one.
\<close>

theorem ledger_reopens:
  assumes "ledger_open maximum now io disk = (Inr l, disk')" "now < 10 ^ 19" "0 < cl_epoch_unix l" "steady_op\<^sup>*\<^sup>* l l'"
  shows "\<exists>l'' d. ledger_open maximum now' all_well (Some (cl_disk l')) = (Inr l'', d) \<and> cl_epoch_unix l'' = cl_epoch_unix l' \<and>
    (\<forall>i. map_of (cl_entries l'') i =
      (case map_of (cl_entries l') i of None \<Rightarrow> None | Some e \<Rightarrow> if stale now' e then None else Some e))"
proof -
  have "ledger_ok l \<and> reads_back l" by (rule ledger_open_spec [OF assms(1,2)]) blast
  from steady_ops [OF assms(4) _ _ open_bound(1) [OF assms(1)]] this open_bound(2,3) [OF assms(1)] assms(3)
  have l': "ledger_ok l'" "reads_back l'" "length (cl_entries l') \<le> maximum" "0 < cl_epoch_unix l'" "0 < maximum" by auto
  from l'(2) obtain es where es: "load_recs True (recs (contents_of l')) 0 [] = Some (cl_epoch_unix l', es)" "map_of es = map_of (cl_entries l')"
    by (auto simp: reads_back_def)
  have distinct: "distinct (map fst es)" "distinct (map fst (cl_entries l'))"
    using load_recs_ok [OF es(1) recs_plain] l'(1) by (simp_all add: entries_ok_def ledger_ok_def)
  have "set es = set (cl_entries l')" using map_of_inject_set [OF distinct] es(2) by simp
  then have "length es = length (cl_entries l')" using distinct by (metis distinct_card distinct_map length_map)
  then have bound: "length (filter (\<lambda>kv. \<not> stale now' (snd kv)) es) \<le> maximum"
    using l'(3) length_filter_le [of "\<lambda>kv. \<not> stale now' (snd kv)" es] by linarith
  have "whole_lines (contents_of l') \<noteq> []"
  proof
    assume "whole_lines (contents_of l') = []"
    then have "recs (contents_of l') = []" by (simp add: recs_def lines_of_def)
    with es(1) l'(4) show False by simp
  qed
  with es(1) bound l'(5) have open': "\<exists>l'' d. ledger_open maximum now' all_well (Some (cl_disk l')) = (Inr l'', d) \<and>
      cl_epoch_unix l'' = cl_epoch_unix l' \<and> cl_entries l'' = filter (\<lambda>kv. \<not> stale now' (snd kv)) es"
    unfolding ledger_open_def load_contents Let_def all_well_def contents_of_def by simp
  have "map_of (filter (\<lambda>kv. \<not> stale now' (snd kv)) es) i = (case map_of es i of None \<Rightarrow> None | Some e \<Rightarrow> if stale now' e then None else Some e)" for i
    using distinct(1) by (induction es) (auto simp: map_of_eq_None_iff split: option.split dest: map_of_SomeD)
  with open' es(2) show ?thesis by auto
qed

definition sample_ledger :: command_ledger where
  "sample_ledger = \<lparr>cl_maximum_entries = 4, cl_disk = \<lparr>ld_contents = ledger_text 1000 [], ld_synced = length (ledger_text 1000 [])\<rparr>,
     cl_writable = True, cl_epoch_unix = 1000, cl_recovered = False, cl_entries = []\<rparr>"

lemma sample_ledger_opens: "ledger_open 4 1000 all_well None = (Inr sample_ledger, Some (cl_disk sample_ledger))"
  by (simp add: ledger_open_def all_well_def no_disk_def whole_lines_def sample_ledger_def Let_def)

lemma sample_received:
  "map_of (cl_entries (snd (mark_received Append_ok (ascii ''c1'') (ascii ''k'') 2000 sample_ledger))) (ascii ''c1'') = Some (new_entry (ascii ''k'') 2000)"
  by (simp add: mark_received_def command_id_ok_def maximum_command_id_bytes_def is_valid_identifier_def alnum_def ascii_def ledger_find_def
      ledger_append_def set_disk_def put_entry_def sample_ledger_def)

theorem ledger_reopens_witness:
  "\<exists>l d. ledger_open 4 1500 all_well (Some (cl_disk (snd (mark_received Append_ok (ascii ''c1'') (ascii ''k'') 2000 sample_ledger)))) = (Inr l, d) \<and>
     cl_epoch_unix l = 1000 \<and> ledger_find (ascii ''c1'') l = Some (new_entry (ascii ''k'') 2000)"
proof -
  define l' where "l' = snd (mark_received Append_ok (ascii ''c1'') (ascii ''k'') 2000 sample_ledger)"
  have step: "steady_op\<^sup>*\<^sup>* sample_ledger l'" unfolding l'_def
    by (intro r_into_rtranclp ledger_op.received) (simp_all add: steady_def)
  have epoch: "cl_epoch_unix l' = 1000" using steady_ops [OF step] by (simp add: l'_def mark_received_def sample_ledger_def ledger_append_def
        set_disk_def put_entry_def split: sum.split)
  obtain l d where "ledger_open 4 1500 all_well (Some (cl_disk l')) = (Inr l, d)" "cl_epoch_unix l = cl_epoch_unix l'"
    "map_of (cl_entries l) (ascii ''c1'') = (case map_of (cl_entries l') (ascii ''c1'') of None \<Rightarrow> None | Some e \<Rightarrow> if stale 1500 e then None else Some e)"
    using ledger_reopens [OF sample_ledger_opens _ _ step, of 1500] by (auto simp: sample_ledger_def)
  with epoch sample_received show ?thesis by (auto simp: l'_def [symmetric] ledger_find_def stale_def new_entry_def)
qed

end
