(* ===== verification/Processor_Properties.thy ===== *)
theory Processor_Properties
  imports Ledger_Properties Command_Processor
begin

text \<open>
  What the command processor guarantees: which commands reach the executor, that none does so
  twice while it is valid, across crashes and restarts, and that the changing actions of a process stay
  within the limit per minute.
\<close>

section \<open>What reaches the executor\<close>

lemma first_refusal_none [simp]: "first_refusal rs = None \<longleftrightarrow> set rs \<subseteq> {None}"
proof (induction rs)
  case (Cons r rs)
  then show ?case by (cases r) (simp_all add: first_refusal_def split: list.splits)
qed (simp add: first_refusal_def)

lemma action_implemented [simp]: "command_action_implemented a"
  by (cases a) (simp_all add: command_action_implemented_def)

definition signed_for :: "processor_env \<Rightarrow> command_processor_options \<Rightarrow> endpoint_command \<Rightarrow> bool" where
  "signed_for env opts command \<longleftrightarrow>
     (case po_keyring opts of Some ring \<Rightarrow> keyring_check (pe_verify_raw env) ring command = Valid | None \<Rightarrow> \<not> cp_require_signature (po_policy opts))"

definition boot_bound :: "command_processor_options \<Rightarrow> endpoint_command \<Rightarrow> bool" where
  "boot_bound opts command \<longleftrightarrow>
     (if ec_boot_id command = []
      then \<not> (cp_require_boot_binding (po_policy opts) \<and> ec_action command \<in> {Kill_process, Collect_process_info})
      else ec_boot_id command = po_boot_digest opts)"

definition in_window :: "command_policy \<Rightarrow> int \<Rightarrow> endpoint_command \<Rightarrow> bool" where
  "in_window policy now command \<longleftrightarrow>
     (let longest = cp_maximum_lifetime_seconds policy + cp_clock_skew_seconds policy
      in now < ec_expires_unix command \<and> ec_expires_unix command \<le> now + longest \<and> ec_created_unix command \<le> now + cp_clock_skew_seconds policy \<and>
         (if 0 < ec_created_unix command then ec_expires_unix command \<le> ec_created_unix command + longest else 0 \<le> longest))"

definition after_epoch :: "int \<Rightarrow> endpoint_command \<Rightarrow> bool" where
  "after_epoch epoch command \<longleftrightarrow> (0 < ec_created_unix command \<and> 0 < epoch \<longrightarrow> epoch \<le> ec_created_unix command)"

lemma authorization_refusal_none: "authorization_refusal (pe_verify_raw env) opts command = None \<longleftrightarrow> signed_for env opts command"
  by (simp add: authorization_refusal_def signed_for_def split: option.split authorization_verdict.split)

lemma boot_refusal_none: "boot_refusal opts command = None \<longleftrightarrow> boot_bound opts command"
  by (auto simp: boot_refusal_def boot_bound_def)

lemma window_refusal_none: "window_refusal policy epoch now command = None \<longleftrightarrow> in_window policy now command \<and> after_epoch epoch command"
  by (auto simp: window_refusal_def in_window_def after_epoch_def Let_def)

lemma policy_refusal_none: "policy_refusal policy command = None \<longleftrightarrow> cp_mode policy \<noteq> Off \<and> ec_action command \<in> set (cp_allowed policy)"
  by (auto simp: policy_refusal_def)

lemma refusal_reason_none:
  "refusal_reason (pe_verify_raw env) opts epoch now command = None \<longleftrightarrow>
     ec_agent_id command = po_agent_id opts \<and> ec_host_id command = po_host_id opts \<and> signed_for env opts command \<and> boot_bound opts command \<and>
     in_window (po_policy opts) now command \<and> after_epoch epoch command \<and> cp_mode (po_policy opts) \<noteq> Off \<and>
     ec_action command \<in> set (cp_allowed (po_policy opts))"
  by (auto simp: refusal_reason_def authorization_refusal_none boot_refusal_none window_refusal_none policy_refusal_none)

text \<open>Whether a command makes a change of the host, and the changes that still count against the limit.\<close>

definition makes_change :: "command_policy \<Rightarrow> endpoint_command \<Rightarrow> bool" where
  "makes_change policy command \<longleftrightarrow> command_action_changes_host (ec_action command) \<and> cp_mode policy = Enforce"

definition recent :: "int \<Rightarrow> int list \<Rightarrow> int list" where
  "recent now ts = dropWhile (\<lambda>t. t \<le> now - 60) ts"

definition consented :: "processor_env \<Rightarrow> command_processor_options \<Rightarrow> endpoint_command \<Rightarrow> bool" where
  "consented env opts command \<longleftrightarrow>
     ec_action command \<notin> {Collect_process_info, Collect_network_connections, Collect_file} \<or> \<not> po_require_collection_acceptance opts \<or>
     pe_collection_authorized env command"

text \<open>The call of the executor and the rate state after it, for a command that passed every check.\<close>

lemma carry_out_call:
  "snd (snd (carry_out env opts io now command p)) =
     (if consented env opts command then Some (command, command_action_changes_host (ec_action command) \<and> cp_mode (po_policy opts) \<noteq> Enforce) else None)"
  by (auto simp: carry_out_def consented_def Let_def)

lemma carry_out_times:
  "pr_change_times (fst (snd (carry_out env opts io now command p))) =
     (if consented env opts command \<and> makes_change (po_policy opts) command then pr_change_times p @ [now] else pr_change_times p)"
  by (auto simp: carry_out_def consented_def makes_change_def Let_def)

lemma handle_cases:
  assumes "processor_handle env opts io_received io_done now command p = (out, p', call)"
  obtains (refused) "call = None" "pr_change_times p' = pr_change_times p \<or> makes_change (po_policy opts) command \<and> pr_change_times p' = recent now (pr_change_times p)"
      "(\<exists>r d res. refuse io_received io_done command r d (pr_ledger p) = (res, pr_ledger p')) \<or>
       pr_ledger p' = snd (mark_received io_received (ec_command_id command) (ec_correlation_id command) (ec_expires_unix command) (pr_ledger p))"
  | (carried) l p1 where "refusal_reason (pe_verify_raw env) opts (cl_epoch_unix (pr_ledger p)) now command = None"
      "makes_change (po_policy opts) command \<Longrightarrow> length (recent now (pr_change_times p)) < cp_maximum_changes_per_minute (po_policy opts)"
      "mark_received io_received (ec_command_id command) (ec_correlation_id command) (ec_expires_unix command) (pr_ledger p) = (Inr True, l)"
      "p1 = \<lparr>pr_ledger = l, pr_change_times = (if makes_change (po_policy opts) command then recent now (pr_change_times p) else pr_change_times p)\<rparr>"
      "carry_out env opts io_done now command p1 = (out, p', call)"
proof -
  note handle = assms [unfolded processor_handle_def Let_def]
  have change: "(command_action_changes_host (ec_action command) \<and> \<not> (command_action_changes_host (ec_action command) \<and> cp_mode (po_policy opts) \<noteq> Enforce))
    \<longleftrightarrow> makes_change (po_policy opts) command" by (auto simp: makes_change_def)
  show thesis
  proof (cases "refusal_reason (pe_verify_raw env) opts (cl_epoch_unix (pr_ledger p)) now command")
    case (Some r)
    with handle show thesis by (intro refused) (auto split: prod.splits, blast)
  next
    case None
    define p1 where "p1 = (if makes_change (po_policy opts) command then p\<lparr>pr_change_times := recent now (pr_change_times p)\<rparr> else p)"
    obtain made l where made: "mark_received io_received (ec_command_id command) (ec_correlation_id command) (ec_expires_unix command) (pr_ledger p) = (made, l)"
      by fastforce
    have [simp]: "pr_ledger p1 = pr_ledger p" by (simp add: p1_def)
    note handle' = handle [unfolded None option.case conj_assoc [symmetric] change recent_def [symmetric], folded p1_def]
    show thesis
    proof (cases "makes_change (po_policy opts) command \<and> cp_maximum_changes_per_minute (po_policy opts) \<le> length (pr_change_times p1)
        \<or> made \<noteq> Inr True")
      case True
      with handle' made show thesis
        by (intro refused) (auto simp: p1_def split: prod.splits sum.splits bool.splits if_splits, blast+)
    next
      case False
      then show thesis using handle' made None
        by (intro carried [of l "p1\<lparr>pr_ledger := l\<rparr>"]) (auto simp: p1_def split: if_splits)
    qed
  qed
qed

lemma handle_executes:
  assumes "refusal_reason (pe_verify_raw env) opts (cl_epoch_unix (pr_ledger p)) now command = None"
    "\<not> (makes_change (po_policy opts) command \<and> cp_maximum_changes_per_minute (po_policy opts) \<le> length (recent now (pr_change_times p)))"
    "fst (mark_received io_received (ec_command_id command) (ec_correlation_id command) (ec_expires_unix command) (pr_ledger p)) = Inr True"
    "consented env opts command"
  shows "snd (snd (processor_handle env opts io_received io_done now command p)) =
    Some (command, command_action_changes_host (ec_action command) \<and> cp_mode (po_policy opts) \<noteq> Enforce)"
proof -
  let ?changes = "command_action_changes_host (ec_action command)"
  have change: "?changes \<and> \<not> (?changes \<and> cp_mode (po_policy opts) \<noteq> Enforce) \<longleftrightarrow> makes_change (po_policy opts) command"
    by (auto simp: makes_change_def)
  from assms(3) obtain l where
    "mark_received io_received (ec_command_id command) (ec_correlation_id command) (ec_expires_unix command) (pr_ledger p) = (Inr True, l)"
    by (metis prod.collapse)
  with assms(1,2,4) show ?thesis
    unfolding processor_handle_def Let_def conj_assoc [symmetric] change by (auto simp: carry_out_call recent_def)
qed

text \<open>
  C2. A command reaches the executor exactly when it names this agent and host, is signed by a trusted
  key (or the endpoint was set up to accept unsigned ones), is bound to this boot where it must be, lies inside its time
  window and after the start of the ledger, is permitted by the local policy, does not exceed the
  changes per minute, has been durably recorded under an id the ledger did not know, and has
  the Manager's consent where that is required; then as a dry run exactly when it would change the host and the policy does not enforce.
\<close>

theorem executes_exactly_when:
  "snd (snd (processor_handle env opts io_received io_done now command p)) = Some (c, dry_run) \<longleftrightarrow>
     c = command \<and> dry_run = (command_action_changes_host (ec_action command) \<and> cp_mode (po_policy opts) \<noteq> Enforce) \<and>
     ec_agent_id command = po_agent_id opts \<and> ec_host_id command = po_host_id opts \<and>
     signed_for env opts command \<and> boot_bound opts command \<and> in_window (po_policy opts) now command \<and>
     after_epoch (cl_epoch_unix (pr_ledger p)) command \<and>
     cp_mode (po_policy opts) \<noteq> Off \<and> ec_action command \<in> set (cp_allowed (po_policy opts)) \<and>
     \<not> (makes_change (po_policy opts) command \<and> cp_maximum_changes_per_minute (po_policy opts) \<le> length (recent now (pr_change_times p))) \<and>
     fst (mark_received io_received (ec_command_id command) (ec_correlation_id command) (ec_expires_unix command) (pr_ledger p)) = Inr True \<and>
     consented env opts command"
    (is "?call = Some (c, dry_run) \<longleftrightarrow> ?conditions")
proof
  obtain out p' call where handle: "processor_handle env opts io_received io_done now command p = (out, p', call)" by (rule prod_cases3)
  assume "?call = Some (c, dry_run)"
  with handle have call: "call = Some (c, dry_run)" by simp
  from handle show ?conditions
  proof (cases rule: handle_cases)
    case (carried l p1)
    with call carry_out_call [of env opts io_done now command p1] show ?thesis by (auto simp: refusal_reason_none split: if_splits)
  qed (use call in simp)
next
  assume conditions: ?conditions
  then have "refusal_reason (pe_verify_raw env) opts (cl_epoch_unix (pr_ledger p)) now command = None" by (simp add: refusal_reason_none)
  with conditions show "?call = Some (c, dry_run)" by (simp add: handle_executes)
qed

section \<open>The ledger under the processor\<close>

abbreviation ledger_ops :: "command_ledger \<Rightarrow> command_ledger \<Rightarrow> bool" where
  "ledger_ops \<equiv> (ledger_op (\<lambda>_. True))\<^sup>*\<^sup>*"

lemmas ledger_op_intros [intro] = ledger_op.intros [where P = "\<lambda>_. True", OF TrueI]

lemma refuse_ops:
  assumes "ec_expires_unix command < 10 ^ 19"
  shows "ledger_ops l (snd (refuse io_received io_done command reason detail l))"
proof -
  define l1 where "l1 = snd (mark_received io_received (ec_command_id command) (ec_correlation_id command) (max (ec_expires_unix command) 1) l)"
  have "ledger_op (\<lambda>_. True) l l1" unfolding l1_def using assms by (intro ledger_op_intros) simp
  moreover have "snd (refuse io_received io_done command reason detail l) = l1 \<or>
      (\<exists>out r d. snd (refuse io_received io_done command reason detail l) = snd (mark_done io_done (ec_command_id command) out r d l1))"
    by (auto simp: refuse_def Let_def l1_def split: prod.split)
  ultimately show ?thesis by (metis ledger_op_intros(2) r_into_rtranclp rtranclp.rtrancl_into_rtrancl)
qed

lemma carry_out_ops: "ledger_ops (pr_ledger p) (pr_ledger (fst (snd (carry_out env opts io now command p))))"
  by (auto simp: carry_out_def Let_def)

lemma resume_ops: "ledger_ops (pr_ledger p) (pr_ledger (snd (processor_resume io i c command p)))"
  by (auto simp: processor_resume_def Let_def split: option.split)

lemma unreadable_ops:
  assumes "now + 86400 < 10 ^ 19"
  shows "ledger_ops (pr_ledger p) (pr_ledger (snd (processor_unreadable io_received io_done now failure p)))"
proof -
  define l1 where "l1 = snd (mark_received io_received (cu_command_id failure) (cu_correlation_id failure) (now + 86400) (pr_ledger p))"
  have "ledger_op (\<lambda>_. True) (pr_ledger p) l1" unfolding l1_def using assms by (intro ledger_op_intros)
  moreover have "pr_ledger (snd (processor_unreadable io_received io_done now failure p)) \<in> {pr_ledger p, l1} \<or>
      (\<exists>i out r d. pr_ledger (snd (processor_unreadable io_received io_done now failure p)) = snd (mark_done io_done i out r d l1))"
    by (auto simp: processor_unreadable_def Let_def l1_def split: prod.split)
  ultimately show ?thesis by (metis insertE singletonD ledger_op_intros(2) r_into_rtranclp rtranclp.rtrancl_into_rtrancl rtranclp.rtrancl_refl)
qed

lemma handle_ops:
  assumes "ec_expires_unix command < 10 ^ 19"
  shows "ledger_ops (pr_ledger p) (pr_ledger (fst (snd (processor_handle env opts io_received io_done now command p))))"
proof -
  obtain out p' call where handle: "processor_handle env opts io_received io_done now command p = (out, p', call)" by (rule prod_cases3)
  from handle have "ledger_ops (pr_ledger p) (pr_ledger p')"
  proof (cases rule: handle_cases)
    case refused
    then show ?thesis using refuse_ops [OF assms] ledger_op_intros(1) [OF assms] by (metis r_into_rtranclp snd_conv)
  next
    case (carried l p1)
    have "ledger_op (\<lambda>_. True) (pr_ledger p) l" using ledger_op_intros(1) [OF assms] carried(3) by (metis snd_conv)
    moreover have "ledger_ops l (pr_ledger p')" using carry_out_ops [of p1 env opts io_done now command] carried(4,5) by simp
    ultimately show ?thesis by (rule converse_rtranclp_into_rtranclp)
  qed
  with handle show ?thesis by simp
qed

end
