(* ===== verification/Command_Runs.thy ===== *)
theory Command_Runs
  imports Processor_Properties
begin

text \<open>
  The processor over whole histories: commands, answers and reports in any order, crashes that lose
  what was not synced, restarts that find the ledger, fail, or set a corrupt one aside.
\<close>

section \<open>The start of a ledger\<close>

text \<open>The file begins, durably, with the record of a start at \<open>t\<close> or later.\<close>

definition start_line :: "int \<Rightarrow> bytes" where
  "start_line epoch = tabbed [ascii ''E'', number_text epoch]"

definition stamped :: "int \<Rightarrow> ledger_disk \<Rightarrow> bool" where
  "stamped t d \<longleftrightarrow> (\<exists>epoch rest. t \<le> epoch \<and> 0 < epoch \<and> epoch < 10 ^ 19 \<and> ld_contents d = start_line epoch @ rest \<and> length (start_line epoch) \<le> ld_synced d)"

lemma whole_lines_after: "whole_lines (xs @ 0x0A # ys) = xs @ 0x0A # whole_lines ys"
  by (simp add: whole_lines_def dropWhile_append)

lemma recs_first:
  assumes "parts \<noteq> []" "list_all plain parts"
  shows "recs (tabbed parts @ rest) = parts # recs rest" "whole_lines (tabbed parts @ rest) \<noteq> []"
proof -
  obtain l where l: "tabbed parts = l @ [0x0A]" "0x0A \<notin> set l" "split_tabs l = parts" using tabbed_lines [OF assms] .
  then show "recs (tabbed parts @ rest) = parts # recs rest" "whole_lines (tabbed parts @ rest) \<noteq> []"
    by (simp_all add: recs_def lines_of_def whole_lines_after getlines_step)
qed

lemma load_recs_epoch: "load_recs False ps epoch es = Some (epoch', es') \<Longrightarrow> epoch' = epoch"
  by (induction ps arbitrary: es) (auto split: option.splits)

lemma load_start_line:
  assumes "load_recs True (recs (start_line epoch @ rest)) 0 [] = Some (epoch', es)" "0 < epoch" "epoch < 10 ^ 19"
  shows "epoch' = epoch"
proof -
  have "list_all plain [ascii ''E'', number_text epoch]" using assms(2) by (simp add: plain_fields)
  from recs_first(1) [OF _ this, of rest] assms have "load_recs False (recs rest) epoch [] = Some (epoch', es)"
    by (simp add: start_line_def parse_number_text)
  then show ?thesis by (rule load_recs_epoch)
qed

lemma open_epoch:
  assumes "ledger_open maximum now io disk = (Inr l, disk')"
    "load_recs True (recs (ld_contents (case disk of Some d \<Rightarrow> d | None \<Rightarrow> no_disk))) 0 [] = Some (epoch, es)"
  shows "cl_epoch_unix l = (if whole_lines (ld_contents (case disk of Some d \<Rightarrow> d | None \<Rightarrow> no_disk)) = [] then (if 0 < now then now else 1) else epoch)"
  using assms(1) unfolding ledger_open_def Let_def load_contents assms(2) by (auto split: if_splits)

lemma ledger_text_start: "0 < epoch \<Longrightarrow> \<exists>rest. ledger_text epoch es = start_line epoch @ rest"
  by (simp add: ledger_text_def start_line_def)

lemma fresh_stamped:
  assumes "ledger_open maximum now io None = (Inr l, disk')" "t \<le> now" "now < 10 ^ 19"
  shows "stamped t (cl_disk l) \<and> t \<le> cl_epoch_unix l \<and> 0 < cl_epoch_unix l"
proof -
  have "cl_disk l = \<lparr>ld_contents = ledger_text (if 0 < now then now else 1) [], ld_synced = length (ledger_text (if 0 < now then now else 1) [])\<rparr>"
    "cl_epoch_unix l = (if 0 < now then now else 1)"
    using assms(1) by (auto simp: ledger_open_def Let_def no_disk_def whole_lines_def split: if_splits)
  with ledger_text_start [of "if 0 < now then now else 1" "[]"] assms(2,3) show ?thesis
    by (auto simp: stamped_def intro!: exI [of _ "if 0 < now then now else 1"])
qed

lemma open_stamped:
  assumes "ledger_open maximum now io (Some d) = (Inr l, disk')" "now < 10 ^ 19" "stamped t d"
  shows "stamped t (cl_disk l) \<and> t \<le> cl_epoch_unix l \<and> 0 < cl_epoch_unix l"
proof -
  from assms(3) obtain epoch rest where start: "t \<le> epoch" "0 < epoch" "epoch < 10 ^ 19" "ld_contents d = start_line epoch @ rest"
    "length (start_line epoch) \<le> ld_synced d" by (auto simp: stamped_def)
  obtain ep es where open': "load_recs True (recs (ld_contents d)) 0 [] = Some (ep, es)" "ledger_ok l"
    "cl_disk l = d \<and> cl_entries l = es \<or> contents_of l = ledger_text (cl_epoch_unix l) (cl_entries l) \<and> ld_synced (cl_disk l) = length (contents_of l)"
    by (rule ledger_open_spec [OF assms(1,2), unfolded option.case])
  have "list_all plain [ascii ''E'', number_text epoch]" using start(2) by (simp add: plain_fields)
  from recs_first(2) [OF _ this, of rest] have "whole_lines (ld_contents d) \<noteq> []" by (simp add: start(4) start_line_def)
  moreover have "ep = epoch" using load_start_line [OF _ start(2,3)] open'(1) start(4) by simp
  ultimately have epoch: "cl_epoch_unix l = epoch" using open_epoch [OF assms(1)] open'(1) by simp
  show ?thesis using open'(3)
  proof
    assume "cl_disk l = d \<and> cl_entries l = es"
    with assms(3) epoch start show ?thesis by simp
  next
    assume "contents_of l = ledger_text (cl_epoch_unix l) (cl_entries l) \<and> ld_synced (cl_disk l) = length (contents_of l)"
    with ledger_text_start [OF start(2), of "cl_entries l"] epoch start show ?thesis by (fastforce simp: stamped_def contents_of_def)
  qed
qed

lemma stamped_take: "stamped t d \<Longrightarrow> ld_synced d \<le> n \<Longrightarrow> stamped t (d\<lparr>ld_contents := take n (ld_contents d)\<rparr>)"
  by (fastforce simp: stamped_def)

lemma op_effect_stamped:
  assumes "op_effect io l parts i e l'" "ledger_ok l" "stamped t (cl_disk l)"
  shows "stamped t (cl_disk l')"
proof -
  from assms(1) obtain res l1 where app: "ledger_append io (tabbed parts) l = (res, l1)" "l' = (if succeeded res then put_entry i e l1 else l1)"
    and p: "parts \<noteq> []" "list_all plain parts" by (auto simp: op_effect_def)
  have disk: "cl_disk l' = cl_disk l1" using app(2) by simp
  have more_contents: "stamped t (cl_disk l1)" if "contents_of l1 = contents_of l @ zs" "ld_synced (cl_disk l1) = ld_synced (cl_disk l) \<or> ld_synced (cl_disk l1) = length (contents_of l1)" for zs
    using assms(3) that by (fastforce simp: stamped_def contents_of_def)
  from app(1) assms(2) p show ?thesis unfolding disk by (cases rule: append_cases) (use assms(3) more_contents in auto)
qed

section \<open>Histories\<close>

text \<open>
  The processor is stopped, with the ledger file a crash or a clean stop left, or runs. \<open>w_ran\<close> are the
  calls of the executor with their times, \<open>w_changes\<close> the times of the changing ones of the running
  process, \<open>w_lost\<close> whether a corrupt ledger was ever set aside.
\<close>

datatype agent = Stopped "ledger_disk option" | Running command_processor

record world =
  w_now :: int
  w_agent :: agent
  w_lost :: bool
  w_ran :: "(endpoint_command \<times> int) list"
  w_changes :: "int list"

definition set_aside :: "nat \<Rightarrow> int \<Rightarrow> open_io \<Rightarrow> ledger_disk option \<Rightarrow> bool" where
  "set_aside maximum now io disk = (case ledger_open maximum now io disk of (Inl e, _) \<Rightarrow> code e = corrupt_data | _ \<Rightarrow> False)"

text \<open>
  A crash in the middle of a command is a \<open>handle\<close> whose last append fails, and then \<open>crash\<close>. The wall clock does not go back.
\<close>

inductive world_step :: "nat \<Rightarrow> command_policy \<Rightarrow> world \<Rightarrow> world \<Rightarrow> bool" for maximum policy where
  handle: "w_agent w = Running p \<Longrightarrow> w_now w \<le> now \<Longrightarrow> now < 2 ^ 62 \<Longrightarrow> ec_expires_unix command < 2 ^ 63 \<Longrightarrow> po_policy opts = policy \<Longrightarrow>
    processor_handle env opts io_received io_done now command p = (out, p', call) \<Longrightarrow>
    world_step maximum policy w
      (w\<lparr>w_now := now, w_agent := Running p',
         w_ran := (case call of None \<Rightarrow> w_ran w | Some (c, dry_run) \<Rightarrow> (c, now) # w_ran w),
         w_changes := (case call of None \<Rightarrow> w_changes w | Some (c, dry_run) \<Rightarrow>
            if command_action_changes_host (ec_action c) \<and> \<not> dry_run then w_changes w @ [now] else w_changes w)\<rparr>)"
| resume: "w_agent w = Running p \<Longrightarrow> processor_resume io i c command p = (out, p') \<Longrightarrow> world_step maximum policy w (w\<lparr>w_agent := Running p'\<rparr>)"
| unreadable: "w_agent w = Running p \<Longrightarrow> w_now w \<le> now \<Longrightarrow> now < 2 ^ 62 \<Longrightarrow> processor_unreadable io_received io_done now failure p = (out, p') \<Longrightarrow>
    world_step maximum policy w (w\<lparr>w_now := now, w_agent := Running p'\<rparr>)"
| report: "w_agent w = Running p \<Longrightarrow> mark_reported io i (pr_ledger p) = (res, l) \<Longrightarrow>
    world_step maximum policy w (w\<lparr>w_agent := Running (p\<lparr>pr_ledger := l\<rparr>)\<rparr>)"
| crash: "w_agent w = Running p \<Longrightarrow> d = cl_disk (pr_ledger p) \<Longrightarrow> ld_synced d \<le> n \<Longrightarrow>
    world_step maximum policy w (w\<lparr>w_agent := Stopped (Some (d\<lparr>ld_contents := take n (ld_contents d)\<rparr>))\<rparr>)"
| power_lost: "w_agent w = Stopped (Some d) \<Longrightarrow> ld_synced d \<le> n \<Longrightarrow>
    world_step maximum policy w (w\<lparr>w_agent := Stopped (Some (d\<lparr>ld_contents := take n (ld_contents d)\<rparr>))\<rparr>)"
| started: "w_agent w = Stopped disk \<Longrightarrow> w_now w \<le> now \<Longrightarrow> now < 2 ^ 62 \<Longrightarrow>
    ledger_open_or_recover maximum now io renamed io' disk = (Inr l, disk') \<Longrightarrow>
    world_step maximum policy w
      (w\<lparr>w_now := now, w_agent := Running \<lparr>pr_ledger = l, pr_change_times = []\<rparr>, w_lost := w_lost w \<or> set_aside maximum now io disk, w_changes := []\<rparr>)"
| not_started: "w_agent w = Stopped disk \<Longrightarrow> w_now w \<le> now \<Longrightarrow> now < 2 ^ 62 \<Longrightarrow>
    ledger_open_or_recover maximum now io renamed io' disk = (Inl e, disk') \<Longrightarrow>
    world_step maximum policy w (w\<lparr>w_now := now, w_agent := Stopped disk', w_lost := w_lost w \<or> set_aside maximum now io disk \<and> renamed\<rparr>)"

definition new_world :: "int \<Rightarrow> ledger_disk option \<Rightarrow> world" where
  "new_world now disk = \<lparr>w_now = now, w_agent = Stopped disk, w_lost = False, w_ran = [], w_changes = []\<rparr>"

section \<open>The invariant\<close>

fun held :: "bytes \<Rightarrow> int \<Rightarrow> agent \<Rightarrow> bool" where
  "held i e (Stopped None) \<longleftrightarrow> False"
| "held i e (Stopped (Some d)) \<longleftrightarrow> durable i e d"
| "held i e (Running p) \<longleftrightarrow> durable i e (cl_disk (pr_ledger p)) \<and> (\<exists>x. map_of (cl_entries (pr_ledger p)) i = Some x \<and> le_expires_unix x = e)"

fun began :: "int \<Rightarrow> agent \<Rightarrow> bool" where
  "began t (Stopped None) \<longleftrightarrow> True"
| "began t (Stopped (Some d)) \<longleftrightarrow> stamped t d"
| "began t (Running p) \<longleftrightarrow> stamped t (cl_disk (pr_ledger p)) \<and> t \<le> cl_epoch_unix (pr_ledger p) \<and> 0 < cl_epoch_unix (pr_ledger p)"

fun agent_ok :: "agent \<Rightarrow> bool" where
  "agent_ok (Running p) \<longleftrightarrow> ledger_ok (pr_ledger p)"
| "agent_ok (Stopped _) \<longleftrightarrow> True"

text \<open>What the agent still knows of a command that ran at \<open>t\<close>: it has expired, its receipt is there, or the ledger began after it.\<close>

definition remembered :: "int \<Rightarrow> agent \<Rightarrow> bool \<Rightarrow> endpoint_command \<Rightarrow> int \<Rightarrow> bool" where
  "remembered now ag lost c t \<longleftrightarrow> ec_expires_unix c \<le> now \<or> held (ec_command_id c) (ec_expires_unix c) ag \<or> lost \<and> began t ag"

definition world_ok :: "command_policy \<Rightarrow> world \<Rightarrow> bool" where
  "world_ok policy w \<longleftrightarrow> agent_ok (w_agent w) \<and>
     (\<forall>(c, t) \<in> set (w_ran w). t \<le> w_now w \<and> ec_created_unix c \<le> t + cp_clock_skew_seconds policy \<and> remembered (w_now w) (w_agent w) (w_lost w) c t)"

lemma ledger_ops_keep:
  assumes "ledger_ops l l'" "ledger_ok l"
  shows "ledger_ok l' \<and> cl_epoch_unix l' = cl_epoch_unix l \<and> (\<forall>t. stamped t (cl_disk l) \<longrightarrow> stamped t (cl_disk l')) \<and>
    (\<forall>i e. durable i e (cl_disk l) \<and> (\<exists>x. map_of (cl_entries l) i = Some x \<and> le_expires_unix x = e) \<longrightarrow>
       durable i e (cl_disk l') \<and> (\<exists>x. map_of (cl_entries l') i = Some x \<and> le_expires_unix x = e))"
  using assms(1)
proof (induction rule: rtranclp_induct)
  case (step l1 l2)
  from ledger_op_effect [OF step(2)] step(3) consider "l2 = l1" | io parts i e where "op_effect io l1 parts i e l2" by blast
  then show ?case
  proof cases
    case (2 io parts j x)
    from step(3) have ok: "ledger_ok l1" by blast
    have "cl_epoch_unix l2 = cl_epoch_unix l1" using 2 append_keeps(2) by (force simp: op_effect_def split: if_splits)
    with step(3) op_effect_ok [OF 2 ok] op_effect_stamped [OF 2 ok] op_effect_durable [OF 2 ok] op_effect_entry [OF 2] show ?thesis
      by (metis option.distinct(1))
  qed (use step in simp)
qed (use assms(2) in simp)

lemma ops_agent:
  assumes "ledger_ops (pr_ledger p) (pr_ledger p')" "ledger_ok (pr_ledger p)"
  shows "agent_ok (Running p')" "held i e (Running p) \<Longrightarrow> held i e (Running p')" "began t (Running p) \<Longrightarrow> began t (Running p')"
  using ledger_ops_keep [OF assms] by auto

lemma remembered_mono:
  assumes "remembered now ag lost c t" "now \<le> now'" "lost \<longrightarrow> lost'"
    "\<And>i e. held i e ag \<Longrightarrow> held i e ag'" "began t ag \<Longrightarrow> began t ag'"
  shows "remembered now' ag' lost' c t"
  using assms by (auto simp: remembered_def)

lemma running_stopped:
  "held i e (Running p) \<Longrightarrow> held i e (Stopped (Some (cl_disk (pr_ledger p))))" "began t (Running p) \<Longrightarrow> began t (Stopped (Some (cl_disk (pr_ledger p))))"
  by auto

lemma stopped_take:
  assumes "ld_synced d \<le> n"
  shows "held i e (Stopped (Some d)) \<Longrightarrow> held i e (Stopped (Some (d\<lparr>ld_contents := take n (ld_contents d)\<rparr>)))"
    "began t (Stopped (Some d)) \<Longrightarrow> began t (Stopped (Some (d\<lparr>ld_contents := take n (ld_contents d)\<rparr>)))"
  using durable_take [OF _ assms] stamped_take [OF _ assms] by simp_all

lemma open_remembered:
  assumes "ledger_open maximum now io disk = (Inr l, disk')" "now < 10 ^ 19" "remembered now0 (Stopped disk) lost c t" "now0 \<le> now" "t \<le> now" "pr_ledger p = l"
  shows "remembered now (Running p) lost c t" "remembered now (Stopped disk') lost c t" "agent_ok (Running p)"
proof -
  have open': "ledger_ok l" "disk' = Some (cl_disk l)" using ledger_open_spec [OF assms(1,2)] by blast+
  show running: "remembered now (Running p) lost c t"
  proof (cases disk)
    case None
    with assms(3,4) fresh_stamped [OF assms(1) [unfolded None] assms(5,2)] assms(6) show ?thesis by (auto simp: remembered_def)
  next
    case (Some d)
    with assms(3,4) open_stamped [OF assms(1) [unfolded Some] assms(2)] open_durable [OF assms(1) [unfolded Some] assms(2)] assms(6)
    show ?thesis by (fastforce simp: remembered_def keep_after_expiry_def)
  qed
  then show "remembered now (Stopped disk') lost c t" using open'(2) assms(6) by (auto simp: remembered_def)
  show "agent_ok (Running p)" using open'(1) assms(6) by simp
qed

lemma open_any_remembered:
  assumes "ledger_open maximum now io disk = (Inl err, disk')" "now < 10 ^ 19" "remembered now0 (Stopped disk) lost c t" "now0 \<le> now" "t \<le> now"
  shows "remembered now (Stopped disk') lost c t"
  using open_failed_disk [OF assms(1)]
proof
  assume "disk' = disk"
  with remembered_mono [OF assms(3,4)] show ?thesis by simp
next
  assume "\<exists>l. ledger_open maximum now (io\<lparr>oi_open := True\<rparr>) disk = (Inr l, disk')"
  then obtain l where "ledger_open maximum now (io\<lparr>oi_open := True\<rparr>) disk = (Inr l, disk')" ..
  from open_remembered(2) [OF this assms(2-5), of "\<lparr>pr_ledger = l, pr_change_times = []\<rparr>"] show ?thesis by simp
qed

text \<open>A start: the ledger opened, or was corrupt and left in place, or was set aside and begun anew.\<close>

lemma recover_cases:
  assumes "ledger_open_or_recover maximum now io renamed io' disk = (res, disk')"
  obtains (opened) "\<not> set_aside maximum now io disk" "ledger_open maximum now io disk = (res, disk')"
  | (left) e where "set_aside maximum now io disk" "\<not> renamed" "res = Inl e" "disk' = disk"
  | (anew) l where "set_aside maximum now io disk" "renamed" "ledger_open maximum now io' None = (Inr l, disk')" "res = Inr (l\<lparr>cl_recovered := True\<rparr>)"
  | (failed) e where "set_aside maximum now io disk" "renamed" "ledger_open maximum now io' None = (Inl e, disk')" "res = Inl e"
proof -
  have "disk'' = disk" if "ledger_open maximum now io disk = (Inl e, disk'')" "code e = corrupt_data" for e disk''
    using that unfolding ledger_open_def Let_def by (auto split: if_splits option.splits)
  then show thesis using assms opened left anew failed
    unfolding ledger_open_or_recover_def set_aside_def by (auto split: prod.splits sum.splits if_splits)
qed

lemma began_none: "remembered now (Stopped None) True c t"
  by (simp add: remembered_def)

lemma started_remembered:
  assumes "ledger_open_or_recover maximum now io renamed io' disk = (Inr l, disk')" "now < 10 ^ 19" "remembered now0 (Stopped disk) lost c t"
    "now0 \<le> now" "t \<le> now"
  shows "remembered now (Running \<lparr>pr_ledger = l, pr_change_times = []\<rparr>) (lost \<or> set_aside maximum now io disk) c t"
  using assms(1)
proof (cases rule: recover_cases)
  case opened
  with open_remembered(1) [OF opened(2) assms(2-5)] show ?thesis by simp
next
  case (anew l0)
  from open_remembered(1) [OF anew(3) assms(2) began_none order_refl assms(5), of "\<lparr>pr_ledger = l0, pr_change_times = []\<rparr>"] anew(1,4)
  show ?thesis by (simp add: remembered_def)
qed simp_all

lemma not_started_remembered:
  assumes "ledger_open_or_recover maximum now io renamed io' disk = (Inl e, disk')" "now < 10 ^ 19" "remembered now0 (Stopped disk) lost c t"
    "now0 \<le> now" "t \<le> now"
  shows "remembered now (Stopped disk') (lost \<or> set_aside maximum now io disk \<and> renamed) c t"
  using assms(1)
proof (cases rule: recover_cases)
  case opened
  with open_any_remembered [OF opened(2) assms(2-5)] show ?thesis by simp
next
  case left
  with remembered_mono [OF assms(3,4)] show ?thesis by simp
next
  case failed
  with open_any_remembered [OF failed(3) assms(2) began_none order_refl assms(5)] show ?thesis by simp
qed simp

lemma started_ok:
  assumes "ledger_open_or_recover maximum now io renamed io' disk = (Inr l, disk')" "now < 10 ^ 19"
  shows "ledger_ok l"
  using assms(1)
proof (cases rule: recover_cases)
  case opened
  with ledger_open_spec [OF opened(2) assms(2)] show ?thesis by blast
next
  case (anew l0)
  have "ledger_ok l0" using ledger_open_spec [OF anew(3) assms(2)] by blast
  with anew(4) show ?thesis by (auto simp: ledger_ok_def contents_of_def)
qed simp_all

section \<open>At most once\<close>

lemma handle_call:
  assumes "processor_handle env opts io_received io_done now command p = (out, p', Some (c, dry_run))" "ledger_ok (pr_ledger p)" "ec_expires_unix command < 10 ^ 19"
  shows "c = command" "ec_created_unix c \<le> now + cp_clock_skew_seconds (po_policy opts)" "now < ec_expires_unix c"
    "map_of (cl_entries (pr_ledger p)) (ec_command_id c) = None" "after_epoch (cl_epoch_unix (pr_ledger p)) c"
    "held (ec_command_id c) (ec_expires_unix c) (Running p')"
proof -
  let ?conclusion = "c = command \<and> ec_created_unix c \<le> now + cp_clock_skew_seconds (po_policy opts) \<and> now < ec_expires_unix c \<and>
    map_of (cl_entries (pr_ledger p)) (ec_command_id c) = None \<and> after_epoch (cl_epoch_unix (pr_ledger p)) c \<and>
    held (ec_command_id c) (ec_expires_unix c) (Running p')"
  from assms(1) have ?conclusion
  proof (cases rule: handle_cases)
    case (carried l p1)
    have c: "c = command" using carry_out_call [of env opts io_done now command p1] carried(5) by (simp split: if_splits)
    have effect: "op_effect io_received (pr_ledger p) [ascii ''R'', ec_command_id command, ec_correlation_id command, number_text (ec_expires_unix command)]
        (ec_command_id command) (new_entry (ec_correlation_id command) (ec_expires_unix command)) l"
      using mark_received_effect [OF carried(3) _ assms(3)] by simp
    have entry: "map_of (cl_entries l) (ec_command_id command) = Some (new_entry (ec_correlation_id command) (ec_expires_unix command))"
      using carried(3) by (auto simp: mark_received_def map_of_update split: if_splits prod.splits sum.splits)
    from received_durable(1) [OF effect assms(2)] entry have held: "held (ec_command_id command) (ec_expires_unix command) (Running p1)"
      using carried(4) by (simp add: new_entry_def)
    have "held (ec_command_id command) (ec_expires_unix command) (Running p')"
      using ops_agent(2) [OF carry_out_ops _ held] op_effect_ok [OF effect assms(2)] carried(4,5) by (metis command_processor.select_convs(1) fst_conv snd_conv)
    moreover have "map_of (cl_entries (pr_ledger p)) (ec_command_id command) = None"
      using carried(3) by (auto simp: mark_received_def ledger_find_def split: if_splits)
    ultimately show ?thesis using carried(1) c by (simp add: refusal_reason_none in_window_def Let_def)
  qed simp
  then show "c = command" "ec_created_unix c \<le> now + cp_clock_skew_seconds (po_policy opts)" "now < ec_expires_unix c"
    "map_of (cl_entries (pr_ledger p)) (ec_command_id c) = None" "after_epoch (cl_epoch_unix (pr_ledger p)) c"
    "held (ec_command_id c) (ec_expires_unix c) (Running p')" by blast+
qed

lemma world_step_ok:
  assumes "world_step maximum policy w w'" "world_ok policy w"
  shows "world_ok policy w'"
  using assms(1)
proof cases
  case (handle p now command opts env io_received io_done out p' call)
  have ops: "ledger_ops (pr_ledger p) (pr_ledger p')" using handle_ops [of command p env opts io_received io_done now] handle(5,7) by simp
  have ok: "ledger_ok (pr_ledger p)" using assms(2) handle(2) by (simp add: world_ok_def)
  have old: "remembered now (Running p') (w_lost w) c t \<and> t \<le> now \<and> ec_created_unix c \<le> t + cp_clock_skew_seconds policy" if "(c, t) \<in> set (w_ran w)" for c t
    using assms(2) that handle(2,3) remembered_mono [OF _ handle(3) _ ops_agent(2,3) [OF ops ok]] by (fastforce simp: world_ok_def)
  have new: "remembered now (Running p') (w_lost w) c now \<and> ec_created_unix c \<le> now + cp_clock_skew_seconds policy" if "call = Some (c, dry_run)" for c dry_run
    using handle_call [OF handle(7) [unfolded that] ok] handle(5,6) by (simp add: remembered_def)
  from ops_agent(1) [OF ops ok] old new show ?thesis
    unfolding handle(1) world_ok_def by (cases call) auto
next
  case (resume p io i c command out p')
  have ops: "ledger_ops (pr_ledger p) (pr_ledger p')" using resume_ops [of p io i c command] resume(3) by simp
  have ok: "ledger_ok (pr_ledger p)" using assms(2) resume(2) by (simp add: world_ok_def)
  from ops_agent(1) [OF ops ok] assms(2) resume(2) remembered_mono [OF _ order_refl _ ops_agent(2,3) [OF ops ok]] show ?thesis
    unfolding resume(1) world_ok_def by fastforce
next
  case (unreadable p now io_received io_done failure out p')
  have ops: "ledger_ops (pr_ledger p) (pr_ledger p')" using unreadable_ops [of now p io_received io_done failure] unreadable(4,5) by simp
  have ok: "ledger_ok (pr_ledger p)" using assms(2) unreadable(2) by (simp add: world_ok_def)
  from ops_agent(1) [OF ops ok] assms(2) unreadable(2,3) remembered_mono [OF _ unreadable(3) _ ops_agent(2,3) [OF ops ok]] show ?thesis
    unfolding unreadable(1) world_ok_def by fastforce
next
  case (report p io i res l)
  let ?p = "p\<lparr>pr_ledger := l\<rparr>"
  have ops: "ledger_ops (pr_ledger p) (pr_ledger ?p)" using ledger_op_intros(3) [of "pr_ledger p" io i] report(3) by auto
  have ok: "ledger_ok (pr_ledger p)" using assms(2) report(2) by (simp add: world_ok_def)
  from ops_agent(1) [OF ops ok] assms(2) report(2) remembered_mono [OF _ order_refl _ ops_agent(2,3) [OF ops ok]] show ?thesis
    unfolding report(1) world_ok_def by fastforce
next
  case (crash p d n)
  have "remembered now (Stopped (Some (d\<lparr>ld_contents := take n (ld_contents d)\<rparr>))) lost c t" if "remembered now (Running p) lost c t" for now lost c t
    using remembered_mono [OF that order_refl, of lost "Stopped (Some (d\<lparr>ld_contents := take n (ld_contents d)\<rparr>))"]
      stopped_take [OF crash(4)] running_stopped [where p = p] crash(3) by auto
  with assms(2) crash(2) show ?thesis unfolding crash(1) world_ok_def by fastforce
next
  case (power_lost d n)
  from assms(2) power_lost(2) remembered_mono [OF _ order_refl _ stopped_take [OF power_lost(3)]] show ?thesis
    unfolding power_lost(1) world_ok_def by fastforce
next
  case (started disk now io renamed io' l disk')
  from started(4) have now: "now < 10 ^ 19" by simp
  from assms(2) started(2,3) started_remembered [OF started(5) now _ started(3)] started_ok [OF started(5) now] show ?thesis
    unfolding started(1) world_ok_def by fastforce
next
  case (not_started disk now io renamed io' e disk')
  from not_started(4) have now: "now < 10 ^ 19" by simp
  from assms(2) not_started(2,3) not_started_remembered [OF not_started(5) now _ not_started(3)] show ?thesis
    unfolding not_started(1) world_ok_def by fastforce
qed

lemma world_steps_ok: "(world_step maximum policy)\<^sup>*\<^sup>* (new_world start disk) w \<Longrightarrow> world_ok policy w"
proof (induction rule: rtranclp_induct)
  case base
  show ?case by (simp add: new_world_def world_ok_def)
qed (rule world_step_ok)

text \<open>
  C1. A command runs at most once while it is valid, whatever crashes, power losses, failed appends and restarts lie between:
  if a command with the same id ran before, at \<open>t\<close>, and has not expired, the executor is not called again.
  Where a corrupt ledger was set aside in between, this holds for the commands created before \<open>t\<close>.
\<close>

theorem executed_at_most_once:
  assumes "(world_step maximum policy)\<^sup>*\<^sup>* (new_world start disk) w" "w_agent w = Running p" "w_now w \<le> now" "ec_expires_unix command < 2 ^ 63"
    "(c, t) \<in> set (w_ran w)" "ec_command_id c = ec_command_id command" "now < ec_expires_unix c"
    "w_lost w \<longrightarrow> 0 < ec_created_unix command \<and> ec_created_unix command < t"
  shows "snd (snd (processor_handle env opts io_received io_done now command p)) = None"
proof (rule ccontr)
  obtain out p' call where handle: "processor_handle env opts io_received io_done now command p = (out, p', call)" by (rule prod_cases3)
  assume "snd (snd (processor_handle env opts io_received io_done now command p)) \<noteq> None"
  with handle obtain c2 dry_run where "call = Some (c2, dry_run)" by auto
  note handle = handle [unfolded this]
  from world_steps_ok [OF assms(1)] have ok: "world_ok policy w" .
  then have p: "ledger_ok (pr_ledger p)" using assms(2) by (simp add: world_ok_def)
  from ok assms(2,5) have ran: "remembered (w_now w) (Running p) (w_lost w) c t" by (fastforce simp: world_ok_def)
  note call = handle_call [OF handle p]
  have "\<not> held (ec_command_id c) (ec_expires_unix c) (Running p)" using call(1,4) assms(4,6) by simp
  with ran assms(3,7) have "w_lost w" "began t (Running p)" by (auto simp: remembered_def)
  with call(1,5) assms(4,8) show False by (auto simp: after_epoch_def)
qed

section \<open>Changes per minute\<close>

definition in_minute :: "int \<Rightarrow> int list \<Rightarrow> int list" where
  "in_minute until ts = filter (\<lambda>t. until - 60 < t \<and> t \<le> until) ts"

lemma sorted_dropWhile: "sorted ts \<Longrightarrow> dropWhile (\<lambda>t. t \<le> k) ts = filter (\<lambda>t. k < t) ts" for k :: int
proof (induction ts)
  case (Cons t ts)
  then have "filter (\<lambda>t. k < t) ts = ts" if "k < t" using that by (intro filter_True) auto
  with Cons show ?case by auto
qed simp

text \<open>The changes of a running process: those the processor remembers are all that lie in the last minute.\<close>

definition rate_ok :: "nat \<Rightarrow> int \<Rightarrow> int list \<Rightarrow> int list \<Rightarrow> bool" where
  "rate_ok limit now changes known \<longleftrightarrow> sorted changes \<and> (\<forall>t \<in> set changes. t \<le> now) \<and>
     (\<exists>old. changes = old @ known \<and> (\<forall>t \<in> set old. t \<le> now - 60)) \<and> (\<forall>until. length (in_minute until changes) \<le> limit)"

lemma rate_later: "rate_ok limit now changes known \<Longrightarrow> now \<le> now' \<Longrightarrow> rate_ok limit now' changes known"
  unfolding rate_ok_def by fastforce

lemma rate_recent:
  assumes "rate_ok limit now changes known"
  shows "rate_ok limit now changes (recent now known)" "recent now known = filter (\<lambda>t. now - 60 < t) changes"
proof -
  from assms obtain old where old: "changes = old @ known" "\<forall>t \<in> set old. t \<le> now - 60" "sorted changes" by (auto simp: rate_ok_def)
  have "changes = (old @ takeWhile (\<lambda>t. t \<le> now - 60) known) @ recent now known" using old(1) by (simp add: recent_def)
  moreover have "\<forall>t \<in> set (old @ takeWhile (\<lambda>t. t \<le> now - 60) known). t \<le> now - 60" using old(2) by (auto dest: set_takeWhileD)
  ultimately show "rate_ok limit now changes (recent now known)" using assms unfolding rate_ok_def by blast
  have "filter (\<lambda>t. now - 60 < t) old = []" using old(2) by (auto simp: filter_empty_conv)
  then show "recent now known = filter (\<lambda>t. now - 60 < t) changes"
    using old(1,3) sorted_dropWhile [of known "now - 60"] by (simp add: recent_def sorted_append)
qed

lemma rate_change:
  assumes "rate_ok limit now changes known" "length (recent now known) < limit"
  shows "rate_ok limit now (changes @ [now]) (recent now known @ [now])"
proof -
  have "length (in_minute until (changes @ [now])) \<le> limit" for until
  proof (cases "until < now")
    case True
    with assms(1) show ?thesis by (simp add: rate_ok_def in_minute_def)
  next
    case False
    then have "in_minute until changes = in_minute until (filter (\<lambda>t. now - 60 < t) changes)"
      by (auto simp: in_minute_def intro: filter_cong)
    then have "length (in_minute until changes) \<le> length (filter (\<lambda>t. now - 60 < t) changes)"
      by (metis in_minute_def length_filter_le)
    with assms(2) rate_recent(2) [OF assms(1)] show ?thesis by (simp add: in_minute_def)
  qed
  with rate_recent(1) [OF assms(1)] show ?thesis by (auto simp: rate_ok_def sorted_append)
qed

fun agent_rate :: "nat \<Rightarrow> int \<Rightarrow> int list \<Rightarrow> agent \<Rightarrow> bool" where
  "agent_rate limit now changes (Running p) \<longleftrightarrow> rate_ok limit now changes (pr_change_times p)"
| "agent_rate limit now changes (Stopped _) \<longleftrightarrow> (\<forall>until. length (in_minute until changes) \<le> limit)"

lemma handle_rate:
  assumes "processor_handle env opts io_received io_done now command p = (out, p', call)"
    "rate_ok (cp_maximum_changes_per_minute (po_policy opts)) now changes (pr_change_times p)"
  shows "rate_ok (cp_maximum_changes_per_minute (po_policy opts)) now
    (case call of None \<Rightarrow> changes | Some (c, dry_run) \<Rightarrow> if command_action_changes_host (ec_action c) \<and> \<not> dry_run then changes @ [now] else changes)
    (pr_change_times p')"
  using assms(1)
proof (cases rule: handle_cases)
  case refused
  with assms(2) rate_recent(1) [OF assms(2)] show ?thesis by auto
next
  case (carried l p1)
  have change: "command_action_changes_host (ec_action command) \<and> cp_mode (po_policy opts) = Enforce \<longleftrightarrow> makes_change (po_policy opts) command"
    by (simp add: makes_change_def)
  have call: "call = (if consented env opts command then Some (command, command_action_changes_host (ec_action command) \<and> cp_mode (po_policy opts) \<noteq> Enforce) else None)"
    "pr_change_times p' = (if consented env opts command \<and> makes_change (po_policy opts) command then pr_change_times p1 @ [now] else pr_change_times p1)"
    using carry_out_call [of env opts io_done now command p1] carry_out_times [of env opts io_done now command p1] carried(5) by simp_all
  show ?thesis
  proof (cases "makes_change (po_policy opts) command")
    case True
    then show ?thesis using rate_change [OF assms(2) carried(2)] rate_recent(1) [OF assms(2)] call carried(4) change by auto
  next
    case False
    then show ?thesis using assms(2) call carried(4) change by auto
  qed
qed

lemma resume_times: "processor_resume io i c command p = (out, p') \<Longrightarrow> pr_change_times p' = pr_change_times p"
  by (auto simp: processor_resume_def Let_def split: option.splits if_splits)

lemma unreadable_times: "processor_unreadable io_received io_done now failure p = (out, p') \<Longrightarrow> pr_change_times p' = pr_change_times p"
  by (auto simp: processor_unreadable_def Let_def)

lemma rate_windows: "rate_ok limit now changes known \<Longrightarrow> length (in_minute until changes) \<le> limit"
  by (simp add: rate_ok_def)

lemma world_step_rate:
  assumes "world_step maximum policy w w'" "agent_rate (cp_maximum_changes_per_minute policy) (w_now w) (w_changes w) (w_agent w)"
  shows "agent_rate (cp_maximum_changes_per_minute policy) (w_now w') (w_changes w') (w_agent w')"
  using assms(1)
proof cases
  case (handle p now command opts env io_received io_done out p' call)
  from assms(2) handle(2,3) have "rate_ok (cp_maximum_changes_per_minute policy) now (w_changes w) (pr_change_times p)" by (auto intro: rate_later)
  from handle_rate [OF handle(7), of "w_changes w"] this handle(6) show ?thesis unfolding handle(1) by simp
next
  case (resume p io i c command out p')
  with assms(2) resume_times [OF resume(3)] show ?thesis by simp
next
  case (unreadable p now io_received io_done failure out p')
  with assms(2) unreadable_times [OF unreadable(5)] show ?thesis by (auto intro: rate_later)
next
  case (crash p d n)
  with assms(2) show ?thesis by (simp add: rate_windows)
qed (use assms(2) in \<open>auto simp: rate_ok_def in_minute_def\<close>)

text \<open>
  C24. In no period of sixty seconds does a process make more changes of the host than the policy allows per minute.
\<close>

theorem changes_rate_limited:
  assumes "(world_step maximum policy)\<^sup>*\<^sup>* (new_world start disk) w"
  shows "length (in_minute until (w_changes w)) \<le> cp_maximum_changes_per_minute policy"
proof -
  from assms have "agent_rate (cp_maximum_changes_per_minute policy) (w_now w) (w_changes w) (w_agent w)"
  proof (induction rule: rtranclp_induct)
    case base
    show ?case by (simp add: new_world_def in_minute_def)
  qed (rule world_step_rate)
  then show ?thesis by (cases "w_agent w") (simp_all add: rate_windows)
qed

section \<open>A sample history\<close>

definition sample_policy :: command_policy where
  "sample_policy = \<lparr>cp_mode = Enforce, cp_allowed = [Kill_process], cp_maximum_lifetime_seconds = 900, cp_clock_skew_seconds = 30,
     cp_require_boot_binding = False, cp_require_signature = False, cp_maximum_changes_per_minute = 1\<rparr>"

definition sample_options :: command_processor_options where
  "sample_options = \<lparr>po_agent_id = ascii ''a'', po_host_id = ascii ''h'', po_boot_digest = [], po_keyring = None, po_policy = sample_policy,
     po_require_collection_acceptance = False\<rparr>"

definition sample_env :: processor_env where
  "sample_env = \<lparr>pe_verify_raw = (\<lambda>_ _ _. Inr True), pe_execute = (\<lambda>_ _. \<lparr>er_outcome = ascii ''succeeded'', er_reason = ascii ''ok'', er_detail = [],
     er_mode = [], er_affected = 1, er_artifact_json = [], er_artifact_kind = []\<rparr>), pe_collection_authorized = (\<lambda>_. True), pe_collected = None\<rparr>"

definition sample_order :: endpoint_command where
  "sample_order = sample_command\<lparr>ec_created_unix := 1000, ec_expires_unix := 1200\<rparr>"

definition sample_processor :: command_processor where
  "sample_processor = \<lparr>pr_ledger = sample_ledger, pr_change_times = []\<rparr>"

definition sample_world :: world where
  "sample_world = \<lparr>w_now = 1000, w_agent = Running sample_processor, w_lost = False, w_ran = [], w_changes = []\<rparr>"

definition sample_handled :: "command_outcome \<times> command_processor \<times> (endpoint_command \<times> bool) option" where
  "sample_handled = processor_handle sample_env sample_options Append_ok Append_ok 1010 sample_order sample_processor"

definition sample_after :: world where
  "sample_after = \<lparr>w_now = 1010, w_agent = Running (fst (snd sample_handled)), w_lost = False, w_ran = [(sample_order, 1010)], w_changes = [1010]\<rparr>"

lemma sample_call: "snd (snd sample_handled) = Some (sample_order, False)"
proof -
  have "refusal_reason (pe_verify_raw sample_env) sample_options (cl_epoch_unix (pr_ledger sample_processor)) 1010 sample_order = None"
    by (simp add: refusal_reason_none sample_order_def sample_command_def sample_options_def sample_policy_def signed_for_def boot_bound_def
        in_window_def after_epoch_def sample_processor_def sample_ledger_def)
  moreover have "fst (mark_received Append_ok (ec_command_id sample_order) (ec_correlation_id sample_order) (ec_expires_unix sample_order)
      (pr_ledger sample_processor)) = Inr True"
    by (simp add: sample_order_def sample_command_def sample_processor_def sample_ledger_def mark_received_def command_id_ok_def
        maximum_command_id_bytes_def is_valid_identifier_def alnum_def ascii_def ledger_find_def ledger_append_def)
  ultimately show ?thesis unfolding sample_handled_def
    by (subst handle_executes)
      (simp_all add: sample_options_def sample_policy_def sample_order_def sample_command_def recent_def sample_processor_def consented_def
        makes_change_def command_action_changes_host_def)
qed

lemma sample_started: "(world_step 4 sample_policy)\<^sup>*\<^sup>* (new_world 1000 None) sample_world"
proof -
  have "ledger_open_or_recover 4 1000 all_well True all_well None = (Inr sample_ledger, Some (cl_disk sample_ledger))"
    by (simp add: ledger_open_or_recover_def sample_ledger_opens)
  from world_step.started [OF _ _ _ this, of "new_world 1000 None" sample_policy]
  show ?thesis by (simp add: new_world_def sample_world_def sample_processor_def set_aside_def sample_ledger_opens r_into_rtranclp)
qed

lemma sample_reachable: "(world_step 4 sample_policy)\<^sup>*\<^sup>* (new_world 1000 None) sample_after"
proof -
  have "processor_handle sample_env sample_options Append_ok Append_ok 1010 sample_order sample_processor =
      (fst sample_handled, fst (snd sample_handled), Some (sample_order, False))"
    using sample_call by (simp add: sample_handled_def [symmetric] prod_eq_iff)
  from world_step.handle [OF _ _ _ _ _ this, of sample_world sample_policy 4]
  have "world_step 4 sample_policy sample_world sample_after"
    by (simp add: sample_world_def sample_after_def sample_order_def sample_command_def sample_options_def command_action_changes_host_def)
  with sample_started show ?thesis by (rule rtranclp.rtrancl_into_rtrancl)
qed

theorem executed_at_most_once_witness:
  "snd (snd (processor_handle sample_env sample_options Append_ok Append_ok 1020 sample_order (fst (snd sample_handled)))) = None"
  by (rule executed_at_most_once [OF sample_reachable, of _ _ _ sample_order 1010]) (simp_all add: sample_after_def sample_order_def sample_command_def)

theorem changes_rate_limited_witness: "length (in_minute 1030 (w_changes sample_after)) = 1 \<and> cp_maximum_changes_per_minute sample_policy = 1"
  using changes_rate_limited [OF sample_reachable, of 1030] by (simp add: sample_after_def in_minute_def sample_policy_def)

end
