(* ===== verification/Message_Properties.thy ===== *)
theory Message_Properties
  imports Command_Message Command_Runs Json_Properties
begin

text \<open>
  What the reader of commands guarantees: times agree with the calendar, the accepted texts are exactly
  the documented ones, every accepted command is well-formed, and no reply makes it
  dereference a null pointer.
\<close>

section \<open>The calendar\<close>

definition year_days :: "int \<Rightarrow> int" where
  "year_days y = (if leap_year y then 366 else 365)"

definition days_in_month :: "int \<Rightarrow> int \<Rightarrow> int" where
  "days_in_month y m = month_days ! nat (m - 1) + (if m = 2 \<and> leap_year y then 1 else 0)"

text \<open>Days since 1970-01-01, counted year by year and month by month.\<close>

definition calendar_days :: "int \<Rightarrow> int \<Rightarrow> int \<Rightarrow> int" where
  "calendar_days y m d = sum_list (map year_days [1970..y - 1]) + sum_list (take (nat (m - 1)) (map (days_in_month y) [1, 2, 3, 4, 5, 6, 7, 8, 9, 10, 11, 12])) + (d - 1)"

definition date_ok :: "int \<Rightarrow> int \<Rightarrow> int \<Rightarrow> bool" where
  "date_ok y m d \<longleftrightarrow> 1970 \<le> y \<and> 1 \<le> m \<and> m \<le> 12 \<and> 1 \<le> d \<and> d \<le> days_in_month y m"

lemma div_pred:
  fixes y k :: int
  assumes "1 < k"
  shows "y div k = (y - 1) div k + (if y mod k = 0 then 1 else 0)"
proof (cases "y mod k = 0")
  case True
  then have "y - 1 = k * (y div k - 1) + (k - 1)" using minus_mod_eq_mult_div [of y k] by (simp add: algebra_simps)
  from int_div_pos_eq [OF this] assms True show ?thesis by simp
next
  case False
  have "y - 1 = k * (y div k) + (y mod k - 1)" using minus_mod_eq_mult_div [of y k] by simp
  moreover have "0 \<le> y mod k - 1" "y mod k - 1 < k" using assms False pos_mod_bound [of k y] pos_mod_sign [of k y] by linarith+
  ultimately show ?thesis using int_div_pos_eq [of "y - 1" k "y div k" "y mod k - 1"] False by simp
qed

lemma leap_sum:
  assumes "c \<Longrightarrow> b" "b \<Longrightarrow> a"
  shows "(if a \<and> \<not> b \<or> c then 366 else 365) = (365 + (if a then 1 else 0) - (if b then 1 else 0) + (if c then 1 else 0) :: int)"
  using assms by auto

lemma year_days_step: "year_days y = 365 + (y div 4 - (y - 1) div 4) - (y div 100 - (y - 1) div 100) + (y div 400 - (y - 1) div 400)"
proof -
  have steps: "y div k - (y - 1) div k = (if y mod k = 0 then 1 else 0)" if "1 < k" for k using div_pred [OF that, of y] by simp
  have "y div 4 - (y - 1) div 4 = (if y mod 4 = 0 then 1 else 0)" "y div 100 - (y - 1) div 100 = (if y mod 100 = 0 then 1 else 0)"
    "y div 400 - (y - 1) div 400 = (if y mod 400 = 0 then 1 else 0)" by (rule steps; simp)+
  moreover have "y mod 100 = 0" if "y mod 400 = 0"
    using that mod_mod_cancel [of 100 400 y] by simp
  moreover have "y mod 4 = 0" if "y mod 100 = 0"
    using that mod_mod_cancel [of 4 100 y] by simp
  ultimately show ?thesis unfolding year_days_def leap_year_def by (simp only: leap_sum)
qed

lemma years_before: "1970 \<le> y \<Longrightarrow>
  sum_list (map year_days [1970..y - 1]) = 365 * y + (y - 1) div 4 - (y - 1) div 100 + (y - 1) div 400 - 719527"
proof (induction y rule: int_ge_induct)
  case (step y)
  have "[1970..y] = [1970..y - 1] @ [y]" using step(1) upto_rec2 [of 1970 y] by simp
  with step(2) year_days_step [of y] show ?case by simp
qed simp

lemma era_closed:
  fixes y :: int
  shows "(y div 400) * 146097 + ((y - y div 400 * 400) * 365 + (y - y div 400 * 400) div 4 - (y - y div 400 * 400) div 100) =
    365 * y + y div 4 - y div 100 + y div 400"
proof -
  define q r where "q = y div 400" and "r = y mod 400"
  have y: "y = r + 400 * q" by (simp add: q_def r_def)
  have "(r + 400 * q) div 4 = 100 * q + r div 4" "(r + 400 * q) div 100 = 4 * q + r div 100"
    using div_mult_self2 [of 4 r "100 * q"] div_mult_self2 [of 100 r "4 * q"] by simp_all
  with y have "y div 4 = 100 * q + r div 4" "y div 100 = 4 * q + r div 100" by simp_all
  moreover have "y - q * 400 = r" by (simp add: y)
  ultimately show ?thesis unfolding q_def [symmetric] by (simp add: y)
qed

lemma months_before:
  assumes "1 \<le> m" "m \<le> 12"
  shows "sum_list (take (nat (m - 1)) (map (days_in_month y) [1, 2, 3, 4, 5, 6, 7, 8, 9, 10, 11, 12])) =
    (if m \<le> 2 then (153 * (m + 9) + 2) div 5 - 306 else (153 * (m - 3) + 2) div 5 + 59 + (if leap_year y then 1 else 0))"
proof -
  from assms have "m \<in> {1, 2, 3, 4, 5, 6, 7, 8, 9, 10, 11, 12}" unfolding insert_iff empty_iff by arith
  then show ?thesis by (elim insertE emptyE) (simp_all add: days_in_month_def month_days_def take_Cons')
qed

lemma days_from_civil_closed:
  assumes "0 \<le> y - (if m \<le> 2 then 1 else 0)"
  shows "days_from_civil y m d = (let Y = y - (if m \<le> 2 then 1 else 0) in
    365 * Y + Y div 4 - Y div 100 + Y div 400 + (153 * (m + (if 2 < m then - 3 else 9)) + 2) div 5 + d - 1 - 719468)"
proof -
  define Y where "Y = y - (if m \<le> 2 then 1 else 0)"
  from assms have "0 \<le> Y" by (simp only: Y_def)
  then show ?thesis unfolding days_from_civil_def Let_def Y_def [symmetric] using era_closed [of Y] by (simp only: if_True)
qed

lemma days_from_civil_calendar:
  assumes "1970 \<le> y" "1 \<le> m" "m \<le> 12"
  shows "days_from_civil y m d = calendar_days y m d"
proof (cases "m \<le> 2")
  case True
  have "days_from_civil y m d = 365 * (y - 1) + (y - 1) div 4 - (y - 1) div 100 + (y - 1) div 400 + (153 * (m + 9) + 2) div 5 + d - 1 - 719468"
    using True assms by (subst days_from_civil_closed) (simp_all add: Let_def)
  then show ?thesis unfolding calendar_days_def years_before [OF assms(1)] months_before [OF assms(2,3)] using True by simp
next
  case False
  have "y div 4 - (y - 1) div 4 - (y div 100 - (y - 1) div 100) + (y div 400 - (y - 1) div 400) = (if leap_year y then 1 else 0)"
    using year_days_step [of y] by (simp add: year_days_def split: if_splits)
  moreover have "days_from_civil y m d = 365 * y + y div 4 - y div 100 + y div 400 + (153 * (m - 3) + 2) div 5 + d - 1 - 719468"
    using False assms by (subst days_from_civil_closed) (simp_all add: Let_def)
  ultimately show ?thesis unfolding calendar_days_def years_before [OF assms(1)] months_before [OF assms(2,3)] using False by simp
qed

section \<open>Timestamps\<close>

definition two_digits :: "int \<Rightarrow> bytes" where
  "two_digits n = [word_of_int (48 + n div 10), word_of_int (48 + n mod 10)]"

definition four_digits :: "int \<Rightarrow> bytes" where
  "four_digits n = two_digits (n div 100) @ two_digits (n mod 100)"

definition fraction_ok :: "bytes \<Rightarrow> bool" where
  "fraction_ok f \<longleftrightarrow> f = [] \<or> (\<exists>ds. f = 0x2E # ds \<and> ds \<noteq> [] \<and> list_all decimal_byte ds)"

definition zone_ok :: "bytes \<Rightarrow> int \<Rightarrow> bool" where
  "zone_ok z offset \<longleftrightarrow>
     (z = [0x5A] \<or> z = [0x7A]) \<and> offset = 0 \<or>
     (\<exists>sign hours minutes. z = sign # two_digits hours @ [0x3A] @ two_digits minutes \<and> (sign = 0x2B \<or> sign = 0x2D) \<and>
        0 \<le> hours \<and> hours \<le> 23 \<and> 0 \<le> minutes \<and> minutes \<le> 59 \<and> offset = (hours * 3600 + minutes * 60) * (if sign = 0x2D then - 1 else 1))"

lemma uint_digit:
  assumes "0 \<le> k" "k \<le> 9"
  shows "uint (48 + word_of_int k :: byte) = 48 + k"
proof -
  have "uint (word_of_int (48 + k) :: byte) = take_bit LENGTH(8) (48 + k)" by (rule uint_word_of_int_eq)
  also have "\<dots> = 48 + k" using assms by (intro take_bit_int_eq_self) simp_all
  finally show ?thesis by simp
qed

lemma decimal_byte_value: "decimal_byte c \<longleftrightarrow> (\<exists>k. 0 \<le> k \<and> k \<le> 9 \<and> c = word_of_int (48 + k))"
proof
  assume "decimal_byte c"
  then have "48 \<le> uint c" "uint c \<le> 57" by (simp_all add: decimal_byte_def word_le_def)
  then show "\<exists>k. 0 \<le> k \<and> k \<le> 9 \<and> c = word_of_int (48 + k)" by (intro exI [of _ "uint c - 48"]) simp
next
  assume "\<exists>k. 0 \<le> k \<and> k \<le> 9 \<and> c = word_of_int (48 + k)"
  then obtain k where "0 \<le> k" "k \<le> 9" "c = word_of_int (48 + k)" by blast
  then show "decimal_byte c" by (simp add: decimal_byte_def word_le_def uint_digit)
qed

lemma digit_byte_value: "0 \<le> k \<Longrightarrow> k \<le> 9 \<Longrightarrow> int (unat (word_of_int (48 + k) :: byte)) = 48 + k"
  by (simp add: uint_digit)

lemma two_digits_read: "digits_loop [a, b] v = Some n \<longleftrightarrow> (\<exists>k. 0 \<le> k \<and> k \<le> 99 \<and> [a, b] = two_digits k \<and> n = v * 100 + k)"
proof
  assume read: "digits_loop [a, b] v = Some n"
  then obtain i j where ij: "0 \<le> i" "i \<le> 9" "a = word_of_int (48 + i)" "0 \<le> j" "j \<le> 9" "b = word_of_int (48 + j)"
    by (auto simp: decimal_byte_value split: if_splits)
  have "n = (v * 10 + i) * 10 + j" using read ij digit_byte_value [of i] digit_byte_value [of j] by (simp split: if_splits)
  then show "\<exists>k. 0 \<le> k \<and> k \<le> 99 \<and> [a, b] = two_digits k \<and> n = v * 100 + k"
    using ij by (intro exI [of _ "i * 10 + j"]) (simp add: two_digits_def)
next
  assume "\<exists>k. 0 \<le> k \<and> k \<le> 99 \<and> [a, b] = two_digits k \<and> n = v * 100 + k"
  then obtain k where k: "0 \<le> k" "k \<le> 99" "[a, b] = two_digits k" "n = v * 100 + k" by blast
  have bounds: "0 \<le> k div 10" "k div 10 \<le> 9" "0 \<le> k mod 10" "k mod 10 \<le> 9" using k(1,2) by simp_all
  from k(3) have ab: "a = word_of_int (48 + k div 10)" "b = word_of_int (48 + k mod 10)" by (simp_all add: two_digits_def)
  have "decimal_byte a" "decimal_byte b" unfolding decimal_byte_value ab using bounds by blast+
  moreover have "(v * 10 + k div 10) * 10 + k mod 10 = n" using k(4) div_mult_mod_eq [of k 10] by (simp add: algebra_simps)
  ultimately show "digits_loop [a, b] v = Some n"
    using digit_byte_value [OF bounds(1,2)] digit_byte_value [OF bounds(3,4)] by (simp add: ab)
qed

lemma four_digits_read: "digits_loop [a, b, c, d] 0 = Some n \<longleftrightarrow> 0 \<le> n \<and> n \<le> 9999 \<and> [a, b, c, d] = four_digits n"
proof -
  have split: "digits_loop [a, b, c, d] 0 = Some n \<longleftrightarrow> (\<exists>h. digits_loop [a, b] 0 = Some h \<and> digits_loop [c, d] h = Some n)" by auto
  show ?thesis
  proof
    assume "digits_loop [a, b, c, d] 0 = Some n"
    then obtain h k where "0 \<le> h" "h \<le> 99" "[a, b] = two_digits h" "0 \<le> k" "k \<le> 99" "[c, d] = two_digits k" "n = h * 100 + k"
      unfolding split two_digits_read by auto
    then show "0 \<le> n \<and> n \<le> 9999 \<and> [a, b, c, d] = four_digits n" by (simp add: four_digits_def two_digits_def)
  next
    assume n: "0 \<le> n \<and> n \<le> 9999 \<and> [a, b, c, d] = four_digits n"
    then have "[a, b] = two_digits (n div 100)" "[c, d] = two_digits (n mod 100)" by (simp_all add: four_digits_def two_digits_def)
    moreover have "0 \<le> n div 100" "n div 100 \<le> 99" "0 \<le> n mod 100" "n mod 100 \<le> 99" "n = n div 100 * 100 + n mod 100"
      using conjunct1 [OF n] conjunct1 [OF conjunct2 [OF n]] by simp_all
    ultimately show "digits_loop [a, b, c, d] 0 = Some n" unfolding split two_digits_read by (metis add_0 mult_zero_left)
  qed
qed

text \<open>The part after the seconds.\<close>

definition zone_at :: "bytes \<Rightarrow> int option" where
  "zone_at z = zone_offset z 0"

lemma zone_offset_append: "zone_offset (h @ z) (length h) = zone_at z"
  by (simp add: zone_offset_def zone_at_def nth_append text_digits_def)

lemma zone_at_exact: "zone_at z = Some offset \<longleftrightarrow> zone_ok z offset"
proof -
  consider "z = []" | c where "z = [c]" | s a b c d e where "z = [s, a, b, c, d, e]" | "length z \<noteq> 0" "length z \<noteq> 1" "length z \<noteq> 6"
    by (cases "length z = 6") (auto simp: numeral_eq_Suc length_Suc_conv)
  then show ?thesis
  proof cases
    case (3 s a b c d e)
    have "zone_ok z offset \<longleftrightarrow> (s = 0x2B \<or> s = 0x2D) \<and> c = 0x3A \<and> (\<exists>hours minutes. digits_loop [a, b] 0 = Some hours \<and> digits_loop [d, e] 0 = Some minutes \<and>
        hours \<le> 23 \<and> minutes \<le> 59 \<and> offset = (hours * 3600 + minutes * 60) * (if s = 0x2D then - 1 else 1))"
      unfolding two_digits_read zone_ok_def 3 by (auto simp: two_digits_def)
    then show ?thesis unfolding 3 zone_at_def zone_offset_def text_digits_def by (auto split: option.splits)
  qed (auto simp: zone_at_def zone_offset_def zone_ok_def two_digits_def)
qed

lemma zone_ok_head:
  assumes "zone_ok z offset"
  shows "z \<noteq> []" "\<not> decimal_byte (hd z)" "hd z \<noteq> 0x2E"
  using assms by (auto simp: zone_ok_def decimal_byte_def)

lemma tail_exact:
  assumes "length h = 19" "rest \<noteq> []"
  shows "(\<exists>cursor. zone_cursor (h @ rest) = Some cursor \<and> zone_offset (h @ rest) cursor = Some offset) \<longleftrightarrow>
    (\<exists>f z. rest = f @ z \<and> fraction_ok f \<and> zone_ok z offset)"
proof (cases "hd rest = 0x2E")
  case True
  obtain cs where rest: "rest = 0x2E # cs" using True assms(2) by (cases rest) simp_all
  define ds where "ds = takeWhile decimal_byte cs"
  define z where "z = dropWhile decimal_byte cs"
  have cs: "cs = ds @ z" by (simp add: ds_def z_def)
  have cursor: "zone_cursor (h @ rest) = (if ds = [] then None else Some (20 + length ds))"
    using assms(1) by (simp add: zone_cursor_def rest nth_append ds_def)
  have at: "zone_offset (h @ rest) (20 + length ds) = zone_at z" using zone_offset_append [of "h @ 0x2E # ds" z] assms(1) by (simp add: rest cs)
  have unique: "f = 0x2E # ds \<and> y = z \<and> ds \<noteq> []" if eq: "rest = f @ y" and f: "fraction_ok f" and y: "zone_ok y offset" for f y
  proof (cases "f = []")
    case True
    with eq zone_ok_head(3) [OF y] rest show ?thesis by (cases y) auto
  next
    case False
    with f obtain es where es: "f = 0x2E # es" "es \<noteq> []" "list_all decimal_byte es" by (auto simp: fraction_ok_def)
    with eq rest have "cs = es @ y" by simp
    with es(3) zone_ok_head [OF y] have "ds = es" "z = y" unfolding ds_def z_def
      by (cases y; simp add: takeWhile_append dropWhile_append list_all_iff)+
    with es show ?thesis by simp
  qed
  show ?thesis
  proof
    assume "\<exists>cursor. zone_cursor (h @ rest) = Some cursor \<and> zone_offset (h @ rest) cursor = Some offset"
    then have "ds \<noteq> []" "zone_ok z offset" using cursor at zone_at_exact by (auto split: if_splits)
    moreover have "list_all decimal_byte ds" by (auto simp: ds_def list_all_iff dest: set_takeWhileD)
    ultimately show "\<exists>f z. rest = f @ z \<and> fraction_ok f \<and> zone_ok z offset"
      by (intro exI [of _ "0x2E # ds"] exI [of _ z]) (simp add: rest cs fraction_ok_def)
  next
    assume "\<exists>f z. rest = f @ z \<and> fraction_ok f \<and> zone_ok z offset"
    then obtain f y where fy: "rest = f @ y" "fraction_ok f" "zone_ok y offset" by blast
    from unique [OF this] this(3) show "\<exists>cursor. zone_cursor (h @ rest) = Some cursor \<and> zone_offset (h @ rest) cursor = Some offset"
      using cursor at zone_at_exact by auto
  qed
next
  case False
  have cursor: "zone_cursor (h @ rest) = Some 19" using False assms by (simp add: zone_cursor_def nth_append hd_conv_nth)
  have "(\<exists>f z. rest = f @ z \<and> fraction_ok f \<and> zone_ok z offset) \<longleftrightarrow> zone_ok rest offset"
    using False by (auto simp: fraction_ok_def)
  with cursor zone_offset_append [of h rest] zone_at_exact [of rest offset] assms(1) show ?thesis by simp
qed

definition clock_text :: "int \<Rightarrow> int \<Rightarrow> int \<Rightarrow> byte \<Rightarrow> int \<Rightarrow> int \<Rightarrow> int \<Rightarrow> bytes" where
  "clock_text year month day sep hour minute second =
     four_digits year @ [0x2D] @ two_digits month @ [0x2D] @ two_digits day @ [sep] @ two_digits hour @ [0x3A] @ two_digits minute @ [0x3A] @ two_digits second"

lemma length_clock_text: "length (clock_text year month day sep hour minute second) = 19"
  by (simp add: clock_text_def four_digits_def two_digits_def)

lemma two_digits_read0: "digits_loop [a, b] 0 = Some n \<longleftrightarrow> 0 \<le> n \<and> n \<le> 99 \<and> [a, b] = two_digits n"
  unfolding two_digits_read by auto

lemma days_in_month_bound: "1 \<le> m \<Longrightarrow> m \<le> 12 \<Longrightarrow> days_in_month y m \<le> 31"
proof -
  assume "1 \<le> m" "m \<le> 12"
  then have "m \<in> {1, 2, 3, 4, 5, 6, 7, 8, 9, 10, 11, 12}" unfolding insert_iff empty_iff by arith
  then show ?thesis by (elim insertE emptyE) (simp_all add: days_in_month_def month_days_def)
qed

lemma clock_read:
  "(d1 = 0x2D \<and> d2 = 0x2D \<and> c1 = 0x3A \<and> c2 = 0x3A \<and> digits_loop [y1, y2, y3, y4] 0 = Some year \<and> digits_loop [m1, m2] 0 = Some month \<and>
     digits_loop [a1, a2] 0 = Some day \<and> digits_loop [h1, h2] 0 = Some hour \<and> digits_loop [n1, n2] 0 = Some minute \<and> digits_loop [s1, s2] 0 = Some second \<and>
     date_ok year month day \<and> hour \<le> 23 \<and> minute \<le> 59 \<and> second \<le> 59) \<longleftrightarrow>
   ([y1, y2, y3, y4, d1, m1, m2, d2, a1, a2, sep, h1, h2, c1, n1, n2, c2, s1, s2] = clock_text year month day sep hour minute second \<and>
     date_ok year month day \<and> year \<le> 9999 \<and> 0 \<le> hour \<and> hour \<le> 23 \<and> 0 \<le> minute \<and> minute \<le> 59 \<and> 0 \<le> second \<and> second \<le> 59)"
proof -
  have parts: "[y1, y2, y3, y4, d1, m1, m2, d2, a1, a2, sep, h1, h2, c1, n1, n2, c2, s1, s2] = clock_text year month day sep hour minute second \<longleftrightarrow>
      [y1, y2, y3, y4] = four_digits year \<and> d1 = 0x2D \<and> [m1, m2] = two_digits month \<and> d2 = 0x2D \<and> [a1, a2] = two_digits day \<and>
      [h1, h2] = two_digits hour \<and> c1 = 0x3A \<and> [n1, n2] = two_digits minute \<and> c2 = 0x3A \<and> [s1, s2] = two_digits second"
    unfolding clock_text_def four_digits_def two_digits_def by auto
  have "0 \<le> year" "0 \<le> month" "month \<le> 99" "0 \<le> day" "day \<le> 99" if "date_ok year month day"
    using that days_in_month_bound [of month year] by (simp_all add: date_ok_def)
  moreover have "hour \<le> 99" "minute \<le> 99" "second \<le> 99" if "hour \<le> 23" "minute \<le> 59" "second \<le> 59" using that by simp_all
  ultimately show ?thesis unfolding parts four_digits_read two_digits_read0 by blast
qed

lemma date_seconds:
  assumes "date_ok year month day"
  shows "days_from_civil year month day * 86400 + hour * 3600 + minute * 60 + second - offset =
    ((calendar_days year month day * 24 + hour) * 60 + minute) * 60 + second - offset"
  using assms by (simp add: days_from_civil_calendar date_ok_def)

text \<open>
  C7. A timestamp is accepted exactly when it is a date of the calendar from 1970 on, a time of day
  without leap seconds, an optional fraction and a zone, in at most 40 characters, and its value is the number of seconds the
  calendar counts from 1970-01-01 to it, shifted by the zone.
\<close>

theorem timestamp_exact:
  "parse_utc_offset_timestamp str = Some t \<longleftrightarrow>
     (\<exists>year month day hour minute second sep f z offset.
        str = clock_text year month day sep hour minute second @ f @ z \<and> (sep = 0x54 \<or> sep = 0x74) \<and> fraction_ok f \<and> zone_ok z offset \<and> length str \<le> 40 \<and>
        date_ok year month day \<and> year \<le> 9999 \<and> 0 \<le> hour \<and> hour \<le> 23 \<and> 0 \<le> minute \<and> minute \<le> 59 \<and> 0 \<le> second \<and> second \<le> 59 \<and>
        t = ((calendar_days year month day * 24 + hour) * 60 + minute) * 60 + second - offset)"
    (is "_ \<longleftrightarrow> ?form")
proof (cases "20 \<le> length str")
  case False
  have "19 < length str" if "str = clock_text year month day sep hour minute second @ f @ z" "zone_ok z offset"
    for year month day sep hour minute second f z offset
    using that zone_ok_head(1) [of z offset] by (simp add: length_clock_text)
  with False have "\<not> ?form" by (metis Suc_leI eval_nat_numeral(2) semiring_norm(26,27,28))
  with False show ?thesis by (simp add: parse_utc_offset_timestamp_def)
next
  case True
  define h rest where "h = take 19 str" and "rest = drop 19 str"
  have str: "str = h @ rest" "length h = 19" "rest \<noteq> []" using True by (simp_all add: h_def rest_def)
  obtain y1 y2 y3 y4 d1 m1 m2 d2 a1 a2 sep h1 h2 c1 n1 n2 c2 s1 s2 where
    h: "h = [y1, y2, y3, y4, d1, m1, m2, d2, a1, a2, sep, h1, h2, c1, n1, n2, c2, s1, s2]"
    using str(2) by (auto simp: numeral_eq_Suc length_Suc_conv)
  have reads: "text_digits str 0 4 = digits_loop [y1, y2, y3, y4] 0" "text_digits str 5 2 = digits_loop [m1, m2] 0"
    "text_digits str 8 2 = digits_loop [a1, a2] 0" "text_digits str 11 2 = digits_loop [h1, h2] 0"
    "text_digits str 14 2 = digits_loop [n1, n2] 0" "text_digits str 17 2 = digits_loop [s1, s2] 0"
    unfolding text_digits_def str(1) h by simp_all
  have marks: "str ! 4 = d1" "str ! 7 = d2" "str ! 10 = sep" "str ! 13 = c1" "str ! 16 = c2" unfolding str(1) h by simp_all
  have "parse_utc_offset_timestamp str = Some t \<longleftrightarrow>
      length str \<le> 40 \<and> (sep = 0x54 \<or> sep = 0x74) \<and>
      (\<exists>year month day hour minute second offset.
         (d1 = 0x2D \<and> d2 = 0x2D \<and> c1 = 0x3A \<and> c2 = 0x3A \<and> digits_loop [y1, y2, y3, y4] 0 = Some year \<and> digits_loop [m1, m2] 0 = Some month \<and>
          digits_loop [a1, a2] 0 = Some day \<and> digits_loop [h1, h2] 0 = Some hour \<and> digits_loop [n1, n2] 0 = Some minute \<and> digits_loop [s1, s2] 0 = Some second \<and>
          date_ok year month day \<and> hour \<le> 23 \<and> minute \<le> 59 \<and> second \<le> 59) \<and>
         (\<exists>cursor. zone_cursor str = Some cursor \<and> zone_offset str cursor = Some offset) \<and>
         t = days_from_civil year month day * 86400 + hour * 3600 + minute * 60 + second - offset)"
    using True unfolding parse_utc_offset_timestamp_def reads marks days_in_month_def [symmetric] date_ok_def
    by (auto simp del: digits_loop.simps split: option.splits)
  also have "\<dots> \<longleftrightarrow> ?form"
  proof -
    have form: "str = clock_text year month day sp hour minute second @ f @ z \<longleftrightarrow> h = clock_text year month day sp hour minute second \<and> rest = f @ z"
      for year month day sp hour minute second f z using str(2) by (simp add: str(1) length_clock_text)
    have same: "sp = sep" if "h = clock_text year month day sp hour minute second" for year month day sp hour minute second
      using that by (simp add: h clock_text_def four_digits_def two_digits_def)
    have tail: "(\<exists>cursor. zone_cursor str = Some cursor \<and> zone_offset str cursor = Some offset) \<longleftrightarrow> (\<exists>f z. rest = f @ z \<and> fraction_ok f \<and> zone_ok z offset)"
      for offset unfolding str(1) by (rule tail_exact [OF str(2,3)])
    have seconds: "date_ok year month day \<Longrightarrow> t = days_from_civil year month day * 86400 + hour * 3600 + minute * 60 + second - offset \<longleftrightarrow>
        t = ((calendar_days year month day * 24 + hour) * 60 + minute) * 60 + second - offset" for year month day hour minute second offset
      by (simp only: date_seconds)
    show ?thesis unfolding clock_read [where sep = sep] tail form h [symmetric]
    proof (rule iffI, goal_cases)
      case 1
      then show ?case by (elim conjE exE) (simp only: seconds, blast)
    next
      case 2
      then obtain year month day hour minute second sp f z offset where *: "h = clock_text year month day sp hour minute second" "rest = f @ z"
        "sp = 0x54 \<or> sp = 0x74" "fraction_ok f" "zone_ok z offset" "length str \<le> 40" "date_ok year month day" "year \<le> 9999" "0 \<le> hour" "hour \<le> 23"
        "0 \<le> minute" "minute \<le> 59" "0 \<le> second" "second \<le> 59" "t = ((calendar_days year month day * 24 + hour) * 60 + minute) * 60 + second - offset"
        by (elim conjE exE) blast
      from *(15) have "t = days_from_civil year month day * 86400 + hour * 3600 + minute * 60 + second - offset" unfolding seconds [OF *(7)] .
      with *(1-14) same [OF *(1)] show ?case by blast
    qed
  qed
  finally show ?thesis .
qed

end
