(* ===== verification/Envelope_Properties.thy ===== *)
theory Envelope_Properties
  imports Message_Properties
begin

text \<open>
  What the reader of commands accepts: the decimal form of start ticks, the members of an envelope and the reply as a whole.
\<close>

section \<open>Canonical decimals\<close>

definition decimal_value :: "bytes \<Rightarrow> nat \<Rightarrow> nat" where
  "decimal_value cs v = fold (\<lambda>c n. n * 10 + (unat c - 48)) cs v"

lemma decimal_value_simps [simp]: "decimal_value [] v = v" "decimal_value (c # cs) v = decimal_value cs (v * 10 + (unat c - 48))"
  "decimal_value (cs @ ds) v = decimal_value ds (decimal_value cs v)"
  by (simp_all add: decimal_value_def)

lemma decimal_value_mono: "v \<le> decimal_value cs v"
proof (induction cs arbitrary: v)
  case (Cons c cs)
  from Cons.IH [of "v * 10 + (unat c - 48)"] show ?case by simp
qed simp

lemma uint64_overflow:
  fixes v digit :: u64
  assumes "unat digit \<le> 9"
  shows "((- 1) - digit) div 10 < v \<longleftrightarrow> 2 ^ 64 \<le> unat v * 10 + unat digit"
proof -
  have "unat ((- 1 :: u64) - digit) = 2 ^ 64 - 1 - unat digit"
    by (subst unat_sub) (simp_all add: word_order.extremum unsigned_minus_1_eq_mask mask_eq_exp_minus_1)
  then have "((- 1) - digit) div 10 < v \<longleftrightarrow> (2 ^ 64 - 1 - unat digit) div 10 < unat v"
    by (simp add: word_less_nat_alt unat_div)
  also have "\<dots> \<longleftrightarrow> 2 ^ 64 \<le> unat v * 10 + unat digit" using assms by (simp add: less_eq_div_iff_mult_less_eq div_less_iff_less_mult) arith
  finally show ?thesis .
qed

lemma unat_ucast_u8: "unat (ucast (c :: byte) :: u64) = unat c"
proof -
  have "unat c < 2 ^ 8" using unsigned_less [of c] by simp
  then have "take_bit 64 (unat c) = unat c" by (intro take_bit_nat_eq_self) simp
  then show ?thesis by (simp add: unsigned_ucast_eq)
qed

lemma uint64_loop_value:
  "uint64_loop cs v = (if list_all decimal_byte cs \<and> decimal_value cs (unat v) < 2 ^ 64 then Some (of_nat (decimal_value cs (unat v))) else None)"
proof (induction cs arbitrary: v)
  case (Cons c cs)
  show ?case
  proof (cases "decimal_byte c")
    case True
    then have c: "48 \<le> unat c" "unat c \<le> 57" by (simp_all add: decimal_byte_def word_le_nat_alt)
    define digit :: u64 where "digit = ucast c - 48"
    have digit: "unat digit = unat c - 48"
      unfolding digit_def using c by (subst unat_sub) (simp_all add: word_le_nat_alt unat_ucast_u8)
    show ?thesis
    proof (cases "2 ^ 64 \<le> unat v * 10 + unat digit")
      case overflow: True
      with decimal_value_mono [of "unat v * 10 + (unat c - 48)" cs] uint64_overflow [of digit v] c True digit show ?thesis
        by (simp add: digit_def [symmetric] Let_def)
    next
      case False
      then have "unat (v * 10 + digit) = unat v * 10 + (unat c - 48)" unfolding digit [symmetric]
        by (simp add: unat_word_ariths)
      with False uint64_overflow [of digit v] c True digit Cons.IH [of "v * 10 + digit"] show ?thesis
        by (simp add: digit_def [symmetric] Let_def)
    qed
  qed simp
next
  case Nil
  show ?case using unsigned_less [of v] by simp
qed

lemma decimal_digit: "decimal_byte c \<Longrightarrow> digit_char (unat c - 48) = char_of (unat c)"
  by (simp add: digit_char_def decimal_byte_def word_le_nat_alt)

lemma decimal_value_pos: "cs \<noteq> [] \<Longrightarrow> list_all decimal_byte cs \<Longrightarrow> hd cs \<noteq> 0x30 \<Longrightarrow> 0 < decimal_value cs 0"
proof (cases cs)
  case (Cons c ds)
  assume "list_all decimal_byte cs" "hd cs \<noteq> 0x30"
  with Cons have "48 \<le> unat c" "unat c \<noteq> 48" by (simp_all add: decimal_byte_def word_le_nat_alt word_unat_eq_iff)
  with decimal_value_mono [of "unat c - 48" ds] Cons show ?thesis by simp
qed simp

lemma to_string_decimal:
  "cs \<noteq> [] \<Longrightarrow> list_all decimal_byte cs \<Longrightarrow> hd cs \<noteq> 0x30 \<Longrightarrow> ascii (to_string (decimal_value cs 0)) = cs"
proof (induction cs rule: rev_induct)
  case (snoc c cs)
  then have c: "48 \<le> unat c" "unat c \<le> 57" "decimal_byte c" by (simp_all add: decimal_byte_def word_le_nat_alt)
  have one: "ascii [digit_char (unat c - 48)] = [c]" using decimal_digit [OF c(3)] c by (simp add: ascii_def)
  show ?case
  proof (cases "cs = []")
    case True
    moreover from c have "unat c - 48 < 10" by simp
    ultimately show ?thesis using one by (subst to_string.simps) simp
  next
    case False
    with snoc have cs: "ascii (to_string (decimal_value cs 0)) = cs" "0 < decimal_value cs 0" by (simp_all add: decimal_value_pos)
    define v where "v = decimal_value cs 0"
    obtain d where d: "unat c - 48 = d" "d < 10" using c by simp
    have "(v * 10 + (unat c - 48)) div 10 = v" "(v * 10 + (unat c - 48)) mod 10 = unat c - 48" unfolding d(1) using d(2) by simp_all
    moreover have "\<not> v * 10 + (unat c - 48) < 10" using cs(2) by (simp add: v_def)
    ultimately have "to_string (v * 10 + (unat c - 48)) = to_string v @ [digit_char (unat c - 48)]" by (subst to_string.simps) simp
    with cs(1) one show ?thesis by (simp add: v_def [symmetric] ascii_def)
  qed
qed simp

lemma to_string_bytes: "list_all decimal_byte (ascii (to_string n))" "decimal_value (ascii (to_string n)) 0 = n" "0 < n \<Longrightarrow> hd (ascii (to_string n)) \<noteq> 0x30"
proof -
  have "list_all decimal_byte (ascii (to_string n)) \<and> decimal_value (ascii (to_string n)) 0 = n \<and> (0 < n \<longrightarrow> hd (ascii (to_string n)) \<noteq> 0x30)"
  proof (induction n rule: to_string.induct)
    case (1 n)
    have digit: "unat (of_nat (of_char (digit_char d)) :: byte) = 48 + d" if "d < 10" for d
      using that unat_byte_of_char [of "digit_char d"] by (simp only: of_char_digit_char)
    then have byte: "decimal_byte (of_nat (of_char (digit_char d)))" if "d < 10" for d using that by (simp add: decimal_byte_def word_le_nat_alt)
    show ?case
    proof (cases "n < 10")
      case True
      with digit [OF True] byte [OF True] show ?thesis
        by (subst (1 2 3) to_string.simps) (simp add: ascii_def word_unat_eq_iff)
    next
      case False
      have "hd (ascii (to_string (n div 10) @ [digit_char (n mod 10)])) = hd (ascii (to_string (n div 10)))"
        using to_string_nonempty [of "n div 10"] by (simp add: ascii_def hd_append)
      with False 1 digit [of "n mod 10"] byte [of "n mod 10"] show ?thesis
        by (subst (1 2 3) to_string.simps) (simp add: ascii_def)
    qed
  qed
  then show "list_all decimal_byte (ascii (to_string n))" "decimal_value (ascii (to_string n)) 0 = n" "0 < n \<Longrightarrow> hd (ascii (to_string n)) \<noteq> 0x30"
    by simp_all
qed

text \<open>
  The start ticks of a boot-bound target are read exactly from the decimal text of a positive 64-bit number:
  no sign, no leading zero, nothing else, and no overflow.
\<close>

theorem canonical_uint64_exact: "parse_canonical_uint64 str = Some v \<longleftrightarrow> v \<noteq> 0 \<and> str = ascii (to_string (unat v))"
proof
  assume "parse_canonical_uint64 str = Some v"
  then have str: "str \<noteq> []" "hd str \<noteq> 0x30" "list_all decimal_byte str" "decimal_value str 0 < 2 ^ 64" "v = of_nat (decimal_value str 0)"
    by (auto simp: parse_canonical_uint64_def uint64_loop_value split: if_splits)
  from str(4,5) have "unat v = decimal_value str 0" by (simp add: unsigned_of_nat take_bit_nat_eq_self)
  with to_string_decimal [OF str(1,3,2)] decimal_value_pos [OF str(1,3,2)] show "v \<noteq> 0 \<and> str = ascii (to_string (unat v))" by auto
next
  assume v: "v \<noteq> 0 \<and> str = ascii (to_string (unat v))"
  then have "0 < unat v" by (simp add: unat_gt_0)
  moreover have small: "unat v < 2 ^ 64" using unsigned_less [of v] by simp
  then have "unat v < 10 ^ 20" by simp
  then have "length (to_string (unat v)) \<le> 20" by (intro length_to_string) simp_all
  ultimately show "parse_canonical_uint64 str = Some v"
    using v to_string_bytes [of "unat v"] to_string_nonempty [of "unat v"] small
    by (simp add: parse_canonical_uint64_def uint64_loop_value ascii_def)
qed

section \<open>Bounds of a timestamp\<close>

lemma digits_loop_bounds:
  assumes "digits_loop cs v = Some n" "0 \<le> v"
  shows "0 \<le> n \<and> n < (v + 1) * 10 ^ length cs"
  using assms
proof (induction cs arbitrary: v)
  case (Cons c cs)
  from Cons.prems have "decimal_byte c" by (simp split: if_splits)
  then have c: "0 \<le> int (unat c) - 48" "int (unat c) - 48 \<le> 9" by (simp_all add: decimal_byte_def word_le_def)
  define w where "w = v * 10 + (int (unat c) - 48)"
  have w: "0 \<le> w" "w + 1 \<le> (v + 1) * 10" using c Cons.prems(2) by (simp_all add: w_def)
  have "digits_loop cs w = Some n" using Cons.prems(1) by (simp add: w_def split: if_splits)
  from Cons.IH [OF this w(1)] have n: "0 \<le> n" "n < (w + 1) * 10 ^ length cs" by blast+
  have "(w + 1) * 10 ^ length cs \<le> ((v + 1) * 10) * 10 ^ length cs" using w(2) by (intro mult_right_mono) simp_all
  with n have "0 \<le> n \<and> n < ((v + 1) * 10) * 10 ^ length cs" by linarith
  then show ?case by (simp only: list.size power_Suc add_0_right add_Suc_right mult.assoc)
qed simp

lemma text_digits_bounds: "text_digits str k n = Some v \<Longrightarrow> 0 \<le> v \<and> v < 10 ^ n"
proof -
  assume "text_digits str k n = Some v"
  then have "0 \<le> v \<and> v < 10 ^ length (take n (drop k str))" unfolding text_digits_def by (drule_tac digits_loop_bounds) simp_all
  moreover have "(10 :: int) ^ length (take n (drop k str)) \<le> 10 ^ n" by (intro power_increasing) simp_all
  ultimately show ?thesis by linarith
qed

lemma zone_offset_bounds: "zone_offset str cursor = Some offset \<Longrightarrow> - 86400 < offset \<and> offset < 86400"
  unfolding zone_offset_def by (auto split: if_splits option.splits dest!: text_digits_bounds)

lemma calendar_bounds:
  assumes "1970 \<le> y" "y \<le> 9999" "1 \<le> m" "m \<le> 12" "1 \<le> d" "d \<le> 31"
  shows "0 \<le> calendar_days y m d" "calendar_days y m d < 3000000"
proof -
  define years where "years = sum_list (map year_days [1970..y - 1])"
  define months where "months = sum_list (take (nat (m - 1)) (map (days_in_month y) [1, 2, 3, 4, 5, 6, 7, 8, 9, 10, 11, 12]))"
  have "years \<le> sum_list (map (\<lambda>_. 366) [1970..y - 1])" unfolding years_def by (intro sum_list_mono) (simp add: year_days_def)
  also have "\<dots> = 366 * (y - 1970)" using assms(1) by (simp add: sum_list_triv)
  finally have years: "years \<le> 366 * (y - 1970)" .
  have "0 \<le> years" unfolding years_def by (intro sum_list_nonneg) (auto simp: year_days_def)
  have months: "0 \<le> months" "months \<le> 400" unfolding months_def months_before [OF assms(3,4)] using assms(3,4) by (auto split: if_splits)
  have "calendar_days y m d = years + months + (d - 1)" by (simp add: calendar_days_def years_def months_def)
  with \<open>0 \<le> years\<close> years months assms show "0 \<le> calendar_days y m d" "calendar_days y m d < 3000000" by simp_all
qed

lemma timestamp_bounds:
  assumes "parse_utc_offset_timestamp str = Some t"
  shows "- 86400 < t \<and> t < 2 ^ 40"
proof -
  from assms obtain year month day hour minute second cursor offset where parts:
    "text_digits str 0 4 = Some year" "text_digits str 5 2 = Some month" "text_digits str 8 2 = Some day" "text_digits str 11 2 = Some hour"
    "text_digits str 14 2 = Some minute" "text_digits str 17 2 = Some second" "1970 \<le> year" "1 \<le> month" "month \<le> 12" "1 \<le> day" "hour \<le> 23"
    "minute \<le> 59" "second \<le> 59" "day \<le> days_in_month year month" "zone_offset str cursor = Some offset"
    "t = days_from_civil year month day * 86400 + hour * 3600 + minute * 60 + second - offset"
    unfolding parse_utc_offset_timestamp_def days_in_month_def [symmetric] by (auto split: if_splits option.splits)
  have "year \<le> 9999" using text_digits_bounds [OF parts(1)] by simp
  moreover have "day \<le> 31" using days_in_month_bound [OF parts(8,9), of year] parts(14) by simp
  ultimately have "0 \<le> days_from_civil year month day" "days_from_civil year month day < 3000000"
    using calendar_bounds parts days_from_civil_calendar by simp_all
  then show ?thesis using text_digits_bounds [OF parts(4)] text_digits_bounds [OF parts(5)] text_digits_bounds [OF parts(6)]
      zone_offset_bounds [OF parts(15)] parts(11-13) unfolding parts(16) by simp
qed

section \<open>Members of an envelope\<close>

lemma unique_keys_distinct: "unique_keys v \<Longrightarrow> distinct (keys v)"
  by (cases v) (simp_all add: keys_def)

lemma unique_keys_member: "unique_keys v \<Longrightarrow> find_member k v = Some m \<Longrightarrow> unique_keys m"
  by (cases v) (auto simp: find_member_def list_all_iff dest!: map_of_SomeD)

lemma only_keys_found:
  assumes "only_keys t expected" "unique_keys t" "distinct (map ascii expected)" "k \<in> set expected"
  shows "\<exists>m. find_member (ascii k) t = Some m"
proof -
  from assms(1) have len: "length (keys t) = length expected" and sub: "set (keys t) \<subseteq> set (map ascii expected)"
    by (auto simp: only_keys_def list_all_iff)
  have "card (set (keys t)) = card (set (map ascii expected))"
    using distinct_card [OF unique_keys_distinct [OF assms(2)]] distinct_card [OF assms(3)] len by simp
  with sub have "set (keys t) = set (map ascii expected)" by (intro card_subset_eq) simp_all
  with assms(4) have "ascii k \<in> set (keys t)" by auto
  then show ?thesis by (cases t) (auto simp: keys_def find_member_def dest: weak_map_of_SomeI)
qed

lemma targets_found:
  assumes "unique_keys t"
  shows "parse_boot_target t command \<noteq> None" "parse_process_target t command \<noteq> None" "parse_file_target t command \<noteq> None"
proof -
  note found = only_keys_found [OF _ assms]
  have [simp]: "distinct (map ascii [''pid'', ''start_time_ticks'', ''boot_id''])" "distinct (map ascii [''pid'', ''start_time_ticks''])"
    "distinct (map ascii [''path''])" by code_simp+
  show "parse_boot_target t command \<noteq> None" "parse_process_target t command \<noteq> None" "parse_file_target t command \<noteq> None"
    using found [of "[''pid'', ''start_time_ticks'', ''boot_id'']" "''pid''"] found [of "[''pid'', ''start_time_ticks'', ''boot_id'']" "''start_time_ticks''"]
      found [of "[''pid'', ''start_time_ticks'', ''boot_id'']" "''boot_id''"] found [of "[''pid'', ''start_time_ticks'']" "''pid''"]
      found [of "[''pid'', ''start_time_ticks'']" "''start_time_ticks''"] found [of "[''path'']" "''path''"]
    unfolding parse_boot_target_def parse_process_target_def parse_file_target_def
    by (auto simp del: map_map list.map)
qed

section \<open>Well-formed commands\<close>

definition authorization_ok :: "command_authorization option \<Rightarrow> bool" where
  "authorization_ok a \<longleftrightarrow> (case a of None \<Rightarrow> True | Some au \<Rightarrow> au_algorithm au = ascii ''ES256'' \<and> length (au_key_id au) = 16 \<and>
     list_all lower_hex (au_key_id au) \<and> length (au_signature au) = 64)"

definition process_action :: "command_action \<Rightarrow> bool" where
  "process_action a \<longleftrightarrow> a = Kill_process \<or> a = Collect_process_info"

definition file_action :: "command_action \<Rightarrow> bool" where
  "file_action a \<longleftrightarrow> a = Collect_file \<or> a = Quarantine_file"

definition target_ok :: "endpoint_command \<Rightarrow> bool" where
  "target_ok c \<longleftrightarrow>
     (if process_action (ec_action c) then ec_pid c \<noteq> 0 \<and> ec_start_ticks c \<noteq> 0 \<and> (ec_boot_id c = [] \<or> boot_digest_ok (ec_boot_id c))
      else ec_pid c = 0 \<and> ec_start_ticks c = 0 \<and> ec_boot_id c = []) \<and>
     (if file_action (ec_action c) then ec_path c \<noteq> [] \<and> length (ec_path c) \<le> 4096 \<and> 0 \<notin> set (ec_path c) else ec_path c = [])"

definition command_ok :: "endpoint_command \<Rightarrow> bool" where
  "command_ok c \<longleftrightarrow> command_id_ok (ec_command_id c) \<and> command_id_ok (ec_correlation_id c) \<and> is_valid_identifier (ec_agent_id c) \<and>
     is_valid_identifier (ec_host_id c) \<and> - 86400 < ec_expires_unix c \<and> ec_expires_unix c < 2 ^ 40 \<and> - 86400 < ec_created_unix c \<and>
     ec_created_unix c < 2 ^ 40 \<and> authorization_ok (ec_authorization c) \<and> target_ok c"

definition unreadable_ok :: "command_unreadable \<Rightarrow> bool" where
  "unreadable_ok f \<longleftrightarrow> (cu_command_id f = [] \<or> command_id_ok (cu_command_id f)) \<and> (cu_correlation_id f = [] \<or> command_id_ok (cu_correlation_id f)) \<and>
     cu_reason f \<noteq> []"

fun parsed_ok :: "parsed_command \<Rightarrow> bool" where
  "parsed_ok (Command c) \<longleftrightarrow> command_ok c"
| "parsed_ok (Unreadable f) \<longleftrightarrow> unreadable_ok f"

definition no_target :: "endpoint_command \<Rightarrow> bool" where
  "no_target c \<longleftrightarrow> ec_pid c = 0 \<and> ec_start_ticks c = 0 \<and> ec_boot_id c = [] \<and> ec_path c = []"

definition head_ok :: "endpoint_command \<Rightarrow> bool" where
  "head_ok c \<longleftrightarrow> command_id_ok (ec_command_id c) \<and> command_id_ok (ec_correlation_id c) \<and> is_valid_identifier (ec_agent_id c) \<and>
     is_valid_identifier (ec_host_id c) \<and> - 86400 < ec_expires_unix c \<and> ec_expires_unix c < 2 ^ 40"

lemma envelope_ok: "parse_envelope v = Inr (c, b) \<Longrightarrow> head_ok c \<and> no_target c"
  unfolding parse_envelope_def
  by (auto simp: head_ok_def no_target_def split: option.splits if_splits dest!: timestamp_bounds)

lemma envelope_reason: "parse_envelope v = Inl r \<Longrightarrow> r \<noteq> []"
  unfolding parse_envelope_def by (auto split: option.splits if_splits)

lemma created_ok: "parse_created v = Inr t \<Longrightarrow> - 86400 < t \<and> t < 2 ^ 40"
  unfolding parse_created_def by (auto split: option.splits dest: timestamp_bounds)

lemma created_reason: "parse_created v = Inl r \<Longrightarrow> r \<noteq> []"
  unfolding parse_created_def by (auto split: option.splits)

lemma authorization_parsed: "parse_authorization v = Inr a \<Longrightarrow> authorization_ok a"
  unfolding parse_authorization_def by (auto simp: authorization_ok_def split: option.splits if_splits)

lemma authorization_reason: "parse_authorization v = Inl r \<Longrightarrow> r \<noteq> []"
  unfolding parse_authorization_def by (auto split: option.splits if_splits)

lemma small_pid: "pid \<noteq> 0 \<Longrightarrow> \<not> u32_max < pid \<Longrightarrow> (ucast pid :: u32) \<noteq> 0"
proof -
  assume "pid \<noteq> 0" "\<not> u32_max < pid"
  then have "unat pid < 2 ^ 32" "0 < unat pid" by (simp_all add: u32_max_def word_less_nat_alt unat_gt_0)
  then have "unat (ucast pid :: u32) \<noteq> 0" by (simp add: unsigned_ucast_eq take_bit_nat_eq_self)
  then show ?thesis by auto
qed

lemma canonical_nonzero: "parse_canonical_uint64 str = Some v \<Longrightarrow> v \<noteq> 0"
  by (rule notI) (auto simp: parse_canonical_uint64_def uint64_loop_value word_unat_eq_iff unsigned_of_nat take_bit_nat_eq_self
      dest: decimal_value_pos split: if_splits)

lemma target_parsed:
  assumes "parse_target v c b = Some (Inr c')" "no_target c"
  shows "target_ok c' \<and> ec_command_id c' = ec_command_id c \<and> ec_correlation_id c' = ec_correlation_id c \<and> ec_agent_id c' = ec_agent_id c \<and>
    ec_host_id c' = ec_host_id c \<and> ec_expires_unix c' = ec_expires_unix c \<and> ec_created_unix c' = ec_created_unix c \<and>
    ec_authorization c' = ec_authorization c"
proof -
  from assms(1) obtain t where t:
    "process_action (ec_action c) \<and> (parse_boot_target t c = Some (Inr c') \<or> parse_process_target t c = Some (Inr c')) \<or>
     file_action (ec_action c) \<and> parse_file_target t c = Some (Inr c') \<or> \<not> process_action (ec_action c) \<and> \<not> file_action (ec_action c) \<and> c' = c"
    unfolding parse_target_def by (auto simp: process_action_def file_action_def split: option.splits if_splits)
  have differ: "process_action a \<Longrightarrow> \<not> file_action a" for a by (auto simp: process_action_def file_action_def)
  from t consider "process_action (ec_action c)" "parse_boot_target t c = Some (Inr c')" | "process_action (ec_action c)" "parse_process_target t c = Some (Inr c')"
    | "file_action (ec_action c)" "parse_file_target t c = Some (Inr c')" | "\<not> process_action (ec_action c)" "\<not> file_action (ec_action c)" "c' = c" by blast
  then show ?thesis
  proof cases
    case 1
    with assms(2) differ [OF 1(1)] show ?thesis unfolding parse_boot_target_def
      by (auto simp: target_ok_def no_target_def small_pid split: option.splits if_splits)
  next
    case 2
    with assms(2) differ [OF 2(1)] show ?thesis unfolding parse_process_target_def
      by (auto simp: target_ok_def no_target_def small_pid split: option.splits if_splits)
  next
    case 3
    with assms(2) differ show ?thesis unfolding parse_file_target_def
      by (auto simp: target_ok_def no_target_def maximum_path_bytes_def split: option.splits if_splits)
  qed (use assms(2) in \<open>auto simp: target_ok_def no_target_def\<close>)
qed

lemma target_reason: "parse_target v c b = Some (Inl r) \<Longrightarrow> r \<noteq> []"
  unfolding parse_target_def parse_boot_target_def parse_process_target_def parse_file_target_def
  by (auto split: option.splits if_splits)

lemma target_found: "unique_keys v \<Longrightarrow> parse_target v c b \<noteq> None"
  unfolding parse_target_def using targets_found [OF unique_keys_member] by (simp split: option.split)

lemma readable_id_ok: "readable_id key v = [] \<or> command_id_ok (readable_id key v)"
  by (simp add: readable_id_def split: option.split)

lemma ascii_empty: "ascii str = [] \<longleftrightarrow> str = []"
  by (simp add: ascii_def)

lemma fail_ok: "reason \<noteq> [] \<Longrightarrow>
  unreadable_ok \<lparr>cu_command_id = readable_id k v, cu_correlation_id = readable_id l v, cu_reason = ascii reason\<rparr>"
  using readable_id_ok [of k v] readable_id_ok [of l v] by (simp add: unreadable_ok_def ascii_empty)

definition unreadable_for :: "json_value \<Rightarrow> string \<Rightarrow> parsed_command option" where
  "unreadable_for v reason = Some (Unreadable \<lparr>cu_command_id = readable_id ''command_id'' v, cu_correlation_id = readable_id ''correlation_id'' v,
     cu_reason = ascii reason\<rparr>)"

definition readable :: "parsed_command option \<Rightarrow> bool" where
  "readable r \<longleftrightarrow> (\<exists>pc. r = Some pc \<and> parsed_ok pc)"

lemma unreadable_readable: "reason \<noteq> [] \<Longrightarrow> readable (unreadable_for v reason)"
  by (simp add: readable_def unreadable_for_def fail_ok)

lemma target_readable:
  assumes "unique_keys v" "head_ok c" "no_target c" "authorization_ok (ec_authorization c)" "- 86400 < ec_created_unix c \<and> ec_created_unix c < 2 ^ 40"
  shows "readable (case parse_target v c b of None \<Rightarrow> None | Some (Inl reason) \<Rightarrow> unreadable_for v reason | Some (Inr c') \<Rightarrow> Some (Command c'))"
proof -
  from target_found [OF assms(1), of c b] obtain res where res: "parse_target v c b = Some res" by blast
  show ?thesis
  proof (cases res)
    case (Inl r)
    with res target_reason [of v c b r] show ?thesis by (simp add: unreadable_readable)
  next
    case (Inr c')
    with res target_parsed [of v c b c'] assms(2-5) show ?thesis by (simp add: readable_def command_ok_def head_ok_def)
  qed
qed

lemma envelope_readable:
  assumes "unique_keys v"
  shows "readable (case parse_envelope v of Inl reason \<Rightarrow> unreadable_for v reason
      | Inr (command, b) \<Rightarrow> (case parse_created v of Inl reason \<Rightarrow> unreadable_for v reason
        | Inr created \<Rightarrow> (case parse_authorization v of Inl reason \<Rightarrow> unreadable_for v reason
          | Inr authorization \<Rightarrow> (case parse_target v (command\<lparr>ec_created_unix := created, ec_authorization := authorization\<rparr>) b of None \<Rightarrow> None
            | Some (Inl reason) \<Rightarrow> unreadable_for v reason | Some (Inr c) \<Rightarrow> Some (Command c)))))"
proof -
  have head: "head_ok (c\<lparr>ec_created_unix := t, ec_authorization := a\<rparr>) \<and> no_target (c\<lparr>ec_created_unix := t, ec_authorization := a\<rparr>)"
    if "parse_envelope v = Inr (c, b)" for c b t a using envelope_ok [OF that] by (simp add: head_ok_def no_target_def)
  show ?thesis
  proof (cases "parse_envelope v")
    case (Inl r)
    then show ?thesis by (simp add: unreadable_readable envelope_reason)
  next
    case envelope: (Inr cb)
    obtain c b where cb: "cb = (c, b)" by (cases cb)
    show ?thesis
    proof (cases "parse_created v")
      case created: (Inr t)
      show ?thesis
      proof (cases "parse_authorization v")
        case (Inr a)
        with target_readable [OF assms, of "c\<lparr>ec_created_unix := t, ec_authorization := a\<rparr>" b] head [OF envelope [unfolded cb], where t = t and a = a]
          authorization_parsed [OF Inr] created_ok [OF created] show ?thesis by (simp add: envelope cb created)
      qed (simp add: unreadable_readable authorization_reason envelope cb created)
    qed (simp add: unreadable_readable created_reason envelope cb)
  qed
qed

lemma parse_endpoint_command_ok:
  assumes "unique_keys v"
  shows "readable (parse_endpoint_command v)"
proof (cases "is_object v")
  case False
  then show ?thesis by (simp add: parse_endpoint_command_def readable_def unreadable_ok_def ascii_empty)
next
  case True
  then show ?thesis unfolding parse_endpoint_command_def Let_def unreadable_for_def [symmetric]
    using envelope_readable [OF assms] unreadable_readable [of "''unknown_field''" v] by simp
qed

lemma parse_items_ok:
  assumes "list_all unique_keys vs"
  shows "\<exists>cs. parse_items vs = Some cs \<and> length cs = length vs \<and> list_all parsed_ok cs"
  using assms
proof (induction vs)
  case (Cons v vs)
  with parse_endpoint_command_ok [of v] show ?case by (auto simp: readable_def)
qed simp

lemma parse_json_unique: "parse_json in_range limits doc = Inr v \<Longrightarrow> unique_keys v"
proof -
  assume "parse_json in_range limits doc = Inr v"
  then obtain n r where "json_run in_range limits (2 * length doc + 1) (Value_at 1 0 (skip_space doc)) = Parsed (v, n) r"
    by (auto simp: parse_json_def Let_def split: if_splits parsed.splits)
  from accepts_sound [OF json_run_accepts [OF this, simplified]] show ?thesis by simp
qed

lemma poll_ok:
  "\<exists>poll. parse_command_poll in_range body maximum_commands = Some poll \<and> length (po_commands poll) \<le> maximum_commands \<and>
     list_all parsed_ok (po_commands poll)"
proof (cases "parse_json in_range poll_limits body")
  case (Inl why)
  then show ?thesis by (simp add: parse_command_poll_def malformed_poll_def)
next
  case (Inr document)
  have unique: "unique_keys document" using parse_json_unique [OF Inr] .
  have "list_all unique_keys (take k (items found))" if "find_member key document = Some found" "is_array found" for key found k
    using unique_keys_member [OF unique that(1)] that(2)
    by (cases found) (auto simp: is_array_def items_def list_all_iff dest: in_set_takeD)
  note listed = parse_items_ok [OF this]
  show ?thesis
  proof (cases "is_object document \<and> keys document = [ascii ''commands'']")
    case False
    with Inr show ?thesis by (simp add: parse_command_poll_def malformed_poll_def)
  next
    case True
    show ?thesis
    proof (cases "find_member (ascii ''commands'') document")
      case (Some found)
      show ?thesis
      proof (cases "is_array found")
        case array: True
        obtain cs where "parse_items (take (min (length (items found)) maximum_commands) (items found)) = Some cs"
          "length cs = length (take (min (length (items found)) maximum_commands) (items found))" "list_all parsed_ok cs"
          using listed [OF Some array] by blast
        with True Inr Some array show ?thesis by (simp add: parse_command_poll_def Let_def)
      qed (use True Inr Some in \<open>simp add: parse_command_poll_def malformed_poll_def\<close>)
    qed (use True Inr in \<open>simp add: parse_command_poll_def malformed_poll_def\<close>)
  qed
qed

text \<open>
  C6. Whatever the Manager's reply holds, reading it ends with a poll and never follows a
  null pointer; the poll has no more commands than the bound, and each is either a well-formed
  command (valid ids, a target of exactly the shape of its action, times that fit, a complete authorization or none) or a
  refusal that names only ids the ledger can record.
\<close>

theorem poll_well_formed:
  "\<exists>poll. parse_command_poll in_range body maximum_commands = Some poll \<and> length (po_commands poll) \<le> maximum_commands \<and>
     list_all parsed_ok (po_commands poll)"
  by (rule poll_ok)

section \<open>The boot digest\<close>

lemma hex8_form: "length (hex8 w) = 8" "list_all lower_hex (ascii (hex8 w))"
proof -
  have "list_all (\<lambda>c. lower_hex (of_nat (of_char c))) ''0123456789abcdef''" by (simp add: lower_hex_def)
  then have "lower_hex (of_nat (of_char (''0123456789abcdef'' ! k)))" if "k < 16" for k using that by (simp only: list_all_length) simp
  moreover have "unat (x AND 0x0F :: u32) < 16" for x
  proof -
    have "x AND 0x0F \<le> (0x0F :: u32)" by (rule word_and_le1)
    then show ?thesis by (simp add: word_le_nat_alt)
  qed
  ultimately show "list_all lower_hex (ascii (hex8 w))" by (simp add: hex8_def ascii_def hex_char_def)
qed (simp add: hex8_def)

lemma sha256_hex_form: "length (sha256_hex m) = 64" "list_all lower_hex (ascii (sha256_hex m))"
proof -
  obtain a b c d e f g h where "sha256_hex m = concat (map hex8 [a, b, c, d, e, f, g, h])"
    unfolding sha256_hex_def by (cases "sha_blocks (sha256_padded m) 0 initial_hash") auto
  then show "length (sha256_hex m) = 64" "list_all lower_hex (ascii (sha256_hex m))"
    using hex8_form by (simp_all add: ascii_def list_all_append)
qed

text \<open>
  The digest this host computes of its boot id has the form the reader demands of a command, so a
  boot-bound command can match it.
\<close>

lemma linux_boot_digest_form: "linux_boot_digest k = [] \<or> boot_digest_ok (linux_boot_digest k)"
  using sha256_hex_form [of k] by (simp add: linux_boot_digest_def boot_digest_ok_def ascii_def)

end
