(* ===== verification/Channel_Properties.thy ===== *)
theory Channel_Properties
  imports Command_Channel Envelope_Properties
begin

text \<open>
  What one step of the command channel keeps. The interface \<open>channel_relation\<close> states what is needed
  of a relation between the state before and after each part of a step, and gives it for the step as a whole; it is
  interpreted for the refinement of the histories of \<open>Command_Runs\<close> and for what the Manager was told.
\<close>

section \<open>Steps from their parts\<close>

lemma with_metrics_simps [simp]:
  "ch_options (with_metrics f c) = ch_options c" "ch_processor (with_metrics f c) = ch_processor c" "ch_tick (with_metrics f c) = ch_tick c"
  "ch_trace (with_metrics f c) = ch_trace c" "ch_poll_interval_ms (with_metrics f c) = ch_poll_interval_ms c"
  by (simp_all add: with_metrics_def)

definition with_processor :: "command_processor \<Rightarrow> nat \<Rightarrow> channel_event list \<Rightarrow> command_channel \<Rightarrow> command_channel" where
  "with_processor p n evs c = c\<lparr>ch_processor := p, ch_tick := ch_tick c + n, ch_trace := ch_trace c @ evs\<rparr>"

text \<open>States that differ only in what no property here depends on.\<close>

definition same_core :: "command_channel \<Rightarrow> command_channel \<Rightarrow> bool" where
  "same_core c c' \<longleftrightarrow> po_policy (ch_options c') = po_policy (ch_options c) \<and> ch_processor c' = ch_processor c \<and> ch_tick c \<le> ch_tick c' \<and>
     ch_trace c' = ch_trace c"

definition before_poll :: "channel_env \<Rightarrow> command_channel \<Rightarrow> command_channel" where
  "before_poll env c = settle_ledger env (channel_refresh env (with_metrics (\<lambda>m. m\<lparr>cm_polls := cm_polls m + 1\<rparr>) c))"

locale channel_relation =
  fixes env :: channel_env and R :: "command_channel \<Rightarrow> command_channel \<Rightarrow> bool"
  assumes trans: "R a b \<Longrightarrow> R b c \<Longrightarrow> R a c"
    and core: "same_core c c' \<Longrightarrow> R c c'"
    and audited: "R c (c\<lparr>ch_trace := ch_trace c @ [Audited outcome]\<rparr>)"
    and submitted: "R c (c\<lparr>ch_tick := Suc (ch_tick c), ch_trace := ch_trace c @ [Submitted i st]\<rparr>)"
    and told: "st = answered \<or> st = refused \<Longrightarrow>
      R c (channel_mark_reported env i (with_metrics f (c\<lparr>ch_tick := Suc (ch_tick c), ch_trace := ch_trace c @ [Submitted i st]\<rparr>)))"
    and resumed: "processor_resume (en_io env (ch_tick c)) i k again (ch_processor c) = (out, p) \<Longrightarrow> R c (with_processor p 1 [] c)"
    and handled: "command_ok command \<Longrightarrow>
      processor_handle (channel_processor_env env (ch_tick c)) (ch_options c) (en_io env (ch_tick c)) (en_io env (Suc (ch_tick c))) (en_now env (ch_tick c))
        command (ch_processor c) = (outcome, p, call) \<Longrightarrow>
      R c (with_processor p 2 (case call of None \<Rightarrow> [] | Some (run, dry_run) \<Rightarrow> [Executed run dry_run (en_now env (ch_tick c))]) c)"
    and refused: "processor_unreadable (en_io env (ch_tick c)) (en_io env (Suc (ch_tick c))) (en_now env (ch_tick c)) failure (ch_processor c) = (outcome, p) \<Longrightarrow>
      R c (with_processor p 2 [] c)"
begin

lemma refl: "R c c"
  by (rule core) (simp add: same_core_def)

lemma metrics: "R c (with_metrics f c)"
  by (rule core) (simp add: same_core_def)

lemma through_fold: "(\<And>x c. x \<in> set xs \<Longrightarrow> R c (f x c)) \<Longrightarrow> R c (fold f xs c)"
  by (induction xs arbitrary: c) (auto intro: refl trans)

lemma report: "R c (channel_report env audit outcome c)"
proof -
  define c1 where "c1 = with_metrics (count_outcome outcome) (if audit then c\<lparr>ch_trace := ch_trace c @ [Audited outcome]\<rparr> else c)"
  have "R c c1" unfolding c1_def using trans [OF audited metrics] metrics by (cases audit) simp_all
  moreover have "R c1 (channel_report env audit outcome c)"
    unfolding channel_report_def Let_def c1_def [symmetric]
    by (auto split: post_status.split intro: refl told trans [OF submitted metrics])
  ultimately show ?thesis by (rule trans)
qed

lemma resume: "R c (channel_resume env i k command c)"
proof -
  obtain out p where run: "processor_resume (en_io env (ch_tick c)) i k command (ch_processor c) = (out, p)" by (rule prod.exhaust)
  from resumed [OF run] have "R c (c\<lparr>ch_processor := p, ch_tick := Suc (ch_tick c)\<rparr>)" by (simp add: with_processor_def)
  with run show ?thesis unfolding channel_resume_def by (cases out) (auto intro: trans report)
qed

lemma handle: "command_ok command \<Longrightarrow> R c (channel_handle env command c)"
proof -
  assume ok: "command_ok command"
  obtain outcome p call where run: "processor_handle (channel_processor_env env (ch_tick c)) (ch_options c) (en_io env (ch_tick c)) (en_io env (Suc (ch_tick c)))
      (en_now env (ch_tick c)) command (ch_processor c) = (outcome, p, call)" by (rule prod_cases3)
  from trans [OF handled [OF ok run] report] run show ?thesis by (simp add: channel_handle_def Let_def with_processor_def)
qed

lemma unreadable: "R c (channel_unreadable env failure c)"
proof -
  obtain outcome p where run: "processor_unreadable (en_io env (ch_tick c)) (en_io env (Suc (ch_tick c))) (en_now env (ch_tick c)) failure (ch_processor c) = (outcome, p)"
    by (rule prod.exhaust)
  from trans [OF refused [OF run] report] run show ?thesis by (simp add: channel_unreadable_def Let_def with_processor_def)
qed

lemma item:
  assumes "parsed_ok x"
  shows "R (snd pc) (snd (channel_item env x pc))"
proof -
  obtain progressed c where pc: "pc = (progressed, c)" by (rule prod.exhaust)
  note via = trans [OF metrics]
  show ?thesis using assms via [OF handle] via [OF resume] via [OF unreadable] via [OF metrics] metrics
    unfolding channel_item_def pc Let_def by (auto split: parsed_command.split option.split phase.split)
qed

lemma items: "list_all parsed_ok xs \<Longrightarrow> R (snd pc) (snd (fold (channel_item env) xs pc))"
proof (induction xs arbitrary: pc)
  case (Cons x xs)
  from Cons.prems trans [OF item Cons.IH] show ?case by simp
qed (simp add: refl)

lemma settle: "R c (settle_ledger env c)"
  unfolding settle_ledger_def Let_def by (rule trans; rule through_fold) (auto intro: resume report)

text \<open>The step up to the poll, and from it on.\<close>

lemma before_poll: "R c (before_poll env c)"
proof -
  have "same_core c (channel_refresh env (with_metrics (\<lambda>m. m\<lparr>cm_polls := cm_polls m + 1\<rparr>) c))" by (simp add: channel_refresh_def same_core_def)
  from trans [OF core [OF this] settle] show ?thesis by (simp add: before_poll_def)
qed

lemma from_poll: "\<exists>wait c'. channel_step env c = Some (wait, c') \<and> R (before_poll env c) c'"
proof -
  define c1 where "c1 = before_poll env c"
  define reply where "reply = en_poll env (ch_tick c1)"
  define c2 where "c2 = poll_answered (c1\<lparr>ch_tick := Suc (ch_tick c1)\<rparr>)"
  have c2: "R c1 c2" by (rule core) (simp add: c2_def poll_answered_def same_core_def)
  have failed: "R c1 (snd (poll_failed reply (c1\<lparr>ch_tick := Suc (ch_tick c1)\<rparr>)))" by (rule core) (simp add: poll_failed_def same_core_def Let_def)
  obtain poll where poll: "parse_command_poll (en_in_range env) (pr_body reply) 32 = Some poll" "list_all parsed_ok (po_commands poll)"
    using poll_ok by blast
  have finished: "R c2 (snd (fold (channel_item env) (po_commands poll) (False, c2)))" using items [OF poll(2), of "(False, c2)"] by simp
  have "channel_step env c =
      (if pr_status reply \<noteq> answered then Some (poll_failed reply (c1\<lparr>ch_tick := Suc (ch_tick c1)\<rparr>))
       else if po_malformed poll then Some (ch_poll_interval_ms c2,
          with_metrics (\<lambda>m. m\<lparr>cm_unreadable := cm_unreadable m + 1, cm_last_error := ascii ''command poll reply rejected: '' @ po_why poll\<rparr>) c2)
       else let (progressed, c3) = fold (channel_item env) (po_commands poll) (False, c2)
            in Some (if 0 < po_omitted poll \<and> progressed then min (ch_poll_interval_ms c3) 200 else ch_poll_interval_ms c3, c3))"
    unfolding channel_step_def Let_def before_poll_def [symmetric] c1_def [symmetric] reply_def [symmetric] c2_def [symmetric] poll(1) by simp
  with failed trans [OF c2 metrics] trans [OF c2 finished] show ?thesis unfolding c1_def [symmetric]
    by (cases "poll_failed reply (c1\<lparr>ch_tick := Suc (ch_tick c1)\<rparr>)") (auto split: prod.splits)
qed

lemma step: "\<exists>wait c'. channel_step env c = Some (wait, c') \<and> R c c'"
  using from_poll [of c] trans [OF before_poll] by blast

end

section \<open>Refinement of the histories\<close>

text \<open>The clock the provider reads does not go back.\<close>

definition clock_ok :: "channel_env \<Rightarrow> bool" where
  "clock_ok env \<longleftrightarrow> (\<forall>n. en_now env n \<le> en_now env (Suc n) \<and> en_now env n < 2 ^ 62)"

fun runs_of :: "channel_event list \<Rightarrow> (endpoint_command \<times> int) list" where
  "runs_of [] = []"
| "runs_of (Executed c dry_run t # evs) = (c, t) # runs_of evs"
| "runs_of (_ # evs) = runs_of evs"

lemma runs_of_append [simp]: "runs_of (xs @ ys) = runs_of xs @ runs_of ys"
  by (induction xs rule: runs_of.induct) simp_all

text \<open>The channel is at a point of a history: the same processor, and the same calls of the executor behind it.\<close>

definition follows :: "channel_env \<Rightarrow> command_channel \<Rightarrow> world \<Rightarrow> bool" where
  "follows env c w \<longleftrightarrow> w_agent w = Running (ch_processor c) \<and> w_now w \<le> en_now env (ch_tick c) \<and> w_ran w = rev (runs_of (ch_trace c))"

definition moves :: "nat \<Rightarrow> channel_env \<Rightarrow> command_channel \<Rightarrow> command_channel \<Rightarrow> bool" where
  "moves maximum env c c' \<longleftrightarrow> po_policy (ch_options c') = po_policy (ch_options c) \<and>
     (clock_ok env \<longrightarrow> (\<forall>w. follows env c w \<longrightarrow> (\<exists>w'. (world_step maximum (po_policy (ch_options c)))\<^sup>*\<^sup>* w w' \<and> follows env c' w' \<and> w_lost w' = w_lost w)))"

lemma clock_mono: "clock_ok env \<Longrightarrow> m \<le> n \<Longrightarrow> en_now env m \<le> en_now env n"
  by (rule lift_Suc_mono_le [of "en_now env"]) (simp_all add: clock_ok_def)

lemma clock_bound: "clock_ok env \<Longrightarrow> en_now env n < 2 ^ 62"
  by (simp add: clock_ok_def)

lemma moves_silent:
  assumes "po_policy (ch_options c') = po_policy (ch_options c)" "ch_processor c' = ch_processor c" "ch_tick c \<le> ch_tick c'"
    "runs_of (ch_trace c') = runs_of (ch_trace c)"
  shows "moves maximum env c c'"
  using assms clock_mono [of env "ch_tick c" "ch_tick c'"] by (fastforce simp: moves_def follows_def)

lemma moves_one:
  assumes "po_policy (ch_options c') = po_policy (ch_options c)"
    "\<And>w. clock_ok env \<Longrightarrow> follows env c w \<Longrightarrow> \<exists>w'. world_step maximum (po_policy (ch_options c)) w w' \<and> follows env c' w' \<and> w_lost w' = w_lost w"
  shows "moves maximum env c c'"
proof -
  have "\<exists>w'. (world_step maximum (po_policy (ch_options c)))\<^sup>*\<^sup>* w w' \<and> follows env c' w' \<and> w_lost w' = w_lost w" if "clock_ok env" "follows env c w" for w
    using assms(2) [OF that] by blast
  with assms(1) show ?thesis by (simp add: moves_def)
qed

lemma moves_trans: "moves maximum env a b \<Longrightarrow> moves maximum env b c \<Longrightarrow> moves maximum env a c"
  unfolding moves_def by (metis rtranclp_trans)

lemma moves_told:
  "moves maximum env c (channel_mark_reported env i (with_metrics f (c\<lparr>ch_tick := Suc (ch_tick c), ch_trace := ch_trace c @ [Submitted i st]\<rparr>)))"
proof (rule moves_one)
  fix w assume clock: "clock_ok env" and w: "follows env c w"
  obtain res l where marked: "mark_reported (en_io env (Suc (ch_tick c))) i (pr_ledger (ch_processor c)) = (res, l)" by (rule prod.exhaust)
  from world_step.report [OF _ marked, of w] w show "\<exists>w'. world_step maximum (po_policy (ch_options c)) w w' \<and>
      follows env (channel_mark_reported env i (with_metrics f (c\<lparr>ch_tick := Suc (ch_tick c), ch_trace := ch_trace c @ [Submitted i st]\<rparr>))) w' \<and>
      w_lost w' = w_lost w"
    using marked clock_mono [OF clock, of "ch_tick c" "Suc (Suc (ch_tick c))"]
    by (fastforce simp: follows_def channel_mark_reported_def channel_ledger_def)
qed (simp add: channel_mark_reported_def)

lemma moves_resumed:
  assumes "processor_resume io i k command (ch_processor c) = (out, p)"
  shows "moves maximum env c (with_processor p (Suc 0) [] c)"
proof (rule moves_one)
  fix w assume clock: "clock_ok env" and w: "follows env c w"
  from world_step.resume [OF _ assms, of w] w show "\<exists>w'. world_step maximum (po_policy (ch_options c)) w w' \<and>
      follows env (with_processor p (Suc 0) [] c) w' \<and> w_lost w' = w_lost w"
    using clock_mono [OF clock, of "ch_tick c" "Suc (ch_tick c)"] by (fastforce simp: follows_def with_processor_def)
qed (simp add: with_processor_def)

lemma moves_refused:
  assumes "processor_unreadable io_received io_done (en_now env (ch_tick c)) failure (ch_processor c) = (outcome, p)"
  shows "moves maximum env c (with_processor p 2 [] c)"
proof (rule moves_one)
  fix w assume clock: "clock_ok env" and w: "follows env c w"
  from world_step.unreadable [OF _ _ _ assms, of w] w clock_bound [OF clock] show "\<exists>w'. world_step maximum (po_policy (ch_options c)) w w' \<and>
      follows env (with_processor p 2 [] c) w' \<and> w_lost w' = w_lost w"
    using clock_mono [OF clock, of "ch_tick c" "Suc (Suc (ch_tick c))"] by (fastforce simp: follows_def with_processor_def)
qed (simp add: with_processor_def)

lemma moves_handled:
  assumes "command_ok command" "processor_handle penv (ch_options c) io_received io_done (en_now env (ch_tick c)) command (ch_processor c) = (outcome, p, call)"
  shows "moves maximum env c (with_processor p 2 (case call of None \<Rightarrow> [] | Some (run, dry_run) \<Rightarrow> [Executed run dry_run (en_now env (ch_tick c))]) c)"
proof (rule moves_one)
  fix w assume clock: "clock_ok env" and w: "follows env c w"
  have "ec_expires_unix command < 2 ^ 63" using assms(1) by (simp add: command_ok_def)
  from world_step.handle [OF _ _ _ this _ assms(2), of w "po_policy (ch_options c)" maximum] w clock_bound [OF clock]
  have step: "world_step maximum (po_policy (ch_options c)) w (w\<lparr>w_now := en_now env (ch_tick c), w_agent := Running p,
      w_ran := (case call of None \<Rightarrow> w_ran w | Some (c', dry_run) \<Rightarrow> (c', en_now env (ch_tick c)) # w_ran w),
      w_changes := (case call of None \<Rightarrow> w_changes w | Some (c', dry_run) \<Rightarrow>
        if command_action_changes_host (ec_action c') \<and> \<not> dry_run then w_changes w @ [en_now env (ch_tick c)] else w_changes w)\<rparr>)"
    by (simp add: follows_def)
  show "\<exists>w'. world_step maximum (po_policy (ch_options c)) w w' \<and>
      follows env (with_processor p 2 (case call of None \<Rightarrow> [] | Some (run, dry_run) \<Rightarrow> [Executed run dry_run (en_now env (ch_tick c))]) c) w' \<and>
      w_lost w' = w_lost w"
    using w clock_mono [OF clock, of "ch_tick c" "Suc (Suc (ch_tick c))"]
    by - (rule exI, rule conjI, rule step, auto simp: follows_def with_processor_def split: option.split)
qed (simp add: with_processor_def)

interpretation runs: channel_relation env "moves maximum env" for env maximum
proof unfold_locales
  show "moves maximum env c c'" if "same_core c c'" for c c' using that by (intro moves_silent) (simp_all add: same_core_def)
qed (auto intro: moves_trans moves_silent moves_told moves_resumed moves_refused moves_handled)

text \<open>
  C3. As long as the clock does not go back and stays below \<open>2 ^ 62\<close>, whatever the network and the disk do, a step of
  the channel ends, and is a sequence of steps of the histories over which a command runs at most once: from any point of a history the channel is at, it leads to a point of one that continues it, with exactly the
  calls of the executor the channel made.
\<close>

theorem channel_step_refines:
  assumes "clock_ok env" "follows env c w"
  shows "\<exists>wait c' w'. channel_step env c = Some (wait, c') \<and> (world_step maximum (po_policy (ch_options c)))\<^sup>*\<^sup>* w w' \<and> follows env c' w' \<and>
    w_lost w' = w_lost w"
proof -
  obtain wait c' where "channel_step env c = Some (wait, c')" "moves maximum env c c'" using runs.step by blast
  with assms show ?thesis unfolding moves_def by blast
qed

section \<open>What the Manager was told\<close>

definition reported_in :: "bytes \<Rightarrow> command_channel \<Rightarrow> bool" where
  "reported_in i c \<longleftrightarrow> (\<exists>e. ledger_find i (channel_ledger c) = Some e \<and> le_state e = Reported)"

text \<open>An id is newly marked as reported only behind a submission of it that the Manager answered or refused, and the mark stays.\<close>

definition told_first :: "command_channel \<Rightarrow> command_channel \<Rightarrow> bool" where
  "told_first c c' \<longleftrightarrow> (\<exists>evs. ch_trace c' = ch_trace c @ evs \<and> (\<forall>i. reported_in i c \<longrightarrow> reported_in i c') \<and>
     (\<forall>i. reported_in i c' \<and> \<not> reported_in i c \<longrightarrow> Submitted i answered \<in> set evs \<or> Submitted i refused \<in> set evs))"

lemma told_trans:
  assumes "told_first a b" "told_first b c"
  shows "told_first a c"
proof -
  from assms obtain es fs where "ch_trace b = ch_trace a @ es" "ch_trace c = ch_trace b @ fs" by (auto simp: told_first_def)
  with assms show ?thesis unfolding told_first_def by (intro exI [of _ "es @ fs"]) auto
qed

lemma told_same:
  assumes "ch_trace c' = ch_trace c @ evs" "\<And>i. reported_in i c' \<longleftrightarrow> reported_in i c"
  shows "told_first c c'"
  unfolding told_first_def using assms by blast

definition reported_entry :: "bytes \<Rightarrow> command_ledger \<Rightarrow> bool" where
  "reported_entry i l \<longleftrightarrow> (\<exists>e. map_of (cl_entries l) i = Some e \<and> le_state e = Reported)"

lemma reported_in_entry: "reported_in i c = reported_entry i (pr_ledger (ch_processor c))"
  by (simp add: reported_in_def reported_entry_def ledger_find_def channel_ledger_def)

lemma received_reports: "reported_entry j (snd (mark_received io i k e l)) = reported_entry j l"
proof -
  obtain res l1 where app: "ledger_append io (received_line i k e) l = (res, l1)" by (rule prod.exhaust)
  with append_keeps(1) [OF app] show ?thesis
    by (auto simp: mark_received_def reported_entry_def map_of_update new_entry_def ledger_find_def split: sum.split)
qed

lemma done_reports: "reported_entry j (snd (mark_done io i out r d l)) = reported_entry j l"
proof -
  obtain res l1 where app: "ledger_append io (done_line i out r (clean maximum_detail_bytes d)) l = (res, l1)" by (rule prod.exhaust)
  with append_keeps(1) [OF app] show ?thesis
    by (auto simp: mark_done_def reported_entry_def map_of_update ledger_find_def Let_def split: sum.split option.split)
qed

lemma marked_reports:
  "reported_entry j l \<Longrightarrow> reported_entry j (snd (mark_reported io i l))"
  "reported_entry j (snd (mark_reported io i l)) \<Longrightarrow> j = i \<or> reported_entry j l"
proof -
  obtain res l1 where app: "ledger_append io (reported_line i) l = (res, l1)" by (rule prod.exhaust)
  with append_keeps(1) [OF app] show "reported_entry j l \<Longrightarrow> reported_entry j (snd (mark_reported io i l))"
    "reported_entry j (snd (mark_reported io i l)) \<Longrightarrow> j = i \<or> reported_entry j l"
    by (auto simp: mark_reported_def reported_entry_def map_of_update ledger_find_def split: sum.splits option.splits if_splits)
qed

lemma refuse_reports: "reported_entry j (snd (refuse io io' command r d l)) = reported_entry j l"
  by (simp add: refuse_def Let_def case_prod_beta done_reports received_reports)

lemma carry_out_reports: "reported_entry j (pr_ledger (fst (snd (carry_out env opts io now command p)))) = reported_entry j (pr_ledger p)"
  by (simp add: carry_out_def Let_def done_reports)

lemma resume_reports: "reported_entry j (pr_ledger (snd (processor_resume io i k command p))) = reported_entry j (pr_ledger p)"
  by (simp add: processor_resume_def Let_def done_reports split: option.split)

lemma unreadable_reports: "reported_entry j (pr_ledger (snd (processor_unreadable io io' now failure p))) = reported_entry j (pr_ledger p)"
  by (simp add: processor_unreadable_def Let_def case_prod_beta done_reports received_reports)

lemma handle_reports:
  assumes "processor_handle env opts io io' now command p = (outcome, p', call)"
  shows "reported_entry j (pr_ledger p') = reported_entry j (pr_ledger p)"
  using assms
proof (cases rule: handle_cases)
  case refused
  then show ?thesis using refuse_reports received_reports by (metis snd_conv)
next
  case (carried l p1)
  then show ?thesis using carry_out_reports [of j env opts io' now command p1] received_reports
    by (metis command_processor.select_convs(1) fst_conv snd_conv)
qed

lemma told_marked:
  assumes "st = answered \<or> st = refused"
  shows "told_first c (channel_mark_reported env i (with_metrics f (c\<lparr>ch_tick := Suc (ch_tick c), ch_trace := ch_trace c @ [Submitted i st]\<rparr>)))"
  unfolding told_first_def using assms
  by (intro exI [of _ "[Submitted i st]"])
    (auto simp: reported_in_entry channel_mark_reported_def channel_ledger_def intro: marked_reports(1) dest: marked_reports(2))

lemma told_processor:
  assumes "\<And>j. reported_entry j (pr_ledger p) = reported_entry j (pr_ledger (ch_processor c))"
  shows "told_first c (with_processor p n evs c)"
  using assms by (intro told_same) (auto simp: with_processor_def reported_in_entry)

interpretation telling: channel_relation env told_first for env
proof unfold_locales
  fix c i k again out p
  show "told_first c (with_processor p 1 [] c)" if "processor_resume (en_io env (ch_tick c)) i k again (ch_processor c) = (out, p)"
    using resume_reports [of _ "en_io env (ch_tick c)" i k again "ch_processor c"] that by (intro told_processor) simp
next
  fix c failure outcome p
  show "told_first c (with_processor p 2 [] c)"
    if "processor_unreadable (en_io env (ch_tick c)) (en_io env (Suc (ch_tick c))) (en_now env (ch_tick c)) failure (ch_processor c) = (outcome, p)"
    using unreadable_reports [of _ "en_io env (ch_tick c)" "en_io env (Suc (ch_tick c))" "en_now env (ch_tick c)" failure "ch_processor c"] that
    by (intro told_processor) simp
next
  fix c command outcome p call
  show "told_first c (with_processor p 2 (case call of None \<Rightarrow> [] | Some (run, dry_run) \<Rightarrow> [Executed run dry_run (en_now env (ch_tick c))]) c)"
    if "processor_handle (channel_processor_env env (ch_tick c)) (ch_options c) (en_io env (ch_tick c)) (en_io env (Suc (ch_tick c))) (en_now env (ch_tick c))
      command (ch_processor c) = (outcome, p, call)"
    using handle_reports [OF that] by (intro told_processor)
qed (auto intro: told_trans told_marked told_same simp: same_core_def reported_in_entry)

text \<open>
  C4. A result is written off as delivered only when the Manager took it or will never take it: after a
  step an id is newly marked as reported only if in this step a submission for it was answered or refused, and
  a mark once made stays.
\<close>

theorem reported_only_when_told:
  assumes "channel_step env c = Some (wait, c')"
  shows "\<exists>evs. ch_trace c' = ch_trace c @ evs \<and>
    (\<forall>i. (reported_in i c \<longrightarrow> reported_in i c') \<and>
      (reported_in i c' \<and> \<not> reported_in i c \<longrightarrow> Submitted i answered \<in> set evs \<or> Submitted i refused \<in> set evs))"
  using telling.step [of env c] assms unfolding told_first_def by auto

section \<open>A healthy step delivers\<close>

definition healthy :: "channel_env \<Rightarrow> bool" where
  "healthy env \<longleftrightarrow> (\<forall>n. en_io env n = Append_ok) \<and> (\<forall>n body. pr_status (en_submit env n body) = answered)"

text \<open>The ledger takes appends, and its ids are not empty.\<close>

definition usable :: "command_channel \<Rightarrow> bool" where
  "usable c \<longleftrightarrow> cl_writable (channel_ledger c) \<and> map_of (cl_entries (channel_ledger c)) [] = None"

definition entry_of :: "command_channel \<Rightarrow> bytes \<Rightarrow> ledger_entry option" where
  "entry_of c = map_of (cl_entries (channel_ledger c))"

text \<open>The entry of \<open>i\<close> ends reported, the others are as they were.\<close>

definition closes :: "bytes \<Rightarrow> command_channel \<Rightarrow> command_channel \<Rightarrow> bool" where
  "closes i c c' \<longleftrightarrow> usable c' \<and> (\<forall>j. j \<noteq> i \<longrightarrow> entry_of c' j = entry_of c j) \<and>
     (entry_of c i = None \<and> entry_of c' i = None \<or> (\<exists>e. entry_of c' i = Some e \<and> le_state e = Reported))"

lemma append_ok:
  assumes "cl_writable l"
  shows "\<exists>l1. ledger_append Append_ok line l = (Inr True, l1) \<and> cl_writable l1 \<and> cl_entries l1 = cl_entries l"
  using assms by (simp add: ledger_append_def set_disk_def)

lemma mark_done_ok:
  assumes "cl_writable l" "map_of (cl_entries l) i = Some e" "le_state e = Received" "reason_code_ok r" "outcome_ok out"
  shows "cl_writable (snd (mark_done Append_ok i out r d l)) \<and>
    (\<exists>e'. map_of (cl_entries (snd (mark_done Append_ok i out r d l))) = (map_of (cl_entries l))(i \<mapsto> e') \<and> le_state e' = Done)"
proof -
  obtain l1 where "ledger_append Append_ok (done_line i out r (clean maximum_detail_bytes d)) l = (Inr True, l1)" "cl_writable l1" "cl_entries l1 = cl_entries l"
    using append_ok [OF assms(1)] by blast
  with assms show ?thesis by (auto simp: mark_done_def ledger_find_def Let_def map_of_update)
qed

lemma mark_reported_ok:
  assumes "cl_writable l"
  shows "cl_writable (snd (mark_reported Append_ok i l)) \<and>
    map_of (cl_entries (snd (mark_reported Append_ok i l))) = (case map_of (cl_entries l) i of None \<Rightarrow> map_of (cl_entries l) | Some e \<Rightarrow>
      if le_state e = Done then (map_of (cl_entries l))(i \<mapsto> e\<lparr>le_state := Reported\<rparr>) else map_of (cl_entries l))"
proof -
  obtain l1 where "ledger_append Append_ok (reported_line i) l = (Inr True, l1)" "cl_writable l1" "cl_entries l1 = cl_entries l"
    using append_ok [OF assms(1)] by blast
  with assms show ?thesis by (simp add: mark_reported_def ledger_find_def map_of_update split: option.split)
qed

lemma report_ledger:
  assumes "healthy env" "co_command_id outcome \<noteq> []"
  shows "channel_ledger (channel_report env audit outcome c) = snd (mark_reported Append_ok (co_command_id outcome) (channel_ledger c))"
  using assms by (simp add: healthy_def channel_report_def channel_mark_reported_def channel_ledger_def Let_def)

lemma report_closes:
  assumes "healthy env" "usable c" "co_command_id outcome \<noteq> []" "\<And>e. entry_of c (co_command_id outcome) = Some e \<Longrightarrow> le_state e \<noteq> Received"
  shows "closes (co_command_id outcome) c (channel_report env audit outcome c)"
proof -
  define i where "i = co_command_id outcome"
  have state: "le_state e = Done \<or> le_state e = Reported" if "entry_of c i = Some e" for e
    using assms(4) that by (cases "le_state e") (auto simp: i_def)
  from assms(2) mark_reported_ok [of "channel_ledger c" i] assms(3) state show ?thesis
    unfolding closes_def usable_def entry_of_def report_ledger [OF assms(1,3)] i_def [symmetric]
    by (auto simp: i_def split: option.splits if_splits)
qed

lemma resume_closes:
  assumes "healthy env" "usable c" "i \<noteq> []"
  shows "closes i c (channel_resume env i k None c)"
proof (cases "entry_of c i")
  case None
  then show ?thesis using assms(2) by (simp add: channel_resume_def processor_resume_def ledger_find_def closes_def usable_def entry_of_def channel_ledger_def)
next
  case (Some e)
  obtain out p where run: "processor_resume Append_ok i k None (ch_processor c) = (Some out, p)" "co_command_id out = i"
    "pr_ledger p = (if le_state e = Received then snd (mark_done Append_ok i (ascii ''indeterminate'') (ascii ''interrupted'') (co_detail out) (channel_ledger c))
      else channel_ledger c)"
  proof -
    have find: "ledger_find i (pr_ledger (ch_processor c)) = Some e" using Some by (simp add: entry_of_def ledger_find_def channel_ledger_def)
    obtain out0 p where run: "processor_resume Append_ok i k None (ch_processor c) = (out0, p)" by (rule prod.exhaust)
    from run have "out0 = fst (processor_resume Append_ok i k None (ch_processor c))" "p = snd (processor_resume Append_ok i k None (ch_processor c))"
      by simp_all
    then have "\<exists>out. out0 = Some out \<and> co_command_id out = i \<and> pr_ledger p = (if le_state e = Received then
        snd (mark_done Append_ok i (ascii ''indeterminate'') (ascii ''interrupted'') (co_detail out) (channel_ledger c)) else channel_ledger c)"
      unfolding processor_resume_def find option.case Let_def by (cases "le_state e = Received") (simp_all add: channel_ledger_def)
    with run that show thesis by blast
  qed
  define c1 where "c1 = c\<lparr>ch_processor := p, ch_tick := Suc (ch_tick c)\<rparr>"
  have codes: "reason_code_ok (ascii ''interrupted'')" "outcome_ok (ascii ''indeterminate'')" by (simp_all add: reason_code_ok_def outcome_ok_def ascii_def)
  have writable: "cl_writable (channel_ledger c)" "map_of (cl_entries (channel_ledger c)) i = Some e" "map_of (cl_entries (channel_ledger c)) [] = None"
    using assms(2) Some by (simp_all add: usable_def entry_of_def)
  have c1: "usable c1 \<and> (\<forall>j. j \<noteq> i \<longrightarrow> entry_of c1 j = entry_of c j) \<and> (\<exists>e'. entry_of c1 i = Some e' \<and> le_state e' \<noteq> Received)"
  proof (cases "le_state e = Received")
    case True
    from mark_done_ok [OF writable(1,2) True codes, of "co_detail out"] writable assms(3) run(3) True show ?thesis
      by (auto simp: usable_def entry_of_def c1_def channel_ledger_def)
  next
    case False
    with writable run(3) show ?thesis by (auto simp: usable_def entry_of_def c1_def channel_ledger_def)
  qed
  have "channel_resume env i k None c = channel_report env True out c1"
    using run(1) assms(1) by (simp add: channel_resume_def c1_def healthy_def)
  with report_closes [OF assms(1), of c1 out True] c1 run(2) assms(3) show ?thesis by (auto simp: closes_def)
qed

definition is_reported :: "command_channel \<Rightarrow> bytes \<Rightarrow> bool" where
  "is_reported c j \<longleftrightarrow> (\<exists>e. entry_of c j = Some e \<and> le_state e = Reported)"

lemma closes_reported:
  assumes "closes i c c'"
  shows "entry_of c i \<noteq> None \<Longrightarrow> is_reported c' i" "is_reported c j \<Longrightarrow> is_reported c' j" "j \<noteq> i \<Longrightarrow> entry_of c' j = entry_of c j" "usable c'"
  using assms by (cases "j = i"; auto simp: closes_def is_reported_def)+

lemma fold_closes:
  assumes "\<And>x c. x \<in> set xs \<Longrightarrow> usable c \<Longrightarrow> (\<And>e. entry_of c (fst x) = Some e \<Longrightarrow> P e) \<Longrightarrow> closes (fst x) c (f x c)"
    "usable c" "\<And>x e. x \<in> set xs \<Longrightarrow> entry_of c (fst x) = Some e \<Longrightarrow> P e" "\<And>e. le_state e = Reported \<Longrightarrow> P e"
  shows "usable (fold f xs c) \<and> (\<forall>j. j \<notin> fst ` set xs \<longrightarrow> entry_of (fold f xs c) j = entry_of c j) \<and>
    (\<forall>j. j \<in> fst ` set xs \<longrightarrow> entry_of c j \<noteq> None \<longrightarrow> is_reported (fold f xs c) j) \<and> (\<forall>j. is_reported c j \<longrightarrow> is_reported (fold f xs c) j)"
  using assms
proof (induction xs arbitrary: c)
  case (Cons x xs)
  define c1 where "c1 = f x c"
  have closed: "closes (fst x) c c1" unfolding c1_def by (rule Cons.prems(1)) (auto intro: Cons.prems(2,3))
  note one = closes_reported [OF closed]
  have kept: "P e" if "y \<in> set xs" "entry_of c1 (fst y) = Some e" for y e
  proof (cases "fst y = fst x")
    case True
    with that(2) closed have "le_state e = Reported" by (auto simp: closes_def)
    then show ?thesis by (rule Cons.prems(4))
  next
    case False
    from one(3) [OF False] that Cons.prems(3) [of y e] show ?thesis by simp
  qed
  have IH: "usable (fold f xs c1) \<and> (\<forall>j. j \<notin> fst ` set xs \<longrightarrow> entry_of (fold f xs c1) j = entry_of c1 j) \<and>
    (\<forall>j. j \<in> fst ` set xs \<longrightarrow> entry_of c1 j \<noteq> None \<longrightarrow> is_reported (fold f xs c1) j) \<and> (\<forall>j. is_reported c1 j \<longrightarrow> is_reported (fold f xs c1) j)"
    by (rule Cons.IH [OF Cons.prems(1) one(4) kept Cons.prems(4)]) simp_all
  have "is_reported (fold f xs c1) j" if "j \<in> fst ` set (x # xs)" "entry_of c j \<noteq> None" for j
  proof (cases "j = fst x")
    case True
    with one(1) that(2) IH show ?thesis by simp
  next
    case False
    with that(1) have "j \<in> fst ` set xs" by auto
    with IH one(3) [OF False] that(2) show ?thesis by simp
  qed
  moreover have "is_reported (fold f xs c1) j" if "is_reported c j" for j using one(2) [OF that] IH by blast
  moreover have "entry_of (fold f xs c1) j = entry_of c j" if "j \<notin> fst ` set (x # xs)" for j using IH one(3) that by auto
  ultimately show ?case using IH by (simp add: c1_def)
qed simp

lemma listed_entries:
  assumes "distinct (map fst (cl_entries l))"
  shows "(i, e) \<in> set (interrupted l) \<longleftrightarrow> map_of (cl_entries l) i = Some e \<and> le_state e = Received"
    "(i, e) \<in> set (unreported l) \<longleftrightarrow> map_of (cl_entries l) i = Some e \<and> le_state e = Done"
  using assms by (auto simp: interrupted_def unreported_def)

text \<open>The ledger stays well-formed through a step.\<close>

definition keeps_ok :: "channel_env \<Rightarrow> command_channel \<Rightarrow> command_channel \<Rightarrow> bool" where
  "keeps_ok env c c' \<longleftrightarrow> (clock_ok env \<and> ledger_ok (channel_ledger c) \<longrightarrow> ledger_ok (channel_ledger c'))"

lemma keeps_ops:
  assumes "clock_ok env \<Longrightarrow> ledger_ops (pr_ledger (ch_processor c)) (pr_ledger (ch_processor c'))"
  shows "keeps_ok env c c'"
  using assms ledger_ops_keep by (auto simp: keeps_ok_def channel_ledger_def)

interpretation sound: channel_relation env "keeps_ok env" for env
proof unfold_locales
  fix c i k again out p
  show "keeps_ok env c (with_processor p 1 [] c)" if "processor_resume (en_io env (ch_tick c)) i k again (ch_processor c) = (out, p)"
    using resume_ops [of "ch_processor c" "en_io env (ch_tick c)" i k again] that by (intro keeps_ops) (simp add: with_processor_def)
next
  fix c failure outcome p
  show "keeps_ok env c (with_processor p 2 [] c)"
    if "processor_unreadable (en_io env (ch_tick c)) (en_io env (Suc (ch_tick c))) (en_now env (ch_tick c)) failure (ch_processor c) = (outcome, p)"
    using unreadable_ops [of "en_now env (ch_tick c)" "ch_processor c" "en_io env (ch_tick c)" "en_io env (Suc (ch_tick c))" failure] that
      clock_bound [of env "ch_tick c"] by (intro keeps_ops) (simp add: with_processor_def)
next
  fix c command outcome p call
  show "keeps_ok env c (with_processor p 2 (case call of None \<Rightarrow> [] | Some (run, dry_run) \<Rightarrow> [Executed run dry_run (en_now env (ch_tick c))]) c)"
    if "command_ok command" "processor_handle (channel_processor_env env (ch_tick c)) (ch_options c) (en_io env (ch_tick c)) (en_io env (Suc (ch_tick c)))
      (en_now env (ch_tick c)) command (ch_processor c) = (outcome, p, call)"
    using handle_ops [of command "ch_processor c" "channel_processor_env env (ch_tick c)" "ch_options c" "en_io env (ch_tick c)" "en_io env (Suc (ch_tick c))"
        "en_now env (ch_tick c)"] that by (intro keeps_ops) (simp add: with_processor_def command_ok_def)
next
  fix st c i f
  show "keeps_ok env c (channel_mark_reported env i (with_metrics f (c\<lparr>ch_tick := Suc (ch_tick c), ch_trace := ch_trace c @ [Submitted i st]\<rparr>)))"
    using ledger_op_intros(3) by (intro keeps_ops) (auto simp: channel_mark_reported_def channel_ledger_def)
qed (auto simp: keeps_ok_def same_core_def channel_ledger_def)

lemma usable_ok: "ledger_ok (channel_ledger c) \<Longrightarrow> cl_writable (channel_ledger c) \<Longrightarrow> usable c"
  by (auto simp: usable_def ledger_ok_def entries_ok_def list_all_iff entry_ok_def command_id_ok_def is_valid_identifier_def map_of_eq_None_iff)

lemma ledger_ok_distinct: "ledger_ok l \<Longrightarrow> distinct (map fst (cl_entries l))"
  by (simp add: ledger_ok_def entries_ok_def)

definition resume_all :: "channel_env \<Rightarrow> command_channel \<Rightarrow> command_channel" where
  "resume_all env c = fold (\<lambda>(i, e). channel_resume env i (le_correlation_id e) None) (interrupted (channel_ledger c)) c"

lemma resume_all_ok: "clock_ok env \<Longrightarrow> ledger_ok (channel_ledger c) \<Longrightarrow> ledger_ok (channel_ledger (resume_all env c))"
proof -
  have "keeps_ok env c (resume_all env c)" unfolding resume_all_def by (rule sound.through_fold) (auto intro: sound.resume)
  then show "clock_ok env \<Longrightarrow> ledger_ok (channel_ledger c) \<Longrightarrow> ledger_ok (channel_ledger (resume_all env c))" by (simp add: keeps_ok_def)
qed

text \<open>After the first loop nothing is left interrupted, and nothing is forgotten.\<close>

lemma resume_all_closes:
  assumes "healthy env" "ledger_ok (channel_ledger c)" "cl_writable (channel_ledger c)"
  shows "usable (resume_all env c)" "entry_of c j \<noteq> None \<Longrightarrow> \<exists>e. entry_of (resume_all env c) j = Some e \<and> le_state e \<noteq> Received"
proof -
  have u: "usable c" using usable_ok [OF assms(2,3)] .
  note listed = listed_entries(1) [OF ledger_ok_distinct [OF assms(2)]]
  have named: "fst x \<noteq> []" if "x \<in> set (interrupted (channel_ledger c))" for x
  proof -
    from that listed [of "fst x" "snd x"] have "map_of (cl_entries (channel_ledger c)) (fst x) = Some (snd x)" by simp
    with u show ?thesis by (auto simp: usable_def)
  qed
  have "closes (fst x) d ((\<lambda>(i, e). channel_resume env i (le_correlation_id e) None) x d)" if "x \<in> set (interrupted (channel_ledger c))" "usable d" for x d
    using resume_closes [OF assms(1) that(2) named [OF that(1)]] by (simp add: case_prod_beta)
  from fold_closes [where P = "\<lambda>_. True", OF this u]
  have one: "usable (resume_all env c)" "\<And>j. j \<notin> fst ` set (interrupted (channel_ledger c)) \<Longrightarrow> entry_of (resume_all env c) j = entry_of c j"
    "\<And>j. j \<in> fst ` set (interrupted (channel_ledger c)) \<Longrightarrow> entry_of c j \<noteq> None \<Longrightarrow> is_reported (resume_all env c) j"
    unfolding resume_all_def by blast+
  show "usable (resume_all env c)" by (rule one)
  assume known: "entry_of c j \<noteq> None"
  show "\<exists>e. entry_of (resume_all env c) j = Some e \<and> le_state e \<noteq> Received"
  proof (cases "j \<in> fst ` set (interrupted (channel_ledger c))")
    case True
    from one(3) [OF True known] show ?thesis by (auto simp: is_reported_def)
  next
    case False
    from known obtain e where e: "entry_of c j = Some e" by blast
    with False listed [of j e] have "le_state e \<noteq> Received" by (auto simp: entry_of_def image_iff)
    with e one(2) [OF False] show ?thesis by simp
  qed
qed

lemma settle_reports:
  assumes "healthy env" "clock_ok env" "ledger_ok (channel_ledger c)" "cl_writable (channel_ledger c)" "entry_of c j \<noteq> None"
  shows "is_reported (settle_ledger env c) j"
proof -
  define c1 where "c1 = resume_all env c"
  obtain e where c1: "usable c1" "entry_of c1 j = Some e" "le_state e \<noteq> Received"
    using resume_all_closes [OF assms(1,3,4)] assms(5) unfolding c1_def by blast
  have ok: "ledger_ok (channel_ledger c1)" unfolding c1_def by (rule resume_all_ok [OF assms(2,3)])
  note listed = listed_entries(2) [OF ledger_ok_distinct [OF ok]]
  have finished: "le_state e \<noteq> Received" if "x \<in> set (unreported (channel_ledger c1))" "entry_of c1 (fst x) = Some e" for x e
    using that listed [of "fst x" "snd x"] by (simp add: entry_of_def)
  have named: "fst x \<noteq> []" if "x \<in> set (unreported (channel_ledger c1))" for x
  proof -
    from that listed [of "fst x" "snd x"] have "map_of (cl_entries (channel_ledger c1)) (fst x) = Some (snd x)" by simp
    with c1(1) show ?thesis by (auto simp: usable_def)
  qed
  have "closes (fst x) d ((\<lambda>(i, e). channel_report env False (again_outcome i e)) x d)"
    if "x \<in> set (unreported (channel_ledger c1))" "usable d" "\<And>e. entry_of d (fst x) = Some e \<Longrightarrow> le_state e \<noteq> Received" for x d
    using report_closes [OF assms(1) that(2), of "again_outcome (fst x) (snd x)"] named [OF that(1)] that(3) by (simp add: case_prod_beta again_outcome_def)
  note closed = this
  have "(\<forall>j. j \<in> fst ` set (unreported (channel_ledger c1)) \<longrightarrow> entry_of c1 j \<noteq> None \<longrightarrow> is_reported (settle_ledger env c) j) \<and>
      (\<forall>j. is_reported c1 j \<longrightarrow> is_reported (settle_ledger env c) j)"
    using fold_closes [where P = "\<lambda>e. le_state e \<noteq> Received", OF closed c1(1) finished]
    unfolding settle_ledger_def Let_def c1_def resume_all_def by simp
  then have two: "\<And>j. j \<in> fst ` set (unreported (channel_ledger c1)) \<Longrightarrow> entry_of c1 j \<noteq> None \<Longrightarrow> is_reported (settle_ledger env c) j"
    "\<And>j. is_reported c1 j \<Longrightarrow> is_reported (settle_ledger env c) j" by blast+
  from c1(3) consider "le_state e = Done" | "le_state e = Reported" by (cases "le_state e") auto
  then show ?thesis
  proof cases
    case 1
    with c1(2) listed [of j e] have "j \<in> fst ` set (unreported (channel_ledger c1))" by (force simp: entry_of_def image_iff)
    from two(1) [OF this] c1(2) show ?thesis by simp
  next
    case 2
    with c1(2) have "is_reported c1 j" by (simp add: is_reported_def)
    then show ?thesis by (rule two(2))
  qed
qed

lemma healthy_reports:
  assumes "healthy env" "clock_ok env" "ledger_ok (channel_ledger c)" "cl_writable (channel_ledger c)" "ledger_find i (channel_ledger c) \<noteq> None"
  shows "\<exists>wait c'. channel_step env c = Some (wait, c') \<and> reported_in i c'"
proof -
  define c0 where "c0 = channel_refresh env (with_metrics (\<lambda>m. m\<lparr>cm_polls := cm_polls m + 1\<rparr>) c)"
  have [simp]: "channel_ledger c0 = channel_ledger c" by (simp add: c0_def channel_refresh_def channel_ledger_def)
  have "is_reported (settle_ledger env c0) i" by (rule settle_reports) (use assms in \<open>simp_all add: entry_of_def ledger_find_def\<close>)
  then have "reported_in i (before_poll env c)"
    by (simp add: before_poll_def c0_def [symmetric] is_reported_def reported_in_def entry_of_def ledger_find_def)
  with telling.from_poll [of env c] show ?thesis unfolding told_first_def by blast
qed

text \<open>
  C5. A step in which the disk takes every append and the Manager answers every submission leaves nothing
  owed: every command the ledger knew before the step, interrupted, finished or told, is marked as reported after it.
\<close>

theorem healthy_step_delivers:
  assumes "healthy env" "clock_ok env" "ledger_ok (channel_ledger c)" "cl_writable (channel_ledger c)" "ledger_find i (channel_ledger c) \<noteq> None"
  shows "\<exists>wait c'. channel_step env c = Some (wait, c') \<and> reported_in i c'"
  using assms by (rule healthy_reports)

section \<open>A step that closes an interrupted command\<close>

definition sample_net :: channel_env where
  "sample_net = \<lparr>en_verify_raw = (\<lambda>_ _ _. Inr True), en_execute = (\<lambda>_. pe_execute sample_env), en_collected = None, en_in_range = (\<lambda>_. True),
     en_io = (\<lambda>_. Append_ok), en_now = (\<lambda>_. 1000), en_submit = (\<lambda>_ _. \<lparr>pr_status = answered, pr_http_status = 200, pr_body = [], pr_detail = []\<rparr>),
     en_accept = (\<lambda>_ _. \<lparr>pr_status = retry, pr_http_status = 0, pr_body = [], pr_detail = []\<rparr>),
     en_poll = (\<lambda>_. \<lparr>pr_status = retry, pr_http_status = 0, pr_body = [], pr_detail = []\<rparr>),
     en_key_info = None, en_key_file = \<lparr>kf_path = [], kf_untrusted = [], kf_lines = None\<rparr>\<rparr>"

definition sample_channel :: command_channel where
  "sample_channel =
     \<lparr>ch_options = sample_options, ch_poll_interval_ms = 5000, ch_maximum_backoff_ms = 60000,
      ch_processor = \<lparr>pr_ledger = snd (mark_received Append_ok (ascii ''c1'') (ascii ''k'') 2000 sample_ledger), pr_change_times = []\<rparr>,
      ch_metrics = \<lparr>cm_polls = 0, cm_commands_seen = 0, cm_executed = 0, cm_rejected = 0, cm_results_reported = 0, cm_result_failures = 0, cm_unreadable = 0,
        cm_authorization_refused = 0, cm_last_error = []\<rparr>,
      ch_backoff_ms = 0, ch_state = ''active'', ch_tick = 0, ch_trace = []\<rparr>"

lemma sample_net_ok: "healthy sample_net" "clock_ok sample_net"
  by (simp_all add: healthy_def clock_ok_def sample_net_def)

lemma sample_interrupted: "ledger_find (ascii ''c1'') (channel_ledger sample_channel) = Some (new_entry (ascii ''k'') 2000)"
  using sample_received by (simp add: sample_channel_def channel_ledger_def ledger_find_def)

lemma sample_channel_ok: "ledger_ok (channel_ledger sample_channel)" "cl_writable (channel_ledger sample_channel)"
proof -
  have start: "ledger_ok sample_ledger" using sample_ledger_opens by (auto elim: ledger_open_spec)
  have "ledger_ops sample_ledger (snd (mark_received Append_ok (ascii ''c1'') (ascii ''k'') 2000 sample_ledger))" by (intro r_into_rtranclp ledger_op_intros) simp
  from ledger_ops_keep [OF this start] show "ledger_ok (channel_ledger sample_channel)" by (simp add: sample_channel_def channel_ledger_def)
  show "cl_writable (channel_ledger sample_channel)"
    by (simp add: sample_channel_def channel_ledger_def mark_received_def command_id_ok_def maximum_command_id_bytes_def is_valid_identifier_def alnum_def ascii_def
        ledger_find_def ledger_append_def set_disk_def put_entry_def sample_ledger_def)
qed

lemmas sample_reports = healthy_reports [OF sample_net_ok sample_channel_ok, of "ascii ''c1''"]

definition sample_history :: world where
  "sample_history = sample_world\<lparr>w_agent := Running (ch_processor sample_channel)\<rparr>"

theorem channel_step_refines_witness:
  "\<exists>wait c' w'. channel_step sample_net sample_channel = Some (wait, c') \<and> (world_step 4 sample_policy)\<^sup>*\<^sup>* sample_history w' \<and>
     w_agent w' = Running (ch_processor c') \<and> \<not> w_lost w'"
  using channel_step_refines [OF sample_net_ok(2), of sample_channel sample_history 4]
  by (fastforce simp: follows_def sample_history_def sample_world_def sample_net_def sample_channel_def sample_options_def)

theorem reported_only_when_told_witness:
  "\<exists>wait c'. channel_step sample_net sample_channel = Some (wait, c') \<and>
     (Submitted (ascii ''c1'') answered \<in> set (ch_trace c') \<or> Submitted (ascii ''c1'') refused \<in> set (ch_trace c'))"
proof -
  obtain wait c' where step: "channel_step sample_net sample_channel = Some (wait, c')" "reported_in (ascii ''c1'') c'"
    using sample_reports sample_interrupted by auto
  have "\<not> reported_in (ascii ''c1'') sample_channel" by (simp add: reported_in_def sample_interrupted new_entry_def)
  with reported_only_when_told [OF step(1)] step show ?thesis by (auto simp: sample_channel_def)
qed

theorem healthy_step_delivers_witness:
  "\<exists>wait c'. channel_step sample_net sample_channel = Some (wait, c') \<and> reported_in (ascii ''c1'') c'"
  by (rule healthy_step_delivers [OF sample_net_ok sample_channel_ok]) (simp add: sample_interrupted)

end
