(* ===== verification/Response.thy ===== *)
theory Response
  imports Process_Info
begin

text \<open>
  Ending a process and its descendants, \<^verbatim>\<open>src/response.cpp\<close>. The kernel is an argument: what each system
  call returns at each moment, where a moment is one call of the responder. A pidfd is the process instance
  it refers to. \<open>rs_sent\<close> keeps every signal the responder asked for, with the kernel's answer, and \<open>rs_scans\<close>
  every process table it read, with the moments its reading began and ended; both are there to state what the
  responder did, and no operation looks at them.
\<close>

section \<open>Data\<close>

datatype response_status =
    Dry_run | Terminated | Signalled | Already_gone | Refused_invalid | Refused_protected | Refused_mismatch | Refused_limit | Response_failed

record process_identity =
  id_host :: string
  id_pid :: u32
  id_start :: u64

record response_options =
  rp_dry_run :: bool
  rp_allow_pid_fallback :: bool
  rp_force_pid_fallback :: bool
  rp_escalate_to_kill :: bool
  rp_grace :: int
  rp_maximum_tree_size :: nat

record response_outcome =
  rr_status :: response_status
  rr_mode :: string
  rr_affected :: "process_identity list"
  rr_detail :: string

datatype signal_number = SIGTERM | SIGKILL | SIGSTOP | SIGCONT

definition EPERM :: nat where "EPERM = 1"
definition ESRCH :: nat where "ESRCH = 3"
definition EACCES :: nat where "EACCES = 13"
definition ENOSYS :: nat where "ENOSYS = 38"

text \<open>
  The answers of the kernel. The clock is \<open>kn_now\<close>, which counts everything but the sleeps the
  responder asks for, and those.
\<close>

record kernel =
  kn_self :: u32
  kn_stat :: "nat \<Rightarrow> u32 \<Rightarrow> string option"
  kn_proc :: "nat \<Rightarrow> string list \<times> bool"
  kn_pidfd_open :: "nat \<Rightarrow> u32 \<Rightarrow> nat + nat"
  kn_pidfd_send_signal :: "nat \<Rightarrow> nat \<Rightarrow> signal_number \<Rightarrow> nat"
  kn_kill :: "nat \<Rightarrow> u32 \<Rightarrow> signal_number \<Rightarrow> nat"
  kn_poll :: "nat \<Rightarrow> nat \<Rightarrow> bool"
  kn_now :: "nat \<Rightarrow> nat"

datatype route = By_pidfd nat | By_pid u32

record scanned_process =
  sp_parent :: u32
  sp_start :: u64

type_synonym process_table = "(u32 \<times> scanned_process) list"

datatype sent = Sent (sent_at: nat) (sent_by: route) (sent_signal: signal_number) (sent_code: nat)

record responder =
  rs_tick :: nat
  rs_slept :: nat
  rs_sent :: "sent list"
  rs_scans :: "(nat \<times> nat \<times> process_table) list"

definition tick :: "responder \<Rightarrow> responder" where
  "tick s = s\<lparr>rs_tick := Suc (rs_tick s)\<rparr>"

definition record_sent :: "route \<Rightarrow> signal_number \<Rightarrow> nat \<Rightarrow> responder \<Rightarrow> responder" where
  "record_sent r sig e s = (tick s)\<lparr>rs_sent := rs_sent s @ [Sent (rs_tick s) r sig e]\<rparr>"

section \<open>The stat line\<close>

record stat_view =
  sv_state :: char
  sv_parent :: u32
  sv_start :: u64

text \<open>\<open>std::from_chars\<close> on a whole field.\<close>

definition whole_number :: "nat \<Rightarrow> string \<Rightarrow> nat option" where
  "whole_number limit str =
     (if str \<noteq> [] \<and> list_all (\<lambda>c. digit_of 10 c \<noteq> None) str \<and> number_of 10 str \<le> limit then Some (number_of 10 str) else None)"

definition parse_stat_view :: "string \<Rightarrow> stat_view option" where
  "parse_stat_view str =
     (case rfind_char CHR '')'' str of
        None \<Rightarrow> None
      | Some close_at \<Rightarrow>
          if length str \<le> close_at + 2 then None
          else
            let found = take 20 (cut_all CHR '' '' (drop (close_at + 2) str))
            in if length found < 20 \<or> length (found ! 0) \<noteq> 1 then None
               else case (whole_number (2 ^ 32 - 1) (found ! 1), whole_number (2 ^ 64 - 1) (found ! 19)) of
                      (Some parent, Some start) \<Rightarrow> Some \<lparr>sv_state = hd (found ! 0), sv_parent = of_nat parent, sv_start = of_nat start\<rparr>
                    | _ \<Rightarrow> None)"

definition read_stat :: "kernel \<Rightarrow> u32 \<Rightarrow> responder \<Rightarrow> stat_view option \<times> responder" where
  "read_stat k pid s =
     (case kn_stat k (rs_tick s) pid of None \<Rightarrow> None | Some str \<Rightarrow> parse_stat_view (take 8192 str), tick s)"

section \<open>Handles\<close>

record process_handle =
  ph_descriptor :: "nat option"
  ph_pid :: u32
  ph_start :: u64

datatype opened = Held process_handle | Not_held bool string

definition handle_verify :: "kernel \<Rightarrow> u32 \<Rightarrow> u64 \<Rightarrow> nat option \<Rightarrow> responder \<Rightarrow> opened \<times> responder" where
  "handle_verify k pid expected_start descriptor s =
     (case read_stat k pid s of (stat, s1) \<Rightarrow>
        (if map_option sv_start stat \<noteq> Some expected_start then Not_held True ''the PID no longer belongs to the process that was named''
         else Held \<lparr>ph_descriptor = descriptor, ph_pid = pid, ph_start = expected_start\<rparr>, s1))"

definition without_pidfd :: "kernel \<Rightarrow> response_options \<Rightarrow> u32 \<Rightarrow> u64 \<Rightarrow> responder \<Rightarrow> opened \<times> responder" where
  "without_pidfd k opts pid expected_start s =
     (if \<not> rp_allow_pid_fallback opts then (Not_held False ''pidfd is unavailable and PID fallback is disabled'', s)
      else handle_verify k pid expected_start None s)"

definition handle_open :: "kernel \<Rightarrow> response_options \<Rightarrow> u32 \<Rightarrow> u64 \<Rightarrow> responder \<Rightarrow> opened \<times> responder" where
  "handle_open k opts pid expected_start s =
     (if rp_force_pid_fallback opts then without_pidfd k opts pid expected_start s
      else case kn_pidfd_open k (rs_tick s) pid of
             Inr descriptor \<Rightarrow> handle_verify k pid expected_start (Some descriptor) (tick s)
           | Inl e \<Rightarrow>
               if e = ESRCH then (Not_held True ''the process no longer exists'', tick s)
               else if e \<noteq> ENOSYS \<and> e \<noteq> EPERM \<and> e \<noteq> EACCES then (Not_held False (''pidfd_open failed: errno '' @ to_string e), tick s)
               else without_pidfd k opts pid expected_start (tick s))"

definition handle_mode :: "process_handle \<Rightarrow> string" where
  "handle_mode h = (if ph_descriptor h \<noteq> None then ''pidfd'' else ''pid_fallback'')"

definition gone :: "process_handle \<Rightarrow> stat_view option \<Rightarrow> bool" where
  "gone h stat \<longleftrightarrow>
     (case stat of None \<Rightarrow> True | Some st \<Rightarrow> sv_start st \<noteq> ph_start h \<or> sv_state st = CHR ''Z'' \<or> sv_state st = CHR ''X'')"

definition handle_send :: "kernel \<Rightarrow> process_handle \<Rightarrow> signal_number \<Rightarrow> responder \<Rightarrow> nat \<times> responder" where
  "handle_send k h sig s =
     (case ph_descriptor h of
        Some descriptor \<Rightarrow>
          let e = kn_pidfd_send_signal k (rs_tick s) descriptor sig in (e, record_sent (By_pidfd descriptor) sig e s)
      | None \<Rightarrow>
          (case read_stat k (ph_pid h) s of (stat, s1) \<Rightarrow>
             if gone h stat then (ESRCH, s1)
             else let e = kn_kill k (rs_tick s1) (ph_pid h) sig in (e, record_sent (By_pid (ph_pid h)) sig e s1)))"

definition handle_exited :: "kernel \<Rightarrow> process_handle \<Rightarrow> responder \<Rightarrow> bool \<times> responder" where
  "handle_exited k h s =
     (case ph_descriptor h of
        Some descriptor \<Rightarrow> (kn_poll k (rs_tick s) descriptor, tick s)
      | None \<Rightarrow> (case read_stat k (ph_pid h) s of (stat, s1) \<Rightarrow> (gone h stat, s1)))"

text \<open>
  \<open>wait_exit\<close>. Each round sleeps five milliseconds, so after \<open>limit div 5 + 2\<close> rounds the deadline
  has passed.
\<close>

definition steady_now :: "kernel \<Rightarrow> responder \<Rightarrow> nat" where
  "steady_now k s = kn_now k (rs_tick s) + rs_slept s"

definition sleep_5ms :: "responder \<Rightarrow> responder" where
  "sleep_5ms s = s\<lparr>rs_slept := rs_slept s + 5000000\<rparr>"

fun wait_loop :: "kernel \<Rightarrow> process_handle \<Rightarrow> nat \<Rightarrow> nat \<Rightarrow> responder \<Rightarrow> bool \<times> responder" where
  "wait_loop k h deadline 0 s = (False, s)"
| "wait_loop k h deadline (Suc n) s =
     (case handle_exited k h s of (over, s1) \<Rightarrow>
        if over then (True, s1)
        else if deadline \<le> steady_now k s1 then (False, tick s1)
        else wait_loop k h deadline n (sleep_5ms (tick s1)))"

definition wait_exit :: "kernel \<Rightarrow> process_handle \<Rightarrow> nat \<Rightarrow> responder \<Rightarrow> bool \<times> responder" where
  "wait_exit k h limit s = wait_loop k h (steady_now k s + limit * 1000000) (limit div 5 + 2) (tick s)"

section \<open>The process table\<close>

definition maximum_scan_entries :: nat where "maximum_scan_entries = 131072"

definition maximum_ancestor_depth :: nat where "maximum_ancestor_depth = 64"

text \<open>\<open>out[pid] = ...\<close> on an ordered map.\<close>

fun table_put :: "u32 \<Rightarrow> scanned_process \<Rightarrow> process_table \<Rightarrow> process_table" where
  "table_put pid v [] = [(pid, v)]"
| "table_put pid v ((p, w) # t) = (if pid < p then (pid, v) # (p, w) # t else if pid = p then (pid, v) # t else (p, w) # table_put pid v t)"

fun scan_names :: "kernel \<Rightarrow> string list \<Rightarrow> nat \<Rightarrow> process_table \<Rightarrow> responder \<Rightarrow> process_table option \<times> responder" where
  "scan_names k [] visited table s = (Some table, s)"
| "scan_names k (name # names) visited table s =
     (case whole_number (2 ^ 32 - 1) name of
        None \<Rightarrow> scan_names k names visited table s
      | Some pid \<Rightarrow>
          if pid = 0 then scan_names k names visited table s
          else if maximum_scan_entries < visited + 1 then (None, s)
          else (case read_stat k (of_nat pid) s of (stat, s1) \<Rightarrow>
                  scan_names k names (visited + 1)
                    (case stat of None \<Rightarrow> table | Some st \<Rightarrow> table_put (of_nat pid) \<lparr>sp_parent = sv_parent st, sp_start = sv_start st\<rparr> table) s1))"

definition record_scan :: "nat \<Rightarrow> process_table option \<Rightarrow> responder \<Rightarrow> responder" where
  "record_scan began table s = (case table of None \<Rightarrow> s | Some t \<Rightarrow> s\<lparr>rs_scans := rs_scans s @ [(began, rs_tick s, t)]\<rparr>)"

definition scan_processes :: "kernel \<Rightarrow> responder \<Rightarrow> process_table option \<times> responder" where
  "scan_processes k s =
     (case kn_proc k (rs_tick s) of (names, failed_at) \<Rightarrow>
        (case scan_names k names 0 [] (tick s) of (table, s1) \<Rightarrow>
           let result = (if failed_at then None else table) in (result, record_scan (rs_tick s) result s1)))"

definition children_of :: "process_table \<Rightarrow> u32 \<Rightarrow> u32 list" where
  "children_of table pid = map fst (filter (\<lambda>(_, sp). sp_parent sp = pid) table)"

text \<open>One inner loop of \<open>descendants_of\<close>: the children not yet seen; \<open>seen\<close> keeps what was inserted.\<close>

fun push_children :: "u32 list \<Rightarrow> u32 list \<Rightarrow> u32 list" where
  "push_children seen [] = []"
| "push_children seen (child # cs) = (if child \<in> set seen then push_children seen cs else child # push_children (child # seen) cs)"

lemma push_children_new: "set (push_children seen cs) = set cs - set seen" "distinct (push_children seen cs)"
  by (induction seen cs rule: push_children.induct) auto

function search :: "process_table \<Rightarrow> u32 list \<Rightarrow> u32 list \<Rightarrow> u32 list \<Rightarrow> u32 list" where
  "search table [] seen order = order"
| "search table (pid # queue) seen order =
     (let new = push_children seen (children_of table pid) in search table (queue @ new) (seen @ new) (order @ new))"
  by pat_completeness auto
termination
proof (relation "measure (\<lambda>(table, queue, seen, _). card (fst ` set table - set seen) + length queue)")
  fix table :: process_table and pid queue seen and order :: "u32 list" and new
  assume new: "new = push_children seen (children_of table pid)"
  have sub: "set new \<subseteq> fst ` set table - set seen" by (auto simp: new push_children_new children_of_def)
  have "fst ` set table - set (seen @ new) = (fst ` set table - set seen) - set new" by auto
  then have "card (fst ` set table - set (seen @ new)) = card (fst ` set table - set seen) - length new"
    using sub by (simp add: card_Diff_subset distinct_card new push_children_new(2))
  moreover have "length new \<le> card (fst ` set table - set seen)"
    using sub by (metis card_mono distinct_card finite_Diff finite_imageI finite_set new push_children_new(2))
  ultimately show "((table, queue @ new, seen @ new, order @ new), table, pid # queue, seen, order)
      \<in> measure (\<lambda>(table, queue, seen, _). card (fst ` set table - set seen) + length queue)" by simp
qed simp

definition descendants_of :: "process_table \<Rightarrow> u32 \<Rightarrow> u32 list" where
  "descendants_of table root_pid = search table [root_pid] [root_pid] []"

section \<open>What is never signalled\<close>

definition refusal :: "response_status \<Rightarrow> string \<Rightarrow> response_outcome" where
  "refusal status detail = \<lparr>rr_status = status, rr_mode = [], rr_affected = [], rr_detail = detail\<rparr>"

definition valid_target :: "process_identity \<Rightarrow> bool" where
  "valid_target target \<longleftrightarrow> id_pid target \<noteq> 0 \<and> id_start target \<noteq> 0"

fun ancestor_loop :: "kernel \<Rightarrow> u32 \<Rightarrow> nat \<Rightarrow> u32 \<Rightarrow> responder \<Rightarrow> bool \<times> responder" where
  "ancestor_loop k pid 0 cursor s = (False, s)"
| "ancestor_loop k pid (Suc depth) cursor s =
     (if cursor \<le> 1 then (False, s)
      else case read_stat k cursor s of
             (None, s1) \<Rightarrow> (False, s1)
           | (Some st, s1) \<Rightarrow> if sv_parent st = pid then (True, s1) else ancestor_loop k pid depth (sv_parent st) s1)"

definition protected_reason :: "kernel \<Rightarrow> u32 \<Rightarrow> responder \<Rightarrow> string \<times> responder" where
  "protected_reason k pid s =
     (if pid \<le> 1 then (''pid 0 and 1 are never signalled'', s)
      else if pid = 2 then (''kernel thread daemon'', s)
      else if pid = kn_self k then (''the agent itself'', s)
      else case ancestor_loop k pid maximum_ancestor_depth (kn_self k) s of (ancestor, s1) \<Rightarrow>
             if ancestor then (''an ancestor of the agent'', s1)
             else (case read_stat k pid s1 of (stat, s2) \<Rightarrow> (if map_option sv_parent stat = Some 2 then ''kernel thread'' else [], s2)))"

section \<open>One process\<close>

definition escalate :: "kernel \<Rightarrow> process_handle \<Rightarrow> response_outcome \<Rightarrow> responder \<Rightarrow> response_outcome \<times> responder" where
  "escalate k h outcome s =
     (case handle_exited k h s of (over, s1) \<Rightarrow>
        if over then (outcome, s1)
        else (case handle_send k h SIGKILL s1 of (e, s2) \<Rightarrow>
                if e \<noteq> 0 \<and> e \<noteq> ESRCH then (outcome\<lparr>rr_status := Response_failed, rr_detail := ''SIGKILL refused: errno '' @ to_string e\<rparr>, s2)
                else (case wait_exit k h 2000 s2 of (over, s3) \<Rightarrow>
                        (outcome\<lparr>rr_status := if over then Terminated else rr_status outcome,
                                 rr_detail := ''SIGTERM ignored for the grace period; SIGKILL sent''\<rparr>, s3))))"

definition terminate_held :: "kernel \<Rightarrow> response_options \<Rightarrow> process_handle \<Rightarrow> response_outcome \<Rightarrow> responder \<Rightarrow> response_outcome \<times> responder" where
  "terminate_held k opts h outcome s =
     (case handle_send k h SIGTERM s of (e, s1) \<Rightarrow>
        if e \<noteq> 0 then
          (outcome\<lparr>rr_status := if e = ESRCH then Already_gone else Response_failed,
             rr_detail := if e = ESRCH then ''the process exited before the signal'' else ''SIGTERM refused: errno '' @ to_string e\<rparr>, s1)
        else
          let told = outcome\<lparr>rr_status := Signalled, rr_detail := ''SIGTERM sent''\<rparr>
          in (case (if 0 < rp_grace opts then wait_exit k h (nat (rp_grace opts)) s1 else (False, s1)) of (over, s2) \<Rightarrow>
                if over then (told\<lparr>rr_status := Terminated\<rparr>, s2)
                else if rp_escalate_to_kill opts then escalate k h told s2
                else (told, s2)))"

definition respond_terminate_process :: "kernel \<Rightarrow> process_identity \<Rightarrow> response_options \<Rightarrow> responder \<Rightarrow> response_outcome \<times> responder" where
  "respond_terminate_process k target opts s =
     (if \<not> valid_target target then (refusal Refused_invalid ''the identity needs a pid and a start time'', s)
      else case protected_reason k (id_pid target) s of (reason, s1) \<Rightarrow>
             if reason \<noteq> [] then (refusal Refused_protected reason, s1)
             else case handle_open k opts (id_pid target) (id_start target) s1 of
                    (Not_held mismatch problem, s2) \<Rightarrow> (refusal (if mismatch then Refused_mismatch else Response_failed) problem, s2)
                  | (Held h, s2) \<Rightarrow>
                      let outcome = \<lparr>rr_status = Response_failed, rr_mode = handle_mode h, rr_affected = [target], rr_detail = []\<rparr>
                      in if rp_dry_run opts then (outcome\<lparr>rr_status := Dry_run, rr_detail := ''verified; no signal sent''\<rparr>, s2)
                         else terminate_held k opts h outcome s2)"

section \<open>A tree\<close>

record tree_state =
  tr_known :: "u32 list"
  tr_held :: "process_handle list"
  tr_affected :: "process_identity list"
  tr_stable :: bool

fun members_protected :: "kernel \<Rightarrow> u32 list \<Rightarrow> responder \<Rightarrow> response_outcome option \<times> responder" where
  "members_protected k [] s = (None, s)"
| "members_protected k (pid # pids) s =
     (case protected_reason k pid s of (reason, s1) \<Rightarrow>
        if reason \<noteq> [] then (Some (refusal Refused_protected (''pid '' @ to_string (unat pid) @ '' in the tree is protected: '' @ reason)), s1)
        else members_protected k pids s1)"

definition start_in :: "process_table \<Rightarrow> u32 \<Rightarrow> u64" where
  "start_in table pid = (case map_of table pid of Some sp \<Rightarrow> sp_start sp | None \<Rightarrow> 0)"

fun send_all :: "kernel \<Rightarrow> signal_number \<Rightarrow> process_handle list \<Rightarrow> responder \<Rightarrow> nat \<times> responder" where
  "send_all k sig [] s = (0, s)"
| "send_all k sig (h # hs) s =
     (case handle_send k h sig s of (e, s1) \<Rightarrow>
        case send_all k sig hs s1 of (refused, s2) \<Rightarrow> ((if e \<noteq> 0 \<and> e \<noteq> ESRCH then refused + 1 else refused), s2))"

definition released :: "kernel \<Rightarrow> process_handle \<Rightarrow> process_handle list \<Rightarrow> response_outcome \<Rightarrow> responder \<Rightarrow> response_outcome \<times> responder" where
  "released k root held outcome s = (outcome, snd (send_all k SIGCONT held (snd (handle_send k root SIGCONT s))))"

text \<open>One descendant of a rescan; \<open>Inl\<close> is a refusal, after which everything stopped is resumed.\<close>

definition stop_member :: "kernel \<Rightarrow> response_options \<Rightarrow> string \<Rightarrow> process_table \<Rightarrow> u32 \<Rightarrow> tree_state \<Rightarrow> responder \<Rightarrow> (response_outcome + tree_state) \<times> responder" where
  "stop_member k opts host table pid t s =
     (if pid \<in> set (tr_known t) then (Inr t, s)
      else
        let t1 = t\<lparr>tr_known := pid # tr_known t, tr_stable := False\<rparr>
        in if rp_maximum_tree_size opts < length (tr_known t1) then (Inl (refusal Refused_limit ''the tree grew beyond the configured bound''), s)
           else case protected_reason k pid s of (reason, s1) \<Rightarrow>
                  if reason \<noteq> []
                  then (Inl (refusal Refused_protected (''pid '' @ to_string (unat pid) @ '' joined the tree and is protected: '' @ reason)), s1)
                  else case handle_open k opts pid (start_in table pid) s1 of
                         (Not_held _ _, s2) \<Rightarrow> (Inr t1, s2)
                       | (Held h, s2) \<Rightarrow>
                           (Inr (t1\<lparr>tr_affected := tr_affected t1 @ [\<lparr>id_host = host, id_pid = pid, id_start = start_in table pid\<rparr>],
                                    tr_held := tr_held t1 @ [h]\<rparr>),
                            snd (handle_send k h SIGSTOP s2)))"

text \<open>A refusal leaves the state of the tree as it is when \<open>resume_all\<close> runs.\<close>

fun stop_members :: "kernel \<Rightarrow> response_options \<Rightarrow> string \<Rightarrow> process_table \<Rightarrow> u32 list \<Rightarrow> tree_state \<Rightarrow> responder \<Rightarrow>
    (response_outcome option \<times> tree_state) \<times> responder" where
  "stop_members k opts host table [] t s = ((None, t), s)"
| "stop_members k opts host table (pid # pids) t s =
     (case stop_member k opts host table pid t s of
        (Inl outcome, s1) \<Rightarrow> ((Some outcome, t), s1)
      | (Inr t1, s1) \<Rightarrow> stop_members k opts host table pids t1 s1)"

definition maximum_rounds :: nat where "maximum_rounds = 8"

fun collect_rounds :: "kernel \<Rightarrow> response_options \<Rightarrow> process_identity \<Rightarrow> nat \<Rightarrow> tree_state \<Rightarrow> responder \<Rightarrow>
    (response_outcome option \<times> tree_state) \<times> responder" where
  "collect_rounds k opts target 0 t s = ((if tr_stable t then None else Some (refusal Refused_limit ''the tree kept growing; it was released unharmed''), t), s)"
| "collect_rounds k opts target (Suc n) t s =
     (if tr_stable t then ((None, t), s)
      else case scan_processes k s of
             (None, s1) \<Rightarrow> ((Some (refusal Refused_limit ''the process table is too large to scan''), t), s1)
           | (Some table, s1) \<Rightarrow>
               (case stop_members k opts (id_host target) table (descendants_of table (id_pid target)) (t\<lparr>tr_stable := True\<rparr>) s1 of
                  ((Some outcome, t1), s2) \<Rightarrow> ((Some outcome, t1), s2)
                | ((None, t1), s2) \<Rightarrow> collect_rounds k opts target n t1 s2))"

fun wait_all :: "kernel \<Rightarrow> process_handle list \<Rightarrow> bool \<Rightarrow> responder \<Rightarrow> bool \<times> responder" where
  "wait_all k [] all_exited s = (all_exited, s)"
| "wait_all k (h # hs) all_exited s = (case wait_exit k h 2000 s of (over, s1) \<Rightarrow> wait_all k hs (over \<and> all_exited) s1)"

definition kill_tree :: "kernel \<Rightarrow> process_handle \<Rightarrow> tree_state \<Rightarrow> response_outcome \<Rightarrow> responder \<Rightarrow> response_outcome \<times> responder" where
  "kill_tree k root t outcome s =
     (case send_all k SIGKILL (tr_held t @ [root]) s of (refused, s1) \<Rightarrow>
        case wait_all k (tr_held t @ [root]) (refused = 0) s1 of (all_exited, s2) \<Rightarrow>
          (outcome\<lparr>rr_affected := tr_affected t,
             rr_status := if refused \<noteq> 0 then Response_failed else if all_exited then Terminated else Signalled,
             rr_detail := ''SIGKILL sent to '' @ to_string (length (tr_held t) + 1) @ '' process(es)'' @
               (if refused \<noteq> 0 then ''; '' @ to_string refused @ '' refused'' else [])\<rparr>, s2))"

text \<open>From the stopped root on.\<close>

definition stop_and_kill :: "kernel \<Rightarrow> process_identity \<Rightarrow> response_options \<Rightarrow> process_handle \<Rightarrow> response_outcome \<Rightarrow> responder \<Rightarrow> response_outcome \<times> responder" where
  "stop_and_kill k target opts root outcome s =
     (case handle_send k root SIGSTOP s of (e, s1) \<Rightarrow>
        if e \<noteq> 0 then
          (outcome\<lparr>rr_status := if e = ESRCH then Already_gone else Response_failed,
             rr_detail := if e = ESRCH then ''the root exited before it could be stopped'' else ''SIGSTOP refused: errno '' @ to_string e\<rparr>, s1)
        else
          (case collect_rounds k opts target maximum_rounds \<lparr>tr_known = [id_pid target], tr_held = [], tr_affected = [target], tr_stable = False\<rparr> s1 of
             ((Some refused, t), s2) \<Rightarrow> released k root (tr_held t) refused s2
           | ((None, t), s2) \<Rightarrow> kill_tree k root t outcome s2))"

definition verified_text :: "nat \<Rightarrow> string" where
  "verified_text n = ''verified '' @ to_string n @ '' process(es); no signal sent''"

definition respond_terminate_tree :: "kernel \<Rightarrow> process_identity \<Rightarrow> response_options \<Rightarrow> responder \<Rightarrow> response_outcome \<times> responder" where
  "respond_terminate_tree k target opts s =
     (if \<not> valid_target target then (refusal Refused_invalid ''the identity needs a pid and a start time'', s)
      else if rp_maximum_tree_size opts = 0 then (refusal Refused_invalid ''the tree bound is zero'', s)
      else case protected_reason k (id_pid target) s of (reason, s1) \<Rightarrow>
        if reason \<noteq> [] then (refusal Refused_protected reason, s1)
        else case handle_open k opts (id_pid target) (id_start target) s1 of
          (Not_held mismatch problem, s2) \<Rightarrow> (refusal (if mismatch then Refused_mismatch else Response_failed) problem, s2)
        | (Held root, s2) \<Rightarrow>
            (case scan_processes k s2 of
               (None, s3) \<Rightarrow> (refusal Refused_limit ''the process table is too large to scan'', s3)
             | (Some table, s3) \<Rightarrow>
                 let members = descendants_of table (id_pid target);
                     outcome = \<lparr>rr_status = Response_failed, rr_mode = handle_mode root, rr_affected = [target], rr_detail = []\<rparr>
                 in if rp_maximum_tree_size opts < length members + 1 then (refusal Refused_limit ''the tree is larger than the configured bound'', s3)
                    else (case members_protected k members s3 of
                            (Some refused, s4) \<Rightarrow> (refused, s4)
                          | (None, s4) \<Rightarrow>
                              if rp_dry_run opts then
                                (outcome\<lparr>rr_affected := target # map (\<lambda>pid. \<lparr>id_host = id_host target, id_pid = pid, id_start = start_in table pid\<rparr>) members,
                                   rr_status := Dry_run, rr_detail := verified_text (length members + 1)\<rparr>, s4)
                              else stop_and_kill k target opts root outcome s4)))"

end
