(* ===== verification/Response_Properties.thy ===== *)
theory Response_Properties
  imports Response
begin

text \<open>
  What the responder does to the host: which process instances its signals reach, what is left of a tree it
  refuses to end, and which processes it takes for the descendants of another.
\<close>

section \<open>The log of signals\<close>

text \<open>From one state to another the log grows by signals with a property, more may have been scanned, and time does not go back.\<close>

definition grows :: "(sent \<Rightarrow> bool) \<Rightarrow> responder \<Rightarrow> responder \<Rightarrow> bool" where
  "grows Q s s' \<longleftrightarrow> rs_tick s \<le> rs_tick s' \<and> (\<exists>evs. rs_sent s' = rs_sent s @ evs \<and> list_all Q evs) \<and>
     (\<exists>scans. rs_scans s' = rs_scans s @ scans)"

abbreviation quiet :: "responder \<Rightarrow> responder \<Rightarrow> bool" where
  "quiet \<equiv> grows (\<lambda>_. False)"

lemma grows_refl [intro!, simp]: "grows Q s s"
  by (simp add: grows_def)

lemma grows_trans:
  assumes "grows Q a b" "grows Q b c"
  shows "grows Q a c"
proof -
  from assms obtain e1 s1 e2 s2 where "rs_sent b = rs_sent a @ e1" "list_all Q e1" "rs_scans b = rs_scans a @ s1"
    "rs_sent c = rs_sent b @ e2" "list_all Q e2" "rs_scans c = rs_scans b @ s2" by (auto simp: grows_def)
  moreover have "rs_tick a \<le> rs_tick c" using assms by (simp add: grows_def)
  ultimately show ?thesis unfolding grows_def by (auto simp: list_all_iff)
qed

lemma grows_mono: "grows Q s s' \<Longrightarrow> (\<And>e. Q e \<Longrightarrow> R e) \<Longrightarrow> grows R s s'"
  by (auto simp: grows_def list_all_iff)

lemma quiet_grows: "quiet s s' \<Longrightarrow> grows Q s s'"
  by (erule grows_mono) simp

lemma quiet_sent: "quiet s s' \<Longrightarrow> rs_sent s' = rs_sent s"
  by (cases "rs_sent s' = rs_sent s") (auto simp: grows_def list_all_iff neq_Nil_conv)

lemma grows_tick: "grows Q s s' \<Longrightarrow> rs_tick s \<le> rs_tick s'"
  by (simp add: grows_def)

lemma quiet_tick [intro!, simp]: "quiet s (tick s)" "quiet s (sleep_5ms s)"
  by (simp_all add: grows_def tick_def sleep_5ms_def)

text \<open>Everything but a signal is quiet.\<close>

lemma quiet_read_stat: "read_stat k pid s = (v, s') \<Longrightarrow> quiet s s' \<and> rs_tick s' = Suc (rs_tick s)"
  by (auto simp: read_stat_def tick_def grows_def)

lemma quiet_ancestor_loop: "ancestor_loop k pid n cursor s = (b, s') \<Longrightarrow> quiet s s'"
  by (induction k pid n cursor s rule: ancestor_loop.induct)
    (auto split: if_splits prod.splits option.splits dest: quiet_read_stat intro: grows_trans)

lemma quiet_protected: "protected_reason k pid s = (reason, s') \<Longrightarrow> quiet s s'"
  by (auto simp: protected_reason_def split: if_splits prod.splits dest!: quiet_read_stat quiet_ancestor_loop intro: grows_trans)

lemma quiet_verify: "handle_verify k pid st d s = (opened, s') \<Longrightarrow> quiet s s'"
  by (auto simp: handle_verify_def split: prod.splits dest: quiet_read_stat)

lemma quiet_without: "without_pidfd k opts pid st s = (opened, s') \<Longrightarrow> quiet s s'"
  by (auto simp: without_pidfd_def split: if_splits dest: quiet_verify)

lemma quiet_open: "handle_open k opts pid st s = (opened, s') \<Longrightarrow> quiet s s'"
  by (auto simp: handle_open_def split: if_splits sum.splits dest!: quiet_verify quiet_without intro: grows_trans [OF quiet_tick(1)])

lemma quiet_exited: "handle_exited k h s = (over, s') \<Longrightarrow> quiet s s'"
  by (auto simp: handle_exited_def split: option.splits prod.splits dest: quiet_read_stat)

lemma quiet_wait_loop: "wait_loop k h deadline n s = (over, s') \<Longrightarrow> quiet s s'"
proof (induction k h deadline n s rule: wait_loop.induct)
  case (2 k h deadline n s)
  obtain b s1 where e: "handle_exited k h s = (b, s1)" by (rule prod.exhaust)
  from quiet_exited [OF e] have "quiet s s1" "quiet s (tick s1)" "quiet s (sleep_5ms (tick s1))" by (blast intro: grows_trans)+
  with 2 e show ?case by (auto split: if_splits intro: grows_trans)
qed simp

lemma quiet_wait: "wait_exit k h limit s = (over, s') \<Longrightarrow> quiet s s'"
  unfolding wait_exit_def by (drule quiet_wait_loop) (blast intro: grows_trans)

lemma quiet_wait_all: "wait_all k hs b s = (over, s') \<Longrightarrow> quiet s s'"
  by (induction k hs b s rule: wait_all.induct) (auto split: prod.splits dest: quiet_wait intro: grows_trans)

lemma quiet_scan_names: "scan_names k names visited table s = (t, s') \<Longrightarrow> quiet s s'"
proof (induction k names visited table s rule: scan_names.induct)
  case (2 k name names visited table s)
  show ?case
  proof (cases "whole_number (2 ^ 32 - 1) name")
    case (Some pid)
    obtain v s1 where r: "read_stat k (of_nat pid) s = (v, s1)" by (rule prod.exhaust)
    from 2 Some r quiet_read_stat [OF r] show ?thesis by (auto split: if_splits intro: grows_trans)
  qed (use 2 in simp)
qed simp

lemma quiet_record_scan: "quiet s (record_scan began table s)"
  by (simp add: record_scan_def grows_def split: option.split)

lemma scan_processes_parts:
  assumes "scan_processes k s = (t, s')"
  obtains table s1 where "scan_names k (fst (kn_proc k (rs_tick s))) 0 [] (tick s) = (table, s1)" "t = None \<or> t = table" "s' = record_scan (rs_tick s) t s1"
  using that assms
  by (cases "kn_proc k (rs_tick s)"; cases "scan_names k (fst (kn_proc k (rs_tick s))) 0 [] (tick s)")
    (auto simp: scan_processes_def Let_def split: if_splits)

lemma quiet_scan: "scan_processes k s = (t, s') \<Longrightarrow> quiet s s'"
  by (erule scan_processes_parts) (auto dest!: quiet_scan_names intro: grows_trans quiet_record_scan grows_trans [OF quiet_tick(1)])

lemma quiet_members: "members_protected k pids s = (r, s') \<Longrightarrow> quiet s s'"
  by (induction k pids s rule: members_protected.induct) (auto split: prod.splits if_splits dest: quiet_protected intro: grows_trans)

lemmas quiet_calls = quiet_protected quiet_open quiet_exited quiet_wait quiet_wait_all quiet_scan quiet_members

section \<open>Which process a signal reaches\<close>

text \<open>
  What the kernel guarantees. \<open>holder\<close> says which process instance has a pid at a moment and \<open>start\<close> when an
  instance began. A pidfd refers to the instance that has the pid when it is opened; a signal through it is
  delivered only while that instance still has its pid; a stat file speaks of the instance that has the pid when
  it is read; an instance has one pid, without interruption.
\<close>

definition kernel_ok :: "(nat \<Rightarrow> u32 \<Rightarrow> nat option) \<Rightarrow> (nat \<Rightarrow> u64) \<Rightarrow> kernel \<Rightarrow> bool" where
  "kernel_ok holder start k \<longleftrightarrow>
     (\<forall>t pid i. kn_pidfd_open k t pid = Inr i \<longrightarrow> holder t pid = Some i) \<and>
     (\<forall>t i sig. kn_pidfd_send_signal k t i sig = 0 \<longrightarrow> (\<exists>pid. holder t pid = Some i)) \<and>
     (\<forall>t pid str st. kn_stat k t pid = Some str \<and> parse_stat_view (take 8192 str) = Some st \<longrightarrow> (\<exists>i. holder t pid = Some i \<and> start i = sv_start st)) \<and>
     (\<forall>t u v pid i. t \<le> u \<and> u \<le> v \<and> holder t pid = Some i \<and> holder v pid = Some i \<longrightarrow> holder u pid = Some i) \<and>
     (\<forall>t u pid pid' i. holder t pid = Some i \<and> holder u pid' = Some i \<longrightarrow> pid = pid')"

lemma kernel_okD:
  assumes "kernel_ok holder start k"
  shows "kn_pidfd_open k t pid = Inr i \<Longrightarrow> holder t pid = Some i"
    "kn_pidfd_send_signal k t i sig = 0 \<Longrightarrow> \<exists>pid. holder t pid = Some i"
    "kn_stat k t pid = Some str \<Longrightarrow> parse_stat_view (take 8192 str) = Some st \<Longrightarrow> \<exists>i. holder t pid = Some i \<and> start i = sv_start st"
    "t \<le> u \<Longrightarrow> u \<le> v \<Longrightarrow> holder t pid = Some i \<Longrightarrow> holder v pid = Some i \<Longrightarrow> holder u pid = Some i"
    "holder t pid = Some i \<Longrightarrow> holder u pid' = Some i \<Longrightarrow> pid = pid'"
proof -
  note laws = assms [unfolded kernel_ok_def]
  show "kn_pidfd_open k t pid = Inr i \<Longrightarrow> holder t pid = Some i" using conjunct1 [OF laws] by blast
  show "kn_pidfd_send_signal k t i sig = 0 \<Longrightarrow> \<exists>pid. holder t pid = Some i" using laws [THEN conjunct2, THEN conjunct1] by blast
  show "kn_stat k t pid = Some str \<Longrightarrow> parse_stat_view (take 8192 str) = Some st \<Longrightarrow> \<exists>i. holder t pid = Some i \<and> start i = sv_start st"
    using laws [THEN conjunct2, THEN conjunct2, THEN conjunct1] by blast
  show "t \<le> u \<Longrightarrow> u \<le> v \<Longrightarrow> holder t pid = Some i \<Longrightarrow> holder v pid = Some i \<Longrightarrow> holder u pid = Some i"
    using laws [THEN conjunct2, THEN conjunct2, THEN conjunct2, THEN conjunct1] by blast
  show "holder t pid = Some i \<Longrightarrow> holder u pid' = Some i \<Longrightarrow> pid = pid'"
    using laws [THEN conjunct2, THEN conjunct2, THEN conjunct2, THEN conjunct2] by blast
qed

text \<open>
  A handle was verified before a moment: after the pidfd was taken the pid had the named start time; without
  a pidfd, the pid had it at some earlier moment.
\<close>

definition verified :: "(nat \<Rightarrow> u32 \<Rightarrow> nat option) \<Rightarrow> (nat \<Rightarrow> u64) \<Rightarrow> nat \<Rightarrow> process_handle \<Rightarrow> bool" where
  "verified holder start t h \<longleftrightarrow>
     (\<forall>d. ph_descriptor h = Some d \<longrightarrow>
        (\<exists>t0 t1 j. t0 \<le> t1 \<and> t1 \<le> t \<and> holder t0 (ph_pid h) = Some d \<and> holder t1 (ph_pid h) = Some j \<and> start j = ph_start h)) \<and>
     (ph_descriptor h = None \<longrightarrow> (\<exists>t0 j. t0 < t \<and> holder t0 (ph_pid h) = Some j \<and> start j = ph_start h))"

lemma verified_later: "verified holder start t h \<Longrightarrow> t \<le> u \<Longrightarrow> verified holder start u h"
  unfolding verified_def by (meson order.trans order.strict_trans2)

text \<open>
  A signal that was aimed at a pid with a start time. Delivered through a pidfd, it reached the instance that had the pid and
  began then. Sent to a bare pid, which only the options allow, an instance with that start time had the pid when the
  handle was opened and again at the moment just before the call, which is all that \<open>kill\<close> can be asked for.
\<close>

definition aimed :: "(nat \<Rightarrow> u32 \<Rightarrow> nat option) \<Rightarrow> (nat \<Rightarrow> u64) \<Rightarrow> bool \<Rightarrow> u32 \<Rightarrow> u64 \<Rightarrow> sent \<Rightarrow> bool" where
  "aimed holder start fallback pid st e \<longleftrightarrow>
     (case sent_by e of
        By_pidfd i \<Rightarrow> sent_code e = 0 \<longrightarrow> holder (sent_at e) pid = Some i \<and> start i = st
      | By_pid p \<Rightarrow> fallback \<and> p = pid \<and>
          (\<exists>t0 t i j. t0 < t \<and> Suc t = sent_at e \<and> holder t0 pid = Some i \<and> start i = st \<and> holder t pid = Some j \<and> start j = st))"

definition held_for :: "(nat \<Rightarrow> u32 \<Rightarrow> nat option) \<Rightarrow> (nat \<Rightarrow> u64) \<Rightarrow> bool \<Rightarrow> nat \<Rightarrow> u32 \<Rightarrow> u64 \<Rightarrow> process_handle \<Rightarrow> bool" where
  "held_for holder start fallback t pid st h \<longleftrightarrow>
     ph_pid h = pid \<and> ph_start h = st \<and> verified holder start t h \<and> (ph_descriptor h = None \<longrightarrow> fallback)"

lemma held_for_later: "held_for holder start fb t pid st h \<Longrightarrow> t \<le> u \<Longrightarrow> held_for holder start fb u pid st h"
  unfolding held_for_def using verified_later by blast

lemma held_for_grows: "held_for holder start fb (rs_tick s) pid st h \<Longrightarrow> grows Q s s' \<Longrightarrow> held_for holder start fb (rs_tick s') pid st h"
  by (blast intro: held_for_later dest: grows_tick)

lemma verify_holds:
  assumes "kernel_ok holder start k" "handle_verify k pid st d s = (Held h, s')" "\<And>i. d = Some i \<Longrightarrow> \<exists>t\<le>rs_tick s. holder t pid = Some i"
    "d = None \<Longrightarrow> fb"
  shows "held_for holder start fb (rs_tick s') pid st h"
proof -
  from assms(2) obtain str v where v: "kn_stat k (rs_tick s) pid = Some str" "parse_stat_view (take 8192 str) = Some v" "sv_start v = st"
    and h: "h = \<lparr>ph_descriptor = d, ph_pid = pid, ph_start = st\<rparr>" and s': "s' = tick s"
    by (auto simp: handle_verify_def read_stat_def split: prod.splits if_splits option.splits)
  from kernel_okD(3) [OF assms(1) v(1,2)] v(3) obtain j where j: "holder (rs_tick s) pid = Some j" "start j = st" by blast
  have "verified holder start (rs_tick s') h" unfolding verified_def
  proof (intro conjI allI impI)
    show "\<exists>t0 j. t0 < rs_tick s' \<and> holder t0 (ph_pid h) = Some j \<and> start j = ph_start h"
      using j h s' by (intro exI [of _ "rs_tick s"] exI [of _ j]) (simp add: tick_def)
    fix i assume "ph_descriptor h = Some i"
    with assms(3) h obtain t where "t \<le> rs_tick s" "holder t pid = Some i" by auto
    with j h s' show "\<exists>t0 t1 j. t0 \<le> t1 \<and> t1 \<le> rs_tick s' \<and> holder t0 (ph_pid h) = Some i \<and> holder t1 (ph_pid h) = Some j \<and> start j = ph_start h"
      by (intro exI [of _ t] exI [of _ "rs_tick s"] exI [of _ j]) (simp add: tick_def)
  qed
  with assms(4) h show ?thesis by (simp add: held_for_def)
qed

lemma without_holds:
  assumes "kernel_ok holder start k" "without_pidfd k opts pid st s = (Held h, s')"
  shows "held_for holder start (rp_allow_pid_fallback opts) (rs_tick s') pid st h"
  using assms(2) verify_holds [OF assms(1), of pid st None s h s' "rp_allow_pid_fallback opts"] by (simp add: without_pidfd_def split: if_splits)

lemma open_holds:
  assumes "kernel_ok holder start k" "handle_open k opts pid st s = (Held h, s')"
  shows "held_for holder start (rp_allow_pid_fallback opts) (rs_tick s') pid st h"
proof (cases "\<not> rp_force_pid_fallback opts \<and> (\<exists>i. kn_pidfd_open k (rs_tick s) pid = Inr i)")
  case True
  then obtain i where i: "kn_pidfd_open k (rs_tick s) pid = Inr i" by blast
  with assms(2) True have "handle_verify k pid st (Some i) (tick s) = (Held h, s')" by (simp add: handle_open_def)
  moreover have "holder (rs_tick s) pid = Some i" by (rule kernel_okD(1) [OF assms(1) i])
  ultimately show ?thesis by (intro verify_holds [OF assms(1)]) (auto simp: tick_def intro: exI [of _ "rs_tick s"])
next
  case False
  then obtain s0 where "without_pidfd k opts pid st s0 = (Held h, s')"
    using assms(2) by (auto simp: handle_open_def split: if_splits sum.splits)
  with without_holds [OF assms(1)] show ?thesis by blast
qed

text \<open>The point of the pidfd: a delivered signal reached the verified instance, even if the pid was handed on in between.\<close>

lemma verified_delivery:
  assumes "kernel_ok holder start k" "verified holder start t h" "ph_descriptor h = Some d" "kn_pidfd_send_signal k u d sig = 0" "t \<le> u"
  shows "holder u (ph_pid h) = Some d \<and> start d = ph_start h"
proof -
  from assms(2,3) obtain t0 t1 j where at: "t0 \<le> t1" "t1 \<le> t" "holder t0 (ph_pid h) = Some d" "holder t1 (ph_pid h) = Some j" "start j = ph_start h"
    unfolding verified_def by blast
  from kernel_okD(2) [OF assms(1,4)] obtain p where p: "holder u p = Some d" by blast
  have "p = ph_pid h" by (rule kernel_okD(5) [OF assms(1) p at(3)])
  with p have now: "holder u (ph_pid h) = Some d" by simp
  have "holder t1 (ph_pid h) = Some d" using at assms(5) by (intro kernel_okD(4) [OF assms(1) at(1) _ at(3) now]) simp
  with at now show ?thesis by simp
qed

lemma send_aimed:
  assumes "kernel_ok holder start k" "handle_send k h sig s = (e, s')" "held_for holder start fb (rs_tick s) pid st h"
  shows "grows (\<lambda>ev. aimed holder start fb pid st ev \<and> sent_signal ev = sig) s s'"
proof (cases "ph_descriptor h")
  case None
  obtain v s1 where r: "read_stat k (ph_pid h) s = (v, s1)" by (rule prod.exhaust)
  note q = quiet_read_stat [OF r]
  from assms(3) None obtain t0 i where held: "fb" "ph_pid h = pid" "ph_start h = st" "t0 < rs_tick s" "holder t0 pid = Some i" "start i = st"
    by (auto simp: held_for_def verified_def)
  have "grows (\<lambda>ev. aimed holder start fb pid st ev \<and> sent_signal ev = sig) s1 s'"
  proof (cases "gone h v")
    case True
    with assms(2) None r show ?thesis by (simp add: handle_send_def)
  next
    case False
    then obtain str st' where v: "kn_stat k (rs_tick s) pid = Some str" "parse_stat_view (take 8192 str) = Some st'" "sv_start st' = st"
      using r held by (auto simp: read_stat_def gone_def split: option.splits)
    from kernel_okD(3) [OF assms(1) v(1,2)] v(3) obtain j where "holder (rs_tick s) pid = Some j" "start j = st" by blast
    then have "aimed holder start fb pid st (Sent (rs_tick s1) (By_pid pid) sig c)" for c
      using held q by (auto simp: aimed_def)
    moreover have "s' = record_sent (By_pid pid) sig e s1" using assms(2) None r False held by (auto simp: handle_send_def Let_def)
    ultimately show ?thesis by (simp add: grows_def record_sent_def tick_def)
  qed
  with q show ?thesis by (blast intro: grows_trans quiet_grows)
next
  case (Some d)
  have "kn_pidfd_send_signal k (rs_tick s) d sig = 0 \<Longrightarrow> holder (rs_tick s) pid = Some d \<and> start d = st"
    using verified_delivery [OF assms(1) _ Some _ order.refl] assms(3) unfolding held_for_def by blast
  with assms(2) Some show ?thesis by (auto simp: handle_send_def record_sent_def grows_def tick_def aimed_def Let_def)
qed

section \<open>One process\<close>

lemma send_delivered: "handle_send k h sig s = (0, s') \<Longrightarrow> \<exists>ev. rs_sent s' = rs_sent s @ [ev] \<and> sent_signal ev = sig \<and> sent_code ev = 0"
  by (auto simp: handle_send_def record_sent_def Let_def ESRCH_def split: option.splits prod.splits if_splits dest!: quiet_read_stat quiet_sent)

lemma escalate_aimed:
  assumes "kernel_ok holder start k" "escalate k h out s = (out', s')" "held_for holder start fb (rs_tick s) pid st h"
  shows "grows (aimed holder start fb pid st) s s'"
proof -
  obtain over s1 where e: "handle_exited k h s = (over, s1)" by (rule prod.exhaust)
  obtain c s2 where k: "handle_send k h SIGKILL s1 = (c, s2)" by (rule prod.exhaust)
  obtain over' s3 where w: "wait_exit k h 2000 s2 = (over', s3)" by (rule prod.exhaust)
  note q = quiet_exited [OF e] and q' = quiet_wait [OF w]
  have "grows (aimed holder start fb pid st) s1 s2"
    by (rule grows_mono [OF send_aimed [OF assms(1) k held_for_grows [OF assms(3) q]]]) simp
  then have "grows (aimed holder start fb pid st) s s2" by (rule grows_trans [OF quiet_grows [OF q]])
  moreover from this have "grows (aimed holder start fb pid st) s s3" by (rule grows_trans [OF _ quiet_grows [OF q']])
  ultimately show ?thesis using assms(2) e k w quiet_grows [OF q] by (auto simp: escalate_def split: if_splits)
qed

lemma terminate_held_aimed:
  assumes "kernel_ok holder start k" "terminate_held k opts h out s = (out', s')" "held_for holder start fb (rs_tick s) pid st h"
  shows "grows (aimed holder start fb pid st) s s'"
    "rr_status out' = Terminated \<or> rr_status out' = Signalled \<Longrightarrow> \<exists>ev evs. rs_sent s' = rs_sent s @ ev # evs \<and> sent_signal ev = SIGTERM \<and> sent_code ev = 0"
proof -
  obtain c s1 where t: "handle_send k h SIGTERM s = (c, s1)" by (rule prod.exhaust)
  obtain over s2 where w: "(if 0 < rp_grace opts then wait_exit k h (nat (rp_grace opts)) s1 else (False, s1)) = (over, s2)" by (rule prod.exhaust)
  have q: "quiet s1 s2" using w by (auto split: if_splits dest: quiet_wait)
  have first: "grows (aimed holder start fb pid st) s s1" by (rule grows_mono [OF send_aimed [OF assms(1) t assms(3)]]) simp
  have later: "held_for holder start fb (rs_tick s2) pid st h" by (rule held_for_grows [OF held_for_grows [OF assms(3) first] q])
  have rest: "grows (aimed holder start fb pid st) s1 s'" if "c = 0"
    using assms(2) t w that q escalate_aimed [OF assms(1) _ later]
    by (auto simp: terminate_held_def Let_def split: if_splits intro: quiet_grows grows_trans)
  have none: "s' = s1 \<and> rr_status out' \<noteq> Terminated \<and> rr_status out' \<noteq> Signalled" if "c \<noteq> 0"
    using assms(2) t that by (auto simp: terminate_held_def split: if_splits)
  show "grows (aimed holder start fb pid st) s s'" using first rest none by (cases "c = 0") (auto intro: grows_trans)
  assume "rr_status out' = Terminated \<or> rr_status out' = Signalled"
  with none have c: "c = 0" by blast
  from rest [OF c] obtain evs where "rs_sent s' = rs_sent s1 @ evs" by (auto simp: grows_def)
  with send_delivered t c show "\<exists>ev evs. rs_sent s' = rs_sent s @ ev # evs \<and> sent_signal ev = SIGTERM \<and> sent_code ev = 0" by fastforce
qed

lemma send_grows: "grows (\<lambda>_. True) s (snd (handle_send k h sig s))"
  by (auto simp: handle_send_def record_sent_def grows_def tick_def Let_def read_stat_def split: option.splits if_splits)

text \<open>What the responder may signal at all.\<close>

definition signallable :: "kernel \<Rightarrow> u32 \<Rightarrow> bool" where
  "signallable k pid \<longleftrightarrow> 2 < pid \<and> pid \<noteq> kn_self k"

lemma unprotected: "protected_reason k pid s = ([], s') \<Longrightarrow> signallable k pid"
proof -
  assume a: "protected_reason k pid s = ([], s')"
  then have "\<not> pid \<le> 1" "pid \<noteq> 2" "pid \<noteq> kn_self k" by (auto simp: protected_reason_def split: if_splits)
  moreover from this(1,2) have "2 < pid" by unat_arith
  ultimately show ?thesis by (simp add: signallable_def)
qed

lemma terminate_held_undelivered:
  assumes "terminate_held k opts h out s = (out', s')" "rr_status out' \<notin> {Terminated, Signalled, Response_failed}"
  shows "\<exists>evs. rs_sent s' = rs_sent s @ evs \<and> list_all (\<lambda>ev. sent_code ev \<noteq> 0) evs"
proof -
  obtain c s1 where t: "handle_send k h SIGTERM s = (c, s1)" by (rule prod.exhaust)
  have "s' = s1 \<and> c \<noteq> 0"
    using assms t by (auto simp: terminate_held_def escalate_def Let_def split: if_splits prod.splits)
  with t show ?thesis by (auto simp: handle_send_def record_sent_def tick_def read_stat_def Let_def split: option.splits if_splits)
qed

lemma terminate_signals:
  assumes "kernel_ok holder start k" "respond_terminate_process k target opts s = (outcome, s')"
  shows "\<exists>evs. rs_sent s' = rs_sent s @ evs \<and>
    list_all (aimed holder start (rp_allow_pid_fallback opts) (id_pid target) (id_start target)) evs \<and>
    (evs \<noteq> [] \<longrightarrow> \<not> rp_dry_run opts \<and> signallable k (id_pid target)) \<and>
    (rr_status outcome = Terminated \<or> rr_status outcome = Signalled \<longrightarrow> evs \<noteq> [] \<and> sent_signal (hd evs) = SIGTERM \<and> sent_code (hd evs) = 0) \<and>
    (rr_status outcome \<notin> {Terminated, Signalled, Response_failed} \<longrightarrow> list_all (\<lambda>ev. sent_code ev \<noteq> 0) evs)"
proof -
  obtain reason s1 where p: "protected_reason k (id_pid target) s = (reason, s1)" by (rule prod.exhaust)
  obtain opened s2 where o: "handle_open k opts (id_pid target) (id_start target) s1 = (opened, s2)" by (rule prod.exhaust)
  have q: "rs_sent s1 = rs_sent s" "rs_sent s2 = rs_sent s" using quiet_sent quiet_protected [OF p] quiet_open [OF o] by simp_all
  show ?thesis
  proof (cases "valid_target target \<and> reason = [] \<and> (\<exists>h. opened = Held h) \<and> \<not> rp_dry_run opts")
    case False
    with assms(2) p o q show ?thesis
      by (intro exI [of _ "[]"]) (auto simp: respond_terminate_process_def refusal_def Let_def split: if_splits opened.splits)
  next
    case True
    then obtain h where h: "opened = Held h" by blast
    with True o open_holds [OF assms(1)] have held: "held_for holder start (rp_allow_pid_fallback opts) (rs_tick s2) (id_pid target) (id_start target) h" by blast
    have run: "terminate_held k opts h \<lparr>rr_status = Response_failed, rr_mode = handle_mode h, rr_affected = [target], rr_detail = []\<rparr> s2 = (outcome, s')"
      using assms(2) True p o h by (simp add: respond_terminate_process_def Let_def)
    from terminate_held_aimed(1) [OF assms(1) run held] q obtain evs
      where evs: "rs_sent s' = rs_sent s @ evs" "list_all (aimed holder start (rp_allow_pid_fallback opts) (id_pid target) (id_start target)) evs"
      by (auto simp: grows_def)
    moreover have "signallable k (id_pid target)" using unprotected p True by blast
    ultimately show ?thesis using terminate_held_aimed(2) [OF assms(1) run held] terminate_held_undelivered [OF run] q True by (intro exI [of _ evs]) auto
  qed
qed

text \<open>
  Whatever happens to pids while it runs, the responder signals only the process that was named: every
  signal delivered through a pidfd reached the process instance that had the named pid at that moment and began at the named
  start time, and a signal to a bare pid is sent only where the options allow it. Nothing is sent in a dry run, to init, to the kernel
  thread daemon or to the agent itself, and \<open>terminated\<close> or \<open>signalled\<close> is said only after a delivered \<open>SIGTERM\<close>.
\<close>

theorem terminate_only_target:
  assumes "kernel_ok holder start k" "respond_terminate_process k target opts s = (outcome, s')"
  shows "\<exists>evs. rs_sent s' = rs_sent s @ evs \<and>
    list_all (aimed holder start (rp_allow_pid_fallback opts) (id_pid target) (id_start target)) evs \<and>
    (evs \<noteq> [] \<longrightarrow> \<not> rp_dry_run opts \<and> signallable k (id_pid target)) \<and>
    (rr_status outcome = Terminated \<or> rr_status outcome = Signalled \<longrightarrow> evs \<noteq> [] \<and> sent_signal (hd evs) = SIGTERM \<and> sent_code (hd evs) = 0)"
  using terminate_signals [OF assms] by blast

section \<open>Descendants\<close>

definition parent_in :: "process_table \<Rightarrow> u32 \<Rightarrow> u32 \<Rightarrow> bool" where
  "parent_in table p c \<longleftrightarrow> c \<in> set (children_of table p)"

lemma parent_in_iff: "parent_in table p c \<longleftrightarrow> (\<exists>sp. (c, sp) \<in> set table \<and> sp_parent sp = p)"
  by (force simp: parent_in_def children_of_def)

lemma search_spec:
  assumes "set seen = insert root (set order)" "root \<notin> set order" "distinct order" "set queue \<subseteq> set seen"
    "\<And>x. x \<in> set seen \<Longrightarrow> x \<notin> set queue \<Longrightarrow> set (children_of table x) \<subseteq> set seen" "\<And>x. x \<in> set seen \<Longrightarrow> (parent_in table)\<^sup>*\<^sup>* root x"
  shows "distinct (search table queue seen order) \<and> root \<notin> set (search table queue seen order) \<and>
    (\<forall>x\<in>set (search table queue seen order). (parent_in table)\<^sup>*\<^sup>* root x) \<and>
    (\<forall>x\<in>insert root (set (search table queue seen order)). set (children_of table x) \<subseteq> insert root (set (search table queue seen order)))"
  using assms
proof (induction table queue seen order rule: search.induct)
  case (2 table pid queue seen order)
  define new where "new = push_children seen (children_of table pid)"
  have new: "set new = set (children_of table pid) - set seen" "distinct new" by (simp_all add: new_def push_children_new)
  have pid: "pid \<in> set seen" using "2.prems"(4) by simp
  have reach: "(parent_in table)\<^sup>*\<^sup>* root x" if "x \<in> set (seen @ new)" for x
  proof (cases "x \<in> set seen")
    case True
    then show ?thesis by (rule "2.prems"(6))
  next
    case False
    with that new(1) have "parent_in table pid x" by (simp add: parent_in_def)
    with "2.prems"(6) [OF pid] show ?thesis by (rule rtranclp.rtrancl_into_rtrancl)
  qed
  have closed: "set (children_of table x) \<subseteq> set (seen @ new)" if "x \<in> set (seen @ new)" "x \<notin> set (queue @ new)" for x
    using "2.prems"(5) [of x] that new(1) by (cases "x = pid") auto
  have sets: "distinct (order @ new)" "set (seen @ new) = insert root (set (order @ new))" "root \<notin> set (order @ new)" "set (queue @ new) \<subseteq> set (seen @ new)"
    using "2.prems" new by auto
  have "search table (pid # queue) seen order = search table (queue @ new) (seen @ new) (order @ new)" by (simp add: new_def Let_def)
  with "2.IH" [OF new_def sets(2,3,1,4) closed reach] show ?case by simp
qed auto

lemma descendants_spec:
  "set (descendants_of table root) = {c. c \<noteq> root \<and> (parent_in table)\<^sup>*\<^sup>* root c}" "distinct (descendants_of table root)"
proof -
  define r where "r = descendants_of table root"
  have spec: "distinct r" "root \<notin> set r" "\<And>x. x \<in> set r \<Longrightarrow> (parent_in table)\<^sup>*\<^sup>* root x"
    "\<And>x. x \<in> insert root (set r) \<Longrightarrow> set (children_of table x) \<subseteq> insert root (set r)"
    using search_spec [of "[root]" root "[]" "[root]" table] unfolding r_def descendants_of_def by auto
  have "x \<in> insert root (set r)" if "(parent_in table)\<^sup>*\<^sup>* root x" for x
    using that spec(4) by (induction rule: rtranclp_induct) (auto simp: parent_in_def)
  with spec show "set (descendants_of table root) = {c. c \<noteq> root \<and> (parent_in table)\<^sup>*\<^sup>* root c}" "distinct (descendants_of table root)"
    unfolding r_def [symmetric] by auto
qed

lemma descendants_reach: "pid \<in> set (descendants_of table root) \<Longrightarrow> (parent_in table)\<^sup>*\<^sup>* root pid"
  by (simp add: descendants_spec(1))

text \<open>
  The descendants of a process are exactly the processes of the table that a chain of parents leads to from it, each once,
  without the process itself, also when the parents form a cycle.
\<close>

theorem descendants_exact:
  "set (descendants_of table root) = {c. c \<noteq> root \<and> (parent_in table)\<^sup>*\<^sup>* root c} \<and> distinct (descendants_of table root)"
  by (simp add: descendants_spec)

section \<open>A tree\<close>

text \<open>
  A process table read from \<open>began\<close> to \<open>ended\<close>: each entry is what a stat file of that pid said at a moment in between.
\<close>

definition shown :: "kernel \<Rightarrow> nat \<Rightarrow> nat \<Rightarrow> process_table \<Rightarrow> bool" where
  "shown k began over table \<longleftrightarrow>
     (\<forall>(pid, sp)\<in>set table. \<exists>u str st. began < u \<and> u < over \<and> kn_stat k u pid = Some str \<and> parse_stat_view (take 8192 str) = Some st \<and>
        sv_parent st = sp_parent sp \<and> sv_start st = sp_start sp)"

lemma table_put_set: "x \<in> set (table_put pid v table) \<Longrightarrow> x = (pid, v) \<or> x \<in> set table"
  by (induction pid v table rule: table_put.induct) (auto split: if_splits)

lemma shown_later: "shown k began u table \<Longrightarrow> u \<le> v \<Longrightarrow> shown k began v table"
  unfolding shown_def by (fastforce dest: order.strict_trans2)

lemma scan_names_shown:
  assumes "scan_names k names visited table s = (Some table', s')" "shown k began (rs_tick s) table" "began < rs_tick s"
  shows "shown k began (rs_tick s') table'"
  using assms
proof (induction k names visited table s rule: scan_names.induct)
  case (2 k name names visited table s)
  show ?case
  proof (cases "whole_number (2 ^ 32 - 1) name")
    case (Some pid)
    obtain stat s1 where r: "read_stat k (of_nat pid) s = (stat, s1)" by (rule prod.exhaust)
    have s1: "rs_tick s1 = Suc (rs_tick s)" using quiet_read_stat [OF r] by simp
    define new where "new = (case stat of None \<Rightarrow> table | Some st \<Rightarrow> table_put (of_nat pid) \<lparr>sp_parent = sv_parent st, sp_start = sv_start st\<rparr> table)"
    have "shown k began (rs_tick s1) new"
    proof (cases stat)
      case None
      then show ?thesis using shown_later [OF "2.prems"(2)] s1 by (simp add: new_def)
    next
      case (Some st)
      with r obtain str where "kn_stat k (rs_tick s) (of_nat pid) = Some str" "parse_stat_view (take 8192 str) = Some st"
        by (auto simp: read_stat_def split: option.splits)
      moreover have "shown k began (rs_tick s1) table" using shown_later [OF "2.prems"(2)] s1 by simp
      ultimately show ?thesis using s1 "2.prems"(3) Some unfolding new_def shown_def by (fastforce dest!: table_put_set)
    qed
    with 2 Some r s1 new_def show ?thesis by (auto split: if_splits)
  qed (use 2 in simp)
qed simp

lemma scan_shown:
  assumes "scan_processes k s = (Some table, s')"
  shows "(rs_tick s, rs_tick s', table) \<in> set (drop (length (rs_scans s)) (rs_scans s')) \<and> shown k (rs_tick s) (rs_tick s') table"
  using assms
proof (rule scan_processes_parts)
  fix t s1 assume names: "scan_names k (fst (kn_proc k (rs_tick s))) 0 [] (tick s) = (t, s1)" and t: "Some table = None \<or> Some table = t"
    and s': "s' = record_scan (rs_tick s) (Some table) s1"
  have "shown k (rs_tick s) (rs_tick s1) table"
    using scan_names_shown [of k _ 0 "[]" "tick s" table s1 "rs_tick s"] names t by (simp add: shown_def tick_def)
  moreover obtain scans where "rs_scans s1 = rs_scans s @ scans"
    using quiet_scan_names [OF names] by (auto simp: grows_def tick_def)
  ultimately show ?thesis by (simp add: s' record_scan_def)
qed

text \<open>
  The members of a tree at a moment, given the scans made: the root, and what one of the scans made before that moment shows as its
  descendant, with the start time that scan saw; none of them protected.
\<close>

definition tree_member :: "kernel \<Rightarrow> process_identity \<Rightarrow> (nat \<times> nat \<times> process_table) set \<Rightarrow> nat \<Rightarrow> u32 \<Rightarrow> u64 \<Rightarrow> bool" where
  "tree_member k target scans t pid st \<longleftrightarrow> signallable k pid \<and>
     (pid = id_pid target \<and> st = id_start target \<or>
      (\<exists>began over table sp. (began, over, table) \<in> scans \<and> over \<le> t \<and> shown k began over table \<and>
         pid \<noteq> id_pid target \<and> (parent_in table)\<^sup>*\<^sup>* (id_pid target) pid \<and> map_of table pid = Some sp \<and> sp_start sp = st))"

lemma tree_member_later: "tree_member k target scans t pid st \<Longrightarrow> scans \<subseteq> scans' \<Longrightarrow> t \<le> u \<Longrightarrow> tree_member k target scans' u pid st"
  unfolding tree_member_def by (elim conjE disjE exE) (auto 0 4 dest: subsetD intro: order.trans)

text \<open>The scans made since the first \<open>n\<close>.\<close>

definition made :: "nat \<Rightarrow> responder \<Rightarrow> (nat \<times> nat \<times> process_table) set" where
  "made n s = set (drop n (rs_scans s))"

lemma made_grows: "grows Q s s' \<Longrightarrow> made n s \<subseteq> made n s'"
  by (auto simp: grows_def made_def)

text \<open>The signals of a tree response: aimed at a member, of one kind, and through a pidfd only of a handle that is held.\<close>

definition tree_signal :: "(nat \<Rightarrow> u32 \<Rightarrow> nat option) \<Rightarrow> (nat \<Rightarrow> u64) \<Rightarrow> kernel \<Rightarrow> process_identity \<Rightarrow> response_options \<Rightarrow>
    (nat \<times> nat \<times> process_table) set \<Rightarrow> signal_number \<Rightarrow> process_handle list \<Rightarrow> sent \<Rightarrow> bool" where
  "tree_signal holder start k target opts scans sig hs ev \<longleftrightarrow> sent_signal ev = sig \<and>
     (\<exists>pid st. tree_member k target scans (sent_at ev) pid st \<and> aimed holder start (rp_allow_pid_fallback opts) pid st ev) \<and>
     (\<forall>d. sent_by ev = By_pidfd d \<longrightarrow> (\<exists>h\<in>set hs. ph_descriptor h = Some d))"

definition members_held :: "(nat \<Rightarrow> u32 \<Rightarrow> nat option) \<Rightarrow> (nat \<Rightarrow> u64) \<Rightarrow> kernel \<Rightarrow> process_identity \<Rightarrow> response_options \<Rightarrow> nat \<Rightarrow> responder \<Rightarrow> process_handle list \<Rightarrow> bool" where
  "members_held holder start k target opts n s hs \<longleftrightarrow>
     (\<forall>h\<in>set hs. \<exists>pid st. tree_member k target (made n s) (rs_tick s) pid st \<and> held_for holder start (rp_allow_pid_fallback opts) (rs_tick s) pid st h)"

lemma members_held_grows: "members_held holder start k target opts n s hs \<Longrightarrow> grows Q s s' \<Longrightarrow> members_held holder start k target opts n s' hs"
  unfolding members_held_def by (meson held_for_grows tree_member_later made_grows grows_tick)

lemma tree_signal_more:
  "tree_signal holder start k target opts scans sig hs ev \<Longrightarrow> set hs \<subseteq> set hs' \<Longrightarrow> scans \<subseteq> scans' \<Longrightarrow>
   tree_signal holder start k target opts scans' sig hs' ev"
  unfolding tree_signal_def by (meson order.refl subsetD tree_member_later)

lemma send_moment: "handle_send k h sig s = (e, s') \<Longrightarrow> grows (\<lambda>ev. rs_tick s \<le> sent_at ev) s s'"
  by (auto simp: handle_send_def record_sent_def grows_def tick_def Let_def read_stat_def split: option.splits if_splits)

lemma send_member:
  assumes "kernel_ok holder start k" "handle_send k h sig s = (e, s')" "members_held holder start k target opts n s [h]"
  shows "grows (tree_signal holder start k target opts (made n s) sig [h]) s s'"
proof -
  from assms(3) obtain pid st where m: "tree_member k target (made n s) (rs_tick s) pid st" "held_for holder start (rp_allow_pid_fallback opts) (rs_tick s) pid st h"
    by (auto simp: members_held_def)
  have "grows (\<lambda>ev. \<forall>d. sent_by ev = By_pidfd d \<longrightarrow> ph_descriptor h = Some d) s s'"
    using assms(2) by (fastforce simp: handle_send_def record_sent_def grows_def tick_def Let_def read_stat_def split: option.splits if_splits)
  with send_aimed [OF assms(1,2) m(2)] send_moment [OF assms(2)] tree_member_later [OF m(1) order.refl]
  show ?thesis unfolding grows_def tree_signal_def list_all_iff by (clarsimp, blast)
qed

lemma send_all_members:
  assumes "kernel_ok holder start k" "send_all k sig hs s = (r, s')" "members_held holder start k target opts n s hs"
  shows "grows (tree_signal holder start k target opts (made n s') sig hs) s s'"
  using assms(2,3)
proof (induction hs arbitrary: r s)
  case (Cons h hs)
  obtain e s1 where h: "handle_send k h sig s = (e, s1)" by (rule prod.exhaust)
  obtain r' where rest: "send_all k sig hs s1 = (r', s')" using Cons.prems(1) h by (auto split: prod.splits)
  have held: "members_held holder start k target opts n s [h]" "members_held holder start k target opts n s hs"
    using Cons.prems(2) by (simp_all add: members_held_def)
  note one = send_member [OF assms(1) h held(1)]
  note others = Cons.IH [OF rest members_held_grows [OF held(2) one]]
  have made: "made n s \<subseteq> made n s'" using made_grows [OF one, of n] made_grows [OF others, of n] by blast
  have "grows (tree_signal holder start k target opts (made n s') sig (h # hs)) s s1"
    by (rule grows_mono [OF one], erule tree_signal_more) (use made in auto)
  moreover have "grows (tree_signal holder start k target opts (made n s') sig (h # hs)) s1 s'"
    by (rule grows_mono [OF others], erule tree_signal_more) auto
  ultimately show ?case by (rule grows_trans)
qed simp

text \<open>Sending to all leaves a record for each pidfd.\<close>

lemma send_recorded: "handle_send k h sig s = (e, s') \<Longrightarrow> \<exists>evs. rs_sent s' = rs_sent s @ evs \<and> (\<forall>d. ph_descriptor h = Some d \<longrightarrow> By_pidfd d \<in> sent_by ` set evs)"
  by (auto simp: handle_send_def record_sent_def tick_def read_stat_def Let_def split: option.splits if_splits)

lemma send_all_recorded:
  "send_all k sig hs s = (r, s') \<Longrightarrow> \<exists>evs. rs_sent s' = rs_sent s @ evs \<and> (\<forall>h\<in>set hs. \<forall>d. ph_descriptor h = Some d \<longrightarrow> By_pidfd d \<in> sent_by ` set evs)"
proof (induction hs arbitrary: r s)
  case (Cons h hs)
  obtain e s1 where h: "handle_send k h sig s = (e, s1)" by (rule prod.exhaust)
  obtain r' where rest: "send_all k sig hs s1 = (r', s')" using Cons.prems h by (auto split: prod.splits)
  from send_recorded [OF h] Cons.IH [OF rest] show ?case by (fastforce simp: image_Un)
qed simp

text \<open>Collecting the members only stops, and only members.\<close>

definition stopping :: "(nat \<Rightarrow> u32 \<Rightarrow> nat option) \<Rightarrow> (nat \<Rightarrow> u64) \<Rightarrow> kernel \<Rightarrow> process_identity \<Rightarrow> response_options \<Rightarrow>
    nat \<Rightarrow> tree_state \<Rightarrow> responder \<Rightarrow> tree_state \<Rightarrow> responder \<Rightarrow> bool" where
  "stopping holder start k target opts n t s t' s' \<longleftrightarrow> members_held holder start k target opts n s (tr_held t) \<longrightarrow>
     set (tr_held t) \<subseteq> set (tr_held t') \<and> members_held holder start k target opts n s' (tr_held t') \<and>
     grows (tree_signal holder start k target opts (made n s') SIGSTOP (tr_held t')) s s'"

lemma stopping_quiet: "quiet s s' \<Longrightarrow> tr_held t' = tr_held t \<Longrightarrow> stopping holder start k target opts n t s t' s'"
  by (auto simp: stopping_def intro: quiet_grows members_held_grows)

lemma stopping_trans:
  assumes "stopping holder start k target opts n t s t1 s1" "stopping holder start k target opts n t1 s1 t2 s2"
  shows "stopping holder start k target opts n t s t2 s2"
proof -
  have "grows (tree_signal holder start k target opts (made n s2) SIGSTOP (tr_held t2)) s s1"
    if "grows (tree_signal holder start k target opts (made n s1) SIGSTOP (tr_held t1)) s s1" "set (tr_held t1) \<subseteq> set (tr_held t2)" "made n s1 \<subseteq> made n s2"
    using that(2,3) by (intro grows_mono [OF that(1)]) (rule tree_signal_more)
  with assms show ?thesis unfolding stopping_def by (meson grows_trans subset_trans made_grows)
qed

lemma stop_member_grows: "stop_member k opts host table pid t s = (r, s') \<Longrightarrow> grows (\<lambda>_. True) s s'"
  by (auto simp: stop_member_def Let_def split: if_splits prod.splits opened.splits
      dest!: quiet_protected quiet_open quiet_grows [where Q = "\<lambda>_. True"] intro: grows_trans [OF grows_trans send_grows] grows_trans)

lemma stop_members_grows: "stop_members k opts host table pids t s = (x, s') \<Longrightarrow> grows (\<lambda>_. True) s s'"
  by (induction pids arbitrary: t s) (auto split: prod.splits sum.splits dest: stop_member_grows intro: grows_trans)

lemma grows_scans: "grows Q s s' \<Longrightarrow> length (rs_scans s) \<le> length (rs_scans s')"
  by (auto simp: grows_def)

lemma stop_member_stopping:
  assumes "kernel_ok holder start k" "stop_member k opts host table pid t s = (r, s')"
    "(began, over, table) \<in> made n s" "over \<le> rs_tick s" "shown k began over table" "pid \<in> set (descendants_of table (id_pid target))"
  shows "case r of Inl _ \<Rightarrow> quiet s s' | Inr t' \<Rightarrow> stopping holder start k target opts n t s t' s'"
proof -
  obtain reason s1 where p0: "protected_reason k pid s = (reason, s1)" by (rule prod.exhaust)
  obtain opened s2 where o0: "handle_open k opts pid (start_in table pid) s1 = (opened, s2)" by (rule prod.exhaust)
  note q1 = quiet_protected [OF p0] and q = grows_trans [OF quiet_protected [OF p0] quiet_open [OF o0]]
  consider h where "pid \<notin> set (tr_known t)" "\<not> rp_maximum_tree_size opts < Suc (length (tr_known t))" "reason = []" "opened = Held h"
    | "pid \<in> set (tr_known t) \<or> rp_maximum_tree_size opts < Suc (length (tr_known t)) \<or> reason \<noteq> [] \<or> (\<exists>m w. opened = Not_held m w)"
    by (cases opened) blast+
  then show ?thesis
  proof cases
    case (1 h)
    obtain e where stop: "handle_send k h SIGSTOP s2 = (e, s')" and "\<exists>t'. r = Inr t' \<and> tr_held t' = tr_held t @ [h]"
      using assms(2) 1 p0 o0 by (cases "handle_send k h SIGSTOP s2") (auto simp: stop_member_def Let_def)
    then obtain t' where r: "r = Inr t'" "tr_held t' = tr_held t @ [h]" by blast
    have p: "protected_reason k pid s = ([], s1)" and o: "handle_open k opts pid (start_in table pid) s1 = (Held h, s2)" using p0 o0 1 by simp_all
    have reach: "pid \<noteq> id_pid target" "(parent_in table)\<^sup>*\<^sup>* (id_pid target) pid" using assms(6) by (simp_all add: descendants_spec(1))
    then obtain parent where "parent_in table parent pid" by (metis rtranclp.cases)
    then obtain sp where "(pid, sp) \<in> set table" by (auto simp: parent_in_iff)
    then obtain sp where "map_of table pid = Some sp" using weak_map_of_SomeI by fastforce
    with reach have "tree_member k target (made n s) (rs_tick s) pid (start_in table pid)"
      using unprotected [OF p] assms(3-5) unfolding tree_member_def start_in_def by auto
    then have "tree_member k target (made n s2) (rs_tick s2) pid (start_in table pid)"
      by (rule tree_member_later) (auto intro: made_grows [OF q, THEN subsetD] grows_tick [OF q])
    with open_holds [OF assms(1) o] have new: "members_held holder start k target opts n s2 [h]" by (auto simp: members_held_def)
    have sent: "grows (tree_signal holder start k target opts (made n s') SIGSTOP (tr_held t')) s2 s'"
      using made_grows [OF send_member [OF assms(1) stop new], of n]
      by (intro grows_mono [OF send_member [OF assms(1) stop new]]) (erule tree_signal_more, auto simp: r(2))
    have "stopping holder start k target opts n t s t' s'" unfolding stopping_def
    proof (intro impI conjI)
      assume "members_held holder start k target opts n s (tr_held t)"
      with new have "members_held holder start k target opts n s2 (tr_held t')"
        using members_held_grows [OF _ q] by (auto simp: members_held_def r(2))
      then show "members_held holder start k target opts n s' (tr_held t')" by (rule members_held_grows [OF _ sent])
      show "grows (tree_signal holder start k target opts (made n s') SIGSTOP (tr_held t')) s s'" by (rule grows_trans [OF quiet_grows [OF q] sent])
    qed (auto simp: r(2))
    with r show ?thesis by simp
  next
    case 2
    with assms(2) p0 o0 q1 q show ?thesis by (auto simp: stop_member_def Let_def split: if_splits opened.splits intro!: stopping_quiet)
  qed
qed

lemma stop_members_stopping:
  assumes "kernel_ok holder start k" "stop_members k opts host table pids t s = ((r, t'), s')"
    "(began, over, table) \<in> made n s" "over \<le> rs_tick s" "shown k began over table" "set pids \<subseteq> set (descendants_of table (id_pid target))"
  shows "stopping holder start k target opts n t s t' s'"
  using assms(2,3,4,6)
proof (induction pids arbitrary: t s)
  case (Cons pid pids)
  obtain r1 s1 where m: "stop_member k opts host table pid t s = (r1, s1)" by (rule prod.exhaust)
  have one: "case r1 of Inl _ \<Rightarrow> quiet s s1 | Inr t1 \<Rightarrow> stopping holder start k target opts n t s t1 s1"
    using stop_member_stopping [OF assms(1) m Cons.prems(2,3) assms(5)] Cons.prems(4) by simp
  note g = stop_member_grows [OF m]
  show ?case
  proof (cases r1)
    case (Inl x)
    with Cons.prems(1) m one show ?thesis by (auto intro: stopping_quiet)
  next
    case (Inr t1)
    with Cons.prems m have "stopping holder start k target opts n t1 s1 t' s'"
      using made_grows [OF g, of n] grows_tick [OF g] by (intro Cons.IH) auto
    with one Inr show ?thesis by (auto intro: stopping_trans)
  qed
qed (auto intro: stopping_quiet)

lemma collect_rounds_stopping:
  assumes "kernel_ok holder start k" "collect_rounds k opts target rounds t s = ((r, t'), s')" "n \<le> length (rs_scans s)"
  shows "stopping holder start k target opts n t s t' s'"
  using assms(2,3)
proof (induction rounds arbitrary: t s)
  case (Suc rounds)
  obtain scanned s1 where scan: "scan_processes k s = (scanned, s1)" by (rule prod.exhaust)
  note q = quiet_scan [OF scan]
  show ?case
  proof (cases "tr_stable t \<or> scanned = None")
    case True
    with Suc.prems scan q show ?thesis by (auto split: if_splits intro: stopping_quiet)
  next
    case False
    then obtain table where table: "scanned = Some table" by blast
    obtain r1 t1 s2 where m: "stop_members k opts (id_host target) table (descendants_of table (id_pid target)) (t\<lparr>tr_stable := True\<rparr>) s1 = ((r1, t1), s2)"
      by (metis prod.exhaust)
    have seen: "(rs_tick s, rs_tick s1, table) \<in> made n s1" "shown k (rs_tick s) (rs_tick s1) table"
      using scan_shown [of k s table s1] scan table Suc.prems(2) set_drop_subset_set_drop [of n "length (rs_scans s)" "rs_scans s1"] by (auto simp: made_def)
    from stop_members_stopping [OF assms(1) m seen(1) order.refl seen(2)]
    have "stopping holder start k target opts n (t\<lparr>tr_stable := True\<rparr>) s1 t1 s2" by blast
    with q have one: "stopping holder start k target opts n t s t1 s2"
      using stopping_trans [OF stopping_quiet [of s s1 "t\<lparr>tr_stable := True\<rparr>" t]] by simp
    show ?thesis
    proof (cases r1)
      case None
      moreover have "n \<le> length (rs_scans s2)"
        using Suc.prems(2) grows_scans [OF q] grows_scans [OF stop_members_grows [OF m]] by simp
      ultimately have "stopping holder start k target opts n t1 s2 t' s'" using Suc.prems(1) False scan table m by (intro Suc.IH) simp_all
      with one show ?thesis by (rule stopping_trans)
    next
      case (Some x)
      with Suc.prems False scan table m one show ?thesis by simp
    qed
  qed
qed (auto intro: stopping_quiet split: if_splits)

text \<open>After the root was stopped: either everything is resumed, or everything is killed.\<close>

lemma kill_tree_members:
  assumes "kernel_ok holder start k" "kill_tree k root t out s = (out', s')" "members_held holder start k target opts n s (tr_held t @ [root])"
  shows "grows (tree_signal holder start k target opts (made n s') SIGKILL (tr_held t @ [root])) s s'"
    "rr_status out' = Terminated \<or> rr_status out' = Signalled \<or> rr_status out' = Response_failed"
proof -
  obtain r s1 where k: "send_all k SIGKILL (tr_held t @ [root]) s = (r, s1)" by (rule prod.exhaust)
  obtain b s2 where w: "wait_all k (tr_held t @ [root]) (r = 0) s1 = (b, s2)" by (rule prod.exhaust)
  from assms(2) k w have s2: "s' = s2" by (auto simp: kill_tree_def)
  have "grows (tree_signal holder start k target opts (made n s2) SIGKILL (tr_held t @ [root])) s s1"
    using made_grows [OF quiet_wait_all [OF w], of n] by (intro grows_mono [OF send_all_members [OF assms(1) k assms(3)]]) (erule tree_signal_more, auto)
  then show "grows (tree_signal holder start k target opts (made n s') SIGKILL (tr_held t @ [root])) s s'" unfolding s2
    by (rule grows_trans [OF _ quiet_grows [OF quiet_wait_all [OF w]]])
  show "rr_status out' = Terminated \<or> rr_status out' = Signalled \<or> rr_status out' = Response_failed" 
    using assms(2) k w by (cases "r = 0"; cases b) (auto simp: kill_tree_def)
qed

lemma released_members:
  assumes "kernel_ok holder start k" "released k root held out s = (out', s')" "members_held holder start k target opts n s (root # held)"
  shows "made n s \<subseteq> made n s' \<and> (\<exists>evs. rs_sent s' = rs_sent s @ evs \<and> list_all (tree_signal holder start k target opts (made n s') SIGCONT (root # held)) evs \<and>
    (\<forall>h\<in>set (root # held). \<forall>d. ph_descriptor h = Some d \<longrightarrow> By_pidfd d \<in> sent_by ` set evs))"
proof -
  have "snd (send_all k SIGCONT (root # held) s) = s'" using assms(2) by (simp add: released_def case_prod_beta)
  then obtain r where all: "send_all k SIGCONT (root # held) s = (r, s')" by (metis prod.collapse)
  from send_all_members [OF assms(1) all assms(3)] send_all_recorded [OF all] made_grows [OF send_all_members [OF assms(1) all assms(3)], of n]
  show ?thesis by (auto simp: grows_def)
qed

definition ended :: "response_outcome \<Rightarrow> bool" where
  "ended outcome \<longleftrightarrow> rr_status outcome \<in> {Terminated, Signalled, Response_failed}"

text \<open>What a tree response leaves behind: signals to members only, first stops, then either resumes or kills.\<close>

definition tree_run :: "(nat \<Rightarrow> u32 \<Rightarrow> nat option) \<Rightarrow> (nat \<Rightarrow> u64) \<Rightarrow> kernel \<Rightarrow> process_identity \<Rightarrow> response_options \<Rightarrow>
    (nat \<times> nat \<times> process_table) set \<Rightarrow> response_outcome \<Rightarrow> sent list \<Rightarrow> bool" where
  "tree_run holder start k target opts scans outcome evs \<longleftrightarrow>
     (\<exists>stops rest sig hs. evs = stops @ rest \<and> list_all (tree_signal holder start k target opts scans SIGSTOP hs) stops \<and>
        list_all (tree_signal holder start k target opts scans sig hs) rest \<and>
        (sig = SIGKILL \<and> ended outcome \<or>
         sig = SIGCONT \<and> (\<forall>ev\<in>set stops. sent_code ev = 0 \<longrightarrow> (\<forall>d. sent_by ev = By_pidfd d \<longrightarrow> By_pidfd d \<in> sent_by ` set rest))))"

lemma tree_run_none: "tree_run holder start k target opts scans outcome []"
  unfolding tree_run_def by (rule exI [of _ "[]"], rule exI [of _ "[]"], rule exI [of _ SIGCONT]) simp

lemma stop_and_kill_run:
  assumes "kernel_ok holder start k" "stop_and_kill k target opts root out s = (out', s')" "members_held holder start k target opts n s [root]"
    "n \<le> length (rs_scans s)"
  shows "\<exists>evs. rs_sent s' = rs_sent s @ evs \<and> tree_run holder start k target opts (made n s') out' evs"
proof -
  obtain e s1 where stop: "handle_send k root SIGSTOP s = (e, s1)" by (rule prod.exhaust)
  note root = send_member [OF assms(1) stop assms(3)]
  then obtain ev0 where ev0: "rs_sent s1 = rs_sent s @ ev0" "list_all (tree_signal holder start k target opts (made n s) SIGSTOP [root]) ev0" by (auto simp: grows_def)
  show ?thesis
  proof (cases "e = 0")
    case False
    with stop have "\<forall>ev\<in>set ev0. sent_code ev \<noteq> 0"
      using ev0(1) by (auto simp: handle_send_def record_sent_def tick_def read_stat_def Let_def split: option.splits if_splits)
    moreover have "s' = s1" using assms(2) stop False by (simp add: stop_and_kill_def)
    moreover have "list_all (tree_signal holder start k target opts (made n s1) SIGSTOP [root]) ev0"
      using ev0(2) made_grows [OF root, of n] by (auto simp: list_all_iff intro: tree_signal_more)
    ultimately show ?thesis using ev0(1) unfolding tree_run_def
      by (intro exI [of _ ev0] conjI exI [of _ ev0] exI [of _ "[]"] exI [of _ SIGCONT] exI [of _ "[root]"]) auto
  next
    case True
    define t0 where "t0 = \<lparr>tr_known = [id_pid target], tr_held = [], tr_affected = [target], tr_stable = False\<rparr>"
    obtain r t s2 where rounds: "collect_rounds k opts target maximum_rounds t0 s1 = ((r, t), s2)" by (metis prod.exhaust)
    have "n \<le> length (rs_scans s1)" using assms(4) grows_scans [OF root] by simp
    then have "stopping holder start k target opts n t0 s1 t s2" by (rule collect_rounds_stopping [OF assms(1) rounds])
    then have st: "members_held holder start k target opts n s2 (tr_held t)" "grows (tree_signal holder start k target opts (made n s2) SIGSTOP (tr_held t)) s1 s2"
      by (simp_all add: stopping_def t0_def members_held_def)
    obtain ev1 where ev1: "rs_sent s2 = rs_sent s1 @ ev1" "list_all (tree_signal holder start k target opts (made n s2) SIGSTOP (tr_held t)) ev1"
      using st(2) by (auto simp: grows_def)
    have held: "members_held holder start k target opts n s2 (root # tr_held t)" "members_held holder start k target opts n s2 (tr_held t @ [root])"
      using st(1) members_held_grows [OF members_held_grows [OF assms(3) root] st(2)] by (auto simp: members_held_def)
    have made: "made n s \<subseteq> made n s2" using made_grows [OF root, of n] made_grows [OF st(2), of n] by blast
    have stops: "list_all (tree_signal holder start k target opts (made n s') SIGSTOP (root # tr_held t)) (ev0 @ ev1)" if "made n s2 \<subseteq> made n s'"
    proof -
      have "tree_signal holder start k target opts (made n s') SIGSTOP (root # tr_held t) ev" if "ev \<in> set ev0" for ev
        by (rule tree_signal_more [of _ _ _ _ _ "made n s" _ "[root]"])
          (use ev0(2) that made \<open>made n s2 \<subseteq> made n s'\<close> in \<open>auto simp: list_all_iff\<close>)
      moreover have "tree_signal holder start k target opts (made n s') SIGSTOP (root # tr_held t) ev" if "ev \<in> set ev1" for ev
        by (rule tree_signal_more [of _ _ _ _ _ "made n s2" _ "tr_held t"])
          (use ev1(2) that \<open>made n s2 \<subseteq> made n s'\<close> in \<open>auto simp: list_all_iff\<close>)
      ultimately show ?thesis by (auto simp: list_all_iff)
    qed
    show ?thesis
    proof (cases r)
      case None
      with assms(2) stop True rounds have kill: "kill_tree k root t out s2 = (out', s')" by (simp add: stop_and_kill_def t0_def)
      note killed = kill_tree_members(1) [OF assms(1) kill held(2)]
      then obtain ev2 where ev2: "rs_sent s' = rs_sent s2 @ ev2"
        "list_all (tree_signal holder start k target opts (made n s') SIGKILL (tr_held t @ [root])) ev2" by (auto simp: grows_def)
      have "list_all (tree_signal holder start k target opts (made n s') SIGKILL (root # tr_held t)) ev2"
        using ev2(2) unfolding list_all_iff by (auto elim!: tree_signal_more)
      moreover have "ended out'" using kill_tree_members(2) [OF assms(1) kill held(2)] by (auto simp: ended_def)
      ultimately show ?thesis using ev0(1) ev1(1) ev2(1) stops [OF made_grows [OF killed]] unfolding tree_run_def
        by (intro exI [of _ "(ev0 @ ev1) @ ev2"] conjI exI [of _ "ev0 @ ev1"] exI [of _ ev2] exI [of _ SIGKILL] exI [of _ "root # tr_held t"]) simp_all
    next
      case (Some refused)
      with assms(2) stop True rounds have rel: "released k root (tr_held t) refused s2 = (out', s')" by (simp add: stop_and_kill_def t0_def)
      from released_members [OF assms(1) rel held(1)] obtain ev2 where ev2: "rs_sent s' = rs_sent s2 @ ev2"
        "list_all (tree_signal holder start k target opts (made n s') SIGCONT (root # tr_held t)) ev2"
        "\<forall>h\<in>set (root # tr_held t). \<forall>d. ph_descriptor h = Some d \<longrightarrow> By_pidfd d \<in> sent_by ` set ev2" and more: "made n s2 \<subseteq> made n s'" by blast
      have "\<forall>ev\<in>set (ev0 @ ev1). \<forall>d. sent_by ev = By_pidfd d \<longrightarrow> By_pidfd d \<in> sent_by ` set ev2"
        using stops [OF more] ev2(3) unfolding list_all_iff tree_signal_def by blast
      with ev0(1) ev1(1) ev2 stops [OF more] show ?thesis unfolding tree_run_def
        by (intro exI [of _ "(ev0 @ ev1) @ ev2"] conjI exI [of _ "ev0 @ ev1"] exI [of _ ev2] exI [of _ SIGCONT] exI [of _ "root # tr_held t"]) simp_all
    qed
  qed
qed

lemma tree_runs:
  assumes "kernel_ok holder start k" "respond_terminate_tree k target opts s = (outcome, s')"
  shows "\<exists>evs. rs_sent s' = rs_sent s @ evs \<and> tree_run holder start k target opts (made (length (rs_scans s)) s') outcome evs \<and> (evs \<noteq> [] \<longrightarrow> \<not> rp_dry_run opts)"
proof -
  obtain reason s1 where p: "protected_reason k (id_pid target) s = (reason, s1)" by (rule prod.exhaust)
  obtain opened s2 where o: "handle_open k opts (id_pid target) (id_start target) s1 = (opened, s2)" by (rule prod.exhaust)
  obtain scanned s3 where scan: "scan_processes k s2 = (scanned, s3)" by (rule prod.exhaust)
  obtain r s4 where m: "members_protected k (descendants_of (the scanned) (id_pid target)) s3 = (r, s4)" by (rule prod.exhaust)
  note qs = quiet_protected [OF p] quiet_open [OF o] quiet_scan [OF scan] quiet_members [OF m]
  have q: "rs_sent s1 = rs_sent s" "rs_sent s2 = rs_sent s" "rs_sent s3 = rs_sent s" "rs_sent s4 = rs_sent s" using quiet_sent qs by simp_all
  show ?thesis
  proof (cases "\<exists>root out. opened = Held root \<and> reason = [] \<and> \<not> rp_dry_run opts \<and> stop_and_kill k target opts root out s4 = (outcome, s')")
    case False
    with assms(2) p o scan m q have "rs_sent s' = rs_sent s"
      by (cases opened; cases scanned; cases r) (auto simp: respond_terminate_tree_def Let_def split: if_splits)
    then show ?thesis using tree_run_none by (intro exI [of _ "[]"]) simp
  next
    case True
    then obtain root out where run: "opened = Held root" "reason = []" "\<not> rp_dry_run opts" "stop_and_kill k target opts root out s4 = (outcome, s')" by blast
    have "held_for holder start (rp_allow_pid_fallback opts) (rs_tick s2) (id_pid target) (id_start target) root" using open_holds [OF assms(1)] o run(1) by blast
    moreover have "tree_member k target scans t (id_pid target) (id_start target)" for scans t using unprotected p run(2) by (simp add: tree_member_def)
    ultimately have "members_held holder start k target opts (length (rs_scans s)) s2 [root]" by (auto simp: members_held_def)
    note held = members_held_grows [OF this grows_trans [OF qs(3,4)]]
    have "length (rs_scans s) \<le> length (rs_scans s4)" using qs [THEN grows_scans] by simp
    from stop_and_kill_run [OF assms(1) run(4) held this] q run(3) show ?thesis by auto
  qed
qed

text \<open>The scans of a run are appended to the log.\<close>

lemma send_all_grows: "send_all k sig hs s = (r, s') \<Longrightarrow> grows (\<lambda>_. True) s s'"
proof (induction hs arbitrary: r s)
  case (Cons h hs)
  obtain e s1 where h: "handle_send k h sig s = (e, s1)" by (rule prod.exhaust)
  obtain r' where rest: "send_all k sig hs s1 = (r', s')" using Cons.prems h by (auto split: prod.splits)
  from send_grows [of s k h sig] Cons.IH [OF rest] show ?case unfolding h by (auto intro: grows_trans)
qed simp

lemma collect_rounds_grows: "collect_rounds k opts target n t s = (x, s') \<Longrightarrow> grows (\<lambda>_. True) s s'"
proof (induction n arbitrary: t s)
  case (Suc n)
  obtain scanned s1 where scan: "scan_processes k s = (scanned, s1)" by (rule prod.exhaust)
  note q = quiet_grows [OF quiet_scan [OF scan], of "\<lambda>_. True"]
  show ?case
  proof (cases "tr_stable t \<or> scanned = None")
    case True
    with Suc.prems scan q show ?thesis by (auto split: if_splits)
  next
    case False
    then obtain table where table: "scanned = Some table" by blast
    obtain r1 t1 s2 where m: "stop_members k opts (id_host target) table (descendants_of table (id_pid target)) (t\<lparr>tr_stable := True\<rparr>) s1 = ((r1, t1), s2)"
      by (metis prod.exhaust)
    have one: "grows (\<lambda>_. True) s s2" by (rule grows_trans [OF q stop_members_grows [OF m]])
    show ?thesis using Suc.prems Suc.IH [of t1 s2] False scan table m one by (cases r1) (auto intro: grows_trans)
  qed
qed (auto split: if_splits)

lemma stop_and_kill_grows:
  assumes "stop_and_kill k target opts root out s = (out', s')"
  shows "grows (\<lambda>_. True) s s'"
proof -
  obtain e s1 where stop: "handle_send k root SIGSTOP s = (e, s1)" by (rule prod.exhaust)
  define t0 where "t0 = \<lparr>tr_known = [id_pid target], tr_held = [], tr_affected = [target], tr_stable = False\<rparr>"
  obtain r t s2 where rounds: "collect_rounds k opts target maximum_rounds t0 s1 = ((r, t), s2)" by (metis prod.exhaust)
  have one: "grows (\<lambda>_. True) s s1" using send_grows [of s k root SIGSTOP] by (simp add: stop)
  note two = grows_trans [OF one collect_rounds_grows [OF rounds]]
  have rel: "grows (\<lambda>_. True) s2 (snd (released k root (tr_held t) refused s2))" for refused
    unfolding released_def by (cases "send_all k SIGCONT (tr_held t) (snd (handle_send k root SIGCONT s2))")
      (simp, rule grows_trans [OF send_grows send_all_grows])
  have kill: "grows (\<lambda>_. True) s2 s'" if "kill_tree k root t out s2 = (out', s')"
    using that unfolding kill_tree_def
    by (auto split: prod.splits dest!: send_all_grows quiet_wait_all dest: quiet_grows [where Q = "\<lambda>_. True"] intro: grows_trans)
  from assms stop rounds t0_def one two kill rel [of "the r"] show ?thesis
    by (cases "e = 0"; cases r) (auto simp: stop_and_kill_def intro: grows_trans)
qed

lemma tree_scans:
  assumes "respond_terminate_tree k target opts s = (outcome, s')"
  shows "\<exists>scans. rs_scans s' = rs_scans s @ scans"
proof -
  obtain reason s1 where p: "protected_reason k (id_pid target) s = (reason, s1)" by (rule prod.exhaust)
  obtain opened s2 where o: "handle_open k opts (id_pid target) (id_start target) s1 = (opened, s2)" by (rule prod.exhaust)
  obtain scanned s3 where scan: "scan_processes k s2 = (scanned, s3)" by (rule prod.exhaust)
  obtain r s4 where m: "members_protected k (descendants_of (the scanned) (id_pid target)) s3 = (r, s4)" by (rule prod.exhaust)
  note g1 = quiet_protected [OF p, THEN quiet_grows, of "\<lambda>_. True"]
  note g2 = grows_trans [OF g1 quiet_open [OF o, THEN quiet_grows]]
  note g3 = grows_trans [OF g2 quiet_scan [OF scan, THEN quiet_grows]]
  note g4 = grows_trans [OF g3 quiet_members [OF m, THEN quiet_grows]]
  have "grows (\<lambda>_. True) s s'"
    using assms p o scan m g1 g2 g3 g4 stop_and_kill_grows [of k target opts _ _ s4 outcome s']
    by (cases opened; cases scanned; cases r) (auto simp: respond_terminate_tree_def Let_def split: if_splits intro: grows_trans)
  then show ?thesis by (simp add: grows_def)
qed

text \<open>
  C9. A tree response signals only the named process and processes that one of its own scans showed as descendants of it: for every
  signal there is a pid and a start time, namely the ones that were named, or those of an entry of a process table read earlier in this run
  to which a chain of parents in that table leads from the named pid, each entry of the table being what a stat file said while the table was
  read. Delivered through a pidfd, the signal reached the instance that had that pid and start time; sent to a bare pid, which only
  the options allow, an instance with that start time had the pid when the handle was opened and again just before the call. No member
  is init, the kernel thread daemon or the agent itself, and a dry run signals nothing.
\<close>

theorem tree_only_members:
  assumes "kernel_ok holder start k" "respond_terminate_tree k target opts s = (outcome, s')"
  shows "\<exists>evs scans. rs_sent s' = rs_sent s @ evs \<and> rs_scans s' = rs_scans s @ scans \<and> (evs \<noteq> [] \<longrightarrow> \<not> rp_dry_run opts) \<and>
    list_all (\<lambda>ev. \<exists>pid st. tree_member k target (set scans) (sent_at ev) pid st \<and> aimed holder start (rp_allow_pid_fallback opts) pid st ev) evs"
proof -
  obtain evs where evs: "rs_sent s' = rs_sent s @ evs" "tree_run holder start k target opts (made (length (rs_scans s)) s') outcome evs"
    "evs \<noteq> [] \<longrightarrow> \<not> rp_dry_run opts" using tree_runs [OF assms] by blast
  obtain scans where scans: "rs_scans s' = rs_scans s @ scans" using tree_scans [OF assms(2)] by blast
  then have "made (length (rs_scans s)) s' = set scans" by (simp add: made_def)
  with evs(2) have "list_all (\<lambda>ev. \<exists>pid st. tree_member k target (set scans) (sent_at ev) pid st \<and> aimed holder start (rp_allow_pid_fallback opts) pid st ev) evs"
    unfolding tree_run_def tree_signal_def list_all_iff by (clarsimp, blast)
  with evs scans show ?thesis by blast
qed

text \<open>
  C10. A tree that is refused is left unharmed: when a tree response does not end with \<open>terminated\<close>, \<open>signalled\<close> or \<open>failed\<close>,
  no signal but \<open>SIGSTOP\<close> and \<open>SIGCONT\<close> was sent, and every process that was stopped through a pidfd was sent \<open>SIGCONT\<close> through the same
  pidfd after the last stop.
\<close>

theorem refused_tree_unharmed:
  assumes "kernel_ok holder start k" "respond_terminate_tree k target opts s = (outcome, s')"
    "rr_status outcome \<notin> {Terminated, Signalled, Response_failed}"
  shows "\<exists>stops conts. rs_sent s' = rs_sent s @ stops @ conts \<and> (\<forall>ev\<in>set stops. sent_signal ev = SIGSTOP) \<and> (\<forall>ev\<in>set conts. sent_signal ev = SIGCONT) \<and>
    (\<forall>ev\<in>set stops. \<forall>d. sent_code ev = 0 \<and> sent_by ev = By_pidfd d \<longrightarrow> By_pidfd d \<in> sent_by ` set conts)"
proof -
  obtain stops conts hs where "rs_sent s' = rs_sent s @ stops @ conts" "list_all (tree_signal holder start k target opts (made (length (rs_scans s)) s') SIGSTOP hs) stops"
    "list_all (tree_signal holder start k target opts (made (length (rs_scans s)) s') SIGCONT hs) conts"
    "\<forall>ev\<in>set stops. sent_code ev = 0 \<longrightarrow> (\<forall>d. sent_by ev = By_pidfd d \<longrightarrow> By_pidfd d \<in> sent_by ` set conts)"
    using tree_runs [OF assms(1,2)] assms(3) unfolding tree_run_def ended_def by auto
  then show ?thesis by (intro exI [of _ stops] exI [of _ conts]) (auto simp: list_all_iff tree_signal_def)
qed

section \<open>Waiting\<close>

text \<open>The rounds \<open>wait_exit\<close> is given are enough, and it gives up only when the time is over.\<close>

definition steady_clock :: "kernel \<Rightarrow> bool" where
  "steady_clock k \<longleftrightarrow> (\<forall>n. kn_now k n \<le> kn_now k (Suc n))"

lemma steady_mono: "steady_clock k \<Longrightarrow> m \<le> n \<Longrightarrow> kn_now k m \<le> kn_now k n"
  by (rule lift_Suc_mono_le [of "kn_now k"]) (simp_all add: steady_clock_def)

lemma exited_clock: "steady_clock k \<Longrightarrow> handle_exited k h s = (over, s') \<Longrightarrow> steady_now k s \<le> steady_now k s'"
  using steady_mono [of k "rs_tick s" "Suc (rs_tick s)"]
  by (auto simp: handle_exited_def read_stat_def tick_def steady_now_def split: option.splits)

lemma sleep_clock: "steady_clock k \<Longrightarrow> steady_now k s + 5000000 \<le> steady_now k (sleep_5ms (tick s))"
  using steady_mono [of k "rs_tick s" "Suc (rs_tick s)"] by (simp add: sleep_5ms_def tick_def steady_now_def)

lemma wait_loop_enough:
  assumes "steady_clock k" "deadline \<le> steady_now k s + 5000000 * n"
  shows "wait_loop k h deadline (Suc (n + m)) s = wait_loop k h deadline (Suc n) s"
  using assms(2)
proof (induction n arbitrary: s)
  case 0
  obtain over s1 where e: "handle_exited k h s = (over, s1)" by (rule prod.exhaust)
  with 0 exited_clock [OF assms(1) e] show ?case by simp
next
  case (Suc n)
  obtain over s1 where e: "handle_exited k h s = (over, s1)" by (rule prod.exhaust)
  have "deadline \<le> steady_now k (sleep_5ms (tick s1)) + 5000000 * n"
    using Suc.prems exited_clock [OF assms(1) e] sleep_clock [OF assms(1), of s1] by simp
  from Suc.IH [OF this] e show ?case by simp
qed

lemma wait_loop_late:
  assumes "steady_clock k" "deadline \<le> steady_now k s + 5000000 * n" "wait_loop k h deadline (Suc n) s = (False, s')"
  shows "deadline \<le> steady_now k s'"
  using assms(2,3)
proof (induction n arbitrary: s)
  case 0
  obtain over s1 where e: "handle_exited k h s = (over, s1)" by (rule prod.exhaust)
  have "steady_now k s1 \<le> steady_now k (tick s1)" using steady_mono [OF assms(1), of "rs_tick s1" "Suc (rs_tick s1)"] by (simp add: tick_def steady_now_def)
  with 0 e exited_clock [OF assms(1) e] show ?case by (auto split: if_splits)
next
  case (Suc n)
  obtain over s1 where e: "handle_exited k h s = (over, s1)" by (rule prod.exhaust)
  have "steady_now k s1 \<le> steady_now k (tick s1)" using steady_mono [OF assms(1), of "rs_tick s1" "Suc (rs_tick s1)"] by (simp add: tick_def steady_now_def)
  moreover have "deadline \<le> steady_now k (sleep_5ms (tick s1)) + 5000000 * n"
    using Suc.prems(1) exited_clock [OF assms(1) e] sleep_clock [OF assms(1), of s1] by simp
  ultimately show ?case using Suc.IH [of "sleep_5ms (tick s1)"] Suc.prems(2) e by (auto split: if_splits)
qed

lemma wait_room: "steady_clock k \<Longrightarrow> steady_now k s + limit * 1000000 \<le> steady_now k (tick s) + 5000000 * (limit div 5 + 1)"
proof -
  assume "steady_clock k"
  then have "steady_now k s \<le> steady_now k (tick s)" using steady_mono [of k "rs_tick s" "Suc (rs_tick s)"] by (simp add: tick_def steady_now_def)
  moreover have "limit \<le> 5 * (limit div 5 + 1)" by presburger
  ultimately show ?thesis by simp
qed

lemma wait_exit_ends:
  assumes "steady_clock k"
  shows "wait_loop k h (steady_now k s + limit * 1000000) (limit div 5 + 2 + m) (tick s) = wait_exit k h limit s"
    "wait_exit k h limit s = (False, s') \<Longrightarrow> steady_now k s + limit * 1000000 \<le> steady_now k s'"
  using wait_loop_enough [OF assms wait_room [OF assms, of s limit], of h m] wait_loop_late [OF assms wait_room [OF assms, of s limit], of h s']
  by (simp_all add: wait_exit_def)

section \<open>Concrete runs\<close>

text \<open>A process with pid 100 that began at tick 55, and from the seventh call on its child 101.\<close>

definition stat_text :: "string \<Rightarrow> string \<Rightarrow> string" where
  "stat_text parent began = ''9 (x y) S '' @ parent @ '' 0 0 0 0 0 0 0 0 0 0 0 0 0 0 0 0 0 '' @ began"

definition sample_kernel :: kernel where
  "sample_kernel = \<lparr>kn_self = 50, kn_stat = (\<lambda>t pid. if pid = 100 then Some (stat_text ''1'' ''55'') else if pid = 101 then Some (stat_text ''100'' ''77'') else None),
     kn_proc = (\<lambda>t. if t < 6 then ([''100''], False) else ([''100'', ''101''], False)),
     kn_pidfd_open = (\<lambda>t pid. if pid = 100 then Inr 7 else if pid = 101 then Inr 8 else Inl ESRCH),
     kn_pidfd_send_signal = (\<lambda>t i sig. if i = 7 \<or> i = 8 then 0 else ESRCH), kn_kill = (\<lambda>t pid sig. ESRCH), kn_poll = (\<lambda>t i. True), kn_now = (\<lambda>t. t)\<rparr>"

definition sample_holder :: "nat \<Rightarrow> u32 \<Rightarrow> nat option" where
  "sample_holder t pid = (if pid = 100 then Some 7 else if pid = 101 then Some 8 else None)"

definition sample_start :: "nat \<Rightarrow> u64" where
  "sample_start i = (if i = 7 then 55 else 77)"

definition sample_target :: process_identity where
  "sample_target = \<lparr>id_host = ''h'', id_pid = 100, id_start = 55\<rparr>"

definition sample_response :: "nat \<Rightarrow> response_options" where
  "sample_response n = \<lparr>rp_dry_run = False, rp_allow_pid_fallback = False, rp_force_pid_fallback = False, rp_escalate_to_kill = True, rp_grace = 5,
     rp_maximum_tree_size = n\<rparr>"

definition sample_responder :: responder where
  "sample_responder = \<lparr>rs_tick = 0, rs_slept = 0, rs_sent = [], rs_scans = []\<rparr>"

lemma sample_words:
  "cut_all CHR '' '' ''S 1 0 0 0 0 0 0 0 0 0 0 0 0 0 0 0 0 0 55'' = [''S'', ''1''] @ replicate 17 ''0'' @ [''55'']"
  "cut_all CHR '' '' ''S 100 0 0 0 0 0 0 0 0 0 0 0 0 0 0 0 0 0 77'' = [''S'', ''100''] @ replicate 17 ''0'' @ [''77'']"
  by code_simp+

lemma sample_numerals:
  "whole_number limit ''1'' = (if 1 \<le> limit then Some 1 else None)" "whole_number limit ''55'' = (if 55 \<le> limit then Some 55 else None)"
  "whole_number limit ''77'' = (if 77 \<le> limit then Some 77 else None)" "whole_number limit ''100'' = (if 100 \<le> limit then Some 100 else None)"
  "whole_number limit ''101'' = (if 101 \<le> limit then Some 101 else None)"
  by (simp_all add: whole_number_def digit_of_def number_of_def Let_def)

lemma sample_stats:
  "parse_stat_view (take 8192 (stat_text ''1'' ''55'')) = Some \<lparr>sv_state = CHR ''S'', sv_parent = 1, sv_start = 55\<rparr>"
  "parse_stat_view (take 8192 (stat_text ''100'' ''77'')) = Some \<lparr>sv_state = CHR ''S'', sv_parent = 100, sv_start = 77\<rparr>"
  by (simp_all add: stat_text_def parse_stat_view_def rfind_char_def sample_words sample_numerals Let_def nth_append)

lemma sample_kernel_ok: "kernel_ok sample_holder sample_start sample_kernel"
proof -
  have "\<exists>pid. sample_holder t pid = Some i" if "i = 7 \<or> i = 8" for t i
    using that by (intro exI [of _ "if i = 7 then 100 else 101"]) (auto simp: sample_holder_def)
  then show ?thesis unfolding kernel_ok_def
    by (auto simp: sample_kernel_def sample_holder_def [symmetric] ESRCH_def split: if_splits)
      (auto simp: sample_holder_def sample_start_def sample_stats split: if_splits)
qed

lemma sample_stat_read:
  "read_stat sample_kernel pid s =
     (if pid = 100 then Some \<lparr>sv_state = CHR ''S'', sv_parent = 1, sv_start = 55\<rparr>
      else if pid = 101 then Some \<lparr>sv_state = CHR ''S'', sv_parent = 100, sv_start = 77\<rparr> else None, tick s)"
  by (simp add: read_stat_def sample_kernel_def sample_stats)

lemma sample_protected: "pid = 100 \<or> pid = 101 \<Longrightarrow> protected_reason sample_kernel pid s = ([], tick (tick s))"
proof -
  have "ancestor_loop sample_kernel pid (Suc n) 50 s = (False, tick s)" for pid n by (simp add: sample_stat_read word_le_nat_alt)
  then have "ancestor_loop sample_kernel pid maximum_ancestor_depth 50 s = (False, tick s)" for pid
    unfolding maximum_ancestor_depth_def by (metis numeral_eq_Suc)
  moreover have "kn_self sample_kernel = 50" by (simp add: sample_kernel_def)
  ultimately show "pid = 100 \<or> pid = 101 \<Longrightarrow> protected_reason sample_kernel pid s = ([], tick (tick s))" by (auto simp: protected_reason_def sample_stat_read word_le_nat_alt)
qed

lemma sample_open:
  "handle_open sample_kernel (sample_response n) 100 55 s = (Held \<lparr>ph_descriptor = Some 7, ph_pid = 100, ph_start = 55\<rparr>, tick (tick s))"
  "handle_open sample_kernel (sample_response n) 101 77 s = (Held \<lparr>ph_descriptor = Some 8, ph_pid = 101, ph_start = 77\<rparr>, tick (tick s))"
  by (simp_all add: handle_open_def handle_verify_def sample_stat_read sample_response_def sample_kernel_def [THEN arg_cong, of kn_pidfd_open])

lemma sample_send: "d = 7 \<or> d = 8 \<Longrightarrow> handle_send sample_kernel \<lparr>ph_descriptor = Some d, ph_pid = pid, ph_start = st\<rparr> sig s = (0, record_sent (By_pidfd d) sig 0 s)"
  by (auto simp: handle_send_def sample_kernel_def)

lemma sample_wait: "wait_exit sample_kernel \<lparr>ph_descriptor = Some d, ph_pid = pid, ph_start = st\<rparr> limit s = (True, tick (tick s))"
  by (simp add: wait_exit_def handle_exited_def sample_kernel_def)

definition sample_alone :: process_table where
  "sample_alone = [(100, \<lparr>sp_parent = 1, sp_start = 55\<rparr>)]"

definition sample_pair :: process_table where
  "sample_pair = sample_alone @ [(101, \<lparr>sp_parent = 100, sp_start = 77\<rparr>)]"

lemma sample_scan:
  "scan_processes sample_kernel s =
     (if rs_tick s < 6 then (Some sample_alone, record_scan (rs_tick s) (Some sample_alone) (tick (tick s)))
      else (Some sample_pair, record_scan (rs_tick s) (Some sample_pair) (tick (tick (tick s)))))"
proof -
  have "kn_proc sample_kernel t = (if t < 6 then [''100''] else [''100'', ''101''], False)" for t by (simp add: sample_kernel_def)
  then show ?thesis by (simp add: scan_processes_def sample_numerals maximum_scan_entries_def sample_stat_read sample_pair_def sample_alone_def)
qed

lemmas sample_calls = sample_protected sample_open sample_send sample_wait sample_scan

lemma sample_family:
  "descendants_of sample_alone 100 = []" "descendants_of sample_pair 100 = [101]" "start_in sample_pair 101 = 77"
  by (simp_all add: descendants_of_def children_of_def sample_pair_def sample_alone_def start_in_def Let_def)

lemma sample_process_run:
  "respond_terminate_process sample_kernel sample_target (sample_response n) sample_responder =
     (\<lparr>rr_status = Terminated, rr_mode = ''pidfd'', rr_affected = [sample_target], rr_detail = ''SIGTERM sent''\<rparr>,
      \<lparr>rs_tick = 7, rs_slept = 0, rs_sent = [Sent 4 (By_pidfd 7) SIGTERM 0], rs_scans = []\<rparr>)"
  by (simp add: respond_terminate_process_def valid_target_def sample_target_def sample_calls handle_mode_def terminate_held_def record_sent_def tick_def
      sample_responder_def sample_response_def [THEN arg_cong, of rp_dry_run] sample_response_def [THEN arg_cong, of rp_grace])

lemma sample_options_are [simp]:
  "rp_dry_run (sample_response n) = False" "rp_allow_pid_fallback (sample_response n) = False" "rp_maximum_tree_size (sample_response n) = n"
  by (simp_all add: sample_response_def)

lemma sample_rounds:
  obtains n where "maximum_rounds = Suc (Suc (Suc n))"
  using that [of 5] by (simp add: maximum_rounds_def)

lemma sample_refused_run:
  "respond_terminate_tree sample_kernel sample_target (sample_response 1) sample_responder =
     (refusal Refused_limit ''the tree grew beyond the configured bound'',
      \<lparr>rs_tick = 11, rs_slept = 0, rs_sent = [Sent 6 (By_pidfd 7) SIGSTOP 0, Sent 10 (By_pidfd 7) SIGCONT 0],
        rs_scans = [(4, 6, sample_alone), (7, 10, sample_pair)]\<rparr>)"
proof -
  obtain n where rounds: "maximum_rounds = Suc (Suc (Suc n))" by (rule sample_rounds)
  show ?thesis
    by (simp add: respond_terminate_tree_def valid_target_def sample_target_def sample_calls sample_family handle_mode_def record_sent_def tick_def
        sample_responder_def stop_and_kill_def rounds stop_member_def released_def record_scan_def Let_def)
qed

lemma sample_tree_run:
  "rs_sent (snd (respond_terminate_tree sample_kernel sample_target (sample_response 256) sample_responder)) =
     [Sent 6 (By_pidfd 7) SIGSTOP 0, Sent 14 (By_pidfd 8) SIGSTOP 0, Sent 18 (By_pidfd 8) SIGKILL 0, Sent 19 (By_pidfd 7) SIGKILL 0] \<and>
   rs_scans (snd (respond_terminate_tree sample_kernel sample_target (sample_response 256) sample_responder)) =
     [(4, 6, sample_alone), (7, 10, sample_pair), (15, 18, sample_pair)]"
proof -
  obtain n where rounds: "maximum_rounds = Suc (Suc (Suc n))" by (rule sample_rounds)
  show ?thesis
    by (simp add: respond_terminate_tree_def valid_target_def sample_target_def sample_calls sample_family handle_mode_def record_sent_def tick_def
        sample_responder_def stop_and_kill_def rounds stop_member_def kill_tree_def record_scan_def Let_def)
qed

theorem terminate_only_target_witness:
  "aimed sample_holder sample_start False 100 55 (Sent 4 (By_pidfd 7) SIGTERM 0) \<and> signallable sample_kernel 100"
  using terminate_only_target [OF sample_kernel_ok sample_process_run [of 256]] by (simp add: sample_responder_def sample_target_def)

theorem tree_only_members_witness:
  "list_all (\<lambda>ev. \<exists>pid st. tree_member sample_kernel sample_target {(4, 6, sample_alone), (7, 10, sample_pair), (15, 18, sample_pair)} (sent_at ev) pid st \<and> aimed sample_holder sample_start False pid st ev)
     [Sent 6 (By_pidfd 7) SIGSTOP 0, Sent 14 (By_pidfd 8) SIGSTOP 0, Sent 18 (By_pidfd 8) SIGKILL 0, Sent 19 (By_pidfd 7) SIGKILL 0]"
proof -
  obtain outcome s' where run: "respond_terminate_tree sample_kernel sample_target (sample_response 256) sample_responder = (outcome, s')" by (rule prod.exhaust)
  with tree_only_members [OF sample_kernel_ok run] sample_tree_run show ?thesis by (simp add: sample_responder_def)
qed

theorem refused_tree_unharmed_witness:
  "\<exists>stops conts. [Sent 6 (By_pidfd 7) SIGSTOP 0, Sent 10 (By_pidfd 7) SIGCONT 0] = stops @ conts \<and> (\<forall>ev\<in>set stops. sent_signal ev = SIGSTOP) \<and>
     (\<forall>ev\<in>set conts. sent_signal ev = SIGCONT)"
  using refused_tree_unharmed [OF sample_kernel_ok sample_refused_run] by (auto simp: refusal_def sample_responder_def)

end
