(* ===== verification/Isolation.thy ===== *)
theory Isolation
  imports Command_Auth Wal_Frame
begin

text \<open>
  Host isolation: the request frames of \<^verbatim>\<open>src/isolation.cpp\<close>, the firewall rules and netlink exchanges of
  \<^verbatim>\<open>src/isolation_ruleset.cpp\<close>, and the privileged helper of \<^verbatim>\<open>src/isolation_helper_main.cpp\<close>. What the kernel answers on
  a netlink socket, whether a system call fails and what a transaction did are arguments.
\<close>

section \<open>Request frames\<close>

definition opcode_isolate :: u8 where "opcode_isolate = 1"
definition opcode_release :: u8 where "opcode_release = 2"
definition isolation_command_id_capacity :: nat where "isolation_command_id_capacity = 128"
definition isolation_request_frame_size :: nat where "isolation_request_frame_size = 1 + isolation_command_id_capacity"
definition status_ok :: u8 where "status_ok = 0"
definition status_rejected :: u8 where "status_rejected = 1"

definition encode_isolation_request :: "u8 \<Rightarrow> bytes \<Rightarrow> bytes result" where
  "encode_isolation_request opcode command_id =
     (if \<not> is_valid_identifier command_id \<or> isolation_command_id_capacity < length command_id
      then Inl (Error invalid_input ''isolation request command_id is invalid'')
      else if opcode \<noteq> opcode_isolate \<and> opcode \<noteq> opcode_release
      then Inl (Error invalid_input ''isolation opcode is not one of the two closed values'')
      else Inr (opcode # command_id @ replicate (isolation_command_id_capacity - length command_id) 0))"

definition decode_isolation_request :: "bytes \<Rightarrow> (u8 \<times> bytes) result" where
  "decode_isolation_request frame =
     (if length frame \<noteq> isolation_request_frame_size then Inl (Error invalid_input ''isolation request frame has the wrong size'')
      else if hd frame \<noteq> opcode_isolate \<and> hd frame \<noteq> opcode_release
      then Inl (Error unsupported_action ''isolation opcode is not one of the two closed values'')
      else
        let field = drop 1 frame; command_id = takeWhile (\<lambda>c. c \<noteq> 0) field; padding = dropWhile (\<lambda>c. c \<noteq> 0) field
        in if \<not> list_all (\<lambda>c. c = 0) padding then Inl (Error invalid_input ''isolation request has non-zero padding'')
           else if \<not> is_valid_identifier command_id then Inl (Error invalid_input ''isolation request command_id is invalid'')
           else Inr (hd frame, command_id))"

section \<open>The client\<close>

datatype isolation_exchange = Accepted | Refused | Unreachable | No_answer | Invalid

text \<open>What the system calls of one exchange return.\<close>

record client_io =
  ci_socket :: bool
  ci_connected :: bool
  ci_sent :: int
  ci_received :: "bytes option"

definition sun_path_size :: nat where "sun_path_size = 108"

definition connect_to_helper :: "string \<Rightarrow> client_io \<Rightarrow> isolation_exchange option" where
  "connect_to_helper path io =
     (if path = [] \<or> sun_path_size \<le> length path then Some Invalid else if \<not> ci_socket io \<or> \<not> ci_connected io then Some Unreachable else None)"

definition exchange_isolation_request :: "string \<Rightarrow> u8 \<Rightarrow> bytes \<Rightarrow> client_io \<Rightarrow> isolation_exchange" where
  "exchange_isolation_request path opcode command_id io =
     (case encode_isolation_request opcode command_id of
        Inl _ \<Rightarrow> Invalid
      | Inr frame \<Rightarrow>
          (case connect_to_helper path io of
             Some failure \<Rightarrow> failure
           | None \<Rightarrow>
               if ci_sent io \<noteq> int (length frame) then Unreachable
               else (case ci_received io of
                       Some [status] \<Rightarrow> if status = status_ok then Accepted else Refused
                     | _ \<Rightarrow> No_answer)))"

definition isolation_helper_reachable :: "string \<Rightarrow> client_io \<Rightarrow> bool" where
  "isolation_helper_reachable path io = (connect_to_helper path io = None)"

definition request_isolation :: "string \<Rightarrow> u8 \<Rightarrow> bytes \<Rightarrow> client_io \<Rightarrow> bool result" where
  "request_isolation path opcode command_id io =
     (case encode_isolation_request opcode command_id of
        Inl e \<Rightarrow> Inl e
      | Inr _ \<Rightarrow>
          (case exchange_isolation_request path opcode command_id io of
             Accepted \<Rightarrow> Inr True
           | Refused \<Rightarrow> Inr False
           | Unreachable \<Rightarrow> Inl (Error io_failure ''cannot connect to isolation helper'')
           | No_answer \<Rightarrow> Inl (Error io_failure ''isolation helper response was malformed'')
           | Invalid \<Rightarrow> Inl (Error invalid_input ''isolation helper socket path is invalid'')))"

section \<open>The rules\<close>

datatype meta_key = Meta_iif | Meta_oif | Meta_l4proto
datatype payload_base = Network_header | Transport_header

definition NF_DROP :: nat where "NF_DROP = 0"
definition NF_ACCEPT :: nat where "NF_ACCEPT = 1"
definition NFPROTO_INET :: nat where "NFPROTO_INET = 1"
definition NF_INET_LOCAL_IN :: nat where "NF_INET_LOCAL_IN = 1"
definition NF_INET_LOCAL_OUT :: nat where "NF_INET_LOCAL_OUT = 3"

text \<open>The expressions of a rule, all on register 1; an immediate sets the verdict.\<close>

datatype nft_expr = Meta_load meta_key | Payload_load payload_base nat nat | Cmp_eq bytes | Immediate_verdict nat

record nft_rule =
  nr_table :: string
  nr_chain :: string
  nr_exprs :: "nft_expr list"

definition isolation_table :: string where "isolation_table = ''panopticon_isolation''"
definition input_chain :: string where "input_chain = ''panopticon_isolation_input''"
definition output_chain :: string where "output_chain = ''panopticon_isolation_output''"

text \<open>A 16-bit value as it lies in memory.\<close>

definition put_u16 :: "u16 \<Rightarrow> bytes" where
  "put_u16 v = [ucast v, ucast (drop_bit 8 v)]"

definition loopback_accept_rule :: "string \<Rightarrow> meta_key \<Rightarrow> nft_rule" where
  "loopback_accept_rule chain key = \<lparr>nr_table = isolation_table, nr_chain = chain, nr_exprs = [Meta_load key, Cmp_eq (put_u32 1), Immediate_verdict NF_ACCEPT]\<rparr>"

definition manager_pinned_accept_rule :: "string \<Rightarrow> nat \<Rightarrow> nat \<Rightarrow> u32 \<Rightarrow> u16 \<Rightarrow> nft_rule" where
  "manager_pinned_accept_rule chain address_offset port_offset manager_ipv4_network_order manager_port =
     \<lparr>nr_table = isolation_table, nr_chain = chain,
      nr_exprs = [Meta_load Meta_l4proto, Cmp_eq [6],
        Payload_load Network_header address_offset 4, Cmp_eq (put_u32 manager_ipv4_network_order),
        Payload_load Transport_header port_offset 2, Cmp_eq (put_u16 (push_bit 8 manager_port OR drop_bit 8 manager_port)),
        Immediate_verdict NF_ACCEPT]\<rparr>"

record nft_chain =
  nc_table :: string
  nc_name :: string
  nc_type :: string
  nc_hook :: nat
  nc_priority :: nat
  nc_policy :: nat

definition base_chain :: "string \<Rightarrow> nat \<Rightarrow> nft_chain" where
  "base_chain name hook = \<lparr>nc_table = isolation_table, nc_name = name, nc_type = ''filter'', nc_hook = hook, nc_priority = 0, nc_policy = NF_DROP\<rparr>"

text \<open>The messages of a transaction, with the family they are sent for; a deletion of a table may ask for no answer.\<close>

datatype nft_message =
    Batch_begin | Batch_end | New_table nat string | Del_table nat string bool | New_chain nat nft_chain | Del_chain nat string string | New_rule nat nft_rule

definition wants_ack :: "nft_message \<Rightarrow> bool" where
  "wants_ack m = (case m of Batch_begin \<Rightarrow> False | Batch_end \<Rightarrow> False | Del_table _ _ ack \<Rightarrow> ack | _ \<Rightarrow> True)"

definition count_expected_acks :: "nft_message list \<Rightarrow> nat" where
  "count_expected_acks batch = length (filter wants_ack batch)"

definition delete_batch :: "nft_message list" where
  "delete_batch = [Batch_begin, Del_table NFPROTO_INET isolation_table False, Batch_end]"

definition create_batch :: "u32 \<Rightarrow> u16 \<Rightarrow> nft_message list" where
  "create_batch ip port =
     [Batch_begin, New_table NFPROTO_INET isolation_table,
      New_chain NFPROTO_INET (base_chain input_chain NF_INET_LOCAL_IN), New_chain NFPROTO_INET (base_chain output_chain NF_INET_LOCAL_OUT),
      New_rule NFPROTO_INET (loopback_accept_rule input_chain Meta_iif),
      New_rule NFPROTO_INET (manager_pinned_accept_rule input_chain 12 0 ip port),
      New_rule NFPROTO_INET (loopback_accept_rule output_chain Meta_oif),
      New_rule NFPROTO_INET (manager_pinned_accept_rule output_chain 16 2 ip port),
      Batch_end]"

definition release_batch :: "nft_message list" where
  "release_batch = [Batch_begin, Del_chain NFPROTO_INET isolation_table input_chain, Del_chain NFPROTO_INET isolation_table output_chain,
     Del_table NFPROTO_INET isolation_table True, Batch_end]"

section \<open>Netlink\<close>

datatype received = Recv_failed nat | Received bytes

record netlink_io =
  nl_ready :: bool
  nl_sent :: bool
  nl_replies :: "received list"

definition EAGAIN :: nat where "EAGAIN = 11"
definition ENOENT :: nat where "ENOENT = 2"

definition get_u16 :: "bytes \<Rightarrow> u16" where
  "get_u16 b = ucast (b ! 0) OR push_bit 8 (ucast (b ! 1))"

definition nlmsg_align :: "nat \<Rightarrow> nat" where
  "nlmsg_align n = 4 * ((n + 3) div 4)"

text \<open>
  One datagram of replies. \<open>Past_end\<close> is a read behind what was received: an error message too short for its code,
  or a step over the padding of a last message that has none, after which the rest wraps around.
\<close>

datatype walked = Walked nat | Rejected | Past_end

function walk_replies :: "nat \<Rightarrow> bytes \<Rightarrow> nat \<Rightarrow> walked" where
  "walk_replies expected buf acknowledged =
     (if length buf < 16 \<or> expected \<le> acknowledged then Walked acknowledged
      else
        let len = unat (get_u32 buf); step = nlmsg_align len
        in if len < 16 \<or> length buf < len then Walked acknowledged
           else if get_u16 (drop 4 buf) = 2 \<and> length buf < 20 then Past_end
           else
             let code = sint (get_u32 (drop 16 buf)); is_error = (get_u16 (drop 4 buf) = 2)
             in if is_error \<and> code \<noteq> 0 \<and> code \<noteq> - int ENOENT then Rejected
                else
                  let acknowledged' = (if is_error \<and> code = 0 then acknowledged + 1 else acknowledged)
                  in if length buf < step then (if expected \<le> acknowledged' then Walked acknowledged' else Past_end)
                     else walk_replies expected (drop step buf) acknowledged')"
  by pat_completeness auto
termination
proof (relation "measure (\<lambda>(_, buf, _). length buf)")
  fix expected acknowledged :: nat and buf :: bytes and len step :: nat
  assume "\<not> (length buf < 16 \<or> expected \<le> acknowledged)" "step = nlmsg_align len" "\<not> (len < 16 \<or> length buf < len)"
  then have "0 < step" "0 < length buf" by (auto simp: nlmsg_align_def div_greater_zero_iff)
  then show "((expected, drop step buf, a), expected, buf, acknowledged) \<in> measure (\<lambda>(_, buf, _). length buf)" for a by simp
qed simp

declare walk_replies.simps [simp del]

text \<open>The receiving loop. When the list of answers is used up, the receive timeout expires.\<close>

fun recv_loop :: "nat \<Rightarrow> bool \<Rightarrow> received list \<Rightarrow> nat \<Rightarrow> bool option" where
  "recv_loop expected tolerate [] acknowledged = Some (expected \<le> acknowledged \<or> tolerate)"
| "recv_loop expected tolerate (r # rs) acknowledged =
     (if expected \<le> acknowledged then Some True
      else case r of
             Recv_failed e \<Rightarrow> Some (tolerate \<and> e = EAGAIN)
           | Received [] \<Rightarrow> Some False
           | Received buf \<Rightarrow>
               (case walk_replies expected (take 8192 buf) acknowledged of
                  Walked n \<Rightarrow> recv_loop expected tolerate rs n
                | Rejected \<Rightarrow> Some False
                | Past_end \<Rightarrow> None))"

definition commit_batch :: "nft_message list \<Rightarrow> bool \<Rightarrow> netlink_io \<Rightarrow> bool option" where
  "commit_batch batch tolerate_receive_timeout io =
     (if \<not> nl_ready io \<or> \<not> nl_sent io then Some False
      else recv_loop (count_expected_acks batch) tolerate_receive_timeout (nl_replies io) 0)"

definition verify_table_exists :: "netlink_io \<Rightarrow> bool" where
  "verify_table_exists io =
     (nl_ready io \<and> nl_sent io \<and>
      (case nl_replies io of Received buf # _ \<Rightarrow> 16 \<le> length buf \<and> get_u16 (drop 4 buf) \<noteq> 2 | _ \<Rightarrow> False))"

definition apply_isolation_ruleset :: "u32 \<Rightarrow> u16 \<Rightarrow> netlink_io \<Rightarrow> netlink_io \<Rightarrow> netlink_io \<Rightarrow> bool result option" where
  "apply_isolation_ruleset ip port del_io create_io verify_io =
     (case commit_batch delete_batch False del_io of
        None \<Rightarrow> None
      | Some _ \<Rightarrow>
          (case commit_batch (create_batch ip port) False create_io of
             None \<Rightarrow> None
           | Some False \<Rightarrow> Some (Inl (Error io_failure ''isolation ruleset could not be applied via netlink''))
           | Some True \<Rightarrow>
               Some (if \<not> verify_table_exists verify_io
                     then Inl (Error io_failure (''isolation ruleset was fully acked but the table does not exist after apply -- '' @
                       ''refusing to report success for an unconfirmed containment state''))
                     else Inr True)))"

definition release_isolation_ruleset :: "netlink_io \<Rightarrow> bool result option" where
  "release_isolation_ruleset io =
     (case commit_batch release_batch True io of
        None \<Rightarrow> None
      | Some ok \<Rightarrow> Some (if \<not> ok then Inl (Error io_failure ''isolation ruleset could not be released via netlink'') else Inr True))"

section \<open>The helper\<close>

record isolation_state =
  is_isolated :: bool
  is_command_id :: bytes

text \<open>\<open>std::getline\<close> twice.\<close>

definition first_line :: "bytes \<Rightarrow> bytes" where
  "first_line b = takeWhile (\<lambda>c. c \<noteq> 0x0A) b"

definition load_state :: "bytes option \<Rightarrow> isolation_state" where
  "load_state stored =
     (case stored of
        Some contents \<Rightarrow>
          if contents \<noteq> [] \<and> first_line contents = ascii ''isolated''
          then \<lparr>is_isolated = True, is_command_id = first_line (drop 1 (dropWhile (\<lambda>c. c \<noteq> 0x0A) contents))\<rparr>
          else \<lparr>is_isolated = False, is_command_id = []\<rparr>
      | None \<Rightarrow> \<lparr>is_isolated = False, is_command_id = []\<rparr>)"

definition state_text :: "isolation_state \<Rightarrow> bytes" where
  "state_text state = (if is_isolated state then ascii ''isolated'' @ [0x0A] @ is_command_id state @ [0x0A] else [])"

text \<open>How writing the state file ends: it cannot be opened, only a part is written, or all of it.\<close>

datatype save_io = Save_unopened | Save_partial nat | Save_whole

definition save_state :: "save_io \<Rightarrow> isolation_state \<Rightarrow> bytes option \<Rightarrow> bool \<times> bytes option" where
  "save_state io state stored =
     (case io of
        Save_unopened \<Rightarrow> (False, stored)
      | Save_partial n \<Rightarrow> (False, Some (take n (state_text state)))
      | Save_whole \<Rightarrow> (True, Some (state_text state)))"

text \<open>
  What the kernel did in one request: whether it carried out the deletion and the creation, or the release, and
  what it answered. The table is the list of Manager endpoints it lets through.
\<close>

record kernel_turn =
  kt_deleted :: bool
  kt_created :: bool
  kt_released :: bool
  kt_delete_io :: netlink_io
  kt_create_io :: netlink_io
  kt_verify_io :: netlink_io
  kt_release_io :: netlink_io
  kt_save_io :: save_io

type_synonym firewall = "(u32 \<times> u16) list option"

definition after_apply :: "kernel_turn \<Rightarrow> u32 \<Rightarrow> u16 \<Rightarrow> firewall \<Rightarrow> firewall" where
  "after_apply turn ip port table =
     (let t = (if kt_deleted turn then None else table)
      in if kt_created turn then Some ((case t of None \<Rightarrow> [] | Some pins \<Rightarrow> pins) @ [(ip, port)]) else t)"

definition after_release :: "kernel_turn \<Rightarrow> firewall \<Rightarrow> firewall" where
  "after_release turn table = (if kt_released turn then None else table)"

text \<open>
  The helper and what it works on. \<open>he_stored\<close> is the state file as processes see it, \<open>he_disk\<close> what of it has reached the disk:
  \<open>save_state\<close> writes and flushes the stream but does not call \<open>fsync\<close>, so no operation of the helper changes \<open>he_disk\<close>.
\<close>

record helper =
  he_serving :: bool
  he_ip :: u32
  he_port :: u16
  he_table :: firewall
  he_stored :: "bytes option"
  he_disk :: "bytes option"

definition turn_apply :: "kernel_turn \<Rightarrow> u32 \<Rightarrow> u16 \<Rightarrow> bool result option" where
  "turn_apply turn ip port = apply_isolation_ruleset ip port (kt_delete_io turn) (kt_create_io turn) (kt_verify_io turn)"

text \<open>Starting: what was recorded is applied again before anything is served.\<close>

definition helper_start :: "kernel_turn \<Rightarrow> u32 \<Rightarrow> u16 \<Rightarrow> helper \<Rightarrow> helper option" where
  "helper_start turn ip port h =
     (let h1 = h\<lparr>he_ip := ip, he_port := port\<rparr>
      in if is_isolated (load_state (he_stored h)) then
           (case turn_apply turn ip port of
              None \<Rightarrow> None
            | Some applied \<Rightarrow> Some (h1\<lparr>he_table := after_apply turn ip port (he_table h), he_serving := succeeded applied\<rparr>))
         else Some (h1\<lparr>he_serving := True\<rparr>))"

text \<open>One request; the packet is what \<open>recv\<close> put into a buffer of one byte more than a frame.\<close>

definition carry_request :: "kernel_turn \<Rightarrow> u8 \<Rightarrow> bytes \<Rightarrow> helper \<Rightarrow> (u8 \<times> helper) option" where
  "carry_request turn opcode command_id h =
     (if opcode = opcode_isolate then
        (case turn_apply turn (he_ip h) (he_port h) of
           None \<Rightarrow> None
         | Some applied \<Rightarrow>
             let h1 = h\<lparr>he_table := after_apply turn (he_ip h) (he_port h) (he_table h)\<rparr>
             in Some (if \<not> succeeded applied then (status_rejected, h1)
                      else case save_state (kt_save_io turn) \<lparr>is_isolated = True, is_command_id = command_id\<rparr> (he_stored h1) of (saved, stored) \<Rightarrow>
                             (if saved then status_ok else status_rejected, h1\<lparr>he_stored := stored\<rparr>)))
      else if opcode = opcode_release then
        (case release_isolation_ruleset (kt_release_io turn) of
           None \<Rightarrow> None
         | Some released \<Rightarrow>
             let h1 = h\<lparr>he_table := after_release turn (he_table h)\<rparr>
             in Some (if \<not> succeeded released then (status_rejected, h1)
                      else case save_state (kt_save_io turn) \<lparr>is_isolated = False, is_command_id = []\<rparr> (he_stored h1) of (saved, stored) \<Rightarrow>
                             (if saved then status_ok else status_rejected, h1\<lparr>he_stored := stored\<rparr>)))
      else Some (status_rejected, h))"

definition helper_serve :: "kernel_turn \<Rightarrow> bool \<Rightarrow> bytes \<Rightarrow> helper \<Rightarrow> (u8 option \<times> helper) option" where
  "helper_serve turn peer_is_agent packet h =
     (if \<not> peer_is_agent then Some (None, h)
      else
        let buffer = take (isolation_request_frame_size + 1) packet
        in if length buffer \<noteq> isolation_request_frame_size then Some (Some status_rejected, h)
           else case decode_isolation_request buffer of
                  Inl _ \<Rightarrow> Some (Some status_rejected, h)
                | Inr (opcode, command_id) \<Rightarrow> map_option (\<lambda>(status, h1). (Some status, h1)) (carry_request turn opcode command_id h))"

end
