(* ===== verification/Local_Executor.thy ===== *)
theory Local_Executor
  imports Command_Processor Auth_Properties Response_Properties Isolation
begin

text \<open>
  The executor that touches the host, class \<open>local_executor\<close> of \<^verbatim>\<open>src/sensor/command_channel.cpp\<close>: the two kinds of
  action that change it through the responder and the isolation helper. Collecting and quarantining are not part of it.
\<close>

record local_executor_options =
  lx_host_id :: string
  lx_kill_grace_ms :: u32
  lx_allow_pid_fallback :: bool
  lx_isolation_socket :: string

definition execution :: "string \<Rightarrow> string \<Rightarrow> string \<Rightarrow> u32 \<Rightarrow> execution_result" where
  "execution outcome reason detail affected =
     \<lparr>er_outcome = ascii outcome, er_reason = ascii reason, er_detail = ascii detail, er_mode = [], er_affected = affected,
      er_artifact_json = [], er_artifact_kind = []\<rparr>"

definition kill_options :: "local_executor_options \<Rightarrow> bool \<Rightarrow> response_options" where
  "kill_options lx dry_run =
     \<lparr>rp_dry_run = dry_run, rp_allow_pid_fallback = lx_allow_pid_fallback lx, rp_force_pid_fallback = False, rp_escalate_to_kill = True,
      rp_grace = int (unat (max 1 (lx_kill_grace_ms lx))), rp_maximum_tree_size = 256\<rparr>"

definition kill_verdict :: "response_outcome \<Rightarrow> string \<times> string" where
  "kill_verdict outcome =
     (case rr_status outcome of
        Dry_run \<Rightarrow> (''rejected'', ''dry_run'')
      | Terminated \<Rightarrow> (''succeeded'', ''ok'')
      | Signalled \<Rightarrow> (''indeterminate'', ''exit_not_observed'')
      | Already_gone \<Rightarrow> (''rejected'', ''target_gone'')
      | Refused_invalid \<Rightarrow> (''rejected'', ''invalid_target'')
      | Refused_protected \<Rightarrow> (''rejected'', ''target_protected'')
      | Refused_mismatch \<Rightarrow> (''rejected'', ''target_mismatch'')
      | Refused_limit \<Rightarrow> (''rejected'', ''limit'')
      | Response_failed \<Rightarrow> (''failed'', if rr_mode outcome = [] then ''no_signal_path'' else ''signal_failed''))"

definition kill_detail :: "response_outcome \<Rightarrow> bytes" where
  "kill_detail outcome =
     (if rr_status outcome = Dry_run
      then ascii (''verified, nothing sent ('' @ (if rr_mode outcome = [] then ''no signal path'' else rr_mode outcome) @ '')'')
      else clean maximum_detail_bytes (ascii (rr_detail outcome)))"

definition local_kill :: "kernel \<Rightarrow> local_executor_options \<Rightarrow> endpoint_command \<Rightarrow> bool \<Rightarrow> responder \<Rightarrow> execution_result \<times> responder" where
  "local_kill k lx command dry_run s =
     (case respond_terminate_process k \<lparr>id_host = lx_host_id lx, id_pid = ec_pid command, id_start = ec_start_ticks command\<rparr> (kill_options lx dry_run) s of
        (outcome, s1) \<Rightarrow>
          (\<lparr>er_outcome = ascii (fst (kill_verdict outcome)), er_reason = ascii (snd (kill_verdict outcome)), er_detail = kill_detail outcome,
            er_mode = ascii (rr_mode outcome), er_affected = of_nat (length (rr_affected outcome)), er_artifact_json = [], er_artifact_kind = []\<rparr>, s1))"

text \<open>The exchange of a dry run only connects; the other one sends.\<close>

definition local_isolation :: "local_executor_options \<Rightarrow> client_io \<Rightarrow> endpoint_command \<Rightarrow> bool \<Rightarrow> u8 \<Rightarrow> execution_result" where
  "local_isolation lx io command dry_run opcode =
     (if lx_isolation_socket lx = [] then execution ''rejected'' ''isolation_unavailable'' ''no isolation helper is configured'' 0
      else if dry_run then
        (if \<not> isolation_helper_reachable (lx_isolation_socket lx) io
         then execution ''rejected'' ''helper_unreachable'' ''the isolation helper is not listening; nothing sent'' 0
         else execution ''rejected'' ''dry_run'' ''helper reachable, nothing sent'' 0)
      else case exchange_isolation_request (lx_isolation_socket lx) opcode (ec_command_id command) io of
             Accepted \<Rightarrow> execution ''succeeded'' ''ok''
               (if opcode = opcode_isolate then ''the helper applied host isolation'' else ''the helper released host isolation'') 1
           | Refused \<Rightarrow> execution ''failed'' ''helper_refused'' ''the isolation helper declined the request'' 0
           | Unreachable \<Rightarrow> execution ''failed'' ''helper_unreachable'' ''the isolation helper is not listening'' 0
           | No_answer \<Rightarrow> execution ''indeterminate'' ''helper_no_answer''
               ''the request was sent and no answer came; whether the host is isolated is not known'' 0
           | Invalid \<Rightarrow> execution ''failed'' ''invalid_request'' ''the request could not be encoded for the isolation helper'' 0)"

section \<open>What the Manager is told of a kill\<close>

lemma verdict_outcomes:
  "fst (kill_verdict outcome) = ''succeeded'' \<longleftrightarrow> rr_status outcome = Terminated"
  "fst (kill_verdict outcome) = ''rejected'' \<longleftrightarrow> rr_status outcome \<notin> {Terminated, Signalled, Response_failed}"
  by (cases "rr_status outcome"; simp add: kill_verdict_def)+

text \<open>
  C8. What the executor tells of a kill is true of the host. Every signal it sent was aimed at the pid and start time the command names: one delivered
  through a pidfd reached the process instance that had that pid and began then, and one sent to the bare pid, which only the options allow, was sent after an
  instance with that start time was seen to have the pid when the handle was opened and once more just before the call. \<open>succeeded\<close> is said only after a
  delivered \<open>SIGTERM\<close>, \<open>rejected\<close> only when no signal was delivered, and a dry run sends none.
\<close>

theorem local_kill_truthful:
  assumes "kernel_ok holder start k" "local_kill k lx command dry_run s = (res, s')"
  shows "\<exists>evs. rs_sent s' = rs_sent s @ evs \<and> list_all (aimed holder start (lx_allow_pid_fallback lx) (ec_pid command) (ec_start_ticks command)) evs \<and>
    (dry_run \<longrightarrow> evs = []) \<and> (er_outcome res = ascii ''rejected'' \<longrightarrow> list_all (\<lambda>ev. sent_code ev \<noteq> 0) evs) \<and>
    (er_outcome res = ascii ''succeeded'' \<longrightarrow> evs \<noteq> [] \<and> sent_signal (hd evs) = SIGTERM \<and> sent_code (hd evs) = 0)"
proof -
  define target where "target = \<lparr>id_host = lx_host_id lx, id_pid = ec_pid command, id_start = ec_start_ticks command\<rparr>"
  obtain outcome where run: "respond_terminate_process k target (kill_options lx dry_run) s = (outcome, s')"
    and res: "er_outcome res = ascii (fst (kill_verdict outcome))"
    using assms(2) by (auto simp: local_kill_def target_def split: prod.splits)
  from terminate_signals [OF assms(1) run] verdict_outcomes [of outcome] show ?thesis
    by (auto simp: res target_def kill_options_def)
qed

definition sample_executor :: local_executor_options where
  "sample_executor = \<lparr>lx_host_id = ''h'', lx_kill_grace_ms = 5, lx_allow_pid_fallback = False, lx_isolation_socket = []\<rparr>"

definition sample_kill :: endpoint_command where
  "sample_kill = sample_command\<lparr>ec_pid := 100, ec_start_ticks := 55\<rparr>"

theorem local_kill_truthful_witness:
  "\<exists>res s'. local_kill sample_kernel sample_executor sample_kill False sample_responder = (res, s') \<and> er_outcome res = ascii ''succeeded'' \<and>
     rs_sent s' \<noteq> [] \<and> list_all (aimed sample_holder sample_start False 100 55) (rs_sent s')"
proof -
  have "kill_options sample_executor False = sample_response 256" by (simp add: kill_options_def sample_executor_def sample_response_def word_le_nat_alt max_def)
  then obtain res s' where run: "local_kill sample_kernel sample_executor sample_kill False sample_responder = (res, s')" "er_outcome res = ascii ''succeeded''"
    using sample_process_run [of 256] by (auto simp: local_kill_def sample_target_def sample_kill_def sample_executor_def kill_verdict_def)
  from local_kill_truthful [OF sample_kernel_ok run(1)] run show ?thesis
    by (auto simp: sample_responder_def sample_kill_def sample_executor_def)
qed

end
