(* ===== verification/Isolation_Properties.thy ===== *)
theory Isolation_Properties
  imports Isolation
begin

text \<open>
  What host isolation promises: a request is one of exactly two frames per command id, the rules let through
  only loopback and the Manager's endpoint, and a host that was reported isolated stays so through restarts of the
  helper.
\<close>

section \<open>Frames\<close>

lemma identifier_no_zero: "is_valid_identifier i \<Longrightarrow> c \<in> set i \<Longrightarrow> c \<noteq> 0"
  by (auto simp: is_valid_identifier_def list_all_iff alnum_def)

lemma zeros: "list_all (\<lambda>c. c = (0 :: byte)) b \<longleftrightarrow> b = replicate (length b) 0"
  by (induction b) auto

lemma isolation_codec_agrees:
  "decode_isolation_request frame = Inr (opcode, command_id) \<longleftrightarrow> encode_isolation_request opcode command_id = Inr frame"
proof
  assume "decode_isolation_request frame = Inr (opcode, command_id)"
  then have d: "length frame = 129" "hd frame = opcode" "opcode = opcode_isolate \<or> opcode = opcode_release"
    "command_id = takeWhile (\<lambda>c. c \<noteq> 0) (drop 1 frame)" "list_all (\<lambda>c. c = 0) (dropWhile (\<lambda>c. c \<noteq> 0) (drop 1 frame))" "is_valid_identifier command_id"
    by (auto simp: decode_isolation_request_def isolation_request_frame_size_def isolation_command_id_capacity_def Let_def split: if_splits)
  define pad where "pad = dropWhile (\<lambda>c. c \<noteq> 0) (drop 1 frame)"
  have field: "drop 1 frame = command_id @ pad" by (simp add: d(4) pad_def)
  have len: "length command_id + length pad = 128" using arg_cong [OF field, of length] d(1) by simp
  moreover have "pad = replicate (128 - length command_id) 0"
    using d(5) len zeros [of pad] unfolding pad_def [symmetric] by (metis diff_add_inverse)
  moreover have "frame = opcode # drop 1 frame" using d(1,2) by (cases frame) auto
  ultimately show "encode_isolation_request opcode command_id = Inr frame"
    using d(3,6) field by (auto simp: encode_isolation_request_def isolation_command_id_capacity_def)
next
  assume "encode_isolation_request opcode command_id = Inr frame"
  then have e: "is_valid_identifier command_id" "length command_id \<le> 128" "opcode = opcode_isolate \<or> opcode = opcode_release"
    "frame = opcode # command_id @ replicate (128 - length command_id) 0"
    by (auto simp: encode_isolation_request_def isolation_command_id_capacity_def split: if_splits)
  have "takeWhile (\<lambda>c. c \<noteq> 0) (command_id @ replicate (128 - length command_id) 0) = command_id"
    "list_all (\<lambda>c. c = 0) (dropWhile (\<lambda>c. c \<noteq> 0) (command_id @ replicate (128 - length command_id) 0))"
    using identifier_no_zero [OF e(1)] by (simp_all add: takeWhile_append dropWhile_append takeWhile_replicate dropWhile_replicate list_all_iff)
  with e show "decode_isolation_request frame = Inr (opcode, command_id)"
    by (auto simp: decode_isolation_request_def isolation_request_frame_size_def isolation_command_id_capacity_def Let_def)
qed

text \<open>
  C39. The helper understands exactly what the sensor can say. Both the frames the sensor writes and the frames the helper
  reads as a request are those of 129 bytes that hold the number of one of the two operations, a valid identifier
  of at most 128 bytes and zeros up to the end, read as that operation and that identifier. No other bytes are a request.
\<close>

theorem isolation_frame_exact:
  "(encode_isolation_request opcode command_id = Inr frame \<longleftrightarrow>
      opcode \<in> {1, 2} \<and> is_valid_identifier command_id \<and> length frame = 129 \<and>
      (\<exists>n. frame = opcode # command_id @ replicate n 0)) \<and>
   (decode_isolation_request frame = Inr (opcode, command_id) \<longleftrightarrow>
      opcode \<in> {1, 2} \<and> is_valid_identifier command_id \<and> length frame = 129 \<and>
      (\<exists>n. frame = opcode # command_id @ replicate n 0))"
proof -
  have "encode_isolation_request opcode command_id = Inr frame \<longleftrightarrow>
      opcode \<in> {1, 2} \<and> is_valid_identifier command_id \<and> length frame = 129 \<and> (\<exists>n. frame = opcode # command_id @ replicate n 0)"
    by (auto simp: encode_isolation_request_def isolation_command_id_capacity_def opcode_isolate_def opcode_release_def split: if_splits)
  then show ?thesis using isolation_codec_agrees [of frame opcode command_id] by blast
qed

section \<open>What the rules let through\<close>

text \<open>
  A packet as the rules see it, and what the kernel's evaluation of a ruleset is documented to be: an expression that does not
  match ends its rule without a verdict, the first rule of a chain with a verdict decides, a chain without one falls to its policy,
  and a packet passes a hook when every base chain of type filter registered there for its protocol accepts it. A chain of family
  inet sees packets of both protocols.
\<close>

record packet =
  pk_nfproto :: nat
  pk_iif :: u32
  pk_oif :: u32
  pk_l4proto :: u8
  pk_network :: bytes
  pk_transport :: bytes

definition meta_value :: "meta_key \<Rightarrow> packet \<Rightarrow> bytes" where
  "meta_value key p = (case key of Meta_iif \<Rightarrow> put_u32 (pk_iif p) | Meta_oif \<Rightarrow> put_u32 (pk_oif p) | Meta_l4proto \<Rightarrow> [pk_l4proto p])"

definition header :: "payload_base \<Rightarrow> packet \<Rightarrow> bytes" where
  "header base p = (case base of Network_header \<Rightarrow> pk_network p | Transport_header \<Rightarrow> pk_transport p)"

fun rule_verdict :: "nft_expr list \<Rightarrow> bytes \<Rightarrow> packet \<Rightarrow> nat option" where
  "rule_verdict [] reg p = None"
| "rule_verdict (Meta_load key # es) reg p = rule_verdict es (meta_value key p) p"
| "rule_verdict (Payload_load base at len # es) reg p =
     (if at + len \<le> length (header base p) then rule_verdict es (take len (drop at (header base p))) p else None)"
| "rule_verdict (Cmp_eq d # es) reg p = (if reg = d then rule_verdict es reg p else None)"
| "rule_verdict (Immediate_verdict v # es) reg p = Some v"

fun chain_verdict :: "nft_rule list \<Rightarrow> nat \<Rightarrow> packet \<Rightarrow> nat" where
  "chain_verdict [] policy p = policy"
| "chain_verdict (r # rs) policy p = (case rule_verdict (nr_exprs r) [] p of Some v \<Rightarrow> v | None \<Rightarrow> chain_verdict rs policy p)"

text \<open>The base chains a transaction creates, each in a table the transaction creates for the same family, and the rules of each.\<close>

definition base_chains :: "nft_message list \<Rightarrow> (nat \<times> nft_chain) list" where
  "base_chains batch =
     concat (map (\<lambda>m. case m of New_chain family c \<Rightarrow> if New_table family (nc_table c) \<in> set batch then [(family, c)] else [] | _ \<Rightarrow> []) batch)"

definition chain_rules :: "nat \<times> nft_chain \<Rightarrow> nft_message list \<Rightarrow> nft_rule list" where
  "chain_rules fc batch =
     concat (map (\<lambda>m. case m of
       New_rule family r \<Rightarrow> if family = fst fc \<and> nr_table r = nc_table (snd fc) \<and> nr_chain r = nc_name (snd fc) then [r] else []
     | _ \<Rightarrow> []) batch)"

definition sees :: "nat \<times> nft_chain \<Rightarrow> nat \<Rightarrow> packet \<Rightarrow> bool" where
  "sees fc hook p \<longleftrightarrow> nc_type (snd fc) = ''filter'' \<and> nc_hook (snd fc) = hook \<and> fst fc \<in> {NFPROTO_INET, pk_nfproto p}"

definition nft_passes :: "nft_message list \<Rightarrow> nat \<Rightarrow> packet \<Rightarrow> bool" where
  "nft_passes batch hook p =
     list_all (\<lambda>fc. sees fc hook p \<longrightarrow> chain_verdict (chain_rules fc batch) (nc_policy (snd fc)) p = NF_ACCEPT) (base_chains batch)"

definition nft_semantics :: "(nft_message list \<Rightarrow> nat \<Rightarrow> packet \<Rightarrow> bool) \<Rightarrow> bool" where
  "nft_semantics passes \<longleftrightarrow> (\<forall>batch hook p. passes batch hook p \<longleftrightarrow> nft_passes batch hook p)"

lemma put_u32_inj: "put_u32 a = put_u32 b \<longleftrightarrow> a = b"
  by (metis get_u32_append)

lemma nft_hooks: "NF_INET_LOCAL_IN = 1" "NF_INET_LOCAL_OUT = 3"
  by (simp_all add: NF_INET_LOCAL_IN_def NF_INET_LOCAL_OUT_def)

lemma base_chain_selects: "nc_type (base_chain name hook) = ''filter''" "nc_hook (base_chain name hook) = hook" "nc_policy (base_chain name hook) = NF_DROP"
  by (simp_all add: base_chain_def)

lemma chains:
  "base_chains (create_batch ip port) =
     [(NFPROTO_INET, base_chain input_chain NF_INET_LOCAL_IN), (NFPROTO_INET, base_chain output_chain NF_INET_LOCAL_OUT)]"
  "chain_rules (NFPROTO_INET, base_chain input_chain hook) (create_batch ip port) =
     [loopback_accept_rule input_chain Meta_iif, manager_pinned_accept_rule input_chain 12 0 ip port]"
  "chain_rules (NFPROTO_INET, base_chain output_chain hook) (create_batch ip port) =
     [loopback_accept_rule output_chain Meta_oif, manager_pinned_accept_rule output_chain 16 2 ip port]"
  by (simp_all add: base_chains_def chain_rules_def create_batch_def base_chain_def loopback_accept_rule_def manager_pinned_accept_rule_def
      input_chain_def output_chain_def)

text \<open>The port in the order of the wire.\<close>

definition wire_port :: "u16 \<Rightarrow> bytes" where
  "wire_port port = [ucast (drop_bit 8 port), ucast port]"

lemma swapped_port: "put_u16 (push_bit 8 port OR drop_bit 8 port) = wire_port port"
proof -
  have "(ucast (push_bit 8 port OR drop_bit 8 port) :: byte) = ucast (drop_bit 8 port)"
    by (rule bit_eqI) (auto simp: bit_simps)
  moreover have "(ucast (drop_bit 8 (push_bit 8 port OR drop_bit 8 port)) :: byte) = ucast port"
    by (rule bit_eqI) (auto simp: bit_simps)
  ultimately show ?thesis by (simp add: put_u16_def wire_port_def)
qed

lemma chain_pair:
  "chain_verdict [loopback_accept_rule c key, manager_pinned_accept_rule c' at pt ip port] NF_DROP p = NF_ACCEPT \<longleftrightarrow>
     meta_value key p = put_u32 1 \<or> pk_l4proto p = 6 \<and> at + 4 \<le> length (pk_network p) \<and> take 4 (drop at (pk_network p)) = put_u32 ip \<and>
       pt + 2 \<le> length (pk_transport p) \<and> take 2 (drop pt (pk_transport p)) = wire_port port"
  by (auto simp: loopback_accept_rule_def manager_pinned_accept_rule_def meta_value_def header_def swapped_port NF_DROP_def NF_ACCEPT_def)

lemma isolation_out:
  "nft_passes (create_batch ip port) 3 p \<longleftrightarrow>
      pk_oif p = 1 \<or> pk_l4proto p = 6 \<and> 20 \<le> length (pk_network p) \<and> take 4 (drop 16 (pk_network p)) = put_u32 ip \<and>
        4 \<le> length (pk_transport p) \<and> take 2 (drop 2 (pk_transport p)) = wire_port port"
  by (simp add: nft_passes_def chains sees_def base_chain_selects nft_hooks chain_pair meta_value_def put_u32_inj del: chain_verdict.simps)

lemma isolation_in:
  "nft_passes (create_batch ip port) 1 p \<longleftrightarrow>
      pk_iif p = 1 \<or> pk_l4proto p = 6 \<and> 16 \<le> length (pk_network p) \<and> take 4 (drop 12 (pk_network p)) = put_u32 ip \<and>
        2 \<le> length (pk_transport p) \<and> take 2 (pk_transport p) = wire_port port"
  by (simp add: nft_passes_def chains sees_def base_chain_selects nft_hooks chain_pair meta_value_def put_u32_inj del: chain_verdict.simps) auto

text \<open>
  C12. The ruleset the creating transaction sends lets through exactly the loopback interface and segments of the Manager's endpoint.
  For every packet, of either protocol: at hook 1, local input, it passes just when it came in on interface 1 or is TCP with the
  Manager's address at the place of an IPv4 source address and the Manager's port as source port; at hook 3, local output, just when it
  leaves on interface 1 or is TCP with the address at the place of an IPv4 destination and the port as destination port.
  Everything else falls to the policy of the chain registered at that hook, which is drop.
\<close>

theorem isolation_admits_exactly:
  assumes "nft_semantics passes"
  shows "(passes (create_batch ip port) 1 p \<longleftrightarrow>
      pk_iif p = 1 \<or> pk_l4proto p = 6 \<and> 16 \<le> length (pk_network p) \<and> take 4 (drop 12 (pk_network p)) = put_u32 ip \<and>
        2 \<le> length (pk_transport p) \<and> take 2 (pk_transport p) = wire_port port) \<and>
    (passes (create_batch ip port) 3 p \<longleftrightarrow>
      pk_oif p = 1 \<or> pk_l4proto p = 6 \<and> 20 \<le> length (pk_network p) \<and> take 4 (drop 16 (pk_network p)) = put_u32 ip \<and>
        4 \<le> length (pk_transport p) \<and> take 2 (drop 2 (pk_transport p)) = wire_port port)"
  using assms isolation_in [of ip port p] isolation_out [of ip port p] unfolding nft_semantics_def by blast

text \<open>
  The address is compared without asking for the version of the packet: an IPv6 packet to any destination leaves the
  isolated host when its source address carries the Manager's IPv4 address in the four bytes at that place.
\<close>

lemma isolation_admits_ipv6:
  assumes "nft_semantics passes" "length dst = 16"
  shows "\<exists>p. pk_nfproto p = 10 \<and> hd (pk_network p) = 0x60 \<and> length (pk_network p) = 40 \<and> drop 24 (pk_network p) = dst \<and> pk_oif p \<noteq> 1 \<and>
    passes (create_batch ip port) 3 p"
proof -
  define p where "p = \<lparr>pk_nfproto = 10, pk_iif = 0, pk_oif = 2, pk_l4proto = 6, pk_network = 0x60 # replicate 15 0 @ put_u32 ip @ replicate 4 0 @ dst,
    pk_transport = [0, 0] @ wire_port port\<rparr>"
  have "length (put_u32 ip) = 4" by (simp add: put_u32_def)
  with isolation_out [of ip port p] assms show ?thesis by (intro exI [of _ p]) (simp add: nft_semantics_def p_def wire_port_def)
qed

section \<open>Restarts\<close>

text \<open>
  What the kernel is documented to answer to the query for the table: an error message (type 2), or the description of the table
  (type 0 of the nftables subsystem, 10), and the latter only when the table exists. The type stands in bytes 4 and 5 of a message.
\<close>

definition truthful :: "kernel_turn \<Rightarrow> u32 \<Rightarrow> u16 \<Rightarrow> firewall \<Rightarrow> bool" where
  "truthful turn ip port table \<longleftrightarrow>
     (\<forall>buf. Received buf \<in> set (nl_replies (kt_verify_io turn)) \<and> 16 \<le> length buf \<longrightarrow>
        (buf ! 4, buf ! 5) = (2, 0) \<or> (buf ! 4, buf ! 5) = (0, 10) \<and> after_apply turn ip port table \<noteq> None)"

text \<open>
  What happens to the helper between two requests: crashes of the helper, orderly reboots (which write the file out), the writing
  back of the file at any time and to any extent while it differs from the disk, starts, packets that are no request, and,
  when \<open>lossy\<close>, losses of power, after which the file is what the disk holds.
\<close>

inductive idle_step :: "bool \<Rightarrow> helper \<Rightarrow> helper \<Rightarrow> bool" for lossy where
  crash: "idle_step lossy h (h\<lparr>he_serving := False\<rparr>)"
| reboot: "idle_step lossy h (h\<lparr>he_serving := False, he_table := None, he_disk := he_stored h\<rparr>)"
| write_back: "he_disk h \<noteq> he_stored h \<Longrightarrow> idle_step lossy h (h\<lparr>he_disk := map_option (take n) (he_stored h)\<rparr>)"
| power_loss: "lossy \<Longrightarrow> idle_step lossy h (h\<lparr>he_serving := False, he_table := None, he_stored := he_disk h\<rparr>)"
| start: "\<not> he_serving h \<Longrightarrow> truthful turn ip port (he_table h) \<Longrightarrow> helper_start turn ip port h = Some h' \<Longrightarrow> idle_step lossy h h'"
| ignored: "he_serving h \<Longrightarrow> \<not> peer \<or> (\<forall>opcode i. decode_isolation_request packet \<noteq> Inr (opcode, i)) \<Longrightarrow>
    helper_serve turn peer packet h = Some (status, h') \<Longrightarrow> idle_step lossy h h'"

definition stays_isolated :: "helper \<Rightarrow> bool" where
  "stays_isolated h \<longleftrightarrow> is_isolated (load_state (he_stored h)) \<and> (he_serving h \<longrightarrow> he_table h \<noteq> None)"

lemma error_type: "2 \<le> length b \<Longrightarrow> (b ! 0, b ! 1) = (2, 0) \<Longrightarrow> get_u16 b = 2"
  by (simp add: get_u16_def)

lemma applied_table:
  assumes "turn_apply turn ip port = Some r" "succeeded r" "truthful turn ip port table"
  shows "after_apply turn ip port table \<noteq> None"
proof -
  have "verify_table_exists (kt_verify_io turn)"
    using assms(1,2) by (auto simp: turn_apply_def apply_isolation_ruleset_def split: option.splits bool.splits if_splits)
  then obtain buf where buf: "Received buf \<in> set (nl_replies (kt_verify_io turn))" "16 \<le> length buf" "get_u16 (drop 4 buf) \<noteq> 2"
    by (auto simp: verify_table_exists_def split: list.splits received.splits)
  have "\<not> (buf ! 4, buf ! 5) = (2, 0)" using error_type [of "drop 4 buf"] buf(2,3) by (auto simp: le_diff_conv2)
  with assms(3) buf(1,2) show ?thesis unfolding truthful_def by blast
qed

lemma ignored_unchanged:
  assumes "\<not> peer \<or> (\<forall>opcode i. decode_isolation_request packet \<noteq> Inr (opcode, i))" "helper_serve turn peer packet h = Some (status, h')"
  shows "h' = h"
proof (cases "peer \<and> length (take 130 packet) = 129")
  case True
  then have "length packet = 129" by (cases "length packet \<le> 130") auto
  with True assms show ?thesis
    by (auto simp: helper_serve_def isolation_request_frame_size_def isolation_command_id_capacity_def Let_def split: sum.splits)
qed (use assms(2) in \<open>auto simp: helper_serve_def isolation_request_frame_size_def isolation_command_id_capacity_def Let_def split: if_splits\<close>)

lemma idle_keeps:
  "idle_step lossy h h' \<Longrightarrow> stays_isolated h \<Longrightarrow> (lossy \<longrightarrow> he_disk h = he_stored h) \<Longrightarrow>
   stays_isolated h' \<and> (lossy \<longrightarrow> he_disk h' = he_stored h')"
proof (induction rule: idle_step.induct)
  case (start h turn ip port h')
  then obtain r where "turn_apply turn ip port = Some r"
    and h': "h' = h\<lparr>he_ip := ip, he_port := port, he_table := after_apply turn ip port (he_table h), he_serving := succeeded r\<rparr>"
    by (auto simp: helper_start_def stays_isolated_def Let_def split: option.splits)
  with applied_table [OF this(1) _ start(2)] start(4,5) show ?case by (auto simp: stays_isolated_def)
next
  case (ignored h peer packet turn status h')
  with ignored_unchanged [OF ignored(2,3)] show ?case by simp
qed (auto simp: stays_isolated_def)

lemma idles_keep:
  "(idle_step lossy)\<^sup>*\<^sup>* h h' \<Longrightarrow> stays_isolated h \<Longrightarrow> (lossy \<longrightarrow> he_disk h = he_stored h) \<Longrightarrow> stays_isolated h'"
  by (induction rule: converse_rtranclp_induct) (auto dest: idle_keeps)

lemma saved_isolated: "is_isolated (load_state (Some (state_text \<lparr>is_isolated = True, is_command_id = i\<rparr>)))"
  by (simp add: load_state_def state_text_def first_line_def ascii_def)

lemma isolate_request_keeps:
  assumes "carry_request turn opcode_isolate i h = Some (status_ok, h')" "truthful turn (he_ip h) (he_port h) (he_table h)"
  shows "stays_isolated h'"
proof -
  obtain r where r: "turn_apply turn (he_ip h) (he_port h) = Some r" "succeeded r"
    and h': "h' = h\<lparr>he_table := after_apply turn (he_ip h) (he_port h) (he_table h), he_stored := Some (state_text \<lparr>is_isolated = True, is_command_id = i\<rparr>)\<rparr>"
    using assms(1) by (auto simp: carry_request_def save_state_def status_ok_def status_rejected_def Let_def split: option.splits if_splits save_io.splits)
  with applied_table [OF r assms(2)] saved_isolated show ?thesis by (simp add: stays_isolated_def)
qed

text \<open>
  C11. Isolation survives: once the helper has answered a request to isolate with success, then through any number of crashes,
  orderly reboots and starts of the helper, and whatever packets reach it that are not a request of the agent, it never serves
  without the isolation table in place. After the first moment at which the state file has reached the disk this holds through
  losses of power too. Before that moment it does not: see \<open>power_loss_opens\<close>.
\<close>

theorem isolation_survives:
  assumes "helper_serve turn peer packet h = Some (Some status_ok, h1)" "decode_isolation_request packet = Inr (opcode_isolate, i)"
    "truthful turn (he_ip h) (he_port h) (he_table h)"
    "(idle_step False)\<^sup>*\<^sup>* h1 h2" "lossy \<longrightarrow> he_disk h2 = he_stored h2" "(idle_step lossy)\<^sup>*\<^sup>* h2 h3" "he_serving h3"
  shows "he_table h3 \<noteq> None"
proof -
  have len: "length packet = 129" using assms(2)
    by (auto simp: decode_isolation_request_def isolation_request_frame_size_def isolation_command_id_capacity_def split: if_splits)
  have "carry_request turn opcode_isolate i h = Some (status_ok, h1)"
    using assms(1,2) len by (auto simp: helper_serve_def isolation_request_frame_size_def isolation_command_id_capacity_def Let_def split: if_splits)
  then have "stays_isolated h1" using assms(3) by (rule isolate_request_keeps)
  with assms(4) have "stays_isolated h2" using idles_keep [of False h1 h2] by blast
  with assms(5,6) have "stays_isolated h3" using idles_keep [of lossy h2 h3] by blast
  with assms(7) show ?thesis by (simp add: stays_isolated_def)
qed

section \<open>Concrete runs\<close>

definition ack_message :: bytes where
  "ack_message = [20, 0, 0, 0, 2, 0, 0, 0, 1, 0, 0, 0, 1, 0, 0, 0, 0, 0, 0, 0]"

definition answered_io :: "nat \<Rightarrow> netlink_io" where
  "answered_io n = \<lparr>nl_ready = True, nl_sent = True, nl_replies = replicate n (Received ack_message)\<rparr>"

definition silent_io :: netlink_io where
  "silent_io = \<lparr>nl_ready = True, nl_sent = True, nl_replies = []\<rparr>"

definition sample_turn :: kernel_turn where
  "sample_turn = \<lparr>kt_deleted = True, kt_created = True, kt_released = True, kt_delete_io = silent_io, kt_create_io = answered_io 7,
     kt_verify_io = silent_io\<lparr>nl_replies := [Received ([16, 0, 0, 0, 0, 10] @ replicate 10 0)]\<rparr>, kt_release_io = answered_io 3, kt_save_io = Save_whole\<rparr>"

definition fresh_helper :: helper where
  "fresh_helper = \<lparr>he_serving = True, he_ip = 1, he_port = 443, he_table = None, he_stored = None, he_disk = None\<rparr>"

definition isolate_frame :: bytes where
  "isolate_frame = opcode_isolate # ascii ''c1'' @ replicate 126 0"

lemma ack_walks: "n < expected \<Longrightarrow> walk_replies expected (take 8192 ack_message) n = Walked (Suc n)"
proof -
  have "get_u32 ack_message = 20" "get_u16 (drop 4 ack_message) = 2" "get_u32 (drop 16 ack_message) = 0" "length ack_message = 20"
    by code_simp+
  moreover have "walk_replies expected [] m = Walked m" for m by (simp add: walk_replies.simps)
  ultimately show "n < expected \<Longrightarrow> walk_replies expected (take 8192 ack_message) n = Walked (Suc n)"
    by (subst walk_replies.simps) (simp add: nlmsg_align_def)
qed

lemma sample_apply: "turn_apply sample_turn ip port = Some (Inr True)"
proof -
  have "count_expected_acks (create_batch ip port) = 7" "count_expected_acks delete_batch = 0"
    by (simp_all add: count_expected_acks_def create_batch_def delete_batch_def wants_ack_def)
  moreover have "recv_loop 7 False (nl_replies (answered_io 7)) 0 = Some True"
    using ack_walks [of _ 7] by (simp add: answered_io_def numeral_eq_Suc) (simp add: ack_message_def)
  moreover have "verify_table_exists (kt_verify_io sample_turn)" by code_simp
  ultimately show ?thesis
    by (simp add: turn_apply_def apply_isolation_ruleset_def commit_batch_def sample_turn_def silent_io_def answered_io_def)
qed

lemma sample_decoded: "decode_isolation_request isolate_frame = Inr (opcode_isolate, ascii ''c1'')"
  by (simp add: decode_isolation_request_def isolate_frame_def isolation_request_frame_size_def isolation_command_id_capacity_def Let_def ascii_def
      is_valid_identifier_def alnum_def list_all_iff)

definition isolated_helper :: helper where
  "isolated_helper = fresh_helper\<lparr>he_table := Some [(1, 443)], he_stored := Some (state_text \<lparr>is_isolated = True, is_command_id = ascii ''c1''\<rparr>)\<rparr>"

lemma sample_served: "helper_serve sample_turn True isolate_frame fresh_helper = Some (Some status_ok, isolated_helper)"
  by (simp add: helper_serve_def sample_decoded isolation_request_frame_size_def isolation_command_id_capacity_def isolate_frame_def [THEN arg_cong, of length]
      ascii_def [THEN arg_cong, of length] carry_request_def sample_apply Let_def)
    (simp add: save_state_def after_apply_def sample_turn_def isolated_helper_def fresh_helper_def)

lemma sample_truthful: "truthful sample_turn ip port table"
  by (simp add: truthful_def after_apply_def sample_turn_def Let_def)

text \<open>The file reaches the disk, the power fails, the helper starts again.\<close>

definition settled_helper :: helper where
  "settled_helper = isolated_helper\<lparr>he_disk := he_stored isolated_helper\<rparr>"

definition failed_helper :: helper where
  "failed_helper = settled_helper\<lparr>he_serving := False, he_table := None\<rparr>"

definition restarted_helper :: helper where
  "restarted_helper = failed_helper\<lparr>he_table := Some [(1, 443)], he_serving := True\<rparr>"

lemma sample_settled: "(idle_step False)\<^sup>*\<^sup>* isolated_helper settled_helper"
proof -
  have "he_disk isolated_helper \<noteq> he_stored isolated_helper" by (simp add: isolated_helper_def fresh_helper_def)
  from idle_step.write_back [OF this, of False "length (the (he_stored isolated_helper))"]
  have "idle_step False isolated_helper settled_helper" by (simp add: settled_helper_def isolated_helper_def)
  then show ?thesis by simp
qed

lemma sample_restarted: "(idle_step True)\<^sup>*\<^sup>* settled_helper restarted_helper"
proof -
  have "idle_step True settled_helper failed_helper"
    using idle_step.power_loss [of True settled_helper] by (simp add: failed_helper_def settled_helper_def isolated_helper_def fresh_helper_def)
  moreover have "is_isolated (load_state (he_stored failed_helper))"
    using saved_isolated by (simp add: failed_helper_def settled_helper_def isolated_helper_def)
  then have "helper_start sample_turn 1 443 failed_helper = Some restarted_helper"
    by (simp add: helper_start_def sample_apply after_apply_def)
      (simp add: sample_turn_def restarted_helper_def failed_helper_def settled_helper_def isolated_helper_def fresh_helper_def)
  then have "idle_step True failed_helper restarted_helper"
    by - (rule idle_step.start [OF _ sample_truthful], simp_all add: failed_helper_def)
  ultimately show ?thesis by simp
qed

theorem isolation_survives_witness:
  "decode_isolation_request isolate_frame = Inr (opcode_isolate, ascii ''c1'') \<and>
     helper_serve sample_turn True isolate_frame fresh_helper = Some (Some status_ok, isolated_helper) \<and>
     he_serving restarted_helper \<and> he_table restarted_helper \<noteq> None"
proof -
  have "True \<longrightarrow> he_disk settled_helper = he_stored settled_helper" "he_serving restarted_helper"
    by (simp_all add: settled_helper_def restarted_helper_def)
  with isolation_survives [OF sample_served sample_decoded sample_truthful sample_settled this(1) sample_restarted this(2)]
  show ?thesis using sample_served sample_decoded by simp
qed

text \<open>
  The state file is not forced to the disk before the request is answered: a loss of power after the answer leaves the disk
  without it, and the helper then starts and serves with the host open.
\<close>

lemma power_loss_opens:
  "\<exists>h. helper_serve sample_turn True isolate_frame fresh_helper = Some (Some status_ok, isolated_helper) \<and>
     (idle_step True)\<^sup>*\<^sup>* isolated_helper h \<and> he_serving h \<and> he_table h = None"
proof -
  define h where "h = isolated_helper\<lparr>he_serving := False, he_table := None, he_stored := None\<rparr>"
  have "idle_step True isolated_helper h"
    using idle_step.power_loss [of True isolated_helper] by (simp add: h_def isolated_helper_def fresh_helper_def)
  moreover have "idle_step True h (h\<lparr>he_serving := True\<rparr>)"
    by (rule idle_step.start [OF _ sample_truthful]) (simp_all add: h_def helper_start_def load_state_def isolated_helper_def fresh_helper_def)
  ultimately have "(idle_step True)\<^sup>*\<^sup>* isolated_helper (h\<lparr>he_serving := True\<rparr>)" by simp
  then show ?thesis using sample_served by (intro exI [of _ "h\<lparr>he_serving := True\<rparr>"]) (simp add: h_def)
qed

definition outgoing :: "bytes \<Rightarrow> packet" where
  "outgoing address = \<lparr>pk_nfproto = 2, pk_iif = 0, pk_oif = 2, pk_l4proto = 6, pk_network = 0x45 # replicate 15 0 @ address, pk_transport = [0, 0, 1, 187]\<rparr>"

theorem isolation_admits_exactly_witness:
  "nft_semantics nft_passes \<and> nft_passes (create_batch 0x01020304 443) 3 (outgoing [4, 3, 2, 1]) \<and>
     \<not> nft_passes (create_batch 0x01020304 443) 3 (outgoing [8, 8, 8, 8])"
proof -
  have sem: "nft_semantics nft_passes" by (simp add: nft_semantics_def)
  note exact = isolation_admits_exactly [OF this, THEN conjunct2, of "0x01020304" 443]
  have "put_u32 0x01020304 = [4, 3, 2, 1]" "wire_port 443 = [1, 187]" by code_simp+
  with sem show ?thesis unfolding exact by (simp add: outgoing_def)
qed

text \<open>
  Applying again is not without risk: the old table is deleted in a transaction of its own, so when the creation
  then fails, an isolated host is open, the helper goes on serving, and its record still says that the host is isolated.
\<close>

lemma failed_reapply_opens:
  "\<exists>turn h'. helper_serve turn True isolate_frame isolated_helper = Some (Some status_rejected, h') \<and> he_table isolated_helper \<noteq> None \<and> he_serving h' \<and>
     he_table h' = None \<and> is_isolated (load_state (he_stored h'))"
proof -
  define turn where "turn = sample_turn\<lparr>kt_created := False, kt_create_io := silent_io\<rparr>"
  have "count_expected_acks (create_batch ip port) = 7" "count_expected_acks delete_batch = 0" for ip port
    by (simp_all add: count_expected_acks_def create_batch_def delete_batch_def wants_ack_def)
  then have failed: "turn_apply turn ip port = Some (Inl (Error io_failure ''isolation ruleset could not be applied via netlink''))" for ip port
    by (simp add: turn_apply_def apply_isolation_ruleset_def commit_batch_def turn_def sample_turn_def silent_io_def)
  have "helper_serve turn True isolate_frame isolated_helper = Some (Some status_rejected, isolated_helper\<lparr>he_table := None\<rparr>)"
    by (simp add: helper_serve_def sample_decoded isolation_request_frame_size_def isolation_command_id_capacity_def
        isolate_frame_def [THEN arg_cong, of length] ascii_def [THEN arg_cong, of length] carry_request_def failed)
      (simp add: after_apply_def turn_def sample_turn_def)
  moreover have "is_isolated (load_state (he_stored isolated_helper))" using saved_isolated by (simp add: isolated_helper_def)
  ultimately show ?thesis by (intro exI [of _ turn] exI [of _ "isolated_helper\<lparr>he_table := None\<rparr>"]) (simp add: isolated_helper_def fresh_helper_def)
qed

end
