(* ===== verification/Policy_Engine.thy ===== *)
theory Policy_Engine
  imports Command_Auth
begin

text \<open>
  The local policy language, \<^verbatim>\<open>src/sensor/policy.cpp\<close>: indicators and rules over the facts of one event. A policy
  decides and never acts. Text is bytes; a \<open>std::set\<close> of strings is a list without duplicates. The set \<open>rule_ids\<close> of the
  parser always holds the ids of the rules read so far and is not kept beside them.
\<close>

section \<open>Data\<close>

datatype policy_action = Alert | Recommend_terminate | Recommend_quarantine | Recommend_block
datatype policy_severity = Sev_low | Sev_medium | Sev_high | Sev_critical
datatype policy_field = F_exe | F_cmdline | F_sha256 | F_file_path | F_dest_ip | F_dest_domain
datatype policy_operator = Op_equals | Op_prefix | Op_suffix | Op_contains | Op_ioc

record policy_input =
  in_kind :: bytes
  in_exe :: bytes
  in_cmdline :: bytes
  in_sha256 :: bytes
  in_file_path :: bytes
  in_dest_ip :: bytes
  in_dest_domain :: bytes

record policy_rule =
  ru_id :: bytes
  ru_kind :: bytes
  ru_field :: policy_field
  ru_op :: policy_operator
  ru_action :: policy_action
  ru_severity :: policy_severity
  ru_value :: bytes

record policy_decision =
  de_rule_id :: bytes
  de_action :: policy_action
  de_severity :: policy_severity
  de_field :: string
  de_matched :: bytes

record policy_limits =
  pm_maximum_rules :: nat
  pm_maximum_iocs :: nat
  pm_maximum_line_bytes :: nat
  pm_maximum_decisions :: nat
  pm_maximum_matched_bytes :: nat

definition default_policy_limits :: policy_limits where
  "default_policy_limits = \<lparr>pm_maximum_rules = 1024, pm_maximum_iocs = 100000, pm_maximum_line_bytes = 4096, pm_maximum_decisions = 16,
     pm_maximum_matched_bytes = 256\<rparr>"

record policy_engine =
  pe_limits :: policy_limits
  pe_rules :: "policy_rule list"
  pe_iocs :: "policy_field \<Rightarrow> bytes list"
  pe_allow_exe :: "bytes list"

section \<open>Names\<close>

definition field_names :: "(string \<times> policy_field) list" where
  "field_names = [(''exe'', F_exe), (''cmdline'', F_cmdline), (''sha256'', F_sha256), (''file_path'', F_file_path),
     (''dest_ip'', F_dest_ip), (''dest_domain'', F_dest_domain)]"

definition operator_names :: "(string \<times> policy_operator) list" where
  "operator_names = [(''equals'', Op_equals), (''prefix'', Op_prefix), (''suffix'', Op_suffix), (''contains'', Op_contains), (''ioc'', Op_ioc)]"

definition action_names :: "(string \<times> policy_action) list" where
  "action_names = [(''alert'', Alert), (''recommend_terminate'', Recommend_terminate), (''recommend_quarantine'', Recommend_quarantine),
     (''recommend_block'', Recommend_block)]"

definition severity_names :: "(string \<times> policy_severity) list" where
  "severity_names = [(''low'', Sev_low), (''medium'', Sev_medium), (''high'', Sev_high), (''critical'', Sev_critical)]"

definition lookup_name :: "(string \<times> 'v) list \<Rightarrow> bytes \<Rightarrow> 'v option" where
  "lookup_name table name = map_of (map (\<lambda>(k, v). (ascii k, v)) table) name"

fun field_text :: "policy_field \<Rightarrow> string" where
  "field_text F_exe = ''exe''"
| "field_text F_cmdline = ''cmdline''"
| "field_text F_sha256 = ''sha256''"
| "field_text F_file_path = ''file_path''"
| "field_text F_dest_ip = ''dest_ip''"
| "field_text F_dest_domain = ''dest_domain''"

definition plain_identifier :: "bytes \<Rightarrow> bool" where
  "plain_identifier t \<longleftrightarrow> t \<noteq> [] \<and> length t \<le> 64 \<and>
     list_all (\<lambda>c. alnum c \<or> c = 0x5F \<or> c = 0x2D \<or> c = 0x2E \<or> c = 0x2A) t"

definition lower_hex_text :: "bytes \<Rightarrow> nat \<Rightarrow> bool" where
  "lower_hex_text t n \<longleftrightarrow> length t = n \<and> list_all (\<lambda>c. 0x30 \<le> c \<and> c \<le> 0x39 \<or> 0x61 \<le> c \<and> c \<le> 0x66) t"

definition lowered :: "bytes \<Rightarrow> bytes" where
  "lowered t = map (\<lambda>c. if 0x41 \<le> c \<and> c \<le> 0x5A then c + 0x20 else c) t"

section \<open>Reading a policy\<close>

definition skip_spaces :: "bytes \<Rightarrow> bytes" where
  "skip_spaces rest = dropWhile (\<lambda>c. c = 0x20) rest"

text \<open>The next token and what is left behind it; nothing when only spaces are left.\<close>

definition next_token :: "bytes \<Rightarrow> (bytes \<times> bytes) option" where
  "next_token rest =
     (let r = skip_spaces rest
      in if r = [] then None else Some (takeWhile (\<lambda>c. c \<noteq> 0x20) r, dropWhile (\<lambda>c. c \<noteq> 0x20) r))"

fun next_tokens :: "nat \<Rightarrow> bytes \<Rightarrow> (bytes list \<times> bytes) option" where
  "next_tokens 0 rest = Some ([], rest)"
| "next_tokens (Suc n) rest =
     (case next_token rest of
        None \<Rightarrow> None
      | Some (t, r) \<Rightarrow> (case next_tokens n r of None \<Rightarrow> None | Some (ts, r') \<Rightarrow> Some (t # ts, r')))"

definition ioc_count :: "policy_engine \<Rightarrow> nat" where
  "ioc_count e = sum_list (map (\<lambda>f. length (pe_iocs e f)) (map snd field_names))"

definition parse_rule :: "bytes \<Rightarrow> policy_engine \<Rightarrow> string + policy_engine" where
  "parse_rule rest e =
     (case next_tokens 6 rest of
        Some ([i, kind, field_name, operator_name, action_name, severity_name], r) \<Rightarrow>
          if \<not> plain_identifier i \<or> \<not> plain_identifier kind then Inl ''bad rule id or kind''
          else (case lookup_name field_names field_name of
                  None \<Rightarrow> Inl ''unknown field''
                | Some fld \<Rightarrow>
          (case lookup_name operator_names operator_name of
             None \<Rightarrow> Inl ''unknown operator''
           | Some oper \<Rightarrow>
          (case lookup_name action_names action_name of
             None \<Rightarrow> Inl ''unknown action''
           | Some action \<Rightarrow>
          (case lookup_name severity_names severity_name of
             None \<Rightarrow> Inl ''unknown severity''
           | Some severity \<Rightarrow>
               let v = skip_spaces r
               in if oper \<noteq> Op_ioc \<and> v = [] then Inl ''rule has no value''
                  else if oper = Op_ioc \<and> v \<noteq> [] then Inl ''an ioc rule takes no value''
                  else if i \<in> ru_id ` set (pe_rules e) then Inl ''duplicate rule id''
                  else if pm_maximum_rules (pe_limits e) \<le> length (pe_rules e) then Inl ''too many rules''
                  else Inr (e\<lparr>pe_rules := pe_rules e @
                         [\<lparr>ru_id = i, ru_kind = kind, ru_field = fld, ru_op = oper, ru_action = action, ru_severity = severity,
                           ru_value = (if fld = F_sha256 then lowered v else v)\<rparr>]\<rparr>)))))
      | _ \<Rightarrow> Inl ''rule needs id kind field operator action severity'')"

definition parse_ioc :: "bytes \<Rightarrow> policy_engine \<Rightarrow> string + policy_engine" where
  "parse_ioc rest e =
     (case next_tokens 2 rest of
        Some ([field_name, v], r) \<Rightarrow>
          (case lookup_name field_names field_name of
             None \<Rightarrow> Inl ''ioc needs a field (not cmdline) and a value''
           | Some fld \<Rightarrow>
               if fld = F_cmdline then Inl ''ioc needs a field (not cmdline) and a value''
               else if next_token r \<noteq> None then Inl ''ioc takes exactly one value''
               else let stored = (if fld = F_sha256 \<or> fld = F_dest_domain then lowered v else v)
                    in if fld = F_sha256 \<and> \<not> lower_hex_text stored 64 then Inl ''sha256 must be 64 hex digits''
                       else if pm_maximum_iocs (pe_limits e) \<le> ioc_count e then Inl ''too many indicators''
                       else Inr (e\<lparr>pe_iocs := (pe_iocs e)(fld := List.insert stored (pe_iocs e fld))\<rparr>))
      | _ \<Rightarrow> Inl ''ioc needs a field (not cmdline) and a value'')"

definition parse_allow :: "bytes \<Rightarrow> policy_engine \<Rightarrow> string + policy_engine" where
  "parse_allow rest e =
     (case next_tokens 2 rest of
        Some ([what, prefix], r) \<Rightarrow>
          if what \<noteq> ascii ''exe'' \<or> hd prefix \<noteq> 0x2F then Inl ''allow needs: exe <absolute path prefix>''
          else if next_token r \<noteq> None then Inl ''allow takes exactly one path''
          else Inr (e\<lparr>pe_allow_exe := pe_allow_exe e @ [prefix]\<rparr>)
      | _ \<Rightarrow> Inl ''allow needs: exe <absolute path prefix>'')"

definition strip_return :: "bytes \<Rightarrow> bytes" where
  "strip_return line = (if line \<noteq> [] \<and> last line = 0x0D then butlast line else line)"

definition parse_line :: "bytes \<Rightarrow> policy_engine \<Rightarrow> string + policy_engine" where
  "parse_line whole e =
     (let line = strip_return whole
      in if pm_maximum_line_bytes (pe_limits e) < length line then Inl ''line is too long''
         else if list_ex (\<lambda>c. c < 0x20 \<and> c \<noteq> 0x09) line then Inl ''control character''
         else case next_token line of
                None \<Rightarrow> Inr e
              | Some (directive, rest) \<Rightarrow>
                  if hd directive = 0x23 then Inr e
                  else if directive = ascii ''rule'' then parse_rule rest e
                  else if directive = ascii ''ioc'' then parse_ioc rest e
                  else if directive = ascii ''allow'' then parse_allow rest e
                  else Inl ''unknown directive'')"

text \<open>The lines of a text; what stands behind the last newline is a line too.\<close>

fun policy_lines :: "bytes \<Rightarrow> bytes list" where
  "policy_lines [] = [[]]"
| "policy_lines (c # cs) =
     (if c = 0x0A then [] # policy_lines cs else case policy_lines cs of [] \<Rightarrow> [[c]] | l # ls \<Rightarrow> (c # l) # ls)"

fun parse_lines :: "nat \<Rightarrow> bytes list \<Rightarrow> policy_engine \<Rightarrow> policy_engine result" where
  "parse_lines number [] e = Inr e"
| "parse_lines number (l # ls) e =
     (case parse_line l e of
        Inl why \<Rightarrow> Inl (Error invalid_input (''policy line '' @ to_string (number + 1) @ '': '' @ why))
      | Inr e' \<Rightarrow> parse_lines (number + 1) ls e')"

definition dead_indicators :: "policy_engine \<Rightarrow> policy_field \<Rightarrow> bool" where
  "dead_indicators e fld \<longleftrightarrow>
     pe_iocs e fld \<noteq> [] \<and> \<not> list_ex (\<lambda>r. ru_op r = Op_ioc \<and> ru_field r = fld) (pe_rules e)"

definition parse_policy :: "bytes \<Rightarrow> policy_limits \<Rightarrow> policy_engine result" where
  "parse_policy str limits =
     (case parse_lines 0 (policy_lines str) \<lparr>pe_limits = limits, pe_rules = [], pe_iocs = (\<lambda>_. []), pe_allow_exe = []\<rparr> of
        Inl e \<Rightarrow> Inl e
      | Inr e \<Rightarrow>
          (case filter (dead_indicators e) (map snd field_names) of
             [] \<Rightarrow> Inr e
           | fld # _ \<Rightarrow> Inl (Error invalid_input (''policy: '' @ field_text fld @ '' indicators have no ioc rule on that field''))))"

section \<open>Deciding\<close>

fun field_of :: "policy_input \<Rightarrow> policy_field \<Rightarrow> bytes" where
  "field_of i F_exe = in_exe i"
| "field_of i F_cmdline = in_cmdline i"
| "field_of i F_sha256 = in_sha256 i"
| "field_of i F_file_path = in_file_path i"
| "field_of i F_dest_ip = in_dest_ip i"
| "field_of i F_dest_domain = in_dest_domain i"

definition text_starts_with :: "bytes \<Rightarrow> bytes \<Rightarrow> bool" where
  "text_starts_with t prefix \<longleftrightarrow> length prefix \<le> length t \<and> take (length prefix) t = prefix"

definition text_ends_with :: "bytes \<Rightarrow> bytes \<Rightarrow> bool" where
  "text_ends_with t suffix \<longleftrightarrow> length suffix \<le> length t \<and> drop (length t - length suffix) t = suffix"

definition path_prefix :: "bytes \<Rightarrow> bytes \<Rightarrow> bool" where
  "path_prefix t prefix \<longleftrightarrow> text_starts_with t prefix \<and>
     (length t = length prefix \<or> last prefix = 0x2F \<or> t ! length prefix = 0x2F)"

text \<open>\<open>std::string::find\<close> of a text in another.\<close>

fun occurs :: "bytes \<Rightarrow> bytes \<Rightarrow> bool" where
  "occurs [] v \<longleftrightarrow> v = []"
| "occurs (c # cs) v \<longleftrightarrow> text_starts_with (c # cs) v \<or> occurs cs v"

text \<open>The name itself, then its parent domains.\<close>

function domain_listed :: "bytes list \<Rightarrow> bytes \<Rightarrow> bool" where
  "domain_listed listed name \<longleftrightarrow>
     lowered name \<in> set listed \<or>
     (case dropWhile (\<lambda>c. c \<noteq> 0x2E) name of [] \<Rightarrow> False | _ # parent \<Rightarrow> domain_listed listed parent)"
  by auto
termination
proof (relation "measure (\<lambda>(listed, name). length name)")
  fix listed :: "bytes list" and name d parent
  assume "dropWhile (\<lambda>c. c \<noteq> 0x2E) name = d # parent"
  then show "((listed, parent), (listed, name)) \<in> measure (\<lambda>(listed, name). length name)"
    using length_dropWhile_le [of "\<lambda>c. c \<noteq> 0x2E" name] by simp
qed simp

declare domain_listed.simps [simp del]

definition in_set :: "bytes list \<Rightarrow> policy_field \<Rightarrow> bytes \<Rightarrow> bool" where
  "in_set listed fld v \<longleftrightarrow> v \<noteq> [] \<and>
     (if fld = F_dest_domain then domain_listed listed v else (if fld = F_sha256 then lowered v else v) \<in> set listed)"

definition rule_matches :: "policy_engine \<Rightarrow> policy_rule \<Rightarrow> bytes \<Rightarrow> bool" where
  "rule_matches e r v =
     (case ru_op r of
        Op_equals \<Rightarrow> (if ru_field r = F_sha256 then lowered v else v) = ru_value r
      | Op_prefix \<Rightarrow> if ru_field r = F_exe \<or> ru_field r = F_file_path then path_prefix v (ru_value r) else text_starts_with v (ru_value r)
      | Op_suffix \<Rightarrow> text_ends_with v (ru_value r)
      | Op_contains \<Rightarrow> occurs v (ru_value r)
      | Op_ioc \<Rightarrow> in_set (pe_iocs e (ru_field r)) (ru_field r) v)"

fun decide_rules :: "policy_engine \<Rightarrow> policy_input \<Rightarrow> policy_field option \<Rightarrow> policy_rule list \<Rightarrow> policy_decision list \<Rightarrow> policy_decision list" where
  "decide_rules e i only [] decisions = decisions"
| "decide_rules e i only (r # rs) decisions =
     (if pm_maximum_decisions (pe_limits e) \<le> length decisions then decisions
      else if only \<noteq> None \<and> ru_field r \<noteq> the only then decide_rules e i only rs decisions
      else if ru_kind r \<noteq> [0x2A] \<and> ru_kind r \<noteq> in_kind i then decide_rules e i only rs decisions
      else let v = field_of i (ru_field r)
           in if v = [] \<or> \<not> rule_matches e r v then decide_rules e i only rs decisions
              else decide_rules e i only rs
                     (decisions @ [\<lparr>de_rule_id = ru_id r, de_action = ru_action r, de_severity = ru_severity r,
                        de_field = field_text (ru_field r), de_matched = take (pm_maximum_matched_bytes (pe_limits e)) v\<rparr>]))"

definition evaluate :: "policy_engine \<Rightarrow> policy_input \<Rightarrow> policy_field option \<Rightarrow> policy_decision list" where
  "evaluate e i only =
     (if list_ex (\<lambda>prefix. in_exe i \<noteq> [] \<and> path_prefix (in_exe i) prefix) (pe_allow_exe e) then []
      else decide_rules e i only (pe_rules e) [])"

definition has_rules_on :: "policy_engine \<Rightarrow> policy_field \<Rightarrow> bool" where
  "has_rules_on e fld \<longleftrightarrow> list_ex (\<lambda>r. ru_field r = fld) (pe_rules e)"

end
