(* ===== verification/Policy_Store.thy ===== *)
theory Policy_Store
  imports Policy_Engine Command_Ledger
begin

text \<open>
  The signed policy and the store that decides which one is in force, \<^verbatim>\<open>src/sensor/policy_bundle.cpp\<close>. What the key file, the
  policy file and the durable record of the accepted version are when they are looked at is an argument of each
  refresh; the record itself is part of the state, because it outlives the process.
\<close>

section \<open>The bundle\<close>

record policy_header =
  ph_policy_id :: bytes
  ph_version :: nat
  ph_issued_unix :: nat
  ph_expires_unix :: nat
  ph_scope :: bytes
  ph_key_id :: bytes
  ph_signature :: bytes

record policy_bundle =
  pb_header :: policy_header
  pb_body_sha256 :: bytes
  pb_engine :: policy_engine

definition policy_signing_input :: "policy_header \<Rightarrow> bytes \<Rightarrow> bytes" where
  "policy_signing_input h digest =
     ascii ''panopticon-policy/1'' @ [0x0A] @
     sign_field ''policy_id'' (ph_policy_id h) @
     sign_field ''version'' (ascii (to_string (ph_version h))) @
     sign_field ''issued_at'' (ascii (to_string (ph_issued_unix h))) @
     sign_field ''expires_at'' (ascii (to_string (ph_expires_unix h))) @
     sign_field ''scope'' (ph_scope h) @
     sign_field ''body_sha256'' digest"

definition is_digit_byte :: "byte \<Rightarrow> bool" where
  "is_digit_byte c \<longleftrightarrow> 0x30 \<le> c \<and> c \<le> 0x39"

definition digits_number :: "bytes \<Rightarrow> nat" where
  "digits_number ds = fold (\<lambda>c v. v * 10 + (unat c - 48)) ds 0"

text \<open>\<open>decimal\<close> for an integer type with the given greatest value.\<close>

definition plain_decimal :: "nat \<Rightarrow> bytes \<Rightarrow> nat option" where
  "plain_decimal greatest t =
     (if t = [] \<or> 19 < length t \<or> 1 < length t \<and> hd t = 0x30 \<or> \<not> list_all is_digit_byte t then None
      else if greatest < digits_number t then None else Some (digits_number t))"

definition uint64_greatest :: nat where "uint64_greatest = 2 ^ 64 - 1"
definition int64_greatest :: nat where "int64_greatest = 2 ^ 63 - 1"

text \<open>A line that ends with a newline, and what is left behind it.\<close>

definition header_line :: "bytes \<Rightarrow> (bytes \<times> bytes) option" where
  "header_line rest =
     (if 0x0A \<in> set rest then Some (takeWhile (\<lambda>c. c \<noteq> 0x0A) rest, drop 1 (dropWhile (\<lambda>c. c \<noteq> 0x0A) rest)) else None)"

definition header_names :: "string list" where
  "header_names = [''policy_id'', ''version'', ''issued_at'', ''expires_at'', ''scope'', ''key_id'', ''signature'']"

definition printable_value :: "bytes \<Rightarrow> bool" where
  "printable_value v \<longleftrightarrow> list_all (\<lambda>c. 0x20 < c \<and> c < 0x7F) v"

definition header_error :: "string \<Rightarrow> 'r result" where
  "header_error why = Inl (Error invalid_input (''policy header: '' @ why))"

definition in_quotes :: "string \<Rightarrow> string" where
  "in_quotes s = CHR 0x22 # s @ [CHR 0x22]"

fun header_values :: "nat \<Rightarrow> string list \<Rightarrow> bytes \<Rightarrow> (bytes list \<times> bytes) result" where
  "header_values index [] rest = Inr ([], rest)"
| "header_values index (name # names) rest =
     (case header_line rest of
        None \<Rightarrow> header_error (''missing '' @ name)
      | Some (line, rest') \<Rightarrow>
          if 0x20 \<notin> set line \<or> takeWhile (\<lambda>c. c \<noteq> 0x20) line \<noteq> ascii name
          then header_error (''line '' @ to_string (index + 2) @ '' must be '' @ name)
          else let v = drop 1 (dropWhile (\<lambda>c. c \<noteq> 0x20) line)
               in if v = [] \<or> 256 < length v \<or> \<not> printable_value v then header_error (''bad value for '' @ name)
                  else case header_values (index + 1) names rest' of Inl e \<Rightarrow> Inl e | Inr (vs, r) \<Rightarrow> Inr (v # vs, r))"

definition latest_unix :: nat where "latest_unix = 9999999999"

definition scope_ok :: "bytes \<Rightarrow> bool" where
  "scope_ok s \<longleftrightarrow> s = ascii ''all'' \<or> take 5 s = ascii ''host:'' \<and> is_valid_identifier (drop 5 s)"

definition header_of :: "bytes list \<Rightarrow> policy_header result" where
  "header_of vs =
     (if \<not> is_valid_identifier (vs ! 0) then header_error ''policy_id must be an identifier (letters, digits, '.', '_', '-')''
      else case plain_decimal uint64_greatest (vs ! 1) of
             None \<Rightarrow> header_error ''version must be a decimal from 1 to 2^63-1''
           | Some version \<Rightarrow>
      if version = 0 \<or> int64_greatest < version then header_error ''version must be a decimal from 1 to 2^63-1''
      else (case (plain_decimal int64_greatest (vs ! 2), plain_decimal int64_greatest (vs ! 3)) of
              (Some issued, Some expires) \<Rightarrow>
                if latest_unix < issued \<or> latest_unix < expires
                then header_error ''issued_at and expires_at must be decimal unix seconds up to 9999999999''
                else if expires \<le> issued then header_error ''expires_at must be after issued_at''
                else if \<not> scope_ok (vs ! 4) then header_error (''scope must be '' @ in_quotes ''all'' @ '' or '' @ in_quotes ''host:<host_id>'')
                else if \<not> lower_hex_text (vs ! 5) 16 then header_error ''key_id must be 16 lowercase hex digits''
                else (case decode_base64 (vs ! 6) of
                        None \<Rightarrow> header_error ''signature must be the base64 of 64 bytes''
                      | Some signature \<Rightarrow>
                          if length signature \<noteq> 64 then header_error ''signature must be the base64 of 64 bytes''
                          else Inr \<lparr>ph_policy_id = vs ! 0, ph_version = version, ph_issued_unix = issued, ph_expires_unix = expires,
                                 ph_scope = vs ! 4, ph_key_id = vs ! 5, ph_signature = signature\<rparr>)
            | _ \<Rightarrow> header_error ''issued_at and expires_at must be decimal unix seconds up to 9999999999''))"

definition parse_policy_bundle :: "bytes \<Rightarrow> policy_limits \<Rightarrow> policy_bundle result" where
  "parse_policy_bundle str limits =
     (case header_line str of
        None \<Rightarrow> header_error (''the first line must be '' @ in_quotes ''panopticon-policy 1'')
      | Some (line, rest) \<Rightarrow>
          if line \<noteq> ascii ''panopticon-policy 1'' then header_error (''the first line must be '' @ in_quotes ''panopticon-policy 1'')
          else (case header_values 0 header_names rest of
                  Inl e \<Rightarrow> Inl e
                | Inr (vs, rest') \<Rightarrow>
          (case header_line rest' of
             None \<Rightarrow> header_error (''the header must be followed by a line '' @ in_quotes ''---'')
           | Some (separator, body) \<Rightarrow>
               if separator \<noteq> ascii ''---'' then header_error (''the header must be followed by a line '' @ in_quotes ''---'')
               else (case header_of vs of
                       Inl e \<Rightarrow> Inl e
                     | Inr h \<Rightarrow>
                         (case parse_policy body limits of
                            Inl e \<Rightarrow> Inl e
                          | Inr engine \<Rightarrow> Inr \<lparr>pb_header = h, pb_body_sha256 = ascii (sha256_hex body), pb_engine = engine\<rparr>)))))"

section \<open>The record of the accepted version\<close>

record saved_state =
  ss_policy_id :: bytes
  ss_version :: nat
  ss_body_sha256 :: bytes

definition policy_state_text :: "saved_state \<Rightarrow> bytes" where
  "policy_state_text s =
     ascii ''panopticon-policy-state 1'' @ [0x0A] @ ascii ''policy_id='' @ ss_policy_id s @ [0x0A] @
     ascii ''version='' @ ascii (to_string (ss_version s)) @ [0x0A] @ ascii ''body_sha256='' @ ss_body_sha256 s @ [0x0A]"

fun state_loop :: "bytes list \<Rightarrow> saved_state \<Rightarrow> nat \<Rightarrow> (saved_state \<times> nat) option" where
  "state_loop [] s seen = Some (s, seen)"
| "state_loop (line # ls) s seen =
     (if 0x3D \<notin> set line then None
      else let key = takeWhile (\<lambda>c. c \<noteq> 0x3D) line; v = drop 1 (dropWhile (\<lambda>c. c \<noteq> 0x3D) line)
           in if key = ascii ''policy_id'' then state_loop ls (s\<lparr>ss_policy_id := v\<rparr>) (seen + 1)
              else if key = ascii ''version'' then
                (case plain_decimal uint64_greatest v of None \<Rightarrow> None | Some n \<Rightarrow> state_loop ls (s\<lparr>ss_version := n\<rparr>) (seen + 1))
              else if key = ascii ''body_sha256'' then state_loop ls (s\<lparr>ss_body_sha256 := v\<rparr>) (seen + 1)
              else None)"

definition read_state :: "bytes \<Rightarrow> saved_state option" where
  "read_state content =
     (case getlines [] content of
        [] \<Rightarrow> None
      | magic # ls \<Rightarrow>
          if 4096 < length content \<or> magic \<noteq> ascii ''panopticon-policy-state 1'' then None
          else case state_loop ls \<lparr>ss_policy_id = [], ss_version = 0, ss_body_sha256 = []\<rparr> 0 of
                 None \<Rightarrow> None
               | Some (s, seen) \<Rightarrow>
                   if seen = 3 \<and> is_valid_identifier (ss_policy_id s) \<and> 0 < ss_version s \<and> lower_hex_text (ss_body_sha256 s) 64
                   then Some s else None)"

section \<open>The store\<close>

record policy_change =
  pc_outcome :: string
  pc_reason :: string
  pc_policy_id :: bytes
  pc_version :: nat
  pc_previous_version :: "nat option"
  pc_key_id :: bytes
  pc_rules :: nat
  pc_indicators :: nat
  pc_expires_unix :: nat
  pc_detail :: bytes

record policy_store_options =
  so_policy_path :: string
  so_host_id :: bytes
  so_clock_skew_seconds :: int
  so_maximum_file_bytes :: nat
  so_limits :: policy_limits

record policy_store =
  st_options :: policy_store_options
  st_state_file :: "bytes option"
  st_keys :: "command_keyring option"
  st_keys_error :: string
  st_keys_fingerprint :: bytes
  st_saved :: "saved_state option"
  st_saved_unreadable :: bool
  st_active :: "policy_bundle option"
  st_file :: "int \<times> int \<times> int \<times> u64"
  st_last_file_digest :: string
  st_file_missing :: bool
  st_expired_reported :: bool
  st_refused_reason :: bytes
  st_state_write_error :: string

text \<open>\<open>readable\<close> tells whether the record of the accepted version can be read when the process starts.\<close>

definition policy_store_new :: "policy_store_options \<Rightarrow> bool \<Rightarrow> bytes option \<Rightarrow> policy_store" where
  "policy_store_new opts readable state_file =
     (let saved = (case state_file of None \<Rightarrow> None | Some content \<Rightarrow> if readable then read_state content else None)
      in \<lparr>st_options = opts, st_state_file = state_file, st_keys = None, st_keys_error = [], st_keys_fingerprint = [], st_saved = saved,
          st_saved_unreadable = (state_file \<noteq> None \<and> saved = None), st_active = None, st_file = (- 1, - 1, - 1, 0),
          st_last_file_digest = [], st_file_missing = False, st_expired_reported = False, st_refused_reason = [],
          st_state_write_error = []\<rparr>)"

text \<open>
  One look at the host: the key file for a first load and for a refresh, the policy file, and what becomes of the record when it is
  written: replaced, kept, or replaced without certainty that it is durable.
\<close>

record policy_stat =
  fs_size :: int
  fs_mtime_ns :: int
  fs_ctime_ns :: int
  fs_inode :: u64
  fs_mtime_sec :: int
  fs_ctime_sec :: int

datatype state_io = State_written | State_failed string | State_not_synced string

record policy_view =
  vw_key_file :: key_file
  vw_key_loaded :: "file_identity option"
  vw_key_info :: "(file_identity \<times> int \<times> int) option"
  vw_key_now :: int
  vw_stat :: "policy_stat option"
  vw_untrusted :: string
  vw_content :: "bytes option"
  vw_state_io :: state_io

definition describe_policy :: "policy_bundle \<Rightarrow> bytes" where
  "describe_policy b = ascii ''policy '' @ ph_policy_id (pb_header b) @ ascii '' version '' @ ascii (to_string (ph_version (pb_header b)))"

definition no_change :: policy_change where
  "no_change = \<lparr>pc_outcome = [], pc_reason = [], pc_policy_id = [], pc_version = 0, pc_previous_version = None, pc_key_id = [],
     pc_rules = 0, pc_indicators = 0, pc_expires_unix = 0, pc_detail = []\<rparr>"

definition about :: "policy_bundle \<Rightarrow> policy_change \<Rightarrow> policy_change" where
  "about b c = c\<lparr>pc_policy_id := ph_policy_id (pb_header b), pc_version := ph_version (pb_header b), pc_key_id := ph_key_id (pb_header b),
     pc_rules := length (pe_rules (pb_engine b)), pc_indicators := ioc_count (pb_engine b), pc_expires_unix := ph_expires_unix (pb_header b)\<rparr>"

definition rejected :: "string \<Rightarrow> bytes \<Rightarrow> policy_bundle option \<Rightarrow> policy_store \<Rightarrow> policy_change" where
  "rejected reason detail candidate s =
     (let c = no_change\<lparr>pc_outcome := ''rejected'', pc_reason := reason\<rparr>;
          c1 = (case candidate of None \<Rightarrow> c | Some b \<Rightarrow> about b c)
      in case st_active s of
           Some a \<Rightarrow> c1\<lparr>pc_previous_version := Some (ph_version (pb_header a)),
                        pc_detail := detail @ ascii ''; '' @ describe_policy a @ ascii '' stays in force''\<rparr>
         | None \<Rightarrow> c1\<lparr>pc_detail := detail @ ascii ''; no policy is in force''\<rparr>)"

definition about_active :: "string \<Rightarrow> string \<Rightarrow> bytes \<Rightarrow> policy_bundle \<Rightarrow> policy_change" where
  "about_active outcome reason detail a = (about a no_change)\<lparr>pc_outcome := outcome, pc_reason := reason, pc_detail := detail\<rparr>"

subsection \<open>Deciding about a file\<close>

definition refuse_policy :: "string \<Rightarrow> bytes \<Rightarrow> policy_bundle option \<Rightarrow> policy_store \<Rightarrow> policy_change option \<times> policy_store" where
  "refuse_policy reason detail candidate s =
     (Some (rejected reason detail candidate s), s\<lparr>st_refused_reason := ascii reason @ ascii '': '' @ detail\<rparr>)"

definition refuse_file :: "string \<Rightarrow> bytes \<Rightarrow> policy_store \<Rightarrow> policy_change option \<times> policy_store" where
  "refuse_file reason detail s =
     (if st_last_file_digest s = reason then (None, s) else refuse_policy reason detail None (s\<lparr>st_last_file_digest := reason\<rparr>))"

text \<open>The reasons to refuse a readable policy, in the order of the code.\<close>

definition authority_refusal :: "verifier \<Rightarrow> int \<Rightarrow> policy_bundle \<Rightarrow> policy_store \<Rightarrow> (string \<times> bytes) option" where
  "authority_refusal verify_raw now b s =
     (let h = pb_header b
      in case st_keys s of
           None \<Rightarrow> Some (''no_keys'', if st_keys_error s = [] then ascii ''no policy signing key is pinned'' else ascii (st_keys_error s))
         | Some ring \<Rightarrow>
             (case keyring_verify verify_raw ring (ph_key_id h) (policy_signing_input h (pb_body_sha256 b)) (ph_signature h) of
                Unknown_key \<Rightarrow>
                  Some (''unknown_key'', ascii ''the policy is signed with key '' @ ph_key_id h @ ascii '', which this endpoint does not pin'')
              | Valid \<Rightarrow>
                  if ph_scope h \<noteq> ascii ''all'' \<and> ph_scope h \<noteq> ascii ''host:'' @ so_host_id (st_options s)
                  then Some (''out_of_scope'', ascii ''the policy is for '' @ ph_scope h @ ascii '', not this host'')
                  else if now + so_clock_skew_seconds (st_options s) < int (ph_issued_unix h)
                  then Some (''not_yet_valid'', ascii ''the policy is issued at unix '' @ ascii (to_string (ph_issued_unix h)) @
                         ascii '' s, later than now ('' @ number_text now @ ascii '' s) plus the allowed clock skew'')
                  else if int (ph_expires_unix h) \<le> now
                  then Some (''already_expired'', ascii ''the policy expired at unix '' @ ascii (to_string (ph_expires_unix h)) @ ascii '' s'')
                  else None
              | _ \<Rightarrow> Some (''bad_signature'', ascii ''the signature does not match the policy'')))"

definition already_active :: "policy_bundle \<Rightarrow> policy_store \<Rightarrow> bool" where
  "already_active b s \<longleftrightarrow>
     (case st_active s of
        None \<Rightarrow> False
      | Some a \<Rightarrow> ph_version (pb_header a) = ph_version (pb_header b) \<and> pb_body_sha256 a = pb_body_sha256 b \<and>
          ph_policy_id (pb_header a) = ph_policy_id (pb_header b))"

definition rollback_refusal :: "policy_bundle \<Rightarrow> policy_store \<Rightarrow> bytes option" where
  "rollback_refusal b s =
     (case st_saved s of
        None \<Rightarrow> None
      | Some saved \<Rightarrow>
          if ph_version (pb_header b) < ss_version saved
          then Some (ascii ''version '' @ ascii (to_string (ph_version (pb_header b))) @ ascii '' is older than version '' @
                 ascii (to_string (ss_version saved)) @ ascii '' already accepted here'')
          else if ph_version (pb_header b) = ss_version saved \<and>
                  (pb_body_sha256 b \<noteq> ss_body_sha256 saved \<or> ph_policy_id (pb_header b) \<noteq> ss_policy_id saved)
          then Some (ascii ''version '' @ ascii (to_string (ph_version (pb_header b))) @ ascii '' was already accepted here with different content'')
          else None)"

definition load_reason :: "policy_bundle \<Rightarrow> policy_store \<Rightarrow> string" where
  "load_reason b s =
     (case st_saved s of
        Some saved \<Rightarrow> if ph_version (pb_header b) = ss_version saved then ''resumed'' else ''updated''
      | None \<Rightarrow> if st_saved_unreadable s then ''state_unreadable'' else ''no_previous_state'')"

definition load_detail :: "string \<Rightarrow> policy_store \<Rightarrow> bytes" where
  "load_detail reason s =
     (if reason = ''resumed'' then ascii ''the accepted policy is in force again after a restart''
      else if reason = ''updated'' then ascii ''replaces version '' @ ascii (to_string (ss_version (the (st_saved s))))
      else if reason = ''state_unreadable''
      then ascii ''the record of the previously accepted version could not be read, so rollback could not be checked''
      else ascii ''no previously accepted version is recorded on this endpoint (first policy, or the record was removed)'')"

definition saved_of :: "policy_bundle \<Rightarrow> saved_state" where
  "saved_of b = \<lparr>ss_policy_id = ph_policy_id (pb_header b), ss_version = ph_version (pb_header b), ss_body_sha256 = pb_body_sha256 b\<rparr>"

text \<open>Recording the accepted version; the error when that was not certain.\<close>

definition write_state :: "state_io \<Rightarrow> policy_bundle \<Rightarrow> policy_store \<Rightarrow> string \<times> policy_store" where
  "write_state io b s =
     (let content = policy_state_text (saved_of b)
      in case io of
           State_written \<Rightarrow> ([], s\<lparr>st_state_file := Some content, st_state_write_error := []\<rparr>)
         | State_failed err \<Rightarrow> (err, s\<lparr>st_state_write_error := err\<rparr>)
         | State_not_synced err \<Rightarrow> (err, s\<lparr>st_state_file := Some content, st_state_write_error := err\<rparr>))"

definition load_policy :: "state_io \<Rightarrow> policy_bundle \<Rightarrow> policy_store \<Rightarrow> policy_change \<times> policy_store" where
  "load_policy io b s =
     (let reason = load_reason b s;
          c = (about b no_change)\<lparr>pc_outcome := ''loaded'', pc_reason := reason, pc_previous_version := map_option ss_version (st_saved s),
                pc_detail := load_detail reason s\<rparr>;
          (c1, s1) = (if reason = ''resumed'' then (c, s)
                      else case write_state io b s of
                             (err, s') \<Rightarrow>
                               (if io = State_written then c
                                else c\<lparr>pc_detail := pc_detail c @ ascii ''; the accepted version could not be recorded ('' @ ascii err @
                                       ascii ''), so a later rollback would not be detected''\<rparr>, s'))
      in (c1, s1\<lparr>st_saved := Some (saved_of b), st_saved_unreadable := False, st_active := Some b, st_expired_reported := False,
                 st_refused_reason := []\<rparr>))"

definition decide_bundle :: "verifier \<Rightarrow> int \<Rightarrow> state_io \<Rightarrow> policy_bundle \<Rightarrow> policy_store \<Rightarrow> policy_change option \<times> policy_store" where
  "decide_bundle verify_raw now io b s =
     (case authority_refusal verify_raw now b s of
        Some (reason, detail) \<Rightarrow> refuse_policy reason detail (Some b) s
      | None \<Rightarrow>
          if already_active b s then (None, s\<lparr>st_refused_reason := []\<rparr>)
          else case rollback_refusal b s of
                 Some detail \<Rightarrow> refuse_policy ''rollback'' detail (Some b) s
               | None \<Rightarrow> (case load_policy io b s of (c, s') \<Rightarrow> (Some c, s')))"

definition consider_file :: "verifier \<Rightarrow> policy_view \<Rightarrow> int \<Rightarrow> bool \<Rightarrow> policy_store \<Rightarrow> policy_change option \<times> policy_store" where
  "consider_file verify_raw view now force s =
     (if vw_untrusted view \<noteq> []
      then refuse_file ''untrusted_file'' (ascii ''the policy file is not trustworthy: '' @ ascii (vw_untrusted view)) s
      else case vw_content view of
             None \<Rightarrow> refuse_file ''unreadable'' (ascii ''the policy file could not be read'') s
           | Some content \<Rightarrow>
               if so_maximum_file_bytes (st_options s) < length content
               then refuse_file ''too_large'' (ascii ''the policy file is larger than '' @
                      ascii (to_string (so_maximum_file_bytes (st_options s))) @ ascii '' bytes'') s
               else let digest = sha256_hex content
                    in if digest = st_last_file_digest s \<and> \<not> force then (None, s)
                       else let s1 = s\<lparr>st_last_file_digest := digest\<rparr>
                            in case parse_policy_bundle content (so_limits (st_options s)) of
                                 Inl e \<Rightarrow> refuse_policy ''malformed'' (ascii (message e)) None s1
                               | Inr b \<Rightarrow> decide_bundle verify_raw now (vw_state_io view) b s1)"

subsection \<open>Refreshing\<close>

definition refresh_keys :: "verifier \<Rightarrow> policy_view \<Rightarrow> policy_store \<Rightarrow> policy_store" where
  "refresh_keys verify_raw view s =
     (case st_keys s of
        None \<Rightarrow>
          (case keyring_load verify_raw ''policy signing key file'' (vw_key_file view) (vw_key_loaded view) of
             Inr ring \<Rightarrow> s\<lparr>st_keys := Some ring, st_keys_error := []\<rparr>
           | Inl e \<Rightarrow> s\<lparr>st_keys_error := message e\<rparr>)
      | Some ring \<Rightarrow>
          let ring' = keyring_refresh verify_raw (vw_key_info view) (vw_key_now view) (vw_key_file view) ring
          in s\<lparr>st_keys := Some ring', st_keys_error := kr_last_error ring'\<rparr>)"

definition fingerprint :: "policy_store \<Rightarrow> bytes" where
  "fingerprint s = (case st_keys s of None \<Rightarrow> [] | Some ring \<Rightarrow> concat (map (\<lambda>i. i @ ascii '','') (key_ids ring)))"

definition revoke :: "policy_store \<Rightarrow> policy_change list \<times> policy_store" where
  "revoke s =
     (case (st_active s, st_keys s) of
        (Some a, Some ring) \<Rightarrow>
          if st_keys_error s = [] \<and> ph_key_id (pb_header a) \<notin> set (key_ids ring)
          then ([about_active ''removed'' ''key_revoked''
                   (describe_policy a @ ascii '' is signed with key '' @ ph_key_id (pb_header a) @
                    ascii '', which this endpoint no longer pins; it is out of force and makes no decisions until a policy signed by a pinned key is in place'') a],
                s\<lparr>st_refused_reason := ascii ''key_revoked: key '' @ ph_key_id (pb_header a) @ ascii '' is no longer pinned'', st_active := None\<rparr>)
          else ([], s)
      | _ \<Rightarrow> ([], s))"

definition file_gone :: "policy_store \<Rightarrow> policy_change list \<times> policy_store" where
  "file_gone s =
     (if st_file_missing s then ([], s)
      else let s1 = s\<lparr>st_file_missing := True, st_file := (- 1, - 1, - 1, 0), st_last_file_digest := []\<rparr>;
               missing = ascii ''the policy file '' @ ascii (so_policy_path (st_options s)) @ ascii '' is missing''
           in case st_active s of
                Some a \<Rightarrow> ([about_active ''removed'' ''file_missing'' (missing @ ascii ''; '' @ describe_policy a @ ascii '' stays in force'') a], s1)
              | None \<Rightarrow>
                  let s2 = s1\<lparr>st_refused_reason := ascii ''file_missing: '' @ missing\<rparr>
                  in ([rejected ''file_missing'' missing None s2], s2))"

definition file_seen :: "verifier \<Rightarrow> policy_view \<Rightarrow> int \<Rightarrow> bool \<Rightarrow> policy_stat \<Rightarrow> policy_store \<Rightarrow> policy_change list \<times> policy_store" where
  "file_seen verify_raw view now force i s =
     (let s1 = s\<lparr>st_file_missing := False\<rparr>;
          ident = (fs_size i, fs_mtime_ns i, fs_ctime_ns i, fs_inode i);
          racy = (now - 1 \<le> fs_mtime_sec i \<or> now - 1 \<le> fs_ctime_sec i)
      in if ident \<noteq> st_file s \<or> racy \<or> force
         then (case consider_file verify_raw view now force (s1\<lparr>st_file := ident\<rparr>) of
                 (None, s2) \<Rightarrow> ([], s2)
               | (Some c, s2) \<Rightarrow> ([c], s2))
         else ([], s1))"

definition expire :: "int \<Rightarrow> policy_store \<Rightarrow> policy_change list \<times> policy_store" where
  "expire now s =
     (case st_active s of
        Some a \<Rightarrow>
          if int (ph_expires_unix (pb_header a)) \<le> now \<and> \<not> st_expired_reported s
          then ([about_active ''expired'' ''expired''
                   (describe_policy a @ ascii '' expired at unix '' @ ascii (to_string (ph_expires_unix (pb_header a))) @
                    ascii '' s; it makes no decisions until a newer valid policy is in place'') a],
                s\<lparr>st_expired_reported := True\<rparr>)
          else ([], s)
      | None \<Rightarrow> ([], s))"

definition policy_refresh :: "verifier \<Rightarrow> policy_view \<Rightarrow> int \<Rightarrow> policy_store \<Rightarrow> policy_change list \<times> policy_store" where
  "policy_refresh verify_raw view now s =
     (let s1 = refresh_keys verify_raw view s;
          keys_changed = (fingerprint s1 \<noteq> st_keys_fingerprint s1);
          (revocations, s2) = revoke (s1\<lparr>st_keys_fingerprint := fingerprint s1\<rparr>);
          (decisions, s3) = (case vw_stat view of
                               None \<Rightarrow> file_gone s2
                             | Some i \<Rightarrow> file_seen verify_raw view now (keys_changed \<and> revocations = []) i s2);
          (expiries, s4) = expire now s3
      in (revocations @ decisions @ expiries, s4))"

definition policy_active :: "policy_store \<Rightarrow> int \<Rightarrow> policy_bundle option" where
  "policy_active s now =
     (case st_active s of Some a \<Rightarrow> if now < int (ph_expires_unix (pb_header a)) then Some a else None | None \<Rightarrow> None)"

text \<open>The state the agent reports for its policy, and why.\<close>

definition policy_health :: "policy_store \<Rightarrow> int \<Rightarrow> string \<times> bytes" where
  "policy_health s now =
     (case st_active s of
        None \<Rightarrow> (''degraded'', ascii ''no policy is in force: '' @
                   (if st_refused_reason s = [] then ascii ''none has been loaded'' else st_refused_reason s))
      | Some a \<Rightarrow>
          if int (ph_expires_unix (pb_header a)) \<le> now
          then (''degraded'', describe_policy a @ ascii '' expired at unix '' @ ascii (to_string (ph_expires_unix (pb_header a))) @
                  ascii '' s and makes no decisions'')
          else let base = describe_policy a @ ascii '' in force ('' @ ascii (to_string (length (pe_rules (pb_engine a)))) @ ascii '' rules, '' @
                     ascii (to_string (ioc_count (pb_engine a))) @ ascii '' indicators, expires at unix '' @
                     ascii (to_string (ph_expires_unix (pb_header a))) @ ascii '' s)'';
                   problems = (if st_file_missing s then ascii ''; the policy file is missing'' else []) @
                     (if st_refused_reason s = [] then [] else ascii ''; its replacement was refused: '' @ st_refused_reason s) @
                     (if st_keys_error s = [] then [] else ascii ''; '' @ ascii (st_keys_error s)) @
                     (if st_state_write_error s = [] then []
                      else ascii ''; the accepted version could not be recorded: '' @ ascii (st_state_write_error s))
               in (if problems = [] then ''active'' else ''degraded'', base @ problems))"

end
