(* ===== verification/Policy_Properties.thy ===== *)
theory Policy_Properties
  imports Policy_Store Envelope_Properties
begin

text \<open>
  What local policy guarantees: which rules fire on an event, what a policy that loads is like, and that the policy in force
  is signed by a pinned key and never older than one that was in force before.
\<close>

section \<open>Which rules fire\<close>

text \<open>Matching, without the code's loops. A path begins with a prefix at a component; a domain is listed with what stands in front of it.\<close>

definition below_path :: "bytes \<Rightarrow> bytes \<Rightarrow> bool" where
  "below_path v prefix \<longleftrightarrow> (\<exists>t. v = prefix @ t \<and> (t = [] \<or> last prefix = 0x2F \<or> hd t = 0x2F))"

definition holds_of :: "policy_engine \<Rightarrow> policy_rule \<Rightarrow> bytes \<Rightarrow> bool" where
  "holds_of e r v =
     (case ru_op r of
        Op_equals \<Rightarrow> (if ru_field r = F_sha256 then lowered v else v) = ru_value r
      | Op_prefix \<Rightarrow> if ru_field r \<in> {F_exe, F_file_path} then below_path v (ru_value r) else (\<exists>t. v = ru_value r @ t)
      | Op_suffix \<Rightarrow> (\<exists>t. v = t @ ru_value r)
      | Op_contains \<Rightarrow> (\<exists>a b. v = a @ ru_value r @ b)
      | Op_ioc \<Rightarrow>
          (case ru_field r of
             F_dest_domain \<Rightarrow> (\<exists>a d. v = a @ d \<and> (a = [] \<or> last a = 0x2E) \<and> lowered d \<in> set (pe_iocs e F_dest_domain))
           | F_sha256 \<Rightarrow> lowered v \<in> set (pe_iocs e F_sha256)
           | f \<Rightarrow> v \<in> set (pe_iocs e f)))"

definition fires :: "policy_engine \<Rightarrow> policy_input \<Rightarrow> policy_field option \<Rightarrow> policy_rule \<Rightarrow> bool" where
  "fires e i only r \<longleftrightarrow>
     only \<in> {None, Some (ru_field r)} \<and> ru_kind r \<in> {ascii ''*'', in_kind i} \<and> field_of i (ru_field r) \<noteq> [] \<and>
     holds_of e r (field_of i (ru_field r))"

definition decision_of :: "policy_engine \<Rightarrow> policy_input \<Rightarrow> policy_rule \<Rightarrow> policy_decision" where
  "decision_of e i r =
     \<lparr>de_rule_id = ru_id r, de_action = ru_action r, de_severity = ru_severity r, de_field = field_text (ru_field r),
      de_matched = take (pm_maximum_matched_bytes (pe_limits e)) (field_of i (ru_field r))\<rparr>"

lemma text_starts_with_iff: "text_starts_with v p \<longleftrightarrow> (\<exists>t. v = p @ t)"
  unfolding text_starts_with_def by (metis append_eq_conv_conj append_take_drop_id le_add1 length_append)

lemma text_ends_with_iff: "text_ends_with v p \<longleftrightarrow> (\<exists>t. v = t @ p)"
  unfolding text_ends_with_def by (metis append_eq_conv_conj append_take_drop_id diff_add_inverse2 le_add2 length_append)

lemma path_prefix_iff: "path_prefix v p \<longleftrightarrow> below_path v p"
proof
  assume "path_prefix v p"
  then obtain t where t: "v = p @ t" "length v = length p \<or> last p = 0x2F \<or> v ! length p = 0x2F"
    by (auto simp: path_prefix_def text_starts_with_iff)
  then have "t = [] \<or> last p = 0x2F \<or> hd t = 0x2F" by (cases t) auto
  with t(1) show "below_path v p" by (auto simp: below_path_def)
next
  assume "below_path v p"
  then obtain t where t: "v = p @ t" "t = [] \<or> last p = 0x2F \<or> hd t = 0x2F" by (auto simp: below_path_def)
  then show "path_prefix v p" by (cases t) (auto simp: path_prefix_def text_starts_with_iff)
qed

lemma occurs_iff: "occurs v p \<longleftrightarrow> (\<exists>a b. v = a @ p @ b)"
proof (induction v)
  case (Cons c cs)
  have "(\<exists>a b. c # cs = a @ p @ b) \<longleftrightarrow> (\<exists>b. c # cs = p @ b) \<or> (\<exists>a b. cs = a @ p @ b)"
    by (metis append_Cons append_Nil list.exhaust list.sel(3))
  with Cons show ?case by (simp add: text_starts_with_iff)
qed simp

lemma domain_listed_iff: "domain_listed listed v \<longleftrightarrow> (\<exists>a d. v = a @ d \<and> (a = [] \<or> last a = 0x2E) \<and> lowered d \<in> set listed)"
proof (induction listed v rule: domain_listed.induct)
  case (1 listed v)
  let ?Q = "\<lambda>v. \<exists>a d. v = a @ d \<and> (a = [] \<or> last a = 0x2E) \<and> lowered d \<in> set listed"
  have split: "v = takeWhile (\<lambda>c. c \<noteq> 0x2E) v @ dropWhile (\<lambda>c. c \<noteq> 0x2E) v" by simp
  show ?case
  proof (cases "dropWhile (\<lambda>c. c \<noteq> 0x2E) v")
    case Nil
    then have "0x2E \<notin> set v" by (auto simp: dropWhile_eq_Nil_conv)
    then have "?Q v \<longleftrightarrow> lowered v \<in> set listed" by (metis append_Nil last_in_set UnCI set_append)
    then show ?thesis unfolding domain_listed.simps [of listed v] Nil by simp
  next
    case (Cons c parent)
    then have c: "c = 0x2E" by (metis (full_types) dropWhile_eq_Cons_conv)
    let ?head = "takeWhile (\<lambda>c. c \<noteq> 0x2E) v"
    have v: "v = ?head @ 0x2E # parent" using split Cons c by metis
    have head: "0x2E \<notin> set ?head" by (auto dest: set_takeWhileD)
    have "?Q v \<longleftrightarrow> lowered v \<in> set listed \<or> ?Q parent"
    proof
      assume "?Q v"
      then obtain a d where ad: "v = a @ d" "a = [] \<or> last a = 0x2E" "lowered d \<in> set listed" by blast
      show "lowered v \<in> set listed \<or> ?Q parent"
      proof (cases "a = []")
        case False
        with ad(2) obtain a' where a': "a = a' @ [0x2E]" by (metis append_butlast_last_id)
        with ad(1) v have "?head @ 0x2E # parent = a' @ 0x2E # d" by simp
        then have "a' = ?head \<and> parent = d \<or> (\<exists>us. parent = us @ d \<and> us \<noteq> [] \<and> last us = 0x2E)"
          using head by (auto simp: append_eq_append_conv2 Cons_eq_append_conv append_eq_Cons_conv)
        then show ?thesis using ad(3) by (metis append_Nil)
      qed (use ad in simp)
    next
      assume "lowered v \<in> set listed \<or> ?Q parent"
      then show "?Q v"
      proof
        assume "?Q parent"
        then obtain a d where "parent = a @ d" "a = [] \<or> last a = 0x2E" "lowered d \<in> set listed" by blast
        then show ?thesis by (intro exI [of _ "?head @ 0x2E # a"] exI [of _ d]) (use v in auto)
      qed (metis append_Nil)
    qed
    with 1 Cons show ?thesis by (simp add: domain_listed.simps [of listed v])
  qed
qed

lemma rule_matches_iff: "v \<noteq> [] \<Longrightarrow> rule_matches e r v \<longleftrightarrow> holds_of e r v"
  by (auto simp: rule_matches_def holds_of_def path_prefix_iff text_starts_with_iff text_ends_with_iff occurs_iff in_set_def domain_listed_iff
      split: policy_operator.split policy_field.split)

lemma decide_rules_exact:
  "length ds \<le> pm_maximum_decisions (pe_limits e) \<Longrightarrow>
   decide_rules e i only rs ds = ds @ map (decision_of e i) (take (pm_maximum_decisions (pe_limits e) - length ds) (filter (fires e i only) rs))"
proof (induction rs arbitrary: ds)
  case (Cons r rs)
  have star: "ascii ''*'' = [0x2A]" by (simp add: ascii_def)
  show ?case
  proof (cases "pm_maximum_decisions (pe_limits e) \<le> length ds")
    case False
    let ?v = "field_of i (ru_field r)"
    have f: "fires e i only r \<longleftrightarrow> \<not> (only \<noteq> None \<and> ru_field r \<noteq> the only) \<and> \<not> (ru_kind r \<noteq> [0x2A] \<and> ru_kind r \<noteq> in_kind i) \<and>
        \<not> (?v = [] \<or> \<not> rule_matches e r ?v)"
      using rule_matches_iff [of ?v e r] by (cases only) (auto simp: fires_def star)
    show ?thesis
    proof (cases "fires e i only r")
      case True
      with f False Cons show ?thesis
        by (auto simp: Let_def decision_of_def take_Cons' Suc_diff_Suc)
    next
      case nofire: False
      with f False Cons show ?thesis by (auto simp: Let_def)
    qed
  qed (use Cons.prems in simp)
qed simp

text \<open>
  C15. What a policy says of an event: nothing when its executable lies below an allowed path, and otherwise one decision for each of the
  first rules that fire, in their order and up to the limit. A path prefix ends at a path component and a listed domain covers its
  subdomains.
\<close>

theorem evaluate_exact:
  "evaluate e i only =
     (if list_ex (below_path (in_exe i)) (pe_allow_exe e) \<and> in_exe i \<noteq> [] then []
      else map (decision_of e i) (take (pm_maximum_decisions (pe_limits e)) (filter (fires e i only) (pe_rules e))))"
proof -
  have "list_ex (\<lambda>p. in_exe i \<noteq> [] \<and> path_prefix (in_exe i) p) (pe_allow_exe e) \<longleftrightarrow>
      list_ex (below_path (in_exe i)) (pe_allow_exe e) \<and> in_exe i \<noteq> []"
    by (auto simp: list_ex_iff path_prefix_iff)
  then show ?thesis by (simp add: evaluate_def decide_rules_exact)
qed

section \<open>Policies that load\<close>

definition rule_ok :: "policy_rule \<Rightarrow> bool" where
  "rule_ok r \<longleftrightarrow> plain_identifier (ru_id r) \<and> plain_identifier (ru_kind r) \<and> (ru_op r = Op_ioc \<longleftrightarrow> ru_value r = []) \<and>
     (ru_field r = F_sha256 \<longrightarrow> lowered (ru_value r) = ru_value r)"

definition iocs_ok :: "(policy_field \<Rightarrow> bytes list) \<Rightarrow> bool" where
  "iocs_ok iocs \<longleftrightarrow> (\<forall>f. distinct (iocs f) \<and> [] \<notin> set (iocs f)) \<and> iocs F_cmdline = [] \<and>
     list_all (\<lambda>v. lower_hex_text v 64) (iocs F_sha256) \<and> list_all (\<lambda>v. lowered v = v) (iocs F_dest_domain)"

definition engine_ok :: "policy_engine \<Rightarrow> bool" where
  "engine_ok e \<longleftrightarrow> distinct (map ru_id (pe_rules e)) \<and> length (pe_rules e) \<le> pm_maximum_rules (pe_limits e) \<and>
     ioc_count e \<le> pm_maximum_iocs (pe_limits e) \<and> list_all rule_ok (pe_rules e) \<and> iocs_ok (pe_iocs e) \<and>
     list_all (\<lambda>p. p \<noteq> [] \<and> hd p = 0x2F) (pe_allow_exe e)"

lemma lowered_idem [simp]: "lowered (lowered v) = lowered v"
proof -
  have "\<not> (0x41 \<le> c + 0x20 \<and> c + 0x20 \<le> (0x5A :: byte))" if "0x41 \<le> c" "c \<le> 0x5A" for c
    using that by (simp add: word_le_nat_alt unat_word_ariths)
  then show ?thesis by (auto simp: lowered_def)
qed

lemma lowered_Nil [simp]: "lowered v = [] \<longleftrightarrow> v = []" "[] = lowered v \<longleftrightarrow> v = []"
  by (auto simp: lowered_def)

lemma next_token_nonempty: "next_token rest = Some (t, r) \<Longrightarrow> t \<noteq> []"
  by (auto simp: next_token_def skip_spaces_def Let_def split: if_splits) (metis (mono_tags, lifting) dropWhile_eq_Nil_conv hd_dropWhile takeWhile_eq_Nil_iff)

lemma next_tokens_nonempty: "next_tokens n rest = Some (ts, r) \<Longrightarrow> [] \<notin> set ts"
proof (induction n arbitrary: rest ts)
  case (Suc n)
  then show ?case using next_token_nonempty by (fastforce split: option.splits)
qed simp

lemma add_rule_ok:
  assumes "engine_ok e" "rule_ok r" "ru_id r \<notin> ru_id ` set (pe_rules e)" "length (pe_rules e) < pm_maximum_rules (pe_limits e)"
  shows "engine_ok (e\<lparr>pe_rules := pe_rules e @ [r]\<rparr>)"
  using assms by (auto simp: engine_ok_def ioc_count_def)

lemma parse_rule_ok: "parse_rule rest e = Inr e' \<Longrightarrow> engine_ok e \<Longrightarrow> engine_ok e' \<and> pe_limits e' = pe_limits e"
  unfolding parse_rule_def Let_def by (auto simp: rule_ok_def intro!: add_rule_ok split: option.splits list.splits if_splits)

lemma ioc_count_insert:
  "ioc_count (e\<lparr>pe_iocs := (pe_iocs e)(f := List.insert v (pe_iocs e f))\<rparr>) \<le> Suc (ioc_count e)"
  by (cases f) (simp_all add: ioc_count_def field_names_def List.insert_def)

lemma parse_ioc_ok:
  assumes "parse_ioc rest e = Inr e'" "engine_ok e"
  shows "engine_ok e' \<and> pe_limits e' = pe_limits e"
proof -
  from assms(1) obtain name v r f where t: "next_tokens 2 rest = Some ([name, v], r)" "f \<noteq> F_cmdline"
      "ioc_count e < pm_maximum_iocs (pe_limits e)" "f = F_sha256 \<Longrightarrow> lower_hex_text (lowered v) 64"
    and e': "e' = e\<lparr>pe_iocs := (pe_iocs e)(f := List.insert (if f = F_sha256 \<or> f = F_dest_domain then lowered v else v) (pe_iocs e f))\<rparr>"
    unfolding parse_ioc_def Let_def by (auto split: option.splits list.splits if_splits)
  have v: "v \<noteq> []" using next_tokens_nonempty [OF t(1)] by auto
  let ?v = "if f = F_sha256 \<or> f = F_dest_domain then lowered v else v"
  have "iocs_ok (pe_iocs e')"
    using assms(2) t(2,4) v unfolding e' by (cases f) (auto simp: engine_ok_def iocs_ok_def list_all_iff)
  moreover have "ioc_count e' \<le> pm_maximum_iocs (pe_limits e')"
    using ioc_count_insert [of e f ?v] t(3) unfolding e' by simp
  ultimately show ?thesis using assms(2) unfolding e' by (simp add: engine_ok_def)
qed

lemma parse_allow_ok:
  assumes "parse_allow rest e = Inr e'" "engine_ok e"
  shows "engine_ok e' \<and> pe_limits e' = pe_limits e"
proof -
  from assms(1) obtain what p r where t: "next_tokens 2 rest = Some ([what, p], r)" "hd p = 0x2F"
    and e': "e' = e\<lparr>pe_allow_exe := pe_allow_exe e @ [p]\<rparr>"
    unfolding parse_allow_def by (auto split: option.splits list.splits if_splits)
  have "p \<noteq> []" using next_tokens_nonempty [OF t(1)] by auto
  with t(2) assms(2) show ?thesis unfolding e' by (simp add: engine_ok_def ioc_count_def)
qed

lemma parse_line_ok: "parse_line l e = Inr e' \<Longrightarrow> engine_ok e \<Longrightarrow> engine_ok e' \<and> pe_limits e' = pe_limits e"
  unfolding parse_line_def Let_def
  by (auto split: option.splits if_splits dest: parse_rule_ok parse_ioc_ok parse_allow_ok)

lemma parse_lines_ok: "parse_lines n ls e = Inr e' \<Longrightarrow> engine_ok e \<Longrightarrow> engine_ok e' \<and> pe_limits e' = pe_limits e"
proof (induction ls arbitrary: n e)
  case (Cons l ls)
  from Cons.prems(1) obtain e1 where e1: "parse_line l e = Inr e1" "parse_lines (n + 1) ls e1 = Inr e'"
    by (auto split: sum.splits)
  from parse_line_ok [OF e1(1) Cons.prems(2)] Cons.IH [OF e1(2)] show ?case by simp
qed simp

text \<open>
  C16. A policy loads as a whole or not at all, and one that loads is well-formed: rule ids are distinct, counts are within the
  limits, a rule has a value exactly when its operator uses one, hashes and domains are stored in the form they are
  compared in, allowed paths are absolute, and no indicator is dead: each is on a field some rule consults.
\<close>

theorem parse_policy_well_formed:
  assumes "parse_policy str limits = Inr e"
  shows "engine_ok e \<and> pe_limits e = limits \<and> (\<forall>f. pe_iocs e f \<noteq> [] \<longrightarrow> (\<exists>r. r \<in> set (pe_rules e) \<and> ru_op r = Op_ioc \<and> ru_field r = f))"
proof -
  let ?e = "\<lparr>pe_limits = limits, pe_rules = [], pe_iocs = (\<lambda>_. []), pe_allow_exe = []\<rparr>"
  from assms have l: "parse_lines 0 (policy_lines str) ?e = Inr e" "filter (dead_indicators e) (map snd field_names) = []"
    by (auto simp: parse_policy_def split: sum.splits list.splits)
  have "engine_ok ?e" by (simp add: engine_ok_def ioc_count_def iocs_ok_def field_names_def)
  from parse_lines_ok [OF l(1) this] have "engine_ok e \<and> pe_limits e = limits" by simp
  moreover have "\<not> dead_indicators e f" for f
  proof -
    have "f \<in> set (map snd field_names)" by (cases f) (simp_all add: field_names_def)
    then show ?thesis using l(2) unfolding filter_empty_conv by blast
  qed
  ultimately show ?thesis by (auto simp: dead_indicators_def list_ex_iff)
qed

section \<open>The record of the accepted version\<close>

definition saved_ok :: "saved_state \<Rightarrow> bool" where
  "saved_ok sv \<longleftrightarrow> is_valid_identifier (ss_policy_id sv) \<and> 0 < ss_version sv \<and> ss_version sv \<le> int64_greatest \<and> lower_hex_text (ss_body_sha256 sv) 64"

lemma plain_decimal_to_string:
  assumes "n \<le> greatest" "n < 10 ^ 19"
  shows "plain_decimal greatest (ascii (to_string n)) = Some n"
proof -
  have len: "length (to_string n) \<le> 19" using assms(2) by (intro length_to_string) simp_all
  have "\<not> (1 < length (to_string n) \<and> hd (ascii (to_string n)) = 0x30)"
  proof (cases "n = 0")
    case True
    then show ?thesis by (simp add: to_string.simps)
  next
    case False
    then show ?thesis using to_string_bytes(3) [of n] by simp
  qed
  moreover have "list_all is_digit_byte (ascii (to_string n))" "digits_number (ascii (to_string n)) = n"
    using to_string_bytes(1,2) [of n] by (simp_all add: is_digit_byte_def decimal_byte_def digits_number_def decimal_value_def list_all_iff)
  ultimately show ?thesis
    using assms(1) len to_string_nonempty [of n] by (simp add: plain_decimal_def ascii_def)
qed

lemma identifier_plain: "is_valid_identifier i \<Longrightarrow> 0x0A \<notin> set i" "lower_hex_text d n \<Longrightarrow> 0x0A \<notin> set d" "0x0A \<notin> set (ascii (to_string v))"
proof -
  show "is_valid_identifier i \<Longrightarrow> 0x0A \<notin> set i" by (auto simp: is_valid_identifier_def list_all_iff alnum_def)
  show "lower_hex_text d n \<Longrightarrow> 0x0A \<notin> set d" by (auto simp: lower_hex_text_def list_all_iff)
  show "0x0A \<notin> set (ascii (to_string v))" using to_string_bytes(1) [of v] by (auto simp: list_all_iff decimal_byte_def)
qed

lemma read_state_text:
  assumes "saved_ok sv"
  shows "read_state (policy_state_text sv) = Some sv"
proof -
  let ?n = "ss_version sv"
  have n: "?n \<le> uint64_greatest" "?n < 10 ^ 19" using assms by (simp_all add: saved_ok_def uint64_greatest_def int64_greatest_def)
  have lines: "getlines [] (policy_state_text sv) =
    [ascii ''panopticon-policy-state 1'', ascii ''policy_id='' @ ss_policy_id sv, ascii ''version='' @ ascii (to_string ?n),
     ascii ''body_sha256='' @ ss_body_sha256 sv]"
  proof -
    have line: "getlines [] (l @ [0x0A] @ s) = l # getlines [] s" if "0x0A \<notin> set l" for l s
      using getlines_step [OF that, of "[]" s] by simp
    have parts: "policy_state_text sv = ascii ''panopticon-policy-state 1'' @ [0x0A] @ (ascii ''policy_id='' @ ss_policy_id sv) @ [0x0A] @
        (ascii ''version='' @ ascii (to_string ?n)) @ [0x0A] @ (ascii ''body_sha256='' @ ss_body_sha256 sv) @ [0x0A] @ []"
      by (simp add: policy_state_text_def)
    have "0x0A \<notin> set (ascii ''panopticon-policy-state 1'')" "0x0A \<notin> set (ascii ''policy_id='' @ ss_policy_id sv)"
        "0x0A \<notin> set (ascii ''version='' @ ascii (to_string ?n))" "0x0A \<notin> set (ascii ''body_sha256='' @ ss_body_sha256 sv)"
      using assms identifier_plain by (auto simp: saved_ok_def ascii_def [of "''panopticon-policy-state 1''"] ascii_def [of "''policy_id=''"]
          ascii_def [of "''version=''"] ascii_def [of "''body_sha256=''"])
    then show ?thesis unfolding parts by (simp only: line getlines.simps if_True simp_thms)
  qed
  have "length (policy_state_text sv) \<le> 4096"
    using assms length_to_string [of 19 ?n] n by (simp add: policy_state_text_def saved_ok_def is_valid_identifier_def lower_hex_text_def ascii_def)
  moreover have "state_loop [ascii ''policy_id='' @ ss_policy_id sv, ascii ''version='' @ ascii (to_string ?n), ascii ''body_sha256='' @ ss_body_sha256 sv]
      \<lparr>ss_policy_id = [], ss_version = 0, ss_body_sha256 = []\<rparr> 0 = Some (sv, 3)"
    using plain_decimal_to_string [OF n] by (simp add: ascii_def [of "''policy_id=''"] ascii_def [of "''version=''"] ascii_def [of "''body_sha256=''"]
        ascii_def [of "''policy_id''"] ascii_def [of "''version''"] ascii_def [of "''body_sha256''"])
  ultimately show ?thesis using assms by (simp add: read_state_def lines saved_ok_def)
qed

section \<open>What a refresh does\<close>

text \<open>The parts of the store that decide about policies.\<close>

definition same_policy :: "policy_store \<Rightarrow> policy_store \<Rightarrow> bool" where
  "same_policy s s' \<longleftrightarrow> st_saved s' = st_saved s \<and> st_state_file s' = st_state_file s \<and> st_options s' = st_options s \<and>
     st_keys s' = st_keys s \<and> st_keys_error s' = st_keys_error s \<and> st_active s' = st_active s \<and> st_saved_unreadable s' = st_saved_unreadable s"

definition loaded :: "policy_change \<Rightarrow> bool" where
  "loaded c \<longleftrightarrow> pc_outcome c = ''loaded''"

definition state_after :: "state_io \<Rightarrow> policy_bundle \<Rightarrow> policy_store \<Rightarrow> bytes option" where
  "state_after io b s =
     (if load_reason b s = ''resumed'' then st_state_file s
      else case io of State_failed err \<Rightarrow> st_state_file s | _ \<Rightarrow> Some (policy_state_text (saved_of b)))"

text \<open>A bundle was read, passed every check, and is in force.\<close>

definition accepted :: "verifier \<Rightarrow> int \<Rightarrow> state_io \<Rightarrow> policy_bundle \<Rightarrow> policy_store \<Rightarrow> policy_store \<Rightarrow> bool" where
  "accepted verify_raw now io b s s' \<longleftrightarrow>
     (\<exists>content. parse_policy_bundle content (so_limits (st_options s)) = Inr b) \<and>
     authority_refusal verify_raw now b s = None \<and> rollback_refusal b s = None \<and>
     st_active s' = Some b \<and> st_saved s' = Some (saved_of b) \<and> st_options s' = st_options s \<and> st_keys s' = st_keys s \<and>
     st_keys_error s' = st_keys_error s \<and>
     st_state_file s' = state_after io b s"

lemma same_policy_trans: "same_policy a b \<Longrightarrow> same_policy b c \<Longrightarrow> same_policy a c"
  by (simp add: same_policy_def)

lemma same_policy_checks:
  assumes "same_policy s t"
  shows "authority_refusal verify_raw now b t = authority_refusal verify_raw now b s" "rollback_refusal b t = rollback_refusal b s"
    "already_active b t = already_active b s" "load_reason b t = load_reason b s" "state_after io b t = state_after io b s"
    "accepted verify_raw now io b t s' = accepted verify_raw now io b s s'"
proof -
  have e: "st_saved t = st_saved s" "st_state_file t = st_state_file s" "st_options t = st_options s" "st_keys t = st_keys s"
    "st_keys_error t = st_keys_error s" "st_active t = st_active s" "st_saved_unreadable t = st_saved_unreadable s"
    using assms by (simp_all add: same_policy_def)
  show "authority_refusal verify_raw now b t = authority_refusal verify_raw now b s" "rollback_refusal b t = rollback_refusal b s"
    "already_active b t = already_active b s" "load_reason b t = load_reason b s" "state_after io b t = state_after io b s"
    "accepted verify_raw now io b t s' = accepted verify_raw now io b s s'"
    unfolding accepted_def state_after_def authority_refusal_def rollback_refusal_def already_active_def load_reason_def e by (rule refl)+
qed

lemma rejected_outcome: "pc_outcome (rejected reason detail cand s) = ''rejected''"
  by (cases cand; cases "st_active s") (simp_all add: rejected_def no_change_def about_def)

lemma refuse_same: "refuse_policy reason detail cand s = (c, s') \<Longrightarrow> same_policy s s' \<and> (\<forall>x. c = Some x \<longrightarrow> \<not> loaded x)"
  by (auto simp: refuse_policy_def rejected_outcome loaded_def same_policy_def)

lemma refuse_file_same: "refuse_file reason detail s = (c, s') \<Longrightarrow> same_policy s s' \<and> (\<forall>x. c = Some x \<longrightarrow> \<not> loaded x)"
  by (auto simp: refuse_file_def same_policy_def split: if_splits dest!: refuse_same)

lemma load_policy_accepts:
  assumes "load_policy io b s = (c, s')"
  shows "loaded c" "st_active s' = Some b" "st_saved s' = Some (saved_of b)" "st_options s' = st_options s" "st_keys s' = st_keys s"
    "st_keys_error s' = st_keys_error s"
    "st_state_file s' = state_after io b s"
  using assms by (cases io; auto simp: load_policy_def write_state_def loaded_def about_def state_after_def Let_def split: if_splits)+

lemma consider_file_cases:
  assumes "consider_file verify_raw view now force s = (c, s')"
  shows "same_policy s s' \<and> (\<forall>x. c = Some x \<longrightarrow> \<not> loaded x) \<or> (\<exists>b x. accepted verify_raw now (vw_state_io view) b s s' \<and> c = Some x \<and> loaded x)"
proof (cases "vw_content view")
  case None
  with assms show ?thesis by (auto simp: consider_file_def split: if_splits dest: refuse_file_same)
next
  case (Some content)
  let ?s = "s\<lparr>st_last_file_digest := sha256_hex content\<rparr>"
  have same: "same_policy s ?s" by (simp add: same_policy_def)
  note other = same_policy_checks [OF same]
  show ?thesis
  proof (cases "parse_policy_bundle content (so_limits (st_options s))")
    case (Inl e)
    with assms Some same show ?thesis
      by (auto simp: consider_file_def Let_def split: if_splits dest!: refuse_file_same refuse_same intro: same_policy_trans)
  next
    case (Inr b)
    consider "c = None \<and> s' = s \<or> same_policy s s' \<and> (\<forall>x. c = Some x \<longrightarrow> \<not> loaded x)"
      | "decide_bundle verify_raw now (vw_state_io view) b ?s = (c, s')"
      using assms Some Inr by (auto simp: consider_file_def Let_def split: if_splits dest: refuse_file_same)
    then show ?thesis
    proof cases
      case 1
      then show ?thesis by (auto simp: same_policy_def)
    next
      case 2
      show ?thesis
      proof (cases "authority_refusal verify_raw now b s = None \<and> \<not> already_active b s \<and> rollback_refusal b s = None")
        case True
        with 2 other obtain x where x: "load_policy (vw_state_io view) b ?s = (x, s')" "c = Some x"
          by (auto simp: decide_bundle_def split: prod.splits)
        from load_policy_accepts [OF x(1)] True Inr other have "accepted verify_raw now (vw_state_io view) b ?s s' \<and> loaded x"
          by (auto simp: accepted_def)
        with x(2) other(6) show ?thesis by blast
      next
        case False
        with 2 other have "same_policy ?s s' \<and> (\<forall>x. c = Some x \<longrightarrow> \<not> loaded x)"
          by (auto simp: decide_bundle_def same_policy_def split: option.splits if_splits dest!: refuse_same)
        with same_policy_trans [OF same] show ?thesis by blast
      qed
    qed
  qed
qed

lemma file_seen_cases:
  assumes "file_seen verify_raw view now force i s = (cs, s')"
  shows "same_policy s s' \<and> \<not> list_ex loaded cs \<or> (\<exists>b. accepted verify_raw now (vw_state_io view) b s s' \<and> list_ex loaded cs)"
proof -
  let ?ident = "(fs_size i, fs_mtime_ns i, fs_ctime_ns i, fs_inode i)"
  let ?s = "s\<lparr>st_file_missing := False, st_file := ?ident\<rparr>"
  have same: "same_policy s ?s" by (simp add: same_policy_def)
  note acc = same_policy_checks(6) [OF same]
  consider "cs = []" "s' = s\<lparr>st_file_missing := False\<rparr>"
    | c where "consider_file verify_raw view now force ?s = (c, s')" "cs = (case c of None \<Rightarrow> [] | Some x \<Rightarrow> [x])"
    using assms by (auto simp: file_seen_def Let_def split: if_splits prod.splits option.splits)
  then show ?thesis
  proof cases
    case 1
    then show ?thesis by (simp add: same_policy_def)
  next
    case (2 c)
    from consider_file_cases [OF 2(1)] acc same_policy_trans [OF same] 2(2) show ?thesis
      by (auto split: option.split)
  qed
qed

lemma file_gone_same: "file_gone s = (cs, s') \<Longrightarrow> same_policy s s' \<and> \<not> list_ex loaded cs"
  by (auto simp: file_gone_def about_active_def loaded_def same_policy_def rejected_outcome Let_def split: if_splits option.splits)

lemma expire_same: "expire now s = (cs, s') \<Longrightarrow> same_policy s s' \<and> \<not> list_ex loaded cs"
  by (auto simp: expire_def about_active_def loaded_def same_policy_def split: if_splits option.splits)

lemma revoke_cases:
  "revoke s = (cs, s') \<Longrightarrow>
     st_saved s' = st_saved s \<and> st_state_file s' = st_state_file s \<and> st_options s' = st_options s \<and> st_keys s' = st_keys s \<and>
     st_keys_error s' = st_keys_error s \<and> \<not> list_ex loaded cs \<and>
     (st_active s' = None \<or> st_active s' = st_active s) \<and>
     (\<forall>a ring. st_active s' = Some a \<longrightarrow> st_keys s' = Some ring \<longrightarrow> st_keys_error s' = [] \<longrightarrow> ph_key_id (pb_header a) \<in> set (key_ids ring))"
  by (auto simp: revoke_def about_active_def loaded_def split: if_splits option.splits)

text \<open>A refresh keeps what is in force, takes it out of force, or loads another policy.\<close>

lemma policy_refresh_cases:
  assumes "policy_refresh verify_raw view now s = (cs, s')"
  shows "\<exists>s1. st_keys s1 = st_keys (refresh_keys verify_raw view s) \<and> st_keys_error s1 = st_keys_error (refresh_keys verify_raw view s) \<and>
     st_saved s1 = st_saved s \<and> st_state_file s1 = st_state_file s \<and> st_options s1 = st_options s \<and>
     (st_active s1 = None \<or> st_active s1 = st_active s) \<and>
     (\<forall>a ring. st_active s1 = Some a \<longrightarrow> st_keys s1 = Some ring \<longrightarrow> st_keys_error s1 = [] \<longrightarrow> ph_key_id (pb_header a) \<in> set (key_ids ring)) \<and>
     (same_policy s1 s' \<and> \<not> list_ex loaded cs \<or> (\<exists>b. accepted verify_raw now (vw_state_io view) b s1 s' \<and> list_ex loaded cs))"
proof -
  let ?k = "refresh_keys verify_raw view s"
  let ?k' = "?k\<lparr>st_keys_fingerprint := fingerprint ?k\<rparr>"
  obtain rs s2 where r: "revoke ?k' = (rs, s2)" by fastforce
  obtain ds s3 where d: "(case vw_stat view of None \<Rightarrow> file_gone s2
      | Some i \<Rightarrow> file_seen verify_raw view now (fingerprint ?k \<noteq> st_keys_fingerprint ?k \<and> rs = []) i s2) = (ds, s3)" by fastforce
  obtain es s4 where e: "expire now s3 = (es, s4)" by fastforce
  have out: "cs = rs @ ds @ es" "s' = s4" using assms r d e by (simp_all add: policy_refresh_def Let_def)
  have keys: "st_saved ?k = st_saved s" "st_state_file ?k = st_state_file s" "st_options ?k = st_options s" "st_active ?k = st_active s"
    by (simp_all add: refresh_keys_def Let_def split: option.split sum.split)
  have e': "same_policy s3 s4" "\<not> list_ex loaded es" using expire_same [OF e] by simp_all
  have "same_policy s2 s3 \<and> \<not> list_ex loaded ds \<or> (\<exists>b. accepted verify_raw now (vw_state_io view) b s2 s3 \<and> list_ex loaded ds)"
    using d file_gone_same file_seen_cases by (auto split: option.splits)
  moreover have "accepted verify_raw now io b s2 s3 \<Longrightarrow> accepted verify_raw now io b s2 s4" for io b
    using e'(1) by (simp add: accepted_def same_policy_def)
  moreover have "list_ex loaded cs = list_ex loaded ds" using out(1) e'(2) revoke_cases [OF r] by simp
  ultimately have "same_policy s2 s' \<and> \<not> list_ex loaded cs \<or> (\<exists>b. accepted verify_raw now (vw_state_io view) b s2 s' \<and> list_ex loaded cs)"
    using out(2) same_policy_trans [OF _ e'(1), of s2] by blast
  with revoke_cases [OF r] keys show ?thesis by (intro exI [of _ s2]) simp
qed

section \<open>Histories of a store\<close>

text \<open>Refreshes and restarts, and the policies that came into force. \<open>Restart\<close> tells whether the record can be read.\<close>

datatype policy_event = Refresh policy_view int | Restart bool

fun policy_event_step :: "verifier \<Rightarrow> policy_event \<Rightarrow> policy_store \<times> policy_bundle list \<Rightarrow> policy_store \<times> policy_bundle list" where
  "policy_event_step verify_raw (Refresh view now) (s, loads) =
     (case policy_refresh verify_raw view now s of
        (cs, s') \<Rightarrow> (s', if list_ex loaded cs then loads @ [the (st_active s')] else loads))"
| "policy_event_step verify_raw (Restart legible) (s, loads) = (policy_store_new (st_options s) legible (st_state_file s), loads)"

definition policy_run :: "verifier \<Rightarrow> policy_store_options \<Rightarrow> policy_event list \<Rightarrow> policy_store \<times> policy_bundle list" where
  "policy_run verify_raw opts events = fold (policy_event_step verify_raw) events (policy_store_new opts True None, [])"

lemma policy_run_snoc: "policy_run verify_raw opts (events @ [e]) = policy_event_step verify_raw e (policy_run verify_raw opts events)"
  by (simp add: policy_run_def)

text \<open>What a store starts with and every event keeps holds after any history of such events.\<close>

locale policy_invariant =
  fixes verify_raw :: verifier and opts :: policy_store_options and event_ok :: "policy_event \<Rightarrow> bool"
    and inv :: "policy_store \<Rightarrow> policy_bundle list \<Rightarrow> bool"
  assumes start: "inv (policy_store_new opts True None) []"
    and step: "inv s loads \<Longrightarrow> event_ok e \<Longrightarrow> policy_event_step verify_raw e (s, loads) = (s', loads') \<Longrightarrow> inv s' loads'"
begin

lemma run: "list_all event_ok events \<Longrightarrow> inv (fst (policy_run verify_raw opts events)) (snd (policy_run verify_raw opts events))"
proof (induction events rule: rev_induct)
  case Nil
  show ?case using start by (simp add: policy_run_def)
next
  case (snoc e events)
  obtain s loads where r: "policy_run verify_raw opts events = (s, loads)" by fastforce
  obtain s' loads' where st: "policy_event_step verify_raw e (s, loads) = (s', loads')" by fastforce
  from snoc r have "inv s loads" "event_ok e" by (simp_all add: list_all_append)
  from step [OF this st] r st show ?case by (simp add: policy_run_snoc)
qed

end

subsection \<open>No rollback\<close>

definition not_after :: "policy_bundle \<Rightarrow> saved_state \<Rightarrow> bool" where
  "not_after b sv \<longleftrightarrow> ph_version (pb_header b) < ss_version sv \<or> saved_of b = sv"

definition in_order :: "policy_bundle list \<Rightarrow> bool" where
  "in_order bs \<longleftrightarrow> sorted_wrt (\<lambda>a b. not_after a (saved_of b)) bs"

definition recorded :: "policy_store \<Rightarrow> policy_bundle list \<Rightarrow> bool" where
  "recorded s loads \<longleftrightarrow> in_order loads \<and>
     (case st_saved s of
        None \<Rightarrow> loads = [] \<and> st_state_file s = None
      | Some sv \<Rightarrow> saved_ok sv \<and> st_state_file s = Some (policy_state_text sv) \<and> list_all (\<lambda>b. not_after b sv) loads)"

text \<open>An event that lets the record be written and read.\<close>

fun recording :: "policy_event \<Rightarrow> bool" where
  "recording (Refresh view now) \<longleftrightarrow> vw_state_io view = State_written"
| "recording (Restart legible) \<longleftrightarrow> legible"

lemma header_of_ok:
  assumes "header_of vs = Inr h"
  shows "is_valid_identifier (ph_policy_id h)" "0 < ph_version h" "ph_version h \<le> int64_greatest" "ph_issued_unix h < ph_expires_unix h"
  using assms by (auto simp: header_of_def header_error_def split: if_splits option.splits)

lemma sha256_text_ok: "lower_hex_text (ascii (sha256_hex m)) 64"
proof -
  have "length (ascii (sha256_hex m)) = 64" using sha256_hex_form(1) by (simp add: ascii_def)
  then show ?thesis using sha256_hex_form(2) [of m] by (simp add: lower_hex_text_def lower_hex_def list_all_iff)
qed

lemma parse_bundle_ok:
  assumes "parse_policy_bundle str limits = Inr b"
  shows "saved_ok (saved_of b)"
proof -
  from assms obtain vs body where "header_of vs = Inr (pb_header b)" "pb_body_sha256 b = ascii (sha256_hex body)"
    by (auto simp: parse_policy_bundle_def header_error_def split: option.splits prod.splits if_splits sum.splits)
  then show ?thesis using header_of_ok sha256_text_ok by (simp add: saved_ok_def saved_of_def)
qed

lemma rollback_refusal_None:
  "rollback_refusal b s = None \<Longrightarrow> st_saved s = Some sv \<Longrightarrow> saved_of b = sv \<or> ss_version sv < ph_version (pb_header b)"
  by (auto simp: rollback_refusal_def saved_of_def split: if_splits)

lemma accepted_recorded:
  assumes "accepted verify_raw now State_written b s s'" "recorded s loads"
  shows "recorded s' (loads @ [b])"
proof -
  have ok: "saved_ok (saved_of b)" using assms(1) parse_bundle_ok by (auto simp: accepted_def)
  have saved: "st_saved s' = Some (saved_of b)" using assms(1) by (simp add: accepted_def)
  have mine: "not_after b (saved_of b)" by (simp add: not_after_def)
  show ?thesis
  proof (cases "st_saved s")
    case None
    with assms have "loads = []" "st_state_file s' = Some (policy_state_text (saved_of b))"
      by (auto simp: recorded_def accepted_def state_after_def load_reason_def)
    with saved ok mine show ?thesis by (simp add: recorded_def in_order_def)
  next
    case (Some sv)
    then have old: "in_order loads" "st_state_file s = Some (policy_state_text sv)" "list_all (\<lambda>a. not_after a sv) loads"
      using assms(2) by (simp_all add: recorded_def)
    have new: "saved_of b = sv \<or> ss_version sv < ph_version (pb_header b)"
      using assms(1) by (intro rollback_refusal_None [OF _ Some]) (simp add: accepted_def)
    then have "list_all (\<lambda>a. not_after a (saved_of b)) loads"
      using old(3) by (auto simp: list_all_iff not_after_def saved_of_def)
    moreover have "st_state_file s' = Some (policy_state_text (saved_of b))"
      using assms(1) Some new old(2) by (auto simp: accepted_def state_after_def load_reason_def saved_of_def split: if_splits)
    ultimately show ?thesis using saved ok mine old(1)
      by (simp add: recorded_def in_order_def sorted_wrt_append list_all_iff)
  qed
qed

lemma recorded_cong: "st_saved t = st_saved s \<Longrightarrow> st_state_file t = st_state_file s \<Longrightarrow> recorded s loads \<Longrightarrow> recorded t loads"
  by (cases "st_saved s") (auto simp: recorded_def)

lemma recorded_step:
  assumes "recorded s loads" "recording e" "policy_event_step verify_raw e (s, loads) = (s', loads')"
  shows "recorded s' loads'"
proof (cases e)
  case (Restart legible)
  with assms show ?thesis
    by (cases "st_saved s") (auto simp: recorded_def policy_store_new_def read_state_text Let_def)
next
  case (Refresh view now)
  obtain cs t where r: "policy_refresh verify_raw view now s = (cs, t)" by fastforce
  from policy_refresh_cases [OF r] obtain s1 where s1: "st_saved s1 = st_saved s" "st_state_file s1 = st_state_file s"
    "same_policy s1 t \<and> \<not> list_ex loaded cs \<or> (\<exists>b. accepted verify_raw now (vw_state_io view) b s1 t \<and> list_ex loaded cs)" by blast
  have rec: "recorded s1 loads" using recorded_cong [OF s1(1,2) assms(1)] .
  from s1(3) show ?thesis
  proof
    assume "same_policy s1 t \<and> \<not> list_ex loaded cs"
    then have "recorded t loads" "\<not> list_ex loaded cs" using rec by (auto simp: same_policy_def intro: recorded_cong)
    with assms(3) Refresh r show ?thesis by auto
  next
    assume "\<exists>b. accepted verify_raw now (vw_state_io view) b s1 t \<and> list_ex loaded cs"
    then obtain b where b: "accepted verify_raw now (vw_state_io view) b s1 t" "list_ex loaded cs" by blast
    then have "st_active t = Some b" by (simp add: accepted_def)
    with accepted_recorded [OF _ rec, of verify_raw now b t] b assms(2,3) Refresh r show ?thesis by auto
  qed
qed

interpretation version_record: policy_invariant verify_raw opts recording recorded for verify_raw opts
  by unfold_locales (simp add: policy_store_new_def recorded_def in_order_def, rule recorded_step)

text \<open>
  C14. No rollback. Through any history of refreshes and restarts in which the record of the accepted version is written and read,
  whatever files are put in place, of two policies that come into force one after the other the later one has a higher
  version, or the same version, id and content.
\<close>

theorem policy_no_rollback:
  assumes "list_all recording events" "i < j" "j < length (snd (policy_run verify_raw opts events))"
  shows "let loads = snd (policy_run verify_raw opts events); a = loads ! i; b = loads ! j
    in ph_version (pb_header a) < ph_version (pb_header b) \<or>
       ph_version (pb_header a) = ph_version (pb_header b) \<and> ph_policy_id (pb_header a) = ph_policy_id (pb_header b) \<and>
       pb_body_sha256 a = pb_body_sha256 b"
proof -
  have "in_order (snd (policy_run verify_raw opts events))"
    using version_record.run [OF assms(1), of verify_raw opts] by (simp add: recorded_def)
  from sorted_wrt_nth_less [OF this [unfolded in_order_def] assms(2,3)]
  have "not_after (snd (policy_run verify_raw opts events) ! i) (saved_of (snd (policy_run verify_raw opts events) ! j))" .
  then show ?thesis by (auto simp: Let_def not_after_def saved_of_def)
qed

subsection \<open>Authority\<close>

lemma policy_signing_input_injective:
  assumes "policy_signing_input h d = policy_signing_input h' d'"
  shows "d = d'" "ph_policy_id h = ph_policy_id h'" "ph_version h = ph_version h'" "ph_issued_unix h = ph_issued_unix h'"
    "ph_expires_unix h = ph_expires_unix h'" "ph_scope h = ph_scope h'"
proof -
  note eq = assms [unfolded policy_signing_input_def append_assoc same_append_eq]
  note s1 = sign_field_inj [OF eq]
  note s2 = sign_field_inj [OF conjunct2 [OF s1]]
  note s3 = sign_field_inj [OF conjunct2 [OF s2]]
  note s4 = sign_field_inj [OF conjunct2 [OF s3]]
  note s5 = sign_field_inj [OF conjunct2 [OF s4]]
  show "d = d'" using sign_field_inj [of "''body_sha256''" d "[]" d' "[]"] conjunct2 [OF s5] by simp
  show "ph_policy_id h = ph_policy_id h'" "ph_version h = ph_version h'" "ph_issued_unix h = ph_issued_unix h'"
    "ph_expires_unix h = ph_expires_unix h'" "ph_scope h = ph_scope h'"
    using s1 s2 s3 s4 s5 by (simp_all add: to_string_inj)
qed

text \<open>The engine of a bundle is what parsing one body gives, and the digest of the bundle is the digest of that body.\<close>

definition engine_of_body :: "policy_limits \<Rightarrow> policy_bundle \<Rightarrow> bool" where
  "engine_of_body limits b \<longleftrightarrow> (\<exists>body. pb_body_sha256 b = ascii (sha256_hex body) \<and> parse_policy body limits = Inr (pb_engine b))"

lemma parse_bundle_body: "parse_policy_bundle str limits = Inr b \<Longrightarrow> engine_of_body limits b"
  by (auto simp: parse_policy_bundle_def header_error_def engine_of_body_def split: option.splits prod.splits if_splits sum.splits)

definition ring_ok :: "verifier \<Rightarrow> command_keyring \<Rightarrow> bool" where
  "ring_ok verify_raw ring \<longleftrightarrow> list_all (\<lambda>(i, point). i = signing_key_id point \<and> usable_point verify_raw point) (kr_keys ring)"

text \<open>Signed, by a key that had the named id, for this host; and pinned now, unless the key list cannot be read now.\<close>

definition signed_for_host :: "verifier \<Rightarrow> policy_store_options \<Rightarrow> policy_bundle \<Rightarrow> bool" where
  "signed_for_host verify_raw opts b \<longleftrightarrow>
     (\<exists>point. signing_key_id point = ph_key_id (pb_header b) \<and> usable_point verify_raw point \<and>
        verify_raw point (policy_signing_input (pb_header b) (pb_body_sha256 b)) (ph_signature (pb_header b)) = Inr True) \<and>
     ph_scope (pb_header b) \<in> {ascii ''all'', ascii ''host:'' @ so_host_id opts}"

definition authorised :: "verifier \<Rightarrow> policy_store \<Rightarrow> bool" where
  "authorised verify_raw s \<longleftrightarrow>
     (\<forall>ring. st_keys s = Some ring \<longrightarrow> ring_ok verify_raw ring) \<and>
     (\<forall>b. st_active s = Some b \<longrightarrow> signed_for_host verify_raw (st_options s) b \<and> engine_of_body (so_limits (st_options s)) b \<and>
        (\<exists>ring. st_keys s = Some ring \<and> (st_keys_error s = [] \<longrightarrow> ph_key_id (pb_header b) \<in> set (key_ids ring))))"

lemma read_file_ring_ok:
  assumes "read_file verify_raw label file = Inr ks" "kr_keys ring = ks"
  shows "ring_ok verify_raw ring"
  using complete_reading_usable [OF read_file_complete [OF assms(1)]] assms(2) by (simp add: ring_ok_def)

lemma refresh_keys_ok:
  assumes "authorised verify_raw s" "st_keys (refresh_keys verify_raw view s) = Some ring"
  shows "ring_ok verify_raw ring"
proof (cases "st_keys s")
  case None
  with assms(2) obtain ks where "read_file verify_raw ''policy signing key file'' (vw_key_file view) = Inr ks" "kr_keys ring = ks"
    by (auto simp: refresh_keys_def keyring_load_def split: sum.splits)
  then show ?thesis by (rule read_file_ring_ok)
next
  case (Some old)
  then have ok: "ring_ok verify_raw old" using assms(1) by (simp add: authorised_def)
  have ring: "ring = keyring_refresh verify_raw (vw_key_info view) (vw_key_now view) (vw_key_file view) old"
    using assms(2) Some by (simp add: refresh_keys_def Let_def)
  then consider "kr_keys ring = kr_keys old" | ks where "read_file verify_raw (kr_label old) (vw_key_file view) = Inr ks" "kr_keys ring = ks"
    by (fastforce simp: keyring_refresh_def Let_def split: option.splits prod.splits if_splits sum.splits)
  then show ?thesis using ok read_file_ring_ok by cases (simp add: ring_ok_def, blast)
qed

lemma refresh_keys_stay: "st_keys s \<noteq> None \<Longrightarrow> st_keys (refresh_keys verify_raw view s) \<noteq> None"
  by (auto simp: refresh_keys_def Let_def)

lemma authority_given:
  assumes "authority_refusal verify_raw now b s = None"
  obtains ring where "st_keys s = Some ring"
    "keyring_verify verify_raw ring (ph_key_id (pb_header b)) (policy_signing_input (pb_header b) (pb_body_sha256 b)) (ph_signature (pb_header b)) = Valid"
    "ph_scope (pb_header b) \<in> {ascii ''all'', ascii ''host:'' @ so_host_id (st_options s)}" "now < int (ph_expires_unix (pb_header b))"
    "int (ph_issued_unix (pb_header b)) \<le> now + so_clock_skew_seconds (st_options s)"
  using assms by (auto simp: authority_refusal_def Let_def split: option.splits authorization_verdict.splits if_splits)

lemma authorised_refresh:
  assumes "authorised verify_raw s" "policy_refresh verify_raw view now s = (cs, s')"
  shows "authorised verify_raw s'"
proof -
  let ?k = "refresh_keys verify_raw view s"
  from policy_refresh_cases [OF assms(2)] obtain s1 where k: "st_keys s1 = st_keys ?k" "st_keys_error s1 = st_keys_error ?k"
      "st_options s1 = st_options s" "st_active s1 = None \<or> st_active s1 = st_active s"
    and pinned: "\<And>a ring. st_active s1 = Some a \<Longrightarrow> st_keys s1 = Some ring \<Longrightarrow> st_keys_error s1 = [] \<Longrightarrow> ph_key_id (pb_header a) \<in> set (key_ids ring)"
    and out: "same_policy s1 s' \<or> (\<exists>b. accepted verify_raw now (vw_state_io view) b s1 s')" by blast
  have rings: "ring_ok verify_raw ring" if "st_keys s1 = Some ring" for ring using refresh_keys_ok [OF assms(1)] that k(1) by simp
  have keys: "st_keys s1 \<noteq> None" if "st_active s1 = Some b" for b
  proof -
    have "st_active s = Some b" using that k(4) by auto
    then have "st_keys s \<noteq> None" using assms(1) by (auto simp: authorised_def)
    then show ?thesis using refresh_keys_stay k(1) by simp
  qed
  from out show ?thesis
  proof
    assume same: "same_policy s1 s'"
    have "signed_for_host verify_raw (st_options s) b \<and> engine_of_body (so_limits (st_options s)) b" if "st_active s1 = Some b" for b
      using that k(4) assms(1) by (auto simp: authorised_def)
    with same rings keys pinned k(3) show ?thesis by (fastforce simp: authorised_def same_policy_def)
  next
    assume "\<exists>b. accepted verify_raw now (vw_state_io view) b s1 s'"
    then obtain b where b: "accepted verify_raw now (vw_state_io view) b s1 s'" by blast
    then have "authority_refusal verify_raw now b s1 = None" by (simp add: accepted_def)
    then obtain ring where r: "st_keys s1 = Some ring"
      "keyring_verify verify_raw ring (ph_key_id (pb_header b)) (policy_signing_input (pb_header b) (pb_body_sha256 b)) (ph_signature (pb_header b)) = Valid"
      "ph_scope (pb_header b) \<in> {ascii ''all'', ascii ''host:'' @ so_host_id (st_options s1)}" by (rule authority_given)
    from r(2) obtain point where p: "map_of (kr_keys ring) (ph_key_id (pb_header b)) = Some point"
      "verify_raw point (policy_signing_input (pb_header b) (pb_body_sha256 b)) (ph_signature (pb_header b)) = Inr True"
      by (auto simp: keyring_verify_def split: option.splits if_splits)
    have mem: "(ph_key_id (pb_header b), point) \<in> set (kr_keys ring)" using p(1) by (rule map_of_SomeD)
    then have "signing_key_id point = ph_key_id (pb_header b)" "usable_point verify_raw point"
      using rings [OF r(1)] by (auto simp: ring_ok_def list_all_iff)
    with p(2) r(3) have "signed_for_host verify_raw (st_options s1) b" unfolding signed_for_host_def by blast
    moreover have "ph_key_id (pb_header b) \<in> set (key_ids ring)" using mem by (force simp: key_ids_def)
    moreover have "engine_of_body (so_limits (st_options s1)) b" using b parse_bundle_body by (auto simp: accepted_def)
    ultimately show ?thesis using b r(1) rings by (auto simp: authorised_def accepted_def)
  qed
qed

lemma authorised_step:
  assumes "authorised verify_raw s \<and> st_options s = opts" "policy_event_step verify_raw e (s, loads) = (s', loads')"
  shows "authorised verify_raw s' \<and> st_options s' = opts"
proof (cases e)
  case (Refresh view now)
  obtain cs t where p: "policy_refresh verify_raw view now s = (cs, t)" by fastforce
  from policy_refresh_cases [OF p] have "st_options t = st_options s" by (auto simp: same_policy_def accepted_def)
  with assms p Refresh authorised_refresh [of verify_raw s view now cs t] show ?thesis by auto
next
  case (Restart legible)
  with assms show ?thesis by (auto simp: policy_store_new_def authorised_def Let_def)
qed

interpretation authority: policy_invariant verify_raw opts "\<lambda>e. True" "\<lambda>s loads. authorised verify_raw s \<and> st_options s = opts" for verify_raw opts
  by unfold_locales (simp add: policy_store_new_def authorised_def, rule authorised_step)

text \<open>
  C13. Only an authorised policy decides. Whatever files, keys and restarts came before, the policy that decides at a moment has
  not expired, is for this host, and carries a signature that a usable key of the id it names verified over bytes that determine
  its id, version, times of issue and expiry, scope and body digest; that digest is the SHA-256 of a body, and parsing that same
  body gave the engine that decides; and the key is pinned still unless the key list cannot be read now.
\<close>

theorem policy_in_force_authorised:
  assumes "policy_active (fst (policy_run verify_raw opts events)) now = Some b"
  shows "now < int (ph_expires_unix (pb_header b)) \<and> signed_for_host verify_raw opts b \<and>
    (\<exists>body. pb_body_sha256 b = ascii (sha256_hex body) \<and> parse_policy body (so_limits opts) = Inr (pb_engine b)) \<and>
    (\<exists>ring. st_keys (fst (policy_run verify_raw opts events)) = Some ring \<and>
       (st_keys_error (fst (policy_run verify_raw opts events)) = [] \<longrightarrow> ph_key_id (pb_header b) \<in> set (key_ids ring))) \<and>
    (\<forall>h d. policy_signing_input h d = policy_signing_input (pb_header b) (pb_body_sha256 b) \<longrightarrow>
       d = pb_body_sha256 b \<and> ph_policy_id h = ph_policy_id (pb_header b) \<and> ph_version h = ph_version (pb_header b) \<and>
       ph_issued_unix h = ph_issued_unix (pb_header b) \<and> ph_expires_unix h = ph_expires_unix (pb_header b) \<and> ph_scope h = ph_scope (pb_header b))"
proof -
  let ?s = "fst (policy_run verify_raw opts events)"
  have a: "st_active ?s = Some b" "now < int (ph_expires_unix (pb_header b))"
    using assms by (auto simp: policy_active_def split: option.splits if_splits)
  have "authorised verify_raw ?s \<and> st_options ?s = opts" by (rule authority.run) (simp add: list_all_iff)
  then have "authorised verify_raw ?s" and opts: "st_options ?s = opts" by simp_all
  with a(1) have signed: "signed_for_host verify_raw (st_options ?s) b"
    and body: "\<exists>body. pb_body_sha256 b = ascii (sha256_hex body) \<and> parse_policy body (so_limits (st_options ?s)) = Inr (pb_engine b)"
    and pinned: "\<exists>ring. st_keys ?s = Some ring \<and> (st_keys_error ?s = [] \<longrightarrow> ph_key_id (pb_header b) \<in> set (key_ids ring))"
    by (simp_all add: authorised_def engine_of_body_def)
  have same: "\<forall>h d. policy_signing_input h d = policy_signing_input (pb_header b) (pb_body_sha256 b) \<longrightarrow>
       d = pb_body_sha256 b \<and> ph_policy_id h = ph_policy_id (pb_header b) \<and> ph_version h = ph_version (pb_header b) \<and>
       ph_issued_unix h = ph_issued_unix (pb_header b) \<and> ph_expires_unix h = ph_expires_unix (pb_header b) \<and> ph_scope h = ph_scope (pb_header b)"
    by (intro allI impI conjI) (erule policy_signing_input_injective)+
  show ?thesis by (intro conjI a(2) signed [unfolded opts] body [unfolded opts] pinned same)
qed

text \<open>The agent reports an active policy only while one decides and nothing stands in its way.\<close>

lemma healthy_policy_decides:
  assumes "fst (policy_health s now) = ''active''"
  shows "policy_active s now = st_active s \<and> st_active s \<noteq> None \<and> \<not> st_file_missing s \<and> st_refused_reason s = [] \<and>
    st_keys_error s = [] \<and> st_state_write_error s = []"
  using assms
  by (auto simp: policy_health_def policy_active_def Let_def ascii_def split: option.splits if_splits)

section \<open>A sample policy\<close>

definition accept_all :: verifier where "accept_all point data signature = Inr True"

definition sample_point :: bytes where "sample_point = replicate 65 4"

definition sample_policy_limits :: policy_limits where
  "sample_policy_limits = \<lparr>pm_maximum_rules = 4, pm_maximum_iocs = 4, pm_maximum_line_bytes = 64, pm_maximum_decisions = 4, pm_maximum_matched_bytes = 32\<rparr>"

definition sample_body :: bytes where
  "sample_body = ascii ''rule r1 * exe prefix alert high /tmp'' @ 0x0A # ascii ''allow exe /usr/bin''"

definition sample_engine :: policy_engine where
  "sample_engine = (case parse_policy sample_body sample_policy_limits of Inr e \<Rightarrow> e)"

lemma sample_engine:
  "parse_policy sample_body sample_policy_limits = Inr sample_engine \<and> length (pe_rules sample_engine) = 1 \<and>
   pe_allow_exe sample_engine = [ascii ''/usr/bin'']"
proof -
  have "case parse_policy sample_body sample_policy_limits of Inl _ \<Rightarrow> False
    | Inr e \<Rightarrow> length (pe_rules e) = 1 \<and> pe_allow_exe e = [ascii ''/usr/bin'']" by code_simp
  then show ?thesis by (auto simp: sample_engine_def split: sum.splits)
qed

definition sample_policy_bundle :: "nat \<Rightarrow> policy_bundle" where
  "sample_policy_bundle v =
     \<lparr>pb_header = \<lparr>ph_policy_id = ascii ''p'', ph_version = v, ph_issued_unix = 1, ph_expires_unix = 9, ph_scope = ascii ''all'',
        ph_key_id = signing_key_id sample_point, ph_signature = replicate 64 0\<rparr>,
      pb_body_sha256 = ascii (sha256_hex sample_body), pb_engine = sample_engine\<rparr>"

lemma header_line_split: "0x0A \<notin> set l \<Longrightarrow> header_line (l @ 0x0A # r) = Some (l, r)"
  by (simp add: header_line_def takeWhile_append dropWhile_append)

lemma header_values_step:
  assumes "0x20 \<notin> set (ascii name)" "0x0A \<notin> set (ascii name)" "v \<noteq> []" "length v \<le> 256" "printable_value v" "0x0A \<notin> set v"
  shows "header_values k (name # names) (ascii name @ 0x20 # v @ 0x0A # r) =
    (case header_values (k + 1) names r of Inl e \<Rightarrow> Inl e | Inr (vs, r') \<Rightarrow> Inr (v # vs, r'))"
proof -
  have "header_line ((ascii name @ 0x20 # v) @ 0x0A # r) = Some (ascii name @ 0x20 # v, r)"
    using assms(2,6) by (intro header_line_split) simp
  then show ?thesis using assms by (simp add: takeWhile_append dropWhile_append)
qed

lemma base64_value_plain: "base64_value c \<noteq> None \<Longrightarrow> 0x20 < c \<and> c < 0x7F \<and> c \<noteq> 0x23"
  by (auto simp: base64_value_def word_le_nat_alt word_less_nat_alt split: if_splits)

lemma encoded_values: "list_all (\<lambda>c. base64_value c \<noteq> None \<or> c = 0x3D) (response_profile_header bs)"
proof (induction bs rule: response_profile_header.induct)
  case (2 a)
  show ?case unfolding response_profile_header.simps list.pred_inject alphabet_values by simp
next
  case (3 a b)
  show ?case unfolding response_profile_header.simps list.pred_inject alphabet_values by simp
next
  case (4 a b c rest)
  then show ?case unfolding response_profile_header.simps append_Cons append_Nil list.pred_inject alphabet_values by simp
qed simp

lemma encoded_plain:
  assumes "c \<in> set (response_profile_header bs)"
  shows "0x20 < c \<and> c < 0x7F \<and> c \<noteq> 0x23"
proof (cases "c = 0x3D")
  case False
  then show ?thesis using assms encoded_values [of bs] base64_value_plain by (auto simp: list_all_iff)
qed simp

lemma encoded_printable: "printable_value (response_profile_header bs)" "0x0A \<notin> set (response_profile_header bs)" "0x20 \<notin> set (response_profile_header bs)"
  using encoded_plain [of _ bs] by (force simp: printable_value_def list_all_iff)+

lemma decode_encode: "bs \<noteq> [] \<Longrightarrow> response_profile_header bs \<noteq> [] \<and> decode_base64 (response_profile_header bs) = Some bs"
proof -
  assume "bs \<noteq> []"
  then have "response_profile_header bs \<noteq> []" by (cases bs rule: response_profile_header.cases) simp_all
  then show ?thesis using length_encode [of bs] by (simp add: decode_base64_def decode_encode_loop del: base64_loop.simps)
qed

lemma encoded_length: "length (response_profile_header bs) \<le> 2 * length bs + 2"
  by (induction bs rule: response_profile_header.induct) simp_all

lemma trimmed_encoded: "trimmed (response_profile_header bs) = response_profile_header bs"
proof -
  have "\<not> key_blank c" if "c \<in> set (response_profile_header bs)" for c
    using encoded_plain [OF that] by (auto simp: key_blank_def)
  then have "xs = [] \<or> \<not> key_blank (hd xs)" if "set xs = set (response_profile_header bs)" for xs :: bytes
    using that hd_in_set [of xs] by blast
  from this [of "response_profile_header bs"] this [of "rev (response_profile_header bs)"]
  have "dropWhile key_blank (response_profile_header bs) = response_profile_header bs"
      "dropWhile key_blank (rev (response_profile_header bs)) = rev (response_profile_header bs)"
    unfolding dropWhile_eq_self_iff by (simp_all only: set_rev simp_thms rev_is_Nil_conv)
  then show ?thesis by (simp add: trimmed_def)
qed

lemma key_line_encoded:
  assumes "length point = 65" "usable_point verify_raw point"
  shows "key_line verify_raw where_at (response_profile_header point) = Inr (Some point)"
proof -
  have ne: "point \<noteq> []" using assms(1) by auto
  have word: "takeWhile (\<lambda>c. c \<noteq> 0x20 \<and> c \<noteq> 0x09) (response_profile_header point) = response_profile_header point"
    using encoded_plain [of "0x20" point] encoded_plain [of "0x09" point] by (auto simp: takeWhile_eq_all_conv)
  have "hd (response_profile_header point) \<noteq> 0x23"
    using encoded_plain [OF hd_in_set] decode_encode [OF ne] by auto
  then show ?thesis using assms decode_encode [OF ne] unfolding key_line_def trimmed_encoded Let_def word by simp
qed

lemma key_id_text: "lower_hex_text (signing_key_id point) 16"
  using sha256_text_ok [of point] set_take_subset [of 16 "sha256_hex point"]
  by (auto simp: lower_hex_text_def signing_key_id_def ascii_def list_all_iff)

lemma lower_hex_printable: "lower_hex_text t n \<Longrightarrow> printable_value t \<and> 0x0A \<notin> set t"
  by (auto simp: lower_hex_text_def printable_value_def list_all_iff word_le_nat_alt word_less_nat_alt)

definition sample_header_values :: "nat \<Rightarrow> bytes list" where
  "sample_header_values v = [ascii ''p'', ascii (to_string v), ascii ''1'', ascii ''9'', ascii ''all'', signing_key_id sample_point, response_profile_header (replicate 64 0)]"

lemma sample_value_ok:
  assumes "v < 10" "x \<in> set (sample_header_values v)"
  shows "x \<noteq> [] \<and> length x \<le> 256 \<and> printable_value x \<and> 0x0A \<notin> set x"
proof -
  have k: "lower_hex_text (signing_key_id sample_point) 16" by (rule key_id_text)
  have "length (response_profile_header (replicate 64 (0 :: byte))) \<le> 256" using encoded_length [of "replicate 64 0"] by simp
  moreover have "response_profile_header (replicate 64 (0 :: byte)) \<noteq> []" using decode_encode [of "replicate 64 0"] by simp
  moreover have "signing_key_id sample_point \<noteq> []" "length (signing_key_id sample_point) \<le> 256" using k by (auto simp: lower_hex_text_def)
  moreover have "printable_value (ascii (to_string v)) \<and> 0x0A \<notin> set (ascii (to_string v))" 
    using to_string_bytes(1) [of v] by (auto simp: printable_value_def list_all_iff decimal_byte_def word_le_nat_alt word_less_nat_alt)
  moreover have "length (ascii (to_string v)) \<le> 256" "ascii (to_string v) \<noteq> []"
    using length_to_string [of 1 v] assms(1) to_string_nonempty [of v] by (simp_all add: ascii_def)
  ultimately show ?thesis
    using assms(2) lower_hex_printable [OF k] encoded_printable [of "replicate 64 0"]
    by (auto simp: sample_header_values_def ascii_def [of "''p''"] ascii_def [of "''1''"] ascii_def [of "''9''"] ascii_def [of "''all''"] printable_value_def [of "[_]"] printable_value_def [of "[_, _, _]"])
qed

fun header_text :: "string list \<Rightarrow> bytes list \<Rightarrow> bytes" where
  "header_text (n # ns) (x # xs) = ascii n @ 0x20 # x @ 0x0A # header_text ns xs"
| "header_text _ _ = []"

lemma header_values_text:
  assumes "length ns = length xs" "\<And>n. n \<in> set ns \<Longrightarrow> 0x20 \<notin> set (ascii n) \<and> 0x0A \<notin> set (ascii n)"
    "\<And>x. x \<in> set xs \<Longrightarrow> x \<noteq> [] \<and> length x \<le> 256 \<and> printable_value x \<and> 0x0A \<notin> set x"
  shows "header_values k ns (header_text ns xs @ r) = Inr (xs, r)"
  using assms
proof (induction ns xs arbitrary: k rule: list_induct2)
  case (Cons n ns x xs)
  then show ?case using header_values_step [of n x k ns "header_text ns xs @ r"] by simp
qed simp

definition sample_policy_text :: "nat \<Rightarrow> bytes" where
  "sample_policy_text v = ascii ''panopticon-policy 1'' @ 0x0A # header_text header_names (sample_header_values v) @ ascii ''---'' @ 0x0A # sample_body"

lemma sample_header_of:
  assumes "0 < v" "v < 10"
  shows "header_of (sample_header_values v) = Inr (pb_header (sample_policy_bundle v))"
proof -
  have v: "v \<le> uint64_greatest" "v < 10 ^ 19" "\<not> int64_greatest < v" using assms(2) by (simp_all add: uint64_greatest_def int64_greatest_def)
  have p: "is_valid_identifier (ascii ''p'')" "scope_ok (ascii ''all'')" by code_simp+
  have "to_string 1 = ''1''" "to_string 9 = ''9''" by code_simp+
  then have n: "plain_decimal int64_greatest (ascii ''1'') = Some 1" "plain_decimal int64_greatest (ascii ''9'') = Some 9"
    using plain_decimal_to_string [of 1 int64_greatest] plain_decimal_to_string [of 9 int64_greatest] by (simp_all add: int64_greatest_def)
  have nth: "sample_header_values v ! 0 = ascii ''p''" "sample_header_values v ! 1 = ascii (to_string v)" "sample_header_values v ! 2 = ascii ''1''"
    "sample_header_values v ! 3 = ascii ''9''" "sample_header_values v ! 4 = ascii ''all''" "sample_header_values v ! 5 = signing_key_id sample_point"
    "sample_header_values v ! 6 = response_profile_header (replicate 64 0)"
    by (simp_all add: sample_header_values_def)
  have sig: "decode_base64 (response_profile_header (replicate 64 0)) = Some (replicate 64 (0 :: byte))" using decode_encode [of "replicate 64 0"] by simp
  show ?thesis
    unfolding header_of_def nth plain_decimal_to_string [OF v(1,2)] n sig option.case prod.case
    using key_id_text [of sample_point] assms(1) v(3) p by (simp add: sample_policy_bundle_def latest_unix_def)
qed

lemma parse_sample:
  assumes "0 < v" "v < 10"
  shows "parse_policy_bundle (sample_policy_text v) sample_policy_limits = Inr (sample_policy_bundle v)"
proof -
  have first: "header_line (sample_policy_text v) = Some (ascii ''panopticon-policy 1'', header_text header_names (sample_header_values v) @ ascii ''---'' @ 0x0A # sample_body)"
    unfolding sample_policy_text_def by (rule header_line_split) code_simp
  have "0x20 \<notin> set (ascii n) \<and> 0x0A \<notin> set (ascii n)" if "n \<in> set header_names" for n
  proof -
    have "list_all (\<lambda>n. 0x20 \<notin> set (ascii n) \<and> 0x0A \<notin> set (ascii n)) header_names" by code_simp
    then show ?thesis using that by (simp add: list_all_iff)
  qed
  moreover have "length header_names = length (sample_header_values v)" by (simp add: header_names_def sample_header_values_def)
  ultimately have vs: "header_values 0 header_names (header_text header_names (sample_header_values v) @ ascii ''---'' @ 0x0A # sample_body) =
      Inr (sample_header_values v, ascii ''---'' @ 0x0A # sample_body)"
    using sample_value_ok [OF assms(2)] by (intro header_values_text) simp_all
  have last: "header_line (ascii ''---'' @ 0x0A # sample_body) = Some (ascii ''---'', sample_body)" by (rule header_line_split) code_simp
  have body: "parse_policy sample_body sample_policy_limits = Inr sample_engine" using sample_engine by simp
  show ?thesis unfolding parse_policy_bundle_def first vs last sample_header_of [OF assms] body option.case prod.case sum.case
    by (simp add: sample_policy_bundle_def)
qed

section \<open>A sample host\<close>

definition sample_policy_options :: policy_store_options where
  "sample_policy_options = \<lparr>so_policy_path = ''/etc/panopticon/policy'', so_host_id = ascii ''h'', so_clock_skew_seconds = 30,
     so_maximum_file_bytes = 32 * 2 ^ 20, so_limits = sample_policy_limits\<rparr>"

definition sample_policy_ring :: command_keyring where
  "sample_policy_ring = \<lparr>kr_has_path = True, kr_label = ''policy signing key file'', kr_keys = [(signing_key_id sample_point, sample_point)],
     kr_file = (89, 1, 1, 1, 1), kr_last_error = []\<rparr>"

definition sample_policy_view :: "nat \<Rightarrow> policy_view" where
  "sample_policy_view v =
     \<lparr>vw_key_file = \<lparr>kf_path = ''keys'', kf_untrusted = [], kf_lines = Some [response_profile_header sample_point]\<rparr>,
      vw_key_loaded = Some (89, 1, 1, 1, 1), vw_key_info = Some ((89, 1, 1, 1, 1), 0, 0), vw_key_now = 5,
      vw_stat = Some \<lparr>fs_size = 300, fs_mtime_ns = 1, fs_ctime_ns = 1, fs_inode = of_nat v, fs_mtime_sec = 0, fs_ctime_sec = 0\<rparr>,
      vw_untrusted = [], vw_content = Some (sample_policy_text v), vw_state_io = State_written\<rparr>"

lemma sample_keys: "keyring_load accept_all ''policy signing key file'' (vw_key_file (sample_policy_view v)) (vw_key_loaded (sample_policy_view v)) = Inr sample_policy_ring"
proof -
  have "key_line accept_all where_at (response_profile_header sample_point) = Inr (Some sample_point)" for where_at
    by (rule key_line_encoded) (simp_all add: sample_point_def usable_point_def accept_all_def succeeded_def)
  then show ?thesis by (simp add: keyring_load_def read_file_def sample_policy_view_def sample_policy_ring_def add_key_def)
qed

lemma sample_authority:
  assumes "st_keys s = Some sample_policy_ring" "st_options s = sample_policy_options"
  shows "authority_refusal accept_all 5 (sample_policy_bundle v) s = None"
proof -
  have "keyring_verify accept_all sample_policy_ring (ph_key_id (pb_header (sample_policy_bundle v))) d sig = Valid" for d sig
    by (simp add: keyring_verify_def sample_policy_ring_def sample_policy_bundle_def accept_all_def)
  then show ?thesis using assms by (simp add: authority_refusal_def sample_policy_options_def Let_def) (simp add: sample_policy_bundle_def)
qed

text \<open>A store that has just started takes the policy in place, unless it would be a rollback.\<close>

definition fresh_store :: "policy_store \<Rightarrow> bool" where
  "fresh_store s \<longleftrightarrow> st_options s = sample_policy_options \<and> st_keys s = None \<and> st_active s = None \<and> st_last_file_digest s = [] \<and>
     st_file s = (- 1, - 1, - 1, 0)"

lemma sample_length:
  assumes "v < 10"
  shows "length (sample_policy_text v) \<le> so_maximum_file_bytes sample_policy_options"
proof -
  have "length (header_text ns xs) \<le> (\<Sum>n\<leftarrow>ns. length n + 2) + (\<Sum>x\<leftarrow>xs. length x)" for ns xs
    by (induction ns xs rule: header_text.induct) (simp_all add: ascii_def)
  from this [of header_names "sample_header_values v"] sum_list_mono [of "sample_header_values v" length "\<lambda>_. 256"]
  show ?thesis using sample_value_ok [OF assms]
    by (simp add: sample_policy_text_def sample_policy_options_def ascii_def header_names_def sample_header_values_def sample_body_def)
qed

lemma sample_consider:
  assumes "0 < v" "v < 10" "st_keys s = Some sample_policy_ring" "st_options s = sample_policy_options" "st_active s = None" "st_last_file_digest s = []"
    "rollback_refusal (sample_policy_bundle v) s = None"
  shows "\<exists>c s'. consider_file accept_all (sample_policy_view v) 5 force s = (Some c, s') \<and> loaded c \<and> st_active s' = Some (sample_policy_bundle v) \<and>
    st_saved s' = Some (saved_of (sample_policy_bundle v)) \<and> st_state_file s' = state_after State_written (sample_policy_bundle v) s"
proof -
  let ?s = "s\<lparr>st_last_file_digest := sha256_hex (sample_policy_text v)\<rparr>"
  have same: "same_policy s ?s" by (simp add: same_policy_def)
  note checks = same_policy_checks [OF same]
  have "sha256_hex (sample_policy_text v) \<noteq> []" using sha256_hex_form(1) [of "sample_policy_text v"] by auto
  then have taken: "consider_file accept_all (sample_policy_view v) 5 force s = decide_bundle accept_all 5 State_written (sample_policy_bundle v) ?s"
    using assms(4,6) parse_sample [OF assms(1,2)] sample_length [OF assms(2)]
    by (simp add: consider_file_def sample_policy_view_def Let_def) (simp add: sample_policy_options_def)
  obtain c s' where l: "load_policy State_written (sample_policy_bundle v) ?s = (c, s')" by fastforce
  have "decide_bundle accept_all 5 State_written (sample_policy_bundle v) ?s = (Some c, s')"
    unfolding decide_bundle_def checks sample_authority [OF assms(3,4)] assms(7) l using assms(5) by (simp add: already_active_def)
  with taken load_policy_accepts [OF l] checks(5) show ?thesis by simp
qed

lemma sample_refresh:
  assumes "0 < v" "v < 10" "fresh_store s" "rollback_refusal (sample_policy_bundle v) s = None"
  shows "\<exists>cs s'. policy_refresh accept_all (sample_policy_view v) 5 s = (cs, s') \<and> list_ex loaded cs \<and> st_active s' = Some (sample_policy_bundle v) \<and>
    st_options s' = sample_policy_options \<and>
    st_saved s' = Some (saved_of (sample_policy_bundle v)) \<and> st_state_file s' = state_after State_written (sample_policy_bundle v) s"
proof -
  let ?k = "refresh_keys accept_all (sample_policy_view v) s"
  let ?k' = "?k\<lparr>st_keys_fingerprint := fingerprint ?k\<rparr>"
  have k: "?k = s\<lparr>st_keys := Some sample_policy_ring, st_keys_error := []\<rparr>"
    using assms(3) by (simp add: refresh_keys_def fresh_store_def sample_keys)
  have r: "revoke ?k' = ([], ?k')" unfolding k using assms(3) by (simp add: revoke_def fresh_store_def)
  let ?s = "?k'\<lparr>st_file_missing := False, st_file := (300, 1, 1, of_nat v)\<rparr>"
  have eqs: "st_saved ?s = st_saved s" "st_state_file ?s = st_state_file s" "st_saved_unreadable ?s = st_saved_unreadable s" unfolding k by simp_all
  have rb: "rollback_refusal (sample_policy_bundle v) ?s = None" using assms(4) unfolding rollback_refusal_def eqs .
  have ks: "st_keys ?s = Some sample_policy_ring" "st_options ?s = sample_policy_options" "st_active ?s = None" "st_last_file_digest ?s = []"
    using assms(3) unfolding k by (simp_all add: fresh_store_def)
  obtain c t where c: "consider_file accept_all (sample_policy_view v) 5 (fingerprint ?k \<noteq> st_keys_fingerprint ?k) ?s = (Some c, t)" "loaded c"
    "st_active t = Some (sample_policy_bundle v)" "st_saved t = Some (saved_of (sample_policy_bundle v))" "st_state_file t = state_after State_written (sample_policy_bundle v) ?s"
    using sample_consider [OF assms(1,2) ks rb] by blast
  have seen: "file_seen accept_all (sample_policy_view v) 5 (fingerprint ?k \<noteq> st_keys_fingerprint ?k) (the (vw_stat (sample_policy_view v))) ?k' = ([c], t)"
    using c(1) assms(3) unfolding k by (simp add: file_seen_def Let_def sample_policy_view_def fresh_store_def)
  have st: "vw_stat (sample_policy_view v) = Some (the (vw_stat (sample_policy_view v)))" by (simp add: sample_policy_view_def)
  have e: "expire 5 t = ([], t)" using c(3) by (simp add: expire_def sample_policy_bundle_def)
  have out: "policy_refresh accept_all (sample_policy_view v) 5 s = ([c], t)"
    unfolding policy_refresh_def Let_def r prod.case simp_thms by (subst st) (simp add: seen e)
  have "state_after State_written (sample_policy_bundle v) ?s = state_after State_written (sample_policy_bundle v) s"
    unfolding state_after_def load_reason_def eqs ..
  moreover have "st_options t = st_options s" using policy_refresh_cases [OF out] by (auto simp: same_policy_def accepted_def)
  ultimately show ?thesis using out c assms(3) by (auto simp: fresh_store_def)
qed

text \<open>Version 1 comes into force, the agent restarts, and version 2 takes its place.\<close>

definition sample_policy_history :: "policy_event list" where
  "sample_policy_history = [Refresh (sample_policy_view 1) 5, Restart True, Refresh (sample_policy_view 2) 5]"

lemma sample_policy_run:
  "snd (policy_run accept_all sample_policy_options sample_policy_history) = [sample_policy_bundle 1, sample_policy_bundle 2] \<and>
   st_active (fst (policy_run accept_all sample_policy_options sample_policy_history)) = Some (sample_policy_bundle 2)"
proof -
  let ?s0 = "policy_store_new sample_policy_options True None"
  have "fresh_store ?s0" "rollback_refusal (sample_policy_bundle 1) ?s0 = None"
    by (simp_all add: policy_store_new_def fresh_store_def rollback_refusal_def)
  from sample_refresh [OF _ _ this] obtain cs1 s1 where s1: "policy_refresh accept_all (sample_policy_view 1) 5 ?s0 = (cs1, s1)" "list_ex loaded cs1"
    "st_active s1 = Some (sample_policy_bundle 1)" "st_options s1 = sample_policy_options"
    "st_state_file s1 = state_after State_written (sample_policy_bundle 1) ?s0" by auto
  let ?s2 = "policy_store_new sample_policy_options True (st_state_file s1)"
  have "st_state_file s1 = Some (policy_state_text (saved_of (sample_policy_bundle 1)))"
    using s1(5) by (simp add: state_after_def load_reason_def policy_store_new_def)
  moreover have "saved_ok (saved_of (sample_policy_bundle 1))" using parse_bundle_ok [OF parse_sample [of 1]] by simp
  ultimately have "st_saved ?s2 = Some (saved_of (sample_policy_bundle 1))" by (simp add: policy_store_new_def read_state_text)
  then have "rollback_refusal (sample_policy_bundle 2) ?s2 = None" by (simp add: rollback_refusal_def saved_of_def sample_policy_bundle_def)
  moreover have "fresh_store ?s2" by (simp add: policy_store_new_def fresh_store_def Let_def)
  ultimately obtain cs3 s3 where s3: "policy_refresh accept_all (sample_policy_view 2) 5 ?s2 = (cs3, s3)" "list_ex loaded cs3"
    "st_active s3 = Some (sample_policy_bundle 2)" using sample_refresh [of 2 ?s2] by auto
  show ?thesis using s1 s3 by (simp add: policy_run_def sample_policy_history_def)
qed

text \<open>The history of the sample meets what \<open>policy_no_rollback\<close> asks for.\<close>

theorem policy_no_rollback_witness:
  "list_all recording sample_policy_history \<and> length (snd (policy_run accept_all sample_policy_options sample_policy_history)) = 2 \<and>
   (let loads = snd (policy_run accept_all sample_policy_options sample_policy_history); a = loads ! 0; b = loads ! 1
    in ph_version (pb_header a) < ph_version (pb_header b) \<or>
       ph_version (pb_header a) = ph_version (pb_header b) \<and> ph_policy_id (pb_header a) = ph_policy_id (pb_header b) \<and>
       pb_body_sha256 a = pb_body_sha256 b)"
proof -
  have r: "list_all recording sample_policy_history" by (simp add: sample_policy_history_def sample_policy_view_def)
  have l: "length (snd (policy_run accept_all sample_policy_options sample_policy_history)) = 2" by (simp add: sample_policy_run)
  show ?thesis using policy_no_rollback [OF r, of 0 1 accept_all sample_policy_options] r l by simp
qed

text \<open>A policy in force, at time 5.\<close>

theorem policy_in_force_authorised_witness:
  "policy_active (fst (policy_run accept_all sample_policy_options sample_policy_history)) 5 = Some (sample_policy_bundle 2) \<and>
   signed_for_host accept_all sample_policy_options (sample_policy_bundle 2) \<and>
   (\<exists>body. pb_body_sha256 (sample_policy_bundle 2) = ascii (sha256_hex body) \<and>
      parse_policy body (so_limits sample_policy_options) = Inr (pb_engine (sample_policy_bundle 2))) \<and>
   pe_allow_exe (pb_engine (sample_policy_bundle 2)) = [ascii ''/usr/bin'']"
proof -
  have a: "policy_active (fst (policy_run accept_all sample_policy_options sample_policy_history)) 5 = Some (sample_policy_bundle 2)"
    using sample_policy_run by (simp add: policy_active_def sample_policy_bundle_def)
  have "pe_allow_exe (pb_engine (sample_policy_bundle 2)) = [ascii ''/usr/bin'']"
    using sample_engine by (simp add: sample_policy_bundle_def)
  then show ?thesis using policy_in_force_authorised [OF a] a by blast
qed

definition sample_rules :: bytes where
  "sample_rules = ascii ''rule r1 * dest_domain ioc alert high'' @ 0x0A # ascii ''ioc dest_domain Evil.example'' @ 0x0A # ascii ''allow exe /usr/bin''"

text \<open>A policy with a rule, an indicator and an allowed path is well-formed.\<close>

theorem parse_policy_well_formed_witness:
  "\<exists>e. parse_policy sample_rules sample_policy_limits = Inr e \<and> pe_iocs e F_dest_domain = [ascii ''evil.example''] \<and>
     length (pe_rules e) = 1 \<and> engine_ok e \<and> pe_limits e = sample_policy_limits"
proof -
  have "case parse_policy sample_rules sample_policy_limits of Inl _ \<Rightarrow> False
    | Inr e \<Rightarrow> pe_iocs e F_dest_domain = [ascii ''evil.example''] \<and> length (pe_rules e) = 1" by code_simp
  then obtain e where e: "parse_policy sample_rules sample_policy_limits = Inr e" "pe_iocs e F_dest_domain = [ascii ''evil.example'']"
    "length (pe_rules e) = 1" by (auto split: sum.splits)
  from parse_policy_well_formed [OF e(1)] e show ?thesis by blast
qed

end
