(* ===== verification/Spec2Isabelle.thy ===== *)
theory Spec2Isabelle
  imports Event_Queue Wal_Accounting Wal_Quota Bpf_Properties Bpf_Windows Json_Roundtrip Uplink_Properties Dns_Message Container_Identity State_Diff Loss_Properties Process_Properties Entity_Properties Channel_Properties Local_Executor Isolation_Properties Policy_Properties
begin

text \<open>
  \<^bold>\<open>The Panopticon Linux sensor.\<close>

  The program is an endpoint sensor: eBPF programs and other providers observe the host, a pipeline turns
  observations into records, a write-ahead log keeps them until the Manager has acknowledged them, an uplink delivers
  them, and a command channel carries out what the Manager asks for. Source paths below are relative to the repository;
  \<^verbatim>\<open>sensor/x.cpp\<close> is \<^verbatim>\<open>src/sensor/x.cpp\<close> with its header under \<^verbatim>\<open>include/panopticon/linux_agent/\<close>. The development
  follows the data: observation, recording, delivery, commands, effects on the host. A theory \<open>X\<close> holds the translated
  code of a part; \<open>X_Properties\<close> (or a theory named below it) holds what is proved of it.

  \<^bold>\<open>Conventions.\<close> A class is a record, a method is a function that returns the record it changed; \<open>result<T>\<close> is a sum
  with the error on the left (\<open>Prelude\<close>, \<^verbatim>\<open>error.hpp\<close>). Integers have the width of the source where wrapping can matter;
  sequence numbers, byte counts and lengths that only count up are natural numbers. Text is a list of bytes (or of chars
  where only ASCII literals occur). What the program does not decide is an argument: the answers of system
  calls and of the network, the clock, what a file holds when it is read, signatures. Every failure the code tests for is
  a branch. \<open>Prelude\<close> also has the sequence algorithms of the standard library, decimal text and the rewrite
  collections of the other theories.

  \<^bold>\<open>Observation.\<close>
  \<^item> \<open>Bpf_Events\<close>, \<open>Bpf_Programs\<close>: \<^verbatim>\<open>bpf/panopticon_events.h\<close> and every program of \<^verbatim>\<open>bpf/panopticon.bpf.c\<close> over explicit
    maps. The locale \<open>bpf_simulation\<close> of \<open>Bpf_Properties\<close> states what a relation between two states of the maps must
    keep of the building blocks, and gives it for all programs; it is interpreted twice: against an unbounded ring (the drop
    counter is exact) and against another content of the scratch event (no stale bytes). \<open>Bpf_Windows\<close>: rate
    windows, reader wake-up, the span of argv.
  \<^item> \<open>Process_Info\<close>: \<^verbatim>\<open>sensor/process_info.cpp\<close>, over any behaviour of \<open>read(2)\<close>. \<open>Process_Properties\<close>: bounded reading,
    parsing, the allowlist, no record mixes two processes.
  \<^item> \<open>Container_Identity\<close>: \<^verbatim>\<open>sensor/container_identity.cpp\<close>. \<open>Dns_Message\<close>: \<^verbatim>\<open>sensor/dns_message.cpp\<close>. Both parsers
    are characterised against a declarative form of what they accept.
  \<^item> \<open>Entity_Graph\<close>: \<^verbatim>\<open>sensor/entity_graph.cpp\<close> and the conversions of \<^verbatim>\<open>sensor/clock.cpp\<close>. \<open>Entity_Properties\<close>: the
    invariant of the two maps over every sequence of records, scans and purges; when an exit is inferred; what a purge forgets.
  \<^item> \<open>State_Diff\<close>: \<^verbatim>\<open>sensor/state_diff.cpp\<close>; the changes replay the old inventory into the new one and are true of both.
  \<^item> \<open>Sha256\<close>: \<open>sha256_hex\<close> of \<^verbatim>\<open>src/event.cpp\<close> against the recursive definition of FIPS 180-4.

  \<^bold>\<open>Recording and delivery.\<close>
  \<^item> \<open>Event_Queue\<close>: \<^verbatim>\<open>queue.hpp\<close>, the queue of \<^verbatim>\<open>sensor/provider.hpp\<close>, \<^verbatim>\<open>retry.hpp\<close>. The locale \<open>lossy_buffer\<close> is the contract
    of both queues and is interpreted on both; a consumer that waits is interleaved with every sequence of producers.
  \<^item> \<open>Json_Text\<close>, \<open>Json_Reader\<close>: \<^verbatim>\<open>sensor/json.cpp\<close>, \<^verbatim>\<open>sensor/json_reader.cpp\<close>. \<open>Json_Properties\<close>: termination, limits, no
    duplicate keys. \<open>Json_Roundtrip\<close>: what is written reads back. The parser runs with fuel \<open>2 * length + 1\<close>: every call
    consumes a byte or is the first of a value, and the lemma that it never starves is part of the property.
  \<^item> \<open>Wal_Frame\<close>, \<open>Wal\<close>: \<^verbatim>\<open>sensor/wal.cpp\<close>, with the segment files, the cursor file and what is on stable storage
    in the state. \<open>Wal_Accounting\<close>: no record disappears unreported, whatever system calls return and whatever
    happens to the files. \<open>Wal_Quota\<close>: the size limit.
  \<^item> \<open>Loss_Accounting\<close>: writing and the accounting of losses of \<^verbatim>\<open>sensor/pipeline.cpp\<close>, over the queue and the log, with what the
    uplink and others do to the log between two of its calls as an argument. The locale \<open>pipeline_invariant\<close> of \<open>Loss_Properties\<close>
    lifts an invariant from the parts of an iteration to runs; it is interpreted for the counts per stage (nothing declared
    lost disappears), for the place of every report in the log, and for the limits.
  \<^item> \<open>Uplink\<close>: \<^verbatim>\<open>sensor/uplink.cpp\<close>, written over the log operations it calls. The locale \<open>acked_log\<close> of \<open>Uplink_Properties\<close> is
    its view of a log, interpreted on the write-ahead log; the cursor moves only behind an answer of the Manager.

  \<^bold>\<open>Commands\<close> (\<^verbatim>\<open>sensor/command_auth.cpp\<close>, \<^verbatim>\<open>sensor/command_channel.cpp\<close>).
  \<^item> \<open>Command_Auth\<close>, \<open>Auth_Properties\<close>: signing input, base64, keyring and its file; the verification of an ECDSA signature
    is the argument \<open>verify_raw\<close>.
  \<^item> \<open>Command_Message\<close>, \<open>Message_Properties\<close>, \<open>Envelope_Properties\<close>: timestamps, envelopes, replies to a poll. Pointers
    into a document are options, and a missing member that would be dereferenced is \<open>None\<close>; it is shown not to occur.
  \<^item> \<open>Command_Ledger\<close>, \<open>Ledger_Properties\<close>: the durable set of commands, with its file; a crash keeps a prefix of the
    file that is at least as long as what was synced.
  \<^item> \<open>Command_Processor\<close>, \<open>Processor_Properties\<close>: the decision procedure. \<open>Command_Runs\<close>: histories of commands, crashes,
    restarts and recoveries as an inductive relation; at most one execution, the rate limit.
  \<^item> \<open>Command_Channel\<close>, \<open>Channel_Properties\<close>: one step of the provider. The locale \<open>channel_relation\<close> builds a relation
    between the states before and after a step from the parts of a step; it is interpreted for the refinement of the
    histories of \<open>Command_Runs\<close>, for what the Manager was told, and for the invariant of the ledger.

  \<^bold>\<open>Effects on the host.\<close>
  \<^item> \<open>Response\<close>, \<open>Response_Properties\<close>: \<^verbatim>\<open>src/response.cpp\<close>. Each system call sees the host at a moment of its own;
    \<open>kernel_ok\<close> says what pidfds, signals and stat files mean. Waiting for an exit ends after at most \<open>limit div 5 + 2\<close>
    rounds of 5 ms; that many rounds are shown to be enough.
  \<^item> \<open>Isolation\<close>, \<open>Isolation_Properties\<close>: \<^verbatim>\<open>src/isolation.cpp\<close>, \<^verbatim>\<open>src/isolation_ruleset.cpp\<close>, \<^verbatim>\<open>src/isolation_helper_main.cpp\<close>.
    \<open>nft_semantics\<close> says what a transaction does and \<open>truthful\<close> that an answer tells it.
  \<^item> \<open>Local_Executor\<close>: the kill and isolation actions of \<open>local_executor\<close>, composed of the two.

  \<^bold>\<open>Local policy.\<close>
  \<^item> \<open>Policy_Engine\<close>: \<^verbatim>\<open>sensor/policy.cpp\<close>, the rule language and its evaluation. \<open>Policy_Store\<close>: \<^verbatim>\<open>sensor/policy_bundle.cpp\<close>, the signed
    bundle and the store of the policy in force; a refresh takes a \<open>policy_view\<close>, what the key file, the policy file and the
    writing of the record are at that moment, and the record of the accepted version stays when the process restarts.
  \<^item> \<open>Policy_Properties\<close>: evaluation equals matching defined without loops; a policy that loads is well-formed; histories
    of refreshes and restarts. The locale \<open>policy_invariant\<close> carries what an event keeps through a history; it is
    interpreted for the record of the accepted version (no rollback) and for the authority of the policy in force.

  \<^bold>\<open>Assumptions.\<close> Each is a visible hypothesis or a visible choice of the model: the clock of the command channel does not
  go back within a process; \<open>lseek\<close> on an open ledger does not fail and its file is read whole; a rename that returned is
  durable; the kernel behaves as \<open>kernel_ok\<close> and \<open>nft_semantics\<close> say. A 404 or other reply to an acceptance notice
  and the callback \<open>on_accepted\<close> have no effect on the state and are left out of the channel.

  \<^bold>\<open>Not modelled.\<close> The pipeline's enriching of records, the facts it asks the local policy about and its periodic work (they decide which records are
  written, an argument of \<open>Loss_Accounting\<close>), the serializer and the file of settings (formatting between the modelled parts);
  the providers around netlink, audit, fanotify, authentication logs and inventories, the eBPF loader, and the container tracker (input from the kernel
  and libraries, turned into the records of \<open>Entity_Graph\<close>); file actions and the artifact outbox; transports
  (libcurl, OpenSSL), the control socket, process start; the first agent's collection and commands, which the parts
  above replace; threads that only call \<open>step\<close> in a loop; generated kernel types. Of modelled files: the
  collecting and quarantining actions of \<open>local_executor\<close>, artifacts, building of netlink messages by
  libmnl and libnftnl, sampling and printing of clocks.
\<close>

end
